(* ===== verification/Prelude.thy ===== *)
theory Prelude
  imports Main "HOL-Library.Word" "HOL-Library.Monad_Syntax"
begin

text \<open>
  Shared vocabulary of the development: programs as functions into \<open>('a \<times> 's) option\<close>, where
  \<open>Some (a, s)\<close> is the value returned and the state left behind and \<open>None\<close> is an execution whose
  behaviour C++ leaves undefined or that stops in a debugger (a null or dangling pointer that is
  dereferenced, a buffer read past its end, a failed \<open>WUDF_SAMPLE_DRIVER_ASSERT\<close>).
  Handlers are written with the \<open>do\<close> notation of the option monad.  Two predicate transformers
  reason about them: \<open>wp\<close> (the execution is defined and its result satisfies the
  postcondition) and \<open>wlp\<close> (if the execution is defined, the result satisfies it).
\<close>

unbundle bit_operations_syntax

named_theorems wp_rules \<open>rewrite rules of the two predicate transformers\<close>
named_theorems model_defs \<open>definitions of small helper functions of the model\<close>

type_synonym ('a, 's) outcome = "('a \<times> 's) option"
type_synonym byte = "8 word"
type_synonym wchar = "16 word"
type_synonym dword = "32 word"

section \<open>Predicate transformers\<close>

definition wp :: "('a, 's) outcome \<Rightarrow> ('a \<Rightarrow> 's \<Rightarrow> bool) \<Rightarrow> bool" where
  "wp m Q = (case m of None \<Rightarrow> False | Some (a, s) \<Rightarrow> Q a s)"

definition wlp :: "('a, 's) outcome \<Rightarrow> ('a \<Rightarrow> 's \<Rightarrow> bool) \<Rightarrow> bool" where
  "wlp m Q = (case m of None \<Rightarrow> True | Some (a, s) \<Rightarrow> Q a s)"

lemma wp_None [simp, wp_rules]: "wp None Q = False"
  by (simp add: wp_def)

lemma wp_Some [simp, wp_rules]: "wp (Some (a, s)) Q = Q a s"
  by (simp add: wp_def)

lemma wlp_None [simp, wp_rules]: "wlp None Q = True"
  by (simp add: wlp_def)

lemma wlp_Some [simp, wp_rules]: "wlp (Some (a, s)) Q = Q a s"
  by (simp add: wlp_def)

lemma wp_bind [simp, wp_rules]:
  "wp (Option.bind m f) Q = wp m (\<lambda>a s. wp (f (a, s)) Q)"
  by (cases m) (auto simp: wp_def)

lemma wlp_bind [simp, wp_rules]:
  "wlp (Option.bind m f) Q = wlp m (\<lambda>a s. wlp (f (a, s)) Q)"
  by (cases m) (auto simp: wlp_def)

text \<open>
  A step that reads something which may be missing (a pointer, a buffer) has a plain optional
  value; the theories instantiate the two rules at the types they read, since at a product type
  the rules above apply.
\<close>

lemma wlp_read: "wlp (Option.bind m f) Q \<longleftrightarrow> (\<forall>x. m = Some x \<longrightarrow> wlp (f x) Q)"
  by (cases m) auto

lemma wp_read: "wp (Option.bind m f) Q \<longleftrightarrow> (\<exists>x. m = Some x \<and> wp (f x) Q)"
  by (cases m) auto

lemmas wlp_read_types [simp] =
  wlp_read [where m = "m :: nat option" for m] wlp_read [where m = "m :: unit option" for m]
  wlp_read [where m = "m :: bool option" for m] wlp_read [where m = "m :: ('b::len) word list option" for m]

lemmas wp_read_types [simp] =
  wp_read [where m = "m :: nat option" for m] wp_read [where m = "m :: unit option" for m]
  wp_read [where m = "m :: bool option" for m] wp_read [where m = "m :: ('b::len) word list option" for m]

lemma wp_if [wp_rules]: "wp (if b then m else n) Q = ((b \<longrightarrow> wp m Q) \<and> (\<not> b \<longrightarrow> wp n Q))"
  by simp

lemma wlp_if [wp_rules]: "wlp (if b then m else n) Q = ((b \<longrightarrow> wlp m Q) \<and> (\<not> b \<longrightarrow> wlp n Q))"
  by simp

lemma wlpD: "wlp m Q \<Longrightarrow> m = Some (a, s) \<Longrightarrow> Q a s"
  by simp

lemma wlpI: "(\<And>a s. m = Some (a, s) \<Longrightarrow> Q a s) \<Longrightarrow> wlp m Q"
  by (cases m) auto

lemma wpE:
  assumes "wp m Q"
  obtains a s where "m = Some (a, s)" and "Q a s"
  using assms by (cases m) auto

lemma wp_imp_wlp: "wp m Q \<Longrightarrow> wlp m Q"
  by (cases m) auto

lemma wp_mono: "wp m P \<Longrightarrow> (\<And>a s. P a s \<Longrightarrow> Q a s) \<Longrightarrow> wp m Q"
  by (cases m) auto

lemma wlp_mono: "wlp m P \<Longrightarrow> (\<And>a s. P a s \<Longrightarrow> Q a s) \<Longrightarrow> wlp m Q"
  by (cases m) auto

lemma wlp_conj: "wlp m P \<Longrightarrow> wlp m Q \<Longrightarrow> wlp m (\<lambda>a s. P a s \<and> Q a s)"
  by (cases m) auto

lemma wp_wlp: "wp m P \<Longrightarrow> wlp m Q \<Longrightarrow> wp m (\<lambda>a s. P a s \<and> Q a s)"
  by (cases m) auto

section \<open>Running an operation on every element of a list\<close>

text \<open>
  The loops of the driver walk an intrusive list and call one method per element; \<open>for_each\<close> is
  that walk.  A fault in one element is a fault of the loop.
\<close>

fun for_each :: "('e \<Rightarrow> 's \<Rightarrow> (unit, 's) outcome) \<Rightarrow> 'e list \<Rightarrow> 's \<Rightarrow> (unit, 's) outcome" where
  "for_each f [] s = Some ((), s)"
| "for_each f (x # xs) s = do { (_, s) \<leftarrow> f x s; for_each f xs s }"

lemma for_each_append:
  "for_each f (xs @ ys) s = do { (_, s) \<leftarrow> for_each f xs s; for_each f ys s }"
  by (induction xs arbitrary: s) (auto simp: split: Option.bind_split)

lemma wlp_for_each:
  assumes "I s"
    and "\<And>x s. x \<in> set xs \<Longrightarrow> I s \<Longrightarrow> wlp (f x s) (\<lambda>_ s'. I s')"
  shows "wlp (for_each f xs s) (\<lambda>_ s'. I s')"
  using assms
proof (induction xs arbitrary: s)
  case Nil
  then show ?case by simp
next
  case (Cons x xs)
  have rest: "wlp (for_each f xs s') (\<lambda>_ s'. I s')" if "I s'" for s'
    by (rule Cons.IH [OF that]) (simp add: Cons.prems(2))
  have "wlp (f x s) (\<lambda>_ s'. I s')" using Cons.prems by simp
  then show ?case
    using rest by (auto elim: wlp_mono)
qed

lemma wp_for_each:
  assumes "I s"
    and "\<And>x s. x \<in> set xs \<Longrightarrow> I s \<Longrightarrow> wp (f x s) (\<lambda>_ s'. I s')"
  shows "wp (for_each f xs s) (\<lambda>_ s'. I s')"
  using assms
proof (induction xs arbitrary: s)
  case Nil
  then show ?case by simp
next
  case (Cons x xs)
  have rest: "wp (for_each f xs s') (\<lambda>_ s'. I s')" if "I s'" for s'
    by (rule Cons.IH [OF that]) (simp add: Cons.prems(2))
  have "wp (f x s) (\<lambda>_ s'. I s')" using Cons.prems by simp
  then show ?case
    using rest by (auto elim: wp_mono)
qed

section \<open>Lists\<close>

lemma remove1_distinct_set [simp]: "distinct xs \<Longrightarrow> set (remove1 x xs) = set xs - {x}"
  by (rule set_remove1_eq)

lemma take_takeWhile_length: "length (takeWhile P xs) \<le> length xs"
  by (rule length_takeWhile_le)

end
