(* ===== verification/IntrusiveList.thy ===== *)
theory IntrusiveList
  imports Prelude
begin

text \<open>
  The doubly linked intrusive lists of \<open>driver/list.h\<close>: a store of \<open>LIST_ENTRY\<close> links addressed
  by pointers (natural numbers), the seven inline operations as store transformers, the
  search-and-unlink walk that \<open>CMyQueue\<close> performs on close, and the proof that on well-formed
  rings they implement the operations of a HOL list.  The contract is the locale \<open>ring_ops\<close>;
  the other theories of the driver keep the lists as HOL lists on its strength.
\<close>

type_synonym ptr = nat

record list_entry =
  Flink :: ptr
  Blink :: ptr

type_synonym links = "ptr \<Rightarrow> list_entry"

definition set_Flink :: "ptr \<Rightarrow> ptr \<Rightarrow> links \<Rightarrow> links" where
  "set_Flink p v s = s(p := (s p)\<lparr>Flink := v\<rparr>)"

definition set_Blink :: "ptr \<Rightarrow> ptr \<Rightarrow> links \<Rightarrow> links" where
  "set_Blink p v s = s(p := (s p)\<lparr>Blink := v\<rparr>)"

lemma Flink_set_Flink [simp]: "Flink (set_Flink p v s q) = (if q = p then v else Flink (s q))"
  by (simp add: set_Flink_def)

lemma Blink_set_Flink [simp]: "Blink (set_Flink p v s q) = Blink (s q)"
  by (simp add: set_Flink_def)

lemma Flink_set_Blink [simp]: "Flink (set_Blink p v s q) = Flink (s q)"
  by (simp add: set_Blink_def)

lemma Blink_set_Blink [simp]: "Blink (set_Blink p v s q) = (if q = p then v else Blink (s q))"
  by (simp add: set_Blink_def)

section \<open>The operations of list.h\<close>

definition InitializeListHead :: "ptr \<Rightarrow> links \<Rightarrow> links" where
  "InitializeListHead ListHead s = set_Flink ListHead ListHead (set_Blink ListHead ListHead s)"

definition IsListEmpty :: "ptr \<Rightarrow> links \<Rightarrow> bool" where
  "IsListEmpty ListHead s \<longleftrightarrow> Flink (s ListHead) = ListHead"

definition RemoveEntryList :: "ptr \<Rightarrow> links \<Rightarrow> bool \<times> links" where
  "RemoveEntryList Entry s =
     (let F = Flink (s Entry);
          B = Blink (s Entry);
          s = set_Flink B F s;
          s = set_Blink F B s
      in (F = B, s))"

definition RemoveHeadList :: "ptr \<Rightarrow> links \<Rightarrow> ptr \<times> links" where
  "RemoveHeadList ListHead s =
     (let Entry = Flink (s ListHead);
          F = Flink (s Entry);
          s = set_Flink ListHead F s;
          s = set_Blink F ListHead s
      in (Entry, s))"

definition RemoveTailList :: "ptr \<Rightarrow> links \<Rightarrow> ptr \<times> links" where
  "RemoveTailList ListHead s =
     (let Entry = Blink (s ListHead);
          B = Blink (s Entry);
          s = set_Blink ListHead B s;
          s = set_Flink B ListHead s
      in (Entry, s))"

definition InsertTailList :: "ptr \<Rightarrow> ptr \<Rightarrow> links \<Rightarrow> links" where
  "InsertTailList ListHead Entry s =
     (let B = Blink (s ListHead);
          s = set_Flink Entry ListHead s;
          s = set_Blink Entry B s;
          s = set_Flink B Entry s;
          s = set_Blink ListHead Entry s
      in s)"

definition InsertHeadList :: "ptr \<Rightarrow> ptr \<Rightarrow> links \<Rightarrow> links" where
  "InsertHeadList ListHead Entry s =
     (let F = Flink (s ListHead);
          s = set_Flink Entry F s;
          s = set_Blink Entry ListHead s;
          s = set_Blink F Entry s;
          s = set_Flink ListHead Entry s
      in s)"

definition AppendTailList :: "ptr \<Rightarrow> ptr \<Rightarrow> links \<Rightarrow> links" where
  "AppendTailList ListHead ListToAppend s =
     (let ListEnd = Blink (s ListHead);
          s = set_Flink (Blink (s ListHead)) ListToAppend s;
          s = set_Blink ListHead (Blink (s ListToAppend)) s;
          s = set_Flink (Blink (s ListToAppend)) ListHead s;
          s = set_Blink ListToAppend ListEnd s
      in s)"

text \<open>
  The walk of \<open>CMyQueue::OnCloseFile\<close> and \<open>CMyQueue::ConnectionTerminated\<close>: follow \<open>Flink\<close> from
  the head until the entry is met (and unlink it) or the head is met again.  On a store that is
  not a ring the walk need not end, which is the value \<open>None\<close>.
\<close>

partial_function (option) unlink_walk :: "ptr \<Rightarrow> ptr \<Rightarrow> ptr \<Rightarrow> links \<Rightarrow> links option" where
  "unlink_walk pHead pFindEntry pEntry s =
     (if pEntry = pHead then Some s
      else if pEntry = pFindEntry then Some (snd (RemoveEntryList pEntry s))
      else unlink_walk pHead pFindEntry (Flink (s pEntry)) s)"

definition find_and_unlink :: "ptr \<Rightarrow> ptr \<Rightarrow> links \<Rightarrow> links option" where
  "find_and_unlink pHead pFindEntry s = unlink_walk pHead pFindEntry (Flink (s pHead)) s"

section \<open>Rings\<close>

fun chain :: "links \<Rightarrow> ptr list \<Rightarrow> bool" where
  "chain s [] = True"
| "chain s [a] = True"
| "chain s (a # b # r) = (Flink (s a) = b \<and> Blink (s b) = a \<and> chain s (b # r))"

definition ring :: "links \<Rightarrow> ptr \<Rightarrow> ptr list \<Rightarrow> bool" where
  "ring s h xs \<longleftrightarrow> distinct (h # xs) \<and> chain s (h # xs @ [h])"

lemma chain_cong:
  assumes "\<And>a. a \<in> set (butlast xs) \<Longrightarrow> Flink (s' a) = Flink (s a)"
    and "\<And>b. b \<in> set (tl xs) \<Longrightarrow> Blink (s' b) = Blink (s b)"
  shows "chain s' xs = chain s xs"
  using assms
  by (induction s xs rule: chain.induct) auto

lemma chain_split: "chain s (xs @ a # ys) = (chain s (xs @ [a]) \<and> chain s (a # ys))"
proof (induction xs)
  case Nil
  then show ?case by simp
next
  case (Cons x xs)
  then show ?case by (cases xs) auto
qed

lemma chain_snoc2: "chain s (xs @ [a, b]) = (chain s (xs @ [a]) \<and> Flink (s a) = b \<and> Blink (s b) = a)"
  using chain_split [of s xs a "[b]"] by simp

lemma chain_Cons_snoc2:
  "chain s (h # xs @ [a, b]) = (chain s (h # xs @ [a]) \<and> Flink (s a) = b \<and> Blink (s b) = a)"
  using chain_snoc2 [of s "h # xs" a b] by simp

lemma chain_join:
  assumes "chain s (xs @ [a])" and "chain s (b # ys)" and "Flink (s a) = b" and "Blink (s b) = a"
  shows "chain s (xs @ a # b # ys)"
  using assms chain_split [of s xs a "b # ys"] by simp

lemma ring_distinct: "ring s h xs \<Longrightarrow> distinct xs"
  by (simp add: ring_def)

lemma ring_head_notin: "ring s h xs \<Longrightarrow> h \<notin> set xs"
  by (simp add: ring_def)

text \<open>A ring is untouched by writes to links outside it: the frame rule of the operations.\<close>

lemma ring_frame:
  assumes "ring s h xs" and "\<And>p. p \<in> insert h (set xs) \<Longrightarrow> s' p = s p"
  shows "ring s' h xs"
proof -
  have "chain s' (h # xs @ [h]) = chain s (h # xs @ [h])"
    by (rule chain_cong) (auto simp: assms(2) butlast_append)
  with assms(1) show ?thesis by (simp add: ring_def)
qed

lemma ring_Flink: "ring s h xs \<Longrightarrow> Flink (s h) = hd (xs @ [h])"
  by (cases xs) (auto simp: ring_def)

lemma ring_Blink: "ring s h xs \<Longrightarrow> Blink (s h) = last (h # xs)"
  by (cases xs rule: rev_cases) (auto simp: ring_def chain_Cons_snoc2)

lemma InitializeListHead_ring: "ring (InitializeListHead h s) h []"
  by (simp add: ring_def InitializeListHead_def)

lemma IsListEmpty_ring: "ring s h xs \<Longrightarrow> IsListEmpty h s = (xs = [])"
  by (cases xs) (auto simp: ring_def IsListEmpty_def)

section \<open>The operations on rings\<close>

lemma chain_frame:
  assumes "chain s (a # xs @ [b])"
    and "\<And>p. p \<in> insert a (set xs) \<Longrightarrow> Flink (s' p) = Flink (s p)"
    and "\<And>p. p \<in> insert b (set xs) \<Longrightarrow> Blink (s' p) = Blink (s p)"
  shows "chain s' (a # xs @ [b])"
proof -
  have "chain s' (a # xs @ [b]) = chain s (a # xs @ [b])"
    by (rule chain_cong) (auto simp: butlast_append assms(2,3))
  with assms(1) show ?thesis by simp
qed

lemma InsertHeadList_ring:
  assumes "ring s h xs" and "e \<notin> insert h (set xs)"
  shows "ring (InsertHeadList h e s) h (e # xs)"
proof (cases xs)
  case Nil
  with assms show ?thesis by (auto simp: ring_def InsertHeadList_def Let_def)
next
  case (Cons x ys)
  let ?s = "InsertHeadList h e s"
  from assms Cons have d: "distinct (h # e # x # ys)" and hx: "Flink (s h) = x"
    and c: "chain s (x # ys @ [h])" by (auto simp: ring_def)
  have "chain ?s (x # ys @ [h])"
    using c by (rule chain_frame) (use d hx in \<open>auto simp: InsertHeadList_def Let_def\<close>)
  moreover have "chain ?s [h, e, x]" using d hx by (auto simp: InsertHeadList_def Let_def)
  ultimately show ?thesis using d Cons by (simp add: ring_def)
qed

lemma InsertTailList_ring:
  assumes "ring s h xs" and "e \<notin> insert h (set xs)"
  shows "ring (InsertTailList h e s) h (xs @ [e])"
proof (cases xs rule: rev_cases)
  case Nil
  with assms show ?thesis by (auto simp: ring_def InsertTailList_def Let_def)
next
  case (snoc ys y)
  let ?s = "InsertTailList h e s"
  from assms snoc have d: "distinct (h # ys @ [y, e])" and hy: "Blink (s h) = y"
    and c: "chain s (h # ys @ [y])" by (auto simp: ring_def chain_Cons_snoc2)
  have "chain ?s (h # ys @ [y])"
    using c by (rule chain_frame) (use d hy in \<open>auto simp: InsertTailList_def Let_def\<close>)
  moreover have "chain ?s [y, e, h]" using d hy by (auto simp: InsertTailList_def Let_def)
  ultimately have "chain ?s (h # ys @ [y, e, h])"
    using chain_split [of ?s "h # ys" y "[e, h]"] by simp
  then show ?thesis using d snoc by (simp add: ring_def)
qed

text \<open>
  Unlinking is proved for an entry with any neighbours \<open>p\<close> and \<open>n\<close>, one of which may be the head.
\<close>

lemma unlink_chain:
  assumes "chain s (P @ p # e # n # N)"
    and "p \<notin> set P" and "n \<notin> set N"
    and "p \<notin> set (butlast (n # N))" and "n \<notin> set (tl (P @ [p]))"
    and "s' = set_Blink n p (set_Flink p n s)"
  shows "chain s' (P @ p # n # N)"
proof -
  have "chain s (P @ [p])" and c: "chain s (n # N)"
    using assms(1) chain_split [of s P p "e # n # N"] by auto
  moreover have "chain s' (P @ [p]) = chain s (P @ [p])"
    by (rule chain_cong) (use assms in \<open>auto\<close>)
  moreover have "chain s' (n # N) = chain s (n # N)"
    by (rule chain_cong) (use assms in \<open>auto split: if_splits\<close>)
  ultimately show ?thesis
    using assms(6) by (intro chain_join) auto
qed

lemma RemoveEntryList_ring:
  assumes "ring s h (xs @ e # ys)"
  shows "ring (snd (RemoveEntryList e s)) h (xs @ ys)"
    and "fst (RemoveEntryList e s) = (xs @ ys = [])"
proof -
  obtain P p where Pp: "h # xs = P @ [p]" by (cases "h # xs" rule: rev_cases) auto
  obtain n N where nN: "ys @ [h] = n # N" by (cases "ys @ [h]") auto
  have eq: "h # (xs @ e # ys) @ [h] = P @ p # e # n # N" using Pp nN by simp
  have c: "chain s (P @ p # e # n # N)" using assms eq by (simp add: ring_def)
  then have pn: "Blink (s e) = p" "Flink (s e) = n"
    using chain_split [of s P p "e # n # N"] by auto
  have sets: "set (tl (P @ [p])) = set xs" "set (butlast (n # N)) = set ys"
    using Pp [symmetric] nN [symmetric] by (auto simp: butlast_append)
  have d: "distinct (h # xs)" "distinct (ys @ [h])" "set xs \<inter> set ys = {}" "h \<notin> set xs" "h \<notin> set ys"
    using assms by (auto simp: ring_def)
  have pm: "p \<in> insert h (set xs)" "n \<in> insert h (set ys)"
    using arg_cong [OF Pp, of set] arg_cong [OF nN, of set] by auto
  have dP: "distinct (P @ [p])" "distinct (n # N)" using d Pp [symmetric] nN [symmetric] by auto
  have dis: "p \<notin> set ys" "n \<notin> set xs" using pm d by auto
  have "chain (snd (RemoveEntryList e s)) (P @ p # n # N)"
  proof (rule unlink_chain [OF c])
    show "snd (RemoveEntryList e s) = set_Blink n p (set_Flink p n s)"
      by (simp add: RemoveEntryList_def pn)
  qed (use dP dis sets in \<open>simp_all\<close>)
  moreover have "P @ p # n # N = h # (xs @ ys) @ [h]" using Pp nN by simp
  ultimately show "ring (snd (RemoveEntryList e s)) h (xs @ ys)"
    using assms by (simp add: ring_def)
  show "fst (RemoveEntryList e s) = (xs @ ys = [])"
    using pn Pp nN d by (cases xs rule: rev_cases; cases ys) (auto simp: RemoveEntryList_def Let_def)
qed

lemma RemoveHeadList_eq:
  assumes "ring s h (x # xs)"
  shows "RemoveHeadList h s = (x, snd (RemoveEntryList x s))"
  using assms by (simp add: ring_def RemoveHeadList_def RemoveEntryList_def Let_def)

lemma RemoveHeadList_ring:
  assumes "ring s h (x # xs)"
  shows "fst (RemoveHeadList h s) = x" and "ring (snd (RemoveHeadList h s)) h xs"
  using RemoveHeadList_eq [OF assms] RemoveEntryList_ring(1) [of s h "[]" x xs] assms by simp_all

lemma RemoveHeadList_empty: "ring s h [] \<Longrightarrow> RemoveHeadList h s = (h, s)"
  by (auto simp: ring_def RemoveHeadList_def set_Flink_def set_Blink_def fun_eq_iff)

lemma set_links_commute: "set_Flink a v (set_Blink b w s) = set_Blink b w (set_Flink a v s)"
  by (auto simp: set_Flink_def set_Blink_def fun_eq_iff)

lemma RemoveTailList_eq:
  assumes "ring s h (xs @ [x])"
  shows "RemoveTailList h s = (x, snd (RemoveEntryList x s))"
proof -
  have "Blink (s h) = x" using ring_Blink [OF assms] by simp
  moreover have "Flink (s x) = h"
    using assms by (simp add: ring_def chain_Cons_snoc2)
  ultimately show ?thesis
    by (simp add: RemoveTailList_def RemoveEntryList_def Let_def set_links_commute)
qed

lemma RemoveTailList_ring:
  assumes "ring s h (xs @ [x])"
  shows "fst (RemoveTailList h s) = x" and "ring (snd (RemoveTailList h s)) h xs"
  using RemoveTailList_eq [OF assms] RemoveEntryList_ring(1) [of s h xs x "[]"] assms by simp_all

lemma AppendTailList_ring:
  assumes "ring s h xs" and "ring s l ys" and "set (h # xs) \<inter> set (l # ys) = {}"
  shows "ring (AppendTailList h l s) h (xs @ l # ys)"
proof -
  let ?s = "AppendTailList h l s"
  obtain P p where P: "h # xs = P @ [p]" by (cases "h # xs" rule: rev_cases) auto
  obtain Q q where Q: "l # ys = Q @ [q]" by (cases "l # ys" rule: rev_cases) auto
  have p: "Blink (s h) = p" and q: "Blink (s l) = q"
    using ring_Blink [OF assms(1)] ring_Blink [OF assms(2)] P Q by simp_all
  have sets: "insert h (set xs) = insert p (set P)" "insert l (set ys) = insert q (set Q)"
    using arg_cong [OF P, of set] arg_cong [OF Q, of set] by auto
  have dP: "p \<notin> set P" "q \<notin> set Q"
    using assms P Q by (metis distinct_append distinct.simps(2) disjoint_insert(2) list.simps(15) ring_def)+
  have mem: "h \<in> insert h (set xs)" "p \<in> insert h (set xs)" "l \<in> insert l (set ys)" "q \<in> insert l (set ys)"
    by (simp, metis insertI1 sets(1), simp, metis insertI1 sets(2))
  have disj: "insert h (set xs) \<inter> insert l (set ys) = {}" using assms(3) by simp
  have ne: "h \<noteq> l" "p \<noteq> q" "p \<noteq> l" "q \<noteq> h" using mem disj by auto
  have ne2: "p \<notin> set Q" "q \<notin> set P" using disj unfolding sets by auto
  have tls: "set (tl (h # xs)) = set xs" "set (tl (l # ys)) = set ys" by simp_all
  have hl: "h \<notin> set xs" "l \<notin> set ys" "h \<notin> set ys" "l \<notin> set xs"
    using assms by (auto simp: ring_def)
  have step: "?s = set_Blink l p (set_Flink q h (set_Blink h q (set_Flink p l s)))"
    using ne by (simp add: AppendTailList_def Let_def p q)
  have "chain s ((h # xs) @ [h])" "chain s ((l # ys) @ [l])" using assms by (simp_all add: ring_def)
  then have c1: "chain s (P @ [p, h])" and c2: "chain s (Q @ [q, l])" unfolding P Q by simp_all
  have "chain ?s (P @ [p]) = chain s (P @ [p])"
  proof (rule chain_cong)
    fix b assume "b \<in> set (tl (P @ [p]))"
    then have "b \<in> set xs" by (simp only: P [symmetric] list.sel)
    with ne hl show "Blink (?s b) = Blink (s b)" by (auto simp: step)
  qed (use dP ne ne2 in \<open>auto simp: step\<close>)
  moreover have "chain ?s (Q @ [q]) = chain s (Q @ [q])"
  proof (rule chain_cong)
    fix b assume "b \<in> set (tl (Q @ [q]))"
    then have "b \<in> set ys" by (simp only: Q [symmetric] list.sel)
    with ne hl show "Blink (?s b) = Blink (s b)" by (auto simp: step)
  qed (use dP ne ne2 in \<open>auto simp: step\<close>)
  ultimately have cP: "chain ?s (P @ [p])" and cQ: "chain ?s (Q @ [q])"
    using c1 c2 by (simp_all add: chain_snoc2)
  have lk: "Flink (?s p) = l" "Blink (?s l) = p" "Flink (?s q) = h" "Blink (?s h) = q"
    using ne by (simp_all add: step)
  have "chain ?s (Q @ [q, h])" using cQ lk by (simp add: chain_snoc2)
  moreover have "Q @ [q, h] = l # ys @ [h]" using Q by simp
  ultimately have "chain ?s (l # ys @ [h])" by simp
  then have "chain ?s (P @ p # l # ys @ [h])" by (rule chain_join [OF cP]) (use lk in simp_all)
  moreover have "P @ p # l # ys @ [h] = h # (xs @ l # ys) @ [h]" using P by simp
  ultimately show ?thesis using assms by (auto simp: ring_def)
qed

section \<open>The search-and-unlink walk\<close>

lemma unlink_walk_notin:
  assumes "chain s (x # xs @ [h])" and "e \<notin> set (x # xs)" and "h \<notin> set (x # xs)"
  shows "unlink_walk h e x s = Some s"
  using assms
proof (induction xs arbitrary: x)
  case Nil
  then show ?case by (simp add: unlink_walk.simps [of h e x] unlink_walk.simps [of h e h])
next
  case (Cons y ys)
  then show ?case by (simp add: unlink_walk.simps [of h e x])
qed

lemma unlink_walk_in:
  assumes "chain s (x # xs @ [h])" and "e \<in> set (x # xs)" and "h \<notin> set (x # xs)"
  shows "unlink_walk h e x s = Some (snd (RemoveEntryList e s))"
  using assms
proof (induction xs arbitrary: x)
  case Nil
  then show ?case by (simp add: unlink_walk.simps [of h _ x])
next
  case (Cons y ys)
  then show ?case
    by (cases "x = e") (auto simp: unlink_walk.simps [of h e x] unlink_walk.simps [of h e e])
qed

lemma find_and_unlink_ring:
  assumes "ring s h xs"
  shows "\<exists>s'. find_and_unlink h e s = Some s' \<and> ring s' h (remove1 e xs)"
proof (cases xs)
  case Nil
  with assms show ?thesis
    by (auto simp: ring_def find_and_unlink_def unlink_walk.simps [of h e h])
next
  case (Cons x ys)
  with assms have c: "chain s (x # ys @ [h])" "h \<notin> set (x # ys)" "Flink (s h) = x" by (auto simp: ring_def)
  show ?thesis
  proof (cases "e \<in> set xs")
    case True
    then obtain as bs where xs: "xs = as @ e # bs" by (meson split_list)
    with assms have "remove1 e xs = as @ bs" by (auto simp: ring_def remove1_append)
    with RemoveEntryList_ring(1) [of s h as e bs] assms xs True Cons c unlink_walk_in [OF c(1) _ c(2)]
    show ?thesis by (simp add: find_and_unlink_def)
  next
    case False
    with assms Cons c unlink_walk_notin [OF c(1) _ c(2)] show ?thesis
      by (simp add: find_and_unlink_def remove1_idem)
  qed
qed

section \<open>Frames\<close>

lemma ring_neighbours:
  assumes "ring s h xs"
  shows "Flink (s h) \<in> set (h # xs)" and "Blink (s h) \<in> set (h # xs)"
  using ring_Flink [OF assms] ring_Blink [OF assms] by (cases xs; simp)+

lemma ring_neighbours_of:
  assumes "ring s h (xs @ e # ys)"
  shows "Flink (s e) \<in> set (h # xs @ ys)" and "Blink (s e) \<in> set (h # xs @ ys)"
proof -
  have c: "chain s ((h # xs) @ e # (ys @ [h]))" using assms by (simp add: ring_def)
  then have "chain s (e # (ys @ [h]))" and "chain s (h # xs @ [e])"
    using chain_split [of s "h # xs" e "ys @ [h]"] by simp_all
  then show "Flink (s e) \<in> set (h # xs @ ys)"
    by (cases ys) simp_all
  from \<open>chain s (h # xs @ [e])\<close> show "Blink (s e) \<in> set (h # xs @ ys)"
    by (cases xs rule: rev_cases) (simp_all add: chain_Cons_snoc2)
qed

lemma InsertHeadList_frame:
  assumes "ring s h xs" and "ring s k zs" and "set (k # zs) \<inter> set (h # e # xs) = {}"
  shows "ring (InsertHeadList h e s) k zs"
  by (rule ring_frame [OF assms(2)])
    (use assms(3) ring_neighbours [OF assms(1)] in
      \<open>auto simp: InsertHeadList_def Let_def set_Flink_def set_Blink_def disjoint_iff\<close>)

lemma InsertTailList_frame:
  assumes "ring s h xs" and "ring s k zs" and "set (k # zs) \<inter> set (h # e # xs) = {}"
  shows "ring (InsertTailList h e s) k zs"
  by (rule ring_frame [OF assms(2)])
    (use assms(3) ring_neighbours [OF assms(1)] in
      \<open>auto simp: InsertTailList_def Let_def set_Flink_def set_Blink_def disjoint_iff\<close>)

lemma RemoveEntryList_frame:
  assumes "ring s h (xs @ e # ys)" and "ring s k zs" and "set (k # zs) \<inter> set (h # xs @ e # ys) = {}"
  shows "ring (snd (RemoveEntryList e s)) k zs"
  by (rule ring_frame [OF assms(2)])
    (use assms(3) ring_neighbours_of [OF assms(1)] in
      \<open>auto simp: RemoveEntryList_def Let_def set_Flink_def set_Blink_def disjoint_iff\<close>)

section \<open>The list contract as an interface\<close>

text \<open>
  What the driver relies on when it keeps a list in links embedded in its objects: the
  operations act as the list operations of HOL on the ring they are applied to, and leave every
  other ring alone.
\<close>

locale ring_ops =
  fixes repr :: "'s \<Rightarrow> 'p \<Rightarrow> 'p list \<Rightarrow> bool"
    and init :: "'p \<Rightarrow> 's \<Rightarrow> 's"
    and is_empty :: "'p \<Rightarrow> 's \<Rightarrow> bool"
    and insert_head :: "'p \<Rightarrow> 'p \<Rightarrow> 's \<Rightarrow> 's"
    and insert_tail :: "'p \<Rightarrow> 'p \<Rightarrow> 's \<Rightarrow> 's"
    and remove_head :: "'p \<Rightarrow> 's \<Rightarrow> 'p \<times> 's"
    and remove_entry :: "'p \<Rightarrow> 's \<Rightarrow> bool \<times> 's"
  assumes repr_distinct: "repr s h xs \<Longrightarrow> distinct (h # xs)"
    and repr_init: "repr (init h s) h []"
    and repr_is_empty: "repr s h xs \<Longrightarrow> is_empty h s = (xs = [])"
    and repr_insert_head: "repr s h xs \<Longrightarrow> e \<notin> insert h (set xs) \<Longrightarrow> repr (insert_head h e s) h (e # xs)"
    and repr_insert_tail: "repr s h xs \<Longrightarrow> e \<notin> insert h (set xs) \<Longrightarrow> repr (insert_tail h e s) h (xs @ [e])"
    and repr_remove_head: "repr s h (x # xs) \<Longrightarrow> fst (remove_head h s) = x \<and> repr (snd (remove_head h s)) h xs"
    and repr_remove_entry: "repr s h (xs @ e # ys) \<Longrightarrow>
      fst (remove_entry e s) = (xs @ ys = []) \<and> repr (snd (remove_entry e s)) h (xs @ ys)"
    and frame_insert_head: "repr s h xs \<Longrightarrow> repr s k zs \<Longrightarrow> set (k # zs) \<inter> set (h # e # xs) = {} \<Longrightarrow>
      repr (insert_head h e s) k zs"
    and frame_insert_tail: "repr s h xs \<Longrightarrow> repr s k zs \<Longrightarrow> set (k # zs) \<inter> set (h # e # xs) = {} \<Longrightarrow>
      repr (insert_tail h e s) k zs"
    and frame_remove_entry: "repr s h (xs @ e # ys) \<Longrightarrow> repr s k zs \<Longrightarrow>
      set (k # zs) \<inter> set (h # xs @ e # ys) = {} \<Longrightarrow> repr (snd (remove_entry e s)) k zs"
begin

lemma insert_tail_all:
  "repr s h xs \<Longrightarrow> distinct es \<Longrightarrow> set es \<inter> set (h # xs) = {} \<Longrightarrow>
    repr (fold (insert_tail h) es s) h (xs @ es)"
proof (induction es arbitrary: s xs)
  case Nil
  then show ?case by simp
next
  case (Cons e es)
  then have "repr (insert_tail h e s) h (xs @ [e])" by (auto intro: repr_insert_tail)
  from Cons.IH [OF this] Cons.prems show ?case by auto
qed

lemma insert_head_all:
  "repr s h xs \<Longrightarrow> distinct es \<Longrightarrow> set es \<inter> set (h # xs) = {} \<Longrightarrow>
    repr (fold (insert_head h) es s) h (rev es @ xs)"
proof (induction es arbitrary: s xs)
  case Nil
  then show ?case by simp
next
  case (Cons e es)
  then have "repr (insert_head h e s) h (e # xs)" by (auto intro: repr_insert_head)
  from Cons.IH [OF this] Cons.prems show ?case by auto
qed

lemma unlink_undoes_insert_head:
  assumes "repr s h xs" and "e \<notin> insert h (set xs)"
  shows "repr (snd (remove_entry e (insert_head h e s))) h xs"
  using repr_remove_entry [of _ h "[]" e xs] repr_insert_head [OF assms] by simp

lemma moved_between_lists:
  assumes "repr s h (xs @ e # ys)" and "repr s k zs" and "set (k # zs) \<inter> set (h # xs @ e # ys) = {}"
  defines "s' \<equiv> insert_head k e (snd (remove_entry e s))"
  shows "repr s' h (xs @ ys) \<and> repr s' k (e # zs)"
proof -
  have 1: "repr (snd (remove_entry e s)) h (xs @ ys)"
    using repr_remove_entry [OF assms(1)] by simp
  have 2: "repr (snd (remove_entry e s)) k zs"
    using frame_remove_entry [OF assms(1-3)] .
  have "e \<notin> insert k (set zs)" using assms(3) by auto
  moreover have "set (h # xs @ ys) \<inter> set (k # e # zs) = {}"
    using assms(3) repr_distinct [OF assms(1)] by auto
  ultimately show ?thesis
    unfolding s'_def using repr_insert_head [OF 2] frame_insert_head [OF 2 1] by blast
qed

end

interpretation links: ring_ops ring InitializeListHead IsListEmpty InsertHeadList InsertTailList
    RemoveHeadList RemoveEntryList
proof (unfold_locales, goal_cases)
  case 1
  then show ?case by (auto dest: ring_distinct ring_head_notin)
next
  case 2
  then show ?case by (rule InitializeListHead_ring)
next
  case 3
  then show ?case by (rule IsListEmpty_ring)
next
  case 4
  then show ?case by (rule InsertHeadList_ring)
next
  case 5
  then show ?case by (rule InsertTailList_ring)
next
  case 6
  then show ?case by (simp add: RemoveHeadList_ring)
next
  case 7
  then show ?case by (simp add: RemoveEntryList_ring)
next
  case 8
  then show ?case by (rule InsertHeadList_frame)
next
  case 9
  then show ?case by (rule InsertTailList_frame)
next
  case 10
  then show ?case by (rule RemoveEntryList_frame)
qed

end
