(* ===== verification/Win32.thy ===== *)
theory Win32
  imports Prelude
begin

text \<open>
  The parts of the Windows platform the driver computes with: \<open>HRESULT\<close> values and the macros
  that build them from Win32 error codes and NT status codes, wide-character strings as they lie
  in memory (a list of 16-bit units, which may or may not contain a terminator), and the two
  string routines the driver calls, \<open>CompareStringOrdinal\<close> and \<open>StringCchCopy\<close>.  The numeric
  constants are the documented ones of \<open>winerror.h\<close>, \<open>ntstatus.h\<close> and \<open>driver/internal.h\<close>.
\<close>

section \<open>HRESULT\<close>

type_synonym hresult = "32 word"

definition FAILED :: "hresult \<Rightarrow> bool" where
  "FAILED hr \<longleftrightarrow> bit hr 31"

abbreviation SUCCEEDED :: "hresult \<Rightarrow> bool" where
  "SUCCEEDED hr \<equiv> \<not> FAILED hr"

definition HRESULT_FROM_WIN32 :: "dword \<Rightarrow> hresult" where
  "HRESULT_FROM_WIN32 x =
     (if x = 0 \<or> bit x 31 then x else (x AND 0xFFFF) OR 0x80070000)"

definition HRESULT_FROM_NT :: "dword \<Rightarrow> hresult" where
  "HRESULT_FROM_NT x = x OR 0x10000000"

abbreviation (input) S_OK :: hresult where "S_OK \<equiv> 0"
abbreviation (input) E_FAIL :: hresult where "E_FAIL \<equiv> 0x80004005"
abbreviation (input) E_ABORT :: hresult where "E_ABORT \<equiv> 0x80004004"
abbreviation (input) E_OUTOFMEMORY :: hresult where "E_OUTOFMEMORY \<equiv> 0x8007000E"
abbreviation (input) E_INVALIDARG :: hresult where "E_INVALIDARG \<equiv> 0x80070057"

abbreviation (input) STRSAFE_E_INSUFFICIENT_BUFFER :: hresult where "STRSAFE_E_INSUFFICIENT_BUFFER \<equiv> 0x8007007A"

abbreviation (input) ERROR_FILE_NOT_FOUND :: dword where "ERROR_FILE_NOT_FOUND \<equiv> 2"
abbreviation (input) ERROR_NOT_ENOUGH_MEMORY :: dword where "ERROR_NOT_ENOUGH_MEMORY \<equiv> 8"
abbreviation (input) ERROR_OPERATION_ABORTED :: dword where "ERROR_OPERATION_ABORTED \<equiv> 995"
abbreviation (input) ERROR_IO_PENDING :: dword where "ERROR_IO_PENDING \<equiv> 997"
abbreviation (input) ERROR_ALREADY_INITIALIZED :: dword where "ERROR_ALREADY_INITIALIZED \<equiv> 1247"
abbreviation (input) WSAENOTSOCK :: dword where "WSAENOTSOCK \<equiv> 10038"

abbreviation (input) STATUS_BUFFER_OVERFLOW :: dword where "STATUS_BUFFER_OVERFLOW \<equiv> 0x80000005"
abbreviation (input) STATUS_INVALID_PARAMETER :: dword where "STATUS_INVALID_PARAMETER \<equiv> 0xC000000D"
abbreviation (input) STATUS_OBJECT_PATH_NOT_FOUND :: dword where "STATUS_OBJECT_PATH_NOT_FOUND \<equiv> 0xC000003A"
abbreviation (input) STATUS_CANCELLED :: dword where "STATUS_CANCELLED \<equiv> 0xC0000120"
abbreviation (input) STATUS_INVALID_DEVICE_STATE :: dword where "STATUS_INVALID_DEVICE_STATE \<equiv> 0xC0000184"
abbreviation (input) STATUS_INVALID_BUFFER_SIZE :: dword where "STATUS_INVALID_BUFFER_SIZE \<equiv> 0xC0000206"

lemma FAILED_S_OK [simp]: "SUCCEEDED S_OK"
  by (simp add: FAILED_def)

lemma FAILED_numerals [simp]:
  "FAILED E_FAIL" "FAILED E_ABORT" "FAILED E_OUTOFMEMORY" "FAILED E_INVALIDARG"
  by (simp_all add: FAILED_def bit_numeral_rec)

text \<open>A status code with the top bit set stays a failure; the conversion is idempotent.\<close>

lemma FAILED_HRESULT_FROM_NT: "bit x 31 \<Longrightarrow> FAILED (HRESULT_FROM_NT x)"
  by (simp add: FAILED_def HRESULT_FROM_NT_def bit_or_iff)

lemma HRESULT_FROM_NT_idem [simp]: "HRESULT_FROM_NT (HRESULT_FROM_NT x) = HRESULT_FROM_NT x"
  by (simp add: HRESULT_FROM_NT_def or.assoc)

lemma FAILED_nt_statuses [simp]:
  "FAILED (HRESULT_FROM_NT STATUS_BUFFER_OVERFLOW)"
  "FAILED (HRESULT_FROM_NT STATUS_INVALID_PARAMETER)"
  "FAILED (HRESULT_FROM_NT STATUS_OBJECT_PATH_NOT_FOUND)"
  "FAILED (HRESULT_FROM_NT STATUS_CANCELLED)"
  "FAILED (HRESULT_FROM_NT STATUS_INVALID_DEVICE_STATE)"
  "FAILED (HRESULT_FROM_NT STATUS_INVALID_BUFFER_SIZE)"
  by (simp_all add: FAILED_HRESULT_FROM_NT bit_numeral_rec)

lemma FAILED_HRESULT_FROM_WIN32 [simp]: "FAILED (HRESULT_FROM_WIN32 x) \<longleftrightarrow> x \<noteq> 0"
proof -
  have "bit (0x80070000 :: 32 word) 31" by (simp add: bit_numeral_rec)
  then show ?thesis by (auto simp: FAILED_def HRESULT_FROM_WIN32_def bit_or_iff)
qed

section \<open>Wide strings in memory\<close>

definition wlit :: "string \<Rightarrow> wchar list" where
  "wlit cs = map (\<lambda>c. of_nat (of_char c)) cs"

text \<open>
  \<open>wstr b\<close> reads the NUL-terminated string at the start of the buffer \<open>b\<close>; with no terminator in
  the buffer the read runs past its end, which is \<open>None\<close>.
\<close>

definition wstr :: "wchar list \<Rightarrow> wchar list option" where
  "wstr b = (if 0 \<in> set b then Some (takeWhile (\<lambda>c. c \<noteq> 0) b) else None)"

text \<open>The argument pair (pointer, count) of \<open>CompareStringOrdinal\<close>; a count of \<open>-1\<close> means NUL-terminated.\<close>

definition counted :: "wchar list \<Rightarrow> int \<Rightarrow> wchar list option" where
  "counted b n = (if n = -1 then wstr b
                  else if nat n \<le> length b then Some (take (nat n) b) else None)"

text \<open>
  Whether \<open>CompareStringOrdinal\<close> returns \<open>CSTR_EQUAL\<close>.  \<open>up\<close> is the operating system's uppercase
  table; a null pointer makes the routine fail with 0, which is not \<open>CSTR_EQUAL\<close>.
\<close>

definition CompareStringOrdinal ::
    "(wchar \<Rightarrow> wchar) \<Rightarrow> wchar list option \<Rightarrow> int \<Rightarrow> wchar list option \<Rightarrow> int \<Rightarrow> bool \<Rightarrow> bool option" where
  "CompareStringOrdinal up p1 n1 p2 n2 bIgnoreCase =
     (case (p1, p2) of
        (Some b1, Some b2) \<Rightarrow> do {
          x \<leftarrow> counted b1 n1;
          y \<leftarrow> counted b2 n2;
          Some (if bIgnoreCase then map up x = map up y else x = y) }
      | _ \<Rightarrow> Some False)"

text \<open>
  \<open>StringCchCopy\<close> into a destination of \<open>cchDest\<close> units: at most \<open>cchDest - 1\<close> units are copied and
  a terminator is written, the rest of the destination keeps its content.  A null source is
  dereferenced.  The second result says whether the whole source fitted.
\<close>

definition StringCchCopy :: "wchar list \<Rightarrow> nat \<Rightarrow> wchar list option \<Rightarrow> (wchar list \<times> bool) option" where
  "StringCchCopy dest cchDest src = do {
     b \<leftarrow> src;
     x \<leftarrow> wstr b;
     let y = take (cchDest - 1) x;
     Some (y @ [0] @ drop (length y + 1) dest, length x < cchDest) }"

lemma wstr_terminated: "0 \<notin> set x \<Longrightarrow> wstr (x @ 0 # r) = Some x"
  by (induction x) (auto simp: wstr_def)

lemma wstr_Some: "wstr b = Some x \<Longrightarrow> 0 \<notin> set x \<and> (\<exists>r. b = x @ 0 # r)"
proof -
  assume "wstr b = Some x"
  then have z: "0 \<in> set b" and x: "x = takeWhile (\<lambda>c. c \<noteq> 0) b" by (auto simp: wstr_def split: if_splits)
  from z obtain r where "dropWhile (\<lambda>c. c \<noteq> 0) b = 0 # r"
    by (metis (mono_tags, lifting) dropWhile_eq_Nil_conv hd_dropWhile list.exhaust_sel)
  with x have "b = x @ 0 # r" by (metis takeWhile_dropWhile_id)
  moreover from x have "0 \<notin> set x" by (auto dest: set_takeWhileD)
  ultimately show ?thesis by blast
qed

lemma wstr_length: "wstr b = Some x \<Longrightarrow> length x < length b"
  using wstr_Some by fastforce

lemma length_StringCchCopy:
  "StringCchCopy dest n src = Some (d, ok) \<Longrightarrow> 0 < n \<Longrightarrow> n \<le> length dest \<Longrightarrow> length d = length dest"
  by (auto simp: StringCchCopy_def Let_def split: Option.bind_splits)

end
