(* ===== verification/NfpState.thy ===== *)
theory NfpState
  imports IntrusiveList Win32
begin

text \<open>
  The state of the near-field proximity driver (\<open>driver/\<close>) and its environment.  The state is
  one record: the heap of \<open>CFileContext\<close> and \<open>CConnection\<close> objects, the five lists of \<open>CMyQueue\<close>,
  the critical sections, the thread that runs, and the trace of calls made to the framework and
  to Winsock (latest first).  What those calls answer is a parameter: the record \<open>env\<close> of functions
  of the trace so far, so that every sequence of answers is one environment.
\<close>

section \<open>Names of objects\<close>

type_synonym req = nat       \<comment> \<open>\<open>IWDFIoRequest*\<close>\<close>
type_synonym wdffile = nat   \<comment> \<open>\<open>IWDFFile*\<close>\<close>
type_synonym fid = nat       \<comment> \<open>\<open>CFileContext*\<close>\<close>
type_synonym cid = nat       \<comment> \<open>\<open>CConnection*\<close>\<close>
type_synonym tid = nat       \<comment> \<open>thread identifier\<close>
type_synonym SOCKET = "nat option"

abbreviation (input) INVALID_SOCKET :: SOCKET where "INVALID_SOCKET \<equiv> None"

section \<open>Constants of Queue.h and internal.h\<close>

definition KilobytesPerSecond :: dword where "KilobytesPerSecond = 20"
definition MaxCbPayload :: nat where "MaxCbPayload = 10240"
definition MaxCchType :: nat where "MaxCchType = 507"
definition MaxCchTypeNetwork :: nat where "MaxCchTypeNetwork = 502"
definition MinCchType :: nat where "MinCchType = 2"
definition MaxCchMimeType :: nat where "MaxCchMimeType = 256"
definition MAX_MESSAGE_QUEUE_SIZE :: dword where "MAX_MESSAGE_QUEUE_SIZE = 50"

section \<open>Payloads and messages\<close>

text \<open>\<open>CMyPayload\<close> without its list link; the queue of a subscription is a list of these.\<close>

record payload =
  m_pbPayload :: "byte list option"
  m_cbPayload :: dword

definition new_CMyPayload :: payload where
  "new_CMyPayload = \<lparr>m_pbPayload = None, m_cbPayload = 0\<rparr>"

text \<open>\<open>struct MESSAGE\<close>, sent and received as one block.\<close>

record MESSAGE =
  m_szType :: "wchar list"
  msg_cbPayload :: dword
  m_Payload :: "byte list"

definition new_MESSAGE :: MESSAGE where
  "new_MESSAGE = \<lparr>m_szType = replicate MaxCchTypeNetwork 0, msg_cbPayload = 0,
                  m_Payload = replicate MaxCbPayload 0\<rparr>"

text \<open>
  \<open>MESSAGE::Initialize\<close>.  \<open>CopyMemory\<close> reads \<open>cbPayload\<close> bytes of the source and writes them into
  the fixed array: both must be long enough, and the source must not be null.
\<close>

definition CopyMemory :: "byte list \<Rightarrow> nat \<Rightarrow> byte list option \<Rightarrow> byte list option" where
  "CopyMemory dest cb src = do {
     b \<leftarrow> src;
     if cb \<le> length b \<and> cb \<le> length dest then Some (take cb b @ drop cb dest) else None }"

definition MESSAGE_Initialize ::
    "wchar list option \<Rightarrow> dword \<Rightarrow> byte list option \<Rightarrow> MESSAGE option" where
  "MESSAGE_Initialize szType cbPayload pbPayload = do {
     let m = new_MESSAGE\<lparr>msg_cbPayload := cbPayload\<rparr>;
     (t, _) \<leftarrow> StringCchCopy (m_szType m) MaxCchTypeNetwork szType;
     p \<leftarrow> CopyMemory (m_Payload m) (unat cbPayload) pbPayload;
     Some (m\<lparr>m_szType := t, m_Payload := p\<rparr>) }"

section \<open>File contexts and connections\<close>

datatype ROLE = ROLE_UNDEFINED | ROLE_SUBSCRIPTION | ROLE_ARRIVEDSUBSCRIPTION
  | ROLE_DEPARTEDSUBSCRIPTION | ROLE_PUBLICATION | ROLE_PROXIMITY

record file_context =
  m_Role :: ROLE
  m_pszType :: "wchar list option"
  m_fEnabled :: bool
  m_dwQueueSize :: dword
  m_SubscribedMessageQueue :: "payload list"
  m_MyPayload :: payload
  m_cCompleteReady :: nat
  m_pConnection :: "cid option"
  m_pWdfRequest :: "req option"

definition new_CFileContext :: file_context where
  "new_CFileContext =
     \<lparr>m_Role = ROLE_UNDEFINED, m_pszType = None, m_fEnabled = True, m_dwQueueSize = 0,
      m_SubscribedMessageQueue = [], m_MyPayload = new_CMyPayload, m_cCompleteReady = 0,
      m_pConnection = None, m_pWdfRequest = None\<rparr>"

datatype CONN_STATE = INITIAL | ESTABLISHED | TERMINATED

text \<open>
  \<open>CConnection\<close>.  \<open>_ThreadpoolWork\<close> is whether a work item exists; \<open>recv_active\<close> is the thread
  pool's own record that the submitted callback has not returned yet.
\<close>

record connection =
  conn_State :: CONN_STATE
  conn_Socket :: SOCKET
  conn_ThreadpoolWork :: bool
  conn_ThreadpoolThreadId :: tid
  conn_fInbound :: bool
  recv_active :: bool

section \<open>Calls to the outside\<close>

datatype fxcall =
    OperatorNew
  | MarkCancelable req
  | UnmarkCancelable req
  | CompleteWithInformation req hresult nat
  | Complete req hresult
  | CopyFromBuffer req nat "byte list"
  | AssignContext wdffile fid
  | OpenSocket
  | SetSockOpt SOCKET
  | ConnectByName SOCKET "wchar list"
  | SendMagic SOCKET
  | ReadSocket SOCKET
  | WaitOverlapped SOCKET
  | SendMessage SOCKET MESSAGE
  | RecvMessage SOCKET
  | ShutdownSend SOCKET
  | CloseSocket SOCKET
  | CreateThreadpoolWork cid
  | SubmitThreadpoolWork cid
  | CloseThreadpoolWork cid

datatype lock = SubsLock | PubsLock | ConnectionLock | RoleLock fid

section \<open>The driver\<close>

record nfp =
  files :: "fid \<rightharpoonup> file_context"
  conns :: "cid \<rightharpoonup> connection"
  m_SubsHead :: "fid list"
  m_ArrivalSubsHead :: "fid list"
  m_DepartureSubsHead :: "fid list"
  m_PubsHead :: "fid list"
  m_ConnectionHead :: "cid list"
  locks :: "lock \<rightharpoonup> tid \<times> nat"
  cur_thread :: tid
  heap_next :: nat
  calls :: "fxcall list"

text \<open>Constructor of \<open>CMyQueue\<close>: empty lists, free locks; \<open>t\<close> is the thread that runs it.\<close>

definition new_CMyQueue :: "tid \<Rightarrow> nfp" where
  "new_CMyQueue t =
     \<lparr>files = Map.empty, conns = Map.empty, m_SubsHead = [], m_ArrivalSubsHead = [],
      m_DepartureSubsHead = [], m_PubsHead = [], m_ConnectionHead = [], locks = Map.empty,
      cur_thread = t, heap_next = 0, calls = []\<rparr>"

text \<open>An \<open>IWDFMemory\<close> object: its size, and the pointer \<open>GetDataBuffer\<close> returns (possibly null).\<close>

record fxmem =
  mem_size :: nat
  mem_buffer :: "byte list option"

text \<open>
  The environment.  A result of type \<open>dword option\<close> is \<open>None\<close> for success and the error code of
  \<open>WSAGetLastError\<close> for failure.
\<close>

record nfp_env =
  GetInputMemory :: "req \<Rightarrow> fxmem option"
  GetOutputMemory :: "req \<Rightarrow> fxmem option"
  CopyFromBuffer_hr :: "fxcall list \<Rightarrow> req \<Rightarrow> nat \<Rightarrow> byte list \<Rightarrow> hresult"
  UnmarkCancelable_hr :: "fxcall list \<Rightarrow> req \<Rightarrow> hresult"
  MarkCancelable_cancels :: "fxcall list \<Rightarrow> req \<Rightarrow> bool"
  new_succeeds :: "fxcall list \<Rightarrow> bool"
  GetFileObject :: "req \<Rightarrow> wdffile option"
  RetrieveContext :: "fxcall list \<Rightarrow> wdffile \<Rightarrow> hresult \<times> fid option"
  AssignContext_hr :: "fxcall list \<Rightarrow> wdffile \<Rightarrow> hresult"
  RetrieveFileName_size :: "wdffile \<Rightarrow> hresult \<times> nat"
  RetrieveFileName :: "wdffile \<Rightarrow> nat \<Rightarrow> hresult \<times> wchar list"
  upcase :: "wchar \<Rightarrow> wchar"
  wide_to_multibyte :: "wchar list \<Rightarrow> byte list option"
  uninitialised_tid :: tid
  pool_thread :: "cid \<Rightarrow> tid"
  ws_socket :: "fxcall list \<Rightarrow> dword + nat"
  ws_setsockopt :: "fxcall list \<Rightarrow> SOCKET \<Rightarrow> dword option"
  ws_connect :: "fxcall list \<Rightarrow> SOCKET \<Rightarrow> wchar list \<Rightarrow> dword option"
  ws_send :: "fxcall list \<Rightarrow> SOCKET \<Rightarrow> dword option"
  ws_ReadFile :: "fxcall list \<Rightarrow> SOCKET \<Rightarrow> dword option"
  ws_GetOverlappedResult :: "fxcall list \<Rightarrow> SOCKET \<Rightarrow> dword option"
  ws_read_data :: "fxcall list \<Rightarrow> SOCKET \<Rightarrow> byte list"
  ws_recv :: "fxcall list \<Rightarrow> SOCKET \<Rightarrow> MESSAGE option"
  create_threadpool_work :: "fxcall list \<Rightarrow> dword option"

section \<open>Primitive state changes\<close>

definition log_call :: "fxcall \<Rightarrow> nfp \<Rightarrow> nfp" where
  "log_call c s = s\<lparr>calls := c # calls s\<rparr>"

definition upd_file :: "fid \<Rightarrow> (file_context \<Rightarrow> file_context) \<Rightarrow> nfp \<Rightarrow> nfp" where
  "upd_file p f s = s\<lparr>files := (files s)(p := map_option f (files s p))\<rparr>"

definition upd_conn :: "cid \<Rightarrow> (connection \<Rightarrow> connection) \<Rightarrow> nfp \<Rightarrow> nfp" where
  "upd_conn p f s = s\<lparr>conns := (conns s)(p := map_option f (conns s p))\<rparr>"

text \<open>\<open>operator new\<close> with a null result on failure; memory is never handed out twice.\<close>

definition operator_new :: "nfp_env \<Rightarrow> nfp \<Rightarrow> nat option \<times> nfp" where
  "operator_new env s =
     (let ok = new_succeeds env (calls s); s' = log_call OperatorNew s in
      if ok then (Some (heap_next s), s'\<lparr>heap_next := Suc (heap_next s)\<rparr>) else (None, s'))"

text \<open>
  Critical sections are recursive.  Entering one that another thread owns is \<open>None\<close>: in this model
  the other thread is always one that waits for the running thread to finish, so the wait would
  not end.
\<close>

definition EnterCriticalSection :: "lock \<Rightarrow> nfp \<Rightarrow> (unit, nfp) outcome" where
  "EnterCriticalSection l s =
     (case locks s l of
        None \<Rightarrow> Some ((), s\<lparr>locks := (locks s)(l \<mapsto> (cur_thread s, 1))\<rparr>)
      | Some (t, n) \<Rightarrow>
          if t = cur_thread s then Some ((), s\<lparr>locks := (locks s)(l \<mapsto> (t, Suc n))\<rparr>) else None)"

definition LeaveCriticalSection :: "lock \<Rightarrow> nfp \<Rightarrow> (unit, nfp) outcome" where
  "LeaveCriticalSection l s =
     (case locks s l of
        None \<Rightarrow> None
      | Some (t, n) \<Rightarrow>
          if t = cur_thread s
          then Some ((), s\<lparr>locks := (locks s)(l := (if n \<le> 1 then None else Some (t, n - 1)))\<rparr>)
          else None)"

definition DRIVER_ASSERT :: "bool \<Rightarrow> unit option" where
  "DRIVER_ASSERT p = (if p then Some () else None)"

section \<open>Projections of the primitive changes\<close>

lemma log_call_simps [simp]:
  "files (log_call x s) = files s" "conns (log_call x s) = conns s"
  "m_SubsHead (log_call x s) = m_SubsHead s" "m_ArrivalSubsHead (log_call x s) = m_ArrivalSubsHead s"
  "m_DepartureSubsHead (log_call x s) = m_DepartureSubsHead s" "m_PubsHead (log_call x s) = m_PubsHead s"
  "m_ConnectionHead (log_call x s) = m_ConnectionHead s" "locks (log_call x s) = locks s"
  "cur_thread (log_call x s) = cur_thread s" "heap_next (log_call x s) = heap_next s"
  "calls (log_call x s) = x # calls s"
  by (simp_all add: log_call_def)

lemma upd_file_simps [simp]:
  "conns (upd_file p f s) = conns s"
  "m_SubsHead (upd_file p f s) = m_SubsHead s" "m_ArrivalSubsHead (upd_file p f s) = m_ArrivalSubsHead s"
  "m_DepartureSubsHead (upd_file p f s) = m_DepartureSubsHead s" "m_PubsHead (upd_file p f s) = m_PubsHead s"
  "m_ConnectionHead (upd_file p f s) = m_ConnectionHead s" "locks (upd_file p f s) = locks s"
  "cur_thread (upd_file p f s) = cur_thread s" "heap_next (upd_file p f s) = heap_next s"
  "calls (upd_file p f s) = calls s"
  by (simp_all add: upd_file_def)

lemma files_upd_file [simp]:
  "files (upd_file p f s) q = (if q = p then map_option f (files s p) else files s q)"
  by (simp add: upd_file_def)

lemma upd_conn_simps [simp]:
  "files (upd_conn p g s) = files s"
  "m_SubsHead (upd_conn p g s) = m_SubsHead s" "m_ArrivalSubsHead (upd_conn p g s) = m_ArrivalSubsHead s"
  "m_DepartureSubsHead (upd_conn p g s) = m_DepartureSubsHead s" "m_PubsHead (upd_conn p g s) = m_PubsHead s"
  "m_ConnectionHead (upd_conn p g s) = m_ConnectionHead s" "locks (upd_conn p g s) = locks s"
  "cur_thread (upd_conn p g s) = cur_thread s" "heap_next (upd_conn p g s) = heap_next s"
  "calls (upd_conn p g s) = calls s"
  by (simp_all add: upd_conn_def)

lemma conns_upd_conn [simp]:
  "conns (upd_conn p g s) q = (if q = p then map_option g (conns s p) else conns s q)"
  by (simp add: upd_conn_def)

lemma operator_new_cases:
  obtains (fail) "operator_new env s = (None, log_call OperatorNew s)"
  | (ok) "operator_new env s = (Some (heap_next s), (log_call OperatorNew s)\<lparr>heap_next := Suc (heap_next s)\<rparr>)"
  by (cases "new_succeeds env (calls s)") (auto simp: operator_new_def)

text \<open>Entering and leaving never touches a lock that another thread owns.\<close>

definition lock_step :: "nfp \<Rightarrow> (lock \<rightharpoonup> tid \<times> nat) \<Rightarrow> bool" where
  "lock_step s l \<longleftrightarrow> (\<forall>k t n. locks s k = Some (t, n) \<longrightarrow> t \<noteq> cur_thread s \<longrightarrow> l k = Some (t, n))"

lemma wlp_Enter: "(\<And>l'. lock_step s l' \<Longrightarrow> Q () (s\<lparr>locks := l'\<rparr>)) \<Longrightarrow> wlp (EnterCriticalSection l s) Q"
  by (auto simp: EnterCriticalSection_def lock_step_def split: option.splits)

lemma wlp_Leave: "(\<And>l'. lock_step s l' \<Longrightarrow> Q () (s\<lparr>locks := l'\<rparr>)) \<Longrightarrow> wlp (LeaveCriticalSection l s) Q"
  by (auto simp: LeaveCriticalSection_def lock_step_def split: option.splits)

lemma DRIVER_ASSERT_eq_Some [simp]: "DRIVER_ASSERT p = Some u \<longleftrightarrow> p"
  by (simp add: DRIVER_ASSERT_def)

text \<open>Reading an object through a pointer: the two transformers branch on whether it is alive.\<close>

lemmas wlp_deref [simp] =
  wlp_read [where m = "m :: file_context option" for m] wlp_read [where m = "m :: connection option" for m]
  wlp_read [where m = "m :: fxmem option" for m] wlp_read [where m = "m :: MESSAGE option" for m]

lemmas wp_deref [simp] =
  wp_read [where m = "m :: file_context option" for m] wp_read [where m = "m :: connection option" for m]
  wp_read [where m = "m :: fxmem option" for m] wp_read [where m = "m :: MESSAGE option" for m]

end
