(* ===== verification/Connection.thy ===== *)
theory Connection
  imports NfpState
begin

text \<open>
  \<open>CConnection\<close> (\<open>driver/Connection.cpp\<close>, \<open>driver/connection.h\<close>): the handshake of client and
  server, the transition INITIAL, ESTABLISHED, TERMINATED, the receive thread and the teardown.
  The interface \<open>IConnectionCallback\<close> is the record \<open>conn_callback\<close>; the wait for the receive
  thread is a parameter of the operations that may wait, so that \<open>NfpQueue\<close> can put the receive
  thread itself there.
\<close>

record conn_callback =
  cb_HandleReceivedMessage :: "MESSAGE \<Rightarrow> nfp \<Rightarrow> (unit, nfp) outcome"
  cb_ConnectionEstablished :: "cid \<Rightarrow> nfp \<Rightarrow> (unit, nfp) outcome"
  cb_ConnectionTerminated :: "cid \<Rightarrow> nfp \<Rightarrow> (bool, nfp) outcome"

type_synonym waiter = "cid \<Rightarrow> nfp \<Rightarrow> (unit, nfp) outcome"

section \<open>Winsock calls\<close>

definition ws_result :: "dword option \<Rightarrow> hresult" where
  "ws_result r = (case r of None \<Rightarrow> S_OK | Some e \<Rightarrow> HRESULT_FROM_WIN32 e)"

definition SetSocketIpv6Only :: "nfp_env \<Rightarrow> SOCKET \<Rightarrow> nfp \<Rightarrow> hresult \<times> nfp" where
  "SetSocketIpv6Only env sock s =
     (ws_result (ws_setsockopt env (calls s) sock), log_call (SetSockOpt sock) s)"

text \<open>
  \<open>SynchronousReadSocket\<close>: the number of bytes read is ignored, so a short read leaves the rest of
  the zeroed buffer as it was.
\<close>

definition SynchronousReadSocket :: "nfp_env \<Rightarrow> SOCKET \<Rightarrow> nat \<Rightarrow> nfp \<Rightarrow> (hresult \<times> byte list) \<times> nfp" where
  "SynchronousReadSocket env sock cbBuffer s =
     (let data = take cbBuffer (ws_read_data env (calls s) sock);
          buffer = data @ replicate (cbBuffer - length data) 0;
          hr = ws_result (ws_ReadFile env (calls s) sock);
          s = log_call (ReadSocket sock) s
      in if hr = HRESULT_FROM_WIN32 ERROR_IO_PENDING
         then let hr = ws_result (ws_GetOverlappedResult env (calls s) sock)
              in ((hr, buffer), log_call (WaitOverlapped sock) s)
         else ((hr, buffer), s))"

text \<open>The GUID 9C7D2C68-5AD8-4A14-BE20-F8741D60D100 as its 16 bytes in memory.\<close>

definition MAGIC_PACKET :: "byte list" where
  "MAGIC_PACKET = [0x68, 0x2C, 0x7D, 0x9C, 0xD8, 0x5A, 0x14, 0x4A,
                   0xBE, 0x20, 0xF8, 0x74, 0x1D, 0x60, 0xD1, 0x00]"

definition send_magic :: "nfp_env \<Rightarrow> SOCKET \<Rightarrow> nfp \<Rightarrow> hresult \<times> nfp" where
  "send_magic env sock s = (ws_result (ws_send env (calls s) sock), log_call (SendMagic sock) s)"

definition closesocket :: "SOCKET \<Rightarrow> nfp \<Rightarrow> nfp" where
  "closesocket sock s = log_call (CloseSocket sock) s"

section \<open>Creation and teardown\<close>

definition new_CConnection :: "nfp_env \<Rightarrow> connection" where
  "new_CConnection env =
     \<lparr>conn_State = INITIAL, conn_Socket = INVALID_SOCKET, conn_ThreadpoolWork = False,
      conn_ThreadpoolThreadId = uninitialised_tid env, conn_fInbound = False, recv_active = False\<rparr>"

definition CConnection_Create :: "nfp_env \<Rightarrow> nfp \<Rightarrow> (hresult \<times> cid option, nfp) outcome" where
  "CConnection_Create env s =
     (case operator_new env s of
        (None, s) \<Rightarrow> Some ((E_OUTOFMEMORY, None), s)
      | (Some p, s) \<Rightarrow> Some ((S_OK, Some p), s\<lparr>conns := (conns s)(p \<mapsto> new_CConnection env)\<rparr>))"

definition SetInboundConnection :: "cid \<Rightarrow> nfp \<Rightarrow> (unit, nfp) outcome" where
  "SetInboundConnection this s = do {
     _ \<leftarrow> conns s this;
     Some ((), upd_conn this (conn_fInbound_update (\<lambda>_. True)) s) }"

text \<open>
  \<open>CConnection::Terminate\<close>.  While the calling thread waits, the receive thread may delete the
  connection; the exchange of \<open>_Socket\<close> afterwards reads the object again.
\<close>

definition Terminate :: "waiter \<Rightarrow> cid \<Rightarrow> nfp \<Rightarrow> (unit, nfp) outcome" where
  "Terminate wait this s = do {
     c \<leftarrow> conns s this;
     let PriorState = conn_State c;
     let s = upd_conn this (conn_State_update (\<lambda>_. TERMINATED)) s;
     if PriorState \<noteq> TERMINATED then do {
       let s = log_call (ShutdownSend (conn_Socket c)) s;
       (_, s) \<leftarrow> (if conn_ThreadpoolThreadId c \<noteq> cur_thread s then wait this s else Some ((), s));
       c \<leftarrow> conns s this;
       let s = upd_conn this (conn_Socket_update (\<lambda>_. INVALID_SOCKET)) s;
       Some ((), if conn_Socket c \<noteq> INVALID_SOCKET then closesocket (conn_Socket c) s else s) }
     else Some ((), s) }"

text \<open>\<open>delete pConnection\<close>: the destructor \<open>~CConnection\<close>, then the memory is gone.\<close>

definition CConnection_delete :: "waiter \<Rightarrow> cid \<Rightarrow> nfp \<Rightarrow> (unit, nfp) outcome" where
  "CConnection_delete wait this s = do {
     (_, s) \<leftarrow> Terminate wait this s;
     c \<leftarrow> conns s this;
     (_, s) \<leftarrow> (if conn_ThreadpoolWork c then do {
                 (_, s) \<leftarrow> (if conn_ThreadpoolThreadId c \<noteq> cur_thread s then wait this s else Some ((), s));
                 _ \<leftarrow> conns s this;
                 let s = log_call (CloseThreadpoolWork this) s;
                 Some ((), upd_conn this (conn_ThreadpoolWork_update (\<lambda>_. False)) s) }
               else Some ((), s));
     _ \<leftarrow> conns s this;
     Some ((), s\<lparr>conns := (conns s)(this := None)\<rparr>) }"

section \<open>Establishing\<close>

definition FinalizeEstablish ::
    "nfp_env \<Rightarrow> conn_callback \<Rightarrow> cid \<Rightarrow> SOCKET \<Rightarrow> nfp \<Rightarrow> (hresult, nfp) outcome" where
  "FinalizeEstablish env cb this sock s = do {
     c \<leftarrow> conns s this;
     let PriorState = conn_State c;
     let s = (if PriorState = INITIAL
              then upd_conn this (conn_State_update (\<lambda>_. ESTABLISHED)) s else s);
     if PriorState \<noteq> INITIAL then Some (HRESULT_FROM_WIN32 ERROR_ALREADY_INITIALIZED, s)
     else do {
       let r = create_threadpool_work env (calls s);
       let s = log_call (CreateThreadpoolWork this) s;
       case r of
         Some e \<Rightarrow> Some (HRESULT_FROM_WIN32 e, s)
       | None \<Rightarrow> do {
           let s = upd_conn this (conn_ThreadpoolWork_update (\<lambda>_. True)) s;
           let s = (if sock \<noteq> INVALID_SOCKET
                    then upd_conn this (conn_Socket_update (\<lambda>_. sock)) s else s);
           let s = log_call (SubmitThreadpoolWork this) s;
           let s = upd_conn this (recv_active_update (\<lambda>_. True)) s;
           (_, s) \<leftarrow> cb_ConnectionEstablished cb this s;
           Some (S_OK, s) } } }"

definition MAX_PATH :: nat where "MAX_PATH = 260"

text \<open>The idiom \<open>if (SUCCEEDED(hr)) { ... }\<close> over a call that returns a new status.\<close>

definition if_ok :: "(nfp \<Rightarrow> hresult \<times> nfp) \<Rightarrow> hresult \<times> nfp \<Rightarrow> hresult \<times> nfp" where
  "if_ok f r = (if SUCCEEDED (fst r) then f (snd r) else r)"

text \<open>
  \<open>CConnection::InitializeAsClient\<close> in three parts: open the socket and connect it by name,
  exchange magic packets and establish, and close the socket if anything failed.  \<open>szName\<close> is the
  array of \<open>BEGIN_PROXIMITY_ARGS\<close>, whose last element is overwritten with a terminator first.
\<close>

definition client_connect :: "nfp_env \<Rightarrow> cid \<Rightarrow> wchar list \<Rightarrow> nfp \<Rightarrow> hresult \<times> nfp" where
  "client_connect env this szName s =
     (let r = ws_socket env (calls s);
          s = log_call OpenSocket s;
          sock = (case r of Inl _ \<Rightarrow> INVALID_SOCKET | Inr h \<Rightarrow> Some h);
          hr = (case r of Inl e \<Rightarrow> HRESULT_FROM_WIN32 e | Inr _ \<Rightarrow> S_OK);
          s = upd_conn this (conn_Socket_update (\<lambda>_. sock)) s
      in if_ok (\<lambda>s. (ws_result (ws_setsockopt env (calls s) sock), log_call (SetSockOpt sock) s))
           (if_ok (\<lambda>s. (ws_result (ws_connect env (calls s) sock szName), log_call (ConnectByName sock szName) s))
             (if_ok (SetSocketIpv6Only env sock) (hr, s))))"

definition read_magic :: "nfp_env \<Rightarrow> SOCKET \<Rightarrow> nfp \<Rightarrow> hresult \<times> nfp" where
  "read_magic env sock s =
     (let ((hr, MagicPacket), s) = SynchronousReadSocket env sock 16 s
      in (if SUCCEEDED hr \<and> MagicPacket \<noteq> MAGIC_PACKET then E_FAIL else hr, s))"

definition client_handshake ::
    "nfp_env \<Rightarrow> conn_callback \<Rightarrow> cid \<Rightarrow> nfp \<Rightarrow> (hresult, nfp) outcome" where
  "client_handshake env cb this s = do {
     c \<leftarrow> conns s this;
     let (hr, s) = if_ok (read_magic env (conn_Socket c)) (send_magic env (conn_Socket c) s);
     if SUCCEEDED hr then FinalizeEstablish env cb this INVALID_SOCKET s else Some (hr, s) }"

definition close_if_failed :: "cid \<Rightarrow> hresult \<Rightarrow> nfp \<Rightarrow> (hresult, nfp) outcome" where
  "close_if_failed this hr s =
     (if FAILED hr then do {
        c \<leftarrow> conns s this;
        Some (hr, if conn_Socket c \<noteq> INVALID_SOCKET
                  then upd_conn this (conn_Socket_update (\<lambda>_. INVALID_SOCKET)) (closesocket (conn_Socket c) s)
                  else s) }
      else Some (hr, s))"

definition InitializeAsClient ::
    "nfp_env \<Rightarrow> conn_callback \<Rightarrow> cid \<Rightarrow> wchar list \<Rightarrow> nfp \<Rightarrow> (hresult, nfp) outcome" where
  "InitializeAsClient env cb this szName s = do {
     _ \<leftarrow> conns s this;
     let (hr, s) = client_connect env this (szName[MAX_PATH - 1 := 0]) s;
     (hr, s) \<leftarrow> (if SUCCEEDED hr then client_handshake env cb this s else Some (hr, s));
     close_if_failed this hr s }"

definition ValidateAccept ::
    "nfp_env \<Rightarrow> conn_callback \<Rightarrow> cid \<Rightarrow> SOCKET \<Rightarrow> byte list \<Rightarrow> nfp \<Rightarrow> (unit, nfp) outcome" where
  "ValidateAccept env cb this sock MagicPacket s = do {
     let hr = (if MagicPacket \<noteq> MAGIC_PACKET then E_FAIL else S_OK);
     let (hr, s) = (if SUCCEEDED hr then send_magic env sock s else (hr, s));
     (hr, s) \<leftarrow> (if SUCCEEDED hr then FinalizeEstablish env cb this sock s else Some (hr, s));
     Some ((), if FAILED hr then closesocket sock s else s) }"

section \<open>Traffic\<close>

definition TransmitMessage ::
    "nfp_env \<Rightarrow> waiter \<Rightarrow> cid \<Rightarrow> MESSAGE \<Rightarrow> nfp \<Rightarrow> (hresult, nfp) outcome" where
  "TransmitMessage env wait this m s = do {
     c \<leftarrow> conns s this;
     if conn_Socket c = INVALID_SOCKET then Some (HRESULT_FROM_WIN32 WSAENOTSOCK, s)
     else do {
       let r = ws_send env (calls s) (conn_Socket c);
       let s = log_call (SendMessage (conn_Socket c) m) s;
       case r of
         None \<Rightarrow> Some (S_OK, s)
       | Some e \<Rightarrow> do {
           (_, s) \<leftarrow> Terminate wait this s;
           Some (HRESULT_FROM_WIN32 e, s) } } }"

text \<open>
  The receive thread.  Its own call of \<open>Terminate\<close> does not wait (the thread identifiers agree);
  a wait there would be a thread waiting for itself.
\<close>

definition self_wait :: waiter where
  "self_wait p s = None"

partial_function (option) ReceiveLoop ::
    "nfp_env \<Rightarrow> conn_callback \<Rightarrow> cid \<Rightarrow> nfp \<Rightarrow> (unit, nfp) outcome" where
  "ReceiveLoop env cb this s = do {
     c \<leftarrow> conns s this;
     if conn_Socket c = INVALID_SOCKET then Some ((), s)
     else (case ws_recv env (calls s) (conn_Socket c) of
             Some m \<Rightarrow> do {
               (_, s) \<leftarrow> cb_HandleReceivedMessage cb m (log_call (RecvMessage (conn_Socket c)) s);
               ReceiveLoop env cb this s }
           | None \<Rightarrow> Terminate self_wait this (log_call (RecvMessage (conn_Socket c)) s)) }"

declare ReceiveLoop.simps [code]

text \<open>What both branches of the loop keep, the loop keeps.\<close>

lemma ReceiveLoop_invariant:
  assumes "I s"
    and recv: "\<And>m sk s. I s \<Longrightarrow> wlp (cb_HandleReceivedMessage cb m (log_call (RecvMessage sk) s)) (\<lambda>_. I)"
    and stop: "\<And>sk s. I s \<Longrightarrow> wlp (Terminate self_wait this (log_call (RecvMessage sk) s)) (\<lambda>_. I)"
  shows "wlp (ReceiveLoop env cb this s) (\<lambda>_. I)"
proof (rule wlpI)
  fix a s' assume ret: "ReceiveLoop env cb this s = Some (a, s')"
  let ?P = "\<lambda>env' cb' p s r. cb' = cb \<longrightarrow> p = this \<longrightarrow> I s \<longrightarrow> I (snd r)"
  have "?P env cb this s (a, s')"
  proof (rule ReceiveLoop.raw_induct [where P = ?P, OF _ ret], intro impI)
    fix f env' cb' p s r
    assume IH: "\<And>env' cb' p s r. f env' cb' p s = Some r \<Longrightarrow> ?P env' cb' p s r"
      and cb: "cb' = cb" "p = this" and s: "I s"
      and eq: "(conns s p \<bind> (\<lambda>c. if conn_Socket c = None then Some ((), s)
          else case ws_recv env' (calls s) (conn_Socket c) of
              None \<Rightarrow> Terminate self_wait p (log_call (RecvMessage (conn_Socket c)) s)
            | Some m \<Rightarrow> cb_HandleReceivedMessage cb' m (log_call (RecvMessage (conn_Socket c)) s) \<bind>
                (\<lambda>(_, s). f env' cb' p s))) = Some r"
    have step: "I (snd r)" if "cb_HandleReceivedMessage cb m (log_call (RecvMessage sk) s) = Some (u, s1)"
        "f env' cb this s1 = Some r" for m sk u s1
      using IH [OF that(2)] wlpD [OF recv [OF s] that(1)] by simp
    have leave: "I (snd r)" if "Terminate self_wait this (log_call (RecvMessage sk) s) = Some r" for sk
      using stop [OF s, of sk] that by (cases r) simp
    from eq s cb show "I (snd r)"
      by (auto split: bind_splits if_splits option.splits intro: step leave)
  qed
  with assms(1) show "I s'" by simp
qed

definition ReceiveThreadProc ::
    "nfp_env \<Rightarrow> conn_callback \<Rightarrow> cid \<Rightarrow> nfp \<Rightarrow> (bool, nfp) outcome" where
  "ReceiveThreadProc env cb this s = do {
     let (pMessage, s) = operator_new env s;
     (_, s) \<leftarrow> (case pMessage of
                None \<Rightarrow> Terminate self_wait this s
              | Some _ \<Rightarrow> ReceiveLoop env cb this s);
     cb_ConnectionTerminated cb this s }"

definition s_ReceiveThreadProc ::
    "nfp_env \<Rightarrow> conn_callback \<Rightarrow> cid \<Rightarrow> nfp \<Rightarrow> (unit, nfp) outcome" where
  "s_ReceiveThreadProc env cb this s = do {
     _ \<leftarrow> conns s this;
     let s = upd_conn this (conn_ThreadpoolThreadId_update (\<lambda>_. cur_thread s)) s;
     (fConnectionDeleted, s) \<leftarrow> ReceiveThreadProc env cb this s;
     Some ((), if fConnectionDeleted then s
               else upd_conn this (recv_active_update (\<lambda>_. False))
                      (upd_conn this (conn_ThreadpoolThreadId_update (\<lambda>_. 0)) s)) }"

text \<open>
  \<open>WaitForThreadpoolWorkCallbacks\<close>: the waiting thread stands still until the callback of the work
  item has returned, so the rest of the receive thread runs here, on its own thread.
\<close>

definition WaitForThreadpoolWorkCallbacks :: "nfp_env \<Rightarrow> conn_callback \<Rightarrow> waiter" where
  "WaitForThreadpoolWorkCallbacks env cb p s = do {
     c \<leftarrow> conns s p;
     if \<not> conn_ThreadpoolWork c then None
     else if recv_active c then do {
       let me = cur_thread s;
       (_, s) \<leftarrow> s_ReceiveThreadProc env cb p (s\<lparr>cur_thread := pool_thread env p\<rparr>);
       Some ((), s\<lparr>cur_thread := me\<rparr>) }
     else Some ((), s) }"

end
