(* ===== verification/FileContext.thy ===== *)
theory FileContext
  imports Connection
begin

text \<open>
  \<open>CFileContext\<close> (\<open>driver/FileContext.cpp\<close>, \<open>driver/FileContext.h\<close>): one open handle of the driver,
  its role, the queue of received messages of a subscription, the completion credits of a
  publication or of an arrival or departure subscription, and the one pended request.
  \<open>IRequestCallbackCancel\<close> is the parameter \<open>cancel\<close>: the framework may run it from inside
  \<open>MarkCancelable\<close>.
\<close>

type_synonym canceller = "req \<Rightarrow> nfp \<Rightarrow> (unit, nfp) outcome"

definition dword_bytes :: "dword \<Rightarrow> byte list" where
  "dword_bytes w = [ucast w, ucast (drop_bit 8 w), ucast (drop_bit 16 w), ucast (drop_bit 24 w)]"

section \<open>Roles\<close>

definition SetRoleSubcription :: "file_context \<Rightarrow> file_context" where
  "SetRoleSubcription c = c\<lparr>m_Role := ROLE_SUBSCRIPTION\<rparr>"

definition SetRolePublication :: "file_context \<Rightarrow> file_context" where
  "SetRolePublication c = c\<lparr>m_Role := ROLE_PUBLICATION\<rparr>"

definition SetRoleArrivedSubcription :: "file_context \<Rightarrow> bool \<times> file_context" where
  "SetRoleArrivedSubcription c =
     (if m_Role c = ROLE_SUBSCRIPTION then (True, c\<lparr>m_Role := ROLE_ARRIVEDSUBSCRIPTION\<rparr>)
      else (False, c))"

definition SetRoleDepartedSubcription :: "file_context \<Rightarrow> bool \<times> file_context" where
  "SetRoleDepartedSubcription c =
     (if m_Role c = ROLE_SUBSCRIPTION then (True, c\<lparr>m_Role := ROLE_DEPARTEDSUBSCRIPTION\<rparr>)
      else (False, c))"

definition IsNormalSubscription :: "file_context \<Rightarrow> bool" where
  "IsNormalSubscription c \<longleftrightarrow> m_Role c = ROLE_SUBSCRIPTION"

definition IsArrivedSubscription :: "file_context \<Rightarrow> bool" where
  "IsArrivedSubscription c \<longleftrightarrow> m_Role c = ROLE_ARRIVEDSUBSCRIPTION"

definition IsDepartedSubscription :: "file_context \<Rightarrow> bool" where
  "IsDepartedSubscription c \<longleftrightarrow> m_Role c = ROLE_DEPARTEDSUBSCRIPTION"

definition IsPublication :: "file_context \<Rightarrow> bool" where
  "IsPublication c \<longleftrightarrow> m_Role c = ROLE_PUBLICATION"

text \<open>\<open>SetType\<close>: the string is copied when \<open>MinCchType < wcslen + 1 < MaxCchType\<close>.\<close>

definition SetType :: "nfp_env \<Rightarrow> fid \<Rightarrow> wchar list \<Rightarrow> nfp \<Rightarrow> (hresult, nfp) outcome" where
  "SetType env this pszType s = do {
     c \<leftarrow> files s this;
     _ \<leftarrow> DRIVER_ASSERT (m_pszType c = None);
     x \<leftarrow> wstr pszType;
     let cchStr = length x + 1;
     if cchStr > MinCchType \<and> cchStr < MaxCchType then
       (case operator_new env s of
          (None, s) \<Rightarrow> Some (E_OUTOFMEMORY, s)
        | (Some _, s) \<Rightarrow> do {
            (t, fits) \<leftarrow> StringCchCopy (replicate cchStr 0) cchStr (Some pszType);
            let s = upd_file this (m_pszType_update (\<lambda>_. Some t)) s;
            Some (if fits then S_OK else STRSAFE_E_INSUFFICIENT_BUFFER, s) })
     else Some (E_INVALIDARG, s) }"

section \<open>Requests\<close>

text \<open>\<open>CompleteRequest\<close>: nothing is pended, or the request is being cancelled, or it completes.\<close>

definition CompleteRequest ::
    "nfp_env \<Rightarrow> fid \<Rightarrow> hresult \<Rightarrow> nat \<Rightarrow> bool \<Rightarrow> nfp \<Rightarrow> (bool, nfp) outcome" where
  "CompleteRequest env this hr cbSize fIsCancelable s = do {
     c \<leftarrow> files s this;
     case m_pWdfRequest c of
       None \<Rightarrow> Some (False, s)
     | Some r \<Rightarrow>
         (let (fCompleteRequest, s) =
            (if fIsCancelable
             then (UnmarkCancelable_hr env (calls s) r \<noteq> HRESULT_FROM_WIN32 ERROR_OPERATION_ABORTED,
                   log_call (UnmarkCancelable r) s)
             else (True, s))
          in if fCompleteRequest
             then Some (True, upd_file this (m_pWdfRequest_update (\<lambda>_. None))
                               (log_call (CompleteWithInformation r hr cbSize) s))
             else Some (False, s)) }"

definition FileContext_OnCancel :: "nfp_env \<Rightarrow> fid \<Rightarrow> nfp \<Rightarrow> (unit, nfp) outcome" where
  "FileContext_OnCancel env this s = do {
     _ \<leftarrow> files s this;
     (_, s) \<leftarrow> EnterCriticalSection (RoleLock this) s;
     (_, s) \<leftarrow> CompleteRequest env this E_ABORT 0 False s;
     LeaveCriticalSection (RoleLock this) s }"

definition mark_cancelable :: "nfp_env \<Rightarrow> canceller \<Rightarrow> req \<Rightarrow> nfp \<Rightarrow> (unit, nfp) outcome" where
  "mark_cancelable env cancel r s =
     (let now = MarkCancelable_cancels env (calls s) r; s = log_call (MarkCancelable r) s in
      if now then cancel r s else Some ((), s))"

section \<open>Enabling and disabling\<close>

definition Disable :: "nfp_env \<Rightarrow> fid \<Rightarrow> nfp \<Rightarrow> (hresult, nfp) outcome" where
  "Disable env this s = do {
     (_, s) \<leftarrow> EnterCriticalSection (RoleLock this) s;
     c \<leftarrow> files s this;
     let hr = (if m_Role c = ROLE_UNDEFINED \<or> m_Role c = ROLE_PROXIMITY
               then HRESULT_FROM_NT STATUS_INVALID_DEVICE_STATE else S_OK);
     let hr = (if \<not> m_fEnabled c then HRESULT_FROM_NT STATUS_INVALID_DEVICE_STATE else hr);
     (_, s) \<leftarrow> (if SUCCEEDED hr then do {
                 let s = upd_file this (m_fEnabled_update (\<lambda>_. False)) s;
                 (_, s) \<leftarrow> CompleteRequest env this (HRESULT_FROM_NT STATUS_CANCELLED) 0 True s;
                 Some ((), upd_file this (m_SubscribedMessageQueue_update (\<lambda>_. [])) s) }
               else Some ((), s));
     (_, s) \<leftarrow> LeaveCriticalSection (RoleLock this) s;
     Some (hr, s) }"

definition Enable :: "fid \<Rightarrow> nfp \<Rightarrow> (hresult, nfp) outcome" where
  "Enable this s = do {
     (_, s) \<leftarrow> EnterCriticalSection (RoleLock this) s;
     c \<leftarrow> files s this;
     let hr = (if m_Role c = ROLE_UNDEFINED \<or> m_Role c = ROLE_PROXIMITY
               then HRESULT_FROM_NT STATUS_INVALID_DEVICE_STATE else S_OK);
     let hr = (if m_fEnabled c then HRESULT_FROM_NT STATUS_INVALID_DEVICE_STATE else hr);
     let s = (if SUCCEEDED hr then upd_file this (m_fEnabled_update (\<lambda>_. True)) s else s);
     (_, s) \<leftarrow> LeaveCriticalSection (RoleLock this) s;
     Some (hr, s) }"

section \<open>Delivering one message to the pended request\<close>

text \<open>
  \<open>CompleteOneGetNextSubscribedMessage\<close>: the size goes into the first four bytes of the output
  buffer, the payload behind it; a buffer that is too small completes the request with
  \<open>STATUS_BUFFER_OVERFLOW\<close> and the size hint, and the message counts as not delivered.
\<close>

definition CompleteOneGetNextSubscribedMessage ::
    "nfp_env \<Rightarrow> fid \<Rightarrow> dword \<Rightarrow> byte list option \<Rightarrow> nfp \<Rightarrow> (bool, nfp) outcome" where
  "CompleteOneGetNextSubscribedMessage env this cbPayload pbPayload s = do {
     c \<leftarrow> files s this;
     _ \<leftarrow> DRIVER_ASSERT (m_pWdfRequest c \<noteq> None);
     r \<leftarrow> m_pWdfRequest c;
     case GetOutputMemory env r of
       None \<Rightarrow> Some (False, s)
     | Some mem \<Rightarrow> do {
         let hr = CopyFromBuffer_hr env (calls s) r 0 (dword_bytes cbPayload);
         let s = log_call (CopyFromBuffer r 0 (dword_bytes cbPayload)) s;
         let cbOutputBuffer = (if SUCCEEDED hr then 4 else 0 :: nat);
         (hr, s) \<leftarrow> (case pbPayload of
             Some pb \<Rightarrow>
               (if FAILED hr then Some (hr, s)
                else if mem_size mem < unat (cbPayload + 4)
                then Some (HRESULT_FROM_NT STATUS_BUFFER_OVERFLOW, s)
                else if unat cbPayload \<le> length pb
                then Some (CopyFromBuffer_hr env (calls s) r 4 (take (unat cbPayload) pb),
                           log_call (CopyFromBuffer r 4 (take (unat cbPayload) pb)) s)
                else None)
           | None \<Rightarrow> Some (hr, s));
         let fDelivered = SUCCEEDED hr;
         let cbOutputBuffer = (if SUCCEEDED hr then cbOutputBuffer + unat cbPayload else cbOutputBuffer);
         let s = (if SUCCEEDED hr \<and> m_dwQueueSize c > 0
                  then upd_file this (m_dwQueueSize_update (\<lambda>n. n - 1)) s else s);
         (fCompleted, s) \<leftarrow> CompleteRequest env this hr cbOutputBuffer True s;
         Some (fDelivered \<and> fCompleted, s) } }"

definition CompleteOneArrivalEvent :: "nfp_env \<Rightarrow> fid \<Rightarrow> nfp \<Rightarrow> (unit, nfp) outcome" where
  "CompleteOneArrivalEvent env this s = do {
     c \<leftarrow> files s this;
     _ \<leftarrow> DRIVER_ASSERT (m_Role c = ROLE_ARRIVEDSUBSCRIPTION);
     (_, s) \<leftarrow> EnterCriticalSection (RoleLock this) s;
     (_, s) \<leftarrow> (if m_cCompleteReady c > 0 \<and> m_pWdfRequest c \<noteq> None then do {
                 let ArrivalFlags = (0x1 :: dword);
                 (fDelivered, s) \<leftarrow> CompleteOneGetNextSubscribedMessage env this 4 (Some (dword_bytes ArrivalFlags)) s;
                 Some ((), if fDelivered then upd_file this (m_cCompleteReady_update (\<lambda>n. n - 1)) s else s) }
               else Some ((), s));
     LeaveCriticalSection (RoleLock this) s }"

definition CompleteOneRemovalEvent :: "nfp_env \<Rightarrow> fid \<Rightarrow> nfp \<Rightarrow> (unit, nfp) outcome" where
  "CompleteOneRemovalEvent env this s = do {
     c \<leftarrow> files s this;
     _ \<leftarrow> DRIVER_ASSERT (m_Role c = ROLE_DEPARTEDSUBSCRIPTION);
     (_, s) \<leftarrow> EnterCriticalSection (RoleLock this) s;
     (_, s) \<leftarrow> (if m_cCompleteReady c > 0 \<and> m_pWdfRequest c \<noteq> None then do {
                 let RemovalFlags = (0x0 :: dword);
                 (fDelivered, s) \<leftarrow> CompleteOneGetNextSubscribedMessage env this 4 (Some (dword_bytes RemovalFlags)) s;
                 Some ((), if fDelivered then upd_file this (m_cCompleteReady_update (\<lambda>n. n - 1)) s else s) }
               else Some ((), s));
     LeaveCriticalSection (RoleLock this) s }"

definition HandleArrivalEvent :: "nfp_env \<Rightarrow> fid \<Rightarrow> nfp \<Rightarrow> (unit, nfp) outcome" where
  "HandleArrivalEvent env this s = do {
     c \<leftarrow> files s this;
     _ \<leftarrow> DRIVER_ASSERT (m_Role c = ROLE_ARRIVEDSUBSCRIPTION);
     (_, s) \<leftarrow> EnterCriticalSection (RoleLock this) s;
     (_, s) \<leftarrow> (if m_fEnabled c
               then CompleteOneArrivalEvent env this (upd_file this (m_cCompleteReady_update Suc) s)
               else Some ((), s));
     LeaveCriticalSection (RoleLock this) s }"

definition HandleRemovalEvent :: "nfp_env \<Rightarrow> fid \<Rightarrow> nfp \<Rightarrow> (unit, nfp) outcome" where
  "HandleRemovalEvent env this s = do {
     c \<leftarrow> files s this;
     _ \<leftarrow> DRIVER_ASSERT (m_Role c = ROLE_DEPARTEDSUBSCRIPTION);
     (_, s) \<leftarrow> EnterCriticalSection (RoleLock this) s;
     (_, s) \<leftarrow> (if m_fEnabled c
               then CompleteOneRemovalEvent env this (upd_file this (m_cCompleteReady_update Suc) s)
               else Some ((), s));
     LeaveCriticalSection (RoleLock this) s }"

section \<open>Subscriptions\<close>

text \<open>
  \<open>GetNextSubscribedMessage\<close>.  The input memory object is used without a null check.  After
  \<open>MarkCancelable\<close> the pended request is read again, since the cancel callback may have taken it.
\<close>

definition GetNextSubscribedMessage ::
    "nfp_env \<Rightarrow> canceller \<Rightarrow> fid \<Rightarrow> req \<Rightarrow> nfp \<Rightarrow> (hresult, nfp) outcome" where
  "GetNextSubscribedMessage env cancel this pWdfRequest s = do {
     (_, s) \<leftarrow> EnterCriticalSection (RoleLock this) s;
     c \<leftarrow> files s this;
     let hr = (if m_pWdfRequest c \<noteq> None then HRESULT_FROM_NT STATUS_INVALID_DEVICE_STATE else S_OK);
     let hr = (if \<not> m_fEnabled c then HRESULT_FROM_NT (HRESULT_FROM_NT STATUS_CANCELLED) else hr);
     (hr, s) \<leftarrow> (if SUCCEEDED hr then do {
         pWdfInputMemory \<leftarrow> GetInputMemory env pWdfRequest;
         if mem_buffer pWdfInputMemory = None then
           (if m_Role c = ROLE_SUBSCRIPTION then do {
              let s = upd_file this (m_pWdfRequest_update (\<lambda>_. Some pWdfRequest)) s;
              (_, s) \<leftarrow> mark_cancelable env cancel pWdfRequest s;
              c \<leftarrow> files s this;
              case m_SubscribedMessageQueue c of
                pMyPayload # rest \<Rightarrow>
                  if m_pWdfRequest c \<noteq> None then do {
                    (fDelivered, s) \<leftarrow> CompleteOneGetNextSubscribedMessage env this
                                        (m_cbPayload pMyPayload) (m_pbPayload pMyPayload) s;
                    Some (hr, if fDelivered then upd_file this (m_SubscribedMessageQueue_update tl) s else s) }
                  else Some (hr, s)
              | [] \<Rightarrow> Some (hr, s) }
            else if m_Role c = ROLE_ARRIVEDSUBSCRIPTION then do {
              let s = upd_file this (m_pWdfRequest_update (\<lambda>_. Some pWdfRequest)) s;
              (_, s) \<leftarrow> mark_cancelable env cancel pWdfRequest s;
              c \<leftarrow> files s this;
              (_, s) \<leftarrow> (if m_pWdfRequest c \<noteq> None then CompleteOneArrivalEvent env this s else Some ((), s));
              Some (hr, s) }
            else if m_Role c = ROLE_DEPARTEDSUBSCRIPTION then do {
              let s = upd_file this (m_pWdfRequest_update (\<lambda>_. Some pWdfRequest)) s;
              (_, s) \<leftarrow> mark_cancelable env cancel pWdfRequest s;
              c \<leftarrow> files s this;
              (_, s) \<leftarrow> (if m_pWdfRequest c \<noteq> None then CompleteOneRemovalEvent env this s else Some ((), s));
              Some (hr, s) }
            else Some (HRESULT_FROM_NT STATUS_INVALID_DEVICE_STATE, s))
         else Some (E_INVALIDARG, s) }
       else Some (hr, s));
     (_, s) \<leftarrow> LeaveCriticalSection (RoleLock this) s;
     Some (hr, s) }"

definition WINDOWSMIME_PROTOCOL :: "wchar list" where "WINDOWSMIME_PROTOCOL = wlit ''WindowsMime'' @ [0]"
definition WINDOWSMIME_PROTOCOL_CHARS :: nat where "WINDOWSMIME_PROTOCOL_CHARS = 11"

definition CMyPayload_Initialize ::
    "nfp_env \<Rightarrow> dword \<Rightarrow> byte list option \<Rightarrow> payload \<Rightarrow> nfp \<Rightarrow> (hresult \<times> payload, nfp) outcome" where
  "CMyPayload_Initialize env cbPayload pbPayload p s =
     (case operator_new env s of
        (None, s) \<Rightarrow> Some ((E_OUTOFMEMORY, p\<lparr>m_pbPayload := None\<rparr>), s)
      | (Some _, s) \<Rightarrow> do {
          d \<leftarrow> CopyMemory (replicate (unat cbPayload) 0) (unat cbPayload) pbPayload;
          Some ((S_OK, p\<lparr>m_pbPayload := Some d, m_cbPayload := cbPayload\<rparr>), s) })"

text \<open>
  The payload of a \<open>WindowsMime\<close> message for a subscription to all of them: \<open>MaxCchMimeType\<close> bytes
  of MIME type, then the payload.  \<open>None\<close> inside is "no match": the type does not convert or does
  not fit, or memory is short.
\<close>

definition mime_payload ::
    "nfp_env \<Rightarrow> wchar list \<Rightarrow> dword \<Rightarrow> byte list \<Rightarrow> nfp \<Rightarrow> ((dword \<times> byte list) option, nfp) outcome" where
  "mime_payload env pszType cbPayload pbPayload s = do {
     x \<leftarrow> wstr (drop (WINDOWSMIME_PROTOCOL_CHARS + 1) pszType);
     case wide_to_multibyte env x of
       None \<Rightarrow> Some (None, s)
     | Some mb \<Rightarrow>
         if length mb < MaxCchMimeType + 1 then
           (let szMimeType = mb @ replicate (MaxCchMimeType + 1 - length mb) 0 in
            case operator_new env s of
              (None, s) \<Rightarrow> Some (None, s)
            | (Some _, s) \<Rightarrow> do {
                d \<leftarrow> CopyMemory (replicate (unat cbPayload) 0) (unat cbPayload) (Some pbPayload);
                Some (Some (cbPayload + of_nat MaxCchMimeType, take MaxCchMimeType szMimeType @ d), s) })
         else Some (None, s) }"

text \<open>Which subscriptions take a message, and with what payload: the first half of \<open>HandleReceivedPublication\<close>.\<close>

definition match_publication ::
    "nfp_env \<Rightarrow> wchar list option \<Rightarrow> wchar list \<Rightarrow> dword \<Rightarrow> byte list \<Rightarrow> nfp
       \<Rightarrow> ((dword \<times> byte list) option, nfp) outcome" where
  "match_publication env subType pszType cbPayload pbPayload s = do {
     allMime \<leftarrow> CompareStringOrdinal (upcase env) subType (-1) (Some WINDOWSMIME_PROTOCOL) (-1) False;
     isMime \<leftarrow> (if allMime then do {
                 x \<leftarrow> wstr pszType;
                 if length x > WINDOWSMIME_PROTOCOL_CHARS
                 then CompareStringOrdinal (upcase env) (Some pszType) (int WINDOWSMIME_PROTOCOL_CHARS)
                        (Some WINDOWSMIME_PROTOCOL) (-1) False
                 else Some False }
               else Some False);
     if isMime then mime_payload env pszType cbPayload pbPayload s
     else do {
       eq \<leftarrow> CompareStringOrdinal (upcase env) (Some pszType) (-1) subType (-1) False;
       Some (if eq then Some (cbPayload, pbPayload) else None, s) } }"

text \<open>\<open>new CMyPayload\<close>, \<open>Initialize\<close>, \<open>InsertTailList\<close>: the queueing tail of \<open>HandleReceivedPublication\<close>.\<close>

definition enqueue_payload :: "nfp_env \<Rightarrow> fid \<Rightarrow> dword \<Rightarrow> byte list \<Rightarrow> nfp \<Rightarrow> (unit, nfp) outcome" where
  "enqueue_payload env this cbPayload pbPayload s =
     (case operator_new env s of
        (None, s) \<Rightarrow> Some ((), s)
      | (Some _, s) \<Rightarrow> do {
          ((hr, p), s) \<leftarrow> CMyPayload_Initialize env cbPayload (Some pbPayload) new_CMyPayload s;
          Some ((), if SUCCEEDED hr
                    then upd_file this (m_dwQueueSize_update (\<lambda>n. n + 1))
                           (upd_file this (m_SubscribedMessageQueue_update (\<lambda>q. q @ [p])) s)
                    else s) })"

text \<open>
  The second half of \<open>HandleReceivedPublication\<close>: a matching message goes to the pended request, and
  into the queue, up to its limit, when there is none or the delivery failed.
\<close>

definition deliver_or_queue ::
    "nfp_env \<Rightarrow> fid \<Rightarrow> dword \<Rightarrow> byte list \<Rightarrow> nfp \<Rightarrow> (unit, nfp) outcome" where
  "deliver_or_queue env this cbPayload pbPayload s = do {
     c \<leftarrow> files s this;
     (fDelivered, s) \<leftarrow> (if m_pWdfRequest c \<noteq> None
         then CompleteOneGetNextSubscribedMessage env this cbPayload (Some pbPayload) s
         else Some (False, s));
     c \<leftarrow> files s this;
     if \<not> fDelivered \<and> m_dwQueueSize c < MAX_MESSAGE_QUEUE_SIZE
     then enqueue_payload env this cbPayload pbPayload s
     else Some ((), s) }"

definition HandleReceivedPublication ::
    "nfp_env \<Rightarrow> fid \<Rightarrow> wchar list \<Rightarrow> dword \<Rightarrow> byte list \<Rightarrow> nfp \<Rightarrow> (unit, nfp) outcome" where
  "HandleReceivedPublication env this pszType cbPayload pbPayload s = do {
     c \<leftarrow> files s this;
     _ \<leftarrow> DRIVER_ASSERT (m_Role c = ROLE_SUBSCRIPTION);
     (_, s) \<leftarrow> EnterCriticalSection (RoleLock this) s;
     (_, s) \<leftarrow> (if m_fEnabled c then do {
         (matches, s) \<leftarrow> match_publication env (m_pszType c) pszType cbPayload pbPayload s;
         case matches of
           None \<Rightarrow> Some ((), s)
         | Some (cbPayload, pbPayload) \<Rightarrow> deliver_or_queue env this cbPayload pbPayload s }
       else Some ((), s));
     LeaveCriticalSection (RoleLock this) s }"

section \<open>Publications\<close>

definition SetPayload :: "nfp_env \<Rightarrow> fid \<Rightarrow> req \<Rightarrow> nfp \<Rightarrow> (hresult, nfp) outcome" where
  "SetPayload env this pWdfRequest s = do {
     (_, s) \<leftarrow> EnterCriticalSection (RoleLock this) s;
     c \<leftarrow> files s this;
     let hr = (if m_Role c \<noteq> ROLE_PUBLICATION \<or> m_pbPayload (m_MyPayload c) \<noteq> None
               then HRESULT_FROM_NT STATUS_INVALID_DEVICE_STATE else S_OK);
     (hr, s) \<leftarrow> (if SUCCEEDED hr then do {
         pWdfOutputMemory \<leftarrow> GetOutputMemory env pWdfRequest;
         if mem_buffer pWdfOutputMemory = None then
           (case GetInputMemory env pWdfRequest of
              None \<Rightarrow> Some (E_INVALIDARG, s)
            | Some pWdfMemory \<Rightarrow>
                let cbPayload = mem_size pWdfMemory in
                if cbPayload > 0 \<and> cbPayload \<le> MaxCbPayload then do {
                  ((hr, p), s) \<leftarrow> CMyPayload_Initialize env (of_nat cbPayload) (mem_buffer pWdfMemory) (m_MyPayload c) s;
                  Some (hr, upd_file this (m_MyPayload_update (\<lambda>_. p)) s) }
                else Some (HRESULT_FROM_NT STATUS_INVALID_BUFFER_SIZE, s))
         else Some (E_INVALIDARG, s) }
       else Some (hr, s));
     (_, s) \<leftarrow> LeaveCriticalSection (RoleLock this) s;
     Some (hr, s) }"

definition GetNextTransmittedMessage ::
    "nfp_env \<Rightarrow> canceller \<Rightarrow> fid \<Rightarrow> req \<Rightarrow> nfp \<Rightarrow> (hresult, nfp) outcome" where
  "GetNextTransmittedMessage env cancel this pWdfRequest s = do {
     (_, s) \<leftarrow> EnterCriticalSection (RoleLock this) s;
     c \<leftarrow> files s this;
     let hr = (if m_Role c \<noteq> ROLE_PUBLICATION \<or> m_pWdfRequest c \<noteq> None
               then HRESULT_FROM_NT STATUS_INVALID_DEVICE_STATE else S_OK);
     let hr = (if \<not> m_fEnabled c then HRESULT_FROM_NT (HRESULT_FROM_NT STATUS_CANCELLED) else hr);
     (hr, s) \<leftarrow> (if SUCCEEDED hr then do {
         pWdfInputMemory \<leftarrow> GetInputMemory env pWdfRequest;
         if mem_buffer pWdfInputMemory = None then do {
           pWdfOutputMemory \<leftarrow> GetOutputMemory env pWdfRequest;
           if mem_buffer pWdfOutputMemory = None then do {
             let s = upd_file this (m_pWdfRequest_update (\<lambda>_. Some pWdfRequest)) s;
             (_, s) \<leftarrow> (if m_cCompleteReady c > 0 then do {
                  (fCompleted, s) \<leftarrow> CompleteRequest env this S_OK 0 False s;
                  Some ((), if fCompleted then upd_file this (m_cCompleteReady_update (\<lambda>n. n - 1)) s else s) }
                else Some ((), s));
             Some (hr, s) }
           else Some (E_INVALIDARG, s) }
         else Some (E_INVALIDARG, s) }
       else Some (hr, s));
     c \<leftarrow> files s this;
     (_, s) \<leftarrow> (case m_pWdfRequest c of
                 Some r \<Rightarrow> if SUCCEEDED hr then mark_cancelable env cancel r s else Some ((), s)
               | None \<Rightarrow> Some ((), s));
     (_, s) \<leftarrow> LeaveCriticalSection (RoleLock this) s;
     Some (hr, s) }"

definition HandleMessageTransmitted :: "nfp_env \<Rightarrow> fid \<Rightarrow> nfp \<Rightarrow> (unit, nfp) outcome" where
  "HandleMessageTransmitted env this s = do {
     c \<leftarrow> files s this;
     _ \<leftarrow> DRIVER_ASSERT (m_Role c = ROLE_PUBLICATION);
     (_, s) \<leftarrow> EnterCriticalSection (RoleLock this) s;
     (fCompleted, s) \<leftarrow> CompleteRequest env this S_OK 0 True s;
     let s = (if \<not> fCompleted then upd_file this (m_cCompleteReady_update Suc) s else s);
     LeaveCriticalSection (RoleLock this) s }"

section \<open>Proximity handles and destruction\<close>

text \<open>
  The input buffer of the request is the \<open>BEGIN_PROXIMITY_ARGS\<close> structure: \<open>MAX_PATH\<close> wide
  characters, little-endian.
\<close>

fun wchars_of_bytes :: "byte list \<Rightarrow> wchar list" where
  "wchars_of_bytes (lo # hi # bs) = (ucast lo OR push_bit 8 (ucast hi)) # wchars_of_bytes bs"
| "wchars_of_bytes _ = []"

definition sizeof_BEGIN_PROXIMITY_ARGS :: nat where
  "sizeof_BEGIN_PROXIMITY_ARGS = 2 * MAX_PATH"

definition BeginProximity ::
    "nfp_env \<Rightarrow> conn_callback \<Rightarrow> fid \<Rightarrow> req \<Rightarrow> nfp \<Rightarrow> (hresult, nfp) outcome" where
  "BeginProximity env pCallback this pWdfRequest s = do {
     (_, s) \<leftarrow> EnterCriticalSection (RoleLock this) s;
     c \<leftarrow> files s this;
     let hr = (if m_Role c \<noteq> ROLE_UNDEFINED then HRESULT_FROM_NT STATUS_INVALID_DEVICE_STATE else S_OK);
     let s = (if m_Role c \<noteq> ROLE_UNDEFINED then s else upd_file this (m_Role_update (\<lambda>_. ROLE_PROXIMITY)) s);
     (_, s) \<leftarrow> LeaveCriticalSection (RoleLock this) s;
     (hr, s) \<leftarrow> (if SUCCEEDED hr then
         (case GetInputMemory env pWdfRequest of
            None \<Rightarrow> Some (E_INVALIDARG, s)
          | Some pWdfMemory \<Rightarrow>
              if mem_size pWdfMemory = sizeof_BEGIN_PROXIMITY_ARGS then do {
                ((hr, pConnection), s) \<leftarrow> CConnection_Create env s;
                if SUCCEEDED hr then do {
                  p \<leftarrow> pConnection;
                  let s = upd_file this (m_pConnection_update (\<lambda>_. Some p)) s;
                  pArgs \<leftarrow> mem_buffer pWdfMemory;
                  InitializeAsClient env pCallback p (wchars_of_bytes pArgs) s }
                else Some (hr, s) }
              else Some (E_INVALIDARG, s))
       else Some (hr, s));
     _ \<leftarrow> files s this;
     Some (hr, if FAILED hr then upd_file this (m_pConnection_update (\<lambda>_. None)) s else s) }"

text \<open>\<open>delete pContext\<close>: the destructor \<open>~CFileContext\<close>, then the memory is gone.\<close>

definition CFileContext_delete :: "nfp_env \<Rightarrow> waiter \<Rightarrow> fid \<Rightarrow> nfp \<Rightarrow> (unit, nfp) outcome" where
  "CFileContext_delete env wait this s = do {
     c \<leftarrow> files s this;
     let s = upd_file this (m_SubscribedMessageQueue_update (\<lambda>_. [])) s;
     let s = upd_file this (m_pszType_update (\<lambda>_. None)) s;
     (_, s) \<leftarrow> (case m_pConnection c of
                 None \<Rightarrow> Some ((), s)
               | Some p \<Rightarrow> do {
                   (_, s) \<leftarrow> CConnection_delete wait p s;
                   Some ((), upd_file this (m_pConnection_update (\<lambda>_. None)) s) });
     (_, s) \<leftarrow> EnterCriticalSection (RoleLock this) s;
     (_, s) \<leftarrow> CompleteRequest env this E_ABORT 0 True s;
     (_, s) \<leftarrow> LeaveCriticalSection (RoleLock this) s;
     Some ((), s\<lparr>files := (files s)(this := None)\<rparr>) }"

end
