(* ===== verification/NfpQueue.thy ===== *)
theory NfpQueue
  imports FileContext
begin

text \<open>
  \<open>CMyQueue\<close> (\<open>driver/Queue.cpp\<close>, \<open>driver/Queue.h\<close>): the create, close, cancel and control
  callbacks of the framework and the three callbacks of a connection.  The intrusive lists are
  HOL lists here (\<open>IntrusiveList\<close> has the refinement); a loop over a list runs on the list as it is
  when the loop starts, which is what the code does because it holds the list's lock throughout.
\<close>

section \<open>Names\<close>

definition PUBS_NAMESPACE :: "wchar list" where "PUBS_NAMESPACE = wlit ''Pubs'' @ [0x5C, 0]"
definition SUBS_NAMESPACE :: "wchar list" where "SUBS_NAMESPACE = wlit ''Subs'' @ [0x5C, 0]"
definition WINDOWS_PROTOCOL :: "wchar list" where "WINDOWS_PROTOCOL = wlit ''Windows.'' @ [0]"
definition WINDOWSURI_PROTOCOL :: "wchar list" where "WINDOWSURI_PROTOCOL = wlit ''WindowsUri'' @ [0]"
definition DEVICE_ARRIVED :: "wchar list" where "DEVICE_ARRIVED = wlit ''DeviceArrived'' @ [0]"
definition DEVICE_DEPARTED :: "wchar list" where "DEVICE_DEPARTED = wlit ''DeviceDeparted'' @ [0]"
definition PAIRING_PROTOCOL :: "wchar list" where "PAIRING_PROTOCOL = wlit ''Pairing:'' @ [0]"
definition NDEF_PROTOCOL :: "wchar list" where "NDEF_PROTOCOL = wlit ''NDEF'' @ [0]"
definition NDEF_EMPTY_TYPE :: "wchar list" where "NDEF_EMPTY_TYPE = wlit ''Empty'' @ [0]"

definition PUBS_NAMESPACE_CHARS :: nat where "PUBS_NAMESPACE_CHARS = 5"
definition SUBS_NAMESPACE_CHARS :: nat where "SUBS_NAMESPACE_CHARS = 5"
definition WINDOWS_PROTOCOL_CHARS :: nat where "WINDOWS_PROTOCOL_CHARS = 8"
definition PAIRING_PROTOCOL_CHARS :: nat where "PAIRING_PROTOCOL_CHARS = 8"
definition NDEF_PROTOCOL_CHARS :: nat where "NDEF_PROTOCOL_CHARS = 4"
definition NDEF_EMPTY_TYPE_CHARS :: nat where "NDEF_EMPTY_TYPE_CHARS = 5"

text \<open>\<open>CompareStringOrdinal(p, n, lit, n, TRUE) == CSTR_EQUAL\<close> and the NUL-terminated variant.\<close>

definition begins_with :: "nfp_env \<Rightarrow> wchar list \<Rightarrow> wchar list \<Rightarrow> nat \<Rightarrow> bool option" where
  "begins_with env p lit n = CompareStringOrdinal (upcase env) (Some p) (int n) (Some lit) (int n) True"

definition is_name :: "nfp_env \<Rightarrow> wchar list \<Rightarrow> wchar list \<Rightarrow> bool option" where
  "is_name env p lit = CompareStringOrdinal (upcase env) (Some p) (-1) (Some lit) (-1) True"

section \<open>IQueueCallbackCreate\<close>

text \<open>The protocol part of the name: the chain of comparisons of \<open>OnCreateFile\<close>.\<close>

definition select_protocol :: "nfp_env \<Rightarrow> fid \<Rightarrow> wchar list \<Rightarrow> nfp \<Rightarrow> (hresult, nfp) outcome" where
  "select_protocol env this pszProtocol s = do {
     windows \<leftarrow> begins_with env pszProtocol WINDOWS_PROTOCOL WINDOWS_PROTOCOL_CHARS;
     if windows then do { (_, s) \<leftarrow> SetType env this pszProtocol s; Some (S_OK, s) }
     else do {
     uri \<leftarrow> is_name env pszProtocol WINDOWSURI_PROTOCOL;
     if uri then do { (_, s) \<leftarrow> SetType env this pszProtocol s; Some (S_OK, s) }
     else do {
     mime \<leftarrow> begins_with env pszProtocol WINDOWSMIME_PROTOCOL WINDOWSMIME_PROTOCOL_CHARS;
     if mime then do { (_, s) \<leftarrow> SetType env this pszProtocol s; Some (S_OK, s) }
     else do {
     arrived \<leftarrow> is_name env pszProtocol DEVICE_ARRIVED;
     if arrived then do {
       c \<leftarrow> files s this;
       let (ok, c) = SetRoleArrivedSubcription c;
       Some (if ok then S_OK else HRESULT_FROM_WIN32 ERROR_FILE_NOT_FOUND, upd_file this (\<lambda>_. c) s) }
     else do {
     departed \<leftarrow> is_name env pszProtocol DEVICE_DEPARTED;
     if departed then do {
       c \<leftarrow> files s this;
       let (ok, c) = SetRoleDepartedSubcription c;
       Some (if ok then S_OK else HRESULT_FROM_WIN32 ERROR_FILE_NOT_FOUND, upd_file this (\<lambda>_. c) s) }
     else do {
     pairing \<leftarrow> begins_with env pszProtocol PAIRING_PROTOCOL PAIRING_PROTOCOL_CHARS;
     if pairing then do { (_, s) \<leftarrow> SetType env this pszProtocol s; Some (S_OK, s) }
     else do {
     ndef \<leftarrow> begins_with env pszProtocol NDEF_PROTOCOL NDEF_PROTOCOL_CHARS;
     if ndef then do {
       empty \<leftarrow> begins_with env (drop NDEF_PROTOCOL_CHARS pszProtocol) NDEF_EMPTY_TYPE NDEF_EMPTY_TYPE_CHARS;
       if \<not> empty then do { (_, s) \<leftarrow> SetType env this pszProtocol s; Some (S_OK, s) }
       else Some (HRESULT_FROM_NT STATUS_INVALID_PARAMETER, s) }
     else Some (HRESULT_FROM_NT STATUS_OBJECT_PATH_NOT_FOUND, s) } } } } } } }"

text \<open>The namespace part of the name, after an optional leading backslash.\<close>

definition select_role :: "nfp_env \<Rightarrow> fid \<Rightarrow> wchar list \<Rightarrow> nfp \<Rightarrow> (hresult, nfp) outcome" where
  "select_role env this pszFileNameBuffer s = do {
     pszFileName \<leftarrow> (case pszFileNameBuffer of
                       [] \<Rightarrow> None
                     | ch # rest \<Rightarrow> Some (if ch = 0x5C then rest else pszFileNameBuffer));
     pubs \<leftarrow> begins_with env pszFileName PUBS_NAMESPACE PUBS_NAMESPACE_CHARS;
     if pubs then
       select_protocol env this (drop PUBS_NAMESPACE_CHARS pszFileName) (upd_file this SetRolePublication s)
     else do {
     subs \<leftarrow> begins_with env pszFileName SUBS_NAMESPACE SUBS_NAMESPACE_CHARS;
     if subs then
       select_protocol env this (drop SUBS_NAMESPACE_CHARS pszFileName) (upd_file this SetRoleSubcription s)
     else Some (HRESULT_FROM_WIN32 ERROR_FILE_NOT_FOUND, s) } }"

text \<open>
  The name of the file object: asked for twice, once for its size and once into a zeroed buffer
  that is 20 units larger.  A name of size 0 or above \<open>MaxCchType\<close> is not looked at.
\<close>

definition parse_file_name :: "nfp_env \<Rightarrow> fid \<Rightarrow> wdffile \<Rightarrow> nfp \<Rightarrow> (hresult, nfp) outcome" where
  "parse_file_name env this pWdfFile s =
     (let (hr, cchFileName) = RetrieveFileName_size env pWdfFile in
      if SUCCEEDED hr \<and> cchFileName > 0 \<and> cchFileName \<le> MaxCchType then
        (let cchFileNameBuffer = cchFileName + 20 in
         case operator_new env s of
           (None, s) \<Rightarrow> Some (E_OUTOFMEMORY, s)
         | (Some _, s) \<Rightarrow>
             let (hr, name) = RetrieveFileName env pWdfFile cchFileName in
             if cchFileNameBuffer < length name then None
             else if SUCCEEDED hr
             then select_role env this (name @ replicate (cchFileNameBuffer - length name) 0) s
             else Some (hr, s))
      else Some (hr, s))"

text \<open>Which list a new context is put on, and which list a closed one is searched in.\<close>

definition insert_subscription :: "fid \<Rightarrow> nfp \<Rightarrow> (unit, nfp) outcome" where
  "insert_subscription p s = do {
     (_, s) \<leftarrow> EnterCriticalSection SubsLock s;
     c \<leftarrow> files s p;
     let s = (if IsNormalSubscription c then s\<lparr>m_SubsHead := p # m_SubsHead s\<rparr>
              else if IsArrivedSubscription c then s\<lparr>m_ArrivalSubsHead := p # m_ArrivalSubsHead s\<rparr>
              else if IsDepartedSubscription c then s\<lparr>m_DepartureSubsHead := p # m_DepartureSubsHead s\<rparr>
              else s);
     LeaveCriticalSection SubsLock s }"

definition OnCreateFile ::
    "nfp_env \<Rightarrow> waiter \<Rightarrow> req \<Rightarrow> wdffile \<Rightarrow> nfp \<Rightarrow> (unit, nfp) outcome" where
  "OnCreateFile env wait pWdfRequest pWdfFile s =
     (case operator_new env s of
        (None, s) \<Rightarrow>
          Some ((), log_call (Complete pWdfRequest (HRESULT_FROM_WIN32 ERROR_NOT_ENOUGH_MEMORY)) s)
      | (Some p, s) \<Rightarrow> do {
          let s = s\<lparr>files := (files s)(p \<mapsto> new_CFileContext)\<rparr>;
          (hr, s) \<leftarrow> parse_file_name env p pWdfFile s;
          let (hr, s) = (if SUCCEEDED hr
                         then (AssignContext_hr env (calls s) pWdfFile, log_call (AssignContext pWdfFile p) s)
                         else (hr, s));
          (_, s) \<leftarrow> (if SUCCEEDED hr then insert_subscription p s else Some ((), s));
          (_, s) \<leftarrow> (if FAILED hr then CFileContext_delete env wait p s else Some ((), s));
          Some ((), log_call (Complete pWdfRequest hr) s) })"

section \<open>Close and cancel\<close>

definition unlink_file :: "fid \<Rightarrow> nfp \<Rightarrow> (unit, nfp) outcome" where
  "unlink_file p s = do {
     c \<leftarrow> files s p;
     if IsNormalSubscription c then do {
       (_, s) \<leftarrow> EnterCriticalSection SubsLock s;
       LeaveCriticalSection SubsLock (s\<lparr>m_SubsHead := remove1 p (m_SubsHead s)\<rparr>) }
     else if IsArrivedSubscription c then do {
       (_, s) \<leftarrow> EnterCriticalSection SubsLock s;
       LeaveCriticalSection SubsLock (s\<lparr>m_ArrivalSubsHead := remove1 p (m_ArrivalSubsHead s)\<rparr>) }
     else if IsDepartedSubscription c then do {
       (_, s) \<leftarrow> EnterCriticalSection SubsLock s;
       LeaveCriticalSection SubsLock (s\<lparr>m_DepartureSubsHead := remove1 p (m_DepartureSubsHead s)\<rparr>) }
     else if IsPublication c then do {
       (_, s) \<leftarrow> EnterCriticalSection PubsLock s;
       LeaveCriticalSection PubsLock (s\<lparr>m_PubsHead := remove1 p (m_PubsHead s)\<rparr>) }
     else Some ((), s) }"

definition OnCloseFile :: "nfp_env \<Rightarrow> waiter \<Rightarrow> wdffile \<Rightarrow> nfp \<Rightarrow> (unit, nfp) outcome" where
  "OnCloseFile env wait pWdfFile s =
     (case RetrieveContext env (calls s) pWdfFile of
        (hr, Some p) \<Rightarrow>
          if SUCCEEDED hr then do {
            (_, s) \<leftarrow> unlink_file p s;
            CFileContext_delete env wait p s }
          else Some ((), s)
      | (hr, None) \<Rightarrow> Some ((), s))"

definition OnCancel :: "nfp_env \<Rightarrow> canceller" where
  "OnCancel env pWdfRequest s =
     (case GetFileObject env pWdfRequest of
        None \<Rightarrow> Some ((), s)
      | Some f \<Rightarrow>
          let (hr, pFileContext) = RetrieveContext env (calls s) f in
          if SUCCEEDED hr then do { p \<leftarrow> pFileContext; FileContext_OnCancel env p s }
          else Some ((), s))"

section \<open>IConnectionCallback\<close>

definition AddArrivalEvent :: "nfp_env \<Rightarrow> nfp \<Rightarrow> (unit, nfp) outcome" where
  "AddArrivalEvent env s = do {
     (_, s) \<leftarrow> EnterCriticalSection SubsLock s;
     (_, s) \<leftarrow> for_each (HandleArrivalEvent env) (m_ArrivalSubsHead s) s;
     LeaveCriticalSection SubsLock s }"

definition AddRemovalEvent :: "nfp_env \<Rightarrow> nfp \<Rightarrow> (unit, nfp) outcome" where
  "AddRemovalEvent env s = do {
     (_, s) \<leftarrow> EnterCriticalSection SubsLock s;
     (_, s) \<leftarrow> for_each (HandleRemovalEvent env) (m_DepartureSubsHead s) s;
     LeaveCriticalSection SubsLock s }"

definition HandleReceivedMessage :: "nfp_env \<Rightarrow> MESSAGE \<Rightarrow> nfp \<Rightarrow> (unit, nfp) outcome" where
  "HandleReceivedMessage env m s =
     (if msg_cbPayload m > 0 \<and> unat (msg_cbPayload m) \<le> MaxCbPayload then do {
        (_, s) \<leftarrow> EnterCriticalSection SubsLock s;
        (_, s) \<leftarrow> for_each (\<lambda>pSub. HandleReceivedPublication env pSub (m_szType m) (msg_cbPayload m) (m_Payload m))
                   (m_SubsHead s) s;
        LeaveCriticalSection SubsLock s }
      else Some ((), s))"

definition ConnectionTerminated :: "nfp_env \<Rightarrow> cid \<Rightarrow> nfp \<Rightarrow> (bool, nfp) outcome" where
  "ConnectionTerminated env pConnection s = do {
     c \<leftarrow> conns s pConnection;
     (_, s) \<leftarrow> EnterCriticalSection ConnectionLock s;
     let s = s\<lparr>m_ConnectionHead := remove1 pConnection (m_ConnectionHead s)\<rparr>;
     let fNoMoreConnections = (m_ConnectionHead s = []);
     (_, s) \<leftarrow> LeaveCriticalSection ConnectionLock s;
     let fConnectionDeleted = conn_fInbound c;
     (_, s) \<leftarrow> (if conn_fInbound c then CConnection_delete self_wait pConnection s else Some ((), s));
     (_, s) \<leftarrow> (if fNoMoreConnections then AddRemovalEvent env s else Some ((), s));
     Some (fConnectionDeleted, s) }"

text \<open>Send one publication on one connection; a transmission counts for the publication.\<close>

definition transmit_publication ::
    "nfp_env \<Rightarrow> waiter \<Rightarrow> cid \<Rightarrow> fid \<Rightarrow> nfp \<Rightarrow> (unit, nfp) outcome" where
  "transmit_publication env wait pConnection pPub s = do {
     c \<leftarrow> files s pPub;
     if m_fEnabled c then do {
       m \<leftarrow> MESSAGE_Initialize (m_pszType c) (m_cbPayload (m_MyPayload c)) (m_pbPayload (m_MyPayload c));
       (hr, s) \<leftarrow> TransmitMessage env wait pConnection m s;
       if SUCCEEDED hr then HandleMessageTransmitted env pPub s else Some ((), s) }
     else Some ((), s) }"

definition ConnectionEstablished :: "nfp_env \<Rightarrow> waiter \<Rightarrow> cid \<Rightarrow> nfp \<Rightarrow> (unit, nfp) outcome" where
  "ConnectionEstablished env wait pConnection s = do {
     _ \<leftarrow> conns s pConnection;
     (_, s) \<leftarrow> EnterCriticalSection ConnectionLock s;
     let fFirstConnection = (m_ConnectionHead s = []);
     let s = s\<lparr>m_ConnectionHead := pConnection # m_ConnectionHead s\<rparr>;
     (_, s) \<leftarrow> LeaveCriticalSection ConnectionLock s;
     (_, s) \<leftarrow> (if fFirstConnection then AddArrivalEvent env s else Some ((), s));
     case operator_new env s of
       (None, s) \<Rightarrow> Some ((), s)
     | (Some _, s) \<Rightarrow> do {
         (_, s) \<leftarrow> EnterCriticalSection PubsLock s;
         (_, s) \<leftarrow> for_each (transmit_publication env wait pConnection) (m_PubsHead s) s;
         LeaveCriticalSection PubsLock s } }"

text \<open>
  The receive thread only receives and terminates, so the callbacks it uses need no waiter; with
  them the wait for a connection's thread is defined, and with the wait the remaining callback.
\<close>

definition receive_callbacks :: "nfp_env \<Rightarrow> conn_callback" where
  "receive_callbacks env =
     \<lparr>cb_HandleReceivedMessage = HandleReceivedMessage env,
      cb_ConnectionEstablished = (\<lambda>_ _. None),
      cb_ConnectionTerminated = ConnectionTerminated env\<rparr>"

definition wait_for_receive :: "nfp_env \<Rightarrow> waiter" where
  "wait_for_receive env = WaitForThreadpoolWorkCallbacks env (receive_callbacks env)"

definition queue_callbacks :: "nfp_env \<Rightarrow> conn_callback" where
  "queue_callbacks env =
     \<lparr>cb_HandleReceivedMessage = HandleReceivedMessage env,
      cb_ConnectionEstablished = ConnectionEstablished env (wait_for_receive env),
      cb_ConnectionTerminated = ConnectionTerminated env\<rparr>"

text \<open>\<open>IValidateAccept\<close>: a connection object for an accepted socket; its result is not looked at.\<close>

definition CMyQueue_ValidateAccept :: "nfp_env \<Rightarrow> SOCKET \<Rightarrow> byte list \<Rightarrow> nfp \<Rightarrow> (unit, nfp) outcome" where
  "CMyQueue_ValidateAccept env sock MagicPacket s = do {
     ((hr, pConnection), s) \<leftarrow> CConnection_Create env s;
     if SUCCEEDED hr then do {
       p \<leftarrow> pConnection;
       (_, s) \<leftarrow> SetInboundConnection p s;
       ValidateAccept env (queue_callbacks env) p sock MagicPacket s }
     else Some ((), if sock \<noteq> INVALID_SOCKET then closesocket sock s else s) }"

section \<open>IQueueCallbackDeviceIoControl\<close>

datatype control_code = IOCTL_NFP_GET_MAX_MESSAGE_BYTES | IOCTL_NFP_GET_KILO_BYTES_PER_SECOND
  | IOCTL_NFP_DISABLE | IOCTL_NFP_ENABLE | IOCTL_NFP_SET_PAYLOAD | IOCTL_BEGIN_PROXIMITY
  | IOCTL_NFP_GET_NEXT_SUBSCRIBED_MESSAGE | IOCTL_NFP_GET_NEXT_TRANSMITTED_MESSAGE
  | IOCTL_other dword

text \<open>
  The two queries: a double word into the output buffer.  The result says whether the request is
  still to be completed, which it is, with the earlier status, when there is no output memory.
\<close>

definition query_dword ::
    "nfp_env \<Rightarrow> req \<Rightarrow> dword \<Rightarrow> hresult \<Rightarrow> nfp \<Rightarrow> (hresult \<times> bool) \<times> nfp" where
  "query_dword env r v hr s =
     (case GetOutputMemory env r of
        None \<Rightarrow> ((hr, True), s)
      | Some _ \<Rightarrow>
          let hr = CopyFromBuffer_hr env (calls s) r 0 (dword_bytes v);
              s = log_call (CopyFromBuffer r 0 (dword_bytes v)) s;
              cbOutputBuffer = (if SUCCEEDED hr then 4 else 0)
          in ((hr, False), log_call (CompleteWithInformation r hr cbOutputBuffer) s))"

text \<open>\<open>IOCTL_NFP_SET_PAYLOAD\<close>: store the payload, send it on every connection, list the publication.\<close>

definition transmit_to :: "nfp_env \<Rightarrow> waiter \<Rightarrow> fid \<Rightarrow> MESSAGE \<Rightarrow> cid \<Rightarrow> nfp \<Rightarrow> (unit, nfp) outcome" where
  "transmit_to env wait p m pConnection s = do {
     (hr, s) \<leftarrow> TransmitMessage env wait pConnection m s;
     if SUCCEEDED hr then HandleMessageTransmitted env p s else Some ((), s) }"

definition send_and_list :: "nfp_env \<Rightarrow> waiter \<Rightarrow> fid \<Rightarrow> nfp \<Rightarrow> (hresult, nfp) outcome" where
  "send_and_list env wait p s =
     (case operator_new env s of
        (None, s) \<Rightarrow> Some (E_OUTOFMEMORY, s)
      | (Some _, s) \<Rightarrow> do {
          c \<leftarrow> files s p;
          m \<leftarrow> MESSAGE_Initialize (m_pszType c) (m_cbPayload (m_MyPayload c)) (m_pbPayload (m_MyPayload c));
          (_, s) \<leftarrow> EnterCriticalSection ConnectionLock s;
          (_, s) \<leftarrow> for_each (transmit_to env wait p m) (m_ConnectionHead s) s;
          (_, s) \<leftarrow> LeaveCriticalSection ConnectionLock s;
          (_, s) \<leftarrow> EnterCriticalSection PubsLock s;
          (_, s) \<leftarrow> LeaveCriticalSection PubsLock (s\<lparr>m_PubsHead := p # m_PubsHead s\<rparr>);
          Some (S_OK, s) })"

definition ioctl_set_payload ::
    "nfp_env \<Rightarrow> waiter \<Rightarrow> fid \<Rightarrow> req \<Rightarrow> nfp \<Rightarrow> (hresult, nfp) outcome" where
  "ioctl_set_payload env wait p r s = do {
     (hr, s) \<leftarrow> SetPayload env p r s;
     if FAILED hr then Some (hr, s) else send_and_list env wait p s }"

definition OnDeviceIoControl ::
    "nfp_env \<Rightarrow> req \<Rightarrow> control_code \<Rightarrow> nfp \<Rightarrow> (unit, nfp) outcome" where
  "OnDeviceIoControl env pWdfRequest ControlCode s = do {
     pFxFile \<leftarrow> GetFileObject env pWdfRequest;
     let (hr, pFileContext) = RetrieveContext env (calls s) pFxFile;
     ((hr, fCompleteRequest), s) \<leftarrow>
       (if FAILED hr then Some ((hr, True), s)
        else (case ControlCode of
          IOCTL_NFP_GET_MAX_MESSAGE_BYTES \<Rightarrow> Some (query_dword env pWdfRequest (of_nat MaxCbPayload) hr s)
        | IOCTL_NFP_GET_KILO_BYTES_PER_SECOND \<Rightarrow> Some (query_dword env pWdfRequest KilobytesPerSecond hr s)
        | IOCTL_NFP_DISABLE \<Rightarrow> do { p \<leftarrow> pFileContext; (hr, s) \<leftarrow> Disable env p s; Some ((hr, True), s) }
        | IOCTL_NFP_ENABLE \<Rightarrow> do { p \<leftarrow> pFileContext; (hr, s) \<leftarrow> Enable p s; Some ((hr, True), s) }
        | IOCTL_NFP_SET_PAYLOAD \<Rightarrow> do {
            p \<leftarrow> pFileContext;
            (hr, s) \<leftarrow> ioctl_set_payload env (wait_for_receive env) p pWdfRequest s;
            Some ((hr, True), s) }
        | IOCTL_BEGIN_PROXIMITY \<Rightarrow> do {
            p \<leftarrow> pFileContext;
            (hr, s) \<leftarrow> BeginProximity env (queue_callbacks env) p pWdfRequest s;
            Some ((hr, True), s) }
        | IOCTL_NFP_GET_NEXT_SUBSCRIBED_MESSAGE \<Rightarrow> do {
            p \<leftarrow> pFileContext;
            (hr, s) \<leftarrow> GetNextSubscribedMessage env (OnCancel env) p pWdfRequest s;
            Some ((hr, FAILED hr), s) }
        | IOCTL_NFP_GET_NEXT_TRANSMITTED_MESSAGE \<Rightarrow> do {
            p \<leftarrow> pFileContext;
            (hr, s) \<leftarrow> GetNextTransmittedMessage env (OnCancel env) p pWdfRequest s;
            Some ((hr, FAILED hr), s) }
        | IOCTL_other _ \<Rightarrow> Some ((HRESULT_FROM_NT STATUS_INVALID_DEVICE_STATE, True), s)));
     Some ((), if fCompleteRequest then log_call (Complete pWdfRequest hr) s else s) }"

section \<open>Destruction\<close>

text \<open>
  The loop of \<open>~CMyQueue\<close>: unlink the first connection and delete it, until the list is empty.
  The receive thread of a connection may unlink others, so the list is read again every time.
\<close>

partial_function (option) delete_connections :: "nfp_env \<Rightarrow> waiter \<Rightarrow> nfp \<Rightarrow> (unit, nfp) outcome" where
  "delete_connections env wait s =
     (case m_ConnectionHead s of
        [] \<Rightarrow> Some ((), s)
      | p # ps \<Rightarrow> do {
          (_, s) \<leftarrow> CConnection_delete wait p (s\<lparr>m_ConnectionHead := ps\<rparr>);
          delete_connections env wait s })"

declare delete_connections.simps [code]

end
