(* ===== verification/NfpExample.thy ===== *)
theory NfpExample
  imports NfpQueue
begin

text \<open>
  A concrete environment for the witnesses: every call succeeds, nothing is cancelled, file
  object 0 is the handle \<open>\Subs\Windows.a\<close> with context 0, a request has no input buffer and an
  output buffer of 100 bytes, the peer closes the connection at once.
\<close>

definition example_name :: "wchar list" where
  "example_name = 0x5C # wlit ''Subs'' @ [0x5C] @ wlit ''Windows.a'' @ [0]"

definition example_env :: nfp_env where
  "example_env =
     \<lparr>GetInputMemory = (\<lambda>_. Some \<lparr>mem_size = 0, mem_buffer = None\<rparr>),
      GetOutputMemory = (\<lambda>_. Some \<lparr>mem_size = 100, mem_buffer = Some (replicate 100 0)\<rparr>),
      CopyFromBuffer_hr = (\<lambda>_ _ _ _. S_OK),
      UnmarkCancelable_hr = (\<lambda>_ _. S_OK),
      MarkCancelable_cancels = (\<lambda>_ _. False),
      new_succeeds = (\<lambda>_. True),
      GetFileObject = (\<lambda>_. Some 0),
      RetrieveContext = (\<lambda>_ _. (S_OK, Some 0)),
      AssignContext_hr = (\<lambda>_ _. S_OK),
      RetrieveFileName_size = (\<lambda>_. (S_OK, length example_name)),
      RetrieveFileName = (\<lambda>_ _. (S_OK, example_name)),
      upcase = (\<lambda>c. if 97 \<le> c \<and> c \<le> 122 then c - 32 else c),
      wide_to_multibyte = (\<lambda>x. Some (map ucast x)),
      uninitialised_tid = 0,
      pool_thread = (\<lambda>p. 1000 + p),
      ws_socket = (\<lambda>_. Inr 7),
      ws_setsockopt = (\<lambda>_ _. None),
      ws_connect = (\<lambda>_ _ _. None),
      ws_send = (\<lambda>_ _. None),
      ws_ReadFile = (\<lambda>_ _. None),
      ws_GetOverlappedResult = (\<lambda>_ _. None),
      ws_read_data = (\<lambda>_ _. MAGIC_PACKET),
      ws_recv = (\<lambda>_ _. None),
      create_threadpool_work = (\<lambda>_. None)\<rparr>"

end
