(* ===== verification/NfpInvariants.thy ===== *)
theory NfpInvariants
  imports NfpExample
begin

text \<open>
  Invariants of the driver, stated as an interface.  A predicate on driver states that survives
  the few primitive changes an operation makes survives every operation; the locales below name
  those changes, and the operations are walked through once, inside them.
\<close>

definition is_completion :: "fxcall \<Rightarrow> bool" where
  "is_completion x \<longleftrightarrow> (case x of Complete _ _ \<Rightarrow> True | CompleteWithInformation _ _ _ \<Rightarrow> True | _ \<Rightarrow> False)"

lemma is_completion_simps [simp]:
  "is_completion (Complete r hr)" "is_completion (CompleteWithInformation r hr n)"
  "\<not> is_completion OperatorNew" "\<not> is_completion (MarkCancelable r)" "\<not> is_completion (UnmarkCancelable r)"
  "\<not> is_completion (CopyFromBuffer r n bs)" "\<not> is_completion (AssignContext f p)"
  "\<not> is_completion OpenSocket" "\<not> is_completion (SetSockOpt sk)" "\<not> is_completion (ConnectByName sk nm)"
  "\<not> is_completion (SendMagic sk)" "\<not> is_completion (ReadSocket sk)" "\<not> is_completion (WaitOverlapped sk)"
  "\<not> is_completion (SendMessage sk m)" "\<not> is_completion (RecvMessage sk)" "\<not> is_completion (ShutdownSend sk)"
  "\<not> is_completion (CloseSocket sk)" "\<not> is_completion (CreateThreadpoolWork q)"
  "\<not> is_completion (SubmitThreadpoolWork q)" "\<not> is_completion (CloseThreadpoolWork q)"
  by (simp_all add: is_completion_def)

lemma operator_new_files: "operator_new env s = (x, s') \<Longrightarrow> files s' = files s"
  by (auto simp: operator_new_def Let_def split: if_splits)

text \<open>
  What every context keeps to: its queue counter is within the limit, its type is terminated, and
  the buffers of its payloads are as long as their sizes say.
\<close>

definition typed :: "wchar list option \<Rightarrow> bool" where
  "typed t \<longleftrightarrow> (case t of None \<Rightarrow> True | Some b \<Rightarrow> wstr b \<noteq> None)"

definition payload_ok :: "payload \<Rightarrow> bool" where
  "payload_ok y \<longleftrightarrow> (case m_pbPayload y of None \<Rightarrow> True | Some b \<Rightarrow> length b = unat (m_cbPayload y))"

definition stored_ok :: "payload \<Rightarrow> bool" where
  "stored_ok y \<longleftrightarrow> (case m_pbPayload y of None \<Rightarrow> True
     | Some b \<Rightarrow> length b = unat (m_cbPayload y) \<and> length b \<le> MaxCbPayload)"

definition context_ok :: "file_context \<Rightarrow> bool" where
  "context_ok c \<longleftrightarrow> m_dwQueueSize c \<le> MAX_MESSAGE_QUEUE_SIZE \<and> typed (m_pszType c)
     \<and> (\<forall>y \<in> set (m_SubscribedMessageQueue c). payload_ok y) \<and> stored_ok (m_MyPayload c)"

lemma new_CFileContext_ok: "context_ok new_CFileContext"
  by (simp add: context_ok_def new_CFileContext_def typed_def new_CMyPayload_def stored_ok_def)

lemma context_ok_updates [simp]:
  "context_ok (m_Role_update f1 c) = context_ok c" "context_ok (m_pConnection_update f2 c) = context_ok c"
  "context_ok (m_pWdfRequest_update f3 c) = context_ok c"
  by (simp_all add: context_ok_def)

lemma context_ok_emptied: "context_ok c \<Longrightarrow> context_ok (c\<lparr>m_pszType := None\<rparr>)"
  "context_ok c \<Longrightarrow> context_ok (c\<lparr>m_SubscribedMessageQueue := []\<rparr>)"
  by (simp_all add: context_ok_def typed_def)

lemma context_ok_typed: "wstr t = Some x \<Longrightarrow> context_ok c \<Longrightarrow> context_ok (c\<lparr>m_pszType := Some (x @ [0])\<rparr>)"
  using wstr_terminated [of x "[]"] wstr_Some [of t x] by (simp add: context_ok_def typed_def)

lemma set_tlD: "x \<in> set (tl xs) \<Longrightarrow> x \<in> set xs"
  by (cases xs) auto

text \<open>Changes of a context that touch neither its role, type, payload, connection nor request.\<close>

definition bookkeeping :: "file_context \<Rightarrow> file_context \<Rightarrow> bool" where
  "bookkeeping c c' \<longleftrightarrow> m_Role c' = m_Role c \<and> m_pszType c' = m_pszType c
     \<and> m_MyPayload c' = m_MyPayload c \<and> m_pConnection c' = m_pConnection c
     \<and> m_pWdfRequest c' = m_pWdfRequest c \<and> (context_ok c \<longrightarrow> context_ok c')"

lemma bookkeeping_updates [simp, intro]:
  "bookkeeping c (m_fEnabled_update g1 c)" "bookkeeping c (m_cCompleteReady_update g3 c)"
  "bookkeeping c (m_SubscribedMessageQueue_update (\<lambda>_. []) c)"
  "bookkeeping c (m_SubscribedMessageQueue_update tl c)"
  by (auto simp: bookkeeping_def context_ok_def dest: set_tlD)

lemma bookkeeping_append: "payload_ok y \<Longrightarrow> bookkeeping c (m_SubscribedMessageQueue_update (\<lambda>q. q @ [y]) c)"
  by (auto simp: bookkeeping_def context_ok_def)

lemma bookkeeping_dec: "0 < m_dwQueueSize c \<Longrightarrow> bookkeeping c (m_dwQueueSize_update (\<lambda>n. n - 1) c)"
  by (auto simp: bookkeeping_def context_ok_def) unat_arith

lemma bookkeeping_inc: "m_dwQueueSize c < MAX_MESSAGE_QUEUE_SIZE \<Longrightarrow> bookkeeping c (m_dwQueueSize_update (\<lambda>n. n + 1) c)"
  by (auto simp: bookkeeping_def context_ok_def MAX_MESSAGE_QUEUE_SIZE_def) unat_arith

lemma upd_file_dead: "files s p = None \<Longrightarrow> upd_file p f s = s"
  by (cases s) (auto simp: upd_file_def fun_upd_idem_iff)

text \<open>A payload that was copied is as long as its size.\<close>

lemma CopyMemory_length: "CopyMemory (replicate n 0) n src = Some d \<Longrightarrow> length d = n"
  by (auto simp: CopyMemory_def split: Option.bind_splits if_splits)

lemma CMyPayload_Initialize_files: "wlp (CMyPayload_Initialize env cb pb q s) (\<lambda>x s'. files s' = files s
    \<and> payload_ok (snd x) \<and> (unat cb \<le> MaxCbPayload \<longrightarrow> stored_ok (snd x)))"
  by (auto simp: CMyPayload_Initialize_def payload_ok_def stored_ok_def
      dest: operator_new_files CopyMemory_length split: prod.splits option.splits)

locale file_invariant =
  fixes I :: "nfp \<Rightarrow> bool"
  assumes I_log: "I s \<Longrightarrow> \<not> is_completion x \<Longrightarrow> I (log_call x s)"
    and I_locks: "I s \<Longrightarrow> lock_step s l \<Longrightarrow> I (s\<lparr>locks := l\<rparr>)"
    and I_heap: "I s \<Longrightarrow> heap_next s \<le> n \<Longrightarrow> I (s\<lparr>heap_next := n\<rparr>)"
    and I_file_at: "I s \<Longrightarrow> files s p = Some c \<Longrightarrow> bookkeeping c (f c) \<Longrightarrow> I (upd_file p f s)"
    and I_complete: "I s \<Longrightarrow> files s p = Some c \<Longrightarrow> m_pWdfRequest c = Some r \<Longrightarrow>
      I (upd_file p (m_pWdfRequest_update (\<lambda>_. None)) (log_call (CompleteWithInformation r hr n) s))"
begin

lemma I_file: "I s \<Longrightarrow> (\<And>c. bookkeeping c (f c)) \<Longrightarrow> I (upd_file p f s)"
  by (cases "files s p") (auto simp: upd_file_dead intro: I_file_at)

lemma I_dec: "I s \<Longrightarrow> files s p = Some c \<Longrightarrow> 0 < m_dwQueueSize c \<Longrightarrow>
    I (upd_file p (m_dwQueueSize_update (\<lambda>n. n - 1)) s)"
  by (rule I_file_at) (assumption | rule bookkeeping_dec)+

lemma I_Enter: "I s \<Longrightarrow> wlp (EnterCriticalSection l s) (\<lambda>_. I)"
  by (rule wlp_Enter) (rule I_locks)

lemma I_Leave: "I s \<Longrightarrow> wlp (LeaveCriticalSection l s) (\<lambda>_. I)"
  by (rule wlp_Leave) (rule I_locks)

lemma I_new: "operator_new env s = (x, s') \<Longrightarrow> I s \<Longrightarrow> I s'"
  by (cases env s rule: operator_new_cases) (auto intro!: I_log I_heap)

lemma I_complete_unmarked:
  assumes "I s" and "files s p = Some c" and "m_pWdfRequest c = Some r"
  shows "I (upd_file p (m_pWdfRequest_update (\<lambda>_. None))
              (log_call (CompleteWithInformation r hr n) (log_call (UnmarkCancelable r) s)))"
  using I_complete [of "log_call (UnmarkCancelable r) s"] I_log assms by simp

lemma I_CompleteRequest: "I s \<Longrightarrow> wlp (CompleteRequest env p hr n b s) (\<lambda>_. I)"
  by (auto simp: CompleteRequest_def Let_def intro: I_log I_complete I_complete_unmarked split: option.splits)

lemma I_FileContext_OnCancel: "I s \<Longrightarrow> wlp (FileContext_OnCancel env p s) (\<lambda>_. I)"
  by (auto simp: FileContext_OnCancel_def intro!: wlp_mono [OF I_Enter] wlp_mono [OF I_CompleteRequest] I_Leave)

lemma I_Disable: "I s \<Longrightarrow> wlp (Disable env p s) (\<lambda>_. I)"
  by (auto simp: Disable_def Let_def
      intro!: wlp_mono [OF I_Enter] wlp_mono [OF I_CompleteRequest] wlp_mono [OF I_Leave] I_file)

lemma I_Enable: "I s \<Longrightarrow> wlp (Enable p s) (\<lambda>_. I)"
  by (auto simp: Enable_def Let_def intro!: wlp_mono [OF I_Enter] wlp_mono [OF I_Leave] I_file)

lemma I_CompleteOne:
  "I s \<Longrightarrow> wlp (CompleteOneGetNextSubscribedMessage env p cb pb s) (\<lambda>_. I)"
  by (auto simp: CompleteOneGetNextSubscribedMessage_def Let_def split: option.splits
      intro!: wlp_mono [OF I_CompleteRequest] I_dec I_log)

lemma I_CompleteOneArrivalEvent: "I s \<Longrightarrow> wlp (CompleteOneArrivalEvent env p s) (\<lambda>_. I)"
  by (auto simp: CompleteOneArrivalEvent_def Let_def
      intro!: wlp_mono [OF I_Enter] wlp_mono [OF I_CompleteOne] I_Leave I_file)

lemma I_CompleteOneRemovalEvent: "I s \<Longrightarrow> wlp (CompleteOneRemovalEvent env p s) (\<lambda>_. I)"
  by (auto simp: CompleteOneRemovalEvent_def Let_def
      intro!: wlp_mono [OF I_Enter] wlp_mono [OF I_CompleteOne] I_Leave I_file)

lemma I_HandleArrivalEvent: "I s \<Longrightarrow> wlp (HandleArrivalEvent env p s) (\<lambda>_. I)"
  by (auto simp: HandleArrivalEvent_def
      intro!: wlp_mono [OF I_Enter] wlp_mono [OF I_CompleteOneArrivalEvent] I_Leave I_file)

lemma I_HandleRemovalEvent: "I s \<Longrightarrow> wlp (HandleRemovalEvent env p s) (\<lambda>_. I)"
  by (auto simp: HandleRemovalEvent_def
      intro!: wlp_mono [OF I_Enter] wlp_mono [OF I_CompleteOneRemovalEvent] I_Leave I_file)

lemma I_HandleMessageTransmitted: "I s \<Longrightarrow> wlp (HandleMessageTransmitted env p s) (\<lambda>_. I)"
  by (auto simp: HandleMessageTransmitted_def Let_def
      intro!: wlp_mono [OF I_Enter] wlp_mono [OF I_CompleteRequest] I_Leave I_file)

lemma I_CMyPayload_Initialize: "I s \<Longrightarrow> wlp (CMyPayload_Initialize env cb pb q s) (\<lambda>_. I)"
  by (cases "operator_new env s")
    (auto simp: CMyPayload_Initialize_def dest: I_new split: option.splits bind_splits intro!: wlpI)

lemma I_mime_payload: "I s \<Longrightarrow> wlp (mime_payload env t cb pb s) (\<lambda>_. I)"
  by (cases "operator_new env s")
    (auto simp: mime_payload_def Let_def dest: I_new split: option.splits bind_splits if_splits intro!: wlpI)

lemma I_match_publication: "I s \<Longrightarrow> wlp (match_publication env st t cb pb s) (\<lambda>_. I)"
  by (auto simp: match_publication_def intro!: wlpI dest: wlpD [OF I_mime_payload]
      split: option.splits bind_splits if_splits)

lemma I_enqueue_payload:
  assumes "I s" and "files s p = Some c" and "m_dwQueueSize c < MAX_MESSAGE_QUEUE_SIZE"
  shows "wlp (enqueue_payload env p cb pb s) (\<lambda>_. I)"
proof (cases "operator_new env s")
  case (Pair x s1)
  let ?q = "\<lambda>y. m_SubscribedMessageQueue_update (\<lambda>q. q @ [y])"
  have s1: "I s1" "files s1 p = Some c"
    using assms I_new [OF Pair] operator_new_files [OF Pair] by simp_all
  have "wlp (CMyPayload_Initialize env cb (Some pb) new_CMyPayload s1) (\<lambda>x s'. I s' \<and> files s' = files s1 \<and> payload_ok (snd x))"
    using wlp_conj [OF I_CMyPayload_Initialize CMyPayload_Initialize_files] s1 by (blast intro: wlp_mono)
  moreover have "I (upd_file p (m_dwQueueSize_update (\<lambda>n. n + 1)) (upd_file p (?q y) s'))"
    if "I s'" "files s' = files s1" "payload_ok y" for y s'
  proof (rule I_file_at)
    show "I (upd_file p (?q y) s')" using that by (simp add: I_file bookkeeping_append)
    show "files (upd_file p (?q y) s') p = Some (?q y c)" using that s1 by simp
    show "bookkeeping (?q y c) (m_dwQueueSize_update (\<lambda>n. n + 1) (?q y c))"
      using assms(3) by (simp add: bookkeeping_inc)
  qed
  ultimately show ?thesis
    using Pair s1 by (auto simp: enqueue_payload_def split: option.split elim!: wlp_mono)
qed

lemma I_deliver_or_queue: "I s \<Longrightarrow> wlp (deliver_or_queue env p cb pb s) (\<lambda>_. I)"
  by (auto simp: deliver_or_queue_def intro!: wlp_mono [OF I_CompleteOne] I_enqueue_payload)

lemma I_HandleReceivedPublication: "I s \<Longrightarrow> wlp (HandleReceivedPublication env p t cb pb s) (\<lambda>_. I)"
  by (auto simp: HandleReceivedPublication_def split: option.splits
      intro!: wlp_mono [OF I_Enter] wlp_mono [OF I_match_publication] wlp_mono [OF I_deliver_or_queue] I_Leave)

lemma I_for_each: "I s \<Longrightarrow> (\<And>x s. I s \<Longrightarrow> wlp (f x s) (\<lambda>_. I)) \<Longrightarrow> wlp (for_each f xs s) (\<lambda>_. I)"
  by (rule wlp_for_each)

lemma I_AddArrivalEvent: "I s \<Longrightarrow> wlp (AddArrivalEvent env s) (\<lambda>_. I)"
  by (auto simp: AddArrivalEvent_def
      intro!: wlp_mono [OF I_Enter] wlp_mono [OF I_for_each] I_HandleArrivalEvent I_Leave)

lemma I_AddRemovalEvent: "I s \<Longrightarrow> wlp (AddRemovalEvent env s) (\<lambda>_. I)"
  by (auto simp: AddRemovalEvent_def
      intro!: wlp_mono [OF I_Enter] wlp_mono [OF I_for_each] I_HandleRemovalEvent I_Leave)

lemma I_HandleReceivedMessage: "I s \<Longrightarrow> wlp (HandleReceivedMessage env m s) (\<lambda>_. I)"
  by (auto simp: HandleReceivedMessage_def
      intro!: wlp_mono [OF I_Enter] wlp_mono [OF I_for_each] I_HandleReceivedPublication I_Leave)

lemma I_OnCancel: "I s \<Longrightarrow> wlp (OnCancel env r s) (\<lambda>_. I)"
  by (cases "GetFileObject env r"; cases "RetrieveContext env (calls s) (the (GetFileObject env r))")
    (auto simp: OnCancel_def intro!: wlpI dest: wlpD [OF I_FileContext_OnCancel] split: bind_splits if_splits)

end

text \<open>
  The second interface adds what connections do: any change of the connection heap, of the list of
  connections and of the running thread.  A waiter is safe when it keeps the invariant.
\<close>

locale driver_invariant = file_invariant +
  assumes I_thread: "I s \<Longrightarrow> I (s\<lparr>cur_thread := t\<rparr>)"
    and I_conns: "I s \<Longrightarrow> I (s\<lparr>conns := cs\<rparr>)"
    and I_connection_list: "I s \<Longrightarrow> I (s\<lparr>m_ConnectionHead := ps\<rparr>)"
begin

lemma I_upd_conn: "I s \<Longrightarrow> I (upd_conn p f s)"
  by (simp add: upd_conn_def I_conns)

lemma I_closesocket: "I s \<Longrightarrow> I (closesocket sk s)"
  by (simp add: closesocket_def I_log)

lemma I_send_magic: "send_magic env sk s = (hr, s') \<Longrightarrow> I s \<Longrightarrow> I s'"
  by (auto simp: send_magic_def I_log)

lemma I_SetSocketIpv6Only: "SetSocketIpv6Only env sk s = (hr, s') \<Longrightarrow> I s \<Longrightarrow> I s'"
  by (auto simp: SetSocketIpv6Only_def I_log)

lemma I_SynchronousReadSocket: "SynchronousReadSocket env sk n s = (r, s') \<Longrightarrow> I s \<Longrightarrow> I s'"
  by (auto simp: SynchronousReadSocket_def Let_def I_log split: if_splits)

lemma I_self_wait: "wlp (self_wait p s) (\<lambda>_. I)"
  by (simp add: self_wait_def)

lemma I_CConnection_Create: "I s \<Longrightarrow> wlp (CConnection_Create env s) (\<lambda>_. I)"
  by (cases "operator_new env s")
    (auto simp: CConnection_Create_def dest: I_new split: option.splits intro!: I_conns)

lemma I_Terminate:
  assumes "I s" and wait: "\<And>p s. I s \<Longrightarrow> wlp (wait p s) (\<lambda>_. I)"
  shows "wlp (Terminate wait p s) (\<lambda>_. I)"
  using assms(1)
  by (auto simp: Terminate_def Let_def
      intro!: wlp_mono [OF wait] I_upd_conn I_closesocket I_log)

lemma I_CConnection_delete:
  assumes "I s" and wait: "\<And>p s. I s \<Longrightarrow> wlp (wait p s) (\<lambda>_. I)"
  shows "wlp (CConnection_delete wait p s) (\<lambda>_. I)"
  using assms(1)
  by (auto simp: CConnection_delete_def Let_def
      intro!: wlp_mono [OF I_Terminate] wlp_mono [OF wait] wait I_upd_conn I_log I_conns)

lemma I_ConnectionTerminated: "I s \<Longrightarrow> wlp (ConnectionTerminated env p s) (\<lambda>_. I)"
  by (auto simp: ConnectionTerminated_def Let_def
      intro!: wlp_mono [OF I_Enter] wlp_mono [OF I_Leave] wlp_mono [OF I_CConnection_delete]
        wlp_mono [OF I_AddRemovalEvent] I_self_wait I_connection_list)

lemma I_ReceiveLoop:
  assumes recv: "\<And>m s. I s \<Longrightarrow> wlp (cb_HandleReceivedMessage cb m s) (\<lambda>_. I)" and "I s"
  shows "wlp (ReceiveLoop env cb p s) (\<lambda>_. I)"
  by (rule ReceiveLoop_invariant) (use assms in \<open>auto intro!: recv I_Terminate I_self_wait I_log\<close>)

lemma I_receive_callbacks: "I s \<Longrightarrow> wlp (cb_HandleReceivedMessage (receive_callbacks env) m s) (\<lambda>_. I)"
  "I s \<Longrightarrow> wlp (cb_ConnectionTerminated (receive_callbacks env) p s) (\<lambda>_. I)"
  by (simp_all add: receive_callbacks_def I_HandleReceivedMessage I_ConnectionTerminated)

lemma I_ReceiveThreadProc: "I s \<Longrightarrow> wlp (ReceiveThreadProc env (receive_callbacks env) p s) (\<lambda>_. I)"
  by (cases "operator_new env s")
    (auto simp: ReceiveThreadProc_def dest!: I_new split: option.splits
      intro!: wlp_mono [OF I_Terminate] wlp_mono [OF I_ReceiveLoop] I_receive_callbacks I_self_wait)

lemma I_s_ReceiveThreadProc: "I s \<Longrightarrow> wlp (s_ReceiveThreadProc env (receive_callbacks env) p s) (\<lambda>_. I)"
  by (auto simp: s_ReceiveThreadProc_def Let_def
      intro!: wlp_mono [OF I_ReceiveThreadProc] I_upd_conn)

lemma I_wait_for_receive: "I s \<Longrightarrow> wlp (wait_for_receive env p s) (\<lambda>_. I)"
  by (auto simp: wait_for_receive_def WaitForThreadpoolWorkCallbacks_def Let_def
      intro!: wlp_mono [OF I_s_ReceiveThreadProc] I_thread)

lemma I_TransmitMessage:
  assumes "I s" and wait: "\<And>p s. I s \<Longrightarrow> wlp (wait p s) (\<lambda>_. I)"
  shows "wlp (TransmitMessage env wait p m s) (\<lambda>_. I)"
  using assms(1)
  by (auto simp: TransmitMessage_def Let_def split: option.splits
      intro!: wlp_mono [OF I_Terminate] wait I_log)

lemma I_transmit_publication:
  assumes "I s" and wait: "\<And>p s. I s \<Longrightarrow> wlp (wait p s) (\<lambda>_. I)"
  shows "wlp (transmit_publication env wait p q s) (\<lambda>_. I)"
  using assms(1)
  by (auto simp: transmit_publication_def
      intro!: wlp_mono [OF I_TransmitMessage] wait I_HandleMessageTransmitted)

lemma I_transmit_to:
  assumes "I s" and wait: "\<And>p s. I s \<Longrightarrow> wlp (wait p s) (\<lambda>_. I)"
  shows "wlp (transmit_to env wait q m p s) (\<lambda>_. I)"
  using assms(1)
  by (auto simp: transmit_to_def intro!: wlp_mono [OF I_TransmitMessage] wait I_HandleMessageTransmitted)

text \<open>The second half of \<open>IOCTL_NFP_SET_PAYLOAD\<close>, once the payload is stored.\<close>

lemma I_send_and_list:
  assumes "I s" and wait: "\<And>p s. I s \<Longrightarrow> wlp (wait p s) (\<lambda>_. I)"
    and list: "\<And>s l. I s \<Longrightarrow> Q (s\<lparr>m_PubsHead := p # m_PubsHead s, locks := l\<rparr>)"
    and stop: "\<And>s. I s \<Longrightarrow> Q s"
  shows "wlp (send_and_list env wait p s) (\<lambda>_. Q)"
  using assms(1)
  by (cases "operator_new env s")
    (auto simp: send_and_list_def dest!: I_new split: option.splits
      intro!: wlp_mono [OF I_Enter] wlp_mono [OF I_for_each] I_transmit_to wait stop I_locks
        wlp_Leave list)

lemma I_ConnectionEstablished:
  assumes "I s" and wait: "\<And>p s. I s \<Longrightarrow> wlp (wait p s) (\<lambda>_. I)"
  shows "wlp (ConnectionEstablished env wait p s) (\<lambda>_. I)"
proof -
  have pubs: "wlp (case operator_new env s of
       (None, s) \<Rightarrow> Some ((), s)
     | (Some _, s) \<Rightarrow> do {
         (_, s) \<leftarrow> EnterCriticalSection PubsLock s;
         (_, s) \<leftarrow> for_each (transmit_publication env wait p) (m_PubsHead s) s;
         LeaveCriticalSection PubsLock s }) (\<lambda>_. I)" if "I s" for s
    using that
    by (cases "operator_new env s")
      (auto dest!: I_new split: option.splits
        intro!: wlp_mono [OF I_Enter] wlp_mono [OF I_for_each] I_transmit_publication wait I_Leave)
  show ?thesis
    using assms(1)
    by (auto simp: ConnectionEstablished_def Let_def
        intro!: wlp_mono [OF I_Enter] wlp_mono [OF I_Leave] wlp_mono [OF I_AddArrivalEvent] pubs I_connection_list)
qed

lemma I_queue_established: "I s \<Longrightarrow> wlp (cb_ConnectionEstablished (queue_callbacks env) p s) (\<lambda>_. I)"
  by (simp add: queue_callbacks_def I_ConnectionEstablished I_wait_for_receive)

lemma I_FinalizeEstablish: "I s \<Longrightarrow> wlp (FinalizeEstablish env (queue_callbacks env) p sk s) (\<lambda>_. I)"
  by (auto simp: FinalizeEstablish_def Let_def split: option.splits
      intro!: wlp_mono [OF I_queue_established] I_upd_conn I_log)

lemma I_ValidateAccept: "I s \<Longrightarrow> wlp (ValidateAccept env (queue_callbacks env) p sk pkt s) (\<lambda>_. I)"
  by (auto simp: ValidateAccept_def Let_def split: prod.splits dest!: I_send_magic
      intro!: wlp_mono [OF I_FinalizeEstablish] I_closesocket)

lemma I_CMyQueue_ValidateAccept: "I s \<Longrightarrow> wlp (CMyQueue_ValidateAccept env sk pkt s) (\<lambda>_. I)"
  by (auto simp: CMyQueue_ValidateAccept_def SetInboundConnection_def
      intro!: wlp_mono [OF I_CConnection_Create] I_ValidateAccept I_upd_conn I_closesocket)

lemma I_if_ok: "I (snd r) \<Longrightarrow> (\<And>s. I s \<Longrightarrow> I (snd (f s))) \<Longrightarrow> I (snd (if_ok f r))"
  by (simp add: if_ok_def)

lemma I_client_connect: "I s \<Longrightarrow> I (snd (client_connect env p nm s))"
  by (auto simp: client_connect_def Let_def SetSocketIpv6Only_def intro!: I_if_ok I_log I_upd_conn)

lemma I_exchange: "if_ok (read_magic env sk) (send_magic env sk s) = (hr, s') \<Longrightarrow> I s \<Longrightarrow> I s'"
  by (auto simp: if_ok_def read_magic_def send_magic_def SynchronousReadSocket_def Let_def
      intro!: I_log split: if_splits)

lemma I_client_handshake: "I s \<Longrightarrow> wlp (client_handshake env (queue_callbacks env) p s) (\<lambda>_. I)"
  unfolding client_handshake_def
  by (auto simp: Let_def split: prod.split dest!: I_exchange intro!: I_FinalizeEstablish)

lemma I_InitializeAsClient: "I s \<Longrightarrow> wlp (InitializeAsClient env (queue_callbacks env) p nm s) (\<lambda>_. I)"
proof -
  assume "I s"
  then have "I (snd (client_connect env p (nm[MAX_PATH - 1 := 0]) s))" by (rule I_client_connect)
  then show ?thesis
    by (cases "client_connect env p (nm[MAX_PATH - 1 := 0]) s")
      (auto simp: InitializeAsClient_def close_if_failed_def
        intro!: wlp_mono [OF I_client_handshake] I_upd_conn I_closesocket)
qed

end

text \<open>
  What is left of a completed request: nothing is pended any more, unless the framework answered
  that the request is being cancelled.
\<close>

definition aborts :: "nfp_env \<Rightarrow> bool" where
  "aborts env \<longleftrightarrow> (\<exists>cs r. UnmarkCancelable_hr env cs r = HRESULT_FROM_WIN32 ERROR_OPERATION_ABORTED)"

lemma CompleteRequest_clears:
  "wlp (CompleteRequest env p hr n b s) (\<lambda>_ s'. \<forall>c. files s' p = Some c \<longrightarrow> m_pWdfRequest c = None \<or> aborts env)"
  by (auto simp: CompleteRequest_def Let_def aborts_def split: option.splits)

text \<open>
  A handler that pends its own request has two phases: \<open>I\<close> holds until the request is stored in
  the context, \<open>J\<close> from there on.
\<close>

locale pend_invariant = before: file_invariant I + after: file_invariant J for I J +
  fixes r :: req
  assumes pend: "I s \<Longrightarrow> files s p = Some c \<Longrightarrow> m_pWdfRequest c = None \<Longrightarrow>
    J (upd_file p (m_pWdfRequest_update (\<lambda>_. Some r)) s)"
begin

lemma mark_cancelable:
  assumes "J s" and cancel: "\<And>r s. J s \<Longrightarrow> wlp (cancel r s) (\<lambda>_. J)"
  shows "wlp (mark_cancelable env cancel r' s) (\<lambda>_. J)"
  using assms(1) by (auto simp: mark_cancelable_def Let_def intro!: cancel after.I_log)

lemma after_bookkeeping:
  "J s \<Longrightarrow> J (upd_file p (m_SubscribedMessageQueue_update tl) s)"
  "J s \<Longrightarrow> J (upd_file p (m_cCompleteReady_update h) s)"
  by (simp_all add: after.I_file)

lemma GetNextSubscribedMessage:
  assumes "I s" and cancel: "\<And>r s. J s \<Longrightarrow> wlp (cancel r s) (\<lambda>_. J)"
  shows "wlp (GetNextSubscribedMessage env cancel p r s) (\<lambda>hr s'. if FAILED hr then I s' else J s')"
  using assms(1)
  by (auto simp: GetNextSubscribedMessage_def Let_def split: list.splits
      intro!: wlp_mono [OF before.I_Enter] wlp_mono [OF mark_cancelable] cancel
        wlp_mono [OF after.I_CompleteOne] wlp_mono [OF after.I_CompleteOneArrivalEvent]
        wlp_mono [OF after.I_CompleteOneRemovalEvent] before.I_Leave after.I_Leave pend after_bookkeeping)

lemma GetNextTransmittedMessage:
  assumes "I s" and cancel: "\<And>r s. J s \<Longrightarrow> wlp (cancel r s) (\<lambda>_. J)"
  shows "wlp (GetNextTransmittedMessage env cancel p r s) (\<lambda>hr s'. if FAILED hr then I s' else J s')"
  using assms(1)
  by (auto simp: GetNextTransmittedMessage_def Let_def split: option.splits
      intro!: wlp_mono [OF before.I_Enter] wlp_mono [OF mark_cancelable] cancel
        wlp_mono [OF after.I_CompleteRequest] before.I_Leave after.I_Leave pend after_bookkeeping)

end

text \<open>
  The third interface is for the handlers that set a handle up: the payload of a publication,
  stored once, and the role and connection of a proximity handle.
\<close>

locale handle_invariant = driver_invariant +
  assumes I_payload: "I s \<Longrightarrow> files s p = Some c \<Longrightarrow> m_Role c = ROLE_PUBLICATION \<Longrightarrow>
      m_pbPayload (m_MyPayload c) = None \<Longrightarrow> stored_ok q \<Longrightarrow> I (upd_file p (m_MyPayload_update (\<lambda>_. q)) s)"
    and I_proximity: "I s \<Longrightarrow> files s p = Some c \<Longrightarrow> m_Role c = ROLE_UNDEFINED \<Longrightarrow>
      I (upd_file p (m_Role_update (\<lambda>_. ROLE_PROXIMITY)) s)"
    and I_pConnection: "I s \<Longrightarrow> I (upd_file p (m_pConnection_update g) s)"
begin

lemma I_SetPayload: "I s \<Longrightarrow> wlp (SetPayload env p r s) (\<lambda>_. I)"
proof -
  assume "I s"
  have store: "wlp (CMyPayload_Initialize env (of_nat n) pb q s) (\<lambda>x s. I (upd_file p (m_MyPayload_update (\<lambda>_. snd x)) s))"
    if "I s" "files s p = Some c" "m_Role c = ROLE_PUBLICATION" "m_pbPayload (m_MyPayload c) = None" "n \<le> MaxCbPayload"
    for n pb q s c
  proof -
    have "unat (of_nat n :: dword) \<le> MaxCbPayload"
      using that(5) by (simp add: MaxCbPayload_def unat_of_nat)
    then have "I (upd_file p (m_MyPayload_update (\<lambda>_. snd x)) s')"
      if "I s'" "files s' = files s \<and> payload_ok (snd x) \<and> (unat (of_nat n :: dword) \<le> MaxCbPayload \<longrightarrow> stored_ok (snd x))"
      for x :: "hresult \<times> payload" and s'
      using that \<open>files s p = Some c\<close> \<open>m_Role c = ROLE_PUBLICATION\<close> \<open>m_pbPayload (m_MyPayload c) = None\<close>
      by (intro I_payload) auto
    then show ?thesis
      by (intro wlp_mono [OF wlp_conj [OF I_CMyPayload_Initialize [OF that(1)] CMyPayload_Initialize_files]]) blast
  qed
  show ?thesis
    using \<open>I s\<close>
    by (auto simp: SetPayload_def Let_def split: option.splits
        intro!: wlp_mono [OF I_Enter] wlp_mono [OF store] I_Leave)
qed

lemma I_BeginProximity: "I s \<Longrightarrow> wlp (BeginProximity env (queue_callbacks env) p r s) (\<lambda>_. I)"
  by (auto simp: BeginProximity_def Let_def split: option.splits
      intro!: wlp_mono [OF I_Enter] wlp_mono [OF I_Leave] wlp_mono [OF I_CConnection_Create]
        wlp_mono [OF I_InitializeAsClient] I_proximity I_pConnection)

end

text \<open>
  The fourth interface is for a context that no list refers to: a new one while its name is parsed,
  and an old one on its way out.  Everything but its request may change.
\<close>

locale owned_file = driver_invariant +
  fixes p :: fid
  assumes I_this: "I s \<Longrightarrow> (\<And>c. m_pWdfRequest (f c) = m_pWdfRequest c) \<Longrightarrow>
      (\<And>c. m_pConnection (f c) = m_pConnection c \<or> m_pConnection (f c) = None) \<Longrightarrow>
      (\<And>c. context_ok c \<Longrightarrow> context_ok (f c)) \<Longrightarrow> I (upd_file p f s)"
begin

lemma I_SetType: "I s \<Longrightarrow> wlp (SetType env p t s) (\<lambda>_. I)"
  by (cases "operator_new env s")
    (auto simp: SetType_def Let_def StringCchCopy_def split: option.splits bind_splits if_splits
      dest!: I_new intro!: wlpI I_this context_ok_typed)

lemma I_replace:
  assumes "I s" and "files s p = Some c" and "m_pWdfRequest c' = m_pWdfRequest c" and "m_pConnection c' = m_pConnection c"
    and "context_ok c \<Longrightarrow> context_ok c'"
  shows "I (upd_file p (\<lambda>_. c') s)"
proof -
  let ?f = "\<lambda>d. if d = c then c' else d"
  have "upd_file p (\<lambda>_. c') s = upd_file p ?f s" using assms(2) by (simp add: upd_file_def)
  also have "I (upd_file p ?f s)" using assms by (intro I_this) auto
  finally show ?thesis .
qed

lemma I_select_protocol: "I s \<Longrightarrow> wlp (select_protocol env p t s) (\<lambda>_. I)"
  unfolding select_protocol_def
  by (auto simp: SetRoleArrivedSubcription_def SetRoleDepartedSubcription_def
      intro!: wlp_mono [OF I_SetType] I_replace)

lemma I_select_role: "I s \<Longrightarrow> wlp (select_role env p t s) (\<lambda>_. I)"
  unfolding select_role_def
  by (cases t) (auto simp: SetRolePublication_def SetRoleSubcription_def intro!: I_select_protocol I_this)

lemma I_parse_file_name: "I s \<Longrightarrow> wlp (parse_file_name env p f s) (\<lambda>_. I)"
  by (cases "operator_new env s")
    (auto simp: parse_file_name_def Let_def split: option.splits prod.splits dest!: I_new intro!: I_select_role)

lemma I_CFileContext_delete:
  assumes "I s" and wait: "\<And>q s. I s \<Longrightarrow> wlp (wait q s) (\<lambda>_. I)"
    and free: "\<And>s. I s \<Longrightarrow> (\<And>c. files s p = Some c \<Longrightarrow> m_pWdfRequest c = None \<or> aborts env) \<Longrightarrow>
      Q (s\<lparr>files := (files s)(p := None)\<rparr>)"
  shows "wlp (CFileContext_delete env wait p s) (\<lambda>_. Q)"
proof -
  have cleared: "wlp (CompleteRequest env p hr n True s)
      (\<lambda>_ s'. I s' \<and> (\<forall>c. files s' p = Some c \<longrightarrow> m_pWdfRequest c = None \<or> aborts env))" if "I s" for s hr n
    by (intro wlp_conj I_CompleteRequest CompleteRequest_clears that)
  have finish: "wlp (EnterCriticalSection (RoleLock p) s) (\<lambda>_ s. wlp (CompleteRequest env p E_ABORT 0 True s)
      (\<lambda>_ s. wlp (LeaveCriticalSection (RoleLock p) s) (\<lambda>_ s. Q (s\<lparr>files := (files s)(p := None)\<rparr>))))"
    if "I s" for s
    using that by (intro wlp_mono [OF I_Enter] wlp_mono [OF cleared]) (auto intro!: wlp_Leave free I_locks)
  show ?thesis
    using assms(1)
    by (auto simp: CFileContext_delete_def Let_def split: option.splits
        intro!: wlp_mono [OF I_CConnection_delete] wait I_this finish context_ok_emptied)
qed

end

end
