(* ===== verification/NfpRequests.thy ===== *)
theory NfpRequests
  imports NfpInvariants
begin

text \<open>
  What the driver promises about I/O requests, as an abstract protocol, and the proof that its
  callbacks implement it.  An abstract state is the request pended on every context and the list
  of completed requests; pended requests may be completed at any time, and an incoming request is
  either pended on a context without one or completed.
\<close>

section \<open>The protocol\<close>

type_synonym rstate = "(fid \<Rightarrow> req option) \<times> req list"

inductive complete_step :: "rstate \<Rightarrow> rstate \<Rightarrow> bool" where
  "pend p = Some r \<Longrightarrow> complete_step (pend, finished) (pend(p := None), r # finished)"

abbreviation completes :: "rstate \<Rightarrow> rstate \<Rightarrow> bool" where
  "completes \<equiv> complete_step\<^sup>*\<^sup>*"

inductive serve :: "req \<Rightarrow> rstate \<Rightarrow> rstate \<Rightarrow> bool" for r where
  serve_pend: "pend p = None \<Longrightarrow> serve r (pend, finished) (pend(p := Some r), finished)"
| serve_finish: "serve r (pend, finished) (pend, r # finished)"

definition handled :: "req \<Rightarrow> rstate \<Rightarrow> rstate \<Rightarrow> bool" where
  "handled r a a' \<longleftrightarrow> (\<exists>b c. completes a b \<and> serve r b c \<and> completes c a')"

definition fresh_request :: "req \<Rightarrow> rstate \<Rightarrow> bool" where
  "fresh_request r a \<longleftrightarrow> r \<notin> set (snd a) \<and> (\<forall>p. fst a p \<noteq> Some r)"

definition protocol_ok :: "rstate \<Rightarrow> bool" where
  "protocol_ok a \<longleftrightarrow> distinct (snd a)
     \<and> (\<forall>p r. fst a p = Some r \<longrightarrow> r \<notin> set (snd a))
     \<and> (\<forall>p q r. fst a p = Some r \<and> fst a q = Some r \<longrightarrow> p = q)"

inductive_cases complete_stepE: "complete_step a b"
inductive_cases serveE: "serve r a b"

lemma complete_step_ok: "complete_step a b \<Longrightarrow> protocol_ok a \<Longrightarrow> protocol_ok b"
  by (elim complete_stepE) (fastforce simp: protocol_ok_def split: if_splits)

lemma completes_ok: "completes a b \<Longrightarrow> protocol_ok a \<Longrightarrow> protocol_ok b"
  by (induction rule: rtranclp_induct) (simp, metis complete_step_ok)

lemma serve_ok: "serve r a b \<Longrightarrow> fresh_request r a \<Longrightarrow> protocol_ok a \<Longrightarrow> protocol_ok b"
  by (elim serveE) (fastforce simp: protocol_ok_def fresh_request_def split: if_splits)+

lemma complete_step_fresh: "complete_step a b \<Longrightarrow> fresh_request r a \<Longrightarrow> fresh_request r b"
  by (elim complete_stepE) (auto simp: fresh_request_def)

lemma completes_fresh: "completes a b \<Longrightarrow> fresh_request r a \<Longrightarrow> fresh_request r b"
  by (induction rule: rtranclp_induct) (simp, metis complete_step_fresh)

text \<open>A request that is known (pended or finished) stays known.\<close>

definition accounted :: "req \<Rightarrow> rstate \<Rightarrow> bool" where
  "accounted r a \<longleftrightarrow> r \<in> set (snd a) \<or> (\<exists>p. fst a p = Some r)"

lemma complete_step_accounted: "complete_step a b \<Longrightarrow> accounted r a \<Longrightarrow> accounted r b"
  by (elim complete_stepE) (simp add: accounted_def, metis option.inject)

lemma completes_accounted: "completes a b \<Longrightarrow> accounted r a \<Longrightarrow> accounted r b"
  by (induction rule: rtranclp_induct) (simp, metis complete_step_accounted)

lemma serve_accounted: "serve r a b \<Longrightarrow> accounted r b"
  by (elim serveE) (auto simp: accounted_def)

lemma handled_ok:
  "handled r a a' \<Longrightarrow> fresh_request r a \<Longrightarrow> protocol_ok a \<Longrightarrow> protocol_ok a' \<and> accounted r a'"
  unfolding handled_def
  by (meson completes_accounted completes_fresh completes_ok serve_accounted serve_ok)

section \<open>The abstraction of a driver state\<close>

fun completed :: "fxcall list \<Rightarrow> req list" where
  "completed [] = []"
| "completed (Complete r hr # cs) = r # completed cs"
| "completed (CompleteWithInformation r hr n # cs) = r # completed cs"
| "completed (x # cs) = completed cs"

definition pended :: "nfp \<Rightarrow> fid \<Rightarrow> req option" where
  "pended s p = (case files s p of None \<Rightarrow> None | Some c \<Rightarrow> m_pWdfRequest c)"

definition req_abs :: "nfp \<Rightarrow> rstate" where
  "req_abs s = (pended s, completed (calls s))"

lemma completed_other: "\<not> is_completion x \<Longrightarrow> completed (x # cs) = completed cs"
  by (cases x) auto

lemma req_abs_cong: "files s' = files s \<Longrightarrow> calls s' = calls s \<Longrightarrow> req_abs s' = req_abs s"
  by (simp add: req_abs_def pended_def fun_eq_iff)

lemma req_abs_frame [simp]:
  "req_abs (s\<lparr>locks := l\<rparr>) = req_abs s" "req_abs (s\<lparr>heap_next := n\<rparr>) = req_abs s"
  "req_abs (s\<lparr>cur_thread := t\<rparr>) = req_abs s" "req_abs (s\<lparr>conns := cs\<rparr>) = req_abs s"
  "req_abs (s\<lparr>m_ConnectionHead := ps\<rparr>) = req_abs s" "req_abs (s\<lparr>m_PubsHead := ps\<rparr>) = req_abs s"
  "req_abs (s\<lparr>m_SubsHead := ps\<rparr>) = req_abs s" "req_abs (s\<lparr>m_ArrivalSubsHead := ps\<rparr>) = req_abs s"
  "req_abs (s\<lparr>m_DepartureSubsHead := ps\<rparr>) = req_abs s"
  by (rule req_abs_cong; simp)+

lemma req_abs_log: "\<not> is_completion x \<Longrightarrow> req_abs (log_call x s) = req_abs s"
  by (simp add: req_abs_def pended_def fun_eq_iff completed_other)

lemma req_abs_file: "(\<And>c. m_pWdfRequest (f c) = m_pWdfRequest c) \<Longrightarrow> req_abs (upd_file p f s) = req_abs s"
  by (auto simp: req_abs_def pended_def fun_eq_iff split: option.splits)

lemma req_abs_bookkeeping:
  "files s p = Some c \<Longrightarrow> bookkeeping c (f c) \<Longrightarrow> req_abs (upd_file p f s) = req_abs s"
  by (auto simp: req_abs_def pended_def fun_eq_iff bookkeeping_def)

lemma req_abs_complete:
  assumes "files s p = Some c" and "m_pWdfRequest c = Some r"
  shows "complete_step (req_abs s)
    (req_abs (upd_file p (m_pWdfRequest_update (\<lambda>_. None)) (log_call (CompleteWithInformation r hr n) s)))"
proof -
  have "pended (upd_file p (m_pWdfRequest_update (\<lambda>_. None)) (log_call (CompleteWithInformation r hr n) s))
      = (pended s)(p := None)"
    using assms by (auto simp: pended_def fun_eq_iff)
  then show ?thesis
    using assms complete_step.intros [of "pended s" p r] by (simp add: req_abs_def pended_def)
qed

lemma req_abs_pend:
  assumes "files s p = Some c" and "m_pWdfRequest c = None"
  shows "serve r (req_abs s) (req_abs (upd_file p (m_pWdfRequest_update (\<lambda>_. Some r)) s))"
proof -
  have "pended (upd_file p (m_pWdfRequest_update (\<lambda>_. Some r)) s) = (pended s)(p := Some r)"
    using assms by (auto simp: pended_def fun_eq_iff)
  then show ?thesis
    using assms serve_pend [of "pended s" p] by (simp add: req_abs_def pended_def)
qed

lemma req_abs_finish: "serve r (req_abs s) (req_abs (log_call (Complete r hr) s))"
  "serve r (req_abs s) (req_abs (log_call (CompleteWithInformation r hr n) s))"
  using serve_finish [of r "pended s" "completed (calls s)"]
  by (simp_all add: req_abs_def pended_def [abs_def])

text \<open>Both phases of a handler are invariants of the driver: before and after the request is served.\<close>

interpretation pre_serve: handle_invariant "\<lambda>s. completes a (req_abs s)" for a
proof (unfold_locales, goal_cases)
  case (5 s p c r hr n)
  then show ?case using req_abs_complete by (meson rtranclp.rtrancl_into_rtrancl)
qed (simp_all add: req_abs_log req_abs_bookkeeping req_abs_file)

interpretation post_serve: handle_invariant "\<lambda>s. handled r a (req_abs s)" for r a
proof (unfold_locales, goal_cases)
  case (5 s p c r' hr n)
  then show ?case unfolding handled_def using req_abs_complete by (meson rtranclp.rtrancl_into_rtrancl)
qed (simp_all add: req_abs_log req_abs_bookkeeping req_abs_file)

text \<open>Pending the incoming request is the step from one phase to the other.\<close>

interpretation pend_serve:
  pend_invariant "\<lambda>s. completes a (req_abs s)" "\<lambda>s. handled r a (req_abs s)" r for a r
proof (unfold_locales, goal_cases)
  case (1 s p c)
  then show ?case unfolding handled_def using req_abs_pend by blast
qed

text \<open>A context on its way in or out: its request is only ever completed.\<close>

interpretation closing: owned_file "\<lambda>s. completes a (req_abs s)" p for a p
  by unfold_locales (simp add: req_abs_file)

interpretation creating: owned_file
  "\<lambda>s. completes a (req_abs s) \<and> (\<forall>c. files s p = Some c \<longrightarrow> m_pWdfRequest c = None)" p for a p
proof (unfold_locales, goal_cases)
  case (5 s q c r hr n)
  then show ?case using pre_serve.I_complete by auto
qed (auto simp: req_abs_log req_abs_file req_abs_bookkeeping bookkeeping_def)

lemma handled_finish:
  assumes "completes a (req_abs s)"
  shows "handled r a (req_abs (log_call (Complete r hr) s))"
    "handled r a (req_abs (log_call (CompleteWithInformation r hr n) s))"
  using assms req_abs_finish unfolding handled_def by blast+

lemma completes_pubs: "completes a (req_abs s) \<Longrightarrow> completes a (req_abs (s\<lparr>m_PubsHead := ps\<rparr>))"
  by simp

lemma completes_ioctl_set_payload:
  "completes a (req_abs s) \<Longrightarrow>
   wlp (ioctl_set_payload env (wait_for_receive env) p r s) (\<lambda>_ s'. completes a (req_abs s'))"
  by (auto simp: ioctl_set_payload_def intro!: wlp_mono [OF pre_serve.I_SetPayload]
    pre_serve.I_send_and_list pre_serve.I_wait_for_receive)

lemma completes_insert_subscription:
  "completes a (req_abs s) \<Longrightarrow> wlp (insert_subscription p s) (\<lambda>_ s'. completes a (req_abs s'))"
  by (auto simp: insert_subscription_def Let_def intro!: wlp_mono [OF pre_serve.I_Enter] pre_serve.I_Leave)

lemma completes_unlink_file:
  "completes a (req_abs s) \<Longrightarrow> wlp (unlink_file p s) (\<lambda>_ s'. completes a (req_abs s'))"
  by (auto simp: unlink_file_def Let_def intro!: wlp_mono [OF pre_serve.I_Enter] pre_serve.I_Leave)

lemma completes_free:
  assumes "completes a (req_abs s)" and "\<And>c. files s p = Some c \<Longrightarrow> m_pWdfRequest c = None"
  shows "completes a (req_abs (s\<lparr>files := (files s)(p := None)\<rparr>))"
proof -
  have "pended (s\<lparr>files := (files s)(p := None)\<rparr>) = pended s"
    using assms(2) by (auto simp: pended_def fun_eq_iff split: option.splits)
  then show ?thesis using assms(1) by (simp add: req_abs_def)
qed

section \<open>The callbacks implement the protocol\<close>

lemma OnDeviceIoControl_handled:
  "wlp (OnDeviceIoControl env r code s) (\<lambda>_ s'. handled r (req_abs s) (req_abs s'))"
proof -
  have start: "completes (req_abs s) (req_abs s)" by simp
  have cancel: "wlp (OnCancel env r' s') (\<lambda>_ s'. handled r (req_abs s) (req_abs s'))"
    if "handled r (req_abs s) (req_abs s')" for r' s'
    using that by (rule post_serve.I_OnCancel)
  show ?thesis
    by (auto simp: OnDeviceIoControl_def query_dword_def Let_def req_abs_log
        split: prod.splits control_code.splits option.splits
        intro!: handled_finish start wlp_mono [OF pre_serve.I_Disable [OF start]]
          wlp_mono [OF pre_serve.I_Enable [OF start]] wlp_mono [OF pre_serve.I_BeginProximity [OF start]]
          wlp_mono [OF completes_ioctl_set_payload [OF start]]
          wlp_mono [OF pend_serve.GetNextSubscribedMessage [OF start cancel]]
          wlp_mono [OF pend_serve.GetNextTransmittedMessage [OF start cancel]])
qed

definition heap_ok :: "nfp \<Rightarrow> bool" where
  "heap_ok s \<longleftrightarrow> (\<forall>p. files s p \<noteq> None \<longrightarrow> p < heap_next s)"

lemma req_abs_new_file:
  "files s p = None \<Longrightarrow> req_abs (s\<lparr>files := (files s)(p \<mapsto> new_CFileContext)\<rparr>) = req_abs s"
  by (auto simp: req_abs_def pended_def fun_eq_iff new_CFileContext_def)

lemma OnCreateFile_handles:
  assumes "heap_ok s"
  shows "wlp (OnCreateFile env (wait_for_receive env) r f s) (\<lambda>_ s'. handled r (req_abs s) (req_abs s'))"
proof (cases env s rule: operator_new_cases)
  case fail
  then show ?thesis by (auto simp: OnCreateFile_def req_abs_log intro!: handled_finish)
next
  case ok
  let ?p = "heap_next s"
  let ?I = "\<lambda>s'. completes (req_abs s) (req_abs s') \<and> (\<forall>c. files s' ?p = Some c \<longrightarrow> m_pWdfRequest c = None)"
  have fresh: "files s ?p = None"
    using assms by (auto simp: heap_ok_def)
  have new: "?I ((log_call OperatorNew s)\<lparr>heap_next := Suc ?p, files := (files s)(?p \<mapsto> new_CFileContext)\<rparr>)"
    using req_abs_new_file [of "(log_call OperatorNew s)\<lparr>heap_next := Suc ?p\<rparr>" ?p] fresh
    by (simp add: req_abs_log new_CFileContext_def)
  show ?thesis
    using ok fresh new
    by (auto simp: OnCreateFile_def Let_def req_abs_log
        intro!: wlp_mono [OF creating.I_parse_file_name [where a = "req_abs s"]]
          wlp_mono [OF completes_insert_subscription] handled_finish
          wlp_mono [OF creating.I_CFileContext_delete [where a = "req_abs s" and Q = "\<lambda>s'. completes (req_abs s) (req_abs s')"]]
          creating.I_wait_for_receive completes_free)
qed

end
