(* ===== verification/NfpSystem.thy ===== *)
theory NfpSystem
  imports NfpRequests
begin

text \<open>
  The driver as a transition system: one step is one callback of the framework, one accepted
  socket, or one iteration of a receive thread, on any thread and in any order.  The invariants of
  the reachable states: the four lists of contexts hold live contexts of the right role, once each;
  requests follow the protocol of \<open>NfpRequests\<close>; the message queues respect their limit.
\<close>

section \<open>Lists of contexts\<close>

definition live_role :: "ROLE \<Rightarrow> nfp \<Rightarrow> fid \<Rightarrow> bool" where
  "live_role ro s p \<longleftrightarrow> (case files s p of None \<Rightarrow> False | Some c \<Rightarrow> m_Role c = ro)"

definition has_payload :: "nfp \<Rightarrow> fid \<Rightarrow> bool" where
  "has_payload s p \<longleftrightarrow> (case files s p of None \<Rightarrow> False | Some c \<Rightarrow> m_pbPayload (m_MyPayload c) \<noteq> None)"

definition role_list :: "ROLE \<Rightarrow> nfp \<Rightarrow> fid list \<Rightarrow> bool" where
  "role_list ro s ps \<longleftrightarrow> distinct ps \<and> (\<forall>p \<in> set ps. live_role ro s p)"

definition contexts_ok :: "nfp \<Rightarrow> bool" where
  "contexts_ok s \<longleftrightarrow> (\<forall>p c. files s p = Some c \<longrightarrow> context_ok c)"

definition lists_ok :: "nfp \<Rightarrow> bool" where
  "lists_ok s \<longleftrightarrow> heap_ok s \<and> contexts_ok s
     \<and> role_list ROLE_SUBSCRIPTION s (m_SubsHead s)
     \<and> role_list ROLE_ARRIVEDSUBSCRIPTION s (m_ArrivalSubsHead s)
     \<and> role_list ROLE_DEPARTEDSUBSCRIPTION s (m_DepartureSubsHead s)
     \<and> role_list ROLE_PUBLICATION s (m_PubsHead s)
     \<and> (\<forall>p \<in> set (m_PubsHead s). has_payload s p)"

text \<open>Which changes of the store of contexts the lists do not notice.\<close>

definition role_lists :: "nfp \<Rightarrow> fid list" where
  "role_lists s = m_SubsHead s @ m_ArrivalSubsHead s @ m_DepartureSubsHead s @ m_PubsHead s"

lemma role_lists_log [simp]: "role_lists (log_call x s) = role_lists s"
  by (simp add: role_lists_def)

lemma lists_ok_frame:
  assumes "lists_ok s" and "heap_ok s'" and "contexts_ok s'" and "role_lists s' = role_lists s"
    and "m_SubsHead s' = m_SubsHead s" "m_ArrivalSubsHead s' = m_ArrivalSubsHead s"
    "m_DepartureSubsHead s' = m_DepartureSubsHead s" "m_PubsHead s' = m_PubsHead s"
    and "\<And>p ro. p \<in> set (role_lists s) \<Longrightarrow> live_role ro s p \<Longrightarrow> live_role ro s' p"
    and "\<And>p. p \<in> set (m_PubsHead s) \<Longrightarrow> has_payload s p \<Longrightarrow> has_payload s' p"
  shows "lists_ok s'"
  using assms unfolding lists_ok_def role_list_def role_lists_def by simp

lemma lists_ok_same:
  assumes "lists_ok s" and "files s' = files s" and "heap_next s \<le> heap_next s'"
    and "m_SubsHead s' = m_SubsHead s" "m_ArrivalSubsHead s' = m_ArrivalSubsHead s"
    "m_DepartureSubsHead s' = m_DepartureSubsHead s" "m_PubsHead s' = m_PubsHead s"
  shows "lists_ok s'"
  using assms by (auto simp: lists_ok_def heap_ok_def contexts_ok_def role_list_def live_role_def has_payload_def)

lemma lists_ok_upd:
  assumes "lists_ok s" and "files s p = Some c"
    and "context_ok (f c)"
    and "p \<in> set (role_lists s) \<Longrightarrow> m_Role (f c) = m_Role c"
    and "p \<in> set (m_PubsHead s) \<Longrightarrow> m_pbPayload (m_MyPayload (f c)) \<noteq> None"
  shows "lists_ok (upd_file p f s)"
proof (rule lists_ok_frame [OF assms(1)])
  show "heap_ok (upd_file p f s)" "contexts_ok (upd_file p f s)"
    using assms(1-3) by (auto simp: lists_ok_def heap_ok_def contexts_ok_def split: if_splits)
  show "live_role ro (upd_file p f s) q" if "q \<in> set (role_lists s)" "live_role ro s q" for q ro
    using that assms(2,4) by (auto simp: live_role_def split: option.splits)
  show "has_payload (upd_file p f s) q" if "q \<in> set (m_PubsHead s)" "has_payload s q" for q
    using that assms(2,5) by (auto simp: has_payload_def split: option.splits)
qed (simp_all add: role_lists_def)

lemma lists_ok_context: "lists_ok s \<Longrightarrow> files s p = Some c \<Longrightarrow> context_ok c"
  by (auto simp: lists_ok_def contexts_ok_def)

lemma lists_ok_role: "lists_ok s \<Longrightarrow> files s p = Some c \<Longrightarrow>
    p \<in> set (role_lists s) \<Longrightarrow> m_Role c \<noteq> ROLE_UNDEFINED"
  by (auto simp: lists_ok_def role_list_def live_role_def role_lists_def split: option.splits)

lemma lists_ok_pubs: "lists_ok s \<Longrightarrow> files s p = Some c \<Longrightarrow> p \<in> set (m_PubsHead s) \<Longrightarrow>
    m_Role c = ROLE_PUBLICATION \<and> m_pbPayload (m_MyPayload c) \<noteq> None"
  by (auto simp: lists_ok_def role_list_def live_role_def has_payload_def split: option.splits)

lemma lists_ok_keep:
  assumes "lists_ok s" and "files s p = Some c" and "context_ok (f c)"
    and "m_Role (f c) = m_Role c" "m_MyPayload (f c) = m_MyPayload c"
  shows "lists_ok (upd_file p f s)"
  using assms by (intro lists_ok_upd [where c = c]) (simp_all add: lists_ok_pubs)

lemma lists_ok_keep_any:
  assumes "lists_ok s" and "\<And>c. context_ok c \<Longrightarrow> context_ok (f c)"
    and "\<And>c. m_Role (f c) = m_Role c" "\<And>c. m_MyPayload (f c) = m_MyPayload c"
  shows "lists_ok (upd_file p f s)"
proof (cases "files s p")
  case (Some c)
  show ?thesis
    by (rule lists_ok_keep [where c = c]) (use assms Some lists_ok_context [OF assms(1) Some] in simp_all)
qed (simp add: upd_file_dead assms(1))

interpretation lists: handle_invariant lists_ok
proof (unfold_locales, goal_cases)
  case (4 s p c f)
  then show ?case by (intro lists_ok_keep) (auto simp: bookkeeping_def dest: lists_ok_context)
next
  case (5 s p c r hr n)
  then show ?case by (intro lists_ok_keep_any) (auto intro: lists_ok_same)
next
  case (9 s p c q)
  then have "p \<notin> set (m_PubsHead s)" by (meson lists_ok_pubs)
  with 9 show ?case by (intro lists_ok_upd) (auto dest: lists_ok_context simp: context_ok_def)
next
  case (10 s p c)
  then have "p \<notin> set (role_lists s)" by (meson lists_ok_role)
  with 10 show ?case by (intro lists_ok_upd) (auto simp: role_lists_def dest: lists_ok_context)
next
  case (11 s p g)
  then show ?case by (intro lists_ok_keep_any) auto
qed (auto intro: lists_ok_same)

interpretation pend_lists: pend_invariant lists_ok lists_ok r for r
  by unfold_locales (auto intro: lists_ok_keep_any)

text \<open>A context that no list holds: a new one while its name is parsed, an old one after it is unlinked.\<close>

interpretation unlisted: owned_file "\<lambda>s. lists_ok s \<and> p \<notin> set (role_lists s)" p for p
proof (unfold_locales, goal_cases)
  case (4 s q c f)
  then show ?case using lists.I_file_at by (simp add: role_lists_def)
next
  case (5 s q c r hr n)
  then show ?case using lists.I_complete by (simp add: role_lists_def)
next
  case (9 s f)
  then show ?case
    by (intro conjI; cases "files s p") (auto intro!: lists_ok_upd simp: upd_file_dead role_lists_def dest: lists_ok_context)
qed (auto intro: lists_ok_same simp: role_lists_def)

text \<open>A publication whose payload is stored and that is about to be listed.\<close>

interpretation transit: driver_invariant
  "\<lambda>s. lists_ok s \<and> p \<notin> set (m_PubsHead s) \<and> live_role ROLE_PUBLICATION s p \<and> has_payload s p" for p
proof (unfold_locales, goal_cases)
  case (4 s q c f)
  then show ?case using lists.I_file_at
    by (auto simp: live_role_def has_payload_def bookkeeping_def split: option.splits)
next
  case (5 s q c r hr n)
  then show ?case using lists.I_complete
    by (auto simp: live_role_def has_payload_def split: option.splits)
qed (auto intro: lists_ok_same simp: live_role_def has_payload_def)

lemma transit_list:
  assumes "lists_ok s \<and> p \<notin> set (m_PubsHead s) \<and> live_role ROLE_PUBLICATION s p \<and> has_payload s p"
  shows "lists_ok (s\<lparr>m_PubsHead := p # m_PubsHead s, locks := l\<rparr>)"
  using assms
  by (auto simp: lists_ok_def heap_ok_def contexts_ok_def role_list_def live_role_def has_payload_def)

text \<open>A payload is stored at most once, in a publication that was not listed.\<close>

lemma SetPayload_stores:
  "wlp (SetPayload env p r s) (\<lambda>hr s'. m_PubsHead s' = m_PubsHead s \<and>
     (\<not> FAILED hr \<longrightarrow> live_role ROLE_PUBLICATION s' p \<and> has_payload s' p \<and> \<not> has_payload s p))"
  by (auto simp: SetPayload_def Let_def CMyPayload_Initialize_def operator_new_def has_payload_def live_role_def
      split: option.splits intro!: wlp_Enter wlp_Leave)

lemma lists_ioctl_set_payload:
  assumes "lists_ok s"
  shows "wlp (ioctl_set_payload env (wait_for_receive env) p r s) (\<lambda>_. lists_ok)"
proof -
  have "wlp (SetPayload env p r s) (\<lambda>hr s'. lists_ok s' \<and> m_PubsHead s' = m_PubsHead s \<and>
     (\<not> FAILED hr \<longrightarrow> live_role ROLE_PUBLICATION s' p \<and> has_payload s' p \<and> \<not> has_payload s p))"
    by (intro wlp_conj lists.I_SetPayload assms SetPayload_stores)
  moreover have "p \<notin> set (m_PubsHead s)" if "\<not> has_payload s p"
    using that assms by (auto simp: lists_ok_def)
  moreover have "wlp (send_and_list env (wait_for_receive env) p s') (\<lambda>_. lists_ok)"
    if "lists_ok s' \<and> p \<notin> set (m_PubsHead s') \<and> live_role ROLE_PUBLICATION s' p \<and> has_payload s' p" for s'
    using that transit_list
    by (intro transit.I_send_and_list [where p = p] transit.I_wait_for_receive) auto
  ultimately show ?thesis
    by (auto simp: ioctl_set_payload_def elim!: wlp_mono)
qed

section \<open>The callbacks keep the lists\<close>

lemma lists_ok_log: "lists_ok s \<Longrightarrow> lists_ok (log_call x s)"
  by (auto intro: lists_ok_same)

lemma lists_OnDeviceIoControl:
  assumes "lists_ok s"
  shows "wlp (OnDeviceIoControl env r code s) (\<lambda>_. lists_ok)"
  using assms
  by (auto simp: OnDeviceIoControl_def query_dword_def Let_def
      split: prod.splits control_code.splits option.splits
      intro!: wlp_mono [OF lists.I_Disable] wlp_mono [OF lists.I_Enable]
        wlp_mono [OF lists.I_BeginProximity] wlp_mono [OF lists_ioctl_set_payload]
        wlp_mono [OF pend_lists.GetNextSubscribedMessage] wlp_mono [OF pend_lists.GetNextTransmittedMessage]
        lists.I_OnCancel lists_ok_log)

lemma lists_ok_locks: "lists_ok s \<Longrightarrow> lists_ok (s\<lparr>locks := l\<rparr>)"
  by (auto intro: lists_ok_same)

lemma lists_ok_free:
  assumes "lists_ok s \<and> p \<notin> set (role_lists s)"
  shows "lists_ok (s\<lparr>files := (files s)(p := None)\<rparr>)"
  using assms
  by (auto simp: lists_ok_def heap_ok_def contexts_ok_def role_list_def live_role_def has_payload_def role_lists_def)

lemma role_list_Cons [simp]:
  "role_list ro s (p # ps) \<longleftrightarrow> p \<notin> set ps \<and> live_role ro s p \<and> role_list ro s ps"
  by (auto simp: role_list_def)

lemma role_list_remove1:
  "role_list ro s ps \<Longrightarrow> role_list ro s (remove1 p ps)" "role_list ro s ps \<Longrightarrow> p \<notin> set (remove1 p ps)"
  by (auto simp: role_list_def dest: notin_set_remove1)

lemma role_list_other: "role_list ro s ps \<Longrightarrow> files s p = Some c \<Longrightarrow> m_Role c \<noteq> ro \<Longrightarrow> p \<notin> set ps"
  by (auto simp: role_list_def live_role_def)

text \<open>Roles, payloads and limits do not depend on the lists and the locks.\<close>

lemma live_role_frame [simp]:
  "live_role ro (s\<lparr>m_SubsHead := ps\<rparr>) p = live_role ro s p" "live_role ro (s\<lparr>m_ArrivalSubsHead := ps\<rparr>) p = live_role ro s p"
  "live_role ro (s\<lparr>m_DepartureSubsHead := ps\<rparr>) p = live_role ro s p" "live_role ro (s\<lparr>m_PubsHead := ps\<rparr>) p = live_role ro s p"
  "live_role ro (s\<lparr>locks := l\<rparr>) p = live_role ro s p"
  by (simp_all add: live_role_def)

lemma role_list_frame [simp]:
  "role_list ro (s\<lparr>m_SubsHead := ps\<rparr>) qs = role_list ro s qs" "role_list ro (s\<lparr>m_ArrivalSubsHead := ps\<rparr>) qs = role_list ro s qs"
  "role_list ro (s\<lparr>m_DepartureSubsHead := ps\<rparr>) qs = role_list ro s qs" "role_list ro (s\<lparr>m_PubsHead := ps\<rparr>) qs = role_list ro s qs"
  "role_list ro (s\<lparr>locks := l\<rparr>) qs = role_list ro s qs"
  by (simp_all add: role_list_def)

lemma store_frame [simp]:
  "has_payload (s\<lparr>m_SubsHead := ps\<rparr>) = has_payload s" "has_payload (s\<lparr>m_ArrivalSubsHead := ps\<rparr>) = has_payload s"
  "has_payload (s\<lparr>m_DepartureSubsHead := ps\<rparr>) = has_payload s" "has_payload (s\<lparr>m_PubsHead := ps\<rparr>) = has_payload s"
  "has_payload (s\<lparr>locks := l\<rparr>) = has_payload s"
  "heap_ok (s\<lparr>m_SubsHead := ps\<rparr>) = heap_ok s" "heap_ok (s\<lparr>m_ArrivalSubsHead := ps\<rparr>) = heap_ok s"
  "heap_ok (s\<lparr>m_DepartureSubsHead := ps\<rparr>) = heap_ok s" "heap_ok (s\<lparr>m_PubsHead := ps\<rparr>) = heap_ok s"
  "heap_ok (s\<lparr>locks := l\<rparr>) = heap_ok s"
  "contexts_ok (s\<lparr>m_SubsHead := ps\<rparr>) = contexts_ok s" "contexts_ok (s\<lparr>m_ArrivalSubsHead := ps\<rparr>) = contexts_ok s"
  "contexts_ok (s\<lparr>m_DepartureSubsHead := ps\<rparr>) = contexts_ok s" "contexts_ok (s\<lparr>m_PubsHead := ps\<rparr>) = contexts_ok s"
  "contexts_ok (s\<lparr>locks := l\<rparr>) = contexts_ok s"
  by (simp_all add: has_payload_def [abs_def] heap_ok_def contexts_ok_def)

lemma live_role_iff: "files s p = Some c \<Longrightarrow> live_role ro s p \<longleftrightarrow> m_Role c = ro"
  by (simp add: live_role_def)

lemmas role_tests = IsNormalSubscription_def IsArrivedSubscription_def IsDepartedSubscription_def IsPublication_def

lemma lists_insert_subscription:
  assumes "lists_ok s \<and> p \<notin> set (role_lists s)"
  shows "wlp (insert_subscription p s) (\<lambda>_. lists_ok)"
  using assms
  by (auto simp: insert_subscription_def Let_def role_tests lists_ok_def role_lists_def live_role_iff
      intro!: wlp_Enter wlp_Leave)

lemma lists_unlink_file:
  assumes "lists_ok s"
  shows "wlp (unlink_file p s) (\<lambda>_ s'. lists_ok s' \<and> p \<notin> set (role_lists s'))"
proof (cases "files s p")
  case (Some c)
  have parts: "heap_ok s" "contexts_ok s" "role_list ROLE_SUBSCRIPTION s (m_SubsHead s)"
    "role_list ROLE_ARRIVEDSUBSCRIPTION s (m_ArrivalSubsHead s)"
    "role_list ROLE_DEPARTEDSUBSCRIPTION s (m_DepartureSubsHead s)"
    "role_list ROLE_PUBLICATION s (m_PubsHead s)" "\<forall>p \<in> set (m_PubsHead s). has_payload s p"
    using assms by (simp_all add: lists_ok_def)
  note other = role_list_other [OF parts(3) Some] role_list_other [OF parts(4) Some]
    role_list_other [OF parts(5) Some] role_list_other [OF parts(6) Some]
  have "\<forall>q \<in> set (remove1 p (m_PubsHead s)). has_payload s q"
    using parts(7) by (auto dest: notin_set_remove1)
  then show ?thesis
    using Some parts other unfolding lists_ok_def role_lists_def
    by (cases "m_Role c")
      (simp_all add: unlink_file_def Let_def role_tests role_list_remove1 wlp_Enter wlp_Leave)
qed (simp add: unlink_file_def)

lemma lists_ok_new_file:
  assumes "lists_ok s" and "files s p = None" and "p < heap_next s"
  shows "lists_ok (s\<lparr>files := (files s)(p \<mapsto> new_CFileContext)\<rparr>)"
    and "p \<notin> set (role_lists s)"
proof -
  show "p \<notin> set (role_lists s)"
    using assms(1,2) by (auto simp: lists_ok_def role_list_def live_role_def role_lists_def)
  then show "lists_ok (s\<lparr>files := (files s)(p \<mapsto> new_CFileContext)\<rparr>)"
    using assms
    by (intro lists_ok_frame [OF assms(1)])
      (auto simp: heap_ok_def contexts_ok_def live_role_def has_payload_def lists_ok_def
        role_lists_def new_CFileContext_ok)
qed

lemma lists_OnCreateFile:
  assumes "lists_ok s"
  shows "wlp (OnCreateFile env (wait_for_receive env) r f s) (\<lambda>_. lists_ok)"
proof (cases env s rule: operator_new_cases)
  case fail
  then show ?thesis using assms by (simp add: OnCreateFile_def lists_ok_log)
next
  case ok
  let ?s = "(log_call OperatorNew s)\<lparr>heap_next := Suc (heap_next s)\<rparr>"
  have "files ?s (heap_next s) = None" "heap_next s < heap_next ?s"
    using assms by (auto simp: lists_ok_def heap_ok_def)
  moreover have s: "lists_ok ?s" using assms by (auto intro: lists_ok_same)
  ultimately have "lists_ok (?s\<lparr>files := (files ?s)(heap_next s \<mapsto> new_CFileContext)\<rparr>)"
    "heap_next s \<notin> set (role_lists ?s)"
    using lists_ok_new_file [OF s] by blast+
  then have new: "lists_ok (?s\<lparr>files := (files ?s)(heap_next s \<mapsto> new_CFileContext)\<rparr>)
      \<and> heap_next s \<notin> set (role_lists (?s\<lparr>files := (files ?s)(heap_next s \<mapsto> new_CFileContext)\<rparr>))"
    by (simp add: role_lists_def)
  show ?thesis
    unfolding OnCreateFile_def
    using ok new
    by (auto simp: Let_def
        intro!: wlp_mono [OF unlisted.I_parse_file_name [where p = "heap_next s"]]
          wlp_mono [OF lists_insert_subscription [where p = "heap_next s"]] lists_ok_log lists_ok_free
          wlp_mono [OF unlisted.I_CFileContext_delete [where p = "heap_next s" and Q = lists_ok]]
          unlisted.I_wait_for_receive)
qed

lemma lists_OnCloseFile:
  assumes "lists_ok s"
  shows "wlp (OnCloseFile env (wait_for_receive env) f s) (\<lambda>_. lists_ok)"
proof -
  have "wlp (CFileContext_delete env (wait_for_receive env) p s) (\<lambda>_. lists_ok)"
    if "lists_ok s \<and> p \<notin> set (role_lists s)" for p s
    using that by (intro unlisted.I_CFileContext_delete [where p = p]) (auto intro!: unlisted.I_wait_for_receive lists_ok_free)
  then show ?thesis
    using assms
    by (auto simp: OnCloseFile_def split: option.split prod.split intro!: wlp_mono [OF lists_unlink_file])
qed

section \<open>Steps of the driver\<close>

text \<open>
  A request that arrives is new to the driver.  A receive thread runs from the submission of its
  work item to the return of its callback; \<open>receive\<close> is one message of its loop, \<open>receive_end\<close> its
  run from there to the end.
\<close>

inductive nfp_step :: "nfp_env \<Rightarrow> nfp \<Rightarrow> nfp \<Rightarrow> bool" for env where
  create: "fresh_request r (req_abs s) \<Longrightarrow> OnCreateFile env (wait_for_receive env) r f s = Some (u, s')
    \<Longrightarrow> nfp_step env s s'"
| ioctl: "fresh_request r (req_abs s) \<Longrightarrow> OnDeviceIoControl env r code s = Some (u, s')
    \<Longrightarrow> nfp_step env s s'"
| cancel: "OnCancel env r s = Some (u, s') \<Longrightarrow> nfp_step env s s'"
| close: "OnCloseFile env (wait_for_receive env) f s = Some (u, s') \<Longrightarrow> nfp_step env s s'"
| accept: "CMyQueue_ValidateAccept env sock pkt s = Some (u, s') \<Longrightarrow> nfp_step env s s'"
| receive: "conns s p = Some c \<Longrightarrow> recv_active c \<Longrightarrow> ws_recv env (calls s) (conn_Socket c) = Some m
    \<Longrightarrow> HandleReceivedMessage env m (log_call (RecvMessage (conn_Socket c)) s) = Some (u, s')
    \<Longrightarrow> nfp_step env s s'"
| receive_end: "conns s p = Some c \<Longrightarrow> recv_active c
    \<Longrightarrow> s_ReceiveThreadProc env (receive_callbacks env) p s = Some (u, s') \<Longrightarrow> nfp_step env s s'"
| thread: "nfp_step env s (s\<lparr>cur_thread := t\<rparr>)"

inductive nfp_reachable :: "nfp_env \<Rightarrow> nfp \<Rightarrow> bool" for env where
  start: "nfp_reachable env (new_CMyQueue t)"
| step: "nfp_reachable env s \<Longrightarrow> nfp_step env s s' \<Longrightarrow> nfp_reachable env s'"

inductive_cases nfp_stepE: "nfp_step env s s'"

lemma new_CMyQueue_ok: "lists_ok (new_CMyQueue t)" "protocol_ok (req_abs (new_CMyQueue t))"
  by (simp_all add: new_CMyQueue_def lists_ok_def heap_ok_def contexts_ok_def role_list_def protocol_ok_def
      req_abs_def pended_def)

lemma nfp_step_lists: "nfp_step env s s' \<Longrightarrow> lists_ok s \<Longrightarrow> lists_ok s'"
proof (erule nfp_stepE)
qed (auto dest: wlpD [OF lists_OnCreateFile] wlpD [OF lists_OnDeviceIoControl] wlpD [OF lists.I_OnCancel]
    wlpD [OF lists_OnCloseFile] wlpD [OF lists.I_CMyQueue_ValidateAccept]
    wlpD [OF lists.I_HandleReceivedMessage [OF lists_ok_log]] wlpD [OF lists.I_s_ReceiveThreadProc]
    intro: lists_ok_same)

text \<open>Closing a handle completes its request, or gives it up when it is already being cancelled.\<close>

definition gives_up :: "rstate \<Rightarrow> rstate \<Rightarrow> bool" where
  "gives_up a b \<longleftrightarrow> (\<exists>c p. completes a c \<and> b = ((fst c)(p := None), snd c))"

lemma gives_up_ok: "gives_up a b \<Longrightarrow> protocol_ok a \<Longrightarrow> protocol_ok b"
  unfolding gives_up_def by (auto dest!: completes_ok simp: protocol_ok_def split: if_splits)

lemma req_abs_free: "req_abs (s\<lparr>files := (files s)(p := None)\<rparr>) = ((fst (req_abs s))(p := None), snd (req_abs s))"
  by (auto simp: req_abs_def pended_def fun_eq_iff)

lemma gives_up_free:
  "completes a (req_abs s) \<Longrightarrow> gives_up a (req_abs (s\<lparr>files := (files s)(p := None)\<rparr>))"
  unfolding gives_up_def req_abs_free by blast

lemma OnCloseFile_gives_up:
  "wlp (OnCloseFile env (wait_for_receive env) f s)
     (\<lambda>_ s'. completes (req_abs s) (req_abs s') \<or> gives_up (req_abs s) (req_abs s'))"
proof -
  have delete: "wlp (CFileContext_delete env (wait_for_receive env) p s') (\<lambda>_ s'. gives_up (req_abs s) (req_abs s'))"
    if "completes (req_abs s) (req_abs s')" for p s'
    using that by (rule closing.I_CFileContext_delete [where a = "req_abs s" and p = p])
      (erule pre_serve.I_wait_for_receive gives_up_free)+
  then show ?thesis
    by (auto simp: OnCloseFile_def split: option.split prod.split
        intro!: wlp_mono [OF completes_unlink_file [where a = "req_abs s"]] wlp_mono [OF delete])
qed

lemma completes_receive_end:
  "wlp (s_ReceiveThreadProc env (receive_callbacks env) p s) (\<lambda>_ s'. completes (req_abs s) (req_abs s'))"
  by (rule pre_serve.I_s_ReceiveThreadProc) simp

lemma completes_accept:
  "wlp (CMyQueue_ValidateAccept env sock pkt s) (\<lambda>_ s'. completes (req_abs s) (req_abs s'))"
  by (rule pre_serve.I_CMyQueue_ValidateAccept) simp

lemma completes_cancel: "wlp (OnCancel env r s) (\<lambda>_ s'. completes (req_abs s) (req_abs s'))"
  by (rule pre_serve.I_OnCancel) simp

lemma completes_receive:
  "wlp (HandleReceivedMessage env m (log_call (RecvMessage sock) s)) (\<lambda>_ s'. completes (req_abs s) (req_abs s'))"
  by (rule pre_serve.I_HandleReceivedMessage) (simp add: req_abs_log)

lemma nfp_step_protocol:
  assumes "nfp_step env s s'" and "lists_ok s" and "protocol_ok (req_abs s)"
  shows "protocol_ok (req_abs s')"
proof -
  have heap: "heap_ok s" using assms(2) by (simp add: lists_ok_def)
  have finished: "protocol_ok (req_abs s')" if "completes (req_abs s) (req_abs s')"
    using that assms(3) by (rule completes_ok)
  have served: "protocol_ok (req_abs s')" if "handled r (req_abs s) (req_abs s')" "fresh_request r (req_abs s)" for r
    using handled_ok that assms(3) by blast
  from assms(1) show ?thesis
  proof cases
    case (create r f u)
    then show ?thesis using served wlpD [OF OnCreateFile_handles [OF heap]] by blast
  next
    case (ioctl r code u)
    then show ?thesis using served wlpD [OF OnDeviceIoControl_handled] by blast
  next
    case (cancel r u)
    then show ?thesis using finished wlpD [OF completes_cancel] by blast
  next
    case (close f u)
    then show ?thesis using finished gives_up_ok assms(3) wlpD [OF OnCloseFile_gives_up] by blast
  next
    case (accept sock pkt u)
    then show ?thesis using finished wlpD [OF completes_accept] by blast
  next
    case (receive p c m u)
    then show ?thesis using finished wlpD [OF completes_receive] by blast
  next
    case (receive_end p c u)
    then show ?thesis using finished wlpD [OF completes_receive_end] by blast
  next
    case (thread t)
    then show ?thesis using assms(3) by simp
  qed
qed

lemma nfp_reachable_ok: "nfp_reachable env s \<Longrightarrow> lists_ok s \<and> protocol_ok (req_abs s)"
proof (induction rule: nfp_reachable.induct)
  case (step s s')
  then show ?case using nfp_step_lists nfp_step_protocol by blast
qed (simp add: new_CMyQueue_ok)

end
