(* ===== verification/NfpSafety.thy ===== *)
theory NfpSafety
  imports NfpSystem
begin

text \<open>
  Absence of faults.  An operation of the model is \<open>None\<close> when the code would dereference a null or
  dead pointer, read or write a buffer out of bounds, fail an assertion or wait for ever; the
  lemmas here show, with the total transformer \<open>wp\<close>, that the message path and the request path of a
  reachable driver do none of this, and that they leave the locks and the lists as they found them.
\<close>

section \<open>Frames and locks\<close>

text \<open>What the operations on a context leave as it was.\<close>

definition same_frame :: "nfp \<Rightarrow> nfp \<Rightarrow> bool" where
  "same_frame s s' \<longleftrightarrow> locks s' = locks s \<and> cur_thread s' = cur_thread s
     \<and> m_SubsHead s' = m_SubsHead s \<and> m_ArrivalSubsHead s' = m_ArrivalSubsHead s
     \<and> m_DepartureSubsHead s' = m_DepartureSubsHead s \<and> m_PubsHead s' = m_PubsHead s
     \<and> m_ConnectionHead s' = m_ConnectionHead s \<and> conns s' = conns s
     \<and> (\<forall>p. map_option m_Role (files s' p) = map_option m_Role (files s p)
           \<and> map_option m_pszType (files s' p) = map_option m_pszType (files s p))"

lemma same_frame_refl [simp]: "same_frame s s"
  by (simp add: same_frame_def)

lemma same_frame_trans [trans]: "same_frame s t \<Longrightarrow> same_frame t u \<Longrightarrow> same_frame s u"
  by (simp add: same_frame_def)

lemma same_frame_log [simp]: "same_frame s (log_call x t) = same_frame s t"
  by (simp add: same_frame_def)

lemma same_frame_heap [simp]: "same_frame s (t\<lparr>heap_next := n\<rparr>) = same_frame s t"
  by (simp add: same_frame_def)

lemma same_frame_upd:
  "same_frame s t \<Longrightarrow> (\<And>c. m_Role (f c) = m_Role c) \<Longrightarrow> (\<And>c. m_pszType (f c) = m_pszType c) \<Longrightarrow>
   same_frame s (upd_file p f t)"
  by (auto simp: same_frame_def option.map_comp comp_def)

lemma same_frame_new: "operator_new env t = (x, t') \<Longrightarrow> same_frame s t' = same_frame s t"
  by (auto simp: operator_new_def Let_def split: if_splits)

lemma same_frame_live: "same_frame s t \<Longrightarrow> files s p = Some c \<Longrightarrow> \<exists>c'. files t p = Some c' \<and> m_Role c' = m_Role c"
  by (auto simp: same_frame_def) (metis option.simps(9) map_option_eq_Some)

text \<open>A lock the running thread can take: it is free, or the thread already owns it.\<close>

definition can_lock :: "nfp \<Rightarrow> lock \<Rightarrow> bool" where
  "can_lock s l \<longleftrightarrow> (case locks s l of None \<Rightarrow> True | Some (t, n) \<Rightarrow> t = cur_thread s \<and> 0 < n)"

lemma can_lock_frame: "same_frame s t \<Longrightarrow> can_lock t l = can_lock s l"
  by (auto simp: can_lock_def same_frame_def split: option.splits)

definition entered :: "lock \<Rightarrow> nfp \<Rightarrow> nfp" where
  "entered l s = s\<lparr>locks := (locks s)(l \<mapsto>
     (cur_thread s, case locks s l of None \<Rightarrow> 1 | Some (t, n) \<Rightarrow> Suc n))\<rparr>"

lemma wp_Enter: "can_lock s l \<Longrightarrow> wp (EnterCriticalSection l s) (\<lambda>_. Q) \<longleftrightarrow> Q (entered l s)"
  by (auto simp: EnterCriticalSection_def entered_def can_lock_def split: option.splits)

lemma entered_can_lock [simp]: "can_lock s l \<Longrightarrow> can_lock (entered l s) k = can_lock s k"
  by (auto simp: entered_def can_lock_def split: option.splits)

lemma entered_simps [simp]:
  "files (entered l s) = files s" "conns (entered l s) = conns s" "calls (entered l s) = calls s"
  "m_SubsHead (entered l s) = m_SubsHead s" "m_ArrivalSubsHead (entered l s) = m_ArrivalSubsHead s"
  "m_DepartureSubsHead (entered l s) = m_DepartureSubsHead s" "m_PubsHead (entered l s) = m_PubsHead s"
  "m_ConnectionHead (entered l s) = m_ConnectionHead s" "cur_thread (entered l s) = cur_thread s"
  by (simp_all add: entered_def)

text \<open>
  The rules carry the frame along: \<open>s\<^sub>0\<close> is the state a handler started in.  A body that leaves the
  locks alone can be wrapped into a critical section.
\<close>

lemma wp_Leave:
  assumes "same_frame (entered l s) t" and "can_lock s l" and "same_frame s\<^sub>0 s"
  shows "wp (LeaveCriticalSection l t) (\<lambda>_. same_frame s\<^sub>0)"
  using assms
  by (auto simp: LeaveCriticalSection_def same_frame_def entered_def can_lock_def fun_upd_idem_iff split: option.splits)

section \<open>Operations on one context\<close>

lemma wp_CompleteRequest:
  "same_frame s\<^sub>0 s \<Longrightarrow> files s p \<noteq> None \<Longrightarrow> wp (CompleteRequest env p hr n b s) (\<lambda>_. same_frame s\<^sub>0)"
  by (auto simp: CompleteRequest_def Let_def split: option.splits intro!: same_frame_upd)

lemma wp_CompleteOne:
  assumes "same_frame s\<^sub>0 s" and "files s p = Some c" and "m_pWdfRequest c \<noteq> None"
    and "\<And>b. pb = Some b \<Longrightarrow> unat cb \<le> length b"
  shows "wp (CompleteOneGetNextSubscribedMessage env p cb pb s) (\<lambda>_. same_frame s\<^sub>0)"
  using assms
  by (auto simp: CompleteOneGetNextSubscribedMessage_def Let_def DRIVER_ASSERT_def split: option.splits
      intro!: wp_mono [OF wp_CompleteRequest] same_frame_upd)

text \<open>Comparisons of terminated strings are defined.\<close>

lemma CompareStringOrdinal_terminated:
  "typed x \<Longrightarrow> typed y \<Longrightarrow> \<exists>b. CompareStringOrdinal up x (-1) y (-1) ic = Some b"
  by (auto simp: CompareStringOrdinal_def typed_def counted_def split: option.splits)

lemma CompareStringOrdinal_counted:
  "nat n \<le> length b \<Longrightarrow> 0 \<le> n \<Longrightarrow> typed y \<Longrightarrow> \<exists>r. CompareStringOrdinal up (Some b) n y (-1) ic = Some r"
  by (auto simp: CompareStringOrdinal_def typed_def counted_def split: option.splits)

lemma typed_literal: "typed (Some WINDOWSMIME_PROTOCOL)"
  by (simp add: typed_def WINDOWSMIME_PROTOCOL_def wstr_def)

lemma wstr_drop:
  assumes "wstr b = Some x" and "n \<le> length x"
  shows "wstr (drop n b) = Some (drop n x)"
proof -
  obtain r where b: "b = x @ 0 # r" and x: "0 \<notin> set x" using wstr_Some [OF assms(1)] by blast
  have "0 \<notin> set (drop n x)" using x by (meson in_set_dropD)
  then show ?thesis using b assms(2) wstr_terminated [of "drop n x" r] by simp
qed

lemma wp_mime_payload:
  assumes "same_frame s\<^sub>0 s" and "wstr t = Some x" and "WINDOWSMIME_PROTOCOL_CHARS < length x"
    and "unat cb \<le> length pb" and "unat cb \<le> MaxCbPayload"
  shows "wp (mime_payload env t cb pb s) (\<lambda>y s'. same_frame s\<^sub>0 s' \<and> files s' = files s \<and>
    (\<forall>n d. y = Some (n, d) \<longrightarrow> unat n \<le> length d))"
proof -
  have size: "unat (cb + of_nat MaxCchMimeType) = unat cb + MaxCchMimeType"
    using assms(5) by (subst unat_add_lem [THEN iffD1]) (simp_all add: MaxCbPayload_def MaxCchMimeType_def)
  have "wstr (drop (WINDOWSMIME_PROTOCOL_CHARS + 1) t) = Some (drop (WINDOWSMIME_PROTOCOL_CHARS + 1) x)"
    using assms(2,3) by (intro wstr_drop) simp_all
  then show ?thesis
    using assms(1,4) size
    by (cases "operator_new env s")
      (auto simp: mime_payload_def Let_def CopyMemory_def same_frame_new dest: operator_new_files split: option.splits)
qed

lemma wp_match_publication:
  assumes "same_frame s\<^sub>0 s" and "typed st" and "wstr t \<noteq> None"
    and "unat cb \<le> length pb" and "unat cb \<le> MaxCbPayload"
  shows "wp (match_publication env st t cb pb s) (\<lambda>y s'. same_frame s\<^sub>0 s' \<and> files s' = files s \<and>
    (\<forall>n d. y = Some (n, d) \<longrightarrow> unat n \<le> length d))"
proof -
  obtain x where x: "wstr t = Some x" using assms(3) by blast
  obtain all where all: "CompareStringOrdinal (upcase env) st (-1) (Some WINDOWSMIME_PROTOCOL) (-1) False = Some all"
    using CompareStringOrdinal_terminated [OF assms(2) typed_literal] by blast
  obtain eq where eq: "CompareStringOrdinal (upcase env) (Some t) (-1) st (-1) False = Some eq"
    using CompareStringOrdinal_terminated [of "Some t" st] assms(2,3) by (auto simp: typed_def)
  have mime: "\<exists>r. CompareStringOrdinal (upcase env) (Some t) (int WINDOWSMIME_PROTOCOL_CHARS)
      (Some WINDOWSMIME_PROTOCOL) (-1) False = Some r" if "WINDOWSMIME_PROTOCOL_CHARS < length x"
    using wstr_length [OF x] that by (intro CompareStringOrdinal_counted typed_literal) simp_all
  have direct: "wp (match_publication env st t cb pb s) (\<lambda>y s'. same_frame s\<^sub>0 s' \<and> files s' = files s \<and>
      (\<forall>n d. y = Some (n, d) \<longrightarrow> unat n \<le> length d))"
    if "\<not> (all \<and> WINDOWSMIME_PROTOCOL_CHARS < length x)"
    using that all eq x assms(1,4) by (cases all) (auto simp: match_publication_def)
  show ?thesis
  proof (cases "all \<and> WINDOWSMIME_PROTOCOL_CHARS < length x")
    case True
    then obtain r where "CompareStringOrdinal (upcase env) (Some t) (int WINDOWSMIME_PROTOCOL_CHARS)
      (Some WINDOWSMIME_PROTOCOL) (-1) False = Some r" using mime by blast
    then show ?thesis
      using True all eq x assms(1,4) wp_mime_payload [OF assms(1) x _ assms(4,5)]
      by (cases r) (simp_all add: match_publication_def)
  qed (rule direct)
qed

lemma wp_CMyPayload_Initialize:
  assumes "same_frame s\<^sub>0 s" and "unat cb \<le> length pb"
  shows "wp (CMyPayload_Initialize env cb (Some pb) y s) (\<lambda>_. same_frame s\<^sub>0)"
proof (cases "operator_new env s")
  case (Pair x s')
  with assms have "same_frame s\<^sub>0 s'" by (simp add: same_frame_new)
  with Pair assms(2) show ?thesis
    by (cases x) (simp_all add: CMyPayload_Initialize_def CopyMemory_def)
qed

lemma wp_enqueue_payload:
  assumes "same_frame s\<^sub>0 s" and "unat cb \<le> length pb"
  shows "wp (enqueue_payload env p cb pb s) (\<lambda>_. same_frame s\<^sub>0)"
proof (cases "operator_new env s")
  case (Pair x s')
  with assms have s': "same_frame s\<^sub>0 s'" by (simp add: same_frame_new)
  show ?thesis
  proof (cases x)
    case (Some q)
    then show ?thesis
      using Pair by (auto simp: enqueue_payload_def intro!: same_frame_upd
          wp_mono [OF wp_CMyPayload_Initialize [OF s' assms(2)]])
  qed (use Pair s' in \<open>simp add: enqueue_payload_def\<close>)
qed

lemma wp_deliver_or_queue:
  assumes "same_frame s\<^sub>0 s" and "files s p \<noteq> None" and "unat n \<le> length d"
  shows "wp (deliver_or_queue env p n d s) (\<lambda>_. same_frame s\<^sub>0)"
proof -
  obtain c where c: "files s p = Some c" using assms(2) by blast
  have queue: "wp (files s1 p \<bind> (\<lambda>c. if \<not> fDelivered \<and> m_dwQueueSize c < MAX_MESSAGE_QUEUE_SIZE
      then enqueue_payload env p n d s1 else Some ((), s1))) (\<lambda>_. same_frame s\<^sub>0)"
    if frame: "same_frame s s1" for s1 fDelivered
  proof -
    obtain c' where "files s1 p = Some c'" using same_frame_live [OF frame c] by blast
    moreover have "same_frame s\<^sub>0 s1" using assms(1) frame by (rule same_frame_trans)
    ultimately show ?thesis using assms(3) by (simp add: wp_enqueue_payload)
  qed
  have deliver: "wp (if m_pWdfRequest c \<noteq> None
      then CompleteOneGetNextSubscribedMessage env p n (Some d) s else Some (False, s)) (\<lambda>_. same_frame s)"
    using c assms(3) by (auto intro!: wp_CompleteOne)
  show ?thesis
    unfolding deliver_or_queue_def c bind.bind_lunit wp_bind prod.case
    by (rule wp_mono [OF deliver]) (rule queue)
qed

lemma wp_HandleReceivedPublication:
  assumes "same_frame s\<^sub>0 s" and "files s p = Some c" and "m_Role c = ROLE_SUBSCRIPTION" and "context_ok c"
    and "can_lock s (RoleLock p)" and "wstr t \<noteq> None" and "unat cb \<le> length pb" and "unat cb \<le> MaxCbPayload"
  shows "wp (HandleReceivedPublication env p t cb pb s) (\<lambda>_. same_frame s\<^sub>0)"
proof -
  let ?s = "entered (RoleLock p) s"
  have leave: "wp (LeaveCriticalSection (RoleLock p) s1) (\<lambda>_. same_frame s\<^sub>0)" if "same_frame ?s s1" for s1
    using that assms(5,1) by (rule wp_Leave)
  have "wp (match_publication env (m_pszType c) t cb pb ?s) (\<lambda>y s'. same_frame ?s s' \<and> files s' = files ?s \<and>
      (\<forall>n d. y = Some (n, d) \<longrightarrow> unat n \<le> length d))"
    using assms by (intro wp_match_publication) (auto simp: context_ok_def)
  then show ?thesis
    using assms(2,3,5) leave
    by (auto simp: HandleReceivedPublication_def DRIVER_ASSERT_def wp_Enter split: option.split
        elim!: wp_mono intro!: wp_mono [OF wp_deliver_or_queue])
qed

lemma wp_CompleteOneArrivalEvent:
  assumes "same_frame s\<^sub>0 s" and "files s p = Some c" and "m_Role c = ROLE_ARRIVEDSUBSCRIPTION" and "can_lock s (RoleLock p)"
  shows "wp (CompleteOneArrivalEvent env p s) (\<lambda>_. same_frame s\<^sub>0)"
  using assms
  by (auto simp: CompleteOneArrivalEvent_def DRIVER_ASSERT_def wp_Enter Let_def dword_bytes_def
      intro!: wp_mono [OF wp_CompleteOne [where s\<^sub>0 = "entered (RoleLock p) s"]] same_frame_upd wp_Leave)

lemma wp_CompleteOneRemovalEvent:
  assumes "same_frame s\<^sub>0 s" and "files s p = Some c" and "m_Role c = ROLE_DEPARTEDSUBSCRIPTION" and "can_lock s (RoleLock p)"
  shows "wp (CompleteOneRemovalEvent env p s) (\<lambda>_. same_frame s\<^sub>0)"
  using assms
  by (auto simp: CompleteOneRemovalEvent_def DRIVER_ASSERT_def wp_Enter Let_def dword_bytes_def
      intro!: wp_mono [OF wp_CompleteOne [where s\<^sub>0 = "entered (RoleLock p) s"]] same_frame_upd wp_Leave)

lemma wp_HandleArrivalEvent:
  assumes "same_frame s\<^sub>0 s" and "files s p = Some c" and "m_Role c = ROLE_ARRIVEDSUBSCRIPTION" and "can_lock s (RoleLock p)"
  shows "wp (HandleArrivalEvent env p s) (\<lambda>_. same_frame s\<^sub>0)"
proof -
  let ?s = "entered (RoleLock p) s" and ?t = "upd_file p (m_cCompleteReady_update Suc) (entered (RoleLock p) s)"
  have t: "same_frame ?s ?t" by (rule same_frame_upd) simp_all
  show ?thesis
    using assms t can_lock_frame [OF t, of "RoleLock p"]
    by (auto simp: HandleArrivalEvent_def DRIVER_ASSERT_def wp_Enter
        intro!: wp_mono [OF wp_CompleteOneArrivalEvent [OF t]] wp_Leave)
qed

lemma wp_HandleRemovalEvent:
  assumes "same_frame s\<^sub>0 s" and "files s p = Some c" and "m_Role c = ROLE_DEPARTEDSUBSCRIPTION" and "can_lock s (RoleLock p)"
  shows "wp (HandleRemovalEvent env p s) (\<lambda>_. same_frame s\<^sub>0)"
proof -
  let ?s = "entered (RoleLock p) s" and ?t = "upd_file p (m_cCompleteReady_update Suc) (entered (RoleLock p) s)"
  have t: "same_frame ?s ?t" by (rule same_frame_upd) simp_all
  show ?thesis
    using assms t can_lock_frame [OF t, of "RoleLock p"]
    by (auto simp: HandleRemovalEvent_def DRIVER_ASSERT_def wp_Enter
        intro!: wp_mono [OF wp_CompleteOneRemovalEvent [OF t]] wp_Leave)
qed

lemma wp_HandleMessageTransmitted:
  assumes "same_frame s\<^sub>0 s" and "files s p = Some c" and "m_Role c = ROLE_PUBLICATION" and "can_lock s (RoleLock p)"
  shows "wp (HandleMessageTransmitted env p s) (\<lambda>_. same_frame s\<^sub>0)"
  using assms
  by (auto simp: HandleMessageTransmitted_def DRIVER_ASSERT_def wp_Enter Let_def
      intro!: wp_mono [OF wp_CompleteRequest [where s\<^sub>0 = "entered (RoleLock p) s"]] same_frame_upd wp_Leave)

lemma wp_Disable:
  assumes "same_frame s\<^sub>0 s" and "files s p = Some c" and "can_lock s (RoleLock p)"
  shows "wp (Disable env p s) (\<lambda>_. same_frame s\<^sub>0)"
  using assms
  by (auto simp: Disable_def wp_Enter Let_def
      intro!: wp_mono [OF wp_CompleteRequest [where s\<^sub>0 = "entered (RoleLock p) s"]] same_frame_upd wp_Leave)

lemma wp_Enable:
  assumes "same_frame s\<^sub>0 s" and "files s p = Some c" and "can_lock s (RoleLock p)"
  shows "wp (Enable p s) (\<lambda>_. same_frame s\<^sub>0)"
  using assms by (auto simp: Enable_def wp_Enter Let_def intro!: same_frame_upd wp_Leave)

lemma wp_FileContext_OnCancel:
  assumes "same_frame s\<^sub>0 s" and "files s p = Some c" and "can_lock s (RoleLock p)"
  shows "wp (FileContext_OnCancel env p s) (\<lambda>_. same_frame s\<^sub>0)"
  using assms
  by (auto simp: FileContext_OnCancel_def wp_Enter
      intro!: wp_mono [OF wp_CompleteRequest [where s\<^sub>0 = "entered (RoleLock p) s"]] wp_Leave)

section \<open>Loops over the lists\<close>

lemma lists_ok_entered: "lists_ok s \<Longrightarrow> lists_ok (entered l s)"
  by (simp add: entered_def lists_ok_locks)

text \<open>
  A handler that walks one of the lists of contexts under the lock of the subscriptions: when the
  operation on one element is safe in every state that looks like the first, so is the walk.
\<close>

lemma wp_walk:
  assumes ok: "lists_ok s" and can: "can_lock s SubsLock"
    and elem: "\<And>p t. p \<in> set ps \<Longrightarrow> same_frame (entered SubsLock s) t \<Longrightarrow> lists_ok t \<Longrightarrow>
      wp (f p t) (\<lambda>_. same_frame (entered SubsLock s))"
    and lists: "\<And>p t. lists_ok t \<Longrightarrow> wlp (f p t) (\<lambda>_. lists_ok)"
  shows "wp (for_each f ps (entered SubsLock s)) (\<lambda>_ t. wp (LeaveCriticalSection SubsLock t) (\<lambda>_ s'. same_frame s s' \<and> lists_ok s'))"
proof -
  have "wp (for_each f ps (entered SubsLock s)) (\<lambda>_ t. same_frame (entered SubsLock s) t \<and> lists_ok t)"
    using ok by (intro wp_for_each) (auto intro!: wp_wlp elem lists lists_ok_entered)
  then show ?thesis
    using can by (auto elim!: wp_mono intro!: wp_wlp wp_Leave lists.I_Leave)
qed

lemma listed_live:
  assumes "lists_ok s" and "same_frame s t" and "role_list ro s ps" and "p \<in> set ps"
  obtains c where "files t p = Some c" and "m_Role c = ro"
proof -
  obtain c where "files s p = Some c" "m_Role c = ro"
    using assms(3,4) by (auto simp: role_list_def live_role_def split: option.splits)
  then show thesis using same_frame_live [OF assms(2)] that by metis
qed

text \<open>The running thread can take the lock of every context in a list.\<close>

definition can_lock_all :: "nfp \<Rightarrow> fid list \<Rightarrow> bool" where
  "can_lock_all s ps \<longleftrightarrow> can_lock s SubsLock \<and> (\<forall>p \<in> set ps. can_lock s (RoleLock p))"

lemma can_lock_walk:
  assumes "can_lock_all s ps" and "same_frame (entered SubsLock s) t" and "p \<in> set ps"
  shows "can_lock t (RoleLock p)"
  using assms can_lock_frame [OF assms(2), of "RoleLock p"] by (simp add: can_lock_all_def)

lemma wp_walk_role:
  assumes ok: "lists_ok s" and can: "can_lock_all s (h s)" and ps: "role_list ro s (h s)"
    and head: "h (entered SubsLock s) = h s"
    and elem: "\<And>p t c s\<^sub>0. same_frame s\<^sub>0 t \<Longrightarrow> files t p = Some c \<Longrightarrow> m_Role c = ro \<Longrightarrow> context_ok c \<Longrightarrow>
      can_lock t (RoleLock p) \<Longrightarrow> wp (f p t) (\<lambda>_. same_frame s\<^sub>0)"
    and lists: "\<And>p t. lists_ok t \<Longrightarrow> wlp (f p t) (\<lambda>_. lists_ok)"
  shows "wp (do { (_, s) \<leftarrow> EnterCriticalSection SubsLock s; (_, s) \<leftarrow> for_each f (h s) s; LeaveCriticalSection SubsLock s })
    (\<lambda>_ s'. same_frame s s' \<and> lists_ok s')"
proof -
  have lock: "can_lock s SubsLock" using can by (simp add: can_lock_all_def)
  have "wp (f p t) (\<lambda>_. same_frame (entered SubsLock s))"
    if p: "p \<in> set (h s)" and t: "same_frame (entered SubsLock s) t" and "lists_ok t" for p t
  proof -
    have "role_list ro (entered SubsLock s) (h s)" using ps by (simp add: entered_def)
    then obtain c where c: "files t p = Some c" "m_Role c = ro"
      using listed_live [OF lists_ok_entered [OF ok] t _ p] by blast
    then have "context_ok c" using lists_ok_context [OF \<open>lists_ok t\<close>] by blast
    with c show ?thesis using elem [OF t] can_lock_walk [OF can t p] by blast
  qed
  then show ?thesis
    unfolding wp_bind prod.case wp_Enter [OF lock] head by (intro wp_walk ok lock lists)
qed

lemma wp_AddArrivalEvent:
  "lists_ok s \<Longrightarrow> can_lock_all s (m_ArrivalSubsHead s) \<Longrightarrow>
   wp (AddArrivalEvent env s) (\<lambda>_ s'. same_frame s s' \<and> lists_ok s')"
  unfolding AddArrivalEvent_def
  by (rule wp_walk_role [where h = m_ArrivalSubsHead and ro = ROLE_ARRIVEDSUBSCRIPTION])
    (auto simp: lists_ok_def intro!: wp_HandleArrivalEvent wlp_mono [OF lists.I_HandleArrivalEvent])

lemma wp_AddRemovalEvent:
  "lists_ok s \<Longrightarrow> can_lock_all s (m_DepartureSubsHead s) \<Longrightarrow>
   wp (AddRemovalEvent env s) (\<lambda>_ s'. same_frame s s' \<and> lists_ok s')"
  unfolding AddRemovalEvent_def
  by (rule wp_walk_role [where h = m_DepartureSubsHead and ro = ROLE_DEPARTEDSUBSCRIPTION])
    (auto simp: lists_ok_def intro!: wp_HandleRemovalEvent wlp_mono [OF lists.I_HandleRemovalEvent])

text \<open>What the receive thread hands over: both arrays have the size of their declaration.\<close>

definition well_sized :: "MESSAGE \<Rightarrow> bool" where
  "well_sized m \<longleftrightarrow> length (m_szType m) = MaxCchTypeNetwork \<and> length (m_Payload m) = MaxCbPayload"

lemma wp_HandleReceivedMessage:
  assumes "lists_ok s" and "can_lock_all s (m_SubsHead s)" and "well_sized m" and "wstr (m_szType m) \<noteq> None"
  shows "wp (HandleReceivedMessage env m s) (\<lambda>_ s'. same_frame s s' \<and> lists_ok s')"
proof -
  have "wp (do { (_, s) \<leftarrow> EnterCriticalSection SubsLock s;
      (_, s) \<leftarrow> for_each (\<lambda>pSub. HandleReceivedPublication env pSub (m_szType m) (msg_cbPayload m) (m_Payload m)) (m_SubsHead s) s;
      LeaveCriticalSection SubsLock s }) (\<lambda>_ s'. same_frame s s' \<and> lists_ok s')"
    if "unat (msg_cbPayload m) \<le> MaxCbPayload"
    using assms that
    by (intro wp_walk_role [where h = m_SubsHead and ro = ROLE_SUBSCRIPTION])
      (auto simp: lists_ok_def well_sized_def intro!: wp_HandleReceivedPublication lists.I_HandleReceivedPublication)
  then show ?thesis
    using assms(1) unfolding HandleReceivedMessage_def by simp
qed

end
