(* ===== verification/NfpDelivery.thy ===== *)
theory NfpDelivery
  imports NfpSafety
begin

text \<open>
  What a subscription delivers.  A mailbox is its pended request and its queue of messages; with a
  framework that cooperates, the operations of \<open>CFileContext\<close> refine the obvious operations on
  mailboxes, down to the bytes copied into the output buffer.  The counter \<open>m_dwQueueSize\<close>, which
  limits the queue, is the length of the queue until the handle is disabled.
\<close>

section \<open>Mailboxes\<close>

record mailbox =
  mb_request :: "req option"
  mb_queue :: "payload list"

text \<open>A message arrives; a request for the next message arrives.  \<open>fits\<close> says whether a message fits.\<close>

definition mb_receive :: "(req \<Rightarrow> payload \<Rightarrow> bool) \<Rightarrow> payload \<Rightarrow> mailbox \<Rightarrow> mailbox" where
  "mb_receive fits y b =
     (case mb_request b of
        Some r \<Rightarrow> if fits r y then b\<lparr>mb_request := None\<rparr> else b\<lparr>mb_request := None, mb_queue := mb_queue b @ [y]\<rparr>
      | None \<Rightarrow> if length (mb_queue b) < 50 then b\<lparr>mb_queue := mb_queue b @ [y]\<rparr> else b)"

definition mb_get :: "(req \<Rightarrow> payload \<Rightarrow> bool) \<Rightarrow> req \<Rightarrow> mailbox \<Rightarrow> mailbox" where
  "mb_get fits r b =
     (case mb_queue b of
        [] \<Rightarrow> b\<lparr>mb_request := Some r\<rparr>
      | y # ys \<Rightarrow> if fits r y then b\<lparr>mb_queue := ys\<rparr> else b)"

definition mailbox_of :: "file_context \<Rightarrow> mailbox" where
  "mailbox_of c = \<lparr>mb_request = m_pWdfRequest c, mb_queue = m_SubscribedMessageQueue c\<rparr>"

text \<open>A message as it is handed over: its bytes are there and its size is that of the network or of a MIME message.\<close>

definition sendable :: "payload \<Rightarrow> bool" where
  "sendable y \<longleftrightarrow> (case m_pbPayload y of None \<Rightarrow> False | Some b \<Rightarrow> unat (m_cbPayload y) \<le> length b)
     \<and> unat (m_cbPayload y) \<le> MaxCbPayload + MaxCchMimeType"

definition mailbox_ok :: "file_context \<Rightarrow> bool" where
  "mailbox_ok c \<longleftrightarrow> unat (m_dwQueueSize c) = length (m_SubscribedMessageQueue c)
     \<and> length (m_SubscribedMessageQueue c) \<le> 50 \<and> (m_pWdfRequest c \<noteq> None \<longrightarrow> m_SubscribedMessageQueue c = [])
     \<and> (\<forall>y \<in> set (m_SubscribedMessageQueue c). sendable y)"

section \<open>A cooperating framework\<close>

definition cooperative :: "nfp_env \<Rightarrow> bool" where
  "cooperative env \<longleftrightarrow> (\<forall>cs. new_succeeds env cs) \<and> (\<forall>cs r n bs. CopyFromBuffer_hr env cs r n bs = S_OK)
     \<and> \<not> aborts env \<and> (\<forall>cs r. \<not> MarkCancelable_cancels env cs r) \<and> (\<forall>r. GetOutputMemory env r \<noteq> None)
     \<and> (\<forall>r. \<exists>m. GetInputMemory env r = Some m \<and> mem_buffer m = None)"

definition fits_output :: "nfp_env \<Rightarrow> req \<Rightarrow> payload \<Rightarrow> bool" where
  "fits_output env r y \<longleftrightarrow> (case GetOutputMemory env r of None \<Rightarrow> False
     | Some mem \<Rightarrow> unat (m_cbPayload y) + 4 \<le> mem_size mem)"

text \<open>The calls that answer a request, latest first: the size, the bytes, the completion.\<close>

definition reply :: "nfp_env \<Rightarrow> req \<Rightarrow> payload \<Rightarrow> fxcall list" where
  "reply env r y =
     (let hint = CopyFromBuffer r 0 (dword_bytes (m_cbPayload y)); data = take (unat (m_cbPayload y)) (the (m_pbPayload y)) in
      if fits_output env r y
      then [CompleteWithInformation r S_OK (4 + unat (m_cbPayload y)), UnmarkCancelable r, CopyFromBuffer r 4 data, hint]
      else [CompleteWithInformation r (HRESULT_FROM_NT STATUS_BUFFER_OVERFLOW) 4, UnmarkCancelable r, hint])"

definition answered :: "nfp_env \<Rightarrow> req \<Rightarrow> payload \<Rightarrow> file_context \<Rightarrow> file_context" where
  "answered env r y c = c\<lparr>m_pWdfRequest := None, m_dwQueueSize :=
     (if fits_output env r y \<and> m_dwQueueSize c > 0 then m_dwQueueSize c - 1 else m_dwQueueSize c)\<rparr>"

lemma sendable_size: "sendable y \<Longrightarrow> unat (m_cbPayload y + 4) = unat (m_cbPayload y) + 4"
  by (subst unat_add_lem [THEN iffD1]) (simp_all add: sendable_def MaxCbPayload_def MaxCchMimeType_def)

lemma upd_file_Some: "files s p = Some c \<Longrightarrow> upd_file p f s = s\<lparr>files := (files s)(p \<mapsto> f c)\<rparr>"
  by (simp add: upd_file_def)

lemma CompleteOne_reply:
  assumes env: "cooperative env" and c: "files s p = Some c" "m_pWdfRequest c = Some r" and y: "sendable y"
  shows "CompleteOneGetNextSubscribedMessage env p (m_cbPayload y) (m_pbPayload y) s =
    Some (fits_output env r y, s\<lparr>files := (files s)(p \<mapsto> answered env r y c), calls := reply env r y @ calls s\<rparr>)"
proof -
  obtain mem where mem: "GetOutputMemory env r = Some mem"
    using env unfolding cooperative_def by blast
  obtain b where b: "m_pbPayload y = Some b" "unat (m_cbPayload y) \<le> length b"
    using y by (auto simp: sendable_def split: option.splits)
  have ok: "CopyFromBuffer_hr env cs r' n bs = S_OK" "UnmarkCancelable_hr env cs r' \<noteq> HRESULT_FROM_WIN32 ERROR_OPERATION_ABORTED" for cs r' n bs
    using env by (simp_all add: cooperative_def aborts_def)
  show ?thesis
    using c mem b ok sendable_size [OF y]
    by (cases s; cases c) (simp add: CompleteOneGetNextSubscribedMessage_def DRIVER_ASSERT_def CompleteRequest_def Let_def
        fits_output_def reply_def answered_def upd_file_def log_call_def fun_upd_idem)
qed

text \<open>The copy of a message that a queue keeps.\<close>

definition copy_of :: "payload \<Rightarrow> payload" where
  "copy_of y = y\<lparr>m_pbPayload := map_option (take (unat (m_cbPayload y))) (m_pbPayload y)\<rparr>"

definition queued :: "payload \<Rightarrow> file_context \<Rightarrow> file_context" where
  "queued y c = c\<lparr>m_SubscribedMessageQueue := m_SubscribedMessageQueue c @ [copy_of y], m_dwQueueSize := m_dwQueueSize c + 1\<rparr>"

lemma enqueue_copy:
  assumes env: "cooperative env" and c: "files s p = Some c" and y: "sendable y" "m_pbPayload y = Some b"
  shows "enqueue_payload env p (m_cbPayload y) b s = Some ((), s\<lparr>files := (files s)(p \<mapsto> queued y c),
    heap_next := heap_next s + 2, calls := [OperatorNew, OperatorNew] @ calls s\<rparr>)"
proof -
  have new: "new_succeeds env cs" for cs using env by (simp add: cooperative_def)
  have copy: "copy_of y = new_CMyPayload\<lparr>m_pbPayload := Some (take (unat (m_cbPayload y)) b), m_cbPayload := m_cbPayload y\<rparr>"
    using y(2) by (cases y) (simp add: copy_of_def new_CMyPayload_def)
  have "unat (m_cbPayload y) \<le> length b" using y by (simp add: sendable_def)
  then show ?thesis
    using c new
    by (cases s; cases c) (simp add: enqueue_payload_def CMyPayload_Initialize_def operator_new_def CopyMemory_def upd_file_def
        log_call_def queued_def copy)
qed

lemma mailbox_of_simps [simp]:
  "mb_request (mailbox_of c) = m_pWdfRequest c" "mb_queue (mailbox_of c) = m_SubscribedMessageQueue c"
  by (simp_all add: mailbox_of_def)

lemma sendable_copy: "sendable y \<Longrightarrow> sendable (copy_of y)"
  by (auto simp: sendable_def copy_of_def split: option.splits)

lemma fits_copy [simp]: "fits_output env r (copy_of y) = fits_output env r y"
  by (simp add: fits_output_def copy_of_def split: option.split)

lemma queued_ok:
  assumes "mailbox_ok c" and "m_pWdfRequest c = None" and "m_dwQueueSize c < MAX_MESSAGE_QUEUE_SIZE" and "sendable y"
  shows "mailbox_ok (queued y c)"
proof -
  have "unat (m_dwQueueSize c) < 50"
    using assms(3) by (simp add: MAX_MESSAGE_QUEUE_SIZE_def word_less_nat_alt)
  then have "unat (m_dwQueueSize c + 1) = unat (m_dwQueueSize c) + 1"
    by (subst unat_add_lem [THEN iffD1]) simp_all
  then show ?thesis
    using assms \<open>unat (m_dwQueueSize c) < 50\<close> by (auto simp: mailbox_ok_def queued_def sendable_copy)
qed

lemma deliver_refines:
  assumes env: "cooperative env" and c: "files s p = Some c" "mailbox_ok c"
    and y: "sendable y" "m_pbPayload y = Some b"
  obtains s' c' k where "deliver_or_queue env p (m_cbPayload y) b s = Some ((), s')"
    and "files s' = (files s)(p \<mapsto> c')" and "mailbox_of c' = mb_receive (fits_output env) (copy_of y) (mailbox_of c)"
    and "mailbox_ok c'"
    and "calls s' = replicate k OperatorNew @ (case m_pWdfRequest c of None \<Rightarrow> [] | Some r \<Rightarrow> reply env r y) @ calls s"
proof (cases "m_pWdfRequest c")
  case None
  have limit: "m_dwQueueSize c < MAX_MESSAGE_QUEUE_SIZE \<longleftrightarrow> length (m_SubscribedMessageQueue c) < 50"
    using c(2) by (auto simp: mailbox_ok_def MAX_MESSAGE_QUEUE_SIZE_def word_less_nat_alt)
  show thesis
  proof (cases "m_dwQueueSize c < MAX_MESSAGE_QUEUE_SIZE")
    case True
    have "deliver_or_queue env p (m_cbPayload y) b s = Some ((), s\<lparr>files := (files s)(p \<mapsto> queued y c),
        heap_next := heap_next s + 2, calls := [OperatorNew, OperatorNew] @ calls s\<rparr>)"
      using None True c(1) by (simp add: deliver_or_queue_def enqueue_copy [OF env c(1) y])
    then show thesis
      by (rule that [where k = 2 and c' = "queued y c"])
        (use None True limit queued_ok [OF c(2) None True y(1)] in
          \<open>simp_all add: queued_def mailbox_of_def mb_receive_def numeral_2_eq_2\<close>)
  next
    case False
    have "deliver_or_queue env p (m_cbPayload y) b s = Some ((), s)"
      using None False c(1) by (simp add: deliver_or_queue_def)
    then show thesis
      by (rule that [where k = 0 and c' = c])
        (use None False c limit in \<open>simp_all add: mailbox_of_def mb_receive_def fun_upd_idem\<close>)
  qed
next
  case (Some r)
  let ?c = "answered env r y c"
  let ?s = "s\<lparr>files := (files s)(p \<mapsto> ?c), calls := reply env r y @ calls s\<rparr>"
  have empty: "m_SubscribedMessageQueue c = []" "m_dwQueueSize c = 0"
    using c(2) Some by (auto simp: mailbox_ok_def unat_eq_zero [symmetric] simp del: unat_eq_zero)
  have c': "mailbox_ok ?c" "m_pWdfRequest ?c = None" "m_dwQueueSize ?c < MAX_MESSAGE_QUEUE_SIZE"
    using empty by (simp_all add: mailbox_ok_def answered_def MAX_MESSAGE_QUEUE_SIZE_def)
  have run: "CompleteOneGetNextSubscribedMessage env p (m_cbPayload y) (Some b) s = Some (fits_output env r y, ?s)"
    using CompleteOne_reply [OF env c(1) Some y(1)] y(2) by simp
  show thesis
  proof (cases "fits_output env r y")
    case True
    have "deliver_or_queue env p (m_cbPayload y) b s = Some ((), ?s)"
      using True Some c(1) run by (simp add: deliver_or_queue_def)
    then show thesis
      by (rule that [where k = 0 and c' = ?c])
        (use True Some c' empty in \<open>simp_all add: answered_def mailbox_of_def mb_receive_def\<close>)
  next
    case False
    have f: "files ?s p = Some ?c" by simp
    have "deliver_or_queue env p (m_cbPayload y) b s = Some ((), ?s\<lparr>files := (files s)(p \<mapsto> queued y ?c),
        heap_next := heap_next s + 2, calls := [OperatorNew, OperatorNew] @ calls ?s\<rparr>)"
      using False Some c(1) c'(3) run enqueue_copy [OF env f y] by (simp add: deliver_or_queue_def)
    then show thesis
      by (rule that [where k = 2 and c' = "queued y ?c"])
        (use False Some empty queued_ok [OF c'(1,2,3) y(1)] in
          \<open>simp_all add: mailbox_of_def mb_receive_def queued_def answered_def numeral_2_eq_2\<close>)
  qed
qed

text \<open>A request for the next message, on an enabled subscription without a pended request.\<close>

lemma mark_cancelable_quiet:
  "cooperative env \<Longrightarrow> mark_cancelable env cancel r s = Some ((), log_call (MarkCancelable r) s)"
  by (simp add: mark_cancelable_def cooperative_def)

lemma critical_section:
  assumes "can_lock s l"
  shows "EnterCriticalSection l s = Some ((), entered l s)"
    and "locks t = locks (entered l s) \<Longrightarrow> cur_thread t = cur_thread s \<Longrightarrow>
      LeaveCriticalSection l t = Some ((), t\<lparr>locks := locks s\<rparr>)"
  using assms
  by (auto simp: can_lock_def EnterCriticalSection_def LeaveCriticalSection_def entered_def fun_upd_idem_iff
      split: option.splits)

lemma answered_keep_ok:
  "mailbox_ok c \<Longrightarrow> m_SubscribedMessageQueue c = y # ys \<Longrightarrow> \<not> fits_output env r y \<Longrightarrow>
   mailbox_ok (answered env r y (c\<lparr>m_pWdfRequest := Some r\<rparr>))"
  by (simp add: mailbox_ok_def answered_def)

lemma answered_pop_ok:
  assumes "mailbox_ok c" and "m_SubscribedMessageQueue c = y # ys" and "fits_output env r y"
  shows "mailbox_ok ((answered env r y (c\<lparr>m_pWdfRequest := Some r\<rparr>))\<lparr>m_SubscribedMessageQueue := ys\<rparr>)"
proof -
  have len: "unat (m_dwQueueSize c) = Suc (length ys)" using assms(1,2) unfolding mailbox_ok_def by simp
  then have pos: "m_dwQueueSize c \<noteq> 0" by auto
  have "unat (m_dwQueueSize c - 1) = unat (m_dwQueueSize c) - 1" by (rule unat_minus_one [OF pos])
  then have "unat (m_dwQueueSize c - 1) = length ys" unfolding len by simp
  moreover have "length ys \<le> 50" "\<forall>x \<in> set ys. sendable x" using assms(1,2) unfolding mailbox_ok_def by simp_all
  moreover have "0 < m_dwQueueSize c" using pos by (simp add: word_gt_0)
  ultimately show ?thesis
    using assms(3) unfolding mailbox_ok_def answered_def by simp
qed

lemma GetNext_refines:
  assumes env: "cooperative env" and c: "files s p = Some c" "mailbox_ok c"
    and sub: "m_Role c = ROLE_SUBSCRIPTION" "m_fEnabled c" "m_pWdfRequest c = None" and lock: "can_lock s (RoleLock p)"
  obtains s' c' where "GetNextSubscribedMessage env cancel p r s = Some (S_OK, s')"
    and "files s' = (files s)(p \<mapsto> c')" and "mailbox_of c' = mb_get (fits_output env) r (mailbox_of c)"
    and "mailbox_ok c'"
    and "calls s' = (case m_SubscribedMessageQueue c of [] \<Rightarrow> [] | y # ys \<Rightarrow> reply env r y) @ MarkCancelable r # calls s"
proof -
  let ?c = "c\<lparr>m_pWdfRequest := Some r\<rparr>"
  let ?s = "log_call (MarkCancelable r) (upd_file p (m_pWdfRequest_update (\<lambda>_. Some r)) (entered (RoleLock p) s))"
  obtain mem where mem: "GetInputMemory env r = Some mem" "mem_buffer mem = None"
    using env unfolding cooperative_def by blast
  have s: "files ?s p = Some ?c" "calls ?s = MarkCancelable r # calls s" "files ?s = (files s)(p \<mapsto> ?c)"
    "locks ?s = locks (entered (RoleLock p) s)" "cur_thread ?s = cur_thread s"
    using c(1) by (simp_all add: upd_file_def)
  note run = GetNextSubscribedMessage_def critical_section [OF lock] mark_cancelable_quiet [OF env]
  show thesis
  proof (cases "m_SubscribedMessageQueue c")
    case Nil
    have "GetNextSubscribedMessage env cancel p r s = Some (S_OK, ?s\<lparr>locks := locks s\<rparr>)"
      using c sub mem Nil s by (simp add: run)
    then show thesis
      by (rule that [where c' = ?c]) (use c Nil s in \<open>simp_all add: mailbox_of_def mb_get_def mailbox_ok_def\<close>)
  next
    case (Cons y ys)
    have y: "sendable y" using c(2) Cons by (simp add: mailbox_ok_def)
    let ?d = "answered env r y ?c"
    let ?t = "?s\<lparr>files := (files ?s)(p \<mapsto> ?d), calls := reply env r y @ calls ?s\<rparr>"
    have one: "CompleteOneGetNextSubscribedMessage env p (m_cbPayload y) (m_pbPayload y) ?s = Some (fits_output env r y, ?t)"
      by (rule CompleteOne_reply [OF env s(1) _ y]) simp
    let ?u = "if fits_output env r y then upd_file p (m_SubscribedMessageQueue_update tl) ?t else ?t"
    let ?e = "if fits_output env r y then ?d\<lparr>m_SubscribedMessageQueue := ys\<rparr> else ?d"
    have go: "GetNextSubscribedMessage env cancel p r s = Some (S_OK, ?u\<lparr>locks := locks s\<rparr>)"
      using c sub mem Cons s one by (simp add: run)
    have fs: "files (?u\<lparr>locks := locks s\<rparr>) = (files s)(p \<mapsto> ?e)"
      using s Cons by (auto simp: upd_file_def answered_def)
    have ok: "mailbox_ok ?e"
      using answered_pop_ok [OF c(2) Cons, of env r] answered_keep_ok [OF c(2) Cons, of env r] by simp
    have box: "mailbox_of ?e = mb_get (fits_output env) r (mailbox_of c)"
      using Cons sub(3) by (simp add: mailbox_of_def mb_get_def answered_def)
    have trace: "calls (?u\<lparr>locks := locks s\<rparr>) =
        (case m_SubscribedMessageQueue c of [] \<Rightarrow> [] | y # ys \<Rightarrow> reply env r y) @ MarkCancelable r # calls s"
      using Cons s(2) by simp
    show thesis by (rule that [OF go fs box ok trace])
  qed
qed

end
