(* ===== verification/NfpNames.thy ===== *)
theory NfpNames
  imports NfpSafety
begin

text \<open>
  What a file name means.  \<open>classify\<close> says, over plain strings, which role and message type a handle
  gets; the parser of \<open>OnCreateFile\<close>, which works on a zero-padded buffer with length-counted
  comparisons and pointer arithmetic, computes it and never reads behind the buffer.
\<close>

section \<open>The meaning of a name\<close>

definition has_prefix :: "(wchar \<Rightarrow> wchar) \<Rightarrow> wchar list \<Rightarrow> wchar list \<Rightarrow> bool" where
  "has_prefix up lit x \<longleftrightarrow> map up (take (length lit) x) = map up lit"

definition same_name :: "(wchar \<Rightarrow> wchar) \<Rightarrow> wchar list \<Rightarrow> wchar list \<Rightarrow> bool" where
  "same_name up lit x \<longleftrightarrow> map up x = map up lit"

text \<open>The status, the role and the message type of a handle, from the part behind the namespace.\<close>

type_synonym kind = "hresult \<times> ROLE \<times> wchar list option"

definition not_found :: hresult where
  "not_found = HRESULT_FROM_WIN32 ERROR_FILE_NOT_FOUND"

definition classify_protocol :: "(wchar \<Rightarrow> wchar) \<Rightarrow> ROLE \<Rightarrow> wchar list \<Rightarrow> kind" where
  "classify_protocol up ro x =
     (if has_prefix up (wlit ''Windows.'') x \<or> same_name up (wlit ''WindowsUri'') x
         \<or> has_prefix up (wlit ''WindowsMime'') x
      then (S_OK, ro, Some x)
      else if same_name up (wlit ''DeviceArrived'') x
      then if ro = ROLE_SUBSCRIPTION then (S_OK, ROLE_ARRIVEDSUBSCRIPTION, None) else (not_found, ro, None)
      else if same_name up (wlit ''DeviceDeparted'') x
      then if ro = ROLE_SUBSCRIPTION then (S_OK, ROLE_DEPARTEDSUBSCRIPTION, None) else (not_found, ro, None)
      else if has_prefix up (wlit ''Pairing:'') x then (S_OK, ro, Some x)
      else if has_prefix up (wlit ''NDEF'') x
      then if has_prefix up (wlit ''Empty'') (drop 4 x)
           then (HRESULT_FROM_NT STATUS_INVALID_PARAMETER, ro, None) else (S_OK, ro, Some x)
      else (HRESULT_FROM_NT STATUS_OBJECT_PATH_NOT_FOUND, ro, None))"

definition classify :: "(wchar \<Rightarrow> wchar) \<Rightarrow> wchar list \<Rightarrow> kind" where
  "classify up name =
     (let x = (case name of [] \<Rightarrow> [] | ch # r \<Rightarrow> if ch = 0x5C then r else name) in
      if has_prefix up (wlit ''Pubs'' @ [0x5C]) x then classify_protocol up ROLE_PUBLICATION (drop 5 x)
      else if has_prefix up (wlit ''Subs'' @ [0x5C]) x then classify_protocol up ROLE_SUBSCRIPTION (drop 5 x)
      else (not_found, ROLE_UNDEFINED, None))"

section \<open>Comparisons on the padded buffer\<close>

text \<open>Only the terminator has the uppercase form of the terminator.\<close>

definition nul_safe :: "(wchar \<Rightarrow> wchar) \<Rightarrow> bool" where
  "nul_safe up \<longleftrightarrow> (\<forall>c. up c = up 0 \<longrightarrow> c = 0)"

lemma wstr_padded: "0 \<notin> set x \<Longrightarrow> 0 < k \<Longrightarrow> wstr (x @ replicate k 0) = Some x"
  using wstr_terminated [of x "replicate (k - 1) 0"] by (cases k) auto

lemma begins_with_padded:
  assumes up: "nul_safe (upcase env)" and x: "0 \<notin> set x" and lit: "0 \<notin> set lit" and k: "length lit \<le> k"
  shows "begins_with env (x @ replicate k 0) (lit @ [0]) (length lit) = Some (has_prefix (upcase env) lit x)"
proof -
  let ?up = "upcase env"
  have cut: "begins_with env (x @ replicate k 0) (lit @ [0]) (length lit)
      = Some (map ?up (take (length lit) (x @ replicate k 0)) = map ?up lit)"
    using k by (auto simp: begins_with_def CompareStringOrdinal_def counted_def)
  have "(map ?up (take (length lit) (x @ replicate k 0)) = map ?up lit) = has_prefix ?up lit x"
  proof (cases "length lit \<le> length x")
    case False
    then have "\<not> has_prefix ?up lit x"
      by (auto simp: has_prefix_def dest: arg_cong [where f = length])
    moreover have "?up 0 \<in> set (map ?up (take (length lit) (x @ replicate k 0)))"
      using False k by (auto simp: take_replicate min_def)
    moreover have "?up 0 \<notin> set (map ?up lit)" using up lit by (auto simp: nul_safe_def)
    ultimately show ?thesis by metis
  qed (simp add: has_prefix_def)
  with cut show ?thesis by simp
qed

lemma is_name_padded:
  "0 \<notin> set x \<Longrightarrow> 0 \<notin> set lit \<Longrightarrow> 0 < k \<Longrightarrow>
   is_name env (x @ replicate k 0) (lit @ [0]) = Some (same_name (upcase env) lit x)"
  using wstr_terminated [of lit "[]"]
  by (simp add: is_name_def CompareStringOrdinal_def counted_def wstr_padded same_name_def)

lemma literal_chars [simp]:
  "0 \<notin> set (wlit ''Windows.'')" "0 \<notin> set (wlit ''WindowsUri'')" "0 \<notin> set (wlit ''WindowsMime'')"
  "0 \<notin> set (wlit ''DeviceArrived'')" "0 \<notin> set (wlit ''DeviceDeparted'')" "0 \<notin> set (wlit ''Pairing:'')"
  "0 \<notin> set (wlit ''NDEF'')" "0 \<notin> set (wlit ''Empty'')" "0 \<notin> set (wlit ''Pubs'' @ [0x5C])"
  "0 \<notin> set (wlit ''Subs'' @ [0x5C])"
  by (simp_all add: wlit_def)

lemmas literal_defs = WINDOWS_PROTOCOL_def WINDOWSURI_PROTOCOL_def WINDOWSMIME_PROTOCOL_def DEVICE_ARRIVED_def
  DEVICE_DEPARTED_def PAIRING_PROTOCOL_def NDEF_PROTOCOL_def NDEF_EMPTY_TYPE_def

lemma begins_with_literal:
  "nul_safe (upcase env) \<Longrightarrow> 0 \<notin> set x \<Longrightarrow> 11 \<le> k \<Longrightarrow> 0 \<notin> set lit \<Longrightarrow> n = length lit \<Longrightarrow> n \<le> 11 \<Longrightarrow>
   begins_with env (x @ replicate k 0) (lit @ [0]) n = Some (has_prefix (upcase env) lit x)"
  using begins_with_padded [of env x lit k] by simp

text \<open>A buffer with at least eleven zeros behind the string answers every comparison of the chain.\<close>

lemma protocol_tests:
  assumes "nul_safe (upcase env)" and "0 \<notin> set x" and "11 \<le> k"
  shows "begins_with env (x @ replicate k 0) WINDOWS_PROTOCOL WINDOWS_PROTOCOL_CHARS
      = Some (has_prefix (upcase env) (wlit ''Windows.'') x)"
    and "begins_with env (x @ replicate k 0) WINDOWSMIME_PROTOCOL WINDOWSMIME_PROTOCOL_CHARS
      = Some (has_prefix (upcase env) (wlit ''WindowsMime'') x)"
    and "begins_with env (x @ replicate k 0) PAIRING_PROTOCOL PAIRING_PROTOCOL_CHARS
      = Some (has_prefix (upcase env) (wlit ''Pairing:'') x)"
    and "begins_with env (x @ replicate k 0) NDEF_PROTOCOL NDEF_PROTOCOL_CHARS
      = Some (has_prefix (upcase env) (wlit ''NDEF'') x)"
    and "is_name env (x @ replicate k 0) WINDOWSURI_PROTOCOL = Some (same_name (upcase env) (wlit ''WindowsUri'') x)"
    and "is_name env (x @ replicate k 0) DEVICE_ARRIVED = Some (same_name (upcase env) (wlit ''DeviceArrived'') x)"
    and "is_name env (x @ replicate k 0) DEVICE_DEPARTED = Some (same_name (upcase env) (wlit ''DeviceDeparted'') x)"
proof -
  note begins = begins_with_literal [OF assms]
  have name: "is_name env (x @ replicate k 0) (lit @ [0]) = Some (same_name (upcase env) lit x)"
    if "0 \<notin> set lit" for lit
    using assms(2,3) that by (intro is_name_padded) simp_all
  show "begins_with env (x @ replicate k 0) WINDOWS_PROTOCOL WINDOWS_PROTOCOL_CHARS
      = Some (has_prefix (upcase env) (wlit ''Windows.'') x)"
    unfolding WINDOWS_PROTOCOL_def WINDOWS_PROTOCOL_CHARS_def by (rule begins) (simp_all add: wlit_def)
  show "begins_with env (x @ replicate k 0) WINDOWSMIME_PROTOCOL WINDOWSMIME_PROTOCOL_CHARS
      = Some (has_prefix (upcase env) (wlit ''WindowsMime'') x)"
    unfolding WINDOWSMIME_PROTOCOL_def WINDOWSMIME_PROTOCOL_CHARS_def by (rule begins) (simp_all add: wlit_def)
  show "begins_with env (x @ replicate k 0) PAIRING_PROTOCOL PAIRING_PROTOCOL_CHARS
      = Some (has_prefix (upcase env) (wlit ''Pairing:'') x)"
    unfolding PAIRING_PROTOCOL_def PAIRING_PROTOCOL_CHARS_def by (rule begins) (simp_all add: wlit_def)
  show "begins_with env (x @ replicate k 0) NDEF_PROTOCOL NDEF_PROTOCOL_CHARS
      = Some (has_prefix (upcase env) (wlit ''NDEF'') x)"
    unfolding NDEF_PROTOCOL_def NDEF_PROTOCOL_CHARS_def by (rule begins) (simp_all add: wlit_def)
  show "is_name env (x @ replicate k 0) WINDOWSURI_PROTOCOL = Some (same_name (upcase env) (wlit ''WindowsUri'') x)"
    unfolding WINDOWSURI_PROTOCOL_def by (rule name) simp
  show "is_name env (x @ replicate k 0) DEVICE_ARRIVED = Some (same_name (upcase env) (wlit ''DeviceArrived'') x)"
    unfolding DEVICE_ARRIVED_def by (rule name) simp
  show "is_name env (x @ replicate k 0) DEVICE_DEPARTED = Some (same_name (upcase env) (wlit ''DeviceDeparted'') x)"
    unfolding DEVICE_DEPARTED_def by (rule name) simp
qed

lemma namespace_tests:
  assumes "nul_safe (upcase env)" and "0 \<notin> set x" and "11 \<le> k"
  shows "begins_with env (x @ replicate k 0) PUBS_NAMESPACE PUBS_NAMESPACE_CHARS
      = Some (has_prefix (upcase env) (wlit ''Pubs'' @ [0x5C]) x)"
    and "begins_with env (x @ replicate k 0) SUBS_NAMESPACE SUBS_NAMESPACE_CHARS
      = Some (has_prefix (upcase env) (wlit ''Subs'' @ [0x5C]) x)"
    and "begins_with env (x @ replicate k 0) NDEF_EMPTY_TYPE NDEF_EMPTY_TYPE_CHARS
      = Some (has_prefix (upcase env) (wlit ''Empty'') x)"
proof -
  note begins = begins_with_literal [OF assms]
  have lit: "PUBS_NAMESPACE = (wlit ''Pubs'' @ [0x5C]) @ [0]" "SUBS_NAMESPACE = (wlit ''Subs'' @ [0x5C]) @ [0]"
    by (simp_all add: PUBS_NAMESPACE_def SUBS_NAMESPACE_def)
  show "begins_with env (x @ replicate k 0) PUBS_NAMESPACE PUBS_NAMESPACE_CHARS
      = Some (has_prefix (upcase env) (wlit ''Pubs'' @ [0x5C]) x)"
    unfolding PUBS_NAMESPACE_CHARS_def lit by (rule begins) (simp_all add: wlit_def)
  show "begins_with env (x @ replicate k 0) SUBS_NAMESPACE SUBS_NAMESPACE_CHARS
      = Some (has_prefix (upcase env) (wlit ''Subs'' @ [0x5C]) x)"
    unfolding SUBS_NAMESPACE_CHARS_def lit by (rule begins) (simp_all add: wlit_def)
  show "begins_with env (x @ replicate k 0) NDEF_EMPTY_TYPE NDEF_EMPTY_TYPE_CHARS
      = Some (has_prefix (upcase env) (wlit ''Empty'') x)"
    unfolding NDEF_EMPTY_TYPE_def NDEF_EMPTY_TYPE_CHARS_def by (rule begins) (simp_all add: wlit_def)
qed

lemma has_prefix_length: "has_prefix up lit x \<Longrightarrow> length lit \<le> length x"
  by (auto simp: has_prefix_def dest!: arg_cong [where f = length])

section \<open>The parser computes the meaning\<close>

text \<open>A run of the parser on a new context: the status and the context it leaves.\<close>

definition typed_context :: "ROLE \<Rightarrow> wchar list option \<Rightarrow> file_context" where
  "typed_context ro t = new_CFileContext\<lparr>m_Role := ro, m_pszType := map_option (\<lambda>x. x @ [0]) t\<rparr>"

definition yields :: "nfp \<Rightarrow> fid \<Rightarrow> kind \<Rightarrow> (hresult, nfp) outcome \<Rightarrow> bool" where
  "yields s p k m \<longleftrightarrow> (case k of (hr, ro, t) \<Rightarrow>
     (\<exists>s'. m = Some (hr, s') \<and> files s' = (files s)(p \<mapsto> typed_context ro t)))"

lemma typed_context_simps [simp]:
  "m_Role (typed_context ro t) = ro" "m_pszType (typed_context ro t) = map_option (\<lambda>x. x @ [0]) t"
  "(typed_context ro t)\<lparr>m_Role := ro'\<rparr> = typed_context ro' t"
  by (simp_all add: typed_context_def)

lemma yields_SetType:
  assumes new: "\<And>cs. new_succeeds env cs" and c: "files s p = Some (typed_context ro None)"
    and x: "0 \<notin> set x" "1 < length x" "length x + 1 < MaxCchType" and k: "0 < k"
  shows "yields s p (S_OK, ro, Some x) (SetType env p (x @ replicate k 0) s)"
proof -
  have w: "wstr (x @ replicate k 0) = Some x" using x(1) k by (rule wstr_padded)
  have "StringCchCopy (replicate (length x + 1) 0) (length x + 1) (Some (x @ replicate k 0)) = Some (x @ [0], True)"
    using w by (simp add: StringCchCopy_def)
  then show ?thesis
    using new c x w
    by (auto simp: yields_def SetType_def Let_def operator_new_def MinCchType_def upd_file_def typed_context_def
        DRIVER_ASSERT_def)
qed

lemma yields_bind_SetType:
  assumes "yields s p (S_OK, ro, t) (SetType env p b s)"
  shows "yields s p (S_OK, ro, t) (do { (_, s) \<leftarrow> SetType env p b s; Some (S_OK, s) })"
  using assms by (auto simp: yields_def)

lemma yields_same: "files s p = Some (typed_context ro t) \<Longrightarrow> yields s p (hr, ro, t) (Some (hr, s))"
  by (auto simp: yields_def fun_upd_idem_iff)

lemma yields_role: "files s p = Some (typed_context ro t) \<Longrightarrow>
    yields s p (hr, ro', t) (Some (hr, upd_file p (\<lambda>_. typed_context ro' t) s))"
  by (simp add: yields_def upd_file_def)

lemma has_prefix_min: "has_prefix up lit x \<Longrightarrow> 1 < length lit \<Longrightarrow> 1 < length x"
  using has_prefix_length by fastforce

lemma same_name_min: "same_name up lit x \<Longrightarrow> 1 < length lit \<Longrightarrow> 1 < length x"
  by (auto simp: same_name_def dest!: arg_cong [where f = length])

lemma drop_padded: "n \<le> length x \<Longrightarrow> drop n (x @ replicate k 0) = drop n x @ replicate k 0"
  by simp

lemma yields_select_protocol:
  assumes up: "nul_safe (upcase env)" and new: "\<And>cs. new_succeeds env cs"
    and c: "files s p = Some (typed_context ro None)"
    and x: "0 \<notin> set x" "length x + 1 < MaxCchType" and k: "11 \<le> k"
  shows "yields s p (classify_protocol (upcase env) ro x) (select_protocol env p (x @ replicate k 0) s)"
proof -
  have set: "yields s p (S_OK, ro, Some x) (do { (_, s) \<leftarrow> SetType env p (x @ replicate k 0) s; Some (S_OK, s) })"
    if "1 < length x"
    using k by (intro yields_bind_SetType yields_SetType new c x that) simp
  have lens: "1 < length (wlit ''Windows.'')" "1 < length (wlit ''WindowsUri'')" "1 < length (wlit ''WindowsMime'')"
    "1 < length (wlit ''Pairing:'')" "1 < length (wlit ''NDEF'')"
    by (simp_all add: wlit_def)
  note min = has_prefix_min [OF _ lens(1)] same_name_min [OF _ lens(2)] has_prefix_min [OF _ lens(3)]
    has_prefix_min [OF _ lens(4)] has_prefix_min [OF _ lens(5)]
  have ndef: "drop NDEF_PROTOCOL_CHARS (x @ replicate k 0) = drop 4 x @ replicate k 0"
    if "has_prefix (upcase env) (wlit ''NDEF'') x"
    using has_prefix_length [OF that] by (simp add: NDEF_PROTOCOL_CHARS_def wlit_def)
  have x4: "0 \<notin> set (drop 4 x)" using x(1) by (meson in_set_dropD)
  note tests = protocol_tests [OF up x(1) k] namespace_tests [OF up x4 k]
  have short: "\<not> has_prefix (upcase env) (wlit ''Windows.'') x" "\<not> same_name (upcase env) (wlit ''WindowsUri'') x"
    "\<not> has_prefix (upcase env) (wlit ''WindowsMime'') x" "\<not> has_prefix (upcase env) (wlit ''Pairing:'') x"
    "\<not> has_prefix (upcase env) (wlit ''NDEF'') x" if "\<not> 1 < length x"
    using that min [of "upcase env" x] by blast+
  note unfold = select_protocol_def classify_protocol_def tests bind.bind_lunit
  show ?thesis
  proof (cases "1 < length x")
    case long: True
    show ?thesis
    proof (cases "has_prefix (upcase env) (wlit ''NDEF'') x")
      case True
      show ?thesis
        unfolding unfold ndef [OF True] using c k True
        by (simp add: SetRoleArrivedSubcription_def SetRoleDepartedSubcription_def not_found_def
            set [OF long] yields_same yields_role)
    next
      case False
      show ?thesis
        unfolding unfold using c k False
        by (simp add: SetRoleArrivedSubcription_def SetRoleDepartedSubcription_def not_found_def
            set [OF long] yields_same yields_role)
    qed
  next
    case False
    show ?thesis
      unfolding unfold using c k
      by (simp add: short [OF False] SetRoleArrivedSubcription_def SetRoleDepartedSubcription_def not_found_def
          yields_same yields_role)
  qed
qed

lemma yields_role_bind:
  "yields (upd_file p (\<lambda>_. c) s) p k m \<Longrightarrow> files s p \<noteq> None \<Longrightarrow> yields s p k m"
  by (auto simp: yields_def upd_file_def)

definition behind_slash :: "wchar list \<Rightarrow> wchar list" where
  "behind_slash name = (case name of [] \<Rightarrow> [] | ch # r \<Rightarrow> if ch = 0x5C then r else name)"

lemma behind_slash_chars: "0 \<notin> set x \<Longrightarrow> 0 \<notin> set (behind_slash x)" "length (behind_slash x) \<le> length x"
  by (auto simp: behind_slash_def split: list.split)

lemma yields_namespace:
  assumes up: "nul_safe (upcase env)" and new: "\<And>cs. new_succeeds env cs"
    and c: "files s p = Some new_CFileContext"
    and x: "0 \<notin> set x" "length x < MaxCchType" "5 \<le> length x" and k: "11 \<le> k"
  shows "yields s p (classify_protocol (upcase env) ro (drop 5 x))
    (select_protocol env p (drop 5 (x @ replicate k 0)) (upd_file p (m_Role_update (\<lambda>_. ro)) s))"
proof -
  let ?s = "upd_file p (\<lambda>_. typed_context ro None) s"
  have s: "upd_file p (m_Role_update (\<lambda>_. ro)) s = ?s"
    using c by (simp add: upd_file_def typed_context_def new_CFileContext_def)
  have "yields ?s p (classify_protocol (upcase env) ro (drop 5 x)) (select_protocol env p (drop 5 x @ replicate k 0) ?s)"
    using c x k by (intro yields_select_protocol up new) (auto dest: in_set_dropD)
  then show ?thesis
    unfolding s drop_padded [OF x(3)] by (rule yields_role_bind) (simp add: c)
qed

lemma yields_select_role:
  assumes up: "nul_safe (upcase env)" and new: "\<And>cs. new_succeeds env cs"
    and c: "files s p = Some new_CFileContext"
    and x: "0 \<notin> set x" "length x < MaxCchType" and k: "11 \<le> k"
  shows "yields s p (classify (upcase env) x) (select_role env p (x @ replicate k 0) s)"
proof -
  let ?y = "behind_slash x"
  have y: "0 \<notin> set ?y" "length ?y < MaxCchType" using behind_slash_chars [of x] x by simp_all
  have name: "(case x @ replicate k 0 of [] \<Rightarrow> None
      | ch # rest \<Rightarrow> Some (if ch = 0x5C then rest else x @ replicate k 0)) = Some (?y @ replicate k 0)"
    using k by (cases x; cases k) (simp_all add: behind_slash_def)
  have roles: "SetRolePublication = m_Role_update (\<lambda>_. ROLE_PUBLICATION)"
    "SetRoleSubcription = m_Role_update (\<lambda>_. ROLE_SUBSCRIPTION)"
    by (simp_all add: SetRolePublication_def [abs_def] SetRoleSubcription_def [abs_def])
  have long: "5 \<le> length ?y" if "has_prefix (upcase env) (wlit ''Pubs'' @ [0x5C]) ?y \<or> has_prefix (upcase env) (wlit ''Subs'' @ [0x5C]) ?y"
    using that by (auto dest: has_prefix_length simp: wlit_def)
  have same: "yields s p (not_found, ROLE_UNDEFINED, None) (Some (HRESULT_FROM_WIN32 ERROR_FILE_NOT_FOUND, s))"
    using c yields_same [of s p ROLE_UNDEFINED None] by (simp add: typed_context_def new_CFileContext_def not_found_def)
  show ?thesis
    unfolding select_role_def classify_def behind_slash_def [symmetric] name bind.bind_lunit Let_def
      namespace_tests [OF up y(1) k] roles
    unfolding PUBS_NAMESPACE_CHARS_def SUBS_NAMESPACE_CHARS_def
    using yields_namespace [OF up new c y _ k] long same
    by (simp del: drop_append)
qed

text \<open>The buffer of \<open>OnCreateFile\<close>: the name, then at least twenty zeros.\<close>

lemma yields_parse_file_name:
  assumes up: "nul_safe (upcase env)" and new: "\<And>cs. new_succeeds env cs"
    and c: "files s p = Some new_CFileContext"
    and n: "RetrieveFileName_size env f = (S_OK, n)" "0 < n" "n \<le> MaxCchType"
    and name: "RetrieveFileName env f n = (S_OK, x @ replicate j 0)" "0 \<notin> set x" "length x + j \<le> n" "length x < MaxCchType"
  shows "yields s p (classify (upcase env) x) (parse_file_name env p f s)"
proof -
  let ?s = "(log_call OperatorNew s)\<lparr>heap_next := Suc (heap_next s)\<rparr>"
  have pad: "(x @ replicate j 0) @ replicate (n + 20 - (length x + j)) 0 = x @ replicate (j + (n + 20 - (length x + j))) 0"
    by (simp add: replicate_add)
  have "parse_file_name env p f s = select_role env p ((x @ replicate j 0) @ replicate (n + 20 - (length x + j)) 0) ?s"
    using new n name by (simp add: parse_file_name_def operator_new_def)
  moreover have "yields ?s p (classify (upcase env) x) (select_role env p (x @ replicate (j + (n + 20 - (length x + j))) 0) ?s)"
    using c name by (intro yields_select_role up new) simp_all
  ultimately show ?thesis unfolding pad by (simp add: yields_def)
qed

end
