(* ===== verification/NfpLifetime.thy ===== *)
theory NfpLifetime
  imports NfpDelivery NfpNames
begin

text \<open>
  The lifetime of connections.  An inbound connection is deleted by its own receive thread, an
  outbound one by the handle that made it; the lemmas here follow a receive thread to its end and
  show what another thread finds that waited for it.
\<close>

section \<open>What a receive thread leaves behind\<close>

text \<open>Handlers of contexts do not touch the connections.\<close>

interpretation same_conns: file_invariant "\<lambda>s. conns s = C" for C
  by unfold_locales simp_all

lemma conns_closesocket [simp]: "conns (closesocket sk s) = conns s"
  by (simp add: closesocket_def)

definition inbound :: "cid \<Rightarrow> nfp \<Rightarrow> bool" where
  "inbound p s \<longleftrightarrow> (\<exists>c. conns s p = Some c \<and> conn_fInbound c)"

lemma inbound_conns: "inbound p s \<Longrightarrow> conns s' = conns s \<Longrightarrow> inbound p s'"
  by (simp add: inbound_def)

lemma inbound_Terminate: "inbound p s \<Longrightarrow> wlp (Terminate self_wait p s) (\<lambda>_. inbound p)"
  by (auto simp: Terminate_def Let_def self_wait_def inbound_def)

lemma inbound_HandleReceivedMessage: "inbound p s \<Longrightarrow> wlp (HandleReceivedMessage env m s) (\<lambda>_. inbound p)"
  using same_conns.I_HandleReceivedMessage [of s "conns s" env m] by (auto elim!: wlp_mono intro: inbound_conns)

lemma inbound_ReceiveLoop: "inbound p s \<Longrightarrow> wlp (ReceiveLoop env (receive_callbacks env) p s) (\<lambda>_. inbound p)"
  by (rule ReceiveLoop_invariant)
    (auto simp: receive_callbacks_def intro!: inbound_Terminate inbound_HandleReceivedMessage elim: inbound_conns)

lemma CConnection_delete_frees: "wlp (CConnection_delete wait p s) (\<lambda>_ s'. conns s' p = None)"
  by (rule wlpI) (auto simp: CConnection_delete_def Let_def split: bind_splits)

lemma inbound_ConnectionTerminated:
  assumes "inbound p s"
  shows "wlp (ConnectionTerminated env p s) (\<lambda>deleted s'. deleted \<and> conns s' p = None)"
proof -
  obtain c where c: "conns s p = Some c" "conn_fInbound c" using assms by (auto simp: inbound_def)
  have removal: "wlp (AddRemovalEvent env t) (\<lambda>_ s'. conns s' p = None)" if "conns t p = None" for t
    using same_conns.I_AddRemovalEvent [of t "conns t" env] that by (auto elim: wlp_mono)
  show ?thesis
    unfolding ConnectionTerminated_def
    using c by (auto simp: Let_def intro!: wlp_Enter wlp_Leave wlp_mono [OF CConnection_delete_frees] wlp_mono [OF removal])
qed

lemma operator_new_conns: "operator_new env s = (x, s') \<Longrightarrow> conns s' = conns s"
  by (auto simp: operator_new_def Let_def split: if_splits)

lemma inbound_receive:
  assumes "inbound p s"
  shows "wlp (s_ReceiveThreadProc env (receive_callbacks env) p s) (\<lambda>_ s'. conns s' p = None)"
proof -
  have run: "wlp (ReceiveThreadProc env (receive_callbacks env) p t) (\<lambda>deleted s'. deleted \<and> conns s' p = None)"
    if "inbound p t" for t
    using that
    by (cases "operator_new env t")
      (auto simp: ReceiveThreadProc_def receive_callbacks_def [of env] split: option.split
        dest!: operator_new_conns intro!: wlp_mono [OF inbound_Terminate]
        wlp_mono [OF inbound_ReceiveLoop [unfolded receive_callbacks_def]] inbound_ConnectionTerminated
        elim: inbound_conns)
  have "inbound p (upd_conn p (conn_ThreadpoolThreadId_update (\<lambda>_. t)) s)" for t
    using assms by (auto simp: inbound_def)
  then show ?thesis
    by (auto simp: s_ReceiveThreadProc_def Let_def intro!: wlp_mono [OF run])
qed

section \<open>Waiting for an inbound connection\<close>

text \<open>The running thread waits for the receive thread of \<open>p\<close>, which has not ended yet.\<close>

definition waits_for :: "cid \<Rightarrow> nfp \<Rightarrow> bool" where
  "waits_for p s \<longleftrightarrow> (\<exists>c. conns s p = Some c \<and> conn_State c \<noteq> TERMINATED \<and> conn_ThreadpoolWork c
     \<and> recv_active c \<and> conn_ThreadpoolThreadId c \<noteq> cur_thread s)"

lemma wait_inbound:
  assumes "inbound p s"
  shows "wlp (wait_for_receive env p s) (\<lambda>_ s'. recv_active (the (conns s p)) \<longrightarrow> conns s' p = None)"
proof -
  obtain c where c: "conns s p = Some c" using assms by (auto simp: inbound_def)
  have "inbound p (s\<lparr>cur_thread := t\<rparr>)" for t using assms by (rule inbound_conns) simp
  then show ?thesis
    using c by (auto simp: wait_for_receive_def WaitForThreadpoolWorkCallbacks_def Let_def
        intro!: wlp_mono [OF inbound_receive])
qed

lemma Terminate_inbound:
  assumes "waits_for p s" and "inbound p s"
  shows "Terminate (wait_for_receive env) p s = None"
proof -
  obtain c where c: "conns s p = Some c" "conn_State c \<noteq> TERMINATED" "conn_ThreadpoolWork c" "recv_active c"
      "conn_ThreadpoolThreadId c \<noteq> cur_thread s"
    using assms(1) by (auto simp: waits_for_def)
  let ?t = "log_call (ShutdownSend (conn_Socket c)) (upd_conn p (conn_State_update (\<lambda>_. TERMINATED)) s)"
  have "inbound p ?t" using assms(2) by (auto simp: inbound_def)
  then have "wlp (wait_for_receive env p ?t) (\<lambda>_ s'. conns s' p = None)"
    using wait_inbound [of p ?t env] c by simp
  then show ?thesis
    using c by (cases "wait_for_receive env p ?t") (auto simp: Terminate_def Let_def)
qed

text \<open>The lock of the connections, held by a thread that waits for another.\<close>

definition holds_connections :: "tid \<Rightarrow> nfp \<Rightarrow> bool" where
  "holds_connections t s \<longleftrightarrow> cur_thread s \<noteq> t \<and> (\<exists>n. locks s ConnectionLock = Some (t, n))"

interpretation holding: file_invariant "holds_connections t" for t
  by unfold_locales (auto simp: holds_connections_def lock_step_def)

lemma holding_Terminate: "holds_connections t s \<Longrightarrow> wlp (Terminate self_wait p s) (\<lambda>_. holds_connections t)"
  by (auto simp: Terminate_def Let_def self_wait_def holds_connections_def closesocket_def)

lemma holding_ReceiveLoop:
  "holds_connections t s \<Longrightarrow> wlp (ReceiveLoop env (receive_callbacks env) p s) (\<lambda>_. holds_connections t)"
  by (rule ReceiveLoop_invariant)
    (auto simp: receive_callbacks_def holding.I_log intro!: holding_Terminate holding.I_HandleReceivedMessage)

lemma holding_ConnectionTerminated: "holds_connections t s \<Longrightarrow> ConnectionTerminated env p s = None"
  by (cases "conns s p") (auto simp: ConnectionTerminated_def holds_connections_def EnterCriticalSection_def)

lemma holding_receive:
  assumes "holds_connections t s"
  shows "s_ReceiveThreadProc env (receive_callbacks env) p s = None"
proof -
  have "wlp (ReceiveThreadProc env (receive_callbacks env) p s') (\<lambda>_ _. False)" if "holds_connections t s'" for s'
    using that
    by (cases "operator_new env s'")
      (auto simp: ReceiveThreadProc_def receive_callbacks_def [of env] holding_ConnectionTerminated split: option.split
        dest!: holding.I_new intro!: wlp_mono [OF holding_Terminate] wlp_mono [OF holding_ReceiveLoop [unfolded receive_callbacks_def]])
  moreover have "holds_connections t (upd_conn p f s)" for f
    using assms by (simp add: holds_connections_def)
  ultimately have "wlp (s_ReceiveThreadProc env (receive_callbacks env) p s) (\<lambda>_ _. False)"
    by (auto simp: s_ReceiveThreadProc_def Let_def elim!: wlp_mono)
  then show ?thesis by (cases "s_ReceiveThreadProc env (receive_callbacks env) p s") auto
qed

lemma Terminate_holding:
  assumes "waits_for p s" and "locks s ConnectionLock = Some (cur_thread s, n)" and "pool_thread env p \<noteq> cur_thread s"
  shows "Terminate (wait_for_receive env) p s = None"
proof -
  obtain c where c: "conns s p = Some c" "conn_State c \<noteq> TERMINATED" "conn_ThreadpoolWork c" "recv_active c"
      "conn_ThreadpoolThreadId c \<noteq> cur_thread s"
    using assms(1) by (auto simp: waits_for_def)
  let ?t = "log_call (ShutdownSend (conn_Socket c)) (upd_conn p (conn_State_update (\<lambda>_. TERMINATED)) s)"
  have "holds_connections (cur_thread s) (?t\<lparr>cur_thread := pool_thread env p\<rparr>)"
    using assms(2,3) by (simp add: holds_connections_def)
  then have "wait_for_receive env p ?t = None"
    using c holding_receive by (simp add: wait_for_receive_def WaitForThreadpoolWorkCallbacks_def Let_def)
  then show ?thesis
    using c by (simp add: Terminate_def Let_def)
qed

end
