(* ===== verification/NfpProperties.thy ===== *)
theory NfpProperties
  imports NfpLifetime
begin

text \<open>
  The properties of the near-field proximity driver: requests, lists, limits, delivery, names,
  handshake and teardown, each on the model's own operations, with witnesses on concrete runs.
\<close>

section \<open>A concrete run\<close>

text \<open>The subscription \<open>\Subs\Windows.a\<close> is opened by request 5; request 6 asks for its next message.\<close>

definition example_open :: nfp where
  "example_open = snd (the (OnCreateFile example_env (wait_for_receive example_env) 5 0 (new_CMyQueue 1)))"

definition example_pended :: nfp where
  "example_pended = snd (the (OnDeviceIoControl example_env 6 IOCTL_NFP_GET_NEXT_SUBSCRIBED_MESSAGE example_open))"

lemma some_the: "\<not> Option.is_none m \<Longrightarrow> m = Some ((), snd (the m))"
  by (cases m) auto

lemma example_open_run:
  "OnCreateFile example_env (wait_for_receive example_env) 5 0 (new_CMyQueue 1) = Some ((), example_open)"
  unfolding example_open_def by (rule some_the) code_simp

lemma example_pended_run:
  "OnDeviceIoControl example_env 6 IOCTL_NFP_GET_NEXT_SUBSCRIBED_MESSAGE example_open = Some ((), example_pended)"
  unfolding example_pended_def by (rule some_the) code_simp

lemma example_open_facts:
  "completed (calls example_open) = [5]" "heap_next example_open = 3" "pended example_open 0 = None"
  "pended example_open 1 = None" "pended example_open 2 = None"
  by code_simp+

lemma example_pended_facts: "completed (calls example_pended) = [5]" "pended example_pended 0 = Some 6"
  by code_simp+

lemma fresh_start: "fresh_request r (req_abs (new_CMyQueue t))"
  by (simp add: fresh_request_def req_abs_def pended_def new_CMyQueue_def)

lemma example_open_reachable: "nfp_reachable example_env example_open"
  by (rule nfp_reachable.step [OF nfp_reachable.start nfp_step.create [OF fresh_start example_open_run]])

lemma below_three: "(p::nat) < 3 \<Longrightarrow> p = 0 \<or> p = 1 \<or> p = 2"
  by linarith

lemma example_open_fresh: "fresh_request 6 (req_abs example_open)"
proof -
  have heap: "heap_ok example_open"
    using nfp_reachable_ok [OF example_open_reachable] by (simp add: lists_ok_def)
  have "pended example_open p \<noteq> Some 6" for p
  proof (cases "p < 3")
    case True
    from below_three [OF this] show ?thesis using example_open_facts by (elim disjE) simp_all
  next
    case False
    then have "files example_open p = None" using heap example_open_facts(2) by (auto simp: heap_ok_def)
    then show ?thesis by (simp add: pended_def)
  qed
  then show ?thesis by (simp add: fresh_request_def req_abs_def example_open_facts)
qed

lemma example_pended_reachable: "nfp_reachable example_env example_pended"
  by (rule nfp_reachable.step [OF example_open_reachable nfp_step.ioctl [OF example_open_fresh example_pended_run]])

section \<open>Requests\<close>

lemma reachable_protocol: "nfp_reachable env s \<Longrightarrow> protocol_ok (req_abs s)"
  using nfp_reachable_ok by blast

lemma protocol_once: "protocol_ok (req_abs s) \<Longrightarrow> accounted r (req_abs s) \<Longrightarrow>
    (r \<in> set (completed (calls s))) \<noteq> (\<exists>p. pended s p = Some r)"
  by (auto simp: protocol_ok_def accounted_def req_abs_def)

text \<open>
  C1. Every state the driver can reach, through any interleaving of its callbacks and receive
  threads, respects the request protocol: no request is completed twice, a pended request has not
  been completed, and no two handles pend the same request.
\<close>

theorem requests_completed_once:
  assumes "nfp_reachable env s"
  shows "distinct (completed (calls s))
    \<and> (\<forall>p r. pended s p = Some r \<longrightarrow> r \<notin> set (completed (calls s)))
    \<and> (\<forall>p q r. pended s p = Some r \<and> pended s q = Some r \<longrightarrow> p = q)"
  using reachable_protocol [OF assms] by (simp add: protocol_ok_def req_abs_def)

theorem requests_completed_once_witness:
  "\<exists>s. nfp_reachable example_env s \<and> pended s 0 = Some 6 \<and> 6 \<notin> set (completed (calls s)) \<and> completed (calls s) = [5]"
  using requests_completed_once [OF example_pended_reachable] example_pended_facts example_pended_reachable by blast

text \<open>
  C2. A control request is never lost and never answered twice: when \<open>OnDeviceIoControl\<close> returns,
  the request it was given is either completed or pended on exactly one handle.
\<close>

theorem control_request_accounted:
  assumes "nfp_reachable env s" and "fresh_request r (req_abs s)" and "OnDeviceIoControl env r code s = Some (u, s')"
  shows "(r \<in> set (completed (calls s'))) \<noteq> (\<exists>p. pended s' p = Some r)"
proof -
  have "handled r (req_abs s) (req_abs s')" using wlpD [OF OnDeviceIoControl_handled assms(3)] .
  then show ?thesis using handled_ok assms(2) reachable_protocol [OF assms(1)] protocol_once by blast
qed

theorem control_request_accounted_witness:
  "(6 \<in> set (completed (calls example_pended))) \<noteq> (\<exists>p. pended example_pended p = Some 6)"
  by (rule control_request_accounted [OF example_open_reachable example_open_fresh example_pended_run])

text \<open>
  C3. Refinement of the abstract request protocol: whatever the environment answers, a control
  callback completes some pended requests, serves its own request once (pends it on a handle
  without one, or completes it), and then completes pended requests again.
\<close>

theorem control_refines_protocol:
  "wlp (OnDeviceIoControl env r code s)
     (\<lambda>_ s'. \<exists>b c. completes (req_abs s) b \<and> serve r b c \<and> completes c (req_abs s'))"
  using OnDeviceIoControl_handled unfolding handled_def .

section \<open>Handles\<close>

lemma OnCreateFile_last:
  "OnCreateFile env wait r f s = Some (u, s') \<Longrightarrow>
   \<exists>hr cs. calls s' = Complete r hr # cs \<and> (FAILED hr \<longrightarrow> files s (heap_next s) = None \<longrightarrow> files s' (heap_next s) = None)"
  by (cases env s rule: operator_new_cases)
    (auto simp: OnCreateFile_def CFileContext_delete_def Let_def split: bind_splits if_splits)

text \<open>
  C4. Opening a handle completes the create request as the last thing it does, exactly once, and a
  context is left behind only if the request succeeded.
\<close>

theorem create_completes_once:
  assumes "nfp_reachable env s" and "fresh_request r (req_abs s)"
    and "OnCreateFile env (wait_for_receive env) r f s = Some (u, s')"
  shows "\<exists>hr cs. calls s' = Complete r hr # cs \<and> r \<notin> set (completed cs)
    \<and> (FAILED hr \<longrightarrow> files s' (heap_next s) = None)"
proof -
  have ok: "lists_ok s" "protocol_ok (req_abs s)" using nfp_reachable_ok [OF assms(1)] by simp_all
  then have heap: "heap_ok s" by (simp add: lists_ok_def)
  then have free: "files s (heap_next s) = None" by (auto simp: heap_ok_def)
  obtain hr cs where last: "calls s' = Complete r hr # cs" "FAILED hr \<longrightarrow> files s' (heap_next s) = None"
    using OnCreateFile_last [OF assms(3)] free by blast
  have "protocol_ok (req_abs s')"
    using handled_ok [OF wlpD [OF OnCreateFile_handles [OF heap] assms(3)] assms(2) ok(2)] by simp
  then have "r \<notin> set (completed cs)" using last(1) by (simp add: protocol_ok_def req_abs_def)
  with last show ?thesis by blast
qed

theorem create_completes_once_witness:
  "\<exists>hr cs. calls example_open = Complete 5 hr # cs \<and> 5 \<notin> set (completed cs)"
  using create_completes_once [OF nfp_reachable.start fresh_start example_open_run] by blast






lemma example_env_quiet: "\<not> aborts example_env"
  by (simp add: aborts_def example_env_def HRESULT_FROM_WIN32_def)


text \<open>
  C6. The four lists of the queue are sound in every reachable state: each holds live contexts of
  its own role, once each, and every listed publication has its payload.
\<close>

theorem lists_hold_live_contexts:
  assumes "nfp_reachable env s"
  shows "distinct (role_lists s)
    \<and> (\<forall>p \<in> set (m_SubsHead s). \<exists>c. files s p = Some c \<and> m_Role c = ROLE_SUBSCRIPTION)
    \<and> (\<forall>p \<in> set (m_ArrivalSubsHead s). \<exists>c. files s p = Some c \<and> m_Role c = ROLE_ARRIVEDSUBSCRIPTION)
    \<and> (\<forall>p \<in> set (m_DepartureSubsHead s). \<exists>c. files s p = Some c \<and> m_Role c = ROLE_DEPARTEDSUBSCRIPTION)
    \<and> (\<forall>p \<in> set (m_PubsHead s). \<exists>c. files s p = Some c \<and> m_Role c = ROLE_PUBLICATION \<and> m_pbPayload (m_MyPayload c) \<noteq> None)"
proof -
  have ok: "role_list ROLE_SUBSCRIPTION s (m_SubsHead s)" "role_list ROLE_ARRIVEDSUBSCRIPTION s (m_ArrivalSubsHead s)"
    "role_list ROLE_DEPARTEDSUBSCRIPTION s (m_DepartureSubsHead s)" "role_list ROLE_PUBLICATION s (m_PubsHead s)"
    "\<forall>p \<in> set (m_PubsHead s). has_payload s p"
    using nfp_reachable_ok [OF assms] by (simp_all add: lists_ok_def)
  have live: "\<forall>p \<in> set ps. \<exists>c. files s p = Some c \<and> m_Role c = ro" if "role_list ro s ps" for ro ps
    using that by (auto simp: role_list_def live_role_def split: option.splits)
  have "distinct (role_lists s)"
    using ok live [OF ok(1)] live [OF ok(2)] live [OF ok(3)] live [OF ok(4)]
    by (fastforce simp: role_lists_def role_list_def)
  then show ?thesis
    using live [OF ok(1)] live [OF ok(2)] live [OF ok(3)] live [OF ok(4)] ok(5)
    by (fastforce simp: has_payload_def split: option.splits)
qed

theorem lists_hold_live_contexts_witness:
  "m_SubsHead example_pended = [0] \<and> (\<exists>c. files example_pended 0 = Some c \<and> m_Role c = ROLE_SUBSCRIPTION)"
proof -
  have "m_SubsHead example_pended = [0]" by code_simp
  then show ?thesis using lists_hold_live_contexts [OF example_pended_reachable] by auto
qed

text \<open>
  C7. The counter of queued messages never exceeds \<open>MAX_MESSAGE_QUEUE_SIZE\<close>, every queued payload
  owns exactly the bytes its size says, and a stored publication payload is at most \<open>MaxCbPayload\<close>
  bytes long.
\<close>

theorem queue_bounds:
  assumes "nfp_reachable env s" and "files s p = Some c"
  shows "m_dwQueueSize c \<le> MAX_MESSAGE_QUEUE_SIZE
    \<and> (\<forall>y \<in> set (m_SubscribedMessageQueue c). \<forall>b. m_pbPayload y = Some b \<longrightarrow> length b = unat (m_cbPayload y))
    \<and> (\<forall>b. m_pbPayload (m_MyPayload c) = Some b \<longrightarrow> length b = unat (m_cbPayload (m_MyPayload c)) \<and> length b \<le> MaxCbPayload)"
proof -
  have "context_ok c" using lists_ok_context [OF _ assms(2)] nfp_reachable_ok [OF assms(1)] by blast
  then show ?thesis by (auto simp: context_ok_def payload_ok_def stored_ok_def split: option.splits)
qed

theorem queue_bounds_witness:
  "\<exists>c. files example_pended 0 = Some c \<and> m_dwQueueSize c \<le> MAX_MESSAGE_QUEUE_SIZE"
proof -
  obtain c where "files example_pended 0 = Some c"
    using example_pended_facts(2) by (auto simp: pended_def split: option.splits)
  then show ?thesis using queue_bounds [OF example_pended_reachable] by blast
qed

section \<open>Delivery\<close>

lemma example_env_cooperative: "cooperative example_env"
  using example_env_quiet by (simp add: cooperative_def example_env_def)

text \<open>A store with one enabled subscription, and a message of two bytes.\<close>

definition one_file :: "file_context \<Rightarrow> nfp" where
  "one_file c = (new_CMyQueue 1)\<lparr>files := [0 \<mapsto> c]\<rparr>"

definition two_bytes :: payload where
  "two_bytes = \<lparr>m_pbPayload = Some [1, 2], m_cbPayload = 2\<rparr>"

definition subscription :: file_context where
  "subscription = typed_context ROLE_SUBSCRIPTION (Some (wlit ''Windows.a''))"

lemma one_file_simps [simp]: "files (one_file c) = [0 \<mapsto> c]" "locks (one_file c) = Map.empty" "cur_thread (one_file c) = 1"
  by (simp_all add: one_file_def new_CMyQueue_def)

lemma two_bytes_sendable: "sendable two_bytes" "m_pbPayload two_bytes = Some [1, 2]"
  by (simp_all add: sendable_def two_bytes_def MaxCbPayload_def)

lemma subscription_simps [simp]:
  "m_Role subscription = ROLE_SUBSCRIPTION" "m_fEnabled subscription" "m_pWdfRequest subscription = None"
  "m_SubscribedMessageQueue subscription = []" "m_dwQueueSize subscription = 0"
  by (simp_all add: subscription_def typed_context_def new_CFileContext_def)





lemma mailbox_drop_size: "mailbox_ok c \<Longrightarrow> length (m_SubscribedMessageQueue c) \<le> 50"
  by (simp add: mailbox_ok_def)

text \<open>
  A burst of messages for a subscription without a pended request is kept in order of arrival
  up to 50 messages in all, and the rest is dropped, without a fault.
\<close>

theorem burst_is_queued_in_order:
  assumes "cooperative env" and "files s p = Some c" and "mailbox_ok c" and "m_pWdfRequest c = None"
    and "\<forall>y \<in> set ys. sendable y"
  shows "\<exists>s' c'. for_each (\<lambda>y. deliver_or_queue env p (m_cbPayload y) (the (m_pbPayload y))) ys s = Some ((), s')
    \<and> files s' p = Some c' \<and> m_pWdfRequest c' = None
    \<and> m_SubscribedMessageQueue c' = take 50 (m_SubscribedMessageQueue c @ map copy_of ys)"
  using assms
proof (induction ys arbitrary: s c)
  case Nil
  then show ?case by (simp add: mailbox_ok_def)
next
  case (Cons y ys)
  obtain b where b: "m_pbPayload y = Some b" using Cons.prems(5) by (auto simp: sendable_def split: option.splits)
  obtain s1 c1 where 1: "deliver_or_queue env p (m_cbPayload y) b s = Some ((), s1)" "files s1 p = Some c1" "mailbox_ok c1"
    "mailbox_of c1 = mb_receive (fits_output env) (copy_of y) (mailbox_of c)"
    using deliver_refines [OF Cons.prems(1-3) _ b] Cons.prems(5) by (metis fun_upd_same list.set_intros(1))
  let ?q = "m_SubscribedMessageQueue c"
  have c1: "m_pWdfRequest c1 = None" "m_SubscribedMessageQueue c1 = take 50 (?q @ [copy_of y])"
    using 1(4) Cons.prems(3,4) mailbox_drop_size [OF Cons.prems(3)]
    by (auto simp: mb_receive_def mailbox_of_def split: if_splits)
  have "take 50 (take 50 (?q @ [copy_of y]) @ map copy_of ys) = take 50 (?q @ copy_of y # map copy_of ys)"
    using mailbox_drop_size [OF Cons.prems(3)] by (cases "length ?q = 50") auto
  then show ?case
    using Cons.IH [OF Cons.prems(1) 1(2,3) c1(1)] Cons.prems(5) 1(1) b c1 by simp
qed

theorem burst_is_queued_in_order_witness:
  "\<exists>s' c'. for_each (\<lambda>y. deliver_or_queue example_env 0 (m_cbPayload y) (the (m_pbPayload y)))
      (replicate 60 two_bytes) (one_file subscription) = Some ((), s')
    \<and> files s' 0 = Some c' \<and> length (m_SubscribedMessageQueue c') = 50"
proof -
  have "mailbox_ok subscription" by (simp add: mailbox_ok_def)
  then show ?thesis
    using burst_is_queued_in_order [OF example_env_cooperative, of "one_file subscription" 0 subscription "replicate 60 two_bytes"]
      two_bytes_sendable by fastforce
qed

section \<open>Absence of faults\<close>

text \<open>
  C10. A message from the network whose type is terminated never makes the driver fault: in every
  reachable state in which the locks of the subscriptions can be taken, \<open>HandleReceivedMessage\<close>
  returns, whatever the environment answers and whatever size the message claims, and leaves locks,
  lists, connections, roles and types as they were.
\<close>

theorem receive_never_faults:
  assumes "nfp_reachable env s" and "can_lock_all s (m_SubsHead s)" and "well_sized m" and "wstr (m_szType m) \<noteq> None"
  shows "\<exists>s'. HandleReceivedMessage env m s = Some ((), s') \<and> same_frame s s' \<and> lists_ok s'"
proof -
  have "lists_ok s" using nfp_reachable_ok [OF assms(1)] by simp
  from wp_HandleReceivedMessage [OF this assms(2-4), of env] show ?thesis
    by (cases "HandleReceivedMessage env m s") auto
qed

theorem receive_never_faults_witness:
  "\<exists>s'. HandleReceivedMessage example_env (new_MESSAGE\<lparr>msg_cbPayload := 7\<rparr>) example_pended = Some ((), s') \<and> same_frame example_pended s'"
proof -
  have "can_lock_all example_pended (m_SubsHead example_pended)" by code_simp
  moreover have "well_sized (new_MESSAGE\<lparr>msg_cbPayload := 7\<rparr>)" "wstr (m_szType (new_MESSAGE\<lparr>msg_cbPayload := 7\<rparr>)) \<noteq> None"
    by (simp_all add: well_sized_def new_MESSAGE_def wstr_def MaxCchTypeNetwork_def)
  ultimately show ?thesis using receive_never_faults [OF example_pended_reachable] by blast
qed

text \<open>
  The terminator is not checked: a message whose type array has none is compared past its end as
  soon as one enabled subscription is listed first (the read is undefined, \<open>None\<close>).
\<close>

theorem unterminated_type_overreads:
  assumes "m_SubsHead s = p # ps" and "files s p = Some c" and "m_Role c = ROLE_SUBSCRIPTION" and "m_fEnabled c"
    and "m_pszType c = Some t" and "0 < msg_cbPayload m" and "unat (msg_cbPayload m) \<le> MaxCbPayload"
    and "wstr (m_szType m) = None"
  shows "HandleReceivedMessage env m s = None"
proof -
  have cmp: "CompareStringOrdinal up (Some (m_szType m)) (-1) (Some t) (-1) False = None" for up
    using assms(8) by (cases "counted t (-1)") (simp_all add: CompareStringOrdinal_def counted_def)
  have "match_publication env (Some t) (m_szType m) cb pb s' = None" for cb pb s'
    using cmp assms(8)
    by (cases "CompareStringOrdinal (upcase env) (Some t) (-1) (Some WINDOWSMIME_PROTOCOL) (-1) False")
      (simp_all add: match_publication_def)
  then have "wlp (HandleReceivedMessage env m s) (\<lambda>_ _. False)"
    using assms(1-7)
    by (auto simp: HandleReceivedMessage_def HandleReceivedPublication_def intro!: wlp_Enter)
  then show ?thesis by (cases "HandleReceivedMessage env m s") auto
qed

theorem unterminated_type_overreads_witness:
  "HandleReceivedMessage example_env \<lparr>m_szType = replicate 502 65, msg_cbPayload = 1, m_Payload = replicate 10240 0\<rparr>
     ((one_file subscription)\<lparr>m_SubsHead := [0]\<rparr>) = None"
  by (rule unterminated_type_overreads [where p = 0 and ps = "[]" and c = subscription and t = "wlit ''Windows.a'' @ [0]"])
    (simp_all add: subscription_def typed_context_def new_CFileContext_def MaxCbPayload_def wstr_def)

section \<open>Names\<close>

text \<open>
  C11. Equivalence of the name parser with its meaning: on a new context, with memory available and a
  name of less than \<open>MaxCchType\<close> characters, the chain of length-counted comparisons and pointer
  increments of \<open>OnCreateFile\<close> returns (no read behind the padded buffer) and gives the context the
  status, role and type that \<open>classify\<close> assigns to the name.
\<close>

theorem name_parser_is_classify:
  assumes "nul_safe (upcase env)" and "\<forall>cs. new_succeeds env cs" and "files s p = Some new_CFileContext"
    and "RetrieveFileName_size env f = (S_OK, n)" and "0 < n" and "n \<le> MaxCchType"
    and "RetrieveFileName env f n = (S_OK, x @ replicate j 0)" and "0 \<notin> set x" and "length x + j \<le> n" and "length x < MaxCchType"
  shows "case classify (upcase env) x of (hr, ro, t) \<Rightarrow>
    \<exists>s'. parse_file_name env p f s = Some (hr, s') \<and> files s' = (files s)(p \<mapsto> typed_context ro t)"
  using yields_parse_file_name [OF assms(1) _ assms(3-10)] assms(2) by (simp add: yields_def)

lemma example_upcase_nul_safe: "nul_safe (upcase example_env)"
  by (auto simp: nul_safe_def example_env_def)

lemma example_classified:
  "classify (upcase example_env) (0x5C # wlit ''Subs'' @ 0x5C # wlit ''Windows.a'') = (S_OK, ROLE_SUBSCRIPTION, Some (wlit ''Windows.a''))"
  by code_simp

theorem name_parser_is_classify_witness:
  "\<exists>s'. parse_file_name example_env 0 0 (one_file new_CFileContext) = Some (S_OK, s')
    \<and> files s' = [0 \<mapsto> typed_context ROLE_SUBSCRIPTION (Some (wlit ''Windows.a''))]"
proof -
  let ?x = "0x5C # wlit ''Subs'' @ [0x5C] @ wlit ''Windows.a''"
  have "0 \<notin> set ?x" "length ?x + 1 = length example_name" "example_name = ?x @ replicate 1 0" "length example_name = 16"
    by (simp_all add: wlit_def example_name_def)
  then have "case classify (upcase example_env) ?x of (hr, ro, t) \<Rightarrow> \<exists>s'. parse_file_name example_env 0 0 (one_file new_CFileContext)
      = Some (hr, s') \<and> files s' = (files (one_file new_CFileContext))(0 \<mapsto> typed_context ro t)"
    by (intro name_parser_is_classify [where n = "length example_name" and j = 1] example_upcase_nul_safe)
      (simp_all add: example_env_def MaxCchType_def)
  then show ?thesis by (simp add: example_classified)
qed

end
