(* ===== verification/SocketListener.thy ===== *)
theory SocketListener
  imports Connection "HOL-Library.Multiset"
begin

text \<open>
  \<open>CSocketListener\<close> (\<open>driver/socketlistener.cpp\<close>, \<open>driver/socketlistener.h\<close>): the listening socket,
  the accept loop over a thread pool I/O object, and its shutdown.  The listener has a state of its
  own; the completion of an accept runs \<open>s_AcceptThreadProc\<close> on a pool thread.  What Winsock and
  the thread pool answer is a parameter, a function of the calls made so far (latest first).
\<close>

section \<open>State and environment\<close>

datatype lcall =
    LGetAddrInfo | LFreeAddrInfo
  | LSocket SOCKET                \<comment> \<open>with the socket it returned\<close>
  | LSetSockOpt SOCKET | LBind SOCKET | LListen SOCKET
  | LClose SOCKET
  | LCreateIo | LStartIo | LCancelIo | LWaitIo | LCloseIo
  | LAcceptEx SOCKET SOCKET
  | LValidateAccept SOCKET "byte list"

text \<open>\<open>io_pending\<close> is the thread pool's record that a completion callback is still to come.\<close>

record listener =
  lst_pValidator :: bool
  lst_ThreadpoolIo :: bool
  lst_ThreadpoolThreadId :: tid
  lst_ListenSocket :: SOCKET
  lst_ClientSocket :: SOCKET
  lst_MagicPacket :: "byte list"
  io_pending :: bool
  lst_thread :: tid
  lcalls :: "lcall list"

record listen_env =
  le_getaddrinfo :: "lcall list \<Rightarrow> dword option"
  le_socket :: "lcall list \<Rightarrow> dword + nat"
  le_setsockopt :: "lcall list \<Rightarrow> dword option"
  le_bind :: "lcall list \<Rightarrow> dword option"
  le_create_io :: "lcall list \<Rightarrow> dword option"
  le_listen :: "lcall list \<Rightarrow> dword option"
  le_AcceptEx :: "lcall list \<Rightarrow> dword option"
  le_completion :: "lcall list \<Rightarrow> dword \<times> nat \<times> byte list"
  le_uninitialised_tid :: tid
  le_pool_thread :: tid

definition new_CSocketListener :: "listen_env \<Rightarrow> tid \<Rightarrow> listener" where
  "new_CSocketListener env t =
     \<lparr>lst_pValidator = False, lst_ThreadpoolIo = False, lst_ThreadpoolThreadId = le_uninitialised_tid env,
      lst_ListenSocket = INVALID_SOCKET, lst_ClientSocket = INVALID_SOCKET, lst_MagicPacket = [],
      io_pending = False, lst_thread = t, lcalls = []\<rparr>"

definition llog :: "lcall \<Rightarrow> listener \<Rightarrow> listener" where
  "llog c s = s\<lparr>lcalls := c # lcalls s\<rparr>"

text \<open>A call that fails with an error code of Windows or succeeds.\<close>

definition lcall_result :: "(lcall list \<Rightarrow> dword option) \<Rightarrow> lcall \<Rightarrow> listener \<Rightarrow> hresult \<times> listener" where
  "lcall_result answer c s = (ws_result (answer (lcalls s)), llog c s)"

definition open_socket :: "listen_env \<Rightarrow> listener \<Rightarrow> (hresult \<times> SOCKET) \<times> listener" where
  "open_socket env s =
     (case le_socket env (lcalls s) of
        Inl e \<Rightarrow> ((HRESULT_FROM_WIN32 e, INVALID_SOCKET), llog (LSocket INVALID_SOCKET) s)
      | Inr h \<Rightarrow> ((S_OK, Some h), llog (LSocket (Some h)) s))"

text \<open>The idiom \<open>if (SUCCEEDED(hr)) { hr = ...; }\<close>.\<close>

definition if_succeeded :: "(listener \<Rightarrow> hresult \<times> listener) \<Rightarrow> hresult \<times> listener \<Rightarrow> hresult \<times> listener" where
  "if_succeeded f r = (if SUCCEEDED (fst r) then f (snd r) else r)"

section \<open>Binding\<close>

definition Bind :: "listen_env \<Rightarrow> listener \<Rightarrow> hresult \<times> listener" where
  "Bind env s =
     (let (hr, s) = lcall_result (le_getaddrinfo env) LGetAddrInfo s in
      if SUCCEEDED hr then
        let ((hr, sock), s) = open_socket env s;
            s = s\<lparr>lst_ListenSocket := sock\<rparr>;
            (hr, s) = if_succeeded (lcall_result (le_bind env) (LBind sock))
                        (if_succeeded (lcall_result (le_setsockopt env) (LSetSockOpt sock)) (hr, s))
        in (hr, llog LFreeAddrInfo s)
      else (hr, s))"

section \<open>Accepting\<close>

text \<open>
  \<open>BeginAccept\<close>.  \<open>stop\<close> is \<open>StopAccepting\<close>, which it calls when the accept fails at once; \<open>AcceptEx\<close>
  that succeeds or is pending leaves a completion to come.
\<close>

definition BeginAccept ::
    "listen_env \<Rightarrow> (listener \<Rightarrow> (unit, listener) outcome) \<Rightarrow> listener \<Rightarrow> (hresult, listener) outcome" where
  "BeginAccept env stop s =
     (let ((hr, sock), s) = open_socket env s;
          s = s\<lparr>lst_ClientSocket := sock\<rparr>;
          (hr, s) = if_succeeded (lcall_result (le_setsockopt env) (LSetSockOpt sock)) (hr, s)
      in if SUCCEEDED hr \<and> lst_ThreadpoolIo s then
           let s = llog LStartIo s;
               (hr, s) = lcall_result (le_AcceptEx env) (LAcceptEx (lst_ListenSocket s) sock) s
           in if SUCCEEDED hr \<or> hr = HRESULT_FROM_WIN32 ERROR_IO_PENDING
              then Some (hr, s\<lparr>io_pending := True\<rparr>)
              else do { (_, s) \<leftarrow> stop (llog LCancelIo s); Some (hr, s) }
         else Some (hr, s))"

definition AcceptThreadProc ::
    "listen_env \<Rightarrow> (listener \<Rightarrow> (unit, listener) outcome) \<Rightarrow> hresult \<Rightarrow> nat \<Rightarrow> listener \<Rightarrow> (unit, listener) outcome" where
  "AcceptThreadProc env stop hr cbReceived s = do {
     s \<leftarrow> (if SUCCEEDED hr then
             (if cbReceived = length MAGIC_PACKET
              then (if lst_pValidator s
                    then Some ((llog (LValidateAccept (lst_ClientSocket s) (lst_MagicPacket s)) s)\<lparr>lst_ClientSocket := INVALID_SOCKET\<rparr>)
                    else None)
              else Some ((llog (LClose (lst_ClientSocket s)) s)\<lparr>lst_ClientSocket := INVALID_SOCKET\<rparr>))
           else Some s);
     (_, s) \<leftarrow> BeginAccept env stop s;
     Some ((), s) }"

text \<open>The completion: its result, the number of bytes and the packet the kernel wrote.\<close>

definition s_AcceptThreadProc ::
    "listen_env \<Rightarrow> (listener \<Rightarrow> (unit, listener) outcome) \<Rightarrow> dword \<times> nat \<times> byte list \<Rightarrow> listener
       \<Rightarrow> (unit, listener) outcome" where
  "s_AcceptThreadProc env stop = (\<lambda>(IoResult, cb, packet) s. do {
     let s = s\<lparr>io_pending := False, lst_MagicPacket := packet, lst_ThreadpoolThreadId := lst_thread s\<rparr>;
     (_, s) \<leftarrow> AcceptThreadProc env stop (HRESULT_FROM_WIN32 IoResult) cb s;
     Some ((), s\<lparr>lst_ThreadpoolThreadId := 0\<rparr>) })"

text \<open>
  \<open>WaitForThreadpoolIoCallbacks\<close>: the pending completion, if any, runs on a pool thread.  By then the
  I/O object is gone from the listener, so \<open>BeginAccept\<close> does not come to the call of \<open>StopAccepting\<close>.
\<close>

definition wait_io_callbacks :: "listen_env \<Rightarrow> listener \<Rightarrow> (unit, listener) outcome" where
  "wait_io_callbacks env s =
     (if io_pending s then do {
        let me = lst_thread s;
        (_, s) \<leftarrow> s_AcceptThreadProc env (\<lambda>_. None) (le_completion env (lcalls s)) (s\<lparr>lst_thread := le_pool_thread env\<rparr>);
        Some ((), s\<lparr>lst_thread := me\<rparr>) }
      else Some ((), s))"

definition StopAccepting :: "listen_env \<Rightarrow> listener \<Rightarrow> (unit, listener) outcome" where
  "StopAccepting env s = do {
     let listenSocket = lst_ListenSocket s;
     let s = s\<lparr>lst_ListenSocket := INVALID_SOCKET\<rparr>;
     let s = (if listenSocket \<noteq> INVALID_SOCKET then llog (LClose listenSocket) s else s);
     let threadpoolIo = lst_ThreadpoolIo s;
     let s = s\<lparr>lst_ThreadpoolIo := False\<rparr>;
     (_, s) \<leftarrow> (if threadpoolIo then do {
                 (_, s) \<leftarrow> (if lst_ThreadpoolThreadId s \<noteq> lst_thread s
                           then wait_io_callbacks env (llog LWaitIo s) else Some ((), s));
                 Some ((), llog LCloseIo s) }
               else Some ((), s));
     let s = s\<lparr>lst_pValidator := False\<rparr>;
     Some ((), if lst_ClientSocket s \<noteq> INVALID_SOCKET
               then (llog (LClose (lst_ClientSocket s)) s)\<lparr>lst_ClientSocket := INVALID_SOCKET\<rparr> else s) }"

definition EnableAccepting :: "listen_env \<Rightarrow> listener \<Rightarrow> (hresult, listener) outcome" where
  "EnableAccepting env s =
     (if \<not> lst_pValidator s then
        let (hr, s) = lcall_result (le_create_io env) LCreateIo s;
            s = s\<lparr>lst_ThreadpoolIo := SUCCEEDED hr\<rparr>;
            (hr, s) = if_succeeded (lcall_result (le_listen env) (LListen (lst_ListenSocket s))) (hr, s)
        in if SUCCEEDED hr then do {
             (hr, s) \<leftarrow> BeginAccept env (StopAccepting env) (s\<lparr>lst_pValidator := True\<rparr>);
             Some (if hr = HRESULT_FROM_WIN32 ERROR_IO_PENDING then S_OK else hr, s) }
           else Some (hr, s)
      else Some (S_OK, s))"

section \<open>Ownership of sockets\<close>

text \<open>The sockets that are open, by the trace: opened, and neither closed nor handed to the validator.\<close>

definition sockets :: "SOCKET \<Rightarrow> nat multiset" where
  "sockets sk = (case sk of None \<Rightarrow> {#} | Some h \<Rightarrow> {#h#})"

fun open_of :: "lcall list \<Rightarrow> nat multiset" where
  "open_of [] = {#}"
| "open_of (LSocket sk # cs) = sockets sk + open_of cs"
| "open_of (LClose sk # cs) = open_of cs - sockets sk"
| "open_of (LValidateAccept sk _ # cs) = open_of cs - sockets sk"
| "open_of (_ # cs) = open_of cs"

definition owned :: "listener \<Rightarrow> nat multiset" where
  "owned s = sockets (lst_ListenSocket s) + sockets (lst_ClientSocket s)"

text \<open>Every open socket is in one of the two fields of the listener.\<close>

definition no_leak :: "listener \<Rightarrow> bool" where
  "no_leak s \<longleftrightarrow> open_of (lcalls s) = owned s"

section \<open>Lemmas\<close>

lemma llog_simps [simp]:
  "lst_pValidator (llog c s) = lst_pValidator s" "lst_ThreadpoolIo (llog c s) = lst_ThreadpoolIo s"
  "lst_ThreadpoolThreadId (llog c s) = lst_ThreadpoolThreadId s" "lst_ListenSocket (llog c s) = lst_ListenSocket s"
  "lst_ClientSocket (llog c s) = lst_ClientSocket s" "io_pending (llog c s) = io_pending s"
  "lst_thread (llog c s) = lst_thread s" "lcalls (llog c s) = c # lcalls s" "lst_MagicPacket (llog c s) = lst_MagicPacket s"
  by (simp_all add: llog_def)

lemma sockets_simps [simp]: "sockets None = {#}" "sockets (Some h) = {#h#}"
  by (simp_all add: sockets_def)

text \<open>The calls that neither open nor close leave the ownership alone.\<close>

lemma SUCCEEDED_WIN32: "SUCCEEDED (HRESULT_FROM_WIN32 e) \<longleftrightarrow> e = 0"
  using FAILED_HRESULT_FROM_WIN32 [of e] by blast

definition quiescent :: "listener \<Rightarrow> bool" where
  "quiescent s \<longleftrightarrow> \<not> (lst_ThreadpoolIo s \<and> lst_ThreadpoolThreadId s \<noteq> lst_thread s \<and> io_pending s)"

lemma StopAccepting_closes:
  assumes "no_leak s" and "quiescent s"
  shows "wp (StopAccepting env s) (\<lambda>_ s'. no_leak s' \<and> owned s' = {#} \<and> \<not> lst_pValidator s' \<and> \<not> lst_ThreadpoolIo s')"
  using assms
  by (cases "lst_ListenSocket s"; cases "lst_ClientSocket s")
    (auto simp: StopAccepting_def quiescent_def no_leak_def owned_def wait_io_callbacks_def Let_def)

lemma BeginAccept_owns:
  assumes "no_leak s" and "lst_ClientSocket s = None" and "\<not> io_pending s"
    and stop: "\<And>s. no_leak s \<Longrightarrow> \<not> io_pending s \<Longrightarrow> wp (stop s) (\<lambda>_. no_leak)"
  shows "wp (BeginAccept env stop s) (\<lambda>_. no_leak)"
  using assms(1-3)
  by (auto simp: BeginAccept_def open_socket_def if_succeeded_def lcall_result_def Let_def no_leak_def owned_def
      split: sum.split intro!: wp_mono [OF stop])

lemma stop_without_completion: "no_leak s \<Longrightarrow> \<not> io_pending s \<Longrightarrow> wp (StopAccepting env s) (\<lambda>_. no_leak)"
  by (rule wp_mono [OF StopAccepting_closes]) (auto simp: quiescent_def)

lemma AcceptThreadProc_owns:
  assumes "no_leak s" and "\<not> io_pending s" and "lst_pValidator s" and "SUCCEEDED hr"
  shows "wp (AcceptThreadProc env (StopAccepting env) hr cb s) (\<lambda>_. no_leak)"
  using assms
  by (auto simp: AcceptThreadProc_def Let_def no_leak_def owned_def
      intro!: wp_mono [OF BeginAccept_owns] stop_without_completion split: option.split)

lemma s_AcceptThreadProc_owns:
  assumes "no_leak s" and "lst_pValidator s"
  shows "wp (s_AcceptThreadProc env (StopAccepting env) (0, cb, packet) s) (\<lambda>_. no_leak)"
  using assms
  by (auto simp: s_AcceptThreadProc_def Let_def SUCCEEDED_WIN32 no_leak_def owned_def
      intro!: wp_mono [OF AcceptThreadProc_owns])

lemma Bind_owns:
  assumes "no_leak s" and "lst_ListenSocket s = None"
  shows "no_leak (snd (Bind env s))"
  using assms
  by (auto simp: Bind_def open_socket_def if_succeeded_def lcall_result_def Let_def no_leak_def owned_def
      split: sum.split)

lemma EnableAccepting_owns:
  assumes "no_leak s" and "lst_ClientSocket s = None" and "\<not> io_pending s"
  shows "wp (EnableAccepting env s) (\<lambda>_. no_leak)"
  using assms
  by (auto simp: EnableAccepting_def if_succeeded_def lcall_result_def Let_def no_leak_def owned_def
      intro!: wp_mono [OF BeginAccept_owns] stop_without_completion)

text \<open>
  A completion that failed leaves the client socket of the pending accept in its field, and the
  next accept overwrites the field.  \<open>StopAccepting\<close> provokes this itself: it closes the listening
  socket, so the accept that is pending fails while it waits.
\<close>

lemma StopAccepting_pending:
  assumes "no_leak s" and "lst_ThreadpoolIo s" and "lst_ThreadpoolThreadId s \<noteq> lst_thread s" and "io_pending s"
    and "lst_ClientSocket s = Some h"
    and failed: "fst (le_completion env (LWaitIo # (case lst_ListenSocket s of None \<Rightarrow> lcalls s | Some k \<Rightarrow> LClose (Some k) # lcalls s))) \<noteq> 0"
  shows "wp (StopAccepting env s) (\<lambda>_ s'. owned s' = {#} \<and> open_of (lcalls s') = {#h#})"
  using assms
  by (cases "lst_ListenSocket s"; cases "le_completion env (LWaitIo # (case lst_ListenSocket s of None \<Rightarrow> lcalls s | Some k \<Rightarrow> LClose (Some k) # lcalls s))")
    (auto simp: StopAccepting_def no_leak_def owned_def wait_io_callbacks_def Let_def s_AcceptThreadProc_def
      AcceptThreadProc_def SUCCEEDED_WIN32 BeginAccept_def open_socket_def if_succeeded_def lcall_result_def
      split: sum.split)

end
