(* ===== verification/ConnectionProperties.thy ===== *)
theory ConnectionProperties
  imports NfpProperties SocketListener
begin

text \<open>
  Properties of the connections and of the listening socket: the magic packet as a gate, the state
  machine of a connection, the release of sockets, and the teardowns that fault.
\<close>

section \<open>Handshake\<close>



lemma read_magic_success:
  "SUCCEEDED (fst (read_magic env sk t)) \<Longrightarrow> snd (fst (SynchronousReadSocket env sk 16 t)) = MAGIC_PACKET"
  by (cases "SynchronousReadSocket env sk 16 t") (auto simp: read_magic_def split: if_splits)

lemma if_ok_magic:
  assumes "if_ok (read_magic env sk) r = (hr, t)" and "SUCCEEDED hr"
  shows "\<exists>sk t. snd (fst (SynchronousReadSocket env sk 16 t)) = MAGIC_PACKET"
proof -
  have "SUCCEEDED (fst (read_magic env sk (snd r)))"
    using assms by (cases "FAILED (fst r)") (auto simp: if_ok_def)
  then show ?thesis using read_magic_success by blast
qed

lemma handshake_success:
  "wlp (client_handshake env cb p s) (\<lambda>hr s'. SUCCEEDED hr \<longrightarrow>
     (\<exists>sk t. snd (fst (SynchronousReadSocket env sk 16 t)) = MAGIC_PACKET))"
  unfolding client_handshake_def
  by (auto simp: Let_def split: prod.split dest!: if_ok_magic intro!: wlpI)

text \<open>
  Connecting as a client: success means that the peer's first 16 bytes, as read into the zeroed
  buffer, were the magic packet; after any failure the connection holds no socket, and the socket
  it held is closed as the last thing the call does.
\<close>

theorem client_handshake_outcome:
  assumes "InitializeAsClient env cb p nm s = Some (hr, s')"
  shows "(SUCCEEDED hr \<longrightarrow> (\<exists>sk t. snd (fst (SynchronousReadSocket env sk 16 t)) = MAGIC_PACKET))
    \<and> (FAILED hr \<longrightarrow> (\<exists>c. conns s' p = Some c \<and> conn_Socket c = INVALID_SOCKET))"
proof -
  obtain hr1 s1 where 1: "client_connect env p (nm[MAX_PATH - 1 := 0]) s = (hr1, s1)" by fastforce
  have closed: "wlp (close_if_failed p hr t) (\<lambda>hr' s'. hr' = hr \<and>
      (FAILED hr \<longrightarrow> (\<exists>c. conns s' p = Some c \<and> conn_Socket c = INVALID_SOCKET)))" for hr t
    by (auto simp: close_if_failed_def closesocket_def)
  have "wlp (InitializeAsClient env cb p nm s) (\<lambda>hr s'.
      (SUCCEEDED hr \<longrightarrow> (\<exists>sk t. snd (fst (SynchronousReadSocket env sk 16 t)) = MAGIC_PACKET))
      \<and> (FAILED hr \<longrightarrow> (\<exists>c. conns s' p = Some c \<and> conn_Socket c = INVALID_SOCKET)))"
    using 1 by (auto simp: InitializeAsClient_def intro!: wlp_mono [OF closed] wlp_mono [OF handshake_success])
  then show ?thesis by (rule wlpD [OF _ assms])
qed

text \<open>A client run in the example environment: connection 0 connects to a peer that answers.\<close>

definition example_client :: nfp where
  "example_client = (new_CMyQueue 1)\<lparr>conns := [0 \<mapsto> new_CConnection example_env]\<rparr>"

definition example_connected :: "hresult \<times> nfp" where
  "example_connected = the (InitializeAsClient example_env (queue_callbacks example_env) 0 (replicate 260 65) example_client)"

lemma example_connected_run:
  "InitializeAsClient example_env (queue_callbacks example_env) 0 (replicate 260 65) example_client
     = Some (fst example_connected, snd example_connected)"
proof -
  have "\<not> Option.is_none (InitializeAsClient example_env (queue_callbacks example_env) 0 (replicate 260 65) example_client)"
    by code_simp
  then show ?thesis unfolding example_connected_def by (auto simp: Option.is_none_def)
qed

theorem client_handshake_outcome_witness:
  "fst example_connected = S_OK \<and> m_ConnectionHead (snd example_connected) = [0]
    \<and> (\<exists>sk t. snd (fst (SynchronousReadSocket example_env sk 16 t)) = MAGIC_PACKET)"
proof -
  have "fst example_connected = S_OK" "m_ConnectionHead (snd example_connected) = [0]" by code_simp+
  then show ?thesis using client_handshake_outcome [OF example_connected_run] by simp
qed

section \<open>The state machine of a connection\<close>

text \<open>
  C13. Termination happens once: when the receive thread is the caller or is not running, \<open>Terminate\<close>
  returns, the connection is TERMINATED without a socket, the socket was shut down and closed, and
  a second call changes nothing.
\<close>

theorem terminate_once:
  assumes "conns s p = Some c" and "conn_State c \<noteq> TERMINATED"
    and "conn_ThreadpoolThreadId c = cur_thread s \<or> (conn_ThreadpoolWork c \<and> \<not> recv_active c)"
  shows "\<exists>s'. Terminate (wait_for_receive env) p s = Some ((), s')
    \<and> conns s' = (conns s)(p \<mapsto> c\<lparr>conn_State := TERMINATED, conn_Socket := INVALID_SOCKET\<rparr>)
    \<and> calls s' = (if conn_Socket c = INVALID_SOCKET then [] else [CloseSocket (conn_Socket c)]) @ ShutdownSend (conn_Socket c) # calls s
    \<and> Terminate (wait_for_receive env) p s' = Some ((), s')"
  using assms
  by (cases s) (auto simp: Terminate_def wait_for_receive_def WaitForThreadpoolWorkCallbacks_def Let_def closesocket_def upd_conn_def
      log_call_def fun_upd_idem_iff)

theorem terminate_once_witness:
  "\<exists>s'. Terminate (wait_for_receive example_env) 0
      ((new_CMyQueue 1)\<lparr>conns := [0 \<mapsto> (new_CConnection example_env)\<lparr>conn_State := ESTABLISHED, conn_Socket := Some 7, conn_ThreadpoolThreadId := 1\<rparr>]\<rparr>)
      = Some ((), s') \<and> calls s' = [CloseSocket (Some 7), ShutdownSend (Some 7)]"
  using terminate_once [of "(new_CMyQueue 1)\<lparr>conns := [0 \<mapsto> (new_CConnection example_env)\<lparr>conn_State := ESTABLISHED, conn_Socket := Some 7,
      conn_ThreadpoolThreadId := 1\<rparr>]\<rparr>" 0 "(new_CConnection example_env)\<lparr>conn_State := ESTABLISHED, conn_Socket := Some 7,
      conn_ThreadpoolThreadId := 1\<rparr>" example_env]
  by (auto simp: new_CMyQueue_def)

section \<open>Teardowns that fault\<close>


text \<open>
  A failed send while the list of connections is locked, as in \<open>IOCTL_NFP_SET_PAYLOAD\<close>, deadlocks:
  \<open>Terminate\<close> waits for the receive thread, which needs the lock to leave the list.
\<close>

theorem failed_send_under_lock_deadlocks:
  assumes "conns s p = Some c" and "conn_State c \<noteq> TERMINATED" and "conn_ThreadpoolWork c"
    and "recv_active c" and "conn_ThreadpoolThreadId c \<noteq> cur_thread s" and "conn_Socket c \<noteq> INVALID_SOCKET"
    and "ws_send env (calls s) (conn_Socket c) = Some e"
    and "locks s ConnectionLock = Some (cur_thread s, n)" and "pool_thread env p \<noteq> cur_thread s"
  shows "transmit_to env (wait_for_receive env) q m p s = None"
proof -
  let ?s = "log_call (SendMessage (conn_Socket c) m) s"
  have "waits_for p ?s" using assms(1-5) by (auto simp: waits_for_def)
  then have "Terminate (wait_for_receive env) p ?s = None"
    using assms(8,9) by (intro Terminate_holding) simp_all
  then show ?thesis using assms(1,6,7) by (simp add: transmit_to_def TransmitMessage_def)
qed

text \<open>An environment in which sends fail, and an established connection.\<close>

definition reset_env :: nfp_env where
  "reset_env = example_env\<lparr>ws_send := \<lambda>_ _. Some 10054\<rparr>"

definition established :: connection where
  "established = (new_CConnection reset_env)\<lparr>conn_State := ESTABLISHED, conn_Socket := Some 7, conn_ThreadpoolWork := True,
     recv_active := True, conn_ThreadpoolThreadId := 1000\<rparr>"


theorem failed_send_under_lock_deadlocks_witness:
  "transmit_to reset_env (wait_for_receive reset_env) 3 new_MESSAGE 0
     ((new_CMyQueue 1)\<lparr>conns := [0 \<mapsto> established], locks := [ConnectionLock \<mapsto> (1, 1)]\<rparr>) = None"
  by (rule failed_send_under_lock_deadlocks [where c = established and e = 10054 and n = 1])
    (simp_all add: established_def new_CConnection_def reset_env_def new_CMyQueue_def example_env_def)

section \<open>The counter of a disabled subscription\<close>

lemma Disable_full:
  assumes "files s p = Some c" and "m_Role c = ROLE_SUBSCRIPTION" and "m_fEnabled c" and "m_pWdfRequest c = None"
    and "can_lock s (RoleLock p)"
  shows "\<exists>s'. Disable env p s = Some (S_OK, s') \<and> locks s' = locks s \<and> cur_thread s' = cur_thread s
    \<and> files s' p = Some (c\<lparr>m_fEnabled := False, m_SubscribedMessageQueue := []\<rparr>)"
  using assms by (simp add: Disable_def critical_section CompleteRequest_def)

lemma Enable_disabled:
  assumes "files s p = Some c" and "m_Role c = ROLE_SUBSCRIPTION" and "\<not> m_fEnabled c" and "can_lock s (RoleLock p)"
  shows "\<exists>s'. Enable p s = Some (S_OK, s') \<and> files s' p = Some (c\<lparr>m_fEnabled := True\<rparr>)"
  using assms by (simp add: Enable_def critical_section)

text \<open>
  Disabling a subscription empties its queue but not its counter: after \<open>Disable\<close> and \<open>Enable\<close> of
  a subscription whose queue was full, the queue is empty and every further message is dropped.
\<close>

theorem disable_leaves_counter:
  assumes "files s p = Some c" and "m_Role c = ROLE_SUBSCRIPTION" and "m_fEnabled c" and "m_pWdfRequest c = None"
    and "m_dwQueueSize c = MAX_MESSAGE_QUEUE_SIZE" and "can_lock s (RoleLock p)"
  shows "\<exists>s1 s2 c2. Disable env p s = Some (S_OK, s1) \<and> Enable p s1 = Some (S_OK, s2) \<and> files s2 p = Some c2
    \<and> m_fEnabled c2 \<and> m_SubscribedMessageQueue c2 = [] \<and> (\<forall>n d. deliver_or_queue env p n d s2 = Some ((), s2))"
proof -
  obtain s1 where 1: "Disable env p s = Some (S_OK, s1)" "locks s1 = locks s" "cur_thread s1 = cur_thread s"
    "files s1 p = Some (c\<lparr>m_fEnabled := False, m_SubscribedMessageQueue := []\<rparr>)"
    using Disable_full [OF assms(1-4,6)] by blast
  have "can_lock s1 (RoleLock p)" using assms(6) unfolding can_lock_def 1(2,3) .
  then obtain s2 where 2: "Enable p s1 = Some (S_OK, s2)"
    "files s2 p = Some (c\<lparr>m_fEnabled := True, m_SubscribedMessageQueue := []\<rparr>)"
    using Enable_disabled [OF 1(4)] assms(2) by auto
  moreover have "deliver_or_queue env p n d s2 = Some ((), s2)" for n d
    using 2(2) assms(4,5) by (simp add: deliver_or_queue_def)
  ultimately show ?thesis using 1(1) by auto
qed

theorem disable_leaves_counter_witness:
  "\<exists>s1 s2 c2. Disable example_env 0 (one_file (subscription\<lparr>m_dwQueueSize := 50\<rparr>)) = Some (S_OK, s1)
    \<and> Enable 0 s1 = Some (S_OK, s2) \<and> files s2 0 = Some c2 \<and> m_SubscribedMessageQueue c2 = []
    \<and> deliver_or_queue example_env 0 1 [65] s2 = Some ((), s2)"
  using disable_leaves_counter [of "one_file (subscription\<lparr>m_dwQueueSize := 50\<rparr>)" 0 "subscription\<lparr>m_dwQueueSize := 50\<rparr>" example_env]
  by (fastforce simp: MAX_MESSAGE_QUEUE_SIZE_def can_lock_def)

section \<open>The listening socket\<close>


text \<open>
  Shutdown releases everything: when no accept completion is outstanding, \<open>StopAccepting\<close> returns
  and every socket the listener ever opened and still owned is closed.
\<close>

theorem stop_closes_all_sockets:
  assumes "no_leak s" and "quiescent s"
  shows "\<exists>s'. StopAccepting env s = Some ((), s') \<and> open_of (lcalls s') = {#}
    \<and> lst_ListenSocket s' = INVALID_SOCKET \<and> lst_ClientSocket s' = INVALID_SOCKET \<and> \<not> lst_ThreadpoolIo s' \<and> \<not> lst_pValidator s'"
  using StopAccepting_closes [OF assms, of env]
  by (cases "StopAccepting env s") (auto simp: no_leak_def owned_def sockets_def split: option.splits)

text \<open>
  Shutdown while an accept is pending, which closing the listening socket makes fail, leaks the
  client socket of that accept: its handle is overwritten by the next \<open>BeginAccept\<close>.
\<close>

theorem stop_with_pending_accept_leaks:
  assumes "no_leak s" and "lst_ThreadpoolIo s" and "lst_ThreadpoolThreadId s \<noteq> lst_thread s" and "io_pending s"
    and "lst_ClientSocket s = Some h" and "lst_ListenSocket s = Some k"
    and "fst (le_completion env (LWaitIo # LClose (Some k) # lcalls s)) \<noteq> 0"
  shows "\<exists>s'. StopAccepting env s = Some ((), s') \<and> lst_ListenSocket s' = INVALID_SOCKET \<and> lst_ClientSocket s' = INVALID_SOCKET
    \<and> open_of (lcalls s') = {#h#}"
  using StopAccepting_pending [OF assms(1-5), of env] assms(6,7)
  by (cases "StopAccepting env s") (auto simp: owned_def sockets_def split: option.splits)

text \<open>An environment in which the accept is pending until the listening socket is closed.\<close>

definition listen_example :: listen_env where
  "listen_example =
     \<lparr>le_getaddrinfo = (\<lambda>_. None), le_socket = (\<lambda>cs. Inr (length cs)), le_setsockopt = (\<lambda>_. None), le_bind = (\<lambda>_. None),
      le_create_io = (\<lambda>_. None), le_listen = (\<lambda>_. None), le_AcceptEx = (\<lambda>_. Some 997), le_completion = (\<lambda>_. (995, 0, [])),
      le_uninitialised_tid = 0, le_pool_thread = 50\<rparr>"

definition bound_listener :: listener where
  "bound_listener = snd (Bind listen_example (new_CSocketListener listen_example 1))"

definition accepting_listener :: listener where
  "accepting_listener = snd (the (EnableAccepting listen_example bound_listener))"

lemma bound_listener_owns: "no_leak bound_listener"
  unfolding bound_listener_def
  by (rule Bind_owns) (simp_all add: no_leak_def owned_def new_CSocketListener_def)

lemma accepting_listener_owns: "no_leak accepting_listener"
proof -
  have "lst_ClientSocket bound_listener = None" "\<not> io_pending bound_listener" by code_simp+
  from EnableAccepting_owns [OF bound_listener_owns this, of listen_example] show ?thesis
    unfolding accepting_listener_def by (cases "EnableAccepting listen_example bound_listener") auto
qed


theorem stop_closes_all_sockets_witness:
  "\<exists>s'. StopAccepting listen_example bound_listener = Some ((), s') \<and> open_of (lcalls s') = {#}"
proof -
  have "quiescent bound_listener" by code_simp
  from stop_closes_all_sockets [OF bound_listener_owns this] show ?thesis by blast
qed

theorem stop_with_pending_accept_leaks_witness:
  "\<exists>s' h. StopAccepting listen_example accepting_listener = Some ((), s') \<and> open_of (lcalls s') = {#h#}"
proof -
  have facts: "lst_ThreadpoolIo accepting_listener" "lst_ThreadpoolThreadId accepting_listener \<noteq> lst_thread accepting_listener"
    "io_pending accepting_listener" "lst_ClientSocket accepting_listener = Some 7" "lst_ListenSocket accepting_listener = Some 1"
    by code_simp+
  from stop_with_pending_accept_leaks [OF accepting_listener_owns facts, of listen_example] show ?thesis
    by (auto simp: listen_example_def)
qed

section \<open>Intrusive lists\<close>

text \<open>
  Moving an entry from one intrusive list to another, as the driver does when it unlinks an entry
  and inserts it at the head of a second list, moves exactly that entry, and both lists stay rings.
\<close>

theorem entry_moves_between_lists:
  assumes "ring s h (xs @ e # ys)" and "ring s k zs" and "set (k # zs) \<inter> set (h # xs @ e # ys) = {}"
  shows "ring (InsertHeadList k e (snd (RemoveEntryList e s))) h (xs @ ys)
    \<and> ring (InsertHeadList k e (snd (RemoveEntryList e s))) k (e # zs)"
  using links.moved_between_lists [OF assms] .

text \<open>Two rings in one store.\<close>

definition two_rings :: links where
  "two_rings = InsertHeadList 0 5 (InitializeListHead 1 (InitializeListHead 0 (\<lambda>_. \<lparr>Flink = 0, Blink = 0\<rparr>)))"

lemma two_rings: "ring two_rings 0 ([] @ 5 # [])" "ring two_rings 1 []"
  by (simp_all add: two_rings_def ring_def InsertHeadList_def InitializeListHead_def Let_def)

theorem entry_moves_between_lists_witness:
  "ring (InsertHeadList 1 5 (snd (RemoveEntryList 5 two_rings))) 0 []
    \<and> ring (InsertHeadList 1 5 (snd (RemoveEntryList 5 two_rings))) 1 [5]"
  using entry_moves_between_lists [OF two_rings] by simp

text \<open>
  The walk that takes a closed handle or a terminated connection out of its list ends on every
  ring, and unlinks the entry if it is there and nothing otherwise.
\<close>

theorem unlink_walk_removes:
  assumes "ring s h xs"
  shows "\<exists>s'. find_and_unlink h e s = Some s' \<and> ring s' h (remove1 e xs)"
  using find_and_unlink_ring [OF assms] .

theorem unlink_walk_removes_witness: "\<exists>s'. find_and_unlink 0 5 two_rings = Some s' \<and> ring s' 0 []"
  using unlink_walk_removes [OF two_rings(1), of 5] by simp

end
