(* ===== verification/NfpDriver.thy ===== *)
theory NfpDriver
  imports ConnectionProperties
begin

text \<open>
  The whole object \<open>CMyQueue\<close>: the queue of \<open>NfpQueue\<close> together with its member \<open>m_SocketListener\<close> and
  the framework queue it refers to; its initialisation, clean-up and destructor.
\<close>

record driver =
  d_queue :: nfp
  m_SocketListener :: listener
  m_FxQueue :: bool

definition new_driver :: "listen_env \<Rightarrow> tid \<Rightarrow> driver" where
  "new_driver lenv t = \<lparr>d_queue = new_CMyQueue t, m_SocketListener = new_CSocketListener lenv t, m_FxQueue = False\<rparr>"

text \<open>\<open>CMyQueue::Initialize\<close>; \<open>hrCreate\<close> is what the framework's \<open>CreateIoQueue\<close> returned.\<close>

definition CMyQueue_Initialize :: "listen_env \<Rightarrow> hresult \<Rightarrow> driver \<Rightarrow> (hresult, driver) outcome" where
  "CMyQueue_Initialize lenv hrCreate d =
     (if FAILED hrCreate then Some (hrCreate, d)
      else
        (let (hr, l) = Bind lenv (m_SocketListener d) in
         if FAILED hr then Some (hr, d\<lparr>m_SocketListener := l\<rparr>)
         else do {
           (hr, l) \<leftarrow> EnableAccepting lenv l;
           Some (hr, d\<lparr>m_SocketListener := l, m_FxQueue := (if SUCCEEDED hr then True else m_FxQueue d)\<rparr>) }))"

definition OnCleanup :: "driver \<Rightarrow> driver" where
  "OnCleanup d = d\<lparr>m_FxQueue := False\<rparr>"

text \<open>\<open>~CMyQueue\<close>: stop accepting, delete the connections, delete the locks.\<close>

definition delete_locks :: "nfp \<Rightarrow> nfp" where
  "delete_locks s = s\<lparr>locks := (locks s)(SubsLock := None, PubsLock := None, ConnectionLock := None)\<rparr>"

definition CMyQueue_delete :: "nfp_env \<Rightarrow> listen_env \<Rightarrow> driver \<Rightarrow> (unit, driver) outcome" where
  "CMyQueue_delete env lenv d = do {
     (_, l) \<leftarrow> StopAccepting lenv (m_SocketListener d);
     (_, s) \<leftarrow> delete_connections env (wait_for_receive env) (d_queue d);
     Some ((), d\<lparr>m_SocketListener := l, d_queue := delete_locks s\<rparr>) }"

section \<open>Deleting the connections\<close>

lemma delete_connections_empty: "wlp (delete_connections env wait s) (\<lambda>_ s'. m_ConnectionHead s' = [])"
proof (rule wlpI)
  fix a s' assume ret: "delete_connections env wait s = Some (a, s')"
  let ?P = "\<lambda>(env' :: nfp_env) (wait' :: waiter) (s :: nfp) r. m_ConnectionHead (snd r) = []"
  have "?P env wait s (a, s')"
  proof (rule delete_connections.raw_induct [where P = ?P, OF _ ret])
    fix f env' wait' s r
    assume IH: "\<And>env' wait' s r. f env' wait' s = Some r \<Longrightarrow> m_ConnectionHead (snd r) = []"
      and eq: "(case m_ConnectionHead s of [] \<Rightarrow> Some ((), s)
        | p # ps \<Rightarrow> CConnection_delete wait' p (s\<lparr>m_ConnectionHead := ps\<rparr>) \<bind> (\<lambda>(_, s). f env' wait' s)) = Some r"
    from eq show "m_ConnectionHead (snd r) = []"
      by (auto split: list.splits bind_splits intro: IH)
  qed
  then show "m_ConnectionHead s' = []" by simp
qed

text \<open>
  The destructor of the queue, when no accept is pending and it returns, leaves no socket of the
  listener open and no connection in the list.
\<close>

theorem queue_destructor_releases:
  assumes "no_leak (m_SocketListener d)" and "quiescent (m_SocketListener d)" and "CMyQueue_delete env lenv d = Some (u, d')"
  shows "open_of (lcalls (m_SocketListener d')) = {#} \<and> m_ConnectionHead (d_queue d') = []"
proof -
  obtain l s where 1: "StopAccepting lenv (m_SocketListener d) = Some ((), l)"
    "delete_connections env (wait_for_receive env) (d_queue d) = Some ((), s)"
    "d' = d\<lparr>m_SocketListener := l, d_queue := delete_locks s\<rparr>"
    using assms(3) by (auto simp: CMyQueue_delete_def split: bind_splits)
  have "m_ConnectionHead s = []" using wlpD [OF delete_connections_empty 1(2)] .
  moreover have "no_leak l \<and> owned l = {#}" using StopAccepting_closes [OF assms(1,2), of lenv] 1(1) by simp
  ultimately show ?thesis using 1(3) by (simp add: delete_locks_def no_leak_def)
qed

text \<open>A listener that has not started to accept, and one connection whose receive thread has ended.\<close>

definition idle_driver :: driver where
  "idle_driver = (new_driver listen_example 1)\<lparr>m_SocketListener := bound_listener,
     d_queue := (new_CMyQueue 1)\<lparr>conns := [0 \<mapsto> established\<lparr>recv_active := False\<rparr>], m_ConnectionHead := [0]\<rparr>\<rparr>"

theorem queue_destructor_releases_witness:
  "\<exists>d'. CMyQueue_delete example_env listen_example idle_driver = Some ((), d') \<and> open_of (lcalls (m_SocketListener d')) = {#}
    \<and> m_ConnectionHead (d_queue d') = []"
proof -
  have "\<not> Option.is_none (CMyQueue_delete example_env listen_example idle_driver)" by code_simp
  then obtain d' where d': "CMyQueue_delete example_env listen_example idle_driver = Some ((), d')"
    by (auto simp: Option.is_none_def)
  have "quiescent bound_listener" by code_simp
  then show ?thesis
    using queue_destructor_releases [OF _ _ d'] bound_listener_owns d' by (simp add: idle_driver_def)
qed

text \<open>
  The destructor faults when an accepted connection is still established: the receive thread it
  waits for deletes the same connection.
\<close>

theorem queue_destructor_faults_on_inbound:
  assumes "m_ConnectionHead (d_queue d) = p # ps" and "conns (d_queue d) p = Some c" and "conn_fInbound c"
    and "conn_State c \<noteq> TERMINATED" and "conn_ThreadpoolWork c" and "recv_active c"
    and "conn_ThreadpoolThreadId c \<noteq> cur_thread (d_queue d)"
  shows "CMyQueue_delete env lenv d = None"
proof -
  let ?s = "(d_queue d)\<lparr>m_ConnectionHead := ps\<rparr>"
  have "waits_for p ?s" "inbound p ?s" using assms(2-7) by (auto simp: waits_for_def inbound_def)
  then have "CConnection_delete (wait_for_receive env) p ?s = None"
    by (simp add: CConnection_delete_def Terminate_inbound)
  then have "delete_connections env (wait_for_receive env) (d_queue d) = None"
    using assms(1) by (simp add: delete_connections.simps [of env _ "d_queue d"])
  then show ?thesis by (cases "StopAccepting lenv (m_SocketListener d)") (simp_all add: CMyQueue_delete_def)
qed

theorem queue_destructor_faults_on_inbound_witness:
  "CMyQueue_delete example_env listen_example (idle_driver\<lparr>d_queue :=
     (new_CMyQueue 1)\<lparr>conns := [0 \<mapsto> established\<lparr>conn_fInbound := True\<rparr>], m_ConnectionHead := [0]\<rparr>\<rparr>) = None"
  by (rule queue_destructor_faults_on_inbound [where p = 0 and ps = "[]" and c = "established\<lparr>conn_fInbound := True\<rparr>"])
    (simp_all add: idle_driver_def established_def new_CConnection_def new_CMyQueue_def)

text \<open>
  Initialisation never loses a socket, and a driver that reports success is accepting or has a
  listener that holds all its sockets; a driver that reports failure has not taken its queue.
\<close>

theorem initialize_owns_sockets:
  "wp (CMyQueue_Initialize lenv hrCreate (new_driver lenv t))
     (\<lambda>hr d. no_leak (m_SocketListener d) \<and> (m_FxQueue d \<longleftrightarrow> SUCCEEDED hr) \<and> d_queue d = new_CMyQueue t)"
proof (cases "FAILED hrCreate")
  case True
  then show ?thesis by (simp add: CMyQueue_Initialize_def new_driver_def no_leak_def owned_def new_CSocketListener_def)
next
  case False
  obtain hr l where bind: "Bind lenv (new_CSocketListener lenv t) = (hr, l)" by fastforce
  have "no_leak l"
    using Bind_owns [of "new_CSocketListener lenv t" lenv] bind by (simp add: no_leak_def owned_def new_CSocketListener_def)
  moreover have "lst_ClientSocket l = None" "\<not> io_pending l"
    using bind by (auto simp: Bind_def open_socket_def if_succeeded_def lcall_result_def Let_def new_CSocketListener_def
        split: sum.splits if_splits)
  ultimately show ?thesis
    using False bind
    by (auto simp: CMyQueue_Initialize_def new_driver_def intro!: wp_mono [OF EnableAccepting_owns])
qed

end
