(* ===== verification/LspState.thy ===== *)
theory LspState
  imports Win32
begin

text \<open>
  The state of the layered service provider (\<open>network-programming-for-mswin-cdrom/chapter12/LSP\<close>,
  types of \<open>provider.h\<close>, globals of \<open>spi.cpp\<close>, \<open>overlap.cpp\<close> and \<open>asyncselect.cpp\<close>): the private
  heap of \<open>SOCK_INFO\<close> and \<open>WSAOVERLAPPEDPLUS\<close> structures, the providers below with the lists of
  their sockets, the memory of the application that the provider reads and writes through pointers,
  the critical sections, and the trace of the calls to Winsock, to the providers below and to
  Windows (latest first).  What those calls answer is a parameter, a function of the trace.
\<close>

section \<open>Names and constants\<close>

type_synonym sid = nat       \<comment> \<open>\<open>SOCK_INFO*\<close>\<close>
type_synonym oid = nat       \<comment> \<open>\<open>WSAOVERLAPPEDPLUS*\<close>\<close>
type_synonym aid = nat       \<comment> \<open>the application's \<open>WSAOVERLAPPED*\<close>\<close>
type_synonym pid = nat       \<comment> \<open>index into \<open>gBaseInfo\<close>\<close>
type_synonym thread = nat
type_synonym handle = "nat option"   \<comment> \<open>socket handle, \<open>None\<close> for \<open>INVALID_SOCKET\<close>\<close>
type_synonym appptr = "nat option"      \<comment> \<open>pointer into the application, \<open>None\<close> for \<open>NULL\<close>\<close>
type_synonym ulong_ptr = "64 word"

abbreviation (input) NO_ERROR :: dword where "NO_ERROR \<equiv> 0"
abbreviation (input) WSA_IO_PENDING :: dword where "WSA_IO_PENDING \<equiv> 997"
abbreviation (input) WSA_IO_INCOMPLETE :: dword where "WSA_IO_INCOMPLETE \<equiv> 996"
abbreviation (input) WSAEFAULT :: dword where "WSAEFAULT \<equiv> 10014"
abbreviation (input) WSAEINVAL :: dword where "WSAEINVAL \<equiv> 10022"
abbreviation (input) WSAEPROTOTYPE :: dword where "WSAEPROTOTYPE \<equiv> 10041"
abbreviation (input) WSAEPROTONOSUPPORT :: dword where "WSAEPROTONOSUPPORT \<equiv> 10043"
abbreviation (input) WSAESOCKTNOSUPPORT :: dword where "WSAESOCKTNOSUPPORT \<equiv> 10044"
abbreviation (input) WSAEAFNOSUPPORT :: dword where "WSAEAFNOSUPPORT \<equiv> 10047"
abbreviation (input) WSAENOBUFS :: dword where "WSAENOBUFS \<equiv> 10055"
abbreviation (input) WSANOTINITIALISED :: dword where "WSANOTINITIALISED \<equiv> 10093"
abbreviation (input) WSAEPROVIDERFAILEDINIT :: dword where "WSAEPROVIDERFAILEDINIT \<equiv> 10106"
abbreviation (input) WSASYSCALLFAILURE :: dword where "WSASYSCALLFAILURE \<equiv> 10107"
abbreviation (input) ERROR_INVALID_PARAMETER :: dword where "ERROR_INVALID_PARAMETER \<equiv> 87"
abbreviation (input) WSS_OPERATION_IN_PROGRESS :: ulong_ptr where "WSS_OPERATION_IN_PROGRESS \<equiv> 0x103"
abbreviation (input) SOCKET_ERROR :: int where "SOCKET_ERROR \<equiv> - 1"
abbreviation (input) XP1_IFS_HANDLES :: dword where "XP1_IFS_HANDLES \<equiv> 0x20000"
abbreviation (input) BASE_PROTOCOL :: int where "BASE_PROTOCOL \<equiv> 1"
abbreviation (input) AF_UNSPEC :: int where "AF_UNSPEC \<equiv> 0"
abbreviation (input) IPPROTO_RAW :: int where "IPPROTO_RAW \<equiv> 255"
abbreviation (input) SOCK_RAW :: int where "SOCK_RAW \<equiv> 3"
abbreviation (input) FD_SETSIZE :: nat where "FD_SETSIZE \<equiv> 64"
abbreviation (input) WM_SOCKET :: nat where "WM_SOCKET \<equiv> 0x401"

definition DEFAULT_POOL_COUNT :: nat where "DEFAULT_POOL_COUNT = 100"
definition MAX_PROC_COUNT :: nat where "MAX_PROC_COUNT = 32"

section \<open>Structures of provider.h\<close>

record SOCK_INFO =
  si_ProviderSocket :: handle
  si_LayeredSocket :: handle
  si_dwOutstandingAsync :: dword
  si_bClosing :: bool
  si_RefCount :: dword
  si_BytesSent :: dword
  si_BytesRecv :: dword
  si_hIocp :: bool
  si_hWnd :: nat
  si_uMsg :: nat
  si_Provider :: pid
  si_prev :: "sid option"
  si_next :: "sid option"

text \<open>
  Winsock's catalog entry with the members the provider reads; \<open>pi_rest\<close> stands for the others,
  which are only copied.
\<close>

record WSAPROTOCOL_INFOW =
  dwServiceFlags1 :: dword
  ProviderId :: "128 word"
  dwCatalogEntryId :: dword
  ChainLen :: int
  ChainEntries :: "dword list"
  iAddressFamily :: int
  iSocketType :: int
  iProtocol :: int
  dwProviderReserved :: dword
  szProtocol :: "wchar list"
  pi_rest :: nat

text \<open>The entries of the procedure table of a provider below, and its extension functions.\<close>

datatype lower_fn = lpWSPAccept | lpWSPAddressToString | lpWSPAsyncSelect | lpWSPBind
  | lpWSPCancelBlockingCall | lpWSPCleanup | lpWSPCloseSocket | lpWSPConnect | lpWSPDuplicateSocket
  | lpWSPEnumNetworkEvents | lpWSPEventSelect | lpWSPGetOverlappedResult | lpWSPGetPeerName
  | lpWSPGetSockOpt | lpWSPGetSockName | lpWSPGetQOSByName | lpWSPIoctl | lpWSPJoinLeaf
  | lpWSPListen | lpWSPRecv | lpWSPRecvDisconnect | lpWSPRecvFrom | lpWSPSelect | lpWSPSend
  | lpWSPSendDisconnect | lpWSPSendTo | lpWSPSetSockOpt | lpWSPShutdown | lpWSPSocket
  | lpWSPStringToAddress

datatype ext_fn = AcceptEx | TransmitFile | GetAcceptExSockaddrs | TransmitPackets | ConnectEx
  | DisconnectEx | WSARecvMsg

record PROVIDER =
  NextProvider :: WSAPROTOCOL_INFOW
  LayeredProvider :: WSAPROTOCOL_INFOW
  NextProcTable :: "lower_fn list"       \<comment> \<open>the entries that are not \<open>NULL\<close>\<close>
  NextProcTableExt :: "ext_fn list"      \<comment> \<open>the entries that are not \<open>NULL\<close>\<close>
  ProviderPath :: "wchar list"
  hProvider :: bool
  SocketList :: "sid option"

datatype lsp_op = LSP_OP_IOCTL | LSP_OP_RECV | LSP_OP_RECVFROM | LSP_OP_SEND | LSP_OP_SENDTO
  | LSP_OP_TRANSMITFILE | LSP_OP_ACCEPTEX | LSP_OP_CONNECTEX | LSP_OP_DISCONNECTEX
  | LSP_OP_TRANSMITPACKETS | LSP_OP_WSARECVMSG | LSP_OP_none

text \<open>An array of \<open>WSABUF\<close>: the application's, or a copy on the private heap.\<close>

datatype bufptr = NullBuf | AppBuf nat | HeapBuf nat

text \<open>
  The union of the argument structures, with their members in the order of the header;
  \<open>ZeroArgs\<close> is the union zeroed.
\<close>

datatype lsp_args =
    ZeroArgs
  | AcceptExArgs handle handle appptr dword dword dword dword
      \<comment> \<open>\<open>sAcceptSocket sProviderAcceptSocket lpOutputBuffer dwReceiveDataLength dwLocalAddressLength dwRemoteAddressLength dwBytesReceived\<close>\<close>
  | TransmitFileArgs nat dword dword appptr dword
      \<comment> \<open>\<open>hFile nNumberOfBytesToWrite nNumberOfBytesPerSend lpTransmitBuffers dwFlags\<close>\<close>
  | ConnectExArgs handle "byte list" int appptr dword dword
      \<comment> \<open>\<open>s name namelen lpSendBuffer dwSendDataLength dwBytesSent\<close>\<close>
  | TransmitPacketsArgs handle appptr dword dword dword
      \<comment> \<open>\<open>s lpPacketArray nElementCount nSendSize dwFlags\<close>\<close>
  | DisconnectExArgs handle dword dword                  \<comment> \<open>\<open>s dwFlags dwReserved\<close>\<close>
  | WSARecvMsgArgs handle appptr dword                      \<comment> \<open>\<open>s lpMsg dwNumberOfBytesRecvd\<close>\<close>
  | RecvArgs bufptr dword dword dword                    \<comment> \<open>\<open>lpBuffers dwBufferCount dwNumberOfBytesRecvd dwFlags\<close>\<close>
  | RecvFromArgs bufptr dword dword dword appptr appptr        \<comment> \<open>\<open>... lpFrom lpFromLen\<close>\<close>
  | SendArgs bufptr dword dword dword                    \<comment> \<open>\<open>lpBuffers dwBufferCount dwNumberOfBytesSent dwFlags\<close>\<close>
  | SendToArgs bufptr dword dword dword "byte list" int  \<comment> \<open>\<open>... To iToLen\<close>\<close>
  | IoctlArgs dword appptr dword appptr dword dword
      \<comment> \<open>\<open>dwIoControlCode lpvInBuffer cbInBuffer lpvOutBuffer cbOutBuffer cbBytesReturned\<close>\<close>

record WSAOVERLAPPEDPLUS =
  olp_Offset :: dword
  olp_OffsetHigh :: dword
  olp_Provider :: pid
  olp_SockInfo :: "sid option"
  olp_CallerSocket :: handle
  olp_ProviderSocket :: handle
  olp_Error :: dword
  olp_args :: lsp_args
  olp_Operation :: lsp_op
  olp_lpCallerThreadId :: ulong_ptr
  olp_lpCallerOverlapped :: "aid option"
  olp_lpCallerCompletionRoutine :: ulong_ptr
  olp_next :: "oid option"

text \<open>All members zero; handle 0 is not \<open>INVALID_SOCKET\<close>.\<close>

definition zero_olp :: WSAOVERLAPPEDPLUS where
  "zero_olp = \<lparr>olp_Offset = 0, olp_OffsetHigh = 0, olp_Provider = 0, olp_SockInfo = None,
     olp_CallerSocket = Some 0, olp_ProviderSocket = Some 0, olp_Error = 0, olp_args = ZeroArgs,
     olp_Operation = LSP_OP_none, olp_lpCallerThreadId = 0, olp_lpCallerOverlapped = None,
     olp_lpCallerCompletionRoutine = 0, olp_next = None\<rparr>"

text \<open>The \<open>WSAOVERLAPPED\<close> of the application.\<close>

record OVERLAPPED =
  ov_Internal :: ulong_ptr
  ov_InternalHigh :: ulong_ptr
  ov_Offset :: dword
  ov_OffsetHigh :: dword
  ov_hEvent :: ulong_ptr

text \<open>
  Memory of the application other than its \<open>OVERLAPPED\<close> structures, by the type it is accessed at;
  a pointer the application passes is assumed to be null or valid.
\<close>

datatype guid = WSAID_ACCEPTEX | WSAID_TRANSMITFILE | WSAID_GETACCEPTEXSOCKADDRS | WSAID_CONNECTEX
  | WSAID_DISCONNECTEX | WSAID_TRANSMITPACKETS | WSAID_WSARECVMSG | other_guid nat

record memory =
  m_dword :: "nat \<Rightarrow> dword"
  m_char :: "nat \<Rightarrow> byte"
  m_bytes :: "nat \<Rightarrow> byte list"
  m_sock :: "nat \<Rightarrow> handle"
  m_guid :: "nat \<Rightarrow> guid"
  m_fn :: "nat \<Rightarrow> ext_fn option"
  m_info :: "nat \<Rightarrow> WSAPROTOCOL_INFOW"
  m_infoA :: "nat \<Rightarrow> WSAPROTOCOL_INFOW \<times> byte list"
  m_fds :: "nat \<Rightarrow> handle list"
  m_bufs :: "nat \<Rightarrow> (nat \<times> dword) list"

section \<open>Calls to the outside\<close>

text \<open>An argument handed to a provider below, and the calls as the trace records them.\<close>

datatype arg = Hnd handle | DWord dword | Num int | Ptr appptr | BOOL bool | ULong nat | Bufs bufptr | Bytes "byte list"
  | Info WSAPROTOCOL_INFOW | Fds "handle list option" | Olp oid | Routine ulong_ptr | Thread ulong_ptr
  | FnOut ext_fn | Guid guid

datatype lspcall =
    QueryContext handle | CloseSocketHandle handle | CreateSocketHandle dword sid
  | QueueApc ulong_ptr aid | CompleteOverlapped handle aid dword dword | PostMessage nat nat handle nat
  | UserCompletion ulong_ptr dword ulong_ptr aid dword
  | Lower lower_fn pid "arg list" | LowerExt ext_fn pid "arg list" | LowerStartup pid WSAPROTOCOL_INFOW
  | CreatePort handle | NewPort | NewSemaphore | ReleaseSemaphore | ResetEvent ulong_ptr
  | HeapAllocate | StartThread nat | PostExit | WaitThreads dword | CloseThread nat | ClosePort
  | CloseSemaphore | WaitEvent ulong_ptr | EnumProtocols | GetPath "128 word" | LoadLib "wchar list"
  | FreeLib pid | DestroyWindow | CloseWorkerThread | StartWindowThread

datatype llock = gCriticalSection | gOverlappedCS | gDebugCritSec | ProviderCritSec pid | SockCritSec sid

section \<open>The provider\<close>

record lsp =
  infos :: "sid \<rightharpoonup> SOCK_INFO"
  gBaseInfo :: "PROVIDER list option"
  gLayerCount :: nat
  gEntryCount :: dword
  gLayerCatId :: dword
  bDetached :: bool
  hLspHeap :: bool
  TlsIndex :: bool
  blocking :: "thread \<rightharpoonup> pid"
  olps :: "oid \<rightharpoonup> WSAOVERLAPPEDPLUS"
  FreePool :: "oid option"
  PendingStart :: "oid option"
  PendingEnd :: "oid option"
  app_ov :: "aid \<Rightarrow> OVERLAPPED"
  mem :: memory
  copied :: "nat \<rightharpoonup> (nat \<times> dword) list"
  ghIocp :: bool
  ghWakeupSemaphore :: bool
  wakeups :: nat
  gWorkerThread :: "bool list"
  gdwThreadCount :: dword
  WorkerThreadHandle :: bool
  AsyncWindow :: "nat option"
  lpErrno :: dword       \<comment> \<open>the \<open>int\<close> the caller's \<open>lpErrno\<close> points to\<close>
  LastError :: dword     \<comment> \<open>\<open>WSASetLastError\<close>, \<open>WSAGetLastError\<close>\<close>
  lsp_next :: nat        \<comment> \<open>next fresh block of the private heap\<close>
  llocks :: "llock \<rightharpoonup> thread \<times> nat"
  lthread :: thread
  ltrace :: "lspcall list"

text \<open>
  What a provider below answers: its return value or socket, the error it stores through the
  \<open>lpErrno\<close> it is given or leaves for \<open>WSAGetLastError\<close>, the byte count and flags it stores into the
  members it is given the addresses of, the sets of a \<open>WSPSelect\<close>, the extension function it
  returns (\<open>Some True\<close> a pointer, \<open>Some False\<close> null), and its writes to memory of the application.
\<close>

record lower_answer =
  la_ret :: int
  la_socket :: handle
  la_Errno :: "dword option"
  la_bytes :: "dword option"
  la_flags :: "dword option"
  la_sets :: "handle list \<times> handle list \<times> handle list"
  la_ext :: "bool option"
  la_mem :: "memory \<Rightarrow> memory"

record lsp_env =
  WPUQuerySocketHandleContext :: "lspcall list \<Rightarrow> handle \<Rightarrow> dword + sid"
  WPUCloseSocketHandle :: "lspcall list \<Rightarrow> dword option"
  WPUCreateSocketHandle :: "lspcall list \<Rightarrow> dword + nat"
  WPUCompleteOverlappedRequest :: "lspcall list \<Rightarrow> OVERLAPPED \<Rightarrow> OVERLAPPED"
  WPUFDIsSet :: "handle \<Rightarrow> handle list \<Rightarrow> bool"
  lower :: "lspcall list \<Rightarrow> lower_answer"
  lower_startup :: "lspcall list \<Rightarrow> int \<times> lower_fn list"
  create_io_port :: "lspcall list \<Rightarrow> dword option"
  heap_alloc_ok :: "lspcall list \<Rightarrow> bool"
  iocp_available :: bool
  semaphore_available :: bool
  processors :: dword
  create_thread_ok :: "lspcall list \<Rightarrow> bool"
  IsWindow :: "nat \<Rightarrow> bool"
  new_window :: "lspcall list \<Rightarrow> nat option"
  wait_event :: "lspcall list \<Rightarrow> bool \<times> OVERLAPPED"
  to_multibyte :: "wchar list \<Rightarrow> byte list"
  catalog :: "lspcall list \<Rightarrow> dword + WSAPROTOCOL_INFOW list"
  provider_path :: "128 word \<Rightarrow> wchar list option"
  expand_path :: "wchar list \<Rightarrow> wchar list option"
  load_library :: "wchar list \<Rightarrow> bool"
  has_startup :: "wchar list \<Rightarrow> bool"
  create_heap_ok :: bool
  tls_alloc_ok :: bool

section \<open>Primitive state changes\<close>

definition trace :: "lspcall \<Rightarrow> lsp \<Rightarrow> lsp" where
  "trace c s = s\<lparr>ltrace := c # ltrace s\<rparr>"

definition upd_info :: "sid \<Rightarrow> (SOCK_INFO \<Rightarrow> SOCK_INFO) \<Rightarrow> lsp \<Rightarrow> lsp" where
  "upd_info p f s = s\<lparr>infos := (infos s)(p := map_option f (infos s p))\<rparr>"

definition upd_olp :: "oid \<Rightarrow> (WSAOVERLAPPEDPLUS \<Rightarrow> WSAOVERLAPPEDPLUS) \<Rightarrow> lsp \<Rightarrow> lsp" where
  "upd_olp p f s = s\<lparr>olps := (olps s)(p := map_option f (olps s p))\<rparr>"

definition upd_ov :: "aid \<Rightarrow> (OVERLAPPED \<Rightarrow> OVERLAPPED) \<Rightarrow> lsp \<Rightarrow> lsp" where
  "upd_ov p f s = s\<lparr>app_ov := (app_ov s)(p := f (app_ov s p))\<rparr>"

text \<open>\<open>gBaseInfo[i]\<close>; a null array or an index past its end is not defined.\<close>

definition prov :: "lsp \<Rightarrow> pid \<Rightarrow> PROVIDER option" where
  "prov s i = (case gBaseInfo s of None \<Rightarrow> None | Some ps \<Rightarrow> if i < length ps then Some (ps ! i) else None)"

definition upd_prov :: "pid \<Rightarrow> (PROVIDER \<Rightarrow> PROVIDER) \<Rightarrow> lsp \<Rightarrow> lsp" where
  "upd_prov i f s = s\<lparr>gBaseInfo := map_option (\<lambda>ps. ps[i := f (ps ! i)]) (gBaseInfo s)\<rparr>"

text \<open>Critical sections, as in the driver: a wait for a lock another thread owns is not defined here.\<close>

definition Enter :: "llock \<Rightarrow> lsp \<Rightarrow> (unit, lsp) outcome" where
  "Enter l s =
     (case llocks s l of
        None \<Rightarrow> Some ((), s\<lparr>llocks := (llocks s)(l \<mapsto> (lthread s, 1))\<rparr>)
      | Some (t, n) \<Rightarrow>
          if t = lthread s then Some ((), s\<lparr>llocks := (llocks s)(l \<mapsto> (t, Suc n))\<rparr>) else None)"

definition Leave :: "llock \<Rightarrow> lsp \<Rightarrow> (unit, lsp) outcome" where
  "Leave l s =
     (case llocks s l of
        None \<Rightarrow> None
      | Some (t, n) \<Rightarrow>
          if t = lthread s
          then Some ((), s\<lparr>llocks := (llocks s)(l := (if n \<le> 1 then None else Some (t, n - 1)))\<rparr>)
          else None)"

definition DeleteCriticalSection :: "llock \<Rightarrow> lsp \<Rightarrow> lsp" where
  "DeleteCriticalSection l s = s\<lparr>llocks := (llocks s)(l := None)\<rparr>"

text \<open>\<open>EnterCriticalSection(l); ... LeaveCriticalSection(l);\<close> on every way out of the code between.\<close>

definition locked :: "llock \<Rightarrow> (lsp \<Rightarrow> ('a, lsp) outcome) \<Rightarrow> lsp \<Rightarrow> ('a, lsp) outcome" where
  "locked l f s = do {
     (_, s) \<leftarrow> Enter l s;
     (a, s) \<leftarrow> f s;
     (_, s) \<leftarrow> Leave l s;
     Some (a, s) }"

definition AcquireSocketLock :: "sid \<Rightarrow> lsp \<Rightarrow> (unit, lsp) outcome" where
  "AcquireSocketLock p s = do { _ \<leftarrow> infos s p; Enter (SockCritSec p) s }"

definition ReleaseSocketLock :: "sid \<Rightarrow> lsp \<Rightarrow> (unit, lsp) outcome" where
  "ReleaseSocketLock p s = do { _ \<leftarrow> infos s p; Leave (SockCritSec p) s }"

text \<open>A routine with its own \<open>int Error\<close>, whose address it passes on instead of \<open>lpErrno\<close>.\<close>

definition local_errno :: "(lsp \<Rightarrow> ('a, lsp) outcome) \<Rightarrow> lsp \<Rightarrow> ('a, lsp) outcome" where
  "local_errno f s = do { (a, s') \<leftarrow> f s; Some (a, s'\<lparr>lpErrno := lpErrno s\<rparr>) }"

definition set_Errno :: "dword option \<Rightarrow> lsp \<Rightarrow> lsp" where
  "set_Errno e s = (case e of None \<Rightarrow> s | Some x \<Rightarrow> s\<lparr>lpErrno := x\<rparr>)"

text \<open>
  A call through the procedure table of a provider below; a null entry is not defined.  \<open>call_ext\<close>
  calls an extension function, which reports its error through \<open>WSASetLastError\<close>.
\<close>

definition call_lower :: "lsp_env \<Rightarrow> pid \<Rightarrow> lower_fn \<Rightarrow> arg list \<Rightarrow> lsp \<Rightarrow> (lower_answer, lsp) outcome" where
  "call_lower env i fn args s = do {
     q \<leftarrow> prov s i;
     if fn \<notin> set (NextProcTable q) then None
     else do {
       let s = trace (Lower fn i args) s;
       let a = lower env (ltrace s);
       Some (a, s\<lparr>mem := la_mem a (mem s)\<rparr>) } }"

definition call_ext :: "lsp_env \<Rightarrow> pid \<Rightarrow> ext_fn \<Rightarrow> arg list \<Rightarrow> lsp \<Rightarrow> (lower_answer, lsp) outcome" where
  "call_ext env i fn args s = do {
     q \<leftarrow> prov s i;
     if fn \<notin> set (NextProcTableExt q) then None
     else do {
       let s = trace (LowerExt fn i args) s;
       let a = lower env (ltrace s);
       let s = (case la_Errno a of None \<Rightarrow> s | Some e \<Rightarrow> s\<lparr>LastError := e\<rparr>);
       Some (a, s\<lparr>mem := la_mem a (mem s)\<rparr>) } }"

end
