(* ===== verification/LspSockInfo.thy ===== *)
theory LspSockInfo
  imports LspState
begin

text \<open>
  \<open>sockinfo.cpp\<close>: the context of every socket of the layered provider, its reference count and the
  doubly linked list of contexts of a provider.
\<close>

section \<open>The list of a provider\<close>

definition InsertSocketInfo :: "pid \<Rightarrow> sid option \<Rightarrow> lsp \<Rightarrow> (unit, lsp) outcome" where
  "InsertSocketInfo provider sock = locked (ProviderCritSec provider) (\<lambda>s.
     case sock of
       None \<Rightarrow> Some ((), s)
     | Some p \<Rightarrow> do {
         _ \<leftarrow> infos s p;
         q \<leftarrow> prov s provider;
         let s = upd_info p (\<lambda>c. c\<lparr>si_next := None, si_prev := None\<rparr>) s;
         let s = upd_info p (\<lambda>c. c\<lparr>si_next := SocketList q\<rparr>) s;
         s \<leftarrow> (case SocketList q of
                 None \<Rightarrow> Some s
               | Some x \<Rightarrow> do { _ \<leftarrow> infos s x; Some (upd_info x (\<lambda>c. c\<lparr>si_prev := Some p\<rparr>) s) });
         Some ((), upd_prov provider (SocketList_update (\<lambda>_. Some p)) s) })"

definition RemoveSocketInfo :: "pid \<Rightarrow> sid \<Rightarrow> lsp \<Rightarrow> (unit, lsp) outcome" where
  "RemoveSocketInfo provider si = locked (ProviderCritSec provider) (\<lambda>s. do {
     c \<leftarrow> infos s si;
     case si_prev c of
       None \<Rightarrow> do {
         _ \<leftarrow> prov s provider;
         let s = upd_prov provider (SocketList_update (\<lambda>_. si_next c)) s;
         case si_next c of
           None \<Rightarrow> Some ((), s)
         | Some q \<Rightarrow> do { _ \<leftarrow> infos s q; Some ((), upd_info q (\<lambda>c. c\<lparr>si_prev := None\<rparr>) s) } }
     | Some p \<Rightarrow> do {
         _ \<leftarrow> infos s p;
         let s = upd_info p (\<lambda>d. d\<lparr>si_next := si_next c\<rparr>) s;
         case si_next c of
           None \<Rightarrow> Some ((), s)
         | Some q \<Rightarrow> do { _ \<leftarrow> infos s q; Some ((), upd_info q (\<lambda>d. d\<lparr>si_prev := si_prev c\<rparr>) s) } } })"

section \<open>Contexts\<close>

text \<open>A block of the private heap, zeroed; \<open>HeapFree\<close> of one that is not allocated is not defined.\<close>

definition zero_SOCK_INFO :: "SOCK_INFO" where
  "zero_SOCK_INFO = \<lparr>si_ProviderSocket = Some 0, si_LayeredSocket = Some 0, si_dwOutstandingAsync = 0,
     si_bClosing = False, si_RefCount = 0, si_BytesSent = 0, si_BytesRecv = 0, si_hIocp = False,
     si_hWnd = 0, si_uMsg = 0, si_Provider = 0, si_prev = None, si_next = None\<rparr>"

definition HeapFree_info :: "sid \<Rightarrow> lsp \<Rightarrow> (unit, lsp) outcome" where
  "HeapFree_info p s = do { _ \<leftarrow> infos s p; Some ((), s\<lparr>infos := (infos s)(p := None)\<rparr>) }"

definition CreateSockInfo ::
    "lsp_env \<Rightarrow> pid \<Rightarrow> handle \<Rightarrow> sid option \<Rightarrow> lsp \<Rightarrow> (sid option, lsp) outcome" where
  "CreateSockInfo env provider ProviderSocket Inherit s =
     (let s = trace HeapAllocate s in
      if \<not> heap_alloc_ok env (ltrace s) then Some (None, s)
      else do {
        let p = lsp_next s;
        let s = s\<lparr>lsp_next := Suc p\<rparr>;
        (w, m) \<leftarrow> (case Inherit of
                    None \<Rightarrow> Some (0, 0)
                  | Some q \<Rightarrow> do { c \<leftarrow> infos s q; Some (si_hWnd c, si_uMsg c) });
        let c = zero_SOCK_INFO\<lparr>si_ProviderSocket := ProviderSocket, si_Provider := provider, si_hWnd := w, si_uMsg := m\<rparr>;
        let s = s\<lparr>infos := (infos s)(p \<mapsto> c)\<rparr>;
        (_, s) \<leftarrow> InsertSocketInfo provider (Some p) s;
        Some (Some p, s) })"

definition FindAndLockSocketContext :: "lsp_env \<Rightarrow> handle \<Rightarrow> lsp \<Rightarrow> (sid option, lsp) outcome" where
  "FindAndLockSocketContext env h = locked gCriticalSection (\<lambda>s.
     case WPUQuerySocketHandleContext env (ltrace s) h of
       Inl e \<Rightarrow> Some (None, (trace (QueryContext h) s)\<lparr>lpErrno := e\<rparr>)
     | Inr p \<Rightarrow> do {
         let s = trace (QueryContext h) s;
         _ \<leftarrow> infos s p;
         Some (Some p, upd_info p (si_RefCount_update (\<lambda>n. n + 1)) s) })"

text \<open>
  \<open>WPUCloseSocketHandle(h, lpErrno)\<close>, an upcall that can fail; the callers that carry on log the
  failure only.
\<close>

definition close_handle :: "lsp_env \<Rightarrow> handle \<Rightarrow> lsp \<Rightarrow> bool \<times> lsp" where
  "close_handle env h s =
     (let s = trace (CloseSocketHandle h) s in
      case WPUCloseSocketHandle env (ltrace s) of
        None \<Rightarrow> (True, s)
      | Some e \<Rightarrow> (False, s\<lparr>lpErrno := e\<rparr>))"

text \<open>
  \<open>UnlockSocketContext\<close>.  The last reference to a closing context closes the handle of the
  application and frees the context; \<open>ReleaseSocketLock\<close> is called whether or not the thread owns it.
\<close>

definition UnlockSocketContext :: "lsp_env \<Rightarrow> sid \<Rightarrow> lsp \<Rightarrow> (unit, lsp) outcome" where
  "UnlockSocketContext env p = locked gCriticalSection (\<lambda>s. do {
     _ \<leftarrow> infos s p;
     let s = upd_info p (si_RefCount_update (\<lambda>n. n - 1)) s;
     c \<leftarrow> infos s p;
     if si_RefCount c = 0 \<and> si_bClosing c then do {
       let (_, s) = close_handle env (si_LayeredSocket c) s;
       let s = upd_info p (si_LayeredSocket_update (\<lambda>_. None)) s;
       (_, s) \<leftarrow> RemoveSocketInfo (si_Provider c) p s;
       (_, s) \<leftarrow> ReleaseSocketLock p s;
       HeapFree_info p (DeleteCriticalSection (SockCritSec p) s) }
     else Some ((), s) })"

text \<open>
  The loop of \<open>CloseAndFreeSocketInfo\<close>: every socket is set to an abortive close (\<open>SO_LINGER\<close> with a
  zero interval), closed below and above, and its context freed; the next pointer is read before.
\<close>

definition close_one :: "lsp_env \<Rightarrow> pid \<Rightarrow> SOCK_INFO \<Rightarrow> lsp \<Rightarrow> (unit, lsp) outcome" where
  "close_one env provider c s = do {
     (_, s) \<leftarrow> call_lower env provider lpWSPSetSockOpt
        [Hnd (si_ProviderSocket c), Num 0xFFFF, Num 0x80, BOOL True, ULong 0] s;
     (_, s) \<leftarrow> call_lower env provider lpWSPCloseSocket [Hnd (si_ProviderSocket c)] s;
     Some ((), snd (close_handle env (si_LayeredSocket c) s)) }"

partial_function (option) close_and_free :: "lsp_env \<Rightarrow> pid \<Rightarrow> sid option \<Rightarrow> lsp \<Rightarrow> (unit, lsp) outcome" where
  "close_and_free env provider si s =
     (case si of
        None \<Rightarrow> Some ((), s)
      | Some p \<Rightarrow> do {
          c \<leftarrow> infos s p;
          (_, s) \<leftarrow> close_one env provider c s;
          (_, s) \<leftarrow> HeapFree_info p s;
          close_and_free env provider (si_next c) s })"

declare close_and_free.simps [code]

definition CloseAndFreeSocketInfo :: "lsp_env \<Rightarrow> pid \<Rightarrow> lsp \<Rightarrow> (unit, lsp) outcome" where
  "CloseAndFreeSocketInfo env provider = local_errno (\<lambda>s. do {
     q \<leftarrow> prov s provider;
     close_and_free env provider (SocketList q) s })"

section \<open>Search by the socket of the provider below\<close>

partial_function (option) find_provider_socket :: "(sid \<rightharpoonup> SOCK_INFO) \<Rightarrow> handle \<Rightarrow> sid option \<Rightarrow> sid option option" where
  "find_provider_socket h sock si =
     (case si of
        None \<Rightarrow> Some None
      | Some p \<Rightarrow> do {
          c \<leftarrow> h p;
          if si_ProviderSocket c = sock then Some (Some p) else find_provider_socket h sock (si_next c) })"

declare find_provider_socket.simps [code]

fun find_in_layers :: "lsp \<Rightarrow> handle \<Rightarrow> pid list \<Rightarrow> sid option option" where
  "find_in_layers s sock [] = Some None"
| "find_in_layers s sock (i # is) = do {
     q \<leftarrow> prov s i;
     r \<leftarrow> find_provider_socket (infos s) sock (SocketList q);
     case r of Some p \<Rightarrow> Some (Some p) | None \<Rightarrow> find_in_layers s sock is }"

definition GetCallerSocket :: "pid option \<Rightarrow> handle \<Rightarrow> lsp \<Rightarrow> (sid option, lsp) outcome" where
  "GetCallerSocket provider sock = locked gCriticalSection (\<lambda>s. do {
     r \<leftarrow> (case provider of
             Some i \<Rightarrow> do { q \<leftarrow> prov s i; find_provider_socket (infos s) sock (SocketList q) }
           | None \<Rightarrow> find_in_layers s sock [0..<gLayerCount s]);
     Some (r, s) })"

section \<open>The list as a list\<close>

fun dll :: "(sid \<rightharpoonup> SOCK_INFO) \<Rightarrow> sid option \<Rightarrow> sid option \<Rightarrow> sid list \<Rightarrow> bool" where
  "dll h prv p [] \<longleftrightarrow> p = None"
| "dll h prv p (x # xs) \<longleftrightarrow> p = Some x \<and>
     (case h x of None \<Rightarrow> False | Some c \<Rightarrow> si_prev c = prv \<and> dll h (Some x) (si_next c) xs)"

definition socket_list :: "lsp \<Rightarrow> pid \<Rightarrow> sid list \<Rightarrow> bool" where
  "socket_list s i xs \<longleftrightarrow> distinct xs \<and> (case prov s i of None \<Rightarrow> False | Some q \<Rightarrow> dll (infos s) None (SocketList q) xs)"

end
