(* ===== verification/LspOverlap.thy ===== *)
theory LspOverlap
  imports LspSockInfo
begin

text \<open>
  The overlapped manager (\<open>overlap.cpp\<close>): the pool of \<open>WSAOVERLAPPEDPLUS\<close> structures, the queue of
  pending operations, their execution on the provider below and their completion to the application;
  with the buffer helpers of \<open>spi.cpp\<close>.  An operation runs to its end before another thread's: the
  interleavings are sequences of these operations.
\<close>

section \<open>The manager\<close>

text \<open>The blocks \<open>n, ..., n + 99\<close> are one allocation, each linked to its successor.\<close>

definition pool_block :: "oid \<Rightarrow> oid \<Rightarrow> WSAOVERLAPPEDPLUS option" where
  "pool_block n o' =
     (if n \<le> o' \<and> o' < n + DEFAULT_POOL_COUNT
      then Some (zero_olp\<lparr>olp_next := (if o' = n + DEFAULT_POOL_COUNT - 1 then None else Some (Suc o'))\<rparr>)
      else None)"

definition AllocateFreePool :: "lsp_env \<Rightarrow> lsp \<Rightarrow> dword \<times> lsp" where
  "AllocateFreePool env s =
     (let s = trace HeapAllocate s in
      if \<not> heap_alloc_ok env (ltrace s) then (WSAENOBUFS, s)
      else let n = lsp_next s in
        (NO_ERROR, s\<lparr>olps := olps s ++ pool_block n, lsp_next := n + DEFAULT_POOL_COUNT, FreePool := Some n\<rparr>))"

text \<open>The loop that starts the threads: \<open>gWorkerThread\<close> has 32 entries, a write past them is not defined.\<close>

fun start_threads :: "lsp_env \<Rightarrow> nat list \<Rightarrow> lsp \<Rightarrow> (bool, lsp) outcome" where
  "start_threads env [] s = Some (True, s)"
| "start_threads env (i # is) s =
     (let s = trace (StartThread i) s; ok = create_thread_ok env (ltrace s) in
      if length (gWorkerThread s) \<le> i then None
      else let s = s\<lparr>gWorkerThread := (gWorkerThread s)[i := ok]\<rparr> in
        if ok then start_threads env is s else Some (False, s))"

definition InitOverlappedManager :: "lsp_env \<Rightarrow> lsp \<Rightarrow> (dword, lsp) outcome" where
  "InitOverlappedManager env = locked gOverlappedCS (\<lambda>s.
     if gWorkerThread s ! 0 then Some (0, s)
     else case AllocateFreePool env s of (r, s) \<Rightarrow>
       if r = WSAENOBUFS then Some (WSAENOBUFS, s)
       else do {
         let s = (trace NewPort s)\<lparr>ghIocp := iocp_available env\<rparr>;
         (ok, s) \<leftarrow>
           (if ghIocp s then Some (True, s\<lparr>gdwThreadCount := processors env\<rparr>)
            else let s = (trace NewSemaphore s)\<lparr>ghWakeupSemaphore := semaphore_available env\<rparr> in
              if \<not> ghWakeupSemaphore s then Some (False, s)
              else Some (True, s\<lparr>wakeups := 0, gdwThreadCount := 1\<rparr>));
         if \<not> ok then Some (WSAEPROVIDERFAILEDINIT, s)
         else do {
           (ok, s) \<leftarrow> start_threads env [0..<unat (gdwThreadCount s)] s;
           Some (if ok then 0 else WSAEPROVIDERFAILEDINIT, s) } })"

fun close_threads :: "nat list \<Rightarrow> lsp \<Rightarrow> (unit, lsp) outcome" where
  "close_threads [] s = Some ((), s)"
| "close_threads (i # is) s =
     (if length (gWorkerThread s) \<le> i then None
      else close_threads is ((trace (CloseThread i) s)\<lparr>gWorkerThread := (gWorkerThread s)[i := False]\<rparr>))"

definition StopOverlappedManager :: "lsp \<Rightarrow> (int, lsp) outcome" where
  "StopOverlappedManager = locked gOverlappedCS (\<lambda>s. do {
     let s = (if ghIocp s
              then trace (WaitThreads (gdwThreadCount s)) ((trace PostExit ^^ unat (gdwThreadCount s)) s)
              else s);
     (_, s) \<leftarrow> close_threads [0..<unat (gdwThreadCount s)] s;
     let s = (if ghIocp s then (trace ClosePort s)\<lparr>ghIocp := False\<rparr> else s);
     let s = (if ghWakeupSemaphore s then (trace CloseSemaphore s)\<lparr>ghWakeupSemaphore := False\<rparr> else s);
     Some (0, s) })"

definition StartOverlappedManager :: "lsp_env \<Rightarrow> lsp \<Rightarrow> (unit, lsp) outcome" where
  "StartOverlappedManager env s =
     (if gWorkerThread s ! 0 then Some ((), s)
      else do { (_, s) \<leftarrow> InitOverlappedManager env s; Some ((), s) })"

section \<open>The pool\<close>

definition take_free :: "lsp \<Rightarrow> (oid option, lsp) outcome" where
  "take_free s = do {
     p \<leftarrow> FreePool s;
     o' \<leftarrow> olps s p;
     let s = s\<lparr>FreePool := olp_next o'\<rparr>;
     Some (Some p, upd_olp p (olp_next_update (\<lambda>_. None)) s) }"

definition GetOverlappedStructure :: "lsp_env \<Rightarrow> sid \<Rightarrow> lsp \<Rightarrow> (oid option, lsp) outcome" where
  "GetOverlappedStructure env SocketContext s = do {
     (_, s) \<leftarrow> AcquireSocketLock SocketContext s;
     (_, s) \<leftarrow> Enter gOverlappedCS s;
     let s = upd_info SocketContext (si_dwOutstandingAsync_update (\<lambda>n. n + 1)) s;
     (r, s) \<leftarrow> (if FreePool s \<noteq> None then take_free s
                else case AllocateFreePool env s of (e, s) \<Rightarrow>
                  if e \<noteq> WSAENOBUFS then take_free s else Some (None, s));
     let s = (case r of Some p \<Rightarrow> upd_olp p (\<lambda>_. zero_olp) s | None \<Rightarrow> s);
     (_, s) \<leftarrow> Leave gOverlappedCS s;
     (_, s) \<leftarrow> ReleaseSocketLock SocketContext s;
     Some (r, s) }"

definition PutbackOverlappedStructure :: "oid \<Rightarrow> lsp \<Rightarrow> (unit, lsp) outcome" where
  "PutbackOverlappedStructure olp = locked gOverlappedCS (\<lambda>s. do {
     _ \<leftarrow> olps s olp;
     let s = upd_olp olp (\<lambda>_. zero_olp) s;
     let s = upd_olp olp (\<lambda>x. x\<lparr>olp_lpCallerThreadId := 0xbadbeef\<rparr>) s;
     let s = upd_olp olp (\<lambda>x. x\<lparr>olp_next := FreePool s\<rparr>) s;
     Some ((), s\<lparr>FreePool := Some olp\<rparr>) })"

section \<open>The queue of pending operations\<close>

definition EnqueueOverlappedOperation :: "oid \<Rightarrow> lsp \<Rightarrow> (dword, lsp) outcome" where
  "EnqueueOverlappedOperation op = locked gOverlappedCS (\<lambda>s. do {
     _ \<leftarrow> olps s op;
     let s = upd_olp op (olp_next_update (\<lambda>_. None)) s;
     s \<leftarrow> (case PendingEnd s of
             None \<Rightarrow> Some (s\<lparr>PendingStart := Some op, PendingEnd := Some op\<rparr>)
           | Some e \<Rightarrow> do {
               _ \<leftarrow> olps s e;
               Some ((upd_olp e (olp_next_update (\<lambda>_. Some op)) s)\<lparr>PendingEnd := Some op\<rparr>) });
     Some (WSA_IO_PENDING, (trace ReleaseSemaphore s)\<lparr>wakeups := wakeups s + 1\<rparr>) })"

definition DequeueOverlappedOperation :: "lsp \<Rightarrow> (oid option, lsp) outcome" where
  "DequeueOverlappedOperation = locked gOverlappedCS (\<lambda>s. do {
     let op = PendingStart s;
     s \<leftarrow> (case op of
             None \<Rightarrow> Some s
           | Some p \<Rightarrow> do { x \<leftarrow> olps s p; Some (s\<lparr>PendingStart := olp_next x\<rparr>) });
     let s = (if op = PendingEnd s then s\<lparr>PendingStart := None, PendingEnd := None\<rparr> else s);
     Some (op, s) })"

section \<open>Buffers and offsets\<close>

definition CopyOffset :: "oid \<Rightarrow> aid \<Rightarrow> lsp \<Rightarrow> lsp" where
  "CopyOffset p a s = upd_olp p (\<lambda>x. x\<lparr>olp_Offset := ov_Offset (app_ov s a), olp_OffsetHigh := ov_OffsetHigh (app_ov s a)\<rparr>) s"

definition CopyBuffer :: "lsp_env \<Rightarrow> appptr \<Rightarrow> dword \<Rightarrow> lsp \<Rightarrow> (bufptr, lsp) outcome" where
  "CopyBuffer env BufferArray BufferCount s =
     (if \<not> ghIocp s then
        (let s = trace HeapAllocate s in
         if \<not> heap_alloc_ok env (ltrace s) then Some (NullBuf, s)
         else do {
           xs \<leftarrow> (if BufferCount = 0 then Some []
                  else do {
                    a \<leftarrow> BufferArray;
                    let ys = m_bufs (mem s) a;
                    if unat BufferCount \<le> length ys then Some (take (unat BufferCount) ys) else None });
           let n = lsp_next s;
           Some (HeapBuf n, s\<lparr>copied := (copied s)(n \<mapsto> xs), lsp_next := Suc n\<rparr>) })
      else Some (case BufferArray of None \<Rightarrow> NullBuf | Some a \<Rightarrow> AppBuf a, s))"

text \<open>\<open>HeapFree\<close> of a block that is not on the private heap is not defined; of \<open>NULL\<close> it does nothing.\<close>

definition FreeBuffer :: "bufptr \<Rightarrow> lsp \<Rightarrow> (unit, lsp) outcome" where
  "FreeBuffer b s =
     (if \<not> ghIocp s then
        (case b of
           NullBuf \<Rightarrow> Some ((), s)
         | AppBuf _ \<Rightarrow> None
         | HeapBuf n \<Rightarrow> do { _ \<leftarrow> copied s n; Some ((), s\<lparr>copied := (copied s)(n := None)\<rparr>) })
      else Some ((), s))"

section \<open>Completion\<close>

definition SetOverlappedInProgress :: "aid \<Rightarrow> lsp \<Rightarrow> lsp" where
  "SetOverlappedInProgress a = upd_ov a (\<lambda>v. v\<lparr>ov_Internal := WSS_OPERATION_IN_PROGRESS, ov_InternalHigh := 0\<rparr>)"

definition CheckForContextCleanup :: "lsp_env \<Rightarrow> oid \<Rightarrow> lsp \<Rightarrow> (unit, lsp) outcome" where
  "CheckForContextCleanup env ol = local_errno (\<lambda>s. do {
     x \<leftarrow> olps s ol;
     (ctx, s) \<leftarrow> FindAndLockSocketContext env (olp_CallerSocket x) s;
     case ctx of
       None \<Rightarrow> Some ((), s)
     | Some SocketContext \<Rightarrow> do {
         si \<leftarrow> olp_SockInfo x;
         (_, s) \<leftarrow> AcquireSocketLock si s;
         let s = upd_info si (si_dwOutstandingAsync_update (\<lambda>n. n - 1)) s;
         c \<leftarrow> infos s si;
         if si_bClosing c \<and> si_dwOutstandingAsync c = 0 \<and> si_RefCount c = 1 then do {
           let (ok, t) = close_handle env (olp_CallerSocket x) s;
           let s = (if ok then t else upd_olp ol (olp_Error_update (\<lambda>_. lpErrno t)) t);
           let s = upd_info si (si_LayeredSocket_update (\<lambda>_. None)) s;
           (_, s) \<leftarrow> RemoveSocketInfo (si_Provider c) si s;
           (_, s) \<leftarrow> ReleaseSocketLock si s;
           let s = upd_olp ol (olp_SockInfo_update (\<lambda>_. None)) s;
           HeapFree_info SocketContext (DeleteCriticalSection (SockCritSec SocketContext) s) }
         else do {
           (_, s) \<leftarrow> ReleaseSocketLock SocketContext s;
           UnlockSocketContext env SocketContext s } } })"

text \<open>The accounting of a successful completion, the \<open>switch\<close> of \<open>IntermediateCompletionRoutine\<close>.\<close>

definition count_bytes :: "lsp_env \<Rightarrow> WSAOVERLAPPEDPLUS \<Rightarrow> sid \<Rightarrow> dword \<Rightarrow> lsp \<Rightarrow> (unit, lsp) outcome" where
  "count_bytes env x SocketContext n s =
     (let recvd = upd_info SocketContext (si_BytesRecv_update (\<lambda>m. m + n));
          sent = upd_info SocketContext (si_BytesSent_update (\<lambda>m. m + n)) in
      case (olp_Operation x, olp_args x) of
        (LSP_OP_RECV, RecvArgs b _ _ _) \<Rightarrow> FreeBuffer b (recvd s)
      | (LSP_OP_RECVFROM, RecvFromArgs b _ _ _ _ _) \<Rightarrow> FreeBuffer b (recvd s)
      | (LSP_OP_SEND, SendArgs b _ _ _) \<Rightarrow> FreeBuffer b (sent s)
      | (LSP_OP_SENDTO, SendToArgs b _ _ _ _ _) \<Rightarrow> FreeBuffer b (sent s)
      | (LSP_OP_TRANSMITFILE, _) \<Rightarrow> Some ((), sent s)
      | (LSP_OP_ACCEPTEX, AcceptExArgs sock _ _ _ _ _ _) \<Rightarrow> do {
          (ctx, s) \<leftarrow> FindAndLockSocketContext env sock s;
          AcceptSocketContext \<leftarrow> ctx;
          let s = upd_info AcceptSocketContext (si_BytesRecv_update (\<lambda>m. m + n)) s;
          UnlockSocketContext env AcceptSocketContext s }
      | (op, _) \<Rightarrow> if op \<in> {LSP_OP_RECV, LSP_OP_RECVFROM, LSP_OP_SEND, LSP_OP_SENDTO, LSP_OP_ACCEPTEX}
                   then None else Some ((), s))"

definition account_completion :: "lsp_env \<Rightarrow> WSAOVERLAPPEDPLUS \<Rightarrow> sid \<Rightarrow> dword \<Rightarrow> dword \<Rightarrow> lsp \<Rightarrow> (unit, lsp) outcome" where
  "account_completion env x SocketContext dwError n s =
     (if dwError = 0 then do {
        (_, s) \<leftarrow> AcquireSocketLock SocketContext s;
        (_, s) \<leftarrow> count_bytes env x SocketContext n s;
        ReleaseSocketLock SocketContext s }
      else Some ((), s))"

text \<open>The application is told through its completion routine, or through Winsock.\<close>

definition notify_application :: "lsp_env \<Rightarrow> WSAOVERLAPPEDPLUS \<Rightarrow> aid \<Rightarrow> dword \<Rightarrow> dword \<Rightarrow> lsp \<Rightarrow> lsp" where
  "notify_application env x a dwError n s =
     (if olp_lpCallerCompletionRoutine x \<noteq> 0
      then trace (QueueApc (olp_lpCallerThreadId x) a)
             (upd_ov a (\<lambda>v. v\<lparr>ov_Internal := olp_lpCallerCompletionRoutine x\<rparr>) s)
      else let t = trace (CompleteOverlapped (olp_CallerSocket x) a dwError n) s in
        upd_ov a (WPUCompleteOverlappedRequest env (ltrace t)) t)"

definition IntermediateCompletionRoutine ::
    "lsp_env \<Rightarrow> dword \<Rightarrow> dword \<Rightarrow> oid option \<Rightarrow> dword \<Rightarrow> lsp \<Rightarrow> (unit, lsp) outcome" where
  "IntermediateCompletionRoutine env dwError cbTransferred lpOverlapped dwFlags = local_errno (\<lambda>s.
     case lpOverlapped of
       None \<Rightarrow> Some ((), s)
     | Some olp \<Rightarrow> do {
         x \<leftarrow> olps s olp;
         (ctx, s) \<leftarrow> FindAndLockSocketContext env (olp_CallerSocket x) s;
         case ctx of
           None \<Rightarrow> PutbackOverlappedStructure olp s
         | Some SocketContext \<Rightarrow> do {
             (dwError, cbTransferred, dwFlags, s) \<leftarrow>
               (if dwError = WSA_IO_PENDING then do {
                  (a, s) \<leftarrow> call_lower env (olp_Provider x) lpWSPGetOverlappedResult
                     [Hnd (olp_ProviderSocket x), Olp olp, BOOL False] s;
                  Some (case la_Errno a of Some e \<Rightarrow> e | None \<Rightarrow> NO_ERROR,
                        case la_bytes a of Some n \<Rightarrow> n | None \<Rightarrow> cbTransferred,
                        case la_flags a of Some f \<Rightarrow> f | None \<Rightarrow> dwFlags, s) }
                else Some (dwError, cbTransferred, dwFlags, s));
             a \<leftarrow> olp_lpCallerOverlapped x;
             let s = upd_ov a (\<lambda>v. v\<lparr>ov_Offset := dwError, ov_OffsetHigh := dwFlags,
                                     ov_InternalHigh := ucast cbTransferred\<rparr>) s;
             (_, s) \<leftarrow> account_completion env x SocketContext dwError cbTransferred s;
             (_, s) \<leftarrow> UnlockSocketContext env SocketContext s;
             let s = notify_application env x a dwError cbTransferred s;
             (_, s) \<leftarrow> CheckForContextCleanup env olp s;
             PutbackOverlappedStructure olp s } })"

definition CallUserApcProc :: "aid \<Rightarrow> lsp \<Rightarrow> lsp" where
  "CallUserApcProc a s =
     (let routine = ov_Internal (app_ov s a);
          s = upd_ov a (\<lambda>v. v\<lparr>ov_Internal := ucast (ov_Offset v)\<rparr>) s;
          v = app_ov s a in
      trace (UserCompletion routine (ov_Offset v) (ucast (ov_InternalHigh v)) a (ov_OffsetHigh v)) s)"

section \<open>Execution\<close>

text \<open>
  The \<open>switch\<close> of \<open>ExecuteOverlappedOperation\<close>: the function of the provider below and its arguments.
  Members whose address is passed are given with their value.
\<close>

definition lower_op :: "ulong_ptr \<Rightarrow> oid \<Rightarrow> WSAOVERLAPPEDPLUS \<Rightarrow> ((lower_fn + ext_fn) \<times> arg list) option" where
  "lower_op routine p x =
     (let tl = [Olp p, Routine routine, Thread (olp_lpCallerThreadId x)]; sock = Hnd (olp_ProviderSocket x) in
      case (olp_Operation x, olp_args x) of
        (LSP_OP_IOCTL, IoctlArgs code i ci u cu r) \<Rightarrow>
          Some (Inl lpWSPIoctl, [sock, DWord code, Ptr i, DWord ci, Ptr u, DWord cu, DWord r] @ tl)
      | (LSP_OP_RECV, RecvArgs b n r f) \<Rightarrow> Some (Inl lpWSPRecv, [sock, Bufs b, DWord n, DWord r, DWord f] @ tl)
      | (LSP_OP_RECVFROM, RecvFromArgs b n r f fr fl) \<Rightarrow>
          Some (Inl lpWSPRecvFrom, [sock, Bufs b, DWord n, DWord r, DWord f, Ptr fr, Ptr fl] @ tl)
      | (LSP_OP_SEND, SendArgs b n r f) \<Rightarrow> Some (Inl lpWSPSend, [sock, Bufs b, DWord n, DWord r, DWord f] @ tl)
      | (LSP_OP_SENDTO, SendToArgs b n r f to l) \<Rightarrow>
          Some (Inl lpWSPSendTo, [sock, Bufs b, DWord n, DWord r, DWord f, Bytes to, Num l] @ tl)
      | (LSP_OP_TRANSMITFILE, TransmitFileArgs h n m b f) \<Rightarrow>
          Some (Inr TransmitFile, [sock, ULong h, DWord n, DWord m, Olp p, Ptr b, DWord f])
      | (LSP_OP_ACCEPTEX, AcceptExArgs _ ps ob l1 l2 l3 r) \<Rightarrow>
          Some (Inr AcceptEx, [sock, Hnd ps, Ptr ob, DWord l1, DWord l2, DWord l3, DWord r, Olp p])
      | (LSP_OP_CONNECTEX, ConnectExArgs _ nm nl b n r) \<Rightarrow>
          Some (Inr ConnectEx, [sock, Bytes nm, Num nl, Ptr b, DWord n, DWord r, Olp p])
      | (LSP_OP_DISCONNECTEX, DisconnectExArgs _ f r) \<Rightarrow> Some (Inr DisconnectEx, [sock, Olp p, DWord f, DWord r])
      | (LSP_OP_TRANSMITPACKETS, TransmitPacketsArgs _ a n m f) \<Rightarrow>
          Some (Inr TransmitPackets, [sock, Ptr a, DWord n, DWord m, Olp p, DWord f])
      | (LSP_OP_WSARECVMSG, WSARecvMsgArgs _ m r) \<Rightarrow>
          Some (Inr WSARecvMsg, [sock, Ptr m, DWord r, Olp p, Routine (olp_lpCallerCompletionRoutine x)])
      | _ \<Rightarrow> None)"

text \<open>\<open>lpdwBytes\<close> and \<open>lpdwFlags\<close>: the members they point at, \<open>None\<close> where the pointer is null.\<close>

fun args_bytes :: "lsp_args \<Rightarrow> dword option" where
  "args_bytes (IoctlArgs _ _ _ _ _ r) = Some r"
| "args_bytes (RecvArgs _ _ r _) = Some r"
| "args_bytes (RecvFromArgs _ _ r _ _ _) = Some r"
| "args_bytes (SendArgs _ _ r _) = Some r"
| "args_bytes (SendToArgs _ _ r _ _ _) = Some r"
| "args_bytes (AcceptExArgs _ _ _ _ _ _ r) = Some r"
| "args_bytes (ConnectExArgs _ _ _ _ _ r) = Some r"
| "args_bytes (WSARecvMsgArgs _ _ r) = Some r"
| "args_bytes _ = None"

fun args_flags :: "lsp_args \<Rightarrow> dword option" where
  "args_flags (RecvArgs _ _ _ f) = Some f"
| "args_flags (RecvFromArgs _ _ _ f _ _) = Some f"
| "args_flags (SendArgs _ _ _ f) = Some f"
| "args_flags (SendToArgs _ _ _ f _ _) = Some f"
| "args_flags (TransmitFileArgs _ _ _ _ f) = Some f"
| "args_flags (DisconnectExArgs _ f _) = Some f"
| "args_flags (TransmitPacketsArgs _ _ _ _ f) = Some f"
| "args_flags _ = None"

text \<open>What the call stores into the members whose address it was given.\<close>

fun store_args :: "dword option \<Rightarrow> dword option \<Rightarrow> lsp_args \<Rightarrow> lsp_args" where
  "store_args (Some n) fo (IoctlArgs a b c d e _) = IoctlArgs a b c d e n"
| "store_args no fo (RecvArgs b k r f) = RecvArgs b k (case no of Some n \<Rightarrow> n | _ \<Rightarrow> r) (case fo of Some g \<Rightarrow> g | _ \<Rightarrow> f)"
| "store_args no fo (RecvFromArgs b k r f u v) =
     RecvFromArgs b k (case no of Some n \<Rightarrow> n | _ \<Rightarrow> r) (case fo of Some g \<Rightarrow> g | _ \<Rightarrow> f) u v"
| "store_args (Some n) fo (SendArgs b k _ f) = SendArgs b k n f"
| "store_args (Some n) fo (SendToArgs b k _ f t l) = SendToArgs b k n f t l"
| "store_args (Some n) fo (AcceptExArgs a b c d e f _) = AcceptExArgs a b c d e f n"
| "store_args (Some n) fo (ConnectExArgs a b c d e _) = ConnectExArgs a b c d e n"
| "store_args (Some n) fo (WSARecvMsgArgs a b _) = WSARecvMsgArgs a b n"
| "store_args _ _ x = x"

text \<open>
  The call itself: whether it returned \<open>NO_ERROR\<close>.  An extension function returns a \<open>BOOL\<close>, and its
  error is fetched with \<open>WSAGetLastError\<close>.
\<close>

definition run_lower :: "lsp_env \<Rightarrow> oid \<Rightarrow> lsp \<Rightarrow> (bool, lsp) outcome" where
  "run_lower env p s = do {
     x \<leftarrow> olps s p;
     let routine = (if ghIocp s then 0 else 1);
     if olp_Operation x = LSP_OP_none then Some (False, s)
     else do {
       (fn, args) \<leftarrow> lower_op routine p x;
       case fn of
         Inl f \<Rightarrow> do {
           (a, s) \<leftarrow> call_lower env (olp_Provider x) f args s;
           let s = upd_olp p (\<lambda>x. x\<lparr>olp_args := store_args (la_bytes a) (la_flags a) (olp_args x),
                       olp_Error := (case la_Errno a of Some e \<Rightarrow> e | None \<Rightarrow> olp_Error x)\<rparr>) s;
           Some (la_ret a = 0, s) }
       | Inr f \<Rightarrow> do {
           (a, s) \<leftarrow> call_ext env (olp_Provider x) f args s;
           let s = upd_olp p (olp_args_update (store_args (la_bytes a) (la_flags a))) s;
           if la_ret a = 0 then Some (False, upd_olp p (olp_Error_update (\<lambda>_. LastError s)) s)
           else Some (True, s) } } }"

definition ExecuteOverlappedOperation :: "lsp_env \<Rightarrow> oid \<Rightarrow> bool \<Rightarrow> lsp \<Rightarrow> (dword, lsp) outcome" where
  "ExecuteOverlappedOperation env ol bSynchronous s = do {
     x \<leftarrow> olps s ol;
     a \<leftarrow> olp_lpCallerOverlapped x;
     let h = ov_hEvent (app_ov s a);
     let s = (if h \<noteq> 0 then trace (ResetEvent (h AND NOT 1)) s else s);
     (ok, s) \<leftarrow> run_lower env ol s;
     x \<leftarrow> olps s ol;
     let err = olp_Error x;
     if \<not> ok \<and> err \<noteq> WSA_IO_PENDING then do {
       let s = upd_ov a (\<lambda>v. v\<lparr>ov_Offset := err,
                  ov_OffsetHigh := (case args_flags (olp_args x) of Some f \<Rightarrow> f | None \<Rightarrow> 0),
                  ov_InternalHigh := ucast (case args_bytes (olp_args x) of Some n \<Rightarrow> n | None \<Rightarrow> 0)\<rparr>) s;
       (_, s) \<leftarrow> CheckForContextCleanup env ol s;
       (_, s) \<leftarrow> PutbackOverlappedStructure ol s;
       Some (err, s) }
     else if ok \<and> \<not> bSynchronous then Some (WSA_IO_PENDING, s)
     else if ok then Some (NO_ERROR, s)
     else Some (err, s) }"

text \<open>
  \<open>CreateIoCompletionPort\<close> for a socket: \<open>None\<close> is success, \<open>Some e\<close> a failure with error \<open>e\<close>.
\<close>

definition QueueOverlappedOperation :: "lsp_env \<Rightarrow> oid \<Rightarrow> sid \<Rightarrow> lsp \<Rightarrow> (dword, lsp) outcome" where
  "QueueOverlappedOperation env ol SocketContext s = do {
     x \<leftarrow> olps s ol;
     a \<leftarrow> olp_lpCallerOverlapped x;
     let s = SetOverlappedInProgress a s;
     if ghIocp s then do {
       (_, s) \<leftarrow> AcquireSocketLock SocketContext s;
       c \<leftarrow> infos s SocketContext;
       let (sync, s) =
         (if si_hIocp c then (False, s)
          else let s = trace (CreatePort (olp_ProviderSocket x)) s in
            case create_io_port env (ltrace s) of
              None \<Rightarrow> (False, upd_info SocketContext (si_hIocp_update (\<lambda>_. True)) s)
            | Some e \<Rightarrow> (e = ERROR_INVALID_PARAMETER, s));
       (_, s) \<leftarrow> ReleaseSocketLock SocketContext s;
       ExecuteOverlappedOperation env ol sync s }
     else EnqueueOverlappedOperation ol s }"

text \<open>
  One turn of \<open>OverlappedManagerThread\<close>, for what it waits for: a completion packet of the port, or
  the semaphore (which takes one wake-up; a wake-up that is not there is a wait that goes on).
\<close>

datatype manager_event = Packet dword "oid option" | Wakeup

definition OverlappedManagerThread :: "lsp_env \<Rightarrow> manager_event \<Rightarrow> lsp \<Rightarrow> (bool, lsp) outcome" where
  "OverlappedManagerThread env e s =
     (case e of
        Packet dwBytesXfered lpPid \<Rightarrow>
          if \<not> ghIocp s then None
          else if dwBytesXfered = - 1 then Some (False, s)
          else do {
            (_, s) \<leftarrow> IntermediateCompletionRoutine env WSA_IO_PENDING dwBytesXfered lpPid 0 s;
            Some (True, s) }
      | Wakeup \<Rightarrow>
          if ghIocp s \<or> wakeups s = 0 then None
          else do {
            (op, s) \<leftarrow> DequeueOverlappedOperation (s\<lparr>wakeups := wakeups s - 1\<rparr>);
            case op of
              None \<Rightarrow> Some (True, s)
            | Some p \<Rightarrow> do { (_, s) \<leftarrow> ExecuteOverlappedOperation env p False s; Some (True, s) } })"

end
