(* ===== verification/LspSpi.thy ===== *)
theory LspSpi
  imports LspOverlap
begin

text \<open>
  The service provider interface (\<open>spi.cpp\<close>) and the hidden window of \<open>asyncselect.cpp\<close>: every entry
  point looks the context of the application's socket up, calls the provider below with its socket
  and gives the reference back.  \<open>WSPStartup\<close>, \<open>WSPCleanup\<close> and \<open>WSPSocket\<close> are in the next theory.
\<close>

section \<open>What the entry points share\<close>

text \<open>The macro \<open>SetBlockingProvider\<close>: thread local storage holds the provider a thread waits for.\<close>

definition SetBlockingProvider :: "pid option \<Rightarrow> lsp \<Rightarrow> lsp" where
  "SetBlockingProvider who s = (if TlsIndex s then s\<lparr>blocking := (blocking s)(lthread s := who)\<rparr> else s)"

definition blocking_call :: "lsp_env \<Rightarrow> pid \<Rightarrow> lower_fn \<Rightarrow> arg list \<Rightarrow> lsp \<Rightarrow> (lower_answer, lsp) outcome" where
  "blocking_call env i fn args s = do {
     (a, s) \<leftarrow> call_lower env i fn args (SetBlockingProvider (Some i) s);
     Some (a, SetBlockingProvider None (set_Errno (la_Errno a) s)) }"

definition with_context ::
    "lsp_env \<Rightarrow> handle \<Rightarrow> 'a \<Rightarrow> (sid \<Rightarrow> lsp \<Rightarrow> ('a, lsp) outcome) \<Rightarrow> lsp \<Rightarrow> ('a, lsp) outcome" where
  "with_context env h bad f s = do {
     (ctx, s) \<leftarrow> FindAndLockSocketContext env h s;
     case ctx of
       None \<Rightarrow> Some (bad, s\<lparr>lpErrno := WSAENOTSOCK\<rparr>)
     | Some p \<Rightarrow> f p s }"

definition unlock_return :: "lsp_env \<Rightarrow> sid \<Rightarrow> 'a \<Rightarrow> lsp \<Rightarrow> ('a, lsp) outcome" where
  "unlock_return env p r s = do { (_, s) \<leftarrow> UnlockSocketContext env p s; Some (r, s) }"

text \<open>The entry points that only translate the socket.\<close>

definition pass_down :: "lsp_env \<Rightarrow> lower_fn \<Rightarrow> handle \<Rightarrow> arg list \<Rightarrow> lsp \<Rightarrow> (int, lsp) outcome" where
  "pass_down env fn h args = with_context env h SOCKET_ERROR (\<lambda>p s. do {
     c \<leftarrow> infos s p;
     (a, s) \<leftarrow> blocking_call env (si_Provider c) fn (Hnd (si_ProviderSocket c) # args) s;
     unlock_return env p (la_ret a) s })"

definition WSPBind :: "lsp_env \<Rightarrow> handle \<Rightarrow> appptr \<Rightarrow> int \<Rightarrow> lsp \<Rightarrow> (int, lsp) outcome" where
  "WSPBind env h name namelen = pass_down env lpWSPBind h [Ptr name, Num namelen]"

definition WSPConnect ::
    "lsp_env \<Rightarrow> handle \<Rightarrow> appptr \<Rightarrow> int \<Rightarrow> appptr \<Rightarrow> appptr \<Rightarrow> appptr \<Rightarrow> appptr \<Rightarrow> lsp \<Rightarrow> (int, lsp) outcome" where
  "WSPConnect env h name namelen lpCallerData lpCalleeData lpSQOS lpGQOS =
     pass_down env lpWSPConnect h [Ptr name, Num namelen, Ptr lpCallerData, Ptr lpCalleeData, Ptr lpSQOS, Ptr lpGQOS]"

definition WSPEnumNetworkEvents :: "lsp_env \<Rightarrow> handle \<Rightarrow> nat \<Rightarrow> appptr \<Rightarrow> lsp \<Rightarrow> (int, lsp) outcome" where
  "WSPEnumNetworkEvents env h hEventObject lpNetworkEvents =
     pass_down env lpWSPEnumNetworkEvents h [ULong hEventObject, Ptr lpNetworkEvents]"

definition WSPEventSelect :: "lsp_env \<Rightarrow> handle \<Rightarrow> nat \<Rightarrow> int \<Rightarrow> lsp \<Rightarrow> (int, lsp) outcome" where
  "WSPEventSelect env h hEventObject lNetworkEvents =
     pass_down env lpWSPEventSelect h [ULong hEventObject, Num lNetworkEvents]"

definition WSPGetPeerName :: "lsp_env \<Rightarrow> handle \<Rightarrow> appptr \<Rightarrow> appptr \<Rightarrow> lsp \<Rightarrow> (int, lsp) outcome" where
  "WSPGetPeerName env h name namelen = pass_down env lpWSPGetPeerName h [Ptr name, Ptr namelen]"

definition WSPGetSockName :: "lsp_env \<Rightarrow> handle \<Rightarrow> appptr \<Rightarrow> appptr \<Rightarrow> lsp \<Rightarrow> (int, lsp) outcome" where
  "WSPGetSockName env h name namelen = pass_down env lpWSPGetSockName h [Ptr name, Ptr namelen]"

definition WSPGetQOSByName :: "lsp_env \<Rightarrow> handle \<Rightarrow> appptr \<Rightarrow> appptr \<Rightarrow> lsp \<Rightarrow> (int, lsp) outcome" where
  "WSPGetQOSByName env h lpQOSName lpQOS = pass_down env lpWSPGetQOSByName h [Ptr lpQOSName, Ptr lpQOS]"

definition WSPListen :: "lsp_env \<Rightarrow> handle \<Rightarrow> int \<Rightarrow> lsp \<Rightarrow> (int, lsp) outcome" where
  "WSPListen env h backlog = pass_down env lpWSPListen h [Num backlog]"

definition WSPRecvDisconnect :: "lsp_env \<Rightarrow> handle \<Rightarrow> appptr \<Rightarrow> lsp \<Rightarrow> (int, lsp) outcome" where
  "WSPRecvDisconnect env h lpInboundDisconnectData = pass_down env lpWSPRecvDisconnect h [Ptr lpInboundDisconnectData]"

definition WSPSendDisconnect :: "lsp_env \<Rightarrow> handle \<Rightarrow> appptr \<Rightarrow> lsp \<Rightarrow> (int, lsp) outcome" where
  "WSPSendDisconnect env h lpOutboundDisconnectData = pass_down env lpWSPSendDisconnect h [Ptr lpOutboundDisconnectData]"

definition WSPShutdown :: "lsp_env \<Rightarrow> handle \<Rightarrow> int \<Rightarrow> lsp \<Rightarrow> (int, lsp) outcome" where
  "WSPShutdown env h how = pass_down env lpWSPShutdown h [Num how]"

section \<open>The hidden window\<close>

definition StopAsyncWindowManager :: "lsp \<Rightarrow> int \<times> lsp" where
  "StopAsyncWindowManager s =
     (case AsyncWindow s of
        None \<Rightarrow> (0, s)
      | Some w \<Rightarrow> (0, trace CloseWorkerThread ((trace DestroyWindow s)\<lparr>AsyncWindow := None\<rparr>)))"

text \<open>
  The loop that waits until the thread has created the window ends when it does; \<open>new_window\<close> is the
  window \<open>AsyncMsgHandler\<close> creates, and where it creates none the loop does not end, which is \<open>None\<close>.
\<close>

definition GetWorkerWindow :: "lsp_env \<Rightarrow> lsp \<Rightarrow> (nat option, lsp) outcome" where
  "GetWorkerWindow env = locked gCriticalSection (\<lambda>s.
     if WorkerThreadHandle s then Some (AsyncWindow s, s)
     else let s = trace StartWindowThread s; s = s\<lparr>WorkerThreadHandle := create_thread_ok env (ltrace s)\<rparr> in
       if WorkerThreadHandle s
       then (case AsyncWindow s of
               Some w \<Rightarrow> Some (Some w, s)
             | None \<Rightarrow> do { w \<leftarrow> new_window env (ltrace s); Some (Some w, s\<lparr>AsyncWindow := Some w\<rparr>) })
       else Some (None, s\<lparr>AsyncWindow := None\<rparr>))"

text \<open>Whether the message was handled; otherwise it goes to \<open>DefWindowProc\<close>.\<close>

definition AsyncWndProc :: "nat \<Rightarrow> handle \<Rightarrow> nat \<Rightarrow> lsp \<Rightarrow> (bool, lsp) outcome" where
  "AsyncWndProc uMsg wParam lParam s =
     (if uMsg \<noteq> WM_SOCKET then Some (False, s)
      else do {
        (si, s) \<leftarrow> GetCallerSocket None wParam s;
        case si of
          None \<Rightarrow> Some (False, s)
        | Some p \<Rightarrow> do {
            c \<leftarrow> infos s p;
            Some (True, trace (PostMessage (si_hWnd c) (si_uMsg c) (si_LayeredSocket c) lParam) s) } })"

definition FD_ALL_EVENTS :: dword where "FD_ALL_EVENTS = 0x3FF"

definition WSPAsyncSelect :: "lsp_env \<Rightarrow> handle \<Rightarrow> nat \<Rightarrow> nat \<Rightarrow> dword \<Rightarrow> lsp \<Rightarrow> (int, lsp) outcome" where
  "WSPAsyncSelect env h hWnd wMsg lEvent s =
     (if IsWindow env hWnd \<and> lEvent AND NOT FD_ALL_EVENTS = 0 then
        with_context env h SOCKET_ERROR (\<lambda>p s. do {
          c \<leftarrow> infos s p;
          let s = upd_info p (\<lambda>c. c\<lparr>si_hWnd := hWnd, si_uMsg := wMsg\<rparr>) s;
          (w, s) \<leftarrow> GetWorkerWindow env s;
          (r, s) \<leftarrow> (case w of
                      None \<Rightarrow> Some (SOCKET_ERROR, s\<lparr>lpErrno := WSAEINVAL\<rparr>)
                    | Some hw \<Rightarrow> do {
                        (a, s) \<leftarrow> blocking_call env (si_Provider c) lpWSPAsyncSelect
                           [Hnd (si_ProviderSocket c), ULong hw, ULong WM_SOCKET, DWord lEvent] s;
                        Some (la_ret a, s) });
          unlock_return env p r s }) s
      else Some (SOCKET_ERROR, s\<lparr>lpErrno := WSAEINVAL\<rparr>))"

section \<open>New sockets\<close>

definition WSPAccept :: "lsp_env \<Rightarrow> handle \<Rightarrow> appptr \<Rightarrow> appptr \<Rightarrow> appptr \<Rightarrow> nat \<Rightarrow> lsp \<Rightarrow> (handle, lsp) outcome" where
  "WSPAccept env h addr addrlen lpfnCondition dwCallbackData = with_context env h None (\<lambda>p s. do {
     c \<leftarrow> infos s p;
     (a, s) \<leftarrow> blocking_call env (si_Provider c) lpWSPAccept
        [Hnd (si_ProviderSocket c), Ptr addr, Ptr addrlen, Ptr lpfnCondition, ULong dwCallbackData] s;
     (r, s) \<leftarrow>
       (if la_socket a = None then Some (None, s)
        else do {
          (n, s) \<leftarrow> CreateSockInfo env (si_Provider c) (la_socket a) (Some p) s;
          case n of
            None \<Rightarrow> Some (None, s\<lparr>lpErrno := WSAENOBUFS\<rparr>)
          | Some x \<Rightarrow> do {
              q \<leftarrow> prov s (si_Provider c);
              let s = trace (CreateSocketHandle (ChainEntries (LayeredProvider q) ! 0) x) s;
              let (new, s) = (case WPUCreateSocketHandle env (ltrace s) of
                                Inl e \<Rightarrow> (None, s\<lparr>lpErrno := e\<rparr>) | Inr k \<Rightarrow> (Some k, s));
              Some (new, upd_info x (si_LayeredSocket_update (\<lambda>_. new)) s) } });
     unlock_return env p r s })"

definition WSPJoinLeaf ::
    "lsp_env \<Rightarrow> handle \<Rightarrow> appptr \<Rightarrow> int \<Rightarrow> appptr \<Rightarrow> appptr \<Rightarrow> appptr \<Rightarrow> appptr \<Rightarrow> dword \<Rightarrow> lsp \<Rightarrow> (handle, lsp) outcome" where
  "WSPJoinLeaf env h name namelen lpCallerData lpCalleeData lpSQOS lpGQOS flags = with_context env h None (\<lambda>p s. do {
     c \<leftarrow> infos s p;
     (a, s) \<leftarrow> blocking_call env (si_Provider c) lpWSPJoinLeaf
        [Hnd (si_ProviderSocket c), Ptr name, Num namelen, Ptr lpCallerData, Ptr lpCalleeData, Ptr lpSQOS, Ptr lpGQOS, DWord flags] s;
     c \<leftarrow> infos s p;
     if la_socket a = si_ProviderSocket c then unlock_return env p h s
     else do {
       (n, s) \<leftarrow> CreateSockInfo env (si_Provider c) (la_socket a) (Some p) s;
       case n of
         None \<Rightarrow> unlock_return env p None (s\<lparr>lpErrno := WSAENOBUFS\<rparr>)
       | Some x \<Rightarrow> do {
           q \<leftarrow> prov s (si_Provider c);
           let s = trace (CreateSocketHandle (ChainEntries (LayeredProvider q) ! 0) x) s;
           case WPUCreateSocketHandle env (ltrace s) of
             Inl e \<Rightarrow> do {
               (_, s) \<leftarrow> HeapFree_info x (s\<lparr>lpErrno := e\<rparr>);
               (_, s) \<leftarrow> UnlockSocketContext env p s;
               Some (None, s\<lparr>lpErrno := WSAENOBUFS\<rparr>) }
           | Inr k \<Rightarrow> unlock_return env p (Some k) (upd_info x (si_LayeredSocket_update (\<lambda>_. Some k)) s) } } })"

section \<open>Closing\<close>

definition WSPCloseSocket :: "lsp_env \<Rightarrow> handle \<Rightarrow> lsp \<Rightarrow> (int, lsp) outcome" where
  "WSPCloseSocket env h = with_context env h SOCKET_ERROR (\<lambda>p s. do {
     (_, s) \<leftarrow> AcquireSocketLock p s;
     c \<leftarrow> infos s p;
     if si_dwOutstandingAsync c \<noteq> 0 \<or> si_RefCount c \<noteq> 1 then do {
       let s = upd_info p (si_bClosing_update (\<lambda>_. True)) s;
       (a, s) \<leftarrow> call_lower env (si_Provider c) lpWSPCloseSocket [Hnd (si_ProviderSocket c)] s;
       let s = set_Errno (la_Errno a) s;
       if la_ret a = SOCKET_ERROR then unlock_return env p SOCKET_ERROR (s\<lparr>lpErrno := WSAENOTSOCK\<rparr>)
       else unlock_return env p 0 (upd_info p (si_ProviderSocket_update (\<lambda>_. None)) s) }
     else do {
       (a, s) \<leftarrow> blocking_call env (si_Provider c) lpWSPCloseSocket [Hnd (si_ProviderSocket c)] s;
       if la_ret a = SOCKET_ERROR then unlock_return env p SOCKET_ERROR s
       else do {
         let s = upd_info p (si_ProviderSocket_update (\<lambda>_. None)) s;
         (_, s) \<leftarrow> RemoveSocketInfo (si_Provider c) p s;
         let (ok, s) = close_handle env h s;
         (_, s) \<leftarrow> ReleaseSocketLock p s;
         if \<not> ok then Some (SOCKET_ERROR, s)
         else do {
           (_, s) \<leftarrow> HeapFree_info p (DeleteCriticalSection (SockCritSec p) s);
           Some (0, s) } } } })"

section \<open>Addresses and protocol information\<close>

text \<open>
  The loops that look for the provider below: the first whose catalog entry satisfies the condition
  and, where the caller passed an entry, has its service flags up to \<open>XP1_IFS_HANDLES\<close>.
\<close>

definition same_flags :: "WSAPROTOCOL_INFOW \<Rightarrow> WSAPROTOCOL_INFOW option \<Rightarrow> bool" where
  "same_flags a io =
     (case io of
        None \<Rightarrow> True
      | Some b \<Rightarrow> dwServiceFlags1 a AND NOT XP1_IFS_HANDLES = dwServiceFlags1 b AND NOT XP1_IFS_HANDLES)"

fun find_provider ::
    "(WSAPROTOCOL_INFOW \<Rightarrow> bool) \<Rightarrow> WSAPROTOCOL_INFOW option \<Rightarrow> lsp \<Rightarrow> pid list \<Rightarrow> pid option option" where
  "find_provider ok io s [] = Some None"
| "find_provider ok io s (i # is) = do {
     q \<leftarrow> prov s i;
     if ok (NextProvider q) \<and> same_flags (NextProvider q) io then Some (Some i)
     else find_provider ok io s is }"

text \<open>\<open>WSPAddressToString\<close> and \<open>WSPStringToAddress\<close> read \<open>lpProtocolInfo\<close> in the first turn of the loop.\<close>

definition convert_address ::
    "lsp_env \<Rightarrow> lower_fn \<Rightarrow> (WSAPROTOCOL_INFOW \<Rightarrow> arg list) \<Rightarrow> appptr \<Rightarrow> lsp \<Rightarrow> (int, lsp) outcome" where
  "convert_address env fn args lpProtocolInfo s =
     (if gLayerCount s = 0 then Some (SOCKET_ERROR, s\<lparr>lpErrno := WSAEINVAL\<rparr>)
      else do {
        v \<leftarrow> lpProtocolInfo;
        let v = m_info (mem s) v;
        r \<leftarrow> find_provider (\<lambda>n. iAddressFamily n = iAddressFamily v \<and> iSocketType n = iSocketType v \<and>
                                iProtocol n = iProtocol v) (Some v) s [0..<gLayerCount s];
        case r of
          None \<Rightarrow> Some (SOCKET_ERROR, s\<lparr>lpErrno := WSAEINVAL\<rparr>)
        | Some i \<Rightarrow> do {
            q \<leftarrow> prov s i;
            let pInfo = (if ChainLen (NextProvider q) \<noteq> BASE_PROTOCOL then v else NextProvider q);
            (a, s) \<leftarrow> blocking_call env i fn (args pInfo) s;
            Some (la_ret a, s) } })"

definition WSPAddressToString ::
    "lsp_env \<Rightarrow> appptr \<Rightarrow> dword \<Rightarrow> appptr \<Rightarrow> appptr \<Rightarrow> appptr \<Rightarrow> lsp \<Rightarrow> (int, lsp) outcome" where
  "WSPAddressToString env lpsaAddress dwAddressLength lpProtocolInfo lpszAddressString lpdwAddressStringLength =
     convert_address env lpWSPAddressToString
       (\<lambda>pInfo. [Ptr lpsaAddress, DWord dwAddressLength, Info pInfo, Ptr lpszAddressString, Ptr lpdwAddressStringLength])
       lpProtocolInfo"

definition WSPStringToAddress ::
    "lsp_env \<Rightarrow> appptr \<Rightarrow> int \<Rightarrow> appptr \<Rightarrow> appptr \<Rightarrow> appptr \<Rightarrow> lsp \<Rightarrow> (int, lsp) outcome" where
  "WSPStringToAddress env AddressString AddressFamily lpProtocolInfo lpAddress lpAddressLength =
     convert_address env lpWSPStringToAddress
       (\<lambda>pInfo. [Ptr AddressString, Num AddressFamily, Info pInfo, Ptr lpAddress, Ptr lpAddressLength])
       lpProtocolInfo"

definition WSPDuplicateSocket :: "lsp_env \<Rightarrow> handle \<Rightarrow> dword \<Rightarrow> appptr \<Rightarrow> lsp \<Rightarrow> (int, lsp) outcome" where
  "WSPDuplicateSocket env h dwProcessId lpProtocolInfo = with_context env h SOCKET_ERROR (\<lambda>p s. do {
     c \<leftarrow> infos s p;
     (a, s) \<leftarrow> blocking_call env (si_Provider c) lpWSPDuplicateSocket
        [Hnd (si_ProviderSocket c), DWord dwProcessId, Ptr lpProtocolInfo] s;
     (_, s) \<leftarrow> UnlockSocketContext env p s;
     if la_ret a \<noteq> 0 then Some (la_ret a, s)
     else do {
       v \<leftarrow> lpProtocolInfo;
       q \<leftarrow> prov s (si_Provider c);
       let reserved = dwProviderReserved (m_info (mem s) v);
       let info = (LayeredProvider q)\<lparr>dwProviderReserved := reserved\<rparr>;
       Some (la_ret a, s\<lparr>mem := (mem s)\<lparr>m_info := (m_info (mem s))(v := info)\<rparr>\<rparr>) } })"

section \<open>Socket options\<close>

definition SOL_SOCKET :: int where "SOL_SOCKET = 0xFFFF"
definition SO_PROTOCOL_INFOA :: int where "SO_PROTOCOL_INFOA = 0x2004"
definition SO_PROTOCOL_INFOW :: int where "SO_PROTOCOL_INFOW = 0x2005"
definition SO_UPDATE_ACCEPT_CONTEXT :: int where "SO_UPDATE_ACCEPT_CONTEXT = 0x700B"

text \<open>
  \<open>WSPGetSockOpt\<close>.  The sizes of the two structures are 628 and 372 bytes; the second test reads
  the byte at \<open>optval\<close>, a signed \<open>char\<close> converted to \<open>size_t\<close>.
\<close>

definition WSPGetSockOpt :: "lsp_env \<Rightarrow> handle \<Rightarrow> int \<Rightarrow> int \<Rightarrow> appptr \<Rightarrow> appptr \<Rightarrow> lsp \<Rightarrow> (int, lsp) outcome" where
  "WSPGetSockOpt env h level optname optval optlen = with_context env h SOCKET_ERROR (\<lambda>p s. do {
     c \<leftarrow> infos s p;
     if level = SOL_SOCKET \<and> optname \<in> {SO_PROTOCOL_INFOA, SO_PROTOCOL_INFOW} then do {
       q \<leftarrow> prov s (si_Provider c);
       let v = LayeredProvider q;
       if optname = SO_PROTOCOL_INFOW then do {
         n \<leftarrow> optlen;
         if 628 \<le> m_dword (mem s) n then do {
           b \<leftarrow> optval;
           unlock_return env p 0 (s\<lparr>mem := (mem s)\<lparr>m_info := (m_info (mem s))(b := v)\<rparr>\<rparr>) }
         else unlock_return env p SOCKET_ERROR (s\<lparr>lpErrno := WSAEFAULT\<rparr>) }
       else do {
         b \<leftarrow> optval;
         if 372 \<le> (scast (m_char (mem s) b) :: 64 word) then
           unlock_return env p 0
             (s\<lparr>mem := (mem s)\<lparr>m_infoA := (m_infoA (mem s))(b := (v, to_multibyte env (szProtocol v)))\<rparr>\<rparr>)
         else unlock_return env p SOCKET_ERROR (s\<lparr>lpErrno := WSAEFAULT\<rparr>) } }
     else do {
       (a, s) \<leftarrow> blocking_call env (si_Provider c) lpWSPGetSockOpt
          [Hnd (si_ProviderSocket c), Num level, Num optname, Ptr optval, Ptr optlen] s;
       unlock_return env p (la_ret a) s } })"

definition WSPSetSockOpt :: "lsp_env \<Rightarrow> handle \<Rightarrow> int \<Rightarrow> int \<Rightarrow> appptr \<Rightarrow> int \<Rightarrow> lsp \<Rightarrow> (int, lsp) outcome" where
  "WSPSetSockOpt env h level optname optval optlen = with_context env h SOCKET_ERROR (\<lambda>p s. do {
     c \<leftarrow> infos s p;
     if optname = SO_UPDATE_ACCEPT_CONTEXT then do {
       b \<leftarrow> optval;
       (ctx, s) \<leftarrow> FindAndLockSocketContext env (m_sock (mem s) b) s;
       case ctx of
         None \<Rightarrow> Some (SOCKET_ERROR, s\<lparr>lpErrno := WSAENOTSOCK\<rparr>)
       | Some AcceptContext \<Rightarrow> do {
           (_, s) \<leftarrow> UnlockSocketContext env AcceptContext s;
           d \<leftarrow> infos s AcceptContext;
           (a, s) \<leftarrow> blocking_call env (si_Provider c) lpWSPSetSockOpt
              [Hnd (si_ProviderSocket c), Num level, Num optname, Hnd (si_ProviderSocket d), Num optlen] s;
           unlock_return env p (la_ret a) s } }
     else do {
       (a, s) \<leftarrow> blocking_call env (si_Provider c) lpWSPSetSockOpt
          [Hnd (si_ProviderSocket c), Num level, Num optname, Ptr optval, Num optlen] s;
       unlock_return env p (la_ret a) s } })"

section \<open>Overlapped calls\<close>

text \<open>
  The part every overlapped entry point repeats: take a structure from the pool, fill it, queue it.
  \<open>None\<close> is an empty pool.  \<open>mk\<close> makes the arguments, after the other members are set.
\<close>

definition start_overlapped ::
    "lsp_env \<Rightarrow> sid \<Rightarrow> handle \<Rightarrow> aid \<Rightarrow> lsp_op \<Rightarrow> ulong_ptr \<Rightarrow> ulong_ptr \<Rightarrow> pid option \<Rightarrow>
     (lsp \<Rightarrow> (lsp_args, lsp) outcome) \<Rightarrow> lsp \<Rightarrow> (oid option, lsp) outcome" where
  "start_overlapped env p h a op thr routine provider mk s = do {
     (r, s) \<leftarrow> GetOverlappedStructure env p s;
     case r of
       None \<Rightarrow> Some (None, s)
     | Some ol \<Rightarrow> do {
         c \<leftarrow> infos s p;
         let s = upd_olp ol (\<lambda>x. x\<lparr>olp_lpCallerOverlapped := Some a\<rparr>) s;
         let s = CopyOffset ol a s;
         let s = upd_olp ol (\<lambda>x. x\<lparr>olp_SockInfo := Some p, olp_CallerSocket := h,
                   olp_ProviderSocket := si_ProviderSocket c, olp_Error := NO_ERROR, olp_Operation := op,
                   olp_lpCallerThreadId := thr, olp_lpCallerCompletionRoutine := routine\<rparr>) s;
         (args, s) \<leftarrow> mk s;
         let s = upd_olp ol (\<lambda>x. x\<lparr>olp_args := args,
                   olp_Provider := (case provider of Some i \<Rightarrow> i | None \<Rightarrow> si_Provider c)\<rparr>) s;
         Some (Some ol, s) } }"

definition overlapped_call ::
    "lsp_env \<Rightarrow> sid \<Rightarrow> handle \<Rightarrow> aid \<Rightarrow> lsp_op \<Rightarrow> ulong_ptr \<Rightarrow> ulong_ptr \<Rightarrow> (lsp \<Rightarrow> (lsp_args, lsp) outcome) \<Rightarrow>
     lsp \<Rightarrow> (int, lsp) outcome" where
  "overlapped_call env p h a op thr routine mk s = do {
     (r, s) \<leftarrow> start_overlapped env p h a op thr routine None mk s;
     case r of
       None \<Rightarrow> do {
         (_, s) \<leftarrow> UnlockSocketContext env p s;
         Some (SOCKET_ERROR, s\<lparr>lpErrno := WSAENOBUFS\<rparr>) }
     | Some ol \<Rightarrow> do {
         (e, s) \<leftarrow> QueueOverlappedOperation env ol p s;
         if e \<noteq> NO_ERROR then unlock_return env p SOCKET_ERROR (s\<lparr>lpErrno := e\<rparr>)
         else unlock_return env p 0 s } }"

text \<open>\<open>(p ? *p : 0)\<close>\<close>

definition opt_dword :: "appptr \<Rightarrow> lsp \<Rightarrow> dword" where
  "opt_dword p s = (case p of None \<Rightarrow> 0 | Some x \<Rightarrow> m_dword (mem s) x)"

text \<open>The blocking calls count the bytes the provider below stored through the caller's pointer.\<close>

definition counted_call ::
    "lsp_env \<Rightarrow> sid \<Rightarrow> lower_fn \<Rightarrow> (SOCK_INFO \<Rightarrow> arg list) \<Rightarrow> appptr \<Rightarrow> ((dword \<Rightarrow> dword) \<Rightarrow> SOCK_INFO \<Rightarrow> SOCK_INFO) \<Rightarrow>
     lsp \<Rightarrow> (int, lsp) outcome" where
  "counted_call env p fn args lpBytes upd s = do {
     c \<leftarrow> infos s p;
     (a, s) \<leftarrow> blocking_call env (si_Provider c) fn (args c) s;
     s \<leftarrow> (if la_ret a \<noteq> SOCKET_ERROR
            then do { n \<leftarrow> lpBytes; Some (upd_info p (upd (\<lambda>m. m + m_dword (mem s) n)) s) }
            else Some s);
     unlock_return env p (la_ret a) s }"

definition WSPRecv ::
    "lsp_env \<Rightarrow> handle \<Rightarrow> appptr \<Rightarrow> dword \<Rightarrow> appptr \<Rightarrow> appptr \<Rightarrow> aid option \<Rightarrow> ulong_ptr \<Rightarrow> ulong_ptr \<Rightarrow> lsp \<Rightarrow> (int, lsp) outcome" where
  "WSPRecv env h lpBuffers dwBufferCount lpBytes lpFlags lpOverlapped lpCompletionRoutine lpThreadId =
     with_context env h SOCKET_ERROR (\<lambda>p s.
       case lpOverlapped of
         Some a \<Rightarrow> overlapped_call env p h a LSP_OP_RECV lpThreadId lpCompletionRoutine (\<lambda>s. do {
             (b, s) \<leftarrow> CopyBuffer env lpBuffers dwBufferCount s;
             Some (RecvArgs b dwBufferCount (opt_dword lpBytes s) (opt_dword lpFlags s), s) }) s
       | None \<Rightarrow> counted_call env p lpWSPRecv (\<lambda>c. [Hnd (si_ProviderSocket c), Ptr lpBuffers, DWord dwBufferCount,
             Ptr lpBytes, Ptr lpFlags, Ptr None, Routine lpCompletionRoutine, Thread lpThreadId]) lpBytes si_BytesRecv_update s)"

definition WSPRecvFrom ::
    "lsp_env \<Rightarrow> handle \<Rightarrow> appptr \<Rightarrow> dword \<Rightarrow> appptr \<Rightarrow> appptr \<Rightarrow> appptr \<Rightarrow> appptr \<Rightarrow> aid option \<Rightarrow> ulong_ptr \<Rightarrow> ulong_ptr \<Rightarrow> lsp \<Rightarrow>
     (int, lsp) outcome" where
  "WSPRecvFrom env h lpBuffers dwBufferCount lpBytes lpFlags lpFrom lpFromLen lpOverlapped lpCompletionRoutine lpThreadId =
     with_context env h SOCKET_ERROR (\<lambda>p s.
       case lpOverlapped of
         Some a \<Rightarrow> overlapped_call env p h a LSP_OP_RECVFROM lpThreadId lpCompletionRoutine (\<lambda>s. do {
             (b, s) \<leftarrow> CopyBuffer env lpBuffers dwBufferCount s;
             Some (RecvFromArgs b dwBufferCount (opt_dword lpBytes s) (opt_dword lpFlags s) lpFrom lpFromLen, s) }) s
       | None \<Rightarrow> counted_call env p lpWSPRecvFrom (\<lambda>c. [Hnd (si_ProviderSocket c), Ptr lpBuffers, DWord dwBufferCount,
             Ptr lpBytes, Ptr lpFlags, Ptr lpFrom, Ptr lpFromLen, Ptr None, Routine lpCompletionRoutine, Thread lpThreadId])
             lpBytes si_BytesRecv_update s)"

definition WSPSend ::
    "lsp_env \<Rightarrow> handle \<Rightarrow> appptr \<Rightarrow> dword \<Rightarrow> appptr \<Rightarrow> dword \<Rightarrow> aid option \<Rightarrow> ulong_ptr \<Rightarrow> ulong_ptr \<Rightarrow> lsp \<Rightarrow> (int, lsp) outcome" where
  "WSPSend env h lpBuffers dwBufferCount lpBytes flags lpOverlapped lpCompletionRoutine lpThreadId =
     with_context env h SOCKET_ERROR (\<lambda>p s.
       case lpOverlapped of
         Some a \<Rightarrow> overlapped_call env p h a LSP_OP_SEND lpThreadId lpCompletionRoutine (\<lambda>s. do {
             (b, s) \<leftarrow> CopyBuffer env lpBuffers dwBufferCount s;
             Some (SendArgs b dwBufferCount (opt_dword lpBytes s) flags, s) }) s
       | None \<Rightarrow> counted_call env p lpWSPSend (\<lambda>c. [Hnd (si_ProviderSocket c), Ptr lpBuffers, DWord dwBufferCount,
             Ptr lpBytes, DWord flags, Ptr None, Routine lpCompletionRoutine, Thread lpThreadId]) lpBytes si_BytesSent_update s)"

text \<open>An address longer than a \<open>SOCKADDR_STORAGE\<close> (128 bytes) is not copied; its length still is.\<close>

definition copy_sockaddr :: "appptr \<Rightarrow> int \<Rightarrow> lsp \<Rightarrow> byte list option" where
  "copy_sockaddr name len s =
     (if 0 \<le> len \<and> len \<le> 128 then
        (if len = 0 then Some [] else do { b \<leftarrow> name; Some (take (nat len) (m_bytes (mem s) b)) })
      else Some [])"

definition WSPSendTo ::
    "lsp_env \<Rightarrow> handle \<Rightarrow> appptr \<Rightarrow> dword \<Rightarrow> appptr \<Rightarrow> dword \<Rightarrow> appptr \<Rightarrow> int \<Rightarrow> aid option \<Rightarrow> ulong_ptr \<Rightarrow> ulong_ptr \<Rightarrow> lsp \<Rightarrow>
     (int, lsp) outcome" where
  "WSPSendTo env h lpBuffers dwBufferCount lpBytes flags lpTo iToLen lpOverlapped lpCompletionRoutine lpThreadId =
     with_context env h SOCKET_ERROR (\<lambda>p s.
       case lpOverlapped of
         Some a \<Rightarrow> overlapped_call env p h a LSP_OP_SENDTO lpThreadId lpCompletionRoutine (\<lambda>s. do {
             (b, s) \<leftarrow> CopyBuffer env lpBuffers dwBufferCount s;
             to \<leftarrow> copy_sockaddr lpTo iToLen s;
             Some (SendToArgs b dwBufferCount (opt_dword lpBytes s) flags to iToLen, s) }) s
       | None \<Rightarrow> counted_call env p lpWSPSendTo (\<lambda>c. [Hnd (si_ProviderSocket c), Ptr lpBuffers, DWord dwBufferCount,
             Ptr lpBytes, DWord flags, Ptr lpTo, Num iToLen, Ptr None, Routine lpCompletionRoutine, Thread lpThreadId])
             lpBytes si_BytesSent_update s)"

text \<open>
  \<open>WSPGetOverlappedResult\<close>: the socket is not used.  \<open>wait_event\<close> answers the wait on the event:
  whether it succeeded, and the structure as the other threads leave it.
\<close>

definition overlapped_result :: "aid \<Rightarrow> appptr \<Rightarrow> appptr \<Rightarrow> lsp \<Rightarrow> (bool, lsp) outcome" where
  "overlapped_result a lpcbTransfer lpdwFlags s = do {
     n \<leftarrow> lpcbTransfer;
     f \<leftarrow> lpdwFlags;
     let v = app_ov s a;
     let m = (mem s)\<lparr>m_dword := (m_dword (mem s))(n := ucast (ov_InternalHigh v), f := ov_OffsetHigh v)\<rparr>;
     Some (ov_Offset v = 0, s\<lparr>mem := m, lpErrno := ov_Offset v\<rparr>) }"

definition WSPGetOverlappedResult ::
    "lsp_env \<Rightarrow> handle \<Rightarrow> aid \<Rightarrow> appptr \<Rightarrow> bool \<Rightarrow> appptr \<Rightarrow> lsp \<Rightarrow> (bool, lsp) outcome" where
  "WSPGetOverlappedResult env h a lpcbTransfer fWait lpdwFlags s =
     (if ov_Internal (app_ov s a) \<noteq> WSS_OPERATION_IN_PROGRESS then overlapped_result a lpcbTransfer lpdwFlags s
      else if fWait then
        (let s = trace (WaitEvent (ov_hEvent (app_ov s a))) s;
             (ok, v) = wait_event env (ltrace s);
             s = upd_ov a (\<lambda>_. v) s in
         if ok \<and> ov_Internal v \<noteq> WSS_OPERATION_IN_PROGRESS then overlapped_result a lpcbTransfer lpdwFlags s
         else if ov_Internal v = WSS_OPERATION_IN_PROGRESS then Some (False, s\<lparr>lpErrno := WSA_IO_PENDING\<rparr>)
         else Some (False, s\<lparr>lpErrno := WSASYSCALLFAILURE\<rparr>))
      else Some (False, s\<lparr>lpErrno := WSA_IO_INCOMPLETE\<rparr>))"

section \<open>Ioctls\<close>

definition SIO_GET_EXTENSION_FUNCTION_POINTER :: dword where "SIO_GET_EXTENSION_FUNCTION_POINTER = 0xC8000006"
definition SIO_QUERY_TARGET_PNP_HANDLE :: dword where "SIO_QUERY_TARGET_PNP_HANDLE = 0x48000018"

fun guid_ext :: "guid \<Rightarrow> ext_fn option" where
  "guid_ext WSAID_TRANSMITFILE = Some TransmitFile"
| "guid_ext WSAID_ACCEPTEX = Some AcceptEx"
| "guid_ext WSAID_CONNECTEX = Some ConnectEx"
| "guid_ext WSAID_DISCONNECTEX = Some DisconnectEx"
| "guid_ext WSAID_TRANSMITPACKETS = Some TransmitPackets"
| "guid_ext WSAID_WSARECVMSG = Some WSARecvMsg"
| "guid_ext _ = None"

text \<open>The pointer the provider below stores into \<open>NextProcTableExt\<close>.\<close>

definition store_ext :: "pid \<Rightarrow> ext_fn \<Rightarrow> bool option \<Rightarrow> lsp \<Rightarrow> lsp" where
  "store_ext i fn r s =
     (case r of
        None \<Rightarrow> s
      | Some True \<Rightarrow> upd_prov i (NextProcTableExt_update (List.insert fn)) s
      | Some False \<Rightarrow> upd_prov i (NextProcTableExt_update (removeAll fn)) s)"

definition load_extension :: "lsp_env \<Rightarrow> sid \<Rightarrow> guid \<Rightarrow> ext_fn \<Rightarrow> appptr \<Rightarrow> appptr \<Rightarrow> lsp \<Rightarrow> (int, lsp) outcome" where
  "load_extension env p g fn lpvOutBuffer lpcbBytesReturned s = do {
     b \<leftarrow> lpvOutBuffer;
     let s = s\<lparr>mem := (mem s)\<lparr>m_fn := (m_fn (mem s))(b := Some fn)\<rparr>\<rparr>;
     c \<leftarrow> infos s p;
     q \<leftarrow> prov s (si_Provider c);
     (r, s) \<leftarrow>
       (if fn \<in> set (NextProcTableExt q) then Some (0, s)
        else do {
          (a, s) \<leftarrow> blocking_call env (si_Provider c) lpWSPIoctl
             [Hnd (si_ProviderSocket c), DWord SIO_GET_EXTENSION_FUNCTION_POINTER, Guid g, DWord 16, FnOut fn, DWord 8,
              Ptr lpcbBytesReturned, Ptr None, Routine 0, Thread 0] s;
          Some (la_ret a, store_ext (si_Provider c) fn (la_ext a) s) });
     unlock_return env p r s }"

definition query_pnp_handle ::
    "lsp_env \<Rightarrow> sid \<Rightarrow> handle \<Rightarrow> appptr \<Rightarrow> appptr \<Rightarrow> aid option \<Rightarrow> ulong_ptr \<Rightarrow> ulong_ptr \<Rightarrow> lsp \<Rightarrow> (int, lsp) outcome" where
  "query_pnp_handle env p h lpvOutBuffer lpcbBytesReturned lpOverlapped routine thr s = do {
     c \<leftarrow> infos s p;
     b \<leftarrow> lpvOutBuffer;
     n \<leftarrow> lpcbBytesReturned;
     let s = s\<lparr>mem := (mem s)\<lparr>m_sock := (m_sock (mem s))(b := si_ProviderSocket c),
                              m_dword := (m_dword (mem s))(n := 8)\<rparr>\<rparr>;
     case lpOverlapped of
       None \<Rightarrow> unlock_return env p 0 s
     | Some a \<Rightarrow> do {
         (r, s) \<leftarrow> start_overlapped env p h a LSP_OP_IOCTL thr routine None (\<lambda>s. Some (ZeroArgs, s)) s;
         case r of
           None \<Rightarrow> do {
             (_, s) \<leftarrow> UnlockSocketContext env p s;
             Some (SOCKET_ERROR, s\<lparr>lpErrno := WSAENOBUFS\<rparr>) }
         | Some ol \<Rightarrow> do {
             let bytes = m_dword (mem s) n;
             let s = upd_ov a (\<lambda>v. v\<lparr>ov_Internal := routine, ov_InternalHigh := ucast bytes\<rparr>) s;
             (_, s) \<leftarrow> IntermediateCompletionRoutine env 0 bytes (Some ol) 0 s;
             unlock_return env p 0 s } } }"

definition WSPIoctl ::
    "lsp_env \<Rightarrow> handle \<Rightarrow> dword \<Rightarrow> appptr \<Rightarrow> dword \<Rightarrow> appptr \<Rightarrow> dword \<Rightarrow> appptr \<Rightarrow> aid option \<Rightarrow> ulong_ptr \<Rightarrow> ulong_ptr \<Rightarrow> lsp \<Rightarrow>
     (int, lsp) outcome" where
  "WSPIoctl env h code lpvInBuffer cbInBuffer lpvOutBuffer cbOutBuffer lpcbBytesReturned lpOverlapped routine thr =
     (let below = (\<lambda>p s. case lpOverlapped of
         Some a \<Rightarrow> overlapped_call env p h a LSP_OP_IOCTL thr routine (\<lambda>s.
             Some (IoctlArgs code lpvInBuffer cbInBuffer lpvOutBuffer cbOutBuffer (opt_dword lpcbBytesReturned s), s)) s
       | None \<Rightarrow> do {
           c \<leftarrow> infos s p;
           (a, s) \<leftarrow> blocking_call env (si_Provider c) lpWSPIoctl
              [Hnd (si_ProviderSocket c), DWord code, Ptr lpvInBuffer, DWord cbInBuffer, Ptr lpvOutBuffer, DWord cbOutBuffer,
               Ptr lpcbBytesReturned, Ptr None, Routine routine, Thread thr] s;
           unlock_return env p (la_ret a) s }) in
      with_context env h SOCKET_ERROR (\<lambda>p s.
        if code = SIO_GET_EXTENSION_FUNCTION_POINTER then do {
          b \<leftarrow> lpvInBuffer;
          let g = m_guid (mem s) b;
          case guid_ext g of
            Some fn \<Rightarrow> load_extension env p g fn lpvOutBuffer lpcbBytesReturned s
          | None \<Rightarrow>
              if g = WSAID_GETACCEPTEXSOCKADDRS then below p s
              else do {
                (_, s) \<leftarrow> UnlockSocketContext env p s;
                Some (SOCKET_ERROR, s\<lparr>lpErrno := WSAEINVAL\<rparr>) } }
        else if code = SIO_QUERY_TARGET_PNP_HANDLE then
          query_pnp_handle env p h lpvOutBuffer lpcbBytesReturned lpOverlapped routine thr s
        else below p s))"

section \<open>Select\<close>

text \<open>\<open>FD_SET\<close> of \<open>winsock2.h\<close>: a handle that is there is not added again, nor is one to a full set.\<close>

definition FD_SET :: "handle \<Rightarrow> handle list \<Rightarrow> handle list" where
  "FD_SET h xs = (if h \<in> set xs then xs else if length xs < FD_SETSIZE then xs @ [h] else xs)"

text \<open>
  One set translated: the table of application and provider sockets, the set for the provider
  below, and the last context looked up; \<open>None\<close> is the early return with \<open>SOCKET_ERROR\<close>.
\<close>

fun translate_fds ::
    "lsp_env \<Rightarrow> handle list \<Rightarrow> (handle \<times> handle) list \<Rightarrow> handle list \<Rightarrow> sid option \<Rightarrow> lsp \<Rightarrow>
     (((handle \<times> handle) list \<times> handle list \<times> sid option) option, lsp) outcome" where
  "translate_fds env [] tab fds ctx s = Some (Some (tab, fds, ctx), s)"
| "translate_fds env (h # hs) tab fds ctx s = do {
     (r, s) \<leftarrow> FindAndLockSocketContext env h s;
     case r of
       None \<Rightarrow> Some (None, s\<lparr>lpErrno := WSAENOTSOCK\<rparr>)
     | Some p \<Rightarrow> do {
         c \<leftarrow> infos s p;
         let k = si_ProviderSocket c;
         (_, s) \<leftarrow> UnlockSocketContext env p s;
         translate_fds env hs (tab @ [(h, k)]) (FD_SET k fds) (Some p) s } }"

definition translate_set ::
    "lsp_env \<Rightarrow> appptr \<Rightarrow> sid option \<Rightarrow> lsp \<Rightarrow> (((handle \<times> handle) list \<times> handle list \<times> sid option) option, lsp) outcome" where
  "translate_set env fdp ctx s =
     (case fdp of
        None \<Rightarrow> Some (Some ([], [], ctx), s)
      | Some a \<Rightarrow>
          if FD_SETSIZE < length (m_fds (mem s) a) then Some (None, s\<lparr>lpErrno := WSAENOBUFS\<rparr>)
          else translate_fds env (m_fds (mem s) a) [] [] ctx s)"

text \<open>The loop that maps a set back; it stops when all handles the call counted are found.\<close>

fun map_back :: "lsp_env \<Rightarrow> (handle \<times> handle) list \<Rightarrow> handle list \<Rightarrow> int \<Rightarrow> handle list \<Rightarrow> handle list \<times> int" where
  "map_back env [] fds n out = (out, n)"
| "map_back env ((c, k) # tab) fds n out =
     (if n = 0 then (out, n)
      else if WPUFDIsSet env k fds then map_back env tab fds (n - 1) (FD_SET c out)
      else map_back env tab fds n out)"

definition back_to :: "lsp_env \<Rightarrow> appptr \<Rightarrow> (handle \<times> handle) list \<Rightarrow> handle list \<Rightarrow> int \<Rightarrow> lsp \<Rightarrow> int \<times> lsp" where
  "back_to env fdp tab fds n s =
     (case fdp of
        None \<Rightarrow> (n, s)
      | Some a \<Rightarrow>
          (case map_back env (take (length (m_fds (mem s) a)) tab) fds n [] of
             (out, n) \<Rightarrow> (n, s\<lparr>mem := (mem s)\<lparr>m_fds := (m_fds (mem s))(a := out)\<rparr>\<rparr>)))"

definition WSPSelect :: "lsp_env \<Rightarrow> int \<Rightarrow> appptr \<Rightarrow> appptr \<Rightarrow> appptr \<Rightarrow> appptr \<Rightarrow> lsp \<Rightarrow> (int, lsp) outcome" where
  "WSPSelect env nfds readfds writefds exceptfds timeout s =
     (if readfds = None \<and> writefds = None \<and> exceptfds = None then Some (SOCKET_ERROR, s\<lparr>lpErrno := WSAEINVAL\<rparr>)
      else do {
        (r, s) \<leftarrow> translate_set env readfds None s;
        case r of None \<Rightarrow> Some (SOCKET_ERROR, s) | Some (Read, ReadFds, ctx) \<Rightarrow> do {
        (r, s) \<leftarrow> translate_set env writefds ctx s;
        case r of None \<Rightarrow> Some (SOCKET_ERROR, s) | Some (Write, WriteFds, ctx) \<Rightarrow> do {
        (r, s) \<leftarrow> translate_set env exceptfds ctx s;
        case r of None \<Rightarrow> Some (SOCKET_ERROR, s) | Some (Except, ExceptFds, ctx) \<Rightarrow>
        (case ctx of
           None \<Rightarrow> Some (SOCKET_ERROR, s\<lparr>lpErrno := WSAEINVAL\<rparr>)
         | Some p \<Rightarrow> do {
             c \<leftarrow> infos s p;
             let given = (\<lambda>q fds. Fds (if q = None then None else Some fds));
             (a, s) \<leftarrow> blocking_call env (si_Provider c) lpWSPSelect
                [Num nfds, given readfds ReadFds, given writefds WriteFds, given exceptfds ExceptFds, Ptr timeout] s;
             if la_ret a = SOCKET_ERROR then Some (la_ret a, s)
             else let (rs, ws, es) = la_sets a;
                      (n, s) = back_to env readfds Read rs (la_ret a) s;
                      (n, s) = back_to env writefds Write ws n s;
                      (n, s) = back_to env exceptfds Except es n s in
                  Some (la_ret a, s) }) } } })"

text \<open>\<open>WSPCancelBlockingCall\<close>: the test on the thread's provider is the wrong way round, so that a
  thread with none dereferences a null pointer.\<close>

definition WSPCancelBlockingCall :: "lsp \<Rightarrow> (int, lsp) outcome" where
  "WSPCancelBlockingCall s = (case (if TlsIndex s then blocking s (lthread s) else None) of None \<Rightarrow> None | Some _ \<Rightarrow> Some (0, s))"

end
