(* ===== verification/LspStartup.thy ===== *)
theory LspStartup
  imports LspSpi
begin

text \<open>
  The life of the layered provider: \<open>WSPStartup\<close>, which finds the catalog entries it is layered over
  and loads the providers below, \<open>WSPSocket\<close>, \<open>WSPCleanup\<close> and \<open>DllMain\<close> (\<open>spi.cpp\<close>), with
  \<open>GetProviders\<close> (\<open>provider.cpp\<close>).
\<close>

section \<open>Sockets\<close>

text \<open>The pointer \<open>pInfo\<close>: the entry of a provider below, or the caller's.\<close>

datatype info_ptr = InBase pid | InCaller nat

definition read_info :: "info_ptr \<Rightarrow> lsp \<Rightarrow> WSAPROTOCOL_INFOW option" where
  "read_info p s = (case p of InBase i \<Rightarrow> map_option NextProvider (prov s i) | InCaller a \<Rightarrow> Some (m_info (mem s) a))"

definition set_reserved :: "info_ptr \<Rightarrow> dword \<Rightarrow> lsp \<Rightarrow> lsp" where
  "set_reserved p r s =
     (case p of
        InBase i \<Rightarrow> upd_prov i (NextProvider_update (dwProviderReserved_update (\<lambda>_. r))) s
      | InCaller a \<Rightarrow> s\<lparr>mem := (mem s)\<lparr>m_info := (m_info (mem s))(a := (m_info (mem s) a)\<lparr>dwProviderReserved := r\<rparr>)\<rparr>\<rparr>)"

text \<open>
  The first loop of \<open>WSPSocket\<close>: whether some provider below has the address family, some the socket
  type and some the protocol.
\<close>

fun check_triple :: "int \<Rightarrow> int \<Rightarrow> int \<Rightarrow> lsp \<Rightarrow> pid list \<Rightarrow> bool \<times> bool \<times> bool \<Rightarrow> (bool \<times> bool \<times> bool) option" where
  "check_triple af type proto s [] okay = Some okay"
| "check_triple af type proto s (i # is) (afOk, typeOk, protoOk) = do {
     q \<leftarrow> prov s i;
     let n = NextProvider q;
     check_triple af type proto s is
       (afOk \<or> af = AF_UNSPEC \<or> af = iAddressFamily n,
        typeOk \<or> type = iSocketType n,
        protoOk \<or> proto = 0 \<or> proto = iProtocol n \<or> proto = IPPROTO_RAW \<or> type = SOCK_RAW) }"

text \<open>The condition of the four loops that choose the provider, by what the caller left open.\<close>

definition socket_match :: "int \<Rightarrow> int \<Rightarrow> int \<Rightarrow> WSAPROTOCOL_INFOW \<Rightarrow> bool" where
  "socket_match af type proto n =
     (if af = AF_UNSPEC \<and> proto = 0 then iSocketType n = type
      else if af = AF_UNSPEC then iProtocol n = proto \<and> iSocketType n = type
      else if proto \<noteq> 0 \<and> proto \<noteq> IPPROTO_RAW \<and> type \<noteq> SOCK_RAW
      then iAddressFamily n = af \<and> iSocketType n = type \<and> iProtocol n = proto
      else iAddressFamily n = af \<and> iSocketType n = type)"

text \<open>
  What \<open>WSPSocket\<close> does before it calls the provider below: the error it returns, or the provider and
  the pointer to the entry it hands down.
\<close>

definition choose_provider ::
    "int \<Rightarrow> int \<Rightarrow> int \<Rightarrow> appptr \<Rightarrow> lsp \<Rightarrow> (dword + (pid \<times> info_ptr), lsp) outcome" where
  "choose_provider af type protocol lpProtocolInfo s =
     (let io = map_option (m_info (mem s)) lpProtocolInfo;
          iaf = (case io of Some v \<Rightarrow> iAddressFamily v | None \<Rightarrow> af);
          iproto = (case io of Some v \<Rightarrow> iProtocol v | None \<Rightarrow> protocol);
          itype = (case io of Some v \<Rightarrow> iSocketType v | None \<Rightarrow> type) in do {
        okay \<leftarrow> check_triple iaf itype iproto s [0..<gLayerCount s] (False, False, False);
        if \<not> fst okay then Some (Inl WSAEAFNOSUPPORT, s)
        else if \<not> fst (snd okay) then Some (Inl WSAESOCKTNOSUPPORT, s)
        else if \<not> snd (snd okay) then Some (Inl WSAEPROTONOSUPPORT, s)
        else do {
          r \<leftarrow> find_provider (socket_match iaf itype iproto) io s [0..<gLayerCount s];
          case r of
            None \<Rightarrow> Some (Inl (if iaf = AF_UNSPEC \<and> iproto \<noteq> 0 then WSAEPROTOTYPE else WSAEAFNOSUPPORT), s)
          | Some i \<Rightarrow> do {
              let s = (case io of Some v \<Rightarrow> set_reserved (InBase i) (dwProviderReserved v) s | None \<Rightarrow> s);
              q \<leftarrow> prov s i;
              if ChainLen (NextProvider q) \<noteq> BASE_PROTOCOL
              then do { a \<leftarrow> lpProtocolInfo; Some (Inr (i, InCaller a), s) }
              else Some (Inr (i, InBase i), s) } } })"

definition WSPSocket ::
    "lsp_env \<Rightarrow> int \<Rightarrow> int \<Rightarrow> int \<Rightarrow> appptr \<Rightarrow> nat \<Rightarrow> dword \<Rightarrow> lsp \<Rightarrow> (handle, lsp) outcome" where
  "WSPSocket env af type protocol lpProtocolInfo g flags s = do {
     (r, s) \<leftarrow> choose_provider af type protocol lpProtocolInfo (s\<lparr>lpErrno := NO_ERROR\<rparr>);
     case r of
       Inl e \<Rightarrow> Some (None, s\<lparr>lpErrno := e\<rparr>)
     | Inr (i, pInfo) \<Rightarrow> do {
         info \<leftarrow> read_info pInfo s;
         let InfoCopy = (case lpProtocolInfo of
                           Some a \<Rightarrow> info\<lparr>dwProviderReserved := dwProviderReserved (m_info (mem s) a)\<rparr>
                         | None \<Rightarrow> info);
         (a, s) \<leftarrow> blocking_call env i lpWSPSocket
            [Num af, Num type, Num protocol, Info InfoCopy, ULong g, DWord flags] s;
         if la_socket a = None then Some (None, s)
         else do {
           (n, s) \<leftarrow> CreateSockInfo env i (la_socket a) None s;
           case n of
             None \<Rightarrow> Some (None, s\<lparr>lpErrno := WSAENOBUFS\<rparr>)
           | Some x \<Rightarrow> do {
               q \<leftarrow> prov s i;
               let s = trace (CreateSocketHandle (ChainEntries (LayeredProvider q) ! 0) x) s;
               (new, s) \<leftarrow> (case WPUCreateSocketHandle env (ltrace s) of
                             Inl e \<Rightarrow> do {
                               (_, s) \<leftarrow> HeapFree_info x (s\<lparr>lpErrno := e\<rparr>);
                               Some (None, s) }
                           | Inr k \<Rightarrow> Some (Some k, s));
               _ \<leftarrow> infos s x;
               let s = upd_info x (si_LayeredSocket_update (\<lambda>_. new)) s;
               Some (new, set_reserved pInfo 0 s) } } } }"

section \<open>Startup\<close>

text \<open>The test on every entry of a procedure table.\<close>

definition VerifyProcTable :: "lower_fn list \<Rightarrow> int" where
  "VerifyProcTable t =
     (if list_all (\<lambda>f. f \<in> set t)
           [lpWSPAccept, lpWSPAddressToString, lpWSPAsyncSelect, lpWSPBind, lpWSPCancelBlockingCall,
            lpWSPCleanup, lpWSPCloseSocket, lpWSPConnect, lpWSPDuplicateSocket, lpWSPEnumNetworkEvents,
            lpWSPEventSelect, lpWSPGetOverlappedResult, lpWSPGetPeerName, lpWSPGetSockOpt, lpWSPGetSockName,
            lpWSPGetQOSByName, lpWSPIoctl, lpWSPJoinLeaf, lpWSPListen, lpWSPRecv, lpWSPRecvDisconnect,
            lpWSPRecvFrom, lpWSPSelect, lpWSPSend, lpWSPSendDisconnect, lpWSPSendTo, lpWSPSetSockOpt,
            lpWSPShutdown, lpWSPSocket, lpWSPStringToAddress]
      then 0 else SOCKET_ERROR)"

text \<open>
  \<open>GetProviders\<close> enumerates twice: the first call is to fail with \<open>WSAENOBUFS\<close> and give the size.
\<close>

definition GetProviders :: "lsp_env \<Rightarrow> lsp \<Rightarrow> WSAPROTOCOL_INFOW list option \<times> lsp" where
  "GetProviders env s =
     (let s = trace EnumProtocols s in
      case catalog env (ltrace s) of
        Inl e \<Rightarrow>
          if e \<noteq> WSAENOBUFS then (None, s)
          else let s = trace HeapAllocate s in
            if \<not> heap_alloc_ok env (ltrace s) then (None, s)
            else let s = trace EnumProtocols s in
              (case catalog env (ltrace s) of Inl _ \<Rightarrow> (None, s) | Inr xs \<Rightarrow> (Some xs, s))
      | Inr _ \<Rightarrow>
          let s = trace HeapAllocate s in
            if \<not> heap_alloc_ok env (ltrace s) then (None, s)
            else let s = trace EnumProtocols s in
              (case catalog env (ltrace s) of Inl _ \<Rightarrow> (None, s) | Inr xs \<Rightarrow> (Some xs, s)))"

definition ProviderGuid :: "128 word" where "ProviderGuid = 0xc5fabbd0973611d1937f00c04fad860d"

text \<open>The layer's own catalog id; it keeps its value where no entry has the provider's GUID.\<close>

definition layer_id :: "dword \<Rightarrow> WSAPROTOCOL_INFOW list \<Rightarrow> dword" where
  "layer_id old xs = (case find (\<lambda>v. ProviderId v = ProviderGuid) xs of Some v \<Rightarrow> dwCatalogEntryId v | None \<Rightarrow> old)"

definition zero_info :: WSAPROTOCOL_INFOW where
  "zero_info = \<lparr>dwServiceFlags1 = 0, ProviderId = 0, dwCatalogEntryId = 0, ChainLen = 0, ChainEntries = replicate 7 0,
     iAddressFamily = 0, iSocketType = 0, iProtocol = 0, dwProviderReserved = 0, szProtocol = [0], pi_rest = 0\<rparr>"

definition zero_PROVIDER :: PROVIDER where
  "zero_PROVIDER = \<lparr>NextProvider = zero_info, LayeredProvider = zero_info, NextProcTable = [], NextProcTableExt = [],
     ProviderPath = [], hProvider = False, SocketList = None\<rparr>"

text \<open>
  The loop that copies the entries: \<open>idx\<close> moves on only where the next provider of the chain is in
  the catalog.
\<close>

fun copy_layers :: "dword \<Rightarrow> WSAPROTOCOL_INFOW list \<Rightarrow> WSAPROTOCOL_INFOW list \<Rightarrow> nat \<Rightarrow> PROVIDER list \<Rightarrow> PROVIDER list" where
  "copy_layers cat all [] idx ps = ps"
| "copy_layers cat all (x # xs) idx ps =
     (if cat \<noteq> ChainEntries x ! 0 then copy_layers cat all xs idx ps
      else let ps = ps[idx := (ps ! idx)\<lparr>LayeredProvider := x\<rparr>] in
        case find (\<lambda>z. dwCatalogEntryId z = ChainEntries x ! 1) all of
          None \<Rightarrow> copy_layers cat all xs idx ps
        | Some z \<Rightarrow> copy_layers cat all xs (Suc idx) (ps[idx := (ps ! idx)\<lparr>NextProvider := z\<rparr>]))"

text \<open>
  The loop that loads the providers below.  \<open>Failed\<close> is an early return after
  \<open>LeaveCriticalSection\<close>, \<open>FailedLocked\<close> the one without it.
\<close>

datatype load_result = Loaded int | Failed dword | FailedLocked dword

definition load_layer :: "lsp_env \<Rightarrow> appptr \<Rightarrow> pid \<Rightarrow> lsp \<Rightarrow> (load_result, lsp) outcome" where
  "load_layer env lpProtocolInfo x s = do {
     q \<leftarrow> prov s x;
     let s = trace (GetPath (ProviderId (NextProvider q))) s;
     case provider_path env (ProviderId (NextProvider q)) of
       None \<Rightarrow> Some (Failed WSAEPROVIDERFAILEDINIT, s)
     | Some path \<Rightarrow> do {
         let lib = (case expand_path env path of Some l \<Rightarrow> l | None \<Rightarrow> path);
         let ok = load_library env lib;
         let s = trace (LoadLib lib) s;
         let s = upd_prov x (\<lambda>q. q\<lparr>ProviderPath := path, hProvider := ok\<rparr>) s;
         if \<not> ok \<or> \<not> has_startup env lib then Some (Failed WSAEPROVIDERFAILEDINIT, s)
         else do {
           info \<leftarrow> (if ChainLen (NextProvider q) = BASE_PROTOCOL then Some (NextProvider q)
                    else map_option (m_info (mem s)) lpProtocolInfo);
           let s = trace (LowerStartup x info) s;
           let (ret, t) = lower_startup env (ltrace s);
           let s = upd_prov x (NextProcTable_update (\<lambda>_. t)) s;
           if VerifyProcTable t = SOCKET_ERROR then Some (FailedLocked WSAEPROVIDERFAILEDINIT, s)
           else Some (Loaded ret, s) } } }"

fun load_layers :: "lsp_env \<Rightarrow> appptr \<Rightarrow> pid list \<Rightarrow> int \<Rightarrow> lsp \<Rightarrow> (load_result, lsp) outcome" where
  "load_layers env info [] ret s = Some (Loaded ret, s)"
| "load_layers env info (x # xs) ret s = do {
     (r, s) \<leftarrow> load_layer env info x s;
     case r of Loaded ret \<Rightarrow> load_layers env info xs ret s | _ \<Rightarrow> Some (r, s) }"

text \<open>The first call, under \<open>gCriticalSection\<close>.\<close>

definition first_startup :: "lsp_env \<Rightarrow> appptr \<Rightarrow> lsp \<Rightarrow> (load_result, lsp) outcome" where
  "first_startup env lpProtocolInfo s =
     (let s = s\<lparr>gEntryCount := gEntryCount s + 1, hLspHeap := create_heap_ok env\<rparr> in
      case GetProviders env s of
        (None, s) \<Rightarrow> Some (Failed WSAEPROVIDERFAILEDINIT, s)
      | (Some xs, s) \<Rightarrow>
          let cat = layer_id (gLayerCatId s) xs;
              n = length (filter (\<lambda>v. cat = ChainEntries v ! 0) xs);
              s = trace HeapAllocate (s\<lparr>gLayerCatId := cat, gLayerCount := n\<rparr>) in
          if \<not> heap_alloc_ok env (ltrace s) then Some (Failed WSAENOBUFS, s\<lparr>gBaseInfo := None\<rparr>)
          else do {
            let s = s\<lparr>gBaseInfo := Some (copy_layers cat xs xs 0 (replicate n zero_PROVIDER))\<rparr>;
            (r, s) \<leftarrow> load_layers env lpProtocolInfo [0..<n] 0 s;
            case r of
              Loaded ret \<Rightarrow> do {
                (_, s) \<leftarrow> InitOverlappedManager env s;
                Some (Loaded ret, s) }
            | _ \<Rightarrow> Some (r, s) })"

text \<open>
  \<open>WSPStartup\<close>: the value it returns, and whether it has stored its procedure table and version for
  the caller.
\<close>

definition WSPStartup :: "lsp_env \<Rightarrow> appptr \<Rightarrow> lsp \<Rightarrow> (int \<times> bool, lsp) outcome" where
  "WSPStartup env lpProtocolInfo s = do {
     (_, s) \<leftarrow> Enter gCriticalSection s;
     (r, s) \<leftarrow> (if gEntryCount s = 0 then first_startup env lpProtocolInfo s
                else Some (Loaded 0, s\<lparr>gEntryCount := gEntryCount s + 1\<rparr>));
     case r of
       FailedLocked e \<Rightarrow> Some ((uint e, False), s)
     | Failed e \<Rightarrow> do { (_, s) \<leftarrow> Leave gCriticalSection s; Some ((uint e, False), s) }
     | Loaded ret \<Rightarrow> do { (_, s) \<leftarrow> Leave gCriticalSection s; Some ((ret, True), s) } }"

section \<open>Cleanup\<close>

fun free_layers :: "lsp_env \<Rightarrow> pid list \<Rightarrow> lsp \<Rightarrow> (unit, lsp) outcome" where
  "free_layers env [] s = Some ((), s)"
| "free_layers env (i # is) s = do {
     q \<leftarrow> prov s i;
     if \<not> hProvider q then free_layers env is s
     else do {
       (_, s) \<leftarrow> CloseAndFreeSocketInfo env i s;
       let s = upd_prov i (SocketList_update (\<lambda>_. None)) s;
       (a, s) \<leftarrow> call_lower env i lpWSPCleanup [] s;
       let s = set_Errno (la_Errno a) s;
       let s = trace (FreeLib i) (DeleteCriticalSection (ProviderCritSec i) s);
       free_layers env is (upd_prov i (hProvider_update (\<lambda>_. False)) s) } }"

text \<open>\<open>HeapDestroy\<close> takes every block of the private heap with it.\<close>

definition FreeSocketsAndMemory :: "lsp_env \<Rightarrow> lsp \<Rightarrow> (unit, lsp) outcome" where
  "FreeSocketsAndMemory env s = do {
     (_, s) \<leftarrow> free_layers env [0..<gLayerCount s] s;
     let s = s\<lparr>gBaseInfo := None\<rparr>;
     Some ((), if hLspHeap s
               then s\<lparr>infos := Map.empty, olps := Map.empty, copied := Map.empty, hLspHeap := False\<rparr> else s) }"

definition WSPCleanup :: "lsp_env \<Rightarrow> lsp \<Rightarrow> (int, lsp) outcome" where
  "WSPCleanup env s =
     (if bDetached s then Some (0, s)
      else locked gCriticalSection (\<lambda>s.
        if gEntryCount s = 0 then Some (SOCKET_ERROR, s\<lparr>lpErrno := WSANOTINITIALISED\<rparr>)
        else
          let s = s\<lparr>gEntryCount := gEntryCount s - 1\<rparr> in
          if gEntryCount s \<noteq> 0 then Some (0, s)
          else do {
            let (_, s) = StopAsyncWindowManager s;
            (_, s) \<leftarrow> StopOverlappedManager s;
            (_, s) \<leftarrow> FreeSocketsAndMemory env s;
            Some (0, s) }) s)"

datatype dll_reason = DLL_PROCESS_ATTACH | DLL_THREAD_ATTACH | DLL_THREAD_DETACH | DLL_PROCESS_DETACH

text \<open>\<open>lpvReserved\<close> is not null where the process ends.\<close>

definition DllMain :: "lsp_env \<Rightarrow> dll_reason \<Rightarrow> bool \<Rightarrow> lsp \<Rightarrow> (bool, lsp) outcome" where
  "DllMain env dwReason lpvReserved s =
     (case dwReason of
        DLL_PROCESS_ATTACH \<Rightarrow> Some (True, s\<lparr>TlsIndex := tls_alloc_ok env\<rparr>)
      | DLL_THREAD_ATTACH \<Rightarrow> Some (True, s)
      | DLL_THREAD_DETACH \<Rightarrow> Some (True, s)
      | DLL_PROCESS_DETACH \<Rightarrow> do {
          (_, s) \<leftarrow> locked gCriticalSection (\<lambda>s.
             if gBaseInfo s \<noteq> None then local_errno (FreeSocketsAndMemory env) s else Some ((), s))
             (s\<lparr>bDetached := True\<rparr>);
          let s = DeleteCriticalSection gDebugCritSec (DeleteCriticalSection gOverlappedCS
                    (DeleteCriticalSection gCriticalSection s));
          Some (True, if \<not> lpvReserved then s\<lparr>TlsIndex := False\<rparr> else s) })"

end
