(* ===== verification/LspExt.thy ===== *)
theory LspExt
  imports LspSpi
begin

text \<open>
  The extension functions the layered provider returns in place of those of the provider below
  (\<open>extension.cpp\<close>).  They have an error of their own (\<open>Errno\<close>) and report through
  \<open>WSASetLastError\<close>; the result is a \<open>BOOL\<close>.
\<close>

text \<open>\<open>WSASetLastError(e); return FALSE;\<close>\<close>

definition ext_fail :: "dword \<Rightarrow> lsp \<Rightarrow> (int, lsp) outcome" where
  "ext_fail e s = Some (0, s\<lparr>LastError := e\<rparr>)"

text \<open>
  The frame of the functions on one socket.  \<open>report\<close> says whether a failed lookup is reported; with
  no entry in the table of the provider below the error is \<open>WSAEFAULT\<close>.
\<close>

definition ext_call ::
    "lsp_env \<Rightarrow> bool \<Rightarrow> ext_fn \<Rightarrow> handle \<Rightarrow> aid option \<Rightarrow> lsp_op \<Rightarrow> ulong_ptr \<Rightarrow> (lsp \<Rightarrow> (lsp_args, lsp) outcome) \<Rightarrow>
     arg list \<Rightarrow> lsp \<Rightarrow> (int, lsp) outcome" where
  "ext_call env report fn h lpOverlapped op routine mk args = local_errno (\<lambda>s. do {
     (ctx, s) \<leftarrow> FindAndLockSocketContext env h s;
     case ctx of
       None \<Rightarrow> if report then ext_fail (lpErrno s) s else Some (0, s)
     | Some p \<Rightarrow> do {
         c \<leftarrow> infos s p;
         q \<leftarrow> prov s (si_Provider c);
         if fn \<notin> set (NextProcTableExt q) then do {
           (_, s) \<leftarrow> UnlockSocketContext env p s;
           ext_fail WSAEFAULT s }
         else case lpOverlapped of
           Some a \<Rightarrow> do {
             (r, s) \<leftarrow> start_overlapped env p h a op 0 routine None mk s;
             case r of
               None \<Rightarrow> do { (_, s) \<leftarrow> UnlockSocketContext env p s; ext_fail WSAENOBUFS s }
             | Some ol \<Rightarrow> do {
                 (e, s) \<leftarrow> QueueOverlappedOperation env ol p s;
                 if e \<noteq> NO_ERROR then unlock_return env p 0 (s\<lparr>LastError := e\<rparr>)
                 else unlock_return env p 1 s } }
         | None \<Rightarrow> do {
             (a, s) \<leftarrow> call_ext env (si_Provider c) fn (Hnd (si_ProviderSocket c) # args) s;
             unlock_return env p (la_ret a) s } } })"

definition ExtTransmitFile ::
    "lsp_env \<Rightarrow> handle \<Rightarrow> nat \<Rightarrow> dword \<Rightarrow> dword \<Rightarrow> aid option \<Rightarrow> appptr \<Rightarrow> dword \<Rightarrow> lsp \<Rightarrow> (int, lsp) outcome" where
  "ExtTransmitFile env h hFile n m lpOverlapped lpTransmitBuffers flags =
     ext_call env True TransmitFile h lpOverlapped LSP_OP_TRANSMITFILE 0
       (\<lambda>s. Some (TransmitFileArgs hFile n m lpTransmitBuffers flags, s))
       [ULong hFile, DWord n, DWord m, Ptr None, Ptr lpTransmitBuffers, DWord flags]"

definition ExtConnectEx ::
    "lsp_env \<Rightarrow> handle \<Rightarrow> appptr \<Rightarrow> int \<Rightarrow> appptr \<Rightarrow> dword \<Rightarrow> appptr \<Rightarrow> aid option \<Rightarrow> lsp \<Rightarrow> (int, lsp) outcome" where
  "ExtConnectEx env h name namelen lpSendBuffer dwSendDataLength lpdwBytesSent lpOverlapped =
     ext_call env False ConnectEx h lpOverlapped LSP_OP_CONNECTEX 0
       (\<lambda>s. do {
          nm \<leftarrow> copy_sockaddr name namelen s;
          Some (ConnectExArgs h nm namelen lpSendBuffer dwSendDataLength (opt_dword lpdwBytesSent s), s) })
       [Ptr name, Num namelen, Ptr lpSendBuffer, DWord dwSendDataLength, Ptr lpdwBytesSent, Ptr None]"

definition ExtTransmitPackets ::
    "lsp_env \<Rightarrow> handle \<Rightarrow> appptr \<Rightarrow> dword \<Rightarrow> dword \<Rightarrow> aid option \<Rightarrow> dword \<Rightarrow> lsp \<Rightarrow> (int, lsp) outcome" where
  "ExtTransmitPackets env h lpPacketArray n m lpOverlapped flags =
     ext_call env True TransmitPackets h lpOverlapped LSP_OP_TRANSMITPACKETS 0
       (\<lambda>s. Some (TransmitPacketsArgs h lpPacketArray n m flags, s))
       [Ptr lpPacketArray, DWord n, DWord m, Ptr None, DWord flags]"

definition ExtDisconnectEx :: "lsp_env \<Rightarrow> handle \<Rightarrow> aid option \<Rightarrow> dword \<Rightarrow> dword \<Rightarrow> lsp \<Rightarrow> (int, lsp) outcome" where
  "ExtDisconnectEx env h lpOverlapped flags reserved =
     ext_call env True DisconnectEx h lpOverlapped LSP_OP_DISCONNECTEX 0
       (\<lambda>s. Some (DisconnectExArgs h flags reserved, s))
       [Ptr None, DWord flags, DWord reserved]"

definition ExtWSARecvMsg ::
    "lsp_env \<Rightarrow> handle \<Rightarrow> appptr \<Rightarrow> appptr \<Rightarrow> aid option \<Rightarrow> ulong_ptr \<Rightarrow> lsp \<Rightarrow> (int, lsp) outcome" where
  "ExtWSARecvMsg env h lpMsg lpBytes lpOverlapped lpCompletionRoutine =
     ext_call env True WSARecvMsg h lpOverlapped LSP_OP_WSARECVMSG lpCompletionRoutine
       (\<lambda>s. Some (WSARecvMsgArgs h lpMsg (opt_dword lpBytes s), s))
       [Ptr lpMsg, Ptr lpBytes, Ptr None, Routine 0]"

text \<open>
  \<open>ExtAcceptEx\<close> holds two contexts; the structure is accounted to the listening socket and carries
  the provider of the accepting one.
\<close>

definition unlock_two :: "lsp_env \<Rightarrow> sid \<Rightarrow> sid \<Rightarrow> lsp \<Rightarrow> (unit, lsp) outcome" where
  "unlock_two env p x s = do { (_, s) \<leftarrow> UnlockSocketContext env p s; UnlockSocketContext env x s }"

definition ExtAcceptEx ::
    "lsp_env \<Rightarrow> handle \<Rightarrow> handle \<Rightarrow> appptr \<Rightarrow> dword \<Rightarrow> dword \<Rightarrow> dword \<Rightarrow> appptr \<Rightarrow> aid option \<Rightarrow> lsp \<Rightarrow>
     (int, lsp) outcome" where
  "ExtAcceptEx env sListen sAccept lpOutputBuffer l1 l2 l3 lpdwBytes lpOverlapped = local_errno (\<lambda>s. do {
     (ctx, s) \<leftarrow> FindAndLockSocketContext env sListen s;
     case ctx of None \<Rightarrow> ext_fail WSAENOTSOCK s | Some p \<Rightarrow> do {
     (ctx, s) \<leftarrow> FindAndLockSocketContext env sAccept s;
     case ctx of
       None \<Rightarrow> do { (_, s) \<leftarrow> UnlockSocketContext env p s; ext_fail WSAENOTSOCK s }
     | Some x \<Rightarrow> do {
         c \<leftarrow> infos s p;
         d \<leftarrow> infos s x;
         q \<leftarrow> prov s (si_Provider c);
         if AcceptEx \<notin> set (NextProcTableExt q) then do {
           (_, s) \<leftarrow> unlock_two env p x s;
           ext_fail WSAEFAULT s }
         else case lpOverlapped of
           Some a \<Rightarrow> do {
             (r, s) \<leftarrow> start_overlapped env p sListen a LSP_OP_ACCEPTEX 0 0 (Some (si_Provider d)) (\<lambda>s.
                Some (AcceptExArgs sAccept (si_ProviderSocket d) lpOutputBuffer l1 l2 l3 (opt_dword lpdwBytes s), s)) s;
             case r of
               None \<Rightarrow> do { (_, s) \<leftarrow> unlock_two env p x s; ext_fail WSAENOBUFS s }
             | Some ol \<Rightarrow> do {
                 (e, s) \<leftarrow> QueueOverlappedOperation env ol p s;
                 let (ret, s) = (if e \<noteq> NO_ERROR then (0, s\<lparr>LastError := e\<rparr>) else (1, s));
                 (_, s) \<leftarrow> unlock_two env p x s;
                 Some (ret, s) } }
         | None \<Rightarrow> do {
             (a, s) \<leftarrow> call_ext env (si_Provider c) AcceptEx
                [Hnd (si_ProviderSocket c), Hnd (si_ProviderSocket d), Ptr lpOutputBuffer, DWord l1, DWord l2, DWord l3,
                 Ptr lpdwBytes, Ptr None] s;
             (_, s) \<leftarrow> unlock_two env p x s;
             Some (la_ret a, s) } } } })"

end
