(* ===== verification/LspLemmas.thy ===== *)
theory LspLemmas
  imports LspStartup LspExt
begin

text \<open>
  Lemmas the proofs about the layered provider share: critical sections that a thread can enter,
  reading and updating the heap, and what looking a context up and giving it back leave behind.
\<close>

named_theorems lsp_defs \<open>the primitive state changes\<close>

declare trace_def [lsp_defs] upd_info_def [lsp_defs] upd_olp_def [lsp_defs] upd_ov_def [lsp_defs]

section \<open>Critical sections\<close>

definition enterable :: "(llock \<rightharpoonup> thread \<times> nat) \<Rightarrow> thread \<Rightarrow> llock \<Rightarrow> bool" where
  "enterable ls t l = (case ls l of None \<Rightarrow> True | Some (u, n) \<Rightarrow> u = t \<and> 0 < n)"

definition held :: "(llock \<rightharpoonup> thread \<times> nat) \<Rightarrow> thread \<Rightarrow> llock \<Rightarrow> llock \<rightharpoonup> thread \<times> nat" where
  "held ls t l = ls(l \<mapsto> (t, case ls l of None \<Rightarrow> 1 | Some (u, n) \<Rightarrow> Suc n))"

abbreviation can_enter :: "lsp \<Rightarrow> llock \<Rightarrow> bool" where
  "can_enter s l \<equiv> enterable (llocks s) (lthread s) l"

lemma enterable_held [simp]:
  "l \<noteq> l' \<Longrightarrow> enterable (held ls t l') t l = enterable ls t l"
  "enterable ls t l \<Longrightarrow> enterable (held ls t l) t l"
  by (auto simp: enterable_def held_def split: option.splits)

lemma Enter_eq: "can_enter s l \<Longrightarrow> Enter l s = Some ((), s\<lparr>llocks := held (llocks s) (lthread s) l\<rparr>)"
  by (auto simp: enterable_def held_def Enter_def split: option.splits)

lemma Leave_eq:
  assumes "enterable ls (lthread t) l" and "llocks t = held ls (lthread t) l"
  shows "Leave l t = Some ((), t\<lparr>llocks := ls\<rparr>)"
  using assms by (auto simp: enterable_def held_def Leave_def fun_upd_idem split: option.splits)

text \<open>
  A section whose body leaves the locks as they are: the body runs with the lock held, and the locks
  are as before.
\<close>

lemma locked_unfold:
  assumes "can_enter s l"
    and "\<And>a t. f (s\<lparr>llocks := held (llocks s) (lthread s) l\<rparr>) = Some (a, t) \<Longrightarrow>
           llocks t = held (llocks s) (lthread s) l \<and> lthread t = lthread s"
  shows "locked l f s =
    map_option (\<lambda>(a, t). (a, t\<lparr>llocks := llocks s\<rparr>)) (f (s\<lparr>llocks := held (llocks s) (lthread s) l\<rparr>))"
proof (cases "f (s\<lparr>llocks := held (llocks s) (lthread s) l\<rparr>)")
  case None
  then show ?thesis by (simp add: locked_def Enter_eq [OF assms(1)])
next
  case (Some r)
  obtain a t where r: "r = (a, t)" by (cases r)
  have "llocks t = held (llocks s) (lthread s) l" and "lthread t = lthread s"
    using assms(2) Some r by simp_all
  then show ?thesis using assms(1) by (simp add: locked_def Enter_eq Some r Leave_eq)
qed

lemma locked_eq:
  assumes "can_enter s l" and "f (s\<lparr>llocks := held (llocks s) (lthread s) l\<rparr>) = Some (a, t)"
    and "llocks t = held (llocks s) (lthread s) l" and "lthread t = lthread s"
  shows "locked l f s = Some (a, t\<lparr>llocks := llocks s\<rparr>)"
  using assms by (simp add: locked_def Enter_eq Leave_eq)

section \<open>The providers below\<close>

lemma prov_cong: "gBaseInfo s = gBaseInfo t \<Longrightarrow> prov s i = prov t i"
  by (simp add: prov_def)

lemma prov_simps [simp]:
  "prov (s\<lparr>infos := i\<rparr>) k = prov s k"
  "prov (s\<lparr>olps := os\<rparr>) k = prov s k"
  "prov (s\<lparr>app_ov := ov\<rparr>) k = prov s k"
  "prov (s\<lparr>ltrace := tr\<rparr>) k = prov s k"
  "prov (s\<lparr>lpErrno := e\<rparr>) k = prov s k"
  "prov (s\<lparr>LastError := e\<rparr>) k = prov s k"
  "prov (s\<lparr>mem := m\<rparr>) k = prov s k"
  "prov (s\<lparr>blocking := tls\<rparr>) k = prov s k"
  "prov (s\<lparr>llocks := ls\<rparr>) k = prov s k"
  "prov (s\<lparr>lsp_next := n\<rparr>) k = prov s k"
  by (simp_all add: prov_def)

lemma prov_upd_prov:
  "prov s k = Some q \<Longrightarrow> prov (upd_prov i f s) k = Some (if k = i then f q else q)"
  by (auto simp: prov_def upd_prov_def split: option.splits if_splits)

lemma upd_prov_frame [simp]:
  "infos (upd_prov i f s) = infos s" "olps (upd_prov i f s) = olps s" "llocks (upd_prov i f s) = llocks s"
  "lthread (upd_prov i f s) = lthread s" "ltrace (upd_prov i f s) = ltrace s" "gLayerCount (upd_prov i f s) = gLayerCount s"
  "mem (upd_prov i f s) = mem s" "lpErrno (upd_prov i f s) = lpErrno s"
  by (simp_all add: upd_prov_def)

section \<open>Looking a context up and giving it back\<close>

text \<open>What the code assumes of the answer to \<open>WPUQuerySocketHandleContext\<close>: the live context of the handle.\<close>

definition found :: "lsp_env \<Rightarrow> handle \<Rightarrow> sid \<Rightarrow> SOCK_INFO \<Rightarrow> lsp \<Rightarrow> bool" where
  "found env h p c s \<longleftrightarrow> can_enter s gCriticalSection \<and> infos s p = Some c \<and>
     WPUQuerySocketHandleContext env (ltrace s) h = Inr p"

lemma RefCount_round_trip [simp]:
  "si_RefCount_update (\<lambda>n. n - 1) (si_RefCount_update (\<lambda>n. n + 1) c) = c"
  by (cases c) simp

lemma FindAndLock_eq:
  assumes "found env h p c s"
  shows "FindAndLockSocketContext env h s =
    Some (Some p, s\<lparr>ltrace := QueryContext h # ltrace s, infos := (infos s)(p \<mapsto> si_RefCount_update (\<lambda>n. n + 1) c)\<rparr>)"
proof -
  from assms have c: "can_enter s gCriticalSection" and i: "infos s p = Some c"
    and w: "WPUQuerySocketHandleContext env (ltrace s) h = Inr p"
    by (simp_all add: found_def)
  show ?thesis
    unfolding FindAndLockSocketContext_def
    by (subst locked_unfold [OF c]) (auto simp: w i lsp_defs)
qed

lemma FindAndLock_none:
  assumes "can_enter s gCriticalSection" and "WPUQuerySocketHandleContext env (ltrace s) h = Inl e"
  shows "FindAndLockSocketContext env h s = Some (None, s\<lparr>ltrace := QueryContext h # ltrace s, lpErrno := e\<rparr>)"
  unfolding FindAndLockSocketContext_def
  by (subst locked_unfold [OF assms(1)]) (auto simp: assms(2) lsp_defs)

lemma Unlock_eq:
  assumes "can_enter s gCriticalSection" and "infos s p = Some c"
    and "si_RefCount c \<noteq> 1 \<or> \<not> si_bClosing c"
  shows "UnlockSocketContext env p s = Some ((), s\<lparr>infos := (infos s)(p \<mapsto> si_RefCount_update (\<lambda>n. n - 1) c)\<rparr>)"
  unfolding UnlockSocketContext_def
  using assms(2,3)
  by (subst locked_unfold [OF assms(1)]) (auto simp: lsp_defs)

text \<open>
  A lookup and the return of the reference around a step that leaves this context alone: nothing of
  the context changes.  A closing context must have another reference.
\<close>

lemma with_context_eq:
  assumes "found env h p c s"
  shows "with_context env h bad f s =
    f p (s\<lparr>ltrace := QueryContext h # ltrace s, infos := (infos s)(p \<mapsto> si_RefCount_update (\<lambda>n. n + 1) c)\<rparr>)"
  by (simp add: with_context_def FindAndLock_eq [OF assms])

lemma with_context_none:
  assumes "can_enter s gCriticalSection" and "WPUQuerySocketHandleContext env (ltrace s) h = Inl e"
  shows "with_context env h bad f s =
    Some (bad, s\<lparr>ltrace := QueryContext h # ltrace s, lpErrno := WSAENOTSOCK\<rparr>)"
  by (simp add: with_context_def FindAndLock_none [OF assms])

definition new_Errno :: "lower_answer \<Rightarrow> dword \<Rightarrow> dword" where
  "new_Errno a e = (case la_Errno a of Some x \<Rightarrow> x | None \<Rightarrow> e)"

lemma set_Errno_eq: "set_Errno (la_Errno a) s = s\<lparr>lpErrno := new_Errno a (lpErrno s)\<rparr>"
  by (cases "la_Errno a") (simp_all add: set_Errno_def new_Errno_def)

lemma blocking_call_eq:
  assumes "prov s i = Some q" and "fn \<in> set (NextProcTable q)"
    and "a = lower env (Lower fn i args # ltrace s)"
  shows "blocking_call env i fn args s =
    Some (a, s\<lparr>ltrace := Lower fn i args # ltrace s, mem := la_mem a (mem s),
         blocking := (if TlsIndex s then (blocking s)(lthread s := None) else blocking s),
         lpErrno := new_Errno a (lpErrno s)\<rparr>)"
  using assms
  by (cases "la_Errno a")
    (simp_all add: blocking_call_def call_lower_def SetBlockingProvider_def set_Errno_def new_Errno_def lsp_defs Let_def)

end
