(* ===== verification/LspLists.thy ===== *)
theory LspLists
  imports LspLemmas
begin

text \<open>
  The list of contexts of a provider below as a HOL list: insertion at the head, removal, the search
  by the socket of the provider below, and the loop that closes and frees every context.
\<close>

section \<open>Segments\<close>

text \<open>\<open>seg h prv p xs q\<close>: from \<open>p\<close> the links run through \<open>xs\<close> to \<open>q\<close>.\<close>

fun seg :: "(sid \<rightharpoonup> SOCK_INFO) \<Rightarrow> sid option \<Rightarrow> sid option \<Rightarrow> sid list \<Rightarrow> sid option \<Rightarrow> bool" where
  "seg h prv p [] q \<longleftrightarrow> p = q"
| "seg h prv p (x # xs) q \<longleftrightarrow> p = Some x \<and>
     (case h x of None \<Rightarrow> False | Some c \<Rightarrow> si_prev c = prv \<and> seg h (Some x) (si_next c) xs q)"

definition last_of :: "sid option \<Rightarrow> sid list \<Rightarrow> sid option" where
  "last_of prv xs = (if xs = [] then prv else Some (last xs))"

lemma last_of_simps [simp]: "last_of prv [] = prv" "last_of prv (x # xs) = last_of (Some x) xs"
  "last_of prv (xs @ [y]) = Some y"
  by (simp_all add: last_of_def)

lemma dll_append: "dll h prv p (xs @ ys) \<longleftrightarrow> (\<exists>q. seg h prv p xs q \<and> dll h (last_of prv xs) q ys)"
  by (induction xs arbitrary: prv p) (auto split: option.splits)

lemma seg_append: "seg h prv p (xs @ ys) r \<longleftrightarrow> (\<exists>q. seg h prv p xs q \<and> seg h (last_of prv xs) q ys r)"
  by (induction xs arbitrary: prv p) (auto split: option.splits)

lemma dll_frame [simp]: "x \<notin> set xs \<Longrightarrow> dll (h(x := v)) prv p xs = dll h prv p xs"
  by (induction xs arbitrary: prv p) (auto split: option.splits)

lemma seg_frame [simp]: "x \<notin> set xs \<Longrightarrow> seg (h(x := v)) prv p xs q = seg h prv p xs q"
  by (induction xs arbitrary: prv p) (auto split: option.splits)

lemma dll_mem: "dll h prv p xs \<Longrightarrow> x \<in> set xs \<Longrightarrow> \<exists>c. h x = Some c"
  by (induction xs arbitrary: prv p) (auto split: option.splits)

lemma dll_set_prev:
  "dll h prv p (z # zs) \<Longrightarrow> z \<notin> set zs \<Longrightarrow>
   dll (h(z := map_option (si_prev_update (\<lambda>_. prv')) (h z))) prv' p (z # zs)"
  by (auto split: option.splits)

lemma seg_set_next:
  "seg h prv p (ys @ [y]) q \<Longrightarrow> y \<notin> set ys \<Longrightarrow>
   seg (h(y := map_option (si_next_update (\<lambda>_. q')) (h y))) prv p (ys @ [y]) q'"
  by (auto simp: seg_append split: option.splits)

section \<open>Insertion and removal\<close>

text \<open>What the two operations leave alone: everything but the links and the heads of the lists.\<close>

definition unlinked :: "SOCK_INFO \<Rightarrow> SOCK_INFO" where
  "unlinked c = c\<lparr>si_prev := None, si_next := None\<rparr>"

definition relinked :: "lsp \<Rightarrow> lsp \<Rightarrow> bool" where
  "relinked s t \<longleftrightarrow> t = s\<lparr>infos := infos t, gBaseInfo := gBaseInfo t\<rparr> \<and>
     (\<forall>x. map_option unlinked (infos t x) = map_option unlinked (infos s x))"

lemma unlinked_simps [simp]:
  "unlinked (si_prev_update f c) = unlinked c" "unlinked (si_next_update f c) = unlinked c"
  by (simp_all add: unlinked_def)

lemma map_option_unlinked [simp]:
  "map_option unlinked (map_option (si_prev_update f) c) = map_option unlinked c"
  "map_option unlinked (map_option (si_next_update f) c) = map_option unlinked c"
  by (cases c; simp)+

definition head_is :: "lsp \<Rightarrow> pid \<Rightarrow> sid option \<Rightarrow> bool" where
  "head_is s i p \<longleftrightarrow> (\<exists>q. prov s i = Some q \<and> SocketList q = p)"

lemma socket_list_alt: "socket_list s i xs \<longleftrightarrow> distinct xs \<and> (\<exists>p. head_is s i p \<and> dll (infos s) None p xs)"
  by (auto simp: socket_list_def head_is_def split: option.splits)

lemma head_is_upd [simp]:
  "prov s i = Some q \<Longrightarrow> head_is (upd_prov i (SocketList_update (\<lambda>_. p)) s) i p'\<longleftrightarrow> p' = p"
  "j \<noteq> i \<Longrightarrow> head_is (upd_prov i f s) j p' \<longleftrightarrow> head_is s j p'"
  by (auto simp: head_is_def prov_def upd_prov_def split: option.splits if_splits)

text \<open>The body of \<open>InsertSocketInfo\<close>, on the lists.\<close>

lemma InsertSocketInfo_list:
  assumes lock: "can_enter s (ProviderCritSec i)" and xs: "socket_list s i xs"
    and p: "infos s p \<noteq> None" "p \<notin> set xs"
  shows "wp (InsertSocketInfo i (Some p) s) (\<lambda>_ t. socket_list t i (p # xs) \<and> relinked s t \<and>
     (\<forall>j ys. j \<noteq> i \<longrightarrow> set (p # xs) \<inter> set ys = {} \<longrightarrow> socket_list s j ys \<longrightarrow> socket_list t j ys))"
proof -
  from xs obtain q where q: "prov s i = Some q" and d: "distinct xs" and l: "dll (infos s) None (SocketList q) xs"
    by (auto simp: socket_list_def split: option.splits)
  from p obtain c where c: "infos s p = Some c" by auto
  show ?thesis
  proof (cases xs)
    case Nil
    with l have "SocketList q = None" by simp
    then show ?thesis
      using Nil q c
      by (subst InsertSocketInfo_def, subst locked_unfold [OF lock])
        (auto simp: lsp_defs socket_list_alt relinked_def upd_prov_def prov_def head_is_def split: option.splits if_splits)
  next
    case (Cons x ys)
    with l obtain e where "SocketList q = Some x" and e: "infos s x = Some e" "x \<noteq> p"
      using p by (auto split: option.splits)
    then show ?thesis
      using Cons q c d l p
      by (subst InsertSocketInfo_def, subst locked_unfold [OF lock])
        (auto simp: lsp_defs socket_list_alt relinked_def upd_prov_def prov_def head_is_def split: option.splits if_splits)
  qed
qed


text \<open>Unlinking the head, and unlinking a context that has a predecessor.\<close>

lemma dll_unlink_head:
  assumes "dll h None p (x # zs)" and "h x = Some c" and "distinct (x # zs)"
  shows "si_prev c = None"
    and "dll (case si_next c of None \<Rightarrow> h | Some z \<Rightarrow> h(z := map_option (si_prev_update (\<lambda>_. None)) (h z)))
           None (si_next c) zs"
    and "\<And>z. si_next c = Some z \<Longrightarrow> z \<in> set zs \<and> h z \<noteq> None"
  using assms by (cases zs; auto split: option.splits)+

lemma dll_unlink_mid:
  assumes l: "dll h None p (ys @ [y] @ x # zs)" and c: "h x = Some c" and d: "distinct (ys @ [y] @ x # zs)"
  defines "h' \<equiv> h(y := map_option (si_next_update (\<lambda>_. si_next c)) (h y))"
  shows "si_prev c = Some y \<and> h y \<noteq> None"
    and "dll (case si_next c of None \<Rightarrow> h' | Some z \<Rightarrow> h'(z := map_option (si_prev_update (\<lambda>_. Some y)) (h' z)))
           None p (ys @ [y] @ zs)"
    and "\<And>z. si_next c = Some z \<Longrightarrow> z \<in> set zs \<and> h z \<noteq> None"
proof -
  have l': "seg h None p (ys @ [y]) (Some x)" "si_prev c = Some y" "dll h (Some x) (si_next c) zs"
    using l c by (auto simp: dll_append seg_append split: option.splits)
  from l' show "si_prev c = Some y \<and> h y \<noteq> None" by (auto simp: seg_append split: option.splits)
  have s: "seg h' None p (ys @ [y]) (si_next c)"
    unfolding h'_def using seg_set_next [OF l'(1)] d by simp
  have r: "dll h' (Some x) (si_next c) zs" using l'(3) d by (simp add: h'_def)
  show "z \<in> set zs \<and> h z \<noteq> None" if "si_next c = Some z" for z
    using l'(3) that by (cases zs) (auto split: option.splits)
  show "dll (case si_next c of None \<Rightarrow> h' | Some z \<Rightarrow> h'(z := map_option (si_prev_update (\<lambda>_. Some y)) (h' z)))
           None p (ys @ [y] @ zs)"
  proof (cases zs)
    case Nil
    then show ?thesis using s r dll_append [of h' None p "ys @ [y]" "[]"] by auto
  next
    case (Cons z zs')
    have n: "si_next c = Some z" using r Cons by simp
    have "dll (h'(z := map_option (si_prev_update (\<lambda>_. Some y)) (h' z))) (Some y) (Some z) (z # zs')"
      using dll_set_prev [of h' "Some x" "Some z" z zs' "Some y"] r d Cons n by simp
    moreover have "seg (h'(z := map_option (si_prev_update (\<lambda>_. Some y)) (h' z))) None p (ys @ [y]) (Some z)"
      using s d Cons n by (subst seg_frame) auto
    ultimately show ?thesis
      using Cons n by (simp only: append.assoc [symmetric] dll_append) (auto simp: last_of_def)
  qed
qed

lemma RemoveSocketInfo_list:
  assumes lock: "can_enter s (ProviderCritSec i)" and xs: "socket_list s i xs" and p: "p \<in> set xs"
  shows "wp (RemoveSocketInfo i p s) (\<lambda>_ t. socket_list t i (remove1 p xs) \<and> relinked s t \<and>
     map_option (\<lambda>c. (si_prev c, si_next c)) (infos t p) = map_option (\<lambda>c. (si_prev c, si_next c)) (infos s p) \<and>
     (\<forall>j ys. j \<noteq> i \<longrightarrow> set xs \<inter> set ys = {} \<longrightarrow> socket_list s j ys \<longrightarrow> socket_list t j ys))"
proof -
  from xs obtain q where q: "prov s i = Some q" and d: "distinct xs" and l: "dll (infos s) None (SocketList q) xs"
    by (auto simp: socket_list_def split: option.splits)
  from p obtain ys zs where e: "xs = ys @ p # zs" by (auto dest: split_list)
  obtain c where c: "infos s p = Some c" using dll_mem [OF l p] by auto
  have rm: "remove1 p xs = ys @ zs" using d e by (simp add: remove1_append)
  show ?thesis
  proof (cases ys rule: rev_cases)
    case Nil
    have h: "dll (infos s) None (SocketList q) (p # zs)" "distinct (p # zs)" using l d e Nil by auto
    note u = dll_unlink_head [OF h(1) c h(2)]
    show ?thesis
      using u q c d
      by (subst RemoveSocketInfo_def, subst locked_unfold [OF lock])
        (auto simp: lsp_defs socket_list_alt relinked_def upd_prov_def prov_def head_is_def e Nil disjoint_iff
           split: option.splits if_splits)
  next
    case (snoc vs y)
    have h: "dll (infos s) None (SocketList q) (vs @ [y] @ p # zs)" "distinct (vs @ [y] @ p # zs)"
      using l d e snoc by auto
    note u = dll_unlink_mid [OF h(1) c h(2)]
    show ?thesis
      using u q c d
      by (subst RemoveSocketInfo_def, subst locked_unfold [OF lock])
        (auto simp: lsp_defs socket_list_alt relinked_def upd_prov_def prov_def head_is_def e snoc remove1_append disjoint_iff
           split: option.splits if_splits)
  qed
qed


section \<open>Search\<close>

text \<open>Whether the context at \<open>p\<close> has the socket of the provider below.\<close>

definition has_provider_socket :: "(sid \<rightharpoonup> SOCK_INFO) \<Rightarrow> handle \<Rightarrow> sid \<Rightarrow> bool" where
  "has_provider_socket h sock p \<longleftrightarrow> (\<exists>c. h p = Some c \<and> si_ProviderSocket c = sock)"

lemma has_provider_socket_at: "h x = Some c \<Longrightarrow> has_provider_socket h sock x = (si_ProviderSocket c = sock)"
  by (simp add: has_provider_socket_def)

lemma find_provider_socket_find:
  "dll h prv p xs \<Longrightarrow> find_provider_socket h sock p = Some (find (has_provider_socket h sock) xs)"
proof (induction xs arbitrary: prv p)
  case Nil
  then show ?case by (simp add: find_provider_socket.simps)
next
  case (Cons x xs)
  then obtain c where "p = Some x" "h x = Some c" "dll h (Some x) (si_next c) xs"
    by (auto split: option.splits)
  then show ?case
    using Cons.IH [of "Some x" "si_next c"] has_provider_socket_at [of h x c sock]
    by (subst find_provider_socket.simps) simp
qed

lemma find_append: "find P (xs @ ys) = (case find P xs of None \<Rightarrow> find P ys | Some x \<Rightarrow> Some x)"
  by (induction xs) auto

lemma find_in_layers_find:
  assumes "\<And>i. i \<in> set is \<Longrightarrow> socket_list s i (l i)"
  shows "find_in_layers s sock is = Some (find (has_provider_socket (infos s) sock) (concat (map l is)))"
  using assms
proof (induction "is")
  case Nil
  then show ?case by simp
next
  case (Cons i "is")
  have "socket_list s i (l i)" by (rule Cons.prems) simp
  then obtain q where q: "prov s i = Some q" "dll (infos s) None (SocketList q) (l i)"
    by (auto simp: socket_list_def split: option.splits)
  show ?case
    using Cons.IH [OF Cons.prems] q(1) find_provider_socket_find [OF q(2)]
    by (simp add: find_append split: option.splits)
qed

section \<open>Closing every socket\<close>

text \<open>The calls \<open>CloseAndFreeSocketInfo\<close> makes for one context, first to last.\<close>

definition close_calls :: "pid \<Rightarrow> SOCK_INFO \<Rightarrow> lspcall list" where
  "close_calls i c =
     [Lower lpWSPSetSockOpt i [Hnd (si_ProviderSocket c), Num 0xFFFF, Num 0x80, BOOL True, ULong 0],
      Lower lpWSPCloseSocket i [Hnd (si_ProviderSocket c)],
      CloseSocketHandle (si_LayeredSocket c)]"

definition closable :: "lsp \<Rightarrow> pid \<Rightarrow> bool" where
  "closable s i \<longleftrightarrow> (\<exists>q. prov s i = Some q \<and> {lpWSPSetSockOpt, lpWSPCloseSocket} \<subseteq> set (NextProcTable q))"

lemma close_one_wp:
  assumes "closable s i"
  shows "wp (close_one env i c s) (\<lambda>_ t. infos t = infos s \<and> gBaseInfo t = gBaseInfo s \<and> llocks t = llocks s \<and>
     lthread t = lthread s \<and> olps t = olps s \<and> ltrace t = rev (close_calls i c) @ ltrace s)"
  using assms
  by (auto simp: close_one_def call_lower_def close_handle_def closable_def close_calls_def lsp_defs Let_def prov_def
      split: option.splits if_splits)

text \<open>
  The state after the contexts \<open>xs\<close> are closed: they are freed, the calls were made in the order of
  the list, and the providers, the locks and the pool are as before.
\<close>

definition closed_all :: "pid \<Rightarrow> sid list \<Rightarrow> lsp \<Rightarrow> lsp \<Rightarrow> bool" where
  "closed_all i xs s t \<longleftrightarrow> infos t = infos s |` (- set xs) \<and> gBaseInfo t = gBaseInfo s \<and>
     llocks t = llocks s \<and> lthread t = lthread s \<and> olps t = olps s \<and>
     ltrace t = rev (concat (map (\<lambda>x. close_calls i (the (infos s x))) xs)) @ ltrace s"

lemma closed_all_Cons:
  assumes "infos s x = Some c" and "x \<notin> set xs"
    and t: "infos t = infos s \<and> gBaseInfo t = gBaseInfo s \<and> llocks t = llocks s \<and>
       lthread t = lthread s \<and> olps t = olps s \<and> ltrace t = rev (close_calls i c) @ ltrace s"
    and u: "closed_all i xs (t\<lparr>infos := (infos t)(x := None)\<rparr>) u"
  shows "closed_all i (x # xs) s u"
proof -
  have eq: "map (\<lambda>y. close_calls i (the (((infos s)(x := None)) y))) xs = map (\<lambda>y. close_calls i (the (infos s y))) xs"
    using assms(2) by auto
  have res: "(infos s)(x := None) |` (- set xs) = infos s |` (- set (x # xs))"
    by (auto simp: restrict_map_def)
  show ?thesis using t u eq assms(1) res by (simp add: closed_all_def del: fun_upd_apply)
qed

lemma close_and_free_wp:
  assumes "dll (infos s) prv p xs" and "distinct xs" and "closable s i"
  shows "wp (close_and_free env i p s) (\<lambda>_. closed_all i xs s)"
  using assms
proof (induction xs arbitrary: p prv s)
  case Nil
  then show ?case by (simp add: close_and_free.simps closed_all_def restrict_map_def)
next
  case (Cons x xs)
  then obtain c where c: "p = Some x" "infos s x = Some c" "dll (infos s) (Some x) (si_next c) xs"
    by (auto split: option.splits)
  have rest: "wp (close_and_free env i (si_next c) (t\<lparr>infos := (infos t)(x := None)\<rparr>))
      (\<lambda>_. closed_all i xs (t\<lparr>infos := (infos t)(x := None)\<rparr>))"
    if "infos t = infos s" "gBaseInfo t = gBaseInfo s" for t
    by (rule Cons.IH [where prv = "Some x"])
      (use that c Cons.prems prov_cong [OF that(2)] in \<open>auto simp: closable_def simp del: fun_upd_apply\<close>)
  have step: "wp (HeapFree_info x t) (\<lambda>_ u. wp (close_and_free env i (si_next c) u) (\<lambda>_. closed_all i (x # xs) s))"
    if t: "infos t = infos s \<and> gBaseInfo t = gBaseInfo s \<and> llocks t = llocks s \<and>
       lthread t = lthread s \<and> olps t = olps s \<and> ltrace t = rev (close_calls i c) @ ltrace s" for t
  proof -
    have f: "HeapFree_info x t = Some ((), t\<lparr>infos := (infos t)(x := None)\<rparr>)"
      using t c(2) by (simp add: HeapFree_info_def)
    have "wp (close_and_free env i (si_next c) (t\<lparr>infos := (infos t)(x := None)\<rparr>)) (\<lambda>_. closed_all i (x # xs) s)"
      using t Cons.prems(2) by (intro wp_mono [OF rest] closed_all_Cons [OF c(2) _ t]) auto
    then show ?thesis unfolding f by simp
  qed
  show ?case
    unfolding c(1) using Cons.prems(3)
    by (subst close_and_free.simps) (auto simp: c(2) intro!: wp_mono [OF close_one_wp] step)
qed

end
