(* ===== verification/Containers.thy ===== *)
theory Containers
  imports Prelude
begin

text \<open>
  The contracts of a queue and of a stack that live in the state of a program.  Lists of objects that
  are linked through a member implement them in several of the programs.
\<close>

section \<open>Contracts\<close>

fun push_all :: "('e \<Rightarrow> 's \<Rightarrow> ('b, 's) outcome) \<Rightarrow> 'e list \<Rightarrow> 's \<Rightarrow> (unit, 's) outcome" where
  "push_all put [] s = Some ((), s)"
| "push_all put (e # es) s = do { (_, s) \<leftarrow> put e s; push_all put es s }"

fun drain :: "('s \<Rightarrow> ('e option, 's) outcome) \<Rightarrow> nat \<Rightarrow> 's \<Rightarrow> ('e option list, 's) outcome" where
  "drain get 0 s = Some ([], s)"
| "drain get (Suc n) s = do { (r, s) \<leftarrow> get s; (rs, s) \<leftarrow> drain get n s; Some (r # rs, s) }"

text \<open>What both have: \<open>repr s xs\<close> says that the state holds \<open>xs\<close>, next element first.\<close>

locale container =
  fixes repr :: "'s \<Rightarrow> 'e list \<Rightarrow> bool"
    and present :: "'e \<Rightarrow> 's \<Rightarrow> bool"
    and put :: "'e \<Rightarrow> 's \<Rightarrow> ('b, 's) outcome"
    and get :: "'s \<Rightarrow> ('e option, 's) outcome"
  assumes get_law: "repr s (x # xs) \<Longrightarrow> wp (get s) (\<lambda>r t. r = Some x \<and> repr t xs)"
begin

lemma drain_all: "repr s xs \<Longrightarrow> wp (drain get (length xs) s) (\<lambda>rs t. rs = map Some xs \<and> repr t [])"
proof (induction xs arbitrary: s)
  case Nil
  then show ?case by simp
next
  case (Cons x xs)
  have "wp (get s) (\<lambda>r t. wp (drain get (length xs) t) (\<lambda>rs u. r # rs = map Some (x # xs) \<and> repr u []))"
    by (rule wp_mono [OF get_law [OF Cons.prems]]) (auto intro: wp_mono [OF Cons.IH])
  then show ?case by simp
qed

end

locale fifo = container +
  assumes put_law: "repr s xs \<Longrightarrow> present e s \<Longrightarrow> e \<notin> set xs \<Longrightarrow>
    wp (put e s) (\<lambda>_ t. repr t (xs @ [e]) \<and> (\<forall>d. present d s \<longrightarrow> present d t))"
    and get_empty: "repr s [] \<Longrightarrow> wp (get s) (\<lambda>r t. r = None \<and> repr t [])"
begin

lemma push_all_law:
  "repr s xs \<Longrightarrow> distinct (xs @ es) \<Longrightarrow> (\<And>e. e \<in> set es \<Longrightarrow> present e s) \<Longrightarrow>
   wp (push_all put es s) (\<lambda>_ t. repr t (xs @ es))"
proof (induction es arbitrary: s xs)
  case Nil
  then show ?case by simp
next
  case (Cons e es)
  have "wp (push_all put es t) (\<lambda>_ u. repr u (xs @ e # es))"
    if "repr t (xs @ [e]) \<and> (\<forall>d. present d s \<longrightarrow> present d t)" for t
    using Cons.IH [of t "xs @ [e]"] that Cons.prems by auto
  moreover have "wp (put e s) (\<lambda>_ t. repr t (xs @ [e]) \<and> (\<forall>d. present d s \<longrightarrow> present d t))"
    using Cons.prems by (intro put_law) auto
  ultimately show ?case by (auto elim: wp_mono)
qed

text \<open>Elements come out in the order they went in, behind those that were there, and then nothing.\<close>

lemma in_order:
  assumes "repr s xs" and "distinct (xs @ es)" and "\<And>e. e \<in> set es \<Longrightarrow> present e s"
  shows "wp (push_all put es s) (\<lambda>_ t.
    wp (drain get (length (xs @ es)) t) (\<lambda>rs u. rs = map Some (xs @ es) \<and> wp (get u) (\<lambda>r v. r = None \<and> repr v [])))"
proof (rule wp_mono [OF push_all_law [OF assms]], assumption)
  fix t
  assume "repr t (xs @ es)"
  then show "wp (drain get (length (xs @ es)) t)
      (\<lambda>rs u. rs = map Some (xs @ es) \<and> wp (get u) (\<lambda>r v. r = None \<and> repr v []))"
    by (rule wp_mono [OF drain_all]) (auto intro: get_empty)
qed

end

locale stack = container +
  assumes put_law: "repr s xs \<Longrightarrow> present e s \<Longrightarrow> e \<notin> set xs \<Longrightarrow> wp (put e s) (\<lambda>_ t. repr t (e # xs))"
begin

text \<open>An element that is put back is the next to be taken, and taking it restores the rest.\<close>

lemma put_get:
  assumes "repr s xs" and "present e s" and "e \<notin> set xs"
  shows "wp (put e s) (\<lambda>_ t. wp (get t) (\<lambda>r u. r = Some e \<and> repr u xs))"
  by (rule wp_mono [OF put_law [OF assms]]) (rule get_law)

end

section \<open>Objects linked through a member\<close>

text \<open>
  \<open>linked nxt p xs\<close>: from the pointer \<open>p\<close> on, following \<open>nxt\<close>, lie the objects \<open>xs\<close> and then a null
  pointer.
\<close>

fun linked :: "(nat \<Rightarrow> nat option option) \<Rightarrow> nat option \<Rightarrow> nat list \<Rightarrow> bool" where
  "linked nxt p [] \<longleftrightarrow> p = None"
| "linked nxt p (x # xs) \<longleftrightarrow> p = Some x \<and> (case nxt x of None \<Rightarrow> False | Some q \<Rightarrow> linked nxt q xs)"

lemma linked_frame: "(\<And>x. x \<in> set xs \<Longrightarrow> nxt' x = nxt x) \<Longrightarrow> linked nxt' p xs = linked nxt p xs"
  by (induction xs arbitrary: p) (auto split: option.splits)

lemma linked_upd [simp]: "x \<notin> set xs \<Longrightarrow> linked (nxt(x := v)) p xs = linked nxt p xs"
  by (rule linked_frame) auto

lemma linked_None [simp]: "linked nxt None xs \<longleftrightarrow> xs = []"
  by (cases xs) auto

lemma linked_present: "linked nxt p xs \<Longrightarrow> x \<in> set xs \<Longrightarrow> nxt x \<noteq> None"
  by (induction xs arbitrary: p) (auto split: option.splits)

lemma linked_append:
  "linked nxt p (xs @ ys) \<longleftrightarrow> (\<exists>q. linked (nxt(last xs := Some None)) p xs \<and> nxt (last xs) = Some q \<and> linked nxt q ys)"
  if "xs \<noteq> []" "distinct xs" for xs
  using that
proof (induction xs arbitrary: p)
  case (Cons x xs)
  show ?case
  proof (cases "xs = []")
    case False
    then have "last xs \<in> set xs" "x \<noteq> last xs" using Cons.prems by auto
    then show ?thesis using Cons False by (auto split: option.splits)
  qed (auto split: option.splits)
qed simp

text \<open>A new object behind the last one.\<close>

lemma linked_snoc:
  assumes "linked nxt p xs" "distinct xs" "xs \<noteq> []" "y \<notin> set xs"
  shows "linked (nxt(last xs := Some (Some y), y := Some None)) p (xs @ [y])"
  using assms
proof (induction xs arbitrary: p)
  case (Cons x xs)
  show ?case
  proof (cases "xs = []")
    case False
    then have "last xs \<in> set xs" "x \<noteq> last xs" "x \<noteq> y" using Cons.prems by auto
    then show ?thesis using Cons False by (auto split: option.splits)
  qed (use Cons.prems in auto)
qed simp

text \<open>Taking out an object behind another one.\<close>

lemma linked_skip:
  assumes "linked nxt p (xs @ x # y # ys)" "distinct (xs @ x # y # ys)" "nxt y = Some q"
  shows "linked (nxt(x := Some q)) p (xs @ x # ys)"
  using assms
  by (induction xs arbitrary: p) (auto split: option.splits)

end
