(* ===== verification/LspQueues.thy ===== *)
theory LspQueues
  imports LspLemmas Containers
begin

text \<open>
  The two lists of overlapped structures: the pool of free ones is a stack, the pending operations of
  Windows 9x are a first-in first-out queue.  Both contracts are locales, interpreted on the code's
  operations.
\<close>

section \<open>Chains of structures\<close>

fun chain :: "(oid \<rightharpoonup> WSAOVERLAPPEDPLUS) \<Rightarrow> oid option \<Rightarrow> oid list \<Rightarrow> bool" where
  "chain h p [] \<longleftrightarrow> p = None"
| "chain h p (x # xs) \<longleftrightarrow> p = Some x \<and> (case h x of None \<Rightarrow> False | Some c \<Rightarrow> chain h (olp_next c) xs)"

lemma links_frame [simp]: "x \<notin> set xs \<Longrightarrow> chain (h(x := v)) p xs = chain h p xs"
  by (induction xs arbitrary: p) (auto split: option.splits)

lemma chain_snoc:
  "chain h p (xs @ [y]) \<Longrightarrow> distinct (xs @ [y]) \<Longrightarrow> z \<notin> set (xs @ [y]) \<Longrightarrow> h y = Some b \<Longrightarrow>
   chain (h(z \<mapsto> c\<lparr>olp_next := None\<rparr>, y \<mapsto> b\<lparr>olp_next := Some z\<rparr>)) p (xs @ [y, z])"
proof (induction xs arbitrary: p)
  case Nil
  then show ?case by auto
next
  case (Cons x xs)
  then show ?case by (auto split: option.splits)
qed

lemma chain_last: "chain h p (xs @ [y]) \<Longrightarrow> h y \<noteq> None"
  by (induction xs arbitrary: p) (auto split: option.splits)

section \<open>The queue of pending operations\<close>

definition pending :: "lsp \<Rightarrow> oid list \<Rightarrow> bool" where
  "pending s xs \<longleftrightarrow> can_enter s gOverlappedCS \<and> distinct xs \<and> chain (olps s) (PendingStart s) xs \<and>
     PendingEnd s = (if xs = [] then None else Some (last xs))"

lemma Enqueue_pending:
  assumes p: "pending s xs" and e: "olps s e \<noteq> None" "e \<notin> set xs"
  shows "wp (EnqueueOverlappedOperation e s)
    (\<lambda>r t. pending t (xs @ [e]) \<and> (\<forall>d. olps s d \<noteq> None \<longrightarrow> olps t d \<noteq> None))"
proof (cases xs rule: rev_cases)
  case Nil
  then show ?thesis
    using p e
    by (subst EnqueueOverlappedOperation_def, subst locked_unfold) (auto simp: pending_def lsp_defs)
next
  case (snoc ys y)
  have y: "olps s y \<noteq> None" using p snoc by (auto simp: pending_def dest: chain_last)
  obtain b c where b: "olps s y = Some b" and c: "olps s e = Some c" using y e by auto
  have "chain ((olps s)(e \<mapsto> c\<lparr>olp_next := None\<rparr>, y \<mapsto> b\<lparr>olp_next := Some e\<rparr>)) (PendingStart s) (ys @ [y, e])"
    using p e snoc b by (intro chain_snoc) (auto simp: pending_def)
  then show ?thesis
    using p e b c snoc
    by (subst EnqueueOverlappedOperation_def, subst locked_unfold) (auto simp: pending_def lsp_defs)
qed

lemma Dequeue_pending:
  assumes p: "pending s (x # xs)"
  shows "wp (DequeueOverlappedOperation s) (\<lambda>r t. r = Some x \<and> pending t xs)"
  using assms
  by (subst DequeueOverlappedOperation_def, subst locked_unfold)
    (auto simp: pending_def lsp_defs Let_def split: option.splits if_splits)

lemma Dequeue_empty:
  assumes p: "pending s []"
  shows "wp (DequeueOverlappedOperation s) (\<lambda>r t. r = None \<and> pending t [])"
  using assms
  by (subst DequeueOverlappedOperation_def, subst locked_unfold)
    (auto simp: pending_def lsp_defs Let_def split: option.splits if_splits)

interpretation pending_queue: fifo pending "\<lambda>e s. olps s e \<noteq> None" EnqueueOverlappedOperation DequeueOverlappedOperation
  by unfold_locales (fact Dequeue_pending Enqueue_pending Dequeue_empty)+

section \<open>The pool\<close>

lemma take_free_eq:
  assumes "FreePool s = Some x" and "olps s x = Some c"
  shows "take_free s = Some (Some x, s\<lparr>FreePool := olp_next c, olps := (olps s)(x \<mapsto> c\<lparr>olp_next := None\<rparr>)\<rparr>)"
  using assms by (simp add: take_free_def lsp_defs)

lemma GetOverlapped_eq:
  assumes "can_enter s (SockCritSec p)" and "can_enter s gOverlappedCS" and "infos s p = Some i"
    and "FreePool s = Some x" and "olps s x = Some c"
  shows "GetOverlappedStructure env p s = Some (Some x, s\<lparr>FreePool := olp_next c, olps := (olps s)(x \<mapsto> zero_olp),
    infos := (infos s)(p \<mapsto> si_dwOutstandingAsync_update (\<lambda>n. n + 1) i)\<rparr>)"
proof -
  let ?s = "s\<lparr>llocks := held (llocks s) (lthread s) (SockCritSec p)\<rparr>"
  have "can_enter ?s gOverlappedCS" using assms(2) by simp
  then show ?thesis
    using assms
    by (simp add: GetOverlappedStructure_def AcquireSocketLock_def ReleaseSocketLock_def Enter_eq lsp_defs
        take_free_eq [where c = c]
        Leave_eq [where ls = "held (llocks s) (lthread s) (SockCritSec p)"] Leave_eq [where ls = "llocks s"])
qed

lemma Putback_eq:
  assumes "can_enter s gOverlappedCS" and "olps s x = Some c"
  shows "PutbackOverlappedStructure x s = Some ((), s\<lparr>olps := (olps s)(x \<mapsto>
    zero_olp\<lparr>olp_lpCallerThreadId := 0xbadbeef, olp_next := FreePool s\<rparr>), FreePool := Some x\<rparr>)"
  unfolding PutbackOverlappedStructure_def
  using assms(2) by (subst locked_unfold [OF assms(1)]) (auto simp: lsp_defs)

definition free_pool :: "lsp \<Rightarrow> oid list \<Rightarrow> bool" where
  "free_pool s xs \<longleftrightarrow> distinct xs \<and> chain (olps s) (FreePool s) xs"

text \<open>The pool as a socket sees it, which can enter its lock and that of the manager.\<close>

definition pool_of :: "sid \<Rightarrow> lsp \<Rightarrow> oid list \<Rightarrow> bool" where
  "pool_of p s xs \<longleftrightarrow> free_pool s xs \<and> can_enter s (SockCritSec p) \<and> can_enter s gOverlappedCS \<and> infos s p \<noteq> None"

interpretation pool: stack "pool_of p" "\<lambda>e s. olps s e \<noteq> None" PutbackOverlappedStructure "GetOverlappedStructure env p"
  for p env
proof (unfold_locales, goal_cases)
  case (1 s x xs)
  then show ?case
    by (auto simp: pool_of_def free_pool_def GetOverlapped_eq split: option.splits)
next
  case (2 s xs e)
  then show ?case
    by (auto simp: pool_of_def free_pool_def Putback_eq)
qed

text \<open>A block of fresh structures is a chain of a hundred.\<close>

lemma pool_block_chain:
  "k \<le> DEFAULT_POOL_COUNT \<Longrightarrow> k > 0 \<Longrightarrow>
   chain (h ++ pool_block n) (Some (n + DEFAULT_POOL_COUNT - k)) [n + DEFAULT_POOL_COUNT - k ..< n + DEFAULT_POOL_COUNT]"
proof (induction k)
  case 0
  then show ?case by simp
next
  case (Suc k)
  have e: "(h ++ pool_block n) (n + DEFAULT_POOL_COUNT - Suc k) = Some (zero_olp\<lparr>olp_next :=
      (if k = 0 then None else Some (n + DEFAULT_POOL_COUNT - k))\<rparr>)"
    using Suc.prems by (auto simp: map_add_def pool_block_def Suc_diff_Suc)
  have u: "[n + DEFAULT_POOL_COUNT - Suc k ..< n + DEFAULT_POOL_COUNT] =
      (n + DEFAULT_POOL_COUNT - Suc k) # [n + DEFAULT_POOL_COUNT - k ..< n + DEFAULT_POOL_COUNT]"
    using Suc.prems by (subst upt_conv_Cons) (auto simp: Suc_diff_Suc)
  show ?case unfolding u using e Suc by (cases "k = 0") auto
qed

lemma AllocateFreePool_pool:
  assumes "heap_alloc_ok env (HeapAllocate # ltrace s)"
  shows "fst (AllocateFreePool env s) = NO_ERROR"
    and "free_pool (snd (AllocateFreePool env s)) [lsp_next s ..< lsp_next s + DEFAULT_POOL_COUNT]"
  using assms pool_block_chain [of DEFAULT_POOL_COUNT "olps s" "lsp_next s"]
  by (simp_all add: AllocateFreePool_def lsp_defs Let_def free_pool_def DEFAULT_POOL_COUNT_def)

end
