(* ===== verification/LspCalls.thy ===== *)
theory LspCalls
  imports LspLists LspQueues
begin

text \<open>
  What the entry points do on a live socket: the transparent ones, closing, and an overlapped call
  from the application to its completion.
\<close>

section \<open>Transparent calls\<close>

text \<open>
  A call handed down on the socket of the provider below: its result is the provider's, and the only
  traces it leaves are the two calls, what the provider wrote and its error.
\<close>

definition handed_down ::
    "lsp_env \<Rightarrow> lower_fn \<Rightarrow> handle \<Rightarrow> SOCK_INFO \<Rightarrow> arg list \<Rightarrow> lsp \<Rightarrow> (int, lsp) outcome" where
  "handed_down env fn h c args s =
     (let call = Lower fn (si_Provider c) (Hnd (si_ProviderSocket c) # args);
          a = lower env (call # QueryContext h # ltrace s) in
      Some (la_ret a, s\<lparr>ltrace := call # QueryContext h # ltrace s, mem := la_mem a (mem s),
        blocking := (if TlsIndex s then (blocking s)(lthread s := None) else blocking s),
        lpErrno := new_Errno a (lpErrno s)\<rparr>))"

text \<open>A closing context is only reached while somebody else holds a reference.\<close>

definition live :: "SOCK_INFO \<Rightarrow> bool" where
  "live c \<longleftrightarrow> \<not> si_bClosing c \<or> si_RefCount c \<noteq> 0"

lemma pass_down_eq:
  assumes f: "found env h p c s" and l: "live c"
    and q: "prov s (si_Provider c) = Some q" "fn \<in> set (NextProcTable q)"
  shows "pass_down env fn h args s = handed_down env fn h c args s"
proof -
  let ?c = "si_RefCount_update (\<lambda>n. n + 1) c"
  let ?s = "s\<lparr>ltrace := QueryContext h # ltrace s, infos := (infos s)(p \<mapsto> ?c)\<rparr>"
  let ?args = "Hnd (si_ProviderSocket c) # args"
  let ?a = "lower env (Lower fn (si_Provider c) ?args # ltrace ?s)"
  let ?t = "?s\<lparr>ltrace := Lower fn (si_Provider c) ?args # ltrace ?s, mem := la_mem ?a (mem ?s),
         blocking := (if TlsIndex ?s then (blocking ?s)(lthread ?s := None) else blocking ?s),
         lpErrno := new_Errno ?a (lpErrno ?s)\<rparr>"
  have b: "blocking_call env (si_Provider c) fn ?args ?s = Some (?a, ?t)"
    by (rule blocking_call_eq) (use q in simp_all)
  have i: "infos s p = Some c" and e: "can_enter s gCriticalSection" using f by (simp_all add: found_def)
  have u: "UnlockSocketContext env p ?t = Some ((), ?t\<lparr>infos := (infos ?t)(p \<mapsto> si_RefCount_update (\<lambda>n. n - 1) ?c)\<rparr>)"
    by (rule Unlock_eq) (use l e in \<open>auto simp: live_def\<close>)
  show ?thesis
    unfolding pass_down_def with_context_eq [OF f]
    using b u i by (simp add: unlock_return_def handed_down_def Let_def fun_upd_idem)
qed

section \<open>Closing\<close>

text \<open>The links do not matter to what a context is.\<close>

lemma relinked_at:
  assumes "relinked s t" and "infos s p = Some c"
  shows "\<exists>d. infos t p = Some d \<and> unlinked d = unlinked c"
  using assms by (cases "infos t p") (auto simp: relinked_def dest!: spec [of _ p])

lemma unlinked_fields:
  assumes "unlinked d = unlinked c"
  shows "si_RefCount d = si_RefCount c" "si_bClosing d = si_bClosing c" "si_Provider d = si_Provider c"
    "si_LayeredSocket d = si_LayeredSocket c" "si_ProviderSocket d = si_ProviderSocket c"
    "si_dwOutstandingAsync d = si_dwOutstandingAsync c"
  using assms by (cases c; cases d; simp add: unlinked_def)+

lemma relinked_frame:
  assumes "relinked s t"
  shows "llocks t = llocks s" "lthread t = lthread s" "ltrace t = ltrace s" "olps t = olps s" "FreePool t = FreePool s"
    "app_ov t = app_ov s" "mem t = mem s" "lpErrno t = lpErrno s" "ghIocp t = ghIocp s"
proof -
  from assms obtain i b where "t = s\<lparr>infos := i, gBaseInfo := b\<rparr>" by (auto simp: relinked_def)
  then show "llocks t = llocks s" "lthread t = lthread s" "ltrace t = ltrace s" "olps t = olps s" "FreePool t = FreePool s"
    "app_ov t = app_ov s" "mem t = mem s" "lpErrno t = lpErrno s" "ghIocp t = ghIocp s"
    by simp_all
qed


text \<open>A list depends on the links of its members and on the head only.\<close>

definition links_of :: "(sid \<rightharpoonup> SOCK_INFO) \<Rightarrow> sid \<Rightarrow> (sid option \<times> sid option) option" where
  "links_of h x = map_option (\<lambda>c. (si_prev c, si_next c)) (h x)"

lemma dll_cong: "(\<And>x. x \<in> set xs \<Longrightarrow> links_of h x = links_of h' x) \<Longrightarrow> dll h prv p xs = dll h' prv p xs"
proof (induction xs arbitrary: prv p)
  case Nil
  then show ?case by simp
next
  case (Cons x xs)
  have l: "links_of h x = links_of h' x" by (rule Cons.prems) simp
  have "dll h prv p xs = dll h' prv p xs" for prv p by (rule Cons.IH) (simp add: Cons.prems)
  then show ?case using l by (cases "h x"; cases "h' x") (simp_all add: links_of_def)
qed

lemma socket_list_cong:
  assumes "gBaseInfo s = gBaseInfo t" and "\<And>x. x \<in> set xs \<Longrightarrow> links_of (infos s) x = links_of (infos t) x"
  shows "socket_list s i xs = socket_list t i xs"
  using assms(2) by (auto simp: socket_list_def prov_cong [OF assms(1)] dll_cong [of xs "infos s" "infos t"] split: option.splits)

lemma socket_list_simps [simp]:
  "socket_list (s\<lparr>llocks := ls\<rparr>) i xs = socket_list s i xs"
  "socket_list (s\<lparr>ltrace := tr\<rparr>) i xs = socket_list s i xs"
  "socket_list (s\<lparr>lpErrno := e\<rparr>) i xs = socket_list s i xs"
  "socket_list (s\<lparr>mem := m\<rparr>) i xs = socket_list s i xs"
  "socket_list (s\<lparr>blocking := b\<rparr>) i xs = socket_list s i xs"
  by (simp_all add: socket_list_alt head_is_def)

lemma socket_list_upd:
  assumes "socket_list s i xs" and "gBaseInfo t = gBaseInfo s" and "infos t = (infos s)(p \<mapsto> d)"
    and "infos s p = Some c" and "si_prev d = si_prev c" and "si_next d = si_next c"
  shows "socket_list t i xs"
  using assms by (subst socket_list_cong [of t s]) (auto simp: links_of_def)

lemma socket_list_free:
  assumes "socket_list s i xs" and "gBaseInfo t = gBaseInfo s" and "infos t = (infos s)(p := None)" and "p \<notin> set xs"
  shows "socket_list t i xs"
  using assms by (subst socket_list_cong [of t s]) (auto simp: links_of_def)

text \<open>
  The end of a context: unlinked, its section left and deleted, its block freed.  \<open>freed\<close> is what
  that leaves.
\<close>

definition freed :: "sid \<Rightarrow> pid \<Rightarrow> sid list \<Rightarrow> lsp \<Rightarrow> lsp \<Rightarrow> bool" where
  "freed p i xs s t \<longleftrightarrow> infos t p = None \<and> socket_list t i (remove1 p xs) \<and>
     (\<forall>x. x \<noteq> p \<longrightarrow> map_option unlinked (infos t x) = map_option unlinked (infos s x)) \<and>
     llocks t = (llocks s)(SockCritSec p := None) \<and> lthread t = lthread s \<and>
     olps t = olps s \<and> FreePool t = FreePool s \<and> app_ov t = app_ov s \<and> ghIocp t = ghIocp s"

lemma release_and_free:
  assumes u: "socket_list u i (remove1 p xs)" "relinked s u" and xs: "socket_list s i xs" "p \<in> set xs"
    and sec: "llocks s (SockCritSec p) = Some (lthread s, n)"
    and w: "w = u\<lparr>ltrace := tr, lpErrno := e\<rparr>"
  shows "wp (ReleaseSocketLock p w) (\<lambda>_ v. wp (HeapFree_info p (DeleteCriticalSection (SockCritSec p) v))
      (\<lambda>_ t. freed p i xs s t \<and> ltrace t = tr \<and> lpErrno t = e))"
proof -
  note f = relinked_frame [OF u(2)]
  have d: "distinct xs" using xs(1) by (simp add: socket_list_def)
  obtain c where "infos s p = Some c"
    using xs by (auto simp: socket_list_def dest: dll_mem split: option.splits)
  then obtain k where k: "infos u p = Some k" using relinked_at [OF u(2)] by blast
  define v where "v = w\<lparr>llocks := (llocks u)(SockCritSec p := (if n \<le> 1 then None else Some (lthread s, n - 1)))\<rparr>"
  have v: "ReleaseSocketLock p w = Some ((), v)"
    using k sec f w by (simp add: ReleaseSocketLock_def Leave_def v_def)
  have "socket_list (w\<lparr>llocks := (llocks s)(SockCritSec p := None), infos := (infos u)(p := None)\<rparr>) i (remove1 p xs)"
    by (rule socket_list_free [OF u(1), where p = p]) (use d w in simp_all)
  then have "wp (HeapFree_info p (DeleteCriticalSection (SockCritSec p) v))
      (\<lambda>_ t. freed p i xs s t \<and> ltrace t = tr \<and> lpErrno t = e)"
    using k f u(2) w by (simp add: HeapFree_info_def DeleteCriticalSection_def v_def freed_def relinked_def)
  then show ?thesis unfolding v by simp
qed

lemma unlink_and_free:
  assumes xs: "socket_list s i xs" "p \<in> set xs" and lock: "can_enter s (ProviderCritSec i)"
    and sec: "llocks s (SockCritSec p) = Some (lthread s, n)"
  shows "wp (RemoveSocketInfo i p s) (\<lambda>_ u. wp (ReleaseSocketLock p u) (\<lambda>_ v.
    wp (HeapFree_info p (DeleteCriticalSection (SockCritSec p) v))
      (\<lambda>_ t. freed p i xs s t \<and> ltrace t = ltrace s \<and> lpErrno t = lpErrno s)))"
proof (rule wp_mono [OF RemoveSocketInfo_list [OF lock xs]], elim conjE)
  fix u :: lsp
  assume u: "socket_list u i (remove1 p xs)" "relinked s u"
  show "wp (ReleaseSocketLock p u) (\<lambda>_ v. wp (HeapFree_info p (DeleteCriticalSection (SockCritSec p) v))
      (\<lambda>_ t. freed p i xs s t \<and> ltrace t = ltrace s \<and> lpErrno t = lpErrno s))"
    using release_and_free [where w = u and tr = "ltrace u" and e = "lpErrno u", OF u xs sec] relinked_frame [OF u(2)]
    by simp
qed

lemma freed_trans:
  assumes "freed p i xs s t" and "gBaseInfo s = gBaseInfo s0"
    and "\<And>x. x \<noteq> p \<Longrightarrow> infos s x = infos s0 x"
    and "llocks s = llocks s0" "lthread s = lthread s0" "olps s = olps s0" "FreePool s = FreePool s0"
    "app_ov s = app_ov s0" "ghIocp s = ghIocp s0"
  shows "freed p i xs s0 t"
  using assms by (simp add: freed_def)

text \<open>The last reference to a closing context whose section the thread holds.\<close>

lemma Unlock_last:
  assumes gc: "can_enter s gCriticalSection" and c: "infos s p = Some c" "si_RefCount c = 1" "si_bClosing c"
    and xs: "socket_list s (si_Provider c) xs" "p \<in> set xs" and lock: "can_enter s (ProviderCritSec (si_Provider c))"
    and sec: "llocks s (SockCritSec p) = Some (lthread s, n)"
  shows "wp (UnlockSocketContext env p s) (\<lambda>_ t. freed p (si_Provider c) xs s t \<and>
    ltrace t = CloseSocketHandle (si_LayeredSocket c) # ltrace s)"
proof -
  let ?d = "c\<lparr>si_RefCount := 0, si_LayeredSocket := None\<rparr>"
  let ?tr = "CloseSocketHandle (si_LayeredSocket c) # ltrace s"
  let ?ls = "held (llocks s) (lthread s) gCriticalSection"
  obtain b e where e: "close_handle env (si_LayeredSocket c) u = (b, u\<lparr>ltrace := ?tr, lpErrno := e\<rparr>)"
    if "ltrace u = ltrace s" "lpErrno u = lpErrno s" for u
    by (cases "WPUCloseSocketHandle env ?tr")
      (auto simp: close_handle_def lsp_defs Let_def intro: that [of True "lpErrno s"])
  let ?s = "s\<lparr>llocks := ?ls, ltrace := ?tr, lpErrno := e, infos := (infos s)(p \<mapsto> ?d)\<rparr>"
  have w: "wp (RemoveSocketInfo (si_Provider c) p ?s) (\<lambda>_ u. wp (ReleaseSocketLock p u) (\<lambda>_ v.
      wp (HeapFree_info p (DeleteCriticalSection (SockCritSec p) v))
        (\<lambda>_ t. freed p (si_Provider c) xs ?s t \<and> ltrace t = ltrace ?s \<and> lpErrno t = lpErrno ?s)))"
  proof (rule unlink_and_free [OF _ xs(2)])
    show "socket_list ?s (si_Provider c) xs"
      by (rule socket_list_upd [OF xs(1), where c = c and d = ?d and p = p]) (use c in simp_all)
    show "can_enter ?s (ProviderCritSec (si_Provider c))" using lock by simp
    show "llocks ?s (SockCritSec p) = Some (lthread ?s, n)" using sec by (simp add: held_def)
  qed
  have leave: "wp (Leave gCriticalSection t) (\<lambda>_ t. freed p (si_Provider c) xs s t \<and> ltrace t = ?tr)"
    if f: "freed p (si_Provider c) xs ?s t \<and> ltrace t = ltrace ?s \<and> lpErrno t = lpErrno ?s" for t
  proof -
    have h: "held ((llocks s)(SockCritSec p := None)) (lthread s) gCriticalSection = ?ls(SockCritSec p := None)"
      by (auto simp: held_def)
    have "Leave gCriticalSection t = Some ((), t\<lparr>llocks := (llocks s)(SockCritSec p := None)\<rparr>)"
      by (rule Leave_eq) (use f gc h in \<open>simp_all add: freed_def enterable_def\<close>)
    then show ?thesis
      using f by (simp add: freed_def)
  qed
  have up: "si_LayeredSocket_update (\<lambda>_. None) (si_RefCount_update (\<lambda>n. n - 1) c) = ?d"
    using c(2) by (cases c) simp
  show ?thesis
    unfolding UnlockSocketContext_def locked_def Enter_eq [OF gc]
    using w c by (auto simp: lsp_defs e up intro: leave elim!: wp_mono)
qed


lemma held_delete [simp]: "(held ls t l)(l := None) = ls(l := None)"
  by (simp add: held_def)

text \<open>What \<open>WSPCloseSocket\<close> needs: a live context in its list, with sections the thread can enter.\<close>

definition closing_ok :: "lsp_env \<Rightarrow> handle \<Rightarrow> sid \<Rightarrow> SOCK_INFO \<Rightarrow> sid list \<Rightarrow> lsp \<Rightarrow> bool" where
  "closing_ok env h p c xs s \<longleftrightarrow> found env h p c s \<and> si_RefCount c = 0 \<and>
     (\<exists>q. prov s (si_Provider c) = Some q \<and> lpWSPCloseSocket \<in> set (NextProcTable q)) \<and>
     socket_list s (si_Provider c) xs \<and> p \<in> set xs \<and>
     can_enter s (ProviderCritSec (si_Provider c)) \<and> can_enter s (SockCritSec p)"

definition close_below :: "SOCK_INFO \<Rightarrow> lspcall" where
  "close_below c = Lower lpWSPCloseSocket (si_Provider c) [Hnd (si_ProviderSocket c)]"

lemma close_outstanding:
  assumes ok: "closing_ok env h p c xs s" and out: "si_dwOutstandingAsync c \<noteq> 0"
    and below: "la_ret (lower env (close_below c # QueryContext h # ltrace s)) \<noteq> SOCKET_ERROR"
  shows "wp (WSPCloseSocket env h s) (\<lambda>r t. r = 0 \<and> freed p (si_Provider c) xs s t \<and>
    ltrace t = CloseSocketHandle (si_LayeredSocket c) # close_below c # QueryContext h # ltrace s)"
proof -
  from ok have f: "found env h p c s" and r: "si_RefCount c = 0" and xs: "socket_list s (si_Provider c) xs" "p \<in> set xs"
    and pl: "can_enter s (ProviderCritSec (si_Provider c))" and sl: "can_enter s (SockCritSec p)"
    by (simp_all add: closing_ok_def)
  from ok obtain q where q: "prov s (si_Provider c) = Some q" "lpWSPCloseSocket \<in> set (NextProcTable q)"
    by (auto simp: closing_ok_def)
  have i: "infos s p = Some c" and gc: "can_enter s gCriticalSection" using f by (simp_all add: found_def)
  let ?a = "lower env (close_below c # QueryContext h # ltrace s)"
  let ?d = "c\<lparr>si_ProviderSocket := None, si_bClosing := True, si_RefCount := 1\<rparr>"
  let ?s = "\<lambda>e. s\<lparr>llocks := held (llocks s) (lthread s) (SockCritSec p), ltrace := close_below c # QueryContext h # ltrace s,
    mem := la_mem ?a (mem s), lpErrno := e, infos := (infos s)(p \<mapsto> ?d)\<rparr>"
  have u: "wp (UnlockSocketContext env p (?s e)) (\<lambda>_ t. freed p (si_Provider c) xs s t \<and>
    ltrace t = CloseSocketHandle (si_LayeredSocket c) # close_below c # QueryContext h # ltrace s)" for e
  proof (rule wp_mono [OF Unlock_last [where n = "the (map_option snd (held (llocks s) (lthread s) (SockCritSec p) (SockCritSec p)))"]])
    show "can_enter (?s e) gCriticalSection" "can_enter (?s e) (ProviderCritSec (si_Provider ?d))" using gc pl by simp_all
    show "infos (?s e) p = Some ?d" "si_RefCount ?d = 1" "si_bClosing ?d" "p \<in> set xs" using xs by simp_all
    have "socket_list (?s e) (si_Provider c) xs"
      by (rule socket_list_upd [OF xs(1) _ _ i, where d = ?d]) simp_all
    then show "socket_list (?s e) (si_Provider ?d) xs" by simp
    show "llocks (?s e) (SockCritSec p) = Some (lthread (?s e),
        the (map_option snd (held (llocks s) (lthread s) (SockCritSec p) (SockCritSec p))))"
      by (simp add: held_def)
  next
    fix a t
    assume "freed p (si_Provider ?d) xs (?s e) t \<and> ltrace t = CloseSocketHandle (si_LayeredSocket ?d) # ltrace (?s e)"
    then show "freed p (si_Provider c) xs s t \<and>
      ltrace t = CloseSocketHandle (si_LayeredSocket c) # close_below c # QueryContext h # ltrace s"
      by (simp add: freed_def)
  qed
  have d: "si_ProviderSocket_update (\<lambda>_. None) (si_bClosing_update (\<lambda>_. True) (si_RefCount_update (\<lambda>n. n + 1) c)) = ?d"
    using r by (cases c) simp
  show ?thesis
    unfolding WSPCloseSocket_def with_context_eq [OF f]
    using u [of "new_Errno ?a (lpErrno s)"] sl q below out
    by (simp add: AcquireSocketLock_def Enter_eq call_lower_def lsp_defs Let_def set_Errno_eq unlock_return_def
        close_below_def d)
qed


lemma close_quiet:
  assumes ok: "closing_ok env h p c xs s" and out: "si_dwOutstandingAsync c = 0"
    and below: "la_ret (lower env (close_below c # QueryContext h # ltrace s)) \<noteq> SOCKET_ERROR"
    and above: "WPUCloseSocketHandle env (CloseSocketHandle h # close_below c # QueryContext h # ltrace s) = None"
  shows "wp (WSPCloseSocket env h s) (\<lambda>r t. r = 0 \<and> freed p (si_Provider c) xs s t \<and>
    ltrace t = CloseSocketHandle h # close_below c # QueryContext h # ltrace s)"
proof -
  from ok have f: "found env h p c s" and r: "si_RefCount c = 0" and xs: "socket_list s (si_Provider c) xs" "p \<in> set xs"
    and pl: "can_enter s (ProviderCritSec (si_Provider c))" and sl: "can_enter s (SockCritSec p)"
    by (simp_all add: closing_ok_def)
  from ok obtain q where q: "prov s (si_Provider c) = Some q" "lpWSPCloseSocket \<in> set (NextProcTable q)"
    by (auto simp: closing_ok_def)
  have i: "infos s p = Some c" using f by (simp add: found_def)
  let ?tr = "close_below c # QueryContext h # ltrace s"
  let ?a = "lower env ?tr"
  let ?d = "c\<lparr>si_ProviderSocket := None, si_RefCount := 1\<rparr>"
  let ?ls = "held (llocks s) (lthread s) (SockCritSec p)"
  let ?s = "s\<lparr>ltrace := QueryContext h # ltrace s, infos := (infos s)(p \<mapsto> si_RefCount_update (\<lambda>n. n + 1) c), llocks := ?ls\<rparr>"
  let ?u = "s\<lparr>llocks := ?ls, ltrace := ?tr, mem := la_mem ?a (mem s),
    blocking := (if TlsIndex s then (blocking s)(lthread s := None) else blocking s),
    lpErrno := new_Errno ?a (lpErrno s), infos := (infos s)(p \<mapsto> ?d)\<rparr>"
  have b: "blocking_call env (si_Provider c) lpWSPCloseSocket [Hnd (si_ProviderSocket c)] ?s =
    Some (?a, ?s\<lparr>ltrace := ?tr, mem := la_mem ?a (mem s),
         blocking := (if TlsIndex s then (blocking s)(lthread s := None) else blocking s),
         lpErrno := new_Errno ?a (lpErrno s)\<rparr>)"
    by (subst blocking_call_eq [where q = q and a = ?a]) (use q in \<open>simp_all add: close_below_def\<close>)
  have l: "socket_list ?u (si_Provider c) xs"
    by (rule socket_list_upd [OF xs(1) _ _ i, where d = ?d]) simp_all
  have ce: "can_enter ?u (ProviderCritSec (si_Provider c))" using pl by simp
  have sec: "llocks ?u (SockCritSec p) =
      Some (lthread ?u, the (map_option snd (?ls (SockCritSec p))))"
    by (simp add: held_def)
  have w: "wp (RemoveSocketInfo (si_Provider c) p ?u) (\<lambda>_ u. wp (ReleaseSocketLock p (u\<lparr>ltrace := CloseSocketHandle h # ?tr\<rparr>)) (\<lambda>_ v.
    wp (HeapFree_info p (DeleteCriticalSection (SockCritSec p) v))
      (\<lambda>_ t. freed p (si_Provider c) xs s t \<and> ltrace t = CloseSocketHandle h # ?tr)) \<and> ltrace u = ?tr)"
  proof (rule wp_mono [OF RemoveSocketInfo_list [OF ce l xs(2)]], elim conjE)
    fix u :: lsp
    assume u: "socket_list u (si_Provider c) (remove1 p xs)" "relinked ?u u"
    have "wp (ReleaseSocketLock p (u\<lparr>ltrace := CloseSocketHandle h # ?tr\<rparr>)) (\<lambda>_ v.
        wp (HeapFree_info p (DeleteCriticalSection (SockCritSec p) v))
          (\<lambda>_ t. freed p (si_Provider c) xs ?u t \<and> ltrace t = CloseSocketHandle h # ?tr \<and> lpErrno t = lpErrno u))"
      by (rule release_and_free [OF u l xs(2) sec]) simp
    then show "wp (ReleaseSocketLock p (u\<lparr>ltrace := CloseSocketHandle h # ?tr\<rparr>)) (\<lambda>_ v.
        wp (HeapFree_info p (DeleteCriticalSection (SockCritSec p) v))
          (\<lambda>_ t. freed p (si_Provider c) xs s t \<and> ltrace t = CloseSocketHandle h # ?tr)) \<and> ltrace u = ?tr"
      using relinked_frame [OF u(2)] by (auto simp: freed_def elim!: wp_mono)
  qed
  have d: "si_ProviderSocket_update (\<lambda>_. None) (si_RefCount_update (\<lambda>n. n + 1) c) = ?d"
    using r by (cases c) simp
  show ?thesis
    unfolding WSPCloseSocket_def with_context_eq [OF f]
    using w sl below out r b
    by (auto simp: AcquireSocketLock_def Enter_eq lsp_defs d close_handle_def above elim!: wp_mono)
qed

end
