(* ===== verification/LspCompletion.thy ===== *)
theory LspCompletion
  imports LspCalls
begin

text \<open>
  An overlapped operation from its start to its completion, on a socket that stays open and where
  completion ports exist: what an operation that fails at once leaves behind, and what its completion
  stores for the application.
\<close>

section \<open>A socket that stays open\<close>

text \<open>
  \<open>open_ctx\<close>: the handle has its context throughout, the socket is not closing, and the thread can
  enter the sections it passes.
\<close>

definition open_ctx :: "lsp_env \<Rightarrow> handle \<Rightarrow> sid \<Rightarrow> SOCK_INFO \<Rightarrow> lsp \<Rightarrow> bool" where
  "open_ctx env h p c s \<longleftrightarrow> (\<forall>tr. WPUQuerySocketHandleContext env tr h = Inr p) \<and> infos s p = Some c \<and>
     \<not> si_bClosing c \<and> can_enter s gCriticalSection \<and> can_enter s gOverlappedCS \<and> can_enter s (SockCritSec p)"

lemma open_ctx_found: "open_ctx env h p c s \<Longrightarrow> found env h p c s"
  by (simp add: open_ctx_def found_def)

lemma Find_open:
  assumes "open_ctx env h p c s"
  shows "FindAndLockSocketContext env h s = Some (Some p, s\<lparr>ltrace := QueryContext h # ltrace s,
    infos := (infos s)(p \<mapsto> si_RefCount_update (\<lambda>n. n + 1) c)\<rparr>)"
  by (rule FindAndLock_eq [OF open_ctx_found [OF assms]])

lemma Unlock_open:
  assumes "open_ctx env h p c s"
  shows "UnlockSocketContext env p s = Some ((), s\<lparr>infos := (infos s)(p \<mapsto> si_RefCount_update (\<lambda>n. n - 1) c)\<rparr>)"
  using assms by (intro Unlock_eq) (simp_all add: open_ctx_def)

text \<open>The socket's own section around a step that leaves the locks alone.\<close>

lemma sock_section:
  assumes "open_ctx env h p c s"
    and "f (s\<lparr>llocks := held (llocks s) (lthread s) (SockCritSec p)\<rparr>) = Some ((), t)"
    and "llocks t = held (llocks s) (lthread s) (SockCritSec p)" and "lthread t = lthread s" and "infos t p \<noteq> None"
  shows "do { (_, s) \<leftarrow> AcquireSocketLock p s; (_, s) \<leftarrow> f s; ReleaseSocketLock p s } = Some ((), t\<lparr>llocks := llocks s\<rparr>)"
  using assms
  by (auto simp: open_ctx_def AcquireSocketLock_def ReleaseSocketLock_def Enter_eq Leave_eq [where ls = "llocks s"])

section \<open>Accounting\<close>

text \<open>What a successful completion adds to the context, by operation.\<close>

definition accounted :: "WSAOVERLAPPEDPLUS \<Rightarrow> dword \<Rightarrow> SOCK_INFO \<Rightarrow> SOCK_INFO" where
  "accounted x n =
     (if olp_Operation x \<in> {LSP_OP_RECV, LSP_OP_RECVFROM} then si_BytesRecv_update (\<lambda>m. m + n)
      else if olp_Operation x \<in> {LSP_OP_SEND, LSP_OP_SENDTO, LSP_OP_TRANSMITFILE} then si_BytesSent_update (\<lambda>m. m + n)
      else id)"

text \<open>Operations on one socket, whose arguments are those of the operation.\<close>

definition one_socket_op :: "WSAOVERLAPPEDPLUS \<Rightarrow> bool" where
  "one_socket_op x =
     (case (olp_Operation x, olp_args x) of
        (LSP_OP_RECV, RecvArgs _ _ _ _) \<Rightarrow> True
      | (LSP_OP_RECVFROM, RecvFromArgs _ _ _ _ _ _) \<Rightarrow> True
      | (LSP_OP_SEND, SendArgs _ _ _ _) \<Rightarrow> True
      | (LSP_OP_SENDTO, SendToArgs _ _ _ _ _ _) \<Rightarrow> True
      | (LSP_OP_ACCEPTEX, _) \<Rightarrow> False
      | (op, _) \<Rightarrow> op \<notin> {LSP_OP_RECV, LSP_OP_RECVFROM, LSP_OP_SEND, LSP_OP_SENDTO})"

lemma accounted_fields [simp]:
  "si_RefCount (accounted x n c) = si_RefCount c" "si_bClosing (accounted x n c) = si_bClosing c"
  "si_dwOutstandingAsync (accounted x n c) = si_dwOutstandingAsync c"
  "accounted x n (si_RefCount_update f c) = si_RefCount_update f (accounted x n c)"
  by (simp_all add: accounted_def)

lemma count_bytes_eq:
  assumes "one_socket_op x" and "ghIocp s" and "infos s p = Some c"
  shows "count_bytes env x p n s = Some ((), s\<lparr>infos := (infos s)(p \<mapsto> accounted x n c)\<rparr>)"
  using assms
proof -
  have [simp]: "s\<lparr>infos := (infos s)(p \<mapsto> c)\<rparr> = s" using assms(3) by (simp add: fun_upd_idem)
  show ?thesis
    using assms
    by (cases "olp_Operation x")
      (simp_all add: one_socket_op_def count_bytes_def accounted_def FreeBuffer_def lsp_defs Let_def
         split: lsp_args.splits)
qed

section \<open>Giving the structure back\<close>

lemma CheckForContextCleanup_eq:
  assumes o': "open_ctx env h p c s" and x: "olps s ol = Some x" "olp_CallerSocket x = h" "olp_SockInfo x = Some p"
  shows "CheckForContextCleanup env ol s = Some ((), s\<lparr>ltrace := QueryContext h # ltrace s,
    infos := (infos s)(p \<mapsto> si_dwOutstandingAsync_update (\<lambda>n. n - 1) c)\<rparr>)"
proof -
  have c: "\<not> si_bClosing c" and gc: "can_enter s gCriticalSection" and sc: "can_enter s (SockCritSec p)"
    and i: "infos s p = Some c"
    using o' by (simp_all add: open_ctx_def)
  let ?ls = "held (llocks s) (lthread s) (SockCritSec p)"
  let ?c = "si_dwOutstandingAsync_update (\<lambda>n. n - 1) (si_RefCount_update (\<lambda>n. n + 1) c)"
  let ?s = "s\<lparr>ltrace := QueryContext h # ltrace s, infos := (infos s)(p \<mapsto> ?c)\<rparr>"
  have u: "UnlockSocketContext env p ?s = Some ((), ?s\<lparr>infos := (infos ?s)(p \<mapsto> si_RefCount_update (\<lambda>n. n - 1) ?c)\<rparr>)"
    by (rule Unlock_eq) (use gc c in simp_all)
  have r: "si_RefCount_update (\<lambda>n. n - 1) ?c = si_dwOutstandingAsync_update (\<lambda>n. n - 1) c"
    by (cases c) simp
  have l: "Leave (SockCritSec p) (s\<lparr>ltrace := QueryContext h # ltrace s, llocks := ?ls, infos := (infos s)(p \<mapsto> ?c)\<rparr>) =
      Some ((), ?s\<lparr>llocks := llocks s\<rparr>)"
    by (subst Leave_eq [where ls = "llocks s"]) (use sc in simp_all)
  show ?thesis
    using u r c sc l
    by (simp add: CheckForContextCleanup_def local_errno_def x Find_open [OF o'] AcquireSocketLock_def
        ReleaseSocketLock_def Enter_eq lsp_defs Let_def)
qed


section \<open>Completion\<close>

text \<open>The answer of the provider below to \<open>WSPGetOverlappedResult\<close>, as the routine uses it.\<close>

definition result_of :: "lower_answer \<Rightarrow> dword \<Rightarrow> dword \<Rightarrow> dword \<times> dword \<times> dword" where
  "result_of a n f =
     ((case la_Errno a of Some e \<Rightarrow> e | None \<Rightarrow> NO_ERROR),
      (case la_bytes a of Some m \<Rightarrow> m | None \<Rightarrow> n), (case la_flags a of Some g \<Rightarrow> g | None \<Rightarrow> f))"

text \<open>What the completion stores in the application's structure before it is notified.\<close>

definition store_result :: "dword \<Rightarrow> dword \<Rightarrow> dword \<Rightarrow> OVERLAPPED \<Rightarrow> OVERLAPPED" where
  "store_result e n f v = v\<lparr>ov_Offset := e, ov_OffsetHigh := f, ov_InternalHigh := ucast n\<rparr>"

text \<open>An operation in progress on an open socket.\<close>

definition in_progress :: "lsp_env \<Rightarrow> oid \<Rightarrow> WSAOVERLAPPEDPLUS \<Rightarrow> handle \<Rightarrow> sid \<Rightarrow> SOCK_INFO \<Rightarrow> aid \<Rightarrow> lsp \<Rightarrow> bool" where
  "in_progress env ol x h p c a s \<longleftrightarrow> open_ctx env h p c s \<and> olps s ol = Some x \<and> olp_CallerSocket x = h \<and>
     olp_SockInfo x = Some p \<and> olp_lpCallerOverlapped x = Some a \<and> one_socket_op x \<and> ghIocp s \<and>
     (\<exists>q. prov s (olp_Provider x) = Some q \<and> lpWSPGetOverlappedResult \<in> set (NextProcTable q))"

definition query_below :: "oid \<Rightarrow> WSAOVERLAPPEDPLUS \<Rightarrow> lspcall" where
  "query_below ol x = Lower lpWSPGetOverlappedResult (olp_Provider x) [Hnd (olp_ProviderSocket x), Olp ol, BOOL False]"

lemma completion_wp:
  assumes prog: "in_progress env ol x h p c a s" and routine: "olp_lpCallerCompletionRoutine x = 0"
    and res: "result_of (lower env (query_below ol x # QueryContext h # ltrace s)) k 0 = (e, n, f)"
  shows "wp (IntermediateCompletionRoutine env WSA_IO_PENDING k (Some ol) 0 s) (\<lambda>_ t.
    app_ov t a = WPUCompleteOverlappedRequest env (CompleteOverlapped h a e n # query_below ol x # QueryContext h # ltrace s)
      (store_result e n f (app_ov s a)) \<and>
    infos t = (infos s)(p \<mapsto> si_dwOutstandingAsync_update (\<lambda>m. m - 1) (if e = 0 then accounted x n c else c)) \<and>
    FreePool t = Some ol \<and>
    olps t = (olps s)(ol \<mapsto> zero_olp\<lparr>olp_lpCallerThreadId := 0xbadbeef, olp_next := FreePool s\<rparr>) \<and>
    llocks t = llocks s \<and> lpErrno t = lpErrno s)"
proof -
  from prog have o': "open_ctx env h p c s" and x: "olps s ol = Some x" "olp_CallerSocket x = h" "olp_SockInfo x = Some p"
    and a: "olp_lpCallerOverlapped x = Some a" and op: "one_socket_op x" and nt: "ghIocp s"
    by (simp_all add: in_progress_def)
  from prog obtain q where q: "prov s (olp_Provider x) = Some q" "lpWSPGetOverlappedResult \<in> set (NextProcTable q)"
    by (auto simp: in_progress_def)
  let ?a = "lower env (query_below ol x # QueryContext h # ltrace s)"
  let ?ov = "store_result e n f (app_ov s a)"
  let ?tr = "query_below ol x # QueryContext h # ltrace s"
  let ?c1 = "si_RefCount_update (\<lambda>n. n + 1) c"
  let ?c2 = "if e = 0 then accounted x n c else c"
  let ?tr3 = "CompleteOverlapped h a e n # ?tr"
  let ?ov3 = "WPUCompleteOverlappedRequest env ?tr3 ?ov"
  define s1 where "s1 = s\<lparr>infos := (infos s)(p \<mapsto> ?c1), ltrace := ?tr, mem := la_mem ?a (mem s), app_ov := (app_ov s)(a := ?ov)\<rparr>"
  define s2 where "s2 = s1\<lparr>infos := (infos s)(p \<mapsto> si_RefCount_update (\<lambda>n. n + 1) ?c2)\<rparr>"
  define s3 where "s3 = s1\<lparr>infos := (infos s)(p \<mapsto> ?c2), ltrace := ?tr3, app_ov := (app_ov s)(a := ?ov3)\<rparr>"
  have 1: "account_completion env x p e n s1 = Some ((), s2)"
  proof (cases "e = 0")
    case True
    have "do { (_, s) \<leftarrow> AcquireSocketLock p s1; (_, s) \<leftarrow> count_bytes env x p n s; ReleaseSocketLock p s } =
        Some ((), (s2\<lparr>llocks := held (llocks s) (lthread s) (SockCritSec p)\<rparr>)\<lparr>llocks := llocks s1\<rparr>)"
      by (rule sock_section [where env = env and h = h and c = ?c1])
        (use o' nt op True in \<open>simp_all add: s1_def s2_def open_ctx_def count_bytes_eq [where c = ?c1]\<close>)
    then show ?thesis using True by (simp add: account_completion_def s1_def s2_def)
  next
    case False
    then show ?thesis by (simp add: account_completion_def s1_def s2_def)
  qed
  have 2: "UnlockSocketContext env p s2 = Some ((), s2\<lparr>infos := (infos s)(p \<mapsto> ?c2)\<rparr>)"
    by (subst Unlock_open [where h = h and c = "si_RefCount_update (\<lambda>n. n + 1) ?c2"])
      (use o' in \<open>auto simp: s1_def s2_def open_ctx_def\<close>)
  have 3: "CheckForContextCleanup env ol s3 = Some ((), s3\<lparr>ltrace := QueryContext h # ltrace s3,
      infos := (infos s3)(p \<mapsto> si_dwOutstandingAsync_update (\<lambda>n. n - 1) ?c2)\<rparr>)"
    by (rule CheckForContextCleanup_eq [OF _ _ x(2,3)])
      (use o' x in \<open>auto simp: s1_def s3_def open_ctx_def\<close>)
  have 4: "PutbackOverlappedStructure ol (s3\<lparr>ltrace := QueryContext h # ltrace s3,
      infos := (infos s3)(p \<mapsto> si_dwOutstandingAsync_update (\<lambda>n. n - 1) ?c2)\<rparr>) =
      Some ((), s3\<lparr>ltrace := QueryContext h # ltrace s3,
      infos := (infos s3)(p \<mapsto> si_dwOutstandingAsync_update (\<lambda>n. n - 1) ?c2),
      olps := (olps s)(ol \<mapsto> zero_olp\<lparr>olp_lpCallerThreadId := 0xbadbeef, olp_next := FreePool s\<rparr>), FreePool := Some ol\<rparr>)"
    by (subst Putback_eq [where c = x]) (use o' x in \<open>auto simp: s1_def s3_def open_ctx_def\<close>)
  have r: "(case la_Errno ?a of Some e \<Rightarrow> e | None \<Rightarrow> NO_ERROR) = e" "(case la_bytes ?a of Some m \<Rightarrow> m | None \<Rightarrow> k) = n"
    "(case la_flags ?a of Some g \<Rightarrow> g | None \<Rightarrow> 0) = f"
    using res by (simp_all add: result_of_def)
  have s1: "upd_ov a (\<lambda>v. v\<lparr>ov_Offset := e, ov_OffsetHigh := f, ov_InternalHigh := ucast n\<rparr>)
      (s\<lparr>infos := (infos s)(p \<mapsto> ?c1), ltrace := ?tr, mem := la_mem ?a (mem s)\<rparr>) = s1"
    by (simp add: s1_def upd_ov_def store_result_def)
  have s3: "notify_application env x a e n (s2\<lparr>infos := (infos s)(p \<mapsto> ?c2)\<rparr>) = s3"
    using routine x(2) by (simp add: notify_application_def s3_def s2_def s1_def trace_def upd_ov_def)
  have call: "call_lower env (olp_Provider x) lpWSPGetOverlappedResult [Hnd (olp_ProviderSocket x), Olp ol, BOOL False]
      (s\<lparr>ltrace := QueryContext h # ltrace s, infos := (infos s)(p \<mapsto> ?c1)\<rparr>) =
      Some (?a, s\<lparr>infos := (infos s)(p \<mapsto> ?c1), ltrace := ?tr, mem := la_mem ?a (mem s)\<rparr>)"
    using q by (simp add: call_lower_def trace_def query_below_def Let_def)
  have "IntermediateCompletionRoutine env WSA_IO_PENDING k (Some ol) 0 s = Some ((), s3\<lparr>ltrace := QueryContext h # ltrace s3,
      infos := (infos s3)(p \<mapsto> si_dwOutstandingAsync_update (\<lambda>n. n - 1) ?c2),
      olps := (olps s)(ol \<mapsto> zero_olp\<lparr>olp_lpCallerThreadId := 0xbadbeef, olp_next := FreePool s\<rparr>), FreePool := Some ol,
      lpErrno := lpErrno s\<rparr>)"
    by (simp add: IntermediateCompletionRoutine_def local_errno_def x a Find_open [OF o'] call r Let_def s1 s3 1 2 3 4
        del: if_split)
  then show ?thesis by (simp add: s3_def s1_def)
qed


section \<open>An operation that fails at once\<close>

text \<open>
  The structure \<open>start_overlapped\<close> fills, and the state an overlapped entry point reaches before it
  queues it: one more operation on the socket, one structure less in the pool.
\<close>

definition filled ::
    "handle \<Rightarrow> sid \<Rightarrow> SOCK_INFO \<Rightarrow> aid \<Rightarrow> lsp_op \<Rightarrow> ulong_ptr \<Rightarrow> ulong_ptr \<Rightarrow> lsp_args \<Rightarrow> lsp \<Rightarrow> WSAOVERLAPPEDPLUS" where
  "filled h p c a op thr routine args s = zero_olp\<lparr>olp_lpCallerOverlapped := Some a, olp_Offset := ov_Offset (app_ov s a),
     olp_OffsetHigh := ov_OffsetHigh (app_ov s a), olp_SockInfo := Some p, olp_CallerSocket := h,
     olp_ProviderSocket := si_ProviderSocket c, olp_Operation := op, olp_lpCallerThreadId := thr,
     olp_lpCallerCompletionRoutine := routine, olp_args := args, olp_Provider := si_Provider c\<rparr>"

lemma start_overlapped_eq:
  assumes o': "open_ctx env h p c s" and pl: "FreePool s = Some ol" "olps s ol = Some y"
    and mk: "\<And>t. mem t = mem s \<Longrightarrow> ghIocp t = ghIocp s \<Longrightarrow> mk t = Some (args, t)"
  shows "start_overlapped env p h a op thr routine None mk s = Some (Some ol, s\<lparr>FreePool := olp_next y,
    infos := (infos s)(p \<mapsto> si_dwOutstandingAsync_update (\<lambda>n. n + 1) c),
    olps := (olps s)(ol \<mapsto> filled h p c a op thr routine args s)\<rparr>)"
proof -
  have "GetOverlappedStructure env p s = Some (Some ol, s\<lparr>FreePool := olp_next y, olps := (olps s)(ol \<mapsto> zero_olp),
    infos := (infos s)(p \<mapsto> si_dwOutstandingAsync_update (\<lambda>n. n + 1) c)\<rparr>)"
    by (rule GetOverlapped_eq) (use o' pl in \<open>simp_all add: open_ctx_def\<close>)
  then show ?thesis
    by (simp add: start_overlapped_def CopyOffset_def lsp_defs mk filled_def zero_olp_def)
qed


text \<open>
  The call below that fails: an error other than \<open>WSA_IO_PENDING\<close>, stored through \<open>lpErrno\<close>.
\<close>

definition fails_below :: "lower_answer \<Rightarrow> dword \<Rightarrow> bool" where
  "fails_below a e \<longleftrightarrow> la_ret a \<noteq> 0 \<and> la_Errno a = Some e \<and> e \<noteq> NO_ERROR \<and> e \<noteq> WSA_IO_PENDING"

lemma Execute_fails:
  assumes o': "open_ctx env h p c s" and nt: "ghIocp s"
    and x: "olps s ol = Some x" "olp_CallerSocket x = h" "olp_SockInfo x = Some p" "olp_lpCallerOverlapped x = Some a"
    and op: "lower_op 0 ol x = Some (Inl fn, args)" "olp_Operation x \<noteq> LSP_OP_none"
    and q: "prov s (olp_Provider x) = Some q" "fn \<in> set (NextProcTable q)"
    and below: "\<And>tr. fails_below (lower env (Lower fn (olp_Provider x) args # tr)) e"
  shows "wp (ExecuteOverlappedOperation env ol b s) (\<lambda>r t. r = e \<and>
    infos t = (infos s)(p \<mapsto> si_dwOutstandingAsync_update (\<lambda>n. n - 1) c) \<and> FreePool t = Some ol \<and>
    olps t = (olps s)(ol \<mapsto> zero_olp\<lparr>olp_lpCallerThreadId := 0xbadbeef, olp_next := FreePool s\<rparr>) \<and>
    llocks t = llocks s \<and> lthread t = lthread s \<and> lpErrno t = lpErrno s)"
proof -
  define s1 where "s1 = (if ov_hEvent (app_ov s a) \<noteq> 0 then trace (ResetEvent (ov_hEvent (app_ov s a) AND NOT 1)) s else s)"
  let ?a = "lower env (Lower fn (olp_Provider x) args # ltrace s1)"
  let ?args = "store_args (la_bytes ?a) (la_flags ?a) (olp_args x)"
  let ?x = "x\<lparr>olp_args := ?args, olp_Error := e\<rparr>"
  define s2 where "s2 = s1\<lparr>ltrace := Lower fn (olp_Provider x) args # ltrace s1, mem := la_mem ?a (mem s1),
      olps := (olps s)(ol \<mapsto> ?x)\<rparr>"
  have s1: "s1 = s\<lparr>ltrace := ltrace s1\<rparr>" by (auto simp: s1_def trace_def)
  have f: "la_ret ?a \<noteq> 0" "la_Errno ?a = Some e" "e \<noteq> 997" using below by (simp_all add: fails_below_def)
  have k: "infos s1 = infos s" "gBaseInfo s1 = gBaseInfo s" "olps s1 = olps s" "ghIocp s1 = ghIocp s" "llocks s1 = llocks s"
    "lthread s1 = lthread s" "lpErrno s1 = lpErrno s" "FreePool s1 = FreePool s"
    by (subst s1, simp)+
  have run: "run_lower env ol s1 = Some (False, s2)"
    using x op q f nt k prov_cong [OF k(2)]
    by (simp add: run_lower_def call_lower_def lsp_defs Let_def s2_def)
  define s3 where "s3 = upd_ov a (\<lambda>v. v\<lparr>ov_Offset := e,
                  ov_OffsetHigh := (case args_flags ?args of Some f \<Rightarrow> f | None \<Rightarrow> 0),
                  ov_InternalHigh := ucast (case args_bytes ?args of Some n \<Rightarrow> n | None \<Rightarrow> 0)\<rparr>) s2"
  have k3: "infos s3 = infos s" "olps s3 = (olps s)(ol \<mapsto> ?x)" "llocks s3 = llocks s"
    "lthread s3 = lthread s" "lpErrno s3 = lpErrno s" "FreePool s3 = FreePool s"
    using k by (simp_all add: s3_def s2_def upd_ov_def)
  have chk: "CheckForContextCleanup env ol s3 = Some ((), s3\<lparr>ltrace := QueryContext h # ltrace s3,
    infos := (infos s3)(p \<mapsto> si_dwOutstandingAsync_update (\<lambda>n. n - 1) c)\<rparr>)"
    by (rule CheckForContextCleanup_eq [where x = ?x]) (use o' x k3 in \<open>simp_all add: open_ctx_def\<close>)
  have put: "PutbackOverlappedStructure ol (s3\<lparr>ltrace := QueryContext h # ltrace s3,
    infos := (infos s3)(p \<mapsto> si_dwOutstandingAsync_update (\<lambda>n. n - 1) c)\<rparr>) =
    Some ((), s3\<lparr>ltrace := QueryContext h # ltrace s3,
    infos := (infos s3)(p \<mapsto> si_dwOutstandingAsync_update (\<lambda>n. n - 1) c),
    olps := (olps s)(ol \<mapsto> zero_olp\<lparr>olp_lpCallerThreadId := 0xbadbeef, olp_next := FreePool s\<rparr>), FreePool := Some ol\<rparr>)"
    by (subst Putback_eq [where c = ?x]) (use o' k3 in \<open>simp_all add: open_ctx_def\<close>)
  have "ExecuteOverlappedOperation env ol b s = Some (e, s3\<lparr>ltrace := QueryContext h # ltrace s3,
    infos := (infos s3)(p \<mapsto> si_dwOutstandingAsync_update (\<lambda>n. n - 1) c),
    olps := (olps s)(ol \<mapsto> zero_olp\<lparr>olp_lpCallerThreadId := 0xbadbeef, olp_next := FreePool s\<rparr>), FreePool := Some ol\<rparr>)"
    using f(3) by (simp add: ExecuteOverlappedOperation_def x Let_def s1_def [symmetric] run s2_def [THEN arg_cong [where f = olps]]
        s3_def [symmetric] chk put)
  then show ?thesis using k3 by simp
qed


lemma Queue_fails:
  assumes o': "open_ctx env h p c s" and nt: "ghIocp s" "si_hIocp c"
    and x: "olps s ol = Some x" "olp_CallerSocket x = h" "olp_SockInfo x = Some p" "olp_lpCallerOverlapped x = Some a"
    and op: "lower_op 0 ol x = Some (Inl fn, args)" "olp_Operation x \<noteq> LSP_OP_none"
    and q: "prov s (olp_Provider x) = Some q" "fn \<in> set (NextProcTable q)"
    and below: "\<And>tr. fails_below (lower env (Lower fn (olp_Provider x) args # tr)) e"
  shows "wp (QueueOverlappedOperation env ol p s) (\<lambda>r t. r = e \<and>
    infos t = (infos s)(p \<mapsto> si_dwOutstandingAsync_update (\<lambda>n. n - 1) c) \<and> FreePool t = Some ol \<and>
    olps t = (olps s)(ol \<mapsto> zero_olp\<lparr>olp_lpCallerThreadId := 0xbadbeef, olp_next := FreePool s\<rparr>) \<and>
    llocks t = llocks s \<and> lthread t = lthread s \<and> lpErrno t = lpErrno s)"
proof -
  let ?s = "SetOverlappedInProgress a s"
  have k: "infos ?s = infos s" "gBaseInfo ?s = gBaseInfo s" "olps ?s = olps s" "ghIocp ?s = ghIocp s" "llocks ?s = llocks s"
    "lthread ?s = lthread s" "lpErrno ?s = lpErrno s" "FreePool ?s = FreePool s"
    by (simp_all add: SetOverlappedInProgress_def upd_ov_def)
  have sc: "can_enter s (SockCritSec p)" and i: "infos s p = Some c" using o' by (simp_all add: open_ctx_def)
  have l: "Leave (SockCritSec p) (?s\<lparr>llocks := held (llocks s) (lthread s) (SockCritSec p)\<rparr>) = Some ((), ?s\<lparr>llocks := llocks s\<rparr>)"
    by (subst Leave_eq [where ls = "llocks s"]) (use sc k in simp_all)
  have e: "?s\<lparr>llocks := llocks s\<rparr> = ?s" using k(5) by simp
  have "QueueOverlappedOperation env ol p s = ExecuteOverlappedOperation env ol False ?s"
    using nt x sc k i l e
    by (simp add: QueueOverlappedOperation_def Let_def AcquireSocketLock_def ReleaseSocketLock_def Enter_eq)
  moreover have "wp (ExecuteOverlappedOperation env ol False ?s) (\<lambda>r t. r = e \<and>
    infos t = (infos ?s)(p \<mapsto> si_dwOutstandingAsync_update (\<lambda>n. n - 1) c) \<and> FreePool t = Some ol \<and>
    olps t = (olps ?s)(ol \<mapsto> zero_olp\<lparr>olp_lpCallerThreadId := 0xbadbeef, olp_next := FreePool ?s\<rparr>) \<and>
    llocks t = llocks ?s \<and> lthread t = lthread ?s \<and> lpErrno t = lpErrno ?s)"
    by (rule Execute_fails [OF _ _ _ x(2,3,4) op _ q(2) below])
      (use o' nt x q k prov_cong [OF k(2)] in \<open>simp_all add: open_ctx_def\<close>)
  ultimately show ?thesis using k by simp
qed

text \<open>
  The whole overlapped entry point: the error is reported, and neither the context nor the pool nor
  the locks show that there was an operation.
\<close>

lemma overlapped_fails:
  assumes o': "open_ctx env h p c s" and nt: "ghIocp s" "si_hIocp c"
    and pl: "FreePool s = Some ol" "olps s ol = Some y"
    and mk: "\<And>t. mem t = mem s \<Longrightarrow> ghIocp t = ghIocp s \<Longrightarrow> mk t = Some (args, t)"
    and op: "lower_op 0 ol (filled h p c a op thr routine args s) = Some (Inl fn, largs)" "op \<noteq> LSP_OP_none"
    and q: "prov s (si_Provider c) = Some q" "fn \<in> set (NextProcTable q)"
    and below: "\<And>tr. fails_below (lower env (Lower fn (si_Provider c) largs # tr)) e"
  shows "wp (overlapped_call env p h a op thr routine mk s) (\<lambda>r t. r = SOCKET_ERROR \<and> lpErrno t = e \<and>
    infos t = (infos s)(p \<mapsto> si_RefCount_update (\<lambda>n. n - 1) c) \<and> FreePool t = Some ol \<and>
    olps t = (olps s)(ol \<mapsto> zero_olp\<lparr>olp_lpCallerThreadId := 0xbadbeef, olp_next := olp_next y\<rparr>) \<and>
    llocks t = llocks s \<and> lthread t = lthread s)"
proof -
  let ?x = "filled h p c a op thr routine args s"
  let ?c = "si_dwOutstandingAsync_update (\<lambda>n. n + 1) c"
  let ?s = "s\<lparr>FreePool := olp_next y, infos := (infos s)(p \<mapsto> ?c), olps := (olps s)(ol \<mapsto> ?x)\<rparr>"
  have c: "si_dwOutstandingAsync_update (\<lambda>n. n - 1) ?c = c" by (cases c) simp
  have e: "e \<noteq> 0" using below by (simp add: fails_below_def)
  have ps: "prov ?s i = prov s i" for i by (simp add: prov_def)
  have "wp (QueueOverlappedOperation env ol p ?s) (\<lambda>r t. r = e \<and>
    infos t = (infos ?s)(p \<mapsto> si_dwOutstandingAsync_update (\<lambda>n. n - 1) ?c) \<and> FreePool t = Some ol \<and>
    olps t = (olps ?s)(ol \<mapsto> zero_olp\<lparr>olp_lpCallerThreadId := 0xbadbeef, olp_next := FreePool ?s\<rparr>) \<and>
    llocks t = llocks ?s \<and> lthread t = lthread ?s \<and> lpErrno t = lpErrno ?s)"
    by (rule Queue_fails [where h = h and x = ?x and a = a, OF _ _ _ _ _ _ _ op(1)])
      (use o' nt op q below ps in \<open>simp_all add: open_ctx_def filled_def\<close>)
  then have "wp (QueueOverlappedOperation env ol p ?s) (\<lambda>r t. r = e \<and> infos t = (infos s)(p \<mapsto> c) \<and> FreePool t = Some ol \<and>
    olps t = (olps s)(ol \<mapsto> zero_olp\<lparr>olp_lpCallerThreadId := 0xbadbeef, olp_next := olp_next y\<rparr>) \<and>
    llocks t = llocks s \<and> lthread t = lthread s)"
    unfolding c by (auto elim!: wp_mono)
  moreover have "UnlockSocketContext env p (t\<lparr>lpErrno := e\<rparr>) = Some ((), t\<lparr>lpErrno := e,
      infos := (infos t)(p \<mapsto> si_RefCount_update (\<lambda>n. n - 1) c)\<rparr>)"
    if "infos t = (infos s)(p \<mapsto> c)" "llocks t = llocks s" "lthread t = lthread s" for t
    by (subst Unlock_open [where h = h and c = c]) (use o' that in \<open>simp_all add: open_ctx_def\<close>)
  ultimately show ?thesis
    by (simp add: overlapped_call_def start_overlapped_eq [OF o' pl mk] e unlock_return_def, elim wp_mono) (simp add: e)
qed


section \<open>A completion that finds no context\<close>

lemma completion_lost:
  assumes "can_enter s gCriticalSection" and "can_enter s gOverlappedCS" and "olps s ol = Some x"
    and "WPUQuerySocketHandleContext env (ltrace s) (olp_CallerSocket x) = Inl e"
  shows "IntermediateCompletionRoutine env k n (Some ol) f s = Some ((), s\<lparr>ltrace := QueryContext (olp_CallerSocket x) # ltrace s,
    olps := (olps s)(ol \<mapsto> zero_olp\<lparr>olp_lpCallerThreadId := 0xbadbeef, olp_next := FreePool s\<rparr>), FreePool := Some ol\<rparr>)"
proof -
  let ?s = "s\<lparr>ltrace := QueryContext (olp_CallerSocket x) # ltrace s, lpErrno := e\<rparr>"
  have "PutbackOverlappedStructure ol ?s = Some ((), ?s\<lparr>olps := (olps ?s)(ol \<mapsto>
    zero_olp\<lparr>olp_lpCallerThreadId := 0xbadbeef, olp_next := FreePool ?s\<rparr>), FreePool := Some ol\<rparr>)"
    by (rule Putback_eq [where c = x]) (use assms in simp_all)
  then show ?thesis
    by (simp add: IntermediateCompletionRoutine_def local_errno_def assms(3) FindAndLock_none [OF assms(1,4)])
qed

end
