(* ===== verification/LspSession.thy ===== *)
theory LspSession
  imports LspLists
begin

text \<open>
  Startup and the choice of a provider: what a startup that hands out the procedure table has
  established, what one that fails leaves behind, which provider below a new socket gets, and the
  translation of the sets of \<open>WSPSelect\<close>.
\<close>

section \<open>Loading the providers below\<close>

text \<open>Reading a provider in a \<open>wlp\<close> or \<open>wp\<close>.\<close>

lemmas wlp_read_lsp [simp] =
  wlp_read [where m = "m :: PROVIDER option" for m] wlp_read [where m = "m :: SOCK_INFO option" for m]
  wlp_read [where m = "m :: WSAPROTOCOL_INFOW option" for m]

text \<open>Every entry of the procedure table is there, and the library is loaded.\<close>

definition complete :: "PROVIDER \<Rightarrow> bool" where
  "complete q \<longleftrightarrow> hProvider q \<and> (\<forall>fn. fn \<in> set (NextProcTable q))"

lemma VerifyProcTable_all: "VerifyProcTable t \<noteq> SOCKET_ERROR \<longleftrightarrow> (\<forall>fn. fn \<in> set t)"
proof
  assume v: "VerifyProcTable t \<noteq> SOCKET_ERROR"
  show "\<forall>fn. fn \<in> set t"
  proof
    fix fn show "fn \<in> set t" using v by (cases fn) (simp_all add: VerifyProcTable_def split: if_splits)
  qed
qed (simp add: VerifyProcTable_def)

text \<open>The frame of the loop: it touches the trace and the providers only.\<close>

definition load_frame :: "lsp \<Rightarrow> lsp \<Rightarrow> bool" where
  "load_frame s t \<longleftrightarrow> gEntryCount t = gEntryCount s \<and> gLayerCount t = gLayerCount s \<and> llocks t = llocks s \<and>
     lthread t = lthread s \<and> FreePool t = FreePool s \<and> gWorkerThread t = gWorkerThread s \<and> ghIocp t = ghIocp s"

lemma load_frame_refl [simp]: "load_frame s s" by (simp add: load_frame_def)

lemma load_frame_trans: "load_frame s t \<Longrightarrow> load_frame t u \<Longrightarrow> load_frame s u"
  by (simp add: load_frame_def)

lemma load_frame_simps [simp]:
  "load_frame s (trace c t) = load_frame s t" "load_frame s (upd_prov i f t) = load_frame s t"
  by (simp_all add: load_frame_def trace_def upd_prov_def)

lemma prov_trace [simp]: "prov (trace c s) i = prov s i"
  by (simp add: trace_def)

lemma prov_upd_same: "prov (upd_prov i f s) i = map_option f (prov s i)"
  by (auto simp: prov_def upd_prov_def split: option.splits)

lemma prov_upd_other: "k \<noteq> i \<Longrightarrow> prov (upd_prov i f s) k = prov s k"
  by (auto simp: prov_def upd_prov_def split: option.splits)

lemma load_layer_wlp:
  "wlp (load_layer env info x s) (\<lambda>r t. load_frame s t \<and> (\<forall>y. y \<noteq> x \<longrightarrow> prov t y = prov s y) \<and>
     (\<forall>ret. r = Loaded ret \<longrightarrow> (\<exists>q. prov t x = Some q \<and> complete q)))"
  using VerifyProcTable_all
  by (auto simp: load_layer_def Let_def prov_upd_same prov_upd_other complete_def split: option.splits prod.splits)

lemma load_layers_wlp:
  "distinct xs \<Longrightarrow> wlp (load_layers env info xs ret s) (\<lambda>r t. load_frame s t \<and> (\<forall>y. y \<notin> set xs \<longrightarrow> prov t y = prov s y) \<and>
     (\<forall>ret. r = Loaded ret \<longrightarrow> (\<forall>x\<in>set xs. \<exists>q. prov t x = Some q \<and> complete q)))"
proof (induction xs arbitrary: s ret)
  case Nil
  then show ?case by simp
next
  case (Cons x xs)
  let ?Q = "\<lambda>r t. load_frame s t \<and> (\<forall>y. y \<notin> set (x # xs) \<longrightarrow> prov t y = prov s y) \<and>
     (\<forall>ret. r = Loaded ret \<longrightarrow> (\<forall>x\<in>set (x # xs). \<exists>q. prov t x = Some q \<and> complete q))"
  have "wlp (case r of Loaded ret \<Rightarrow> load_layers env info xs ret t | _ \<Rightarrow> Some (r, t)) ?Q"
    if r: "load_frame s t \<and> (\<forall>y. y \<noteq> x \<longrightarrow> prov t y = prov s y) \<and>
       (\<forall>ret. r = Loaded ret \<longrightarrow> (\<exists>q. prov t x = Some q \<and> complete q))" for r t
  proof (cases r)
    case (Loaded ret')
    have "wlp (load_layers env info xs ret' t) (\<lambda>r u. load_frame t u \<and> (\<forall>y. y \<notin> set xs \<longrightarrow> prov u y = prov t y) \<and>
       (\<forall>ret. r = Loaded ret \<longrightarrow> (\<forall>x\<in>set xs. \<exists>q. prov u x = Some q \<and> complete q)))"
      by (rule Cons.IH) (use Cons.prems in simp)
    then show ?thesis
      using r Loaded Cons.prems by (auto elim!: wlp_mono intro: load_frame_trans)
  qed (use r in auto)
  then show ?case by (auto intro: wlp_mono [OF load_layer_wlp])
qed

section \<open>Startup\<close>

lemma GetProviders_frame: "GetProviders env s = (r, t) \<Longrightarrow> load_frame s t"
  by (auto simp: GetProviders_def Let_def split: sum.splits if_splits)

lemma start_threads_frame:
  "wlp (start_threads env xs s) (\<lambda>_ t. gBaseInfo t = gBaseInfo s \<and> gLayerCount t = gLayerCount s)"
  by (induction env xs s rule: start_threads.induct) (auto simp: Let_def trace_def elim: wlp_mono)

lemma InitOverlappedManager_frame:
  "wlp (InitOverlappedManager env s) (\<lambda>_ t. gBaseInfo t = gBaseInfo s \<and> gLayerCount t = gLayerCount s)"
  unfolding InitOverlappedManager_def locked_def
  by (auto simp: Enter_def Leave_def AllocateFreePool_def Let_def trace_def split: option.splits prod.splits
      intro!: wlp_mono [OF start_threads_frame])

text \<open>
  A first startup that succeeds has loaded every provider below; one that fails has counted itself
  all the same and started nothing.
\<close>

lemma first_startup_wlp:
  "wlp (first_startup env info s) (\<lambda>r t.
     (case r of
        Loaded _ \<Rightarrow> \<forall>i<gLayerCount t. \<exists>q. prov t i = Some q \<and> complete q
      | _ \<Rightarrow> gEntryCount t = gEntryCount s + 1 \<and> llocks t = llocks s \<and> lthread t = lthread s \<and>
             gWorkerThread t = gWorkerThread s))"
proof -
  let ?s = "s\<lparr>gEntryCount := gEntryCount s + 1, hLspHeap := create_heap_ok env\<rparr>"
  obtain r t where g: "GetProviders env ?s = (r, t)" by (cases "GetProviders env ?s")
  note f = GetProviders_frame [OF g]
  show ?thesis
  proof (cases r)
    case None
    then show ?thesis using g f by (simp add: first_startup_def load_frame_def)
  next
    case (Some xs)
    let ?n = "length (filter (\<lambda>v. layer_id (gLayerCatId t) xs = ChainEntries v ! 0) xs)"
    let ?t = "trace HeapAllocate (t\<lparr>gLayerCatId := layer_id (gLayerCatId t) xs, gLayerCount := ?n\<rparr>)"
    let ?u = "?t\<lparr>gBaseInfo := Some (copy_layers (layer_id (gLayerCatId t) xs) xs xs 0 (replicate ?n zero_PROVIDER))\<rparr>"
    let ?Q = "\<lambda>r t. (case r of
        Loaded _ \<Rightarrow> \<forall>i<gLayerCount t. \<exists>q. prov t i = Some q \<and> complete q
      | _ \<Rightarrow> gEntryCount t = gEntryCount s + 1 \<and> llocks t = llocks s \<and> lthread t = lthread s \<and>
             gWorkerThread t = gWorkerThread s)"
    have "wlp (case r of Loaded ret \<Rightarrow> do { (_, s) \<leftarrow> InitOverlappedManager env v; Some (Loaded ret, s) } | _ \<Rightarrow> Some (r, v)) ?Q"
      if l: "load_frame ?u v \<and> (\<forall>y. y \<notin> set [0..<?n] \<longrightarrow> prov v y = prov ?u y) \<and>
       (\<forall>ret. r = Loaded ret \<longrightarrow> (\<forall>x\<in>set [0..<?n]. \<exists>q. prov v x = Some q \<and> complete q))" for r v
    proof (cases r)
      case (Loaded ret)
      have "\<forall>i<gLayerCount w. \<exists>q. prov w i = Some q \<and> complete q"
        if "gBaseInfo w = gBaseInfo v \<and> gLayerCount w = gLayerCount v" for w
        using that l Loaded prov_cong [of w v] by (simp add: load_frame_def trace_def)
      then show ?thesis
        using Loaded by (auto intro: wlp_mono [OF InitOverlappedManager_frame])
    qed (use l f in \<open>simp_all add: load_frame_def trace_def\<close>)
    then have "wlp (load_layers env info [0..<?n] 0 ?u) (\<lambda>r v. wlp (case r of Loaded ret \<Rightarrow>
        do { (_, s) \<leftarrow> InitOverlappedManager env v; Some (Loaded ret, s) } | _ \<Rightarrow> Some (r, v)) ?Q)"
      by (intro wlp_mono [OF load_layers_wlp]) simp_all
    then show ?thesis
      using g f Some by (simp add: first_startup_def Let_def load_frame_def trace_def)
  qed
qed


lemma startup_complete_wlp:
  "wlp (WSPStartup env info s) (\<lambda>r t. gEntryCount s = 0 \<longrightarrow> snd r \<longrightarrow>
     (\<forall>i<gLayerCount t. \<exists>q. prov t i = Some q \<and> complete q))"
proof (cases "gEntryCount s = 0")
  case True
  have "wlp (case r of
       FailedLocked e \<Rightarrow> Some ((uint e, False), v)
     | Failed e \<Rightarrow> do { (_, s) \<leftarrow> Leave gCriticalSection v; Some ((uint e, False), s) }
     | Loaded ret \<Rightarrow> do { (_, s) \<leftarrow> Leave gCriticalSection v; Some ((ret, True), s) })
       (\<lambda>r t. snd r \<longrightarrow> (\<forall>i<gLayerCount t. \<exists>q. prov t i = Some q \<and> complete q))"
    if "case r of Loaded _ \<Rightarrow> \<forall>i<gLayerCount v. \<exists>q. prov v i = Some q \<and> complete q
        | _ \<Rightarrow> gEntryCount v = k \<and> llocks v = ls \<and> lthread v = th \<and> gWorkerThread v = wt" for r v k ls th wt
    using that by (auto simp: Leave_def split: load_result.splits option.splits)
  then show ?thesis
    using True by (auto simp: WSPStartup_def Enter_def split: option.splits intro!: wlp_mono [OF first_startup_wlp])
qed (simp add: wlpI)

lemma startup_failed:
  assumes lock: "can_enter s gCriticalSection" and run: "WSPStartup env info s = Some ((r, False), t)"
  shows "gEntryCount s = 0 \<and> gEntryCount t = 1 \<and> can_enter t gCriticalSection \<and> gWorkerThread t = gWorkerThread s"
proof -
  let ?ls = "held (llocks s) (lthread s) gCriticalSection"
  let ?s = "s\<lparr>llocks := ?ls\<rparr>"
  have z: "gEntryCount s = 0"
    using run lock by (auto simp: WSPStartup_def Enter_eq split: if_splits Option.bind_splits)
  obtain x v where x: "first_startup env info ?s = Some (x, v)"
    using run lock z by (auto simp: WSPStartup_def Enter_eq split: Option.bind_splits)
  have nl: "\<And>ret. x \<noteq> Loaded ret"
    using run lock z x by (auto simp: WSPStartup_def Enter_eq split: Option.bind_splits load_result.splits)
  then have v: "gEntryCount v = 1" "llocks v = ?ls" "lthread v = lthread s" "gWorkerThread v = gWorkerThread s"
    using wlpD [OF first_startup_wlp x] z by (cases x; simp)+
  have l: "Leave gCriticalSection v = Some ((), v\<lparr>llocks := llocks s\<rparr>)"
    by (rule Leave_eq) (use lock v in simp_all)
  show ?thesis
    using run lock z x nl v l
    by (cases x) (auto simp: WSPStartup_def Enter_eq)
qed

section \<open>Choice of a provider\<close>

definition matches :: "(WSAPROTOCOL_INFOW \<Rightarrow> bool) \<Rightarrow> WSAPROTOCOL_INFOW option \<Rightarrow> lsp \<Rightarrow> pid \<Rightarrow> bool" where
  "matches ok io s i \<longleftrightarrow> (\<exists>q. prov s i = Some q \<and> ok (NextProvider q) \<and> same_flags (NextProvider q) io)"

lemma find_provider_find:
  "find_provider ok io s is = Some r \<Longrightarrow> r = find (matches ok io s) is"
  by (induction "is") (auto simp: matches_def split: Option.bind_splits if_splits)

text \<open>What the caller asks for: its entry, where it passes one, or its three arguments.\<close>

definition requested :: "int \<Rightarrow> int \<Rightarrow> int \<Rightarrow> appptr \<Rightarrow> lsp \<Rightarrow> int \<times> int \<times> int" where
  "requested af type proto lpi s =
     (case lpi of
        None \<Rightarrow> (af, type, proto)
      | Some a \<Rightarrow> (let v = m_info (mem s) a in (iAddressFamily v, iSocketType v, iProtocol v)))"

lemma choose_provider_found:
  assumes "choose_provider af type proto lpi s = Some (Inr (i, pInfo), t)"
    and "requested af type proto lpi s = (a, ty, pr)"
  shows "find (matches (socket_match a ty pr) (map_option (m_info (mem s)) lpi) s) [0..<gLayerCount s] = Some i"
  using assms
  by (auto simp: choose_provider_def requested_def Let_def dest!: find_provider_find
      split: Option.bind_splits if_splits option.splits)

end
