(* ===== verification/LspSelect.thy ===== *)
theory LspSelect
  imports LspLemmas
begin

text \<open>
  \<open>WSPSelect\<close>: the sets of application sockets are translated to sockets of the provider below, and
  what it reports is mapped back.
\<close>

section \<open>Translation\<close>

text \<open>
  The sockets of a set all have a live context, which \<open>ctx\<close> gives, throughout the call.
\<close>

definition selectable :: "lsp_env \<Rightarrow> (handle \<Rightarrow> sid) \<Rightarrow> handle list \<Rightarrow> lsp \<Rightarrow> bool" where
  "selectable env ctx hs s \<longleftrightarrow> can_enter s gCriticalSection \<and>
     (\<forall>h\<in>set hs. (\<forall>tr. WPUQuerySocketHandleContext env tr h = Inr (ctx h)) \<and>
        (\<exists>c. infos s (ctx h) = Some c \<and> (\<not> si_bClosing c \<or> si_RefCount c \<noteq> 0)))"

definition below_socket :: "(handle \<Rightarrow> sid) \<Rightarrow> lsp \<Rightarrow> handle \<Rightarrow> handle" where
  "below_socket ctx s h = (case infos s (ctx h) of Some c \<Rightarrow> si_ProviderSocket c | None \<Rightarrow> None)"

definition last_ctx :: "(handle \<Rightarrow> sid) \<Rightarrow> handle list \<Rightarrow> sid option \<Rightarrow> sid option" where
  "last_ctx ctx hs old = (if hs = [] then old else Some (ctx (last hs)))"

lemma look_and_return:
  assumes "selectable env ctx (h # hs) s"
  shows "\<exists>c. infos s (ctx h) = Some c \<and>
    FindAndLockSocketContext env h s = Some (Some (ctx h), s\<lparr>ltrace := QueryContext h # ltrace s,
      infos := (infos s)(ctx h \<mapsto> si_RefCount_update (\<lambda>n. n + 1) c)\<rparr>) \<and>
    UnlockSocketContext env (ctx h) (s\<lparr>ltrace := QueryContext h # ltrace s,
      infos := (infos s)(ctx h \<mapsto> si_RefCount_update (\<lambda>n. n + 1) c)\<rparr>) = Some ((), s\<lparr>ltrace := QueryContext h # ltrace s\<rparr>)"
proof -
  from assms obtain c where c: "infos s (ctx h) = Some c" "\<not> si_bClosing c \<or> si_RefCount c \<noteq> 0"
    and gc: "can_enter s gCriticalSection" and w: "\<forall>tr. WPUQuerySocketHandleContext env tr h = Inr (ctx h)"
    by (auto simp: selectable_def)
  let ?c = "si_RefCount_update (\<lambda>n. n + 1) c"
  let ?s = "s\<lparr>ltrace := QueryContext h # ltrace s, infos := (infos s)(ctx h \<mapsto> ?c)\<rparr>"
  have f: "FindAndLockSocketContext env h s = Some (Some (ctx h), ?s)"
    by (rule FindAndLock_eq) (use c gc w in \<open>simp add: found_def\<close>)
  have "UnlockSocketContext env (ctx h) ?s = Some ((), ?s\<lparr>infos := (infos ?s)(ctx h \<mapsto> si_RefCount_update (\<lambda>n. n - 1) ?c)\<rparr>)"
    by (rule Unlock_eq) (use c gc in auto)
  moreover have "?s\<lparr>infos := (infos ?s)(ctx h \<mapsto> si_RefCount_update (\<lambda>n. n - 1) ?c)\<rparr> = s\<lparr>ltrace := QueryContext h # ltrace s\<rparr>"
    using c(1) by (simp add: fun_upd_idem)
  ultimately show ?thesis using c(1) f by auto
qed

lemma selectable_simps [simp]:
  "selectable env ctx hs (s\<lparr>ltrace := tr\<rparr>) = selectable env ctx hs s"
  "selectable env ctx (h # hs) s \<Longrightarrow> selectable env ctx hs s"
  "below_socket ctx (s\<lparr>ltrace := tr\<rparr>) = below_socket ctx s"
  by (auto simp: selectable_def below_socket_def fun_eq_iff)

lemma translate_fds_eq:
  "selectable env ctx hs s \<Longrightarrow>
   translate_fds env hs tab fds old s = Some (Some (tab @ map (\<lambda>h. (h, below_socket ctx s h)) hs,
     fold (\<lambda>h. FD_SET (below_socket ctx s h)) hs fds, last_ctx ctx hs old),
     s\<lparr>ltrace := rev (map QueryContext hs) @ ltrace s\<rparr>)"
proof (induction hs arbitrary: tab fds old s)
  case Nil
  then show ?case by (simp add: last_ctx_def)
next
  case (Cons h hs)
  obtain c where c: "infos s (ctx h) = Some c"
    and f: "FindAndLockSocketContext env h s = Some (Some (ctx h), s\<lparr>ltrace := QueryContext h # ltrace s,
      infos := (infos s)(ctx h \<mapsto> si_RefCount_update (\<lambda>n. n + 1) c)\<rparr>)"
    and u: "UnlockSocketContext env (ctx h) (s\<lparr>ltrace := QueryContext h # ltrace s,
      infos := (infos s)(ctx h \<mapsto> si_RefCount_update (\<lambda>n. n + 1) c)\<rparr>) = Some ((), s\<lparr>ltrace := QueryContext h # ltrace s\<rparr>)"
    using look_and_return [OF Cons.prems] by blast
  have "selectable env ctx hs s" using Cons.prems by (rule selectable_simps(2))
  then show ?case
    using Cons.IH [of "s\<lparr>ltrace := QueryContext h # ltrace s\<rparr>"] c
    by (simp add: f u Let_def last_ctx_def) (simp add: below_socket_def)
qed

section \<open>Mapping back\<close>

lemma map_back_eq:
  assumes fd: "\<And>h xs. WPUFDIsSet env h xs = (h \<in> set xs)"
  shows "int (length (filter (\<lambda>(c, k). k \<in> set fds) tab)) \<le> n \<Longrightarrow> distinct (out @ map fst tab) \<Longrightarrow>
    length out + length tab \<le> FD_SETSIZE \<Longrightarrow>
    map_back env tab fds n out = (out @ map fst (filter (\<lambda>(c, k). k \<in> set fds) tab),
      n - int (length (filter (\<lambda>(c, k). k \<in> set fds) tab)))"
proof (induction tab arbitrary: n out)
  case Nil
  then show ?case by simp
next
  case (Cons ck tab)
  obtain c k where ck: "ck = (c, k)" by (cases ck)
  show ?case
  proof (cases "n = 0")
    case True
    with Cons.prems(1) have "filter (\<lambda>(c, k). k \<in> set fds) (ck # tab) = []" by simp
    with True show ?thesis by (simp add: ck)
  next
    case False
    then show ?thesis
      using Cons.prems Cons.IH [of "n - 1" "out @ [c]"] Cons.IH [of n out]
      by (auto simp: ck fd FD_SET_def)
  qed
qed

text \<open>The sockets of a set that are ready, and how many they are.\<close>

definition ready :: "(handle \<Rightarrow> sid) \<Rightarrow> lsp \<Rightarrow> handle list \<Rightarrow> handle list \<Rightarrow> handle list" where
  "ready ctx s hs reported = filter (\<lambda>h. below_socket ctx s h \<in> set reported) hs"

lemma ready_filter:
  "map fst (filter (\<lambda>(c, k). k \<in> set r) (map (\<lambda>h. (h, below_socket ctx s h)) hs)) = ready ctx s hs r"
  "length (filter (\<lambda>(c, k). k \<in> set r) (map (\<lambda>h. (h, below_socket ctx s h)) hs)) = length (ready ctx s hs r)"
  by (induction hs) (auto simp: ready_def)

lemma back_to_eq:
  assumes fd: "\<And>h xs. WPUFDIsSet env h xs = (h \<in> set xs)"
    and "int (length (ready ctx s hs r)) \<le> n" and "distinct hs" and "length hs \<le> FD_SETSIZE"
    and "m_fds (mem t) a = hs"
  shows "back_to env (Some a) (map (\<lambda>h. (h, below_socket ctx s h)) hs) r n t =
    (n - int (length (ready ctx s hs r)), t\<lparr>mem := (mem t)\<lparr>m_fds := (m_fds (mem t))(a := ready ctx s hs r)\<rparr>\<rparr>)"
  using assms map_back_eq [where env = env and out = "[]" and tab = "map (\<lambda>h. (h, below_socket ctx s h)) hs" and fds = r and n = n, OF fd]
  by (simp add: back_to_def ready_filter comp_def ready_def)


section \<open>The whole call\<close>

text \<open>The call to the provider below, on the translated sets.\<close>

definition below_set :: "(handle \<Rightarrow> sid) \<Rightarrow> lsp \<Rightarrow> handle list \<Rightarrow> handle list" where
  "below_set ctx s hs = fold (\<lambda>h. FD_SET (below_socket ctx s h)) hs []"

definition select_call :: "(handle \<Rightarrow> sid) \<Rightarrow> lsp \<Rightarrow> pid \<Rightarrow> int \<Rightarrow> appptr \<Rightarrow> handle list \<Rightarrow> handle list \<Rightarrow> handle list \<Rightarrow> lspcall" where
  "select_call ctx s i nfds timeout hr hw he = Lower lpWSPSelect i
     [Num nfds, Fds (Some (below_set ctx s hr)), Fds (Some (below_set ctx s hw)), Fds (Some (below_set ctx s he)), Ptr timeout]"

lemma selectable_append [simp]:
  "selectable env ctx (xs @ ys) s \<longleftrightarrow> selectable env ctx xs s \<and> selectable env ctx ys s"
  by (auto simp: selectable_def)

text \<open>The application's memory when the three sets are where the three pointers say.\<close>

definition sets_at :: "lsp \<Rightarrow> nat \<Rightarrow> nat \<Rightarrow> nat \<Rightarrow> handle list \<Rightarrow> handle list \<Rightarrow> handle list \<Rightarrow> bool" where
  "sets_at s a b c hr hw he \<longleftrightarrow> distinct [a, b, c] \<and> m_fds (mem s) a = hr \<and> m_fds (mem s) b = hw \<and> m_fds (mem s) c = he \<and>
     list_all (\<lambda>hs. distinct hs \<and> length hs \<le> FD_SETSIZE) [hr, hw, he]"

lemma WSPSelect_eq:
  assumes fd: "\<And>h xs. WPUFDIsSet env h xs = (h \<in> set xs)"
    and sets: "sets_at s a b c hr hw he" and sel: "selectable env ctx (hr @ hw @ he) s"
    and ne: "hr @ hw @ he \<noteq> []" and k: "infos s (ctx (last (hr @ hw @ he))) = Some k"
    and q: "prov s (si_Provider k) = Some q" "lpWSPSelect \<in> set (NextProcTable q)"
    and ans: "lower env (select_call ctx s (si_Provider k) nfds timeout hr hw he #
        rev (map QueryContext (hr @ hw @ he)) @ ltrace s) = ans"
    and res: "la_sets ans = (R, W, E)" "la_mem ans = id"
      "la_ret ans = int (length (ready ctx s hr R) + length (ready ctx s hw W) + length (ready ctx s he E))"
  shows "wp (WSPSelect env nfds (Some a) (Some b) (Some c) timeout s) (\<lambda>r t. r = la_ret ans \<and>
     m_fds (mem t) a = ready ctx s hr R \<and> m_fds (mem t) b = ready ctx s hw W \<and> m_fds (mem t) c = ready ctx s he E \<and>
     infos t = infos s \<and> llocks t = llocks s)"
proof -
  from sets have d: "a \<noteq> b" "a \<noteq> c" "b \<noteq> c" and m: "m_fds (mem s) a = hr" "m_fds (mem s) b = hw" "m_fds (mem s) c = he"
    and dl: "distinct hr" "length hr \<le> FD_SETSIZE" "distinct hw" "length hw \<le> FD_SETSIZE" "distinct he" "length he \<le> FD_SETSIZE"
    by (simp_all add: sets_at_def)
  let ?tab = "map (\<lambda>h. (h, below_socket ctx s h))"
  let ?s3 = "s\<lparr>ltrace := rev (map QueryContext (hr @ hw @ he)) @ ltrace s\<rparr>"
  obtain p where p: "p = ctx (last (hr @ hw @ he))" by blast
  have l: "last_ctx ctx he (last_ctx ctx hw (last_ctx ctx hr None)) = Some p"
    using ne p by (auto simp: last_ctx_def)
  have kp: "infos s p = Some k" using k p by simp
  have t1: "translate_set env (Some a) None s = Some (Some (?tab hr, below_set ctx s hr, last_ctx ctx hr None),
      s\<lparr>ltrace := rev (map QueryContext hr) @ ltrace s\<rparr>)"
    using m dl sel by (simp add: translate_set_def translate_fds_eq [where ctx = ctx] below_set_def)
  have t2: "translate_set env (Some b) o1 (s\<lparr>ltrace := rev (map QueryContext hr) @ ltrace s\<rparr>) =
      Some (Some (?tab hw, below_set ctx s hw, last_ctx ctx hw o1),
      s\<lparr>ltrace := rev (map QueryContext (hr @ hw)) @ ltrace s\<rparr>)" for o1
    using m dl sel by (simp add: translate_set_def translate_fds_eq [where ctx = ctx] below_set_def)
  have t3: "translate_set env (Some c) o2 (s\<lparr>ltrace := rev (map QueryContext (hr @ hw)) @ ltrace s\<rparr>) =
      Some (Some (?tab he, below_set ctx s he, last_ctx ctx he o2), ?s3)" for o2
    using m dl sel by (simp add: translate_set_def translate_fds_eq [where ctx = ctx] below_set_def)
  let ?t = "?s3\<lparr>ltrace := select_call ctx s (si_Provider k) nfds timeout hr hw he # ltrace ?s3, mem := la_mem ans (mem ?s3),
         blocking := (if TlsIndex ?s3 then (blocking ?s3)(lthread ?s3 := None) else blocking ?s3),
         lpErrno := new_Errno ans (lpErrno ?s3)\<rparr>"
  have call: "blocking_call env (si_Provider k) lpWSPSelect [Num nfds, Fds (Some (below_set ctx s hr)),
      Fds (Some (below_set ctx s hw)), Fds (Some (below_set ctx s he)), Ptr timeout] ?s3 = Some (ans, ?t)"
    by (subst blocking_call_eq [where q = q and a = ans]) (use q ans in \<open>simp_all add: select_call_def\<close>)
  let ?m1 = "(mem s)\<lparr>m_fds := (m_fds (mem s))(a := ready ctx s hr R)\<rparr>"
  let ?m2 = "(mem s)\<lparr>m_fds := (m_fds (mem s))(a := ready ctx s hr R, b := ready ctx s hw W)\<rparr>"
  let ?m3 = "(mem s)\<lparr>m_fds := (m_fds (mem s))(a := ready ctx s hr R, b := ready ctx s hw W, c := ready ctx s he E)\<rparr>"
  have b1: "back_to env (Some a) (?tab hr) R (la_ret ans) ?t =
      (int (length (ready ctx s hw W) + length (ready ctx s he E)), ?t\<lparr>mem := ?m1\<rparr>)"
    by (subst back_to_eq [OF fd]) (use res dl m in simp_all)
  have b2: "back_to env (Some b) (?tab hw) W (int (length (ready ctx s hw W) + length (ready ctx s he E))) (?t\<lparr>mem := ?m1\<rparr>) =
      (int (length (ready ctx s he E)), ?t\<lparr>mem := ?m2\<rparr>)"
    by (subst back_to_eq [OF fd]) (use dl m d in simp_all)
  have b3: "back_to env (Some c) (?tab he) E (int (length (ready ctx s he E))) (?t\<lparr>mem := ?m2\<rparr>) = (0, ?t\<lparr>mem := ?m3\<rparr>)"
    by (subst back_to_eq [OF fd]) (use dl m d in simp_all)
  have r: "la_ret ans \<noteq> SOCKET_ERROR" using res(3) by simp
  have "WSPSelect env nfds (Some a) (Some b) (Some c) timeout s = Some (la_ret ans, ?t\<lparr>mem := ?m3\<rparr>)"
    using t1 t2 [of "last_ctx ctx hr None"] t3 [of "last_ctx ctx hw (last_ctx ctx hr None)"] l call b1 b2 b3 kp r res(1)
    by (simp add: WSPSelect_def del: if_split)
  then show ?thesis using d by simp
qed

end
