(* ===== verification/LspExample.thy ===== *)
theory LspExample
  imports LspCompletion LspSession LspSelect
begin

text \<open>
  A small instance of the layered provider, at which the properties are applied: one provider below
  (TCP), two sockets open on it (handles 100 and 101, contexts 1 and 2), one structure in the pool,
  completion ports, and a Winsock and a provider below that answer every call.
\<close>

definition ex_info :: WSAPROTOCOL_INFOW where
  "ex_info = zero_info\<lparr>ChainLen := 1, iAddressFamily := 2, iSocketType := 1, iProtocol := 6, dwCatalogEntryId := 1001\<rparr>"

definition all_fns :: "lower_fn list" where
  "all_fns = [lpWSPAccept, lpWSPAddressToString, lpWSPAsyncSelect, lpWSPBind, lpWSPCancelBlockingCall,
     lpWSPCleanup, lpWSPCloseSocket, lpWSPConnect, lpWSPDuplicateSocket, lpWSPEnumNetworkEvents,
     lpWSPEventSelect, lpWSPGetOverlappedResult, lpWSPGetPeerName, lpWSPGetSockOpt, lpWSPGetSockName,
     lpWSPGetQOSByName, lpWSPIoctl, lpWSPJoinLeaf, lpWSPListen, lpWSPRecv, lpWSPRecvDisconnect,
     lpWSPRecvFrom, lpWSPSelect, lpWSPSend, lpWSPSendDisconnect, lpWSPSendTo, lpWSPSetSockOpt,
     lpWSPShutdown, lpWSPSocket, lpWSPStringToAddress]"

lemma all_fns_all [simp]: "fn \<in> set all_fns"
  by (cases fn) (simp_all add: all_fns_def)

definition ex_layer :: PROVIDER where
  "ex_layer = zero_PROVIDER\<lparr>NextProvider := ex_info, LayeredProvider := ex_info, NextProcTable := all_fns,
     NextProcTableExt := [], hProvider := True, SocketList := Some 1\<rparr>"

definition ex_ctx :: "nat \<Rightarrow> SOCK_INFO" where
  "ex_ctx k = zero_SOCK_INFO\<lparr>si_ProviderSocket := Some (200 + k), si_LayeredSocket := Some (99 + k), si_hIocp := True,
     si_prev := (if k = 1 then None else Some 1), si_next := (if k = 1 then Some 2 else None)\<rparr>"

definition ex_ov :: OVERLAPPED where
  "ex_ov = \<lparr>ov_Internal = 0, ov_InternalHigh = 0, ov_Offset = 0, ov_OffsetHigh = 0, ov_hEvent = 0\<rparr>"

definition ex_mem :: memory where
  "ex_mem = \<lparr>m_dword = (\<lambda>_. 0), m_char = (\<lambda>_. 0), m_bytes = (\<lambda>_. []), m_sock = (\<lambda>_. None), m_guid = (\<lambda>_. other_guid 0),
     m_fn = (\<lambda>_. None), m_info = (\<lambda>_. ex_info), m_infoA = (\<lambda>_. (ex_info, [])),
     m_fds = (\<lambda>a. if a = 1 then [Some 100, Some 101] else if a = 2 then [Some 101] else []), m_bufs = (\<lambda>_. [])\<rparr>"

definition ex_state :: lsp where
  "ex_state = \<lparr>infos = [1 \<mapsto> ex_ctx 1, 2 \<mapsto> ex_ctx 2], gBaseInfo = Some [ex_layer], gLayerCount = 1, gEntryCount = 1,
     gLayerCatId = 1, bDetached = False, hLspHeap = True, TlsIndex = True, blocking = Map.empty,
     olps = [10 \<mapsto> zero_olp], FreePool = Some 10, PendingStart = None, PendingEnd = None, app_ov = (\<lambda>_. ex_ov), mem = ex_mem,
     copied = Map.empty, ghIocp = True, ghWakeupSemaphore = False, wakeups = 0, gWorkerThread = replicate 32 False,
     gdwThreadCount = 1, WorkerThreadHandle = False, AsyncWindow = None, lpErrno = 0, LastError = 0, lsp_next = 20,
     llocks = Map.empty, lthread = 7, ltrace = []\<rparr>"

definition ex_answer :: lower_answer where
  "ex_answer = \<lparr>la_ret = 0, la_socket = Some 300, la_Errno = None, la_bytes = None, la_flags = None, la_sets = ([], [], []),
     la_ext = None, la_mem = id\<rparr>"

definition ex_handles :: "handle \<Rightarrow> dword + sid" where
  "ex_handles h = (if h = Some 100 then Inr 1 else if h = Some 101 then Inr 2 else Inl WSAENOTSOCK)"

definition ex_env :: lsp_env where
  "ex_env = \<lparr>WPUQuerySocketHandleContext = (\<lambda>tr. ex_handles), WPUCloseSocketHandle = (\<lambda>tr. None),
     WPUCreateSocketHandle = (\<lambda>tr. Inr 102), WPUCompleteOverlappedRequest = (\<lambda>tr v. v\<lparr>ov_Internal := 0\<rparr>),
     WPUFDIsSet = (\<lambda>h xs. h \<in> set xs), lower = (\<lambda>tr. ex_answer), lower_startup = (\<lambda>tr. (0, all_fns)),
     create_io_port = (\<lambda>tr. None), heap_alloc_ok = (\<lambda>tr. True), iocp_available = True, semaphore_available = True,
     processors = 1, create_thread_ok = (\<lambda>tr. True), IsWindow = (\<lambda>w. True), new_window = (\<lambda>tr. Some 1),
     wait_event = (\<lambda>tr. (True, ex_ov)), to_multibyte = (\<lambda>x. []), catalog = (\<lambda>tr. Inr [ex_info]),
     provider_path = (\<lambda>g. Some [0]), expand_path = Some, load_library = (\<lambda>l. True), has_startup = (\<lambda>l. True),
     create_heap_ok = True, tls_alloc_ok = True\<rparr>"

lemmas ex_defs = ex_state_def ex_env_def ex_handles_def ex_answer_def ex_ctx_def ex_layer_def zero_SOCK_INFO_def
  zero_PROVIDER_def enterable_def prov_def

lemma ex_found: "found ex_env (Some 100) 1 (ex_ctx 1) ex_state"
  by (simp add: found_def ex_defs)

lemma ex_prov [simp]: "prov ex_state 0 = Some ex_layer"
  by (simp add: ex_defs)

lemma ex_Provider [simp]: "si_Provider (ex_ctx k) = 0"
  by (simp add: ex_ctx_def zero_SOCK_INFO_def)

lemma ex_table [simp]: "NextProcTable ex_layer = all_fns"
  by (simp add: ex_layer_def)

lemma ex_list: "socket_list ex_state 0 [1, 2]"
  by (simp add: socket_list_def ex_defs)

lemma ex_open: "open_ctx ex_env (Some 100) 1 (ex_ctx 1) ex_state"
  by (simp add: open_ctx_def ex_defs)

lemma ex_can_enter [simp]: "can_enter ex_state l"
  by (simp add: ex_defs)

end
