(* ===== verification/LspProperties.thy ===== *)
theory LspProperties
  imports LspExample
begin

text \<open>
  The properties of the layered service provider, each applied to the small instance of
  \<open>LspExample\<close>.
\<close>

section \<open>The contexts of a provider\<close>





text \<open>
  \<open>GetCallerSocket\<close> without a provider is the first context, over the lists of all the providers in
  their order, whose socket below is the one looked for; with a provider it is the first of that
  provider's list.  The search always ends and changes nothing.
\<close>

theorem GetCallerSocket_is_find:
  assumes "can_enter s gCriticalSection" and "\<forall>i<gLayerCount s. socket_list s i (l i)" and "k < gLayerCount s"
  shows "GetCallerSocket None sock s =
      Some (find (has_provider_socket (infos s) sock) (concat (map l [0..<gLayerCount s])), s) \<and>
    GetCallerSocket (Some k) sock s = Some (find (has_provider_socket (infos s) sock) (l k), s)"
proof -
  have "socket_list s k (l k)" using assms(2,3) by simp
  then obtain q where q: "prov s k = Some q" "dll (infos s) None (SocketList q) (l k)"
    by (auto simp: socket_list_def split: option.splits)
  let ?s = "s\<lparr>llocks := held (llocks s) (lthread s) gCriticalSection\<rparr>"
  have "find_in_layers ?s sock [0..<gLayerCount s] =
      Some (find (has_provider_socket (infos ?s) sock) (concat (map l [0..<gLayerCount s])))"
    by (rule find_in_layers_find) (use assms(2) in simp)
  then show ?thesis
    using q find_provider_socket_find [OF q(2)] unfolding GetCallerSocket_def
    by (intro conjI; subst locked_unfold [OF assms(1)]) auto
qed

theorem GetCallerSocket_is_find_witness:
  "GetCallerSocket None (Some 202) ex_state = Some (Some 2, ex_state) \<and>
   GetCallerSocket (Some 0) (Some 999) ex_state = Some (None, ex_state)"
proof -
  have 1: "gLayerCount ex_state = 1" by (simp add: ex_state_def)
  have f: "has_provider_socket (infos ex_state) (Some k) x \<longleftrightarrow> x = 1 \<and> k = 201 \<or> x = 2 \<and> k = 202" for k x
    by (auto simp: has_provider_socket_def ex_defs)
  have l: "\<forall>i<gLayerCount ex_state. socket_list ex_state i [1, 2]" using ex_list 1 by (simp del: One_nat_def)
  have k: "0 < gLayerCount ex_state" by (simp add: 1)
  note g = GetCallerSocket_is_find [OF ex_can_enter l k]
  show ?thesis
    using g [of "Some 202"] g [of "Some 999"] by (simp add: f 1)
qed

text \<open>
  \<open>CloseAndFreeSocketInfo\<close>, which follows a linked list and frees it as it goes, always returns:
  it has set every socket of the provider to an abortive close, closed it below and closed its handle
  above, once each and in the order of the list, and freed exactly these contexts.
\<close>

theorem CloseAndFree_closes_all:
  assumes "socket_list s i xs" and "closable s i"
  shows "wp (CloseAndFreeSocketInfo env i s) (\<lambda>_. closed_all i xs s)"
proof -
  obtain q where q: "prov s i = Some q" "dll (infos s) None (SocketList q) xs" "distinct xs"
    using assms(1) by (auto simp: socket_list_def split: option.splits)
  have "wp (close_and_free env i (SocketList q) s) (\<lambda>_ t. closed_all i xs s (t\<lparr>lpErrno := lpErrno s\<rparr>))"
    by (rule wp_mono [OF close_and_free_wp [OF q(2,3) assms(2)]]) (simp add: closed_all_def)
  then show ?thesis using q(1) by (simp add: CloseAndFreeSocketInfo_def local_errno_def)
qed

theorem CloseAndFree_closes_all_witness:
  "wp (CloseAndFreeSocketInfo ex_env 0 ex_state) (\<lambda>_. closed_all 0 [1, 2] ex_state)"
  by (rule CloseAndFree_closes_all [OF ex_list]) (simp add: closable_def)

section \<open>The queue of pending operations\<close>

text \<open>
  C22. The pending operations are a first-in first-out queue: operations that are enqueued behind those
  that wait are dequeued behind them in the order they came, every dequeue returns, and then the
  queue is empty and answers so.
\<close>

theorem pending_operations_in_order:
  assumes "pending s xs" and "distinct (xs @ ys)" and "\<And>e. e \<in> set ys \<Longrightarrow> olps s e \<noteq> None"
  shows "wp (push_all EnqueueOverlappedOperation ys s) (\<lambda>_ t.
    wp (drain DequeueOverlappedOperation (length (xs @ ys)) t) (\<lambda>rs u. rs = map Some (xs @ ys) \<and>
      wp (DequeueOverlappedOperation u) (\<lambda>r v. r = None \<and> pending v [])))"
  by (rule pending_queue.in_order [OF assms])

definition ex_queue :: lsp where
  "ex_queue = ex_state\<lparr>olps := [10 \<mapsto> zero_olp, 11 \<mapsto> zero_olp, 12 \<mapsto> zero_olp], PendingStart := Some 10, PendingEnd := Some 10\<rparr>"

theorem pending_operations_in_order_witness:
  "wp (push_all EnqueueOverlappedOperation [12, 11] ex_queue) (\<lambda>_ t.
    wp (drain DequeueOverlappedOperation 3 t) (\<lambda>rs u. rs = [Some 10, Some 12, Some 11] \<and>
      wp (DequeueOverlappedOperation u) (\<lambda>r v. r = None \<and> pending v [])))"
proof -
  have q: "pending ex_queue [10]" by (simp add: pending_def ex_queue_def ex_defs zero_olp_def)
  have e: "\<And>e. e \<in> set [12, 11] \<Longrightarrow> olps ex_queue e \<noteq> None" by (auto simp: ex_queue_def)
  show ?thesis
    using pending_operations_in_order [where ys = "[12, 11]", OF q _ e] by (simp add: numeral_3_eq_3)
qed

section \<open>Transparent calls\<close>

text \<open>
  The eleven entry points that only translate the socket are transparent: on a live socket they
  make exactly one call to the provider below, with its socket and the caller's other arguments in
  their order, return what it returns, keep the error it stored, and change no context, no list, no
  structure and no lock.
\<close>

theorem transparent_calls:
  assumes "found env h p c s" and "live c" and "prov s (si_Provider c) = Some q" and "complete q"
  shows "WSPBind env h name len s = handed_down env lpWSPBind h c [Ptr name, Num len] s \<and>
    WSPConnect env h name len cd ce sq gq s =
      handed_down env lpWSPConnect h c [Ptr name, Num len, Ptr cd, Ptr ce, Ptr sq, Ptr gq] s \<and>
    WSPEnumNetworkEvents env h ev ne s = handed_down env lpWSPEnumNetworkEvents h c [ULong ev, Ptr ne] s \<and>
    WSPEventSelect env h ev nw s = handed_down env lpWSPEventSelect h c [ULong ev, Num nw] s \<and>
    WSPGetPeerName env h name nl s = handed_down env lpWSPGetPeerName h c [Ptr name, Ptr nl] s \<and>
    WSPGetSockName env h name nl s = handed_down env lpWSPGetSockName h c [Ptr name, Ptr nl] s \<and>
    WSPGetQOSByName env h qn qo s = handed_down env lpWSPGetQOSByName h c [Ptr qn, Ptr qo] s \<and>
    WSPListen env h backlog s = handed_down env lpWSPListen h c [Num backlog] s \<and>
    WSPRecvDisconnect env h b s = handed_down env lpWSPRecvDisconnect h c [Ptr b] s \<and>
    WSPSendDisconnect env h b s = handed_down env lpWSPSendDisconnect h c [Ptr b] s \<and>
    WSPShutdown env h how s = handed_down env lpWSPShutdown h c [Num how] s"
proof -
  have "pass_down env fn h args s = handed_down env fn h c args s" for fn args
    by (rule pass_down_eq [OF assms(1-3)]) (use assms(4) in \<open>simp add: complete_def\<close>)
  then show ?thesis
    by (simp add: WSPBind_def WSPConnect_def WSPEnumNetworkEvents_def WSPEventSelect_def WSPGetPeerName_def
        WSPGetSockName_def WSPGetQOSByName_def WSPListen_def WSPRecvDisconnect_def WSPSendDisconnect_def WSPShutdown_def)
qed

theorem transparent_calls_witness:
  "WSPListen ex_env (Some 100) 5 ex_state = handed_down ex_env lpWSPListen (Some 100) (ex_ctx 1) [Num 5] ex_state \<and>
   map_option fst (WSPListen ex_env (Some 100) 5 ex_state) = Some 0"
proof -
  have l: "live (ex_ctx 1)" by (simp add: live_def ex_defs)
  have q: "prov ex_state (si_Provider (ex_ctx 1)) = Some ex_layer" by simp
  have c: "complete ex_layer" by (simp add: complete_def ex_layer_def)
  have "WSPListen ex_env (Some 100) 5 ex_state = handed_down ex_env lpWSPListen (Some 100) (ex_ctx 1) [Num 5] ex_state"
    using transparent_calls [OF ex_found l q c] by blast
  then show ?thesis by (simp add: handed_down_def ex_env_def ex_answer_def Let_def)
qed

section \<open>Startup\<close>

text \<open>
  After a first \<open>WSPStartup\<close> that hands out the procedure table, no call through the table of a
  provider below meets a null entry: every provider the layer counts is there, its library loaded and
  its table complete, so that every one of the thirty functions can be called.
\<close>

theorem startup_tables_complete:
  assumes "gEntryCount s = 0" and "WSPStartup env info s = Some ((r, True), t)" and "i < gLayerCount t"
  shows "call_lower env i fn args t \<noteq> None"
proof -
  obtain q where "prov t i = Some q" "complete q"
    using wlpD [OF startup_complete_wlp assms(2)] assms(1,3) by auto
  then show ?thesis by (simp add: call_lower_def complete_def Let_def)
qed

definition ex_unstarted :: lsp where
  "ex_unstarted = ex_state\<lparr>infos := Map.empty, gBaseInfo := None, gLayerCount := 0, gEntryCount := 0, gLayerCatId := 0,
     hLspHeap := False, olps := Map.empty, FreePool := None, ghIocp := False\<rparr>"

definition ex_catalog :: "WSAPROTOCOL_INFOW list" where
  "ex_catalog = [zero_info\<lparr>ProviderId := ProviderGuid, dwCatalogEntryId := 1000\<rparr>,
     ex_info\<lparr>dwCatalogEntryId := 1002, ChainLen := 2, ChainEntries := [1000, 1001, 0, 0, 0, 0, 0]\<rparr>, ex_info]"

definition ex_start_env :: lsp_env where
  "ex_start_env = ex_env\<lparr>catalog := (\<lambda>tr. if length tr \<le> 1 then Inl WSAENOBUFS else Inr ex_catalog)\<rparr>"

definition ex_started :: lsp where
  "ex_started = snd (the (WSPStartup ex_start_env None ex_unstarted))"


lemma ex_started_eq: "WSPStartup ex_start_env None ex_unstarted = Some ((0, True), ex_started) \<and> gLayerCount ex_started = 1"
proof -
  have r: "map_option fst (WSPStartup ex_start_env None ex_unstarted) = Some (0, True)" by code_simp
  have n: "gLayerCount ex_started = 1" by code_simp
  from r obtain t where "WSPStartup ex_start_env None ex_unstarted = Some ((0, True), t)" by auto
  with n show ?thesis by (simp add: ex_started_def)
qed

theorem startup_tables_complete_witness:
  "call_lower ex_start_env 0 lpWSPGetQOSByName [Ptr None] ex_started \<noteq> None"
  by (rule startup_tables_complete [where s = ex_unstarted and env = ex_start_env and info = None and r = 0 and t = ex_started])
    (simp_all add: ex_started_eq, simp add: ex_unstarted_def)

text \<open>
  A first \<open>WSPStartup\<close> that fails, at whatever step, has counted itself: the next call succeeds
  and hands out the procedure table, although it loads nothing, so that the layer runs on the
  providers the failed call happened to load and without the threads of the overlapped manager.
\<close>

theorem failed_startup_is_counted:
  assumes "can_enter s gCriticalSection" and "WSPStartup env info s = Some ((r, False), t)"
  shows "\<exists>u. WSPStartup env info' t = Some ((0, True), u) \<and> gBaseInfo u = gBaseInfo t \<and>
    gLayerCount u = gLayerCount t \<and> gWorkerThread u = gWorkerThread s"
proof -
  from startup_failed [OF assms] have t: "gEntryCount t = 1" "can_enter t gCriticalSection" "gWorkerThread t = gWorkerThread s"
    by simp_all
  then show ?thesis by (simp add: WSPStartup_def Enter_eq Leave_eq [where ls = "llocks t"])
qed

definition ex_no_catalog :: lsp_env where
  "ex_no_catalog = ex_env\<lparr>catalog := (\<lambda>tr. Inl 10050)\<rparr>"

definition ex_failed :: lsp where
  "ex_failed = snd (the (WSPStartup ex_no_catalog None ex_unstarted))"

theorem failed_startup_is_counted_witness:
  "\<exists>u. WSPStartup ex_env None ex_failed = Some ((0, True), u) \<and> gBaseInfo u = None \<and> gLayerCount u = 0"
proof -
  have c: "can_enter ex_unstarted gCriticalSection" by (simp add: ex_unstarted_def ex_defs)
  have r: "map_option fst (WSPStartup ex_no_catalog None ex_unstarted) = Some (10106, False)" by code_simp
  then obtain t where t: "WSPStartup ex_no_catalog None ex_unstarted = Some ((10106, False), t)" by auto
  then have e: "ex_failed = t" by (simp add: ex_failed_def)
  have g: "gBaseInfo ex_failed = None" "gLayerCount ex_failed = 0" by code_simp+
  have "\<exists>u. WSPStartup ex_no_catalog None ex_failed = Some ((0, True), u) \<and> gBaseInfo u = gBaseInfo t \<and>
      gLayerCount u = gLayerCount t \<and> gWorkerThread u = gWorkerThread ex_unstarted"
    unfolding e by (rule failed_startup_is_counted [OF c t])
  moreover have "WSPStartup ex_env None ex_failed = WSPStartup ex_no_catalog None ex_failed"
    using startup_failed [OF c t] by (simp add: WSPStartup_def e Enter_eq)
  ultimately show ?thesis using g e by auto
qed

section \<open>The provider below of a new socket\<close>

text \<open>
  The provider below that \<open>WSPSocket\<close> hands a socket to is the first one that fits what the caller
  asks for: it has the socket type, the address family and protocol where these are not left open,
  and the service flags of the caller's entry (up to \<open>XP1_IFS_HANDLES\<close>), and no earlier one does.
\<close>

theorem socket_gets_first_match:
  assumes "choose_provider af type proto lpi s = Some (Inr (i, pInfo), t)"
    and "requested af type proto lpi s = (a, ty, pr)"
  shows "i < gLayerCount s \<and> matches (socket_match a ty pr) (map_option (m_info (mem s)) lpi) s i \<and>
    (\<forall>j. j < i \<longrightarrow> \<not> matches (socket_match a ty pr) (map_option (m_info (mem s)) lpi) s j)"
  using choose_provider_found [OF assms] by (auto simp: find_Some_iff)

definition ex_two_layers :: lsp where
  "ex_two_layers = ex_state\<lparr>gLayerCount := 2, gBaseInfo := Some
     [ex_layer\<lparr>NextProvider := ex_info\<lparr>iSocketType := 2, iProtocol := 17\<rparr>\<rparr>, ex_layer]\<rparr>"

theorem socket_gets_first_match_witness:
  "\<exists>t. choose_provider 2 1 6 None ex_two_layers = Some (Inr (1, InBase 1), t) \<and> 1 < gLayerCount ex_two_layers \<and>
     matches (socket_match 2 1 6) None ex_two_layers 1 \<and> \<not> matches (socket_match 2 1 6) None ex_two_layers 0"
proof -
  have "map_option fst (choose_provider 2 1 6 None ex_two_layers) = Some (Inr (1, InBase 1))" by code_simp
  then obtain t where t: "choose_provider 2 1 6 None ex_two_layers = Some (Inr (1, InBase 1), t)" by auto
  have "requested 2 1 6 None ex_two_layers = (2, 1, 6)" by (simp add: requested_def)
  from socket_gets_first_match [OF t this] t show ?thesis by auto
qed

section \<open>Closing\<close>





text \<open>
  C20. \<open>WSPCloseSocket\<close> of a socket with operations outstanding does not keep the application's handle
  open, as its comment says it does: the handle is closed and the context freed before it returns.
  With a Winsock that does not know a closed handle any more, the completion of such an operation
  then reaches nobody: the application's structure is not touched, no completion is reported, and
  \<open>WSPGetOverlappedResult\<close> keeps answering that the operation is incomplete.
\<close>

theorem close_loses_completions:
  assumes ok: "closing_ok env h p c xs s" and out: "si_dwOutstandingAsync c \<noteq> 0" and same: "si_LayeredSocket c = h"
    and below: "la_ret (lower env (close_below c # QueryContext h # ltrace s)) \<noteq> SOCKET_ERROR"
    and closed: "\<And>tr. CloseSocketHandle h \<in> set tr \<Longrightarrow> WPUQuerySocketHandleContext env tr h = Inl e"
    and op: "olps s ol = Some x" "olp_CallerSocket x = h"
    and prog: "ov_Internal (app_ov s a) = WSS_OPERATION_IN_PROGRESS" and lock: "can_enter s gOverlappedCS"
  shows "wp (WSPCloseSocket env h s) (\<lambda>r t. r = 0 \<and> infos t p = None \<and> CloseSocketHandle h \<in> set (ltrace t) \<and>
    wp (IntermediateCompletionRoutine env k n (Some ol) f t) (\<lambda>_ u. app_ov u = app_ov s \<and>
      ltrace u = QueryContext h # ltrace t \<and>
      WSPGetOverlappedResult env h a lpBytes False lpFlags u = Some (False, u\<lparr>lpErrno := WSA_IO_INCOMPLETE\<rparr>)))"
proof (rule wp_mono [OF close_outstanding [OF ok out below]], elim conjE)
  fix r :: int and t :: lsp
  assume r: "r = 0" and t: "freed p (si_Provider c) xs s t"
    and tr: "ltrace t = CloseSocketHandle (si_LayeredSocket c) # close_below c # QueryContext h # ltrace s"
  have f: "llocks t = (llocks s)(SockCritSec p := None)" "lthread t = lthread s" "olps t = olps s" "app_ov t = app_ov s"
    "infos t p = None"
    using t by (simp_all add: freed_def)
  have g: "can_enter t gCriticalSection" "can_enter t gOverlappedCS"
    using ok lock f by (simp_all add: closing_ok_def found_def enterable_def)
  have q: "WPUQuerySocketHandleContext env (ltrace t) (olp_CallerSocket x) = Inl e"
    unfolding op(2) by (rule closed) (simp add: tr same)
  have c: "IntermediateCompletionRoutine env k n (Some ol) f t = Some ((), t\<lparr>ltrace := QueryContext h # ltrace t,
    olps := (olps t)(ol \<mapsto> zero_olp\<lparr>olp_lpCallerThreadId := 0xbadbeef, olp_next := FreePool t\<rparr>), FreePool := Some ol\<rparr>)"
    using completion_lost [OF g _ q, where ol = ol and k = k and n = n and f = f] op f by simp
  show "r = 0 \<and> infos t p = None \<and> CloseSocketHandle h \<in> set (ltrace t) \<and>
    wp (IntermediateCompletionRoutine env k n (Some ol) f t) (\<lambda>_ u. app_ov u = app_ov s \<and>
      ltrace u = QueryContext h # ltrace t \<and>
      WSPGetOverlappedResult env h a lpBytes False lpFlags u = Some (False, u\<lparr>lpErrno := WSA_IO_INCOMPLETE\<rparr>))"
    using r f prog tr same by (simp add: c WSPGetOverlappedResult_def)
qed

definition ex_closing_env :: lsp_env where
  "ex_closing_env = ex_env\<lparr>WPUQuerySocketHandleContext :=
     (\<lambda>tr h. if CloseSocketHandle h \<in> set tr then Inl WSAENOTSOCK else ex_handles h)\<rparr>"

text \<open>A receive outstanding on the first socket.\<close>

definition ex_busy_ctx :: SOCK_INFO where
  "ex_busy_ctx = (ex_ctx 1)\<lparr>si_dwOutstandingAsync := 1\<rparr>"

definition ex_receive :: WSAOVERLAPPEDPLUS where
  "ex_receive = filled (Some 100) 1 (ex_ctx 1) 5 LSP_OP_RECV 0 0 (RecvArgs (AppBuf 1) 1 0 0) ex_state"

definition ex_busy :: lsp where
  "ex_busy = ex_state\<lparr>infos := [1 \<mapsto> ex_busy_ctx, 2 \<mapsto> ex_ctx 2], olps := [10 \<mapsto> zero_olp, 11 \<mapsto> ex_receive],
     app_ov := (\<lambda>_. ex_ov\<lparr>ov_Internal := WSS_OPERATION_IN_PROGRESS\<rparr>)\<rparr>"

lemma ex_busy_list: "socket_list ex_busy 0 [1, 2]"
  by (simp add: socket_list_def ex_busy_def ex_busy_ctx_def ex_defs)

lemma ex_busy_closing: "closing_ok ex_closing_env (Some 100) 1 ex_busy_ctx [1, 2] ex_busy"
  using ex_busy_list
  by (simp add: closing_ok_def found_def ex_busy_def ex_busy_ctx_def ex_closing_env_def)
    (simp add: ex_defs)

theorem close_loses_completions_witness:
  "wp (WSPCloseSocket ex_closing_env (Some 100) ex_busy) (\<lambda>r t. r = 0 \<and> infos t 1 = None \<and>
     CloseSocketHandle (Some 100) \<in> set (ltrace t) \<and>
     wp (IntermediateCompletionRoutine ex_closing_env WSA_IO_PENDING 0 (Some 11) 0 t) (\<lambda>_ u. app_ov u = app_ov ex_busy \<and>
       ltrace u = QueryContext (Some 100) # ltrace t \<and>
       WSPGetOverlappedResult ex_closing_env (Some 100) 5 (Some 1) False (Some 2) u = Some (False, u\<lparr>lpErrno := WSA_IO_INCOMPLETE\<rparr>)))"
  by (rule close_loses_completions [where x = ex_receive and e = WSAENOTSOCK, OF ex_busy_closing])
    (simp_all add: ex_busy_def ex_busy_ctx_def ex_closing_env_def ex_receive_def filled_def ex_defs)

section \<open>Overlapped operations\<close>

text \<open>
  C17. The completion of an overlapped operation and the question for its result fit together: when the
  provider below reports an operation on an open socket as ended, the application, which is told
  through Winsock, reads from \<open>WSPGetOverlappedResult\<close> the provider's byte count, flags and error,
  with success exactly where there was none; the operation is no longer counted as outstanding, the
  bytes of a successful one are, and the structure is the next one the pool hands out.
\<close>

theorem completion_reaches_application:
  assumes prog: "in_progress env ol x h p c a s" and routine: "olp_lpCallerCompletionRoutine x = 0"
    and res: "result_of (lower env (query_below ol x # QueryContext h # ltrace s)) k 0 = (e, n, f)"
    and told: "\<And>tr v. WPUCompleteOverlappedRequest env tr v = v\<lparr>ov_Internal := st tr\<rparr> \<and> st tr \<noteq> WSS_OPERATION_IN_PROGRESS"
    and ptrs: "lpBytes \<noteq> lpFlags"
  shows "wp (IntermediateCompletionRoutine env WSA_IO_PENDING k (Some ol) 0 s) (\<lambda>_ t.
    infos t = (infos s)(p \<mapsto> si_dwOutstandingAsync_update (\<lambda>m. m - 1) (if e = 0 then accounted x n c else c)) \<and>
    FreePool t = Some ol \<and> llocks t = llocks s \<and>
    wp (WSPGetOverlappedResult env h a (Some lpBytes) False (Some lpFlags) t) (\<lambda>r u.
      r = (e = 0) \<and> lpErrno u = e \<and> m_dword (mem u) lpBytes = n \<and> m_dword (mem u) lpFlags = f))"
proof (rule wp_mono [OF completion_wp [OF prog routine res]], elim conjE)
  fix b :: unit and t :: lsp
  assume t: "app_ov t a = WPUCompleteOverlappedRequest env (CompleteOverlapped h a e n # query_below ol x # QueryContext h # ltrace s)
      (store_result e n f (app_ov s a))"
    and f: "infos t = (infos s)(p \<mapsto> si_dwOutstandingAsync_update (\<lambda>m. m - 1) (if e = 0 then accounted x n c else c))"
      "FreePool t = Some ol" "llocks t = llocks s"
  have u: "(ucast (ucast n :: ulong_ptr) :: dword) = n" by transfer simp
  show "infos t = (infos s)(p \<mapsto> si_dwOutstandingAsync_update (\<lambda>m. m - 1) (if e = 0 then accounted x n c else c)) \<and>
    FreePool t = Some ol \<and> llocks t = llocks s \<and>
    wp (WSPGetOverlappedResult env h a (Some lpBytes) False (Some lpFlags) t) (\<lambda>r u.
      r = (e = 0) \<and> lpErrno u = e \<and> m_dword (mem u) lpBytes = n \<and> m_dword (mem u) lpFlags = f)"
    using f ptrs told by (simp add: WSPGetOverlappedResult_def overlapped_result_def t store_result_def u Let_def)
qed


lemma ex_busy_open: "open_ctx ex_env (Some 100) 1 ex_busy_ctx ex_busy"
  by (simp add: open_ctx_def ex_busy_def ex_busy_ctx_def ex_defs)

definition ex_done_env :: lsp_env where
  "ex_done_env = ex_env\<lparr>lower := (\<lambda>tr. ex_answer\<lparr>la_bytes := Some 12, la_flags := Some 3\<rparr>)\<rparr>"

theorem completion_reaches_application_witness:
  "wp (IntermediateCompletionRoutine ex_done_env WSA_IO_PENDING 0 (Some 11) 0 ex_busy) (\<lambda>_ t.
    infos t = (infos ex_busy)(1 \<mapsto> si_dwOutstandingAsync_update (\<lambda>m. m - 1) (accounted ex_receive 12 ex_busy_ctx)) \<and>
    FreePool t = Some 11 \<and> llocks t = llocks ex_busy \<and>
    wp (WSPGetOverlappedResult ex_done_env (Some 100) 5 (Some 1) False (Some 2) t) (\<lambda>r u.
      r = True \<and> lpErrno u = 0 \<and> m_dword (mem u) 1 = 12 \<and> m_dword (mem u) 2 = 3))"
proof -
  have p: "in_progress ex_done_env 11 ex_receive (Some 100) 1 ex_busy_ctx 5 ex_busy"
    using ex_busy_open
    by (simp add: in_progress_def open_ctx_def ex_done_env_def, simp add: ex_busy_def ex_receive_def filled_def
        one_socket_op_def ex_defs)
  have r: "olp_lpCallerCompletionRoutine ex_receive = 0" by (simp add: ex_receive_def filled_def)
  have l: "result_of (lower ex_done_env tr) 0 0 = (0, 12, 3)" for tr
    by (simp add: result_of_def ex_done_env_def ex_answer_def)
  have t: "WPUCompleteOverlappedRequest ex_done_env tr v = v\<lparr>ov_Internal := 0\<rparr> \<and> (0 :: ulong_ptr) \<noteq> WSS_OPERATION_IN_PROGRESS" for tr v
    by (simp add: ex_done_env_def ex_env_def)
  show ?thesis
    using completion_reaches_application [where st = "\<lambda>_. 0" and lpBytes = 1 and lpFlags = 2, OF p r l t] by simp
qed





section \<open>Select\<close>

text \<open>
  C19. \<open>WSPSelect\<close> on three sets of live sockets answers in the application's sockets: each set is left
  with exactly those of its sockets, in their order, whose socket below the provider reports in the
  corresponding set, when the provider returns how many that are; the return value is the provider's
  and no context or lock has changed.
\<close>

theorem select_answers_application_sockets:
  assumes fd: "\<And>h xs. WPUFDIsSet env h xs = (h \<in> set xs)"
    and sets: "sets_at s a b c hr hw he" and sel: "selectable env ctx (hr @ hw @ he) s"
    and ne: "hr @ hw @ he \<noteq> []" and k: "infos s (ctx (last (hr @ hw @ he))) = Some k"
    and q: "prov s (si_Provider k) = Some q" "complete q"
    and ans: "lower env (select_call ctx s (si_Provider k) nfds timeout hr hw he #
        rev (map QueryContext (hr @ hw @ he)) @ ltrace s) = ans"
    and res: "la_sets ans = (R, W, E)" "la_mem ans = id"
      "la_ret ans = int (length (ready ctx s hr R) + length (ready ctx s hw W) + length (ready ctx s he E))"
  shows "wp (WSPSelect env nfds (Some a) (Some b) (Some c) timeout s) (\<lambda>r t. r = la_ret ans \<and>
     m_fds (mem t) a = ready ctx s hr R \<and> m_fds (mem t) b = ready ctx s hw W \<and> m_fds (mem t) c = ready ctx s he E \<and>
     infos t = infos s \<and> llocks t = llocks s)"
  by (rule WSPSelect_eq [OF fd sets sel ne k q(1) _ ans res]) (use q(2) in \<open>simp add: complete_def\<close>)

definition ex_select_env :: lsp_env where
  "ex_select_env = ex_env\<lparr>lower := (\<lambda>tr. ex_answer\<lparr>la_ret := 2, la_sets := ([Some 202], [Some 202], [])\<rparr>)\<rparr>"

definition ex_select_ctx :: "handle \<Rightarrow> sid" where
  "ex_select_ctx h = (if h = Some 100 then 1 else 2)"

theorem select_answers_application_sockets_witness:
  "wp (WSPSelect ex_select_env 0 (Some 1) (Some 2) (Some 3) None ex_state) (\<lambda>r t. r = 2 \<and>
     m_fds (mem t) 1 = [Some 101] \<and> m_fds (mem t) 2 = [Some 101] \<and> m_fds (mem t) 3 = [] \<and>
     infos t = infos ex_state \<and> llocks t = llocks ex_state)"
proof -
  have 1: "WPUFDIsSet ex_select_env h xs = (h \<in> set xs)" for h xs by (simp add: ex_select_env_def ex_env_def)
  have 2: "sets_at ex_state 1 2 3 [Some 100, Some 101] [Some 101] []" by (simp add: sets_at_def ex_state_def ex_mem_def)
  have 3: "selectable ex_select_env ex_select_ctx ([Some 100, Some 101] @ [Some 101] @ []) ex_state"
    by (simp add: selectable_def ex_select_env_def ex_select_ctx_def) (simp add: ex_defs)
  have 4: "[Some 100, Some 101] @ [Some 101] @ [] \<noteq> []" by simp
  have 5: "infos ex_state (ex_select_ctx (last ([Some 100, Some 101] @ [Some 101] @ []))) = Some (ex_ctx 2)"
    by (simp add: ex_select_ctx_def ex_state_def)
  have 6: "prov ex_state (si_Provider (ex_ctx 2)) = Some ex_layer" by simp
  have 7: "complete ex_layer" by (simp add: complete_def ex_layer_def)
  have 8: "lower ex_select_env tr = ex_answer\<lparr>la_ret := 2, la_sets := ([Some 202], [Some 202], [])\<rparr>" for tr
    by (simp add: ex_select_env_def)
  have r: "ready ex_select_ctx ex_state [Some 100, Some 101] [Some 202] = [Some 101]"
    "ready ex_select_ctx ex_state [Some 101] [Some 202] = [Some 101]" "ready ex_select_ctx ex_state [] [] = []"
    by (simp_all add: ready_def below_socket_def ex_select_ctx_def ex_state_def ex_ctx_def)
  show ?thesis
    using select_answers_application_sockets [OF 1 2 3 4 5 6 7 8, of "[Some 202]" "[Some 202]" "[]"] r
    by (simp add: ex_answer_def)
qed

end
