(* ===== verification/NspMemory.thy ===== *)
theory NspMemory
  imports Win32
begin

text \<open>
  Memory as the name space provider sees it (\<open>network-programming-for-mswin-cdrom/chapter12/NSP\<close>):
  one flat array of bytes of a 32-bit process, where an address that is not part of an object has no
  byte.  Objects do not touch, so that a copy that runs past the end of one meets such an address;
  what it then does is not defined.  Integers and pointers are stored with the low byte first.
\<close>

type_synonym memory = "nat \<Rightarrow> byte option"

section \<open>Reading and writing\<close>

fun read_bytes :: "memory \<Rightarrow> nat \<Rightarrow> nat \<Rightarrow> byte list option" where
  "read_bytes m p 0 = Some []"
| "read_bytes m p (Suc n) = do { b \<leftarrow> m p; bs \<leftarrow> read_bytes m (Suc p) n; Some (b # bs) }"

fun write_bytes :: "memory \<Rightarrow> nat \<Rightarrow> byte list \<Rightarrow> memory option" where
  "write_bytes m p [] = Some m"
| "write_bytes m p (b # bs) = (if m p = None then None else write_bytes (m(p \<mapsto> b)) (Suc p) bs)"

text \<open>\<open>memcpy\<close>; with ranges that overlap it is not defined.\<close>

definition memcpy :: "memory \<Rightarrow> nat \<Rightarrow> nat \<Rightarrow> nat \<Rightarrow> memory option" where
  "memcpy m dst src n =
     (if n = 0 \<or> dst + n \<le> src \<or> src + n \<le> dst
      then do { bs \<leftarrow> read_bytes m src n; write_bytes m dst bs } else None)"

definition u32 :: "byte list \<Rightarrow> dword" where
  "u32 bs = of_nat (foldr (\<lambda>b n. unat b + 256 * n) bs 0)"

definition u32_bytes :: "dword \<Rightarrow> byte list" where
  "u32_bytes w = map (\<lambda>i. of_nat (unat w div 256 ^ i)) [0, 1, 2, 3]"

definition read_u32 :: "memory \<Rightarrow> nat \<Rightarrow> dword option" where
  "read_u32 m p = do { bs \<leftarrow> read_bytes m p 4; Some (u32 bs) }"

definition write_u32 :: "memory \<Rightarrow> nat \<Rightarrow> dword \<Rightarrow> memory option" where
  "write_u32 m p w = write_bytes m p (u32_bytes w)"

definition read_wchar :: "memory \<Rightarrow> nat \<Rightarrow> wchar option" where
  "read_wchar m p = do { bs \<leftarrow> read_bytes m p 2; Some (of_nat (unat (bs ! 0) + 256 * unat (bs ! 1))) }"

text \<open>A string with no terminator is read until the object that holds it ends.\<close>

partial_function (option) read_wstr :: "memory \<Rightarrow> nat \<Rightarrow> wchar list option" where
  "read_wstr m p = do {
     c \<leftarrow> read_wchar m p;
     if c = 0 then Some [] else do { cs \<leftarrow> read_wstr m (p + 2); Some (c # cs) } }"

declare read_wstr.simps [code]

definition lstrlenW :: "memory \<Rightarrow> nat \<Rightarrow> nat option" where
  "lstrlenW m p = map_option length (read_wstr m p)"

text \<open>The memory without the object at \<open>[p, p + n)\<close>.\<close>

definition without :: "memory \<Rightarrow> nat \<Rightarrow> nat \<Rightarrow> memory" where
  "without m p n = m |` (- {p..<p + n})"

section \<open>What reads and writes do\<close>

definition stored :: "memory \<Rightarrow> nat \<Rightarrow> byte list \<Rightarrow> memory" where
  "stored m p bs = (\<lambda>a. if p \<le> a \<and> a < p + length bs then Some (bs ! (a - p)) else m a)"

text \<open>All of \<open>[p, p + n)\<close> is part of objects.\<close>

definition allocated :: "memory \<Rightarrow> nat \<Rightarrow> nat \<Rightarrow> bool" where
  "allocated m p n \<longleftrightarrow> (\<forall>i<n. m (p + i) \<noteq> None)"

lemma read_bytes_Suc:
  "read_bytes m p (Suc n) = Some bs \<longleftrightarrow> (\<exists>b cs. bs = b # cs \<and> m p = Some b \<and> read_bytes m (Suc p) n = Some cs)"
  by (auto split: Option.bind_splits)

lemma read_bytes_iff: "read_bytes m p n = Some bs \<longleftrightarrow> length bs = n \<and> (\<forall>i<n. m (p + i) = Some (bs ! i))"
proof (induction n arbitrary: p bs)
  case 0
  then show ?case by auto
next
  case (Suc n)
  show ?case
  proof (cases bs)
    case Nil
    then show ?thesis unfolding read_bytes_Suc by simp
  next
    case (Cons b cs)
    have "(\<forall>i<Suc n. m (p + i) = Some ((b # cs) ! i)) \<longleftrightarrow> m p = Some b \<and> (\<forall>i<n. m (Suc p + i) = Some (cs ! i))"
      unfolding All_less_Suc2 by simp
    then show ?thesis unfolding read_bytes_Suc Cons Suc.IH by auto
  qed
qed

lemma read_bytes_None: "read_bytes m p n = None \<longleftrightarrow> \<not> allocated m p n"
proof (induction n arbitrary: p)
  case 0
  then show ?case by (simp add: allocated_def)
next
  case (Suc n)
  have "allocated m p (Suc n) \<longleftrightarrow> m p \<noteq> None \<and> allocated m (Suc p) n"
    unfolding allocated_def All_less_Suc2 by simp
  then show ?case using Suc.IH [of "Suc p"] by (auto split: Option.bind_splits)
qed

lemma write_bytes_eq: "write_bytes m p bs = (if allocated m p (length bs) then Some (stored m p bs) else None)"
proof (induction bs arbitrary: m p)
  case Nil
  have "stored m p [] = m" by (rule ext) (auto simp: stored_def)
  then show ?case by (simp add: allocated_def)
next
  case (Cons b bs)
  have a: "allocated m p (length (b # bs)) \<longleftrightarrow> m p \<noteq> None \<and> allocated m (Suc p) (length bs)"
    unfolding allocated_def length_Cons All_less_Suc2 by simp
  have "allocated (m(p \<mapsto> b)) (Suc p) (length bs) = allocated m (Suc p) (length bs)"
    by (simp add: allocated_def)
  moreover have "stored (m(p \<mapsto> b)) (Suc p) bs = stored m p (b # bs)"
    by (auto simp: stored_def fun_eq_iff nth_Cons' Suc_diff_le)
  ultimately show ?case unfolding write_bytes.simps Cons.IH a by (auto simp del: fun_upd_apply)
qed

lemma allocated_stored [simp]: "allocated m p n \<Longrightarrow> allocated (stored m q bs) p n"
  by (auto simp: allocated_def stored_def)

lemma allocated_sub: "allocated m p n \<Longrightarrow> p \<le> q \<Longrightarrow> q + k \<le> p + n \<Longrightarrow> allocated m q k"
  unfolding allocated_def
proof (intro allI impI)
  fix i assume a: "\<forall>i<n. m (p + i) \<noteq> None" "p \<le> q" "q + k \<le> p + n" "i < k"
  then have "q + i - p < n" "p + (q + i - p) = q + i" by auto
  with a(1) show "m (q + i) \<noteq> None" by metis
qed

lemma dom_stored:
  assumes "allocated m p (length bs)"
  shows "dom (stored m p bs) = dom m"
proof (rule set_eqI)
  fix a
  show "a \<in> dom (stored m p bs) \<longleftrightarrow> a \<in> dom m"
  proof (cases "p \<le> a \<and> a < p + length bs")
    case True
    then have "p + (a - p) = a" "a - p < length bs" by auto
    then have "m a \<noteq> None" using assms unfolding allocated_def by metis
    then show ?thesis using True by (auto simp: stored_def)
  qed (auto simp: stored_def domIff)
qed

lemma stored_Nil [simp]: "stored m p [] = m"
  by (rule ext) (auto simp: stored_def)

lemma stored_append: "stored (stored m p bs) (p + length bs) cs = stored m p (bs @ cs)"
  by (auto simp: stored_def fun_eq_iff nth_append)

lemma read_stored: "read_bytes (stored m p bs) p (length bs) = Some bs"
  by (simp add: read_bytes_iff stored_def)

lemma read_stored_within:
  "off + n \<le> length bs \<Longrightarrow> read_bytes (stored m p bs) (p + off) n = Some (take n (drop off bs))"
  by (simp add: read_bytes_iff stored_def)

text \<open>\<open>same m m' p n\<close>: the two memories agree on \<open>[p, p + n)\<close>.\<close>

definition same :: "memory \<Rightarrow> memory \<Rightarrow> nat \<Rightarrow> nat \<Rightarrow> bool" where
  "same m m' p n \<longleftrightarrow> (\<forall>i<n. m' (p + i) = m (p + i))"

lemma same_stored: "p + n \<le> q \<or> q + length bs \<le> p \<Longrightarrow> same m (stored m q bs) p n"
  by (auto simp: same_def stored_def)

lemma read_bytes_cong: "same m m' p n \<Longrightarrow> read_bytes m' p n = read_bytes m p n"
  by (induction n arbitrary: p) (simp_all add: same_def All_less_Suc2 cong: Option.bind_cong)

lemma memcpy_eq:
  assumes "read_bytes m src n = Some bs" and "n = 0 \<or> dst + n \<le> src \<or> src + n \<le> dst"
  shows "memcpy m dst src n = (if allocated m dst n then Some (stored m dst bs) else None)"
proof -
  have "length bs = n" using assms(1) by (simp add: read_bytes_iff)
  with assms show ?thesis by (simp add: memcpy_def write_bytes_eq)
qed

section \<open>Integers\<close>

lemma length_u32_bytes [simp]: "length (u32_bytes w) = 4"
  by (simp add: u32_bytes_def)

lemma four_digits:
  assumes "(n :: nat) < 256 ^ 4"
  shows "n mod 256 + 256 * (n div 256 mod 256 + 256 * (n div 256 ^ 2 mod 256 + 256 * (n div 256 ^ 3 mod 256))) = n"
proof -
  define a b c where "a = n div 256" and "b = a div 256" and "c = b div 256"
  have "n div 256 ^ 2 = b" "n div 256 ^ 3 = c"
    by (simp_all add: a_def b_def c_def div_mult2_eq [symmetric])
  moreover have "c < 256" using assms by (simp add: a_def b_def c_def div_mult2_eq [symmetric] div_less_iff_less_mult)
  ultimately show ?thesis
    using mod_mult_div_eq [of n 256] mod_mult_div_eq [of a 256] mod_mult_div_eq [of b 256]
    unfolding a_def [symmetric] b_def [symmetric] c_def [symmetric] by simp
qed

lemma u32_u32_bytes [simp]: "u32 (u32_bytes w) = w"
proof -
  have "unat w < 256 ^ 4" using unsigned_less [of w] by simp
  note d = four_digits [OF this]
  have b: "unat (of_nat k :: byte) = k mod 256" for k by (simp add: unat_of_nat)
  have "foldr (\<lambda>b n. unat b + 256 * n) (u32_bytes w) 0 = unat w mod 256 + 256 * (unat w div 256 mod 256 +
      256 * (unat w div 256 ^ 2 mod 256 + 256 * (unat w div 256 ^ 3 mod 256)))"
    by (simp only: u32_bytes_def list.map foldr.simps comp_apply id_apply b) simp
  then show ?thesis unfolding d by (simp add: u32_def)
qed

lemma read_u32_iff: "read_u32 m p = Some w \<longleftrightarrow> (\<exists>bs. read_bytes m p 4 = Some bs \<and> w = u32 bs)"
  by (auto simp: read_u32_def split: Option.bind_splits)

lemma read_u32_cong: "same m m' p 4 \<Longrightarrow> read_u32 m' p = read_u32 m p"
  by (simp add: read_u32_def read_bytes_cong)

lemma read_u32_stored [simp]: "read_u32 (stored m p (u32_bytes w)) p = Some w"
  using read_stored [of m p "u32_bytes w"] by (simp add: read_u32_def)

lemma write_u32_eq: "write_u32 m p w = (if allocated m p 4 then Some (stored m p (u32_bytes w)) else None)"
  by (simp add: write_u32_def write_bytes_eq)

lemma sint_small: "n < 2 ^ 31 \<Longrightarrow> sint (of_nat n :: dword) = int n"
  unfolding sint_uint
  by (simp add: unsigned_of_nat take_bit_nat_eq_self, rule signed_take_bit_int_eq_self) simp_all

lemma positive_int: "0 < n \<Longrightarrow> n < 2 ^ 31 \<Longrightarrow> 0 <s (of_nat n :: dword)"
  unfolding word_sless_alt sint_small by simp

section \<open>Strings\<close>

lemma read_wstr_Some:
  "read_wstr m p = Some cs \<longleftrightarrow>
     (case cs of [] \<Rightarrow> read_wchar m p = Some 0
      | c # ds \<Rightarrow> read_wchar m p = Some c \<and> c \<noteq> 0 \<and> read_wstr m (p + 2) = Some ds)"
  by (subst read_wstr.simps) (auto split: Option.bind_splits list.splits if_splits)

text \<open>The string and its terminator: what it reads depends on these bytes only, wherever they are.\<close>

lemma read_wstr_move:
  assumes "read_wstr m p = Some cs" and "\<And>i. i < 2 * length cs + 2 \<Longrightarrow> m' (q + i) = m (p + i)"
  shows "read_wstr m' q = Some cs"
  using assms
proof (induction cs arbitrary: p q)
  case Nil
  have "read_bytes m' q 2 = read_bytes m p 2"
    using Nil.prems(2) [of 0] Nil.prems(2) [of 1] by (simp add: numeral_2_eq_2)
  with Nil.prems(1) show ?case by (simp add: read_wstr_Some [of _ _ "[]"] read_wchar_def)
next
  case (Cons c cs)
  have "read_bytes m' q 2 = read_bytes m p 2"
    using Cons.prems(2) [of 0] Cons.prems(2) [of 1] by (simp add: numeral_2_eq_2)
  moreover have "read_wstr m' (q + 2) = Some cs"
  proof (rule Cons.IH)
    show "read_wstr m (p + 2) = Some cs" using Cons.prems(1) by (simp add: read_wstr_Some [of _ _ "c # cs"])
    show "m' (q + 2 + i) = m (p + 2 + i)" if "i < 2 * length cs + 2" for i
      using Cons.prems(2) [of "2 + i"] that by (simp add: add.assoc)
  qed
  ultimately show ?case using Cons.prems(1) by (simp add: read_wstr_Some [of _ _ "c # cs"] read_wchar_def)
qed

lemma read_wchar_allocated: "read_wchar m p = Some c \<Longrightarrow> allocated m p 2"
  by (auto simp: read_wchar_def allocated_def read_bytes_iff split: Option.bind_splits)

lemma read_wstr_allocated: "read_wstr m p = Some cs \<Longrightarrow> allocated m p (2 * length cs + 2)"
proof (induction cs arbitrary: p)
  case Nil
  then have "read_wchar m p = Some 0" by (simp add: read_wstr_Some [of _ _ "[]"])
  from read_wchar_allocated [OF this] show ?case by (simp add: numeral_2_eq_2)
next
  case (Cons c cs)
  then have a: "allocated m p 2" "allocated m (p + 2) (2 * length cs + 2)"
    using read_wchar_allocated by (simp_all add: read_wstr_Some [of _ _ "c # cs"])
  show ?case unfolding allocated_def
  proof (intro allI impI)
    fix i assume i: "i < 2 * length (c # cs) + 2"
    show "m (p + i) \<noteq> None"
    proof (cases "i < 2")
      case False
      then have "i - 2 < 2 * length cs + 2" "p + 2 + (i - 2) = p + i" using i by auto
      then show ?thesis using a(2) unfolding allocated_def by metis
    qed (use a(1) in \<open>simp add: allocated_def\<close>)
  qed
qed

end
