(* ===== verification/NspMarshal.thy ===== *)
theory NspMarshal
  imports NspMemory
begin

text \<open>
  Marshalling (\<open>nspsvc.cpp\<close>): a structure and what its pointers refer to are copied into one buffer,
  and on the other side of the connection into one block, in which the pointers are made to point.
  The layouts are those of \<open>winsock2.h\<close> for a 32-bit process.  Sizes are \<open>unsigned int\<close> and wrap.
\<close>

section \<open>Layouts\<close>

definition sizeof_GUID :: dword where "sizeof_GUID = 16"
definition sizeof_WSAVERSION :: dword where "sizeof_WSAVERSION = 8"
definition sizeof_WSANSCLASSINFOW :: dword where "sizeof_WSANSCLASSINFOW = 20"
definition sizeof_AFPROTOCOLS :: dword where "sizeof_AFPROTOCOLS = 8"
definition sizeof_CSADDR_INFO :: dword where "sizeof_CSADDR_INFO = 24"

text \<open>\<open>WSASERVICECLASSINFOW\<close>\<close>

definition sizeof_SERVICECLASSINFO :: nat where "sizeof_SERVICECLASSINFO = 16"
definition lpServiceClassId :: nat where "lpServiceClassId = 0"
definition lpszServiceClassName :: nat where "lpszServiceClassName = 4"
definition dwCount :: nat where "dwCount = 8"
definition lpClassInfos :: nat where "lpClassInfos = 12"

text \<open>\<open>WSAQUERYSETW\<close>\<close>

definition sizeof_QUERYSET :: nat where "sizeof_QUERYSET = 60"
definition qs_dwSize :: nat where "qs_dwSize = 0"
definition qs_lpszServiceInstanceName :: nat where "qs_lpszServiceInstanceName = 4"
definition qs_lpServiceClassId :: nat where "qs_lpServiceClassId = 8"
definition qs_lpVersion :: nat where "qs_lpVersion = 12"
definition qs_lpszComment :: nat where "qs_lpszComment = 16"
definition qs_dwNameSpace :: nat where "qs_dwNameSpace = 20"
definition qs_lpNSProviderId :: nat where "qs_lpNSProviderId = 24"
definition qs_lpszContext :: nat where "qs_lpszContext = 28"
definition qs_dwNumberOfProtocols :: nat where "qs_dwNumberOfProtocols = 32"
definition qs_lpafpProtocols :: nat where "qs_lpafpProtocols = 36"
definition qs_lpszQueryString :: nat where "qs_lpszQueryString = 40"
definition qs_dwNumberOfCsAddrs :: nat where "qs_dwNumberOfCsAddrs = 44"
definition qs_lpcsaBuffer :: nat where "qs_lpcsaBuffer = 48"
definition qs_dwOutputFlags :: nat where "qs_dwOutputFlags = 52"

lemmas layout =
  sizeof_GUID_def sizeof_WSAVERSION_def sizeof_WSANSCLASSINFOW_def sizeof_AFPROTOCOLS_def sizeof_CSADDR_INFO_def
  sizeof_SERVICECLASSINFO_def lpServiceClassId_def lpszServiceClassName_def dwCount_def lpClassInfos_def
  sizeof_QUERYSET_def qs_dwSize_def qs_lpszServiceInstanceName_def qs_lpServiceClassId_def qs_lpVersion_def
  qs_lpszComment_def qs_dwNameSpace_def qs_lpNSProviderId_def qs_lpszContext_def qs_dwNumberOfProtocols_def
  qs_lpafpProtocols_def qs_lpszQueryString_def qs_dwNumberOfCsAddrs_def qs_lpcsaBuffer_def qs_dwOutputFlags_def

section \<open>One member\<close>

text \<open>
  What a member refers to, by its size: a string with its terminator, an object of one size, or an
  array whose length is another member of the structure.
\<close>

type_synonym extent = "memory \<Rightarrow> nat \<Rightarrow> nat \<Rightarrow> dword option"

definition of_wstr :: extent where
  "of_wstr m obj p = do { n \<leftarrow> lstrlenW m p; Some ((of_nat n + 1) * 2) }"

definition of_size :: "dword \<Rightarrow> extent" where
  "of_size k m obj p = Some k"

definition of_array :: "dword \<Rightarrow> nat \<Rightarrow> extent" where
  "of_array k cnt m obj p = do { n \<leftarrow> read_u32 m (obj + cnt); Some (k * n) }"

text \<open>\<open>if (obj->member) { memcpy(ptr, obj->member, sz); ptr += sz; totalsz += sz; }\<close>\<close>

definition put_field :: "extent \<Rightarrow> nat \<Rightarrow> nat \<Rightarrow> nat \<times> dword \<times> memory \<Rightarrow> (nat \<times> dword \<times> memory) option" where
  "put_field ext obj off = (\<lambda>(ptr, totalsz, m). do {
     p \<leftarrow> read_u32 m (obj + off);
     if p = 0 then Some (ptr, totalsz, m)
     else do {
       sz \<leftarrow> ext m obj (unat p);
       m \<leftarrow> memcpy m ptr (unat p) (unat sz);
       Some (ptr + unat sz, totalsz + sz, m) } })"

text \<open>
  \<open>if (obj->member) { memcpy(ptrdest, ptr, sz); obj->member = ptrdest; ptr += sz; ptrdest += sz; }\<close>;
  the length of a string is that of the one at \<open>ptr\<close>.
\<close>

definition get_field :: "extent \<Rightarrow> nat \<Rightarrow> nat \<Rightarrow> nat \<times> nat \<times> memory \<Rightarrow> (nat \<times> nat \<times> memory) option" where
  "get_field ext obj off = (\<lambda>(ptr, ptrdest, m). do {
     p \<leftarrow> read_u32 m (obj + off);
     if p = 0 then Some (ptr, ptrdest, m)
     else do {
       sz \<leftarrow> ext m obj ptr;
       m \<leftarrow> memcpy m ptrdest ptr (unat sz);
       m \<leftarrow> write_u32 m (obj + off) (of_nat ptrdest);
       Some (ptr + unat sz, ptrdest + unat sz, m) } })"

section \<open>Service classes\<close>

definition MarshallServiceClassInfo :: "memory \<Rightarrow> nat \<Rightarrow> nat \<Rightarrow> (dword \<times> memory) option" where
  "MarshallServiceClassInfo m sc buf = do {
     m \<leftarrow> memcpy m buf sc sizeof_SERVICECLASSINFO;
     let c = (buf + sizeof_SERVICECLASSINFO, of_nat sizeof_SERVICECLASSINFO, m);
     c \<leftarrow> put_field (of_size sizeof_GUID) sc lpServiceClassId c;
     c \<leftarrow> put_field of_wstr sc lpszServiceClassName c;
     (ptr, totalsz, m) \<leftarrow> put_field (of_array sizeof_WSANSCLASSINFOW dwCount) sc lpClassInfos c;
     Some (totalsz, m) }"

definition DeMarshallServiceClassInfo :: "memory \<Rightarrow> nat \<Rightarrow> nat \<Rightarrow> memory option" where
  "DeMarshallServiceClassInfo m sc buf = do {
     m \<leftarrow> memcpy m sc buf sizeof_SERVICECLASSINFO;
     let c = (buf + sizeof_SERVICECLASSINFO, sc + sizeof_SERVICECLASSINFO, m);
     c \<leftarrow> get_field (of_size sizeof_GUID) sc lpServiceClassId c;
     c \<leftarrow> get_field of_wstr sc lpszServiceClassName c;
     (ptr, ptrdest, m) \<leftarrow> get_field (of_array sizeof_WSANSCLASSINFOW dwCount) sc lpClassInfos c;
     Some m }"

section \<open>Services\<close>

text \<open>The \<open>SOCKET_ADDRESS\<close> at \<open>w\<close>: the pointer, then the length; the pointer is not tested.\<close>

definition put_addr :: "nat \<Rightarrow> nat \<times> dword \<times> memory \<Rightarrow> (nat \<times> dword \<times> memory) option" where
  "put_addr w = (\<lambda>(ptr, totalsz, m). do {
     sz \<leftarrow> read_u32 m (w + 4);
     a \<leftarrow> read_u32 m w;
     m \<leftarrow> memcpy m ptr (unat a) (unat sz);
     Some (ptr + unat sz, totalsz + sz, m) })"

definition get_addr :: "nat \<Rightarrow> nat \<times> nat \<times> memory \<Rightarrow> (nat \<times> nat \<times> memory) option" where
  "get_addr w = (\<lambda>(ptr, ptrdest, m). do {
     sz \<leftarrow> read_u32 m (w + 4);
     m \<leftarrow> memcpy m ptrdest ptr (unat sz);
     m \<leftarrow> write_u32 m w (of_nat ptrdest);
     Some (ptr + unat sz, ptrdest + unat sz, m) })"

text \<open>The loops over \<open>lpcsaBuffer\<close>, which start at \<open>i\<close>: \<open>LocalAddr\<close> is at 0, \<open>RemoteAddr\<close> at 8.\<close>

fun put_addrs :: "nat \<Rightarrow> nat list \<Rightarrow> nat \<times> dword \<times> memory \<Rightarrow> (nat \<times> dword \<times> memory) option" where
  "put_addrs p [] c = Some c"
| "put_addrs p (i # is) c = do {
     c \<leftarrow> put_addr (p + 24 * i) c;
     c \<leftarrow> put_addr (p + 24 * i + 8) c;
     put_addrs p is c }"

fun get_addrs :: "nat \<Rightarrow> nat list \<Rightarrow> nat \<times> nat \<times> memory \<Rightarrow> (nat \<times> nat \<times> memory) option" where
  "get_addrs p [] c = Some c"
| "get_addrs p (i # is) c = do {
     c \<leftarrow> get_addr (p + 24 * i) c;
     c \<leftarrow> get_addr (p + 24 * i + 8) c;
     get_addrs p is c }"

definition put_csaddrs :: "nat \<Rightarrow> nat \<times> dword \<times> memory \<Rightarrow> (nat \<times> dword \<times> memory) option" where
  "put_csaddrs qs = (\<lambda>c. do {
     p \<leftarrow> read_u32 (snd (snd c)) (qs + qs_lpcsaBuffer);
     c \<leftarrow> put_field (of_array sizeof_CSADDR_INFO qs_dwNumberOfCsAddrs) qs qs_lpcsaBuffer c;
     n \<leftarrow> read_u32 (snd (snd c)) (qs + qs_dwNumberOfCsAddrs);
     if p = 0 then Some c else put_addrs (unat p) [0..<unat n] c })"

definition get_csaddrs :: "nat \<Rightarrow> nat \<times> nat \<times> memory \<Rightarrow> (nat \<times> nat \<times> memory) option" where
  "get_csaddrs qs = (\<lambda>c. do {
     p \<leftarrow> read_u32 (snd (snd c)) (qs + qs_lpcsaBuffer);
     c \<leftarrow> get_field (of_array sizeof_CSADDR_INFO qs_dwNumberOfCsAddrs) qs qs_lpcsaBuffer c;
     n \<leftarrow> read_u32 (snd (snd c)) (qs + qs_dwNumberOfCsAddrs);
     q \<leftarrow> read_u32 (snd (snd c)) (qs + qs_lpcsaBuffer);
     if p = 0 then Some c else get_addrs (unat q) [0..<unat n] c })"

definition MarshallServiceInfo :: "memory \<Rightarrow> nat \<Rightarrow> nat \<Rightarrow> (dword \<times> memory) option" where
  "MarshallServiceInfo m qs buf = do {
     m \<leftarrow> memcpy m buf qs sizeof_QUERYSET;
     let c = (buf + sizeof_QUERYSET, of_nat sizeof_QUERYSET, m);
     c \<leftarrow> put_field of_wstr qs qs_lpszServiceInstanceName c;
     c \<leftarrow> put_field (of_size sizeof_GUID) qs qs_lpServiceClassId c;
     c \<leftarrow> put_field (of_size sizeof_WSAVERSION) qs qs_lpVersion c;
     c \<leftarrow> put_field of_wstr qs qs_lpszComment c;
     c \<leftarrow> put_field (of_size sizeof_GUID) qs qs_lpNSProviderId c;
     c \<leftarrow> put_field of_wstr qs qs_lpszContext c;
     c \<leftarrow> put_field (of_array sizeof_AFPROTOCOLS qs_dwNumberOfProtocols) qs qs_lpafpProtocols c;
     c \<leftarrow> put_field of_wstr qs qs_lpszQueryString c;
     (ptr, totalsz, m) \<leftarrow> put_csaddrs qs c;
     Some (totalsz, m) }"

definition DeMarshallServiceInfo :: "memory \<Rightarrow> nat \<Rightarrow> nat \<Rightarrow> memory option" where
  "DeMarshallServiceInfo m qs buf = do {
     m \<leftarrow> memcpy m qs buf sizeof_QUERYSET;
     let c = (buf + sizeof_QUERYSET, qs + sizeof_QUERYSET, m);
     c \<leftarrow> get_field of_wstr qs qs_lpszServiceInstanceName c;
     c \<leftarrow> get_field (of_size sizeof_GUID) qs qs_lpServiceClassId c;
     c \<leftarrow> get_field (of_size sizeof_WSAVERSION) qs qs_lpVersion c;
     c \<leftarrow> get_field of_wstr qs qs_lpszComment c;
     c \<leftarrow> get_field (of_size sizeof_GUID) qs qs_lpNSProviderId c;
     c \<leftarrow> get_field of_wstr qs qs_lpszContext c;
     c \<leftarrow> get_field (of_array sizeof_AFPROTOCOLS qs_dwNumberOfProtocols) qs qs_lpafpProtocols c;
     c \<leftarrow> get_field of_wstr qs qs_lpszQueryString c;
     (ptr, ptrdest, m) \<leftarrow> get_csaddrs qs c;
     Some m }"

section \<open>What a structure says\<close>

text \<open>
  The value of a structure, independent of where it lies: \<open>None\<close> where it is not well formed.  A
  member is null or the bytes it refers to; \<open>lpBlob\<close>, which is not marshalled, is not looked at, and
  the pointers inside \<open>WSANSCLASSINFOW\<close> entries are plain bytes.
\<close>

type_synonym field = "byte list option"

definition field_value :: "extent \<Rightarrow> nat \<Rightarrow> nat \<Rightarrow> memory \<Rightarrow> field option" where
  "field_value ext obj off m = do {
     p \<leftarrow> read_u32 m (obj + off);
     if p = 0 then Some None
     else do {
       sz \<leftarrow> ext m obj (unat p);
       bs \<leftarrow> read_bytes m (unat p) (unat sz);
       Some (Some bs) } }"

fun field_values :: "(nat \<times> extent) list \<Rightarrow> nat \<Rightarrow> memory \<Rightarrow> field list option" where
  "field_values [] obj m = Some []"
| "field_values ((off, ext) # fs) obj m = do {
     v \<leftarrow> field_value ext obj off m;
     vs \<leftarrow> field_values fs obj m;
     Some (v # vs) }"

fun words_at :: "nat list \<Rightarrow> nat \<Rightarrow> memory \<Rightarrow> dword list option" where
  "words_at [] obj m = Some []"
| "words_at (off # offs) obj m = do {
     w \<leftarrow> read_u32 m (obj + off);
     ws \<leftarrow> words_at offs obj m;
     Some (w # ws) }"

definition class_fields :: "(nat \<times> extent) list" where
  "class_fields =
     [(lpServiceClassId, of_size sizeof_GUID), (lpszServiceClassName, of_wstr),
      (lpClassInfos, of_array sizeof_WSANSCLASSINFOW dwCount)]"

definition class_value :: "memory \<Rightarrow> nat \<Rightarrow> (dword list \<times> field list) option" where
  "class_value m sc = do {
     _ \<leftarrow> read_bytes m sc sizeof_SERVICECLASSINFO;
     ws \<leftarrow> words_at [dwCount] sc m;
     fs \<leftarrow> field_values class_fields sc m;
     Some (ws, fs) }"

definition query_fields :: "(nat \<times> extent) list" where
  "query_fields =
     [(qs_lpszServiceInstanceName, of_wstr), (qs_lpServiceClassId, of_size sizeof_GUID),
      (qs_lpVersion, of_size sizeof_WSAVERSION), (qs_lpszComment, of_wstr),
      (qs_lpNSProviderId, of_size sizeof_GUID), (qs_lpszContext, of_wstr),
      (qs_lpafpProtocols, of_array sizeof_AFPROTOCOLS qs_dwNumberOfProtocols), (qs_lpszQueryString, of_wstr)]"

definition query_words :: "nat list" where
  "query_words = [qs_dwSize, qs_dwNameSpace, qs_dwNumberOfProtocols, qs_dwNumberOfCsAddrs, qs_dwOutputFlags]"

text \<open>An entry of \<open>lpcsaBuffer\<close>: its two addresses, and its socket type and protocol.\<close>

type_synonym csaddr = "byte list \<times> byte list \<times> byte list"

definition addr_value :: "memory \<Rightarrow> nat \<Rightarrow> byte list option" where
  "addr_value m w = do {
     sz \<leftarrow> read_u32 m (w + 4);
     a \<leftarrow> read_u32 m w;
     read_bytes m (unat a) (unat sz) }"

fun addr_values :: "memory \<Rightarrow> nat \<Rightarrow> nat list \<Rightarrow> csaddr list option" where
  "addr_values m p [] = Some []"
| "addr_values m p (i # is) = do {
     l \<leftarrow> addr_value m (p + 24 * i);
     r \<leftarrow> addr_value m (p + 24 * i + 8);
     x \<leftarrow> read_bytes m (p + 24 * i + 16) 8;
     vs \<leftarrow> addr_values m p is;
     Some ((l, r, x) # vs) }"

definition csaddrs_value :: "memory \<Rightarrow> nat \<Rightarrow> csaddr list option option" where
  "csaddrs_value m qs = do {
     p \<leftarrow> read_u32 m (qs + qs_lpcsaBuffer);
     if p = 0 then Some None
     else do {
       n \<leftarrow> read_u32 m (qs + qs_dwNumberOfCsAddrs);
       if 24 * unat n < 2 ^ 32 then do { vs \<leftarrow> addr_values m (unat p) [0..<unat n]; Some (Some vs) } else None } }"

type_synonym query = "dword list \<times> field list \<times> csaddr list option"

definition query_value :: "memory \<Rightarrow> nat \<Rightarrow> query option" where
  "query_value m qs = do {
     _ \<leftarrow> read_bytes m qs sizeof_QUERYSET;
     ws \<leftarrow> words_at query_words qs m;
     fs \<leftarrow> field_values query_fields qs m;
     as \<leftarrow> csaddrs_value m qs;
     Some (ws, fs, as) }"

text \<open>How many bytes the marshalled form takes.\<close>

definition field_bytes :: "field list \<Rightarrow> byte list" where
  "field_bytes vs = concat (map (\<lambda>v. case v of None \<Rightarrow> [] | Some bs \<Rightarrow> bs) vs)"

definition addr_bytes :: "csaddr list \<Rightarrow> byte list" where
  "addr_bytes vs = concat (map (\<lambda>(l, r, x). l @ r) vs)"

definition class_size :: "dword list \<times> field list \<Rightarrow> nat" where
  "class_size v = 16 + length (field_bytes (snd v))"

definition query_size :: "query \<Rightarrow> nat" where
  "query_size v = 60 + length (field_bytes (fst (snd v))) +
     (case snd (snd v) of None \<Rightarrow> 0 | Some as \<Rightarrow> 24 * length as + length (addr_bytes as))"

end
