(* ===== verification/NspNet.thy ===== *)
theory NspNet
  imports NspMemory
begin

text \<open>
  One connection between the name space DLL and its service (\<open>nspsvc.cpp\<close>: \<open>readdata\<close>,
  \<open>writedata\<close>).  What arrives on a socket is a list of segments, cut as the network likes, at the
  end of which the peer has closed its side; a reset stays.  \<open>room\<close> says how much each \<open>send\<close> takes.
\<close>

section \<open>Sockets\<close>

datatype arrival = Segment "byte list" | Reset

datatype acceptance = Accept nat | SendFails

record link =
  arrivals :: "arrival list"
  room :: "acceptance list"
  written :: "byte list"
  is_open :: bool

fun next_bytes :: "nat \<Rightarrow> arrival list \<Rightarrow> byte list option \<times> arrival list" where
  "next_bytes n [] = (Some [], [])"
| "next_bytes n (Reset # as) = (None, Reset # as)"
| "next_bytes n (Segment bs # as) =
     (if bs = [] then next_bytes n as
      else (Some (take n bs), if length bs \<le> n then as else Segment (drop n bs) # as))"

text \<open>\<open>None\<close> is \<open>SOCKET_ERROR\<close>, no bytes mean that the peer has closed.\<close>

definition recv :: "link \<Rightarrow> nat \<Rightarrow> byte list option \<times> link" where
  "recv l n =
     (if is_open l then (let (r, as) = next_bytes n (arrivals l) in (r, l\<lparr>arrivals := as\<rparr>)) else (None, l))"

definition send :: "link \<Rightarrow> byte list \<Rightarrow> nat option \<times> link" where
  "send l bs =
     (if \<not> is_open l then (None, l)
      else case room l of
        [] \<Rightarrow> (Some (length bs), l\<lparr>written := written l @ bs\<rparr>)
      | SendFails # rs \<Rightarrow> (None, l\<lparr>room := rs\<rparr>)
      | Accept k # rs \<Rightarrow> (Some (min k (length bs)), l\<lparr>room := rs, written := written l @ take k bs\<rparr>))"

definition close_link :: "link \<Rightarrow> link" where
  "close_link l = l\<lparr>is_open := False\<rparr>"

section \<open>readdata\<close>

text \<open>
  The bytes of the buffer that have been filled, and the socket.  \<open>recv\<close> is asked for as much as
  the buffer holds, not for what is left to read; \<open>nLeft\<close> is an \<open>ULONG\<close> and wraps.
\<close>

function read_loop :: "nat \<Rightarrow> byte list \<Rightarrow> dword \<Rightarrow> link \<Rightarrow> byte list \<times> link" where
  "read_loop buffersz got nLeft l =
     (if 0 < nLeft \<and> length got < buffersz then
        (case recv l (buffersz - length got) of
           (None, l) \<Rightarrow> (got, close_link l)
         | (Some [], l) \<Rightarrow> (got, close_link l)
         | (Some (b # bs), l) \<Rightarrow> read_loop buffersz (got @ b # bs) (nLeft - of_nat (length (b # bs))) l)
      else (got, l))"
  by pat_completeness auto

termination by (relation "measure (\<lambda>(buffersz, got, nLeft, l). buffersz - length got)") auto

declare read_loop.simps [simp del]

definition readdata :: "link \<Rightarrow> nat \<Rightarrow> dword \<Rightarrow> byte list \<times> dword \<times> link" where
  "readdata l buffersz bytesread =
     (let (got, l) = read_loop buffersz [] bytesread l in (got, of_nat (length got), l))"

section \<open>writedata\<close>

text \<open>The result, \<open>*byteswritten\<close> and the socket.\<close>

function write_loop :: "nat \<Rightarrow> byte list \<Rightarrow> link \<Rightarrow> nat \<times> nat \<times> link" where
  "write_loop nbytes bs l =
     (if bs = [] then (0, nbytes, l)
      else case send l bs of
        (None, l) \<Rightarrow> (1, 0, l)
      | (Some 0, l) \<Rightarrow> (0, 0, l)
      | (Some (Suc k), l) \<Rightarrow> write_loop (nbytes + Suc k) (drop (Suc k) bs) l)"
  by pat_completeness auto

termination by (relation "measure (\<lambda>(nbytes, bs, l). length bs)") auto

declare write_loop.simps [simp del]

definition writedata :: "link \<Rightarrow> byte list \<Rightarrow> nat \<times> nat \<times> link" where
  "writedata l bs = write_loop 0 bs l"

section \<open>What they transfer\<close>

text \<open>All that is still to come, and whether nothing disturbs the connection.\<close>

fun stream :: "arrival list \<Rightarrow> byte list" where
  "stream [] = []"
| "stream (Segment bs # as) = bs @ stream as"
| "stream (Reset # as) = []"

lemma next_bytes_stream:
  assumes "Reset \<notin> set as" and "next_bytes n as = (r, as')" and "0 < n"
  shows "\<exists>bs. r = Some bs \<and> stream as = bs @ stream as' \<and> Reset \<notin> set as' \<and> length bs \<le> n \<and> (bs = [] \<longrightarrow> stream as = [])"
  using assms by (induction n as arbitrary: r as' rule: next_bytes.induct) (auto split: if_splits)

text \<open>
  However the network cuts the stream: \<open>readdata\<close> delivers the first \<open>n\<close> bytes when \<open>n\<close> is the size
  of the buffer, or when no more than \<open>n\<close> bytes come.
\<close>

lemma read_loop_delivers:
  assumes "is_open l" "Reset \<notin> set (arrivals l)" "unat nLeft \<le> length (stream (arrivals l))"
    and "length got + unat nLeft \<le> buffersz" "length got + unat nLeft = buffersz \<or> unat nLeft = length (stream (arrivals l))"
  shows "\<exists>as. read_loop buffersz got nLeft l = (got @ take (unat nLeft) (stream (arrivals l)), l\<lparr>arrivals := as\<rparr>) \<and>
    stream as = drop (unat nLeft) (stream (arrivals l)) \<and> Reset \<notin> set as"
  using assms
proof (induction "buffersz - length got" arbitrary: got nLeft l rule: less_induct)
  case (less got nLeft l)
  note prems = less.prems
  show ?case
  proof (cases "0 < nLeft \<and> length got < buffersz")
    case False
    then have "unat nLeft = 0" using prems(4) by (auto simp: word_gt_0)
    then have "nLeft = 0" by (simp add: unat_eq_0)
    then show ?thesis by (subst read_loop.simps) (use prems(2) in \<open>auto intro!: exI [of _ "arrivals l"]\<close>)
  next
    case True
    then have n: "0 < unat nLeft" by (simp add: word_less_nat_alt)
    let ?k = "buffersz - length got"
    obtain r as where na: "next_bytes ?k (arrivals l) = (r, as)" by (metis surj_pair)
    have k: "0 < ?k" using True by simp
    obtain bs where bs: "r = Some bs" "stream (arrivals l) = bs @ stream as"
        "Reset \<notin> set as" "length bs \<le> ?k" "bs = [] \<longrightarrow> stream (arrivals l) = []"
      using next_bytes_stream [OF prems(2) na k] by blast
    have "bs \<noteq> []" using n prems(3) bs(5) by auto
    then obtain b cs where cs: "bs = b # cs" by (cases bs) auto
    let ?l = "l\<lparr>arrivals := as\<rparr>"
    have rc: "recv l ?k = (Some (b # cs), ?l)" using na bs(1) cs prems(1) by (simp add: recv_def)
    have le: "length bs \<le> unat nLeft"
      using prems(4,5) bs(2,4) by (auto dest: arg_cong [of _ _ length])
    have "unat nLeft < 2 ^ 32" using unsigned_less [of nLeft, where ?'a = nat] by simp
    then have u: "unat (of_nat (length bs) :: dword) = length bs"
      using le by (simp only: unat_of_nat) simp
    have un: "unat (nLeft - of_nat (length bs)) = unat nLeft - length bs"
      using le u by (simp add: unat_sub word_le_nat_alt)
    have "buffersz - length (got @ bs) < ?k" using conjunct2 [OF True] by (simp add: cs)
    moreover have "unat nLeft - length bs \<le> length (stream as)" using prems(3) bs(2) by simp
    ultimately have "\<exists>as'. read_loop buffersz (got @ bs) (nLeft - of_nat (length bs)) ?l =
        ((got @ bs) @ take (unat nLeft - length bs) (stream as), ?l\<lparr>arrivals := as'\<rparr>) \<and>
        stream as' = drop (unat nLeft - length bs) (stream as) \<and> Reset \<notin> set as'"
      using less.hyps [of "got @ bs" ?l "nLeft - of_nat (length bs)"] prems bs(2,3) le un by auto
    then obtain as' where
      "read_loop buffersz (got @ bs) (nLeft - of_nat (length bs)) ?l =
        ((got @ bs) @ take (unat nLeft - length bs) (stream as), ?l\<lparr>arrivals := as'\<rparr>)"
      "stream as' = drop (unat nLeft - length bs) (stream as)" "Reset \<notin> set as'"
      by blast
    moreover have "read_loop buffersz got nLeft l = read_loop buffersz (got @ bs) (nLeft - of_nat (length bs)) ?l"
      by (subst read_loop.simps) (use True rc cs in simp)
    ultimately show ?thesis using bs(2) le by auto
  qed
qed

lemma readdata_delivers:
  assumes "is_open l" "Reset \<notin> set (arrivals l)" "unat n \<le> length (stream (arrivals l))"
    and "unat n \<le> buffersz" "unat n = buffersz \<or> unat n = length (stream (arrivals l))"
  shows "\<exists>as. readdata l buffersz n = (take (unat n) (stream (arrivals l)), n, l\<lparr>arrivals := as\<rparr>) \<and>
    stream as = drop (unat n) (stream (arrivals l)) \<and> Reset \<notin> set as"
proof -
  from read_loop_delivers [of l n "[]" buffersz] assms obtain as where
    "read_loop buffersz [] n l = (take (unat n) (stream (arrivals l)), l\<lparr>arrivals := as\<rparr>)"
    "stream as = drop (unat n) (stream (arrivals l))" "Reset \<notin> set as" by auto
  then show ?thesis using assms(3) by (intro exI [of _ as]) (simp add: readdata_def min_absorb2)
qed

text \<open>\<open>writedata\<close> sends everything unless a \<open>send\<close> fails or takes nothing.\<close>

lemma write_loop_Nil: "write_loop n [] l = (0, n, l)"
  by (subst write_loop.simps) simp

lemma write_loop_sends:
  assumes "is_open l" "\<forall>a\<in>set (room l). \<exists>k. a = Accept (Suc k)"
  shows "\<exists>rs. write_loop n bs l = (0, n + length bs, l\<lparr>room := rs, written := written l @ bs\<rparr>) \<and> set rs \<subseteq> set (room l)"
  using assms
proof (induction "length bs" arbitrary: n bs l rule: less_induct)
  case (less bs n l)
  note prems = less.prems
  show ?case
  proof (cases "bs = []")
    case True
    then show ?thesis by (auto simp: write_loop_Nil intro!: exI [of _ "room l"])
  next
    case False
    then obtain m where m: "length bs = Suc m" by (cases bs) auto
    show ?thesis
    proof (cases "room l")
      case Nil
      have "send l bs = (Some (Suc m), l\<lparr>room := [], written := written l @ bs\<rparr>)"
        using prems(1) Nil m by (cases l) (simp add: send_def)
      then show ?thesis
        using False m by (subst write_loop.simps) (auto simp: write_loop_Nil intro!: exI [of _ "[]"])
    next
      case (Cons a rs)
      then obtain k where a: "a = Accept (Suc k)" using prems(2) by auto
      let ?k = "Suc (min k m)"
      let ?l = "l\<lparr>room := rs, written := written l @ take ?k bs\<rparr>"
      have "take (Suc k) bs = take ?k bs" using m by (simp add: min_def)
      then have s: "send l bs = (Some ?k, ?l)" using prems(1) Cons a m by (simp add: send_def)
      have "length (drop ?k bs) < length bs" using m by simp
      from less.hyps [OF this, of ?l "n + ?k"] obtain rs' where
        "write_loop (n + ?k) (drop ?k bs) ?l =
          (0, n + ?k + length (drop ?k bs), ?l\<lparr>room := rs', written := written ?l @ drop ?k bs\<rparr>)" "set rs' \<subseteq> set rs"
        using prems Cons by auto
      moreover have "write_loop n bs l = write_loop (n + ?k) (drop ?k bs) ?l"
        by (subst write_loop.simps) (use False s in simp)
      ultimately show ?thesis using m Cons by (auto intro!: exI [of _ rs'])
    qed
  qed
qed

lemma writedata_sends:
  assumes "is_open l" "\<forall>a\<in>set (room l). \<exists>k. a = Accept (Suc k)"
  shows "\<exists>rs. writedata l bs = (0, length bs, l\<lparr>room := rs, written := written l @ bs\<rparr>) \<and> set rs \<subseteq> set (room l)"
  using write_loop_sends [OF assms, of 0 bs] by (simp add: writedata_def)

end
