(* ===== verification/NspService.thy ===== *)
theory NspService
  imports NspMarshal NspNet
begin

text \<open>
  The name space service (\<open>mynspsvc.cpp\<close>): its tables of service classes, services and queries, the
  functions over them, and \<open>main\<close>, which serves one request per connection.  The structures the
  tables point to lie in blocks of the process heap; requests arrive in a buffer on the stack of
  \<open>main\<close>.  A local variable that is used before all of its bytes have been written holds
  arbitrary bytes, which are a parameter of the model.
\<close>

section \<open>State\<close>

definition BUFFER_SZ :: nat where "BUFFER_SZ = 4096"
definition MAX_SERVICE_CLASSES :: nat where "MAX_SERVICE_CLASSES = 25"
definition MAX_SERVICES :: nat where "MAX_SERVICES = 50"
definition MAX_QUERIES :: nat where "MAX_QUERIES = 50"

definition MYNSP_SUCCESS :: dword where "MYNSP_SUCCESS = 1"
definition MYNSP_ERROR :: dword where "MYNSP_ERROR = 0"
definition WSASERVICE_NOT_FOUND :: dword where "WSASERVICE_NOT_FOUND = 10108"
definition WSA_E_NO_MORE :: dword where "WSA_E_NO_MORE = 10110"

lemmas nsp_constants [simp] =
  MYNSP_SUCCESS_def MYNSP_ERROR_def WSASERVICE_NOT_FOUND_def WSA_E_NO_MORE_def

record query_info =
  hHandle :: dword
  iIndex :: int
  Query :: nat

text \<open>
  \<open>place m n\<close> is where the heap puts a block of \<open>n\<close> bytes (0 if it has none); \<open>same_name\<close> is
  whether \<open>lstrcmpW\<close> returns 0, which depends on the locale; \<open>buf_at\<close> is the address of \<open>buf\<close>, and
  \<open>garbage\<close> is what a local variable holds before it is written.
\<close>

record nsp_env =
  place :: "memory \<Rightarrow> nat \<Rightarrow> nat"
  same_name :: "wchar list \<Rightarrow> wchar list \<Rightarrow> bool"
  buf_at :: nat
  garbage :: "nat \<Rightarrow> byte"

text \<open>
  The tables up to their counts; \<open>blocks\<close> are the sizes of the blocks of the heap.  The locals of
  \<open>main\<close> that outlive a connection are \<open>action\<close> and \<open>bytes2follow\<close>.
\<close>

record service =
  mem :: memory
  blocks :: "nat \<Rightarrow> nat option"
  ServiceClasses :: "nat list"
  Services :: "nat list"
  QueryInfo :: "query_info list"
  dwHandleValue :: dword
  action :: "byte list"
  bytes2follow :: "byte list"

text \<open>A local variable of \<open>n\<close> bytes, and what is left of it when fewer have been read into it.\<close>

definition local_var :: "nsp_env \<Rightarrow> nat \<Rightarrow> byte list" where
  "local_var E n = map (garbage E) [0..<n]"

definition fill :: "byte list \<Rightarrow> byte list \<Rightarrow> byte list" where
  "fill old bs = bs @ drop (length bs) old"

section \<open>Heap\<close>

definition GlobalAlloc :: "nsp_env \<Rightarrow> nat \<Rightarrow> service \<Rightarrow> nat \<times> service" where
  "GlobalAlloc E n s =
     (let p = place E (mem s) n in
      if p = 0 then (0, s)
      else (p, s\<lparr>mem := (\<lambda>a. if p \<le> a \<and> a < p + n then Some 0 else mem s a), blocks := (blocks s)(p \<mapsto> n)\<rparr>))"

definition GlobalFree :: "nat \<Rightarrow> service \<Rightarrow> service option" where
  "GlobalFree p s = do {
     n \<leftarrow> blocks s p;
     Some (s\<lparr>mem := without (mem s) p n, blocks := (blocks s)(p := None)\<rparr>) }"

section \<open>Service classes\<close>

text \<open>\<open>!memcmp(guid, q, sizeof(GUID))\<close>, where \<open>guid\<close> is what can be read at that address.\<close>

definition same_guid :: "memory \<Rightarrow> byte list option \<Rightarrow> nat \<Rightarrow> bool option" where
  "same_guid m guid q = do {
     g \<leftarrow> guid;
     id \<leftarrow> read_bytes m q (unat sizeof_GUID);
     Some (g = id) }"

fun find_class :: "memory \<Rightarrow> byte list option \<Rightarrow> nat list \<Rightarrow> nat option" where
  "find_class m guid [] = Some 0"
| "find_class m guid (sc # scs) = do {
     id \<leftarrow> read_u32 m (sc + lpServiceClassId);
     b \<leftarrow> same_guid m guid (unat id);
     if b then Some sc else find_class m guid scs }"

definition LookupServiceClass :: "byte list option \<Rightarrow> service \<Rightarrow> nat option" where
  "LookupServiceClass guid s = find_class (mem s) guid (ServiceClasses s)"

text \<open>
  The loop of \<open>DeregisterServiceClass\<close> compares with the address of the member, that is with the
  first bytes of the structure.  \<open>memcpy\<close>, which stands where \<open>memcmp\<close> is meant, returns its first
  argument, so that \<open>!memcpy(...)\<close> is never true; it reads the services nevertheless.
\<close>

fun find_raw :: "memory \<Rightarrow> byte list \<Rightarrow> nat \<Rightarrow> nat list \<Rightarrow> nat option option" where
  "find_raw m guid i [] = Some None"
| "find_raw m guid i (sc # scs) = do {
     b \<leftarrow> same_guid m (Some guid) (sc + lpServiceClassId);
     if b then Some (Some i) else find_raw m guid (Suc i) scs }"

fun copy_guids :: "memory \<Rightarrow> byte list \<Rightarrow> nat list \<Rightarrow> byte list option" where
  "copy_guids m guid [] = Some guid"
| "copy_guids m guid (sv # svs) = do {
     guid \<leftarrow> read_bytes m (sv + qs_lpServiceClassId) (unat sizeof_GUID);
     copy_guids m guid svs }"

definition DeregisterServiceClass :: "byte list \<Rightarrow> service \<Rightarrow> (dword, service) outcome" where
  "DeregisterServiceClass guid s = do {
     found \<leftarrow> find_raw (mem s) guid 0 (ServiceClasses s);
     case found of
       None \<Rightarrow> Some (MYNSP_ERROR, s)
     | Some i \<Rightarrow> do {
         _ \<leftarrow> copy_guids (mem s) guid (Services s);
         s \<leftarrow> GlobalFree (ServiceClasses s ! i) s;
         Some (MYNSP_SUCCESS, s\<lparr>ServiceClasses := take i (ServiceClasses s) @ drop (Suc i) (ServiceClasses s)\<rparr>) } }"

section \<open>Services\<close>

fun find_service :: "nsp_env \<Rightarrow> memory \<Rightarrow> wchar list option \<Rightarrow> nat \<Rightarrow> nat list \<Rightarrow> nat option option" where
  "find_service E m name i [] = Some None"
| "find_service E m name i (sv # svs) = do {
     n \<leftarrow> name;
     p \<leftarrow> read_u32 m (sv + qs_lpszServiceInstanceName);
     n' \<leftarrow> read_wstr m (unat p);
     if same_name E n n' then Some (Some i) else find_service E m name (Suc i) svs }"

definition LookupService :: "nsp_env \<Rightarrow> byte list option \<Rightarrow> wchar list option \<Rightarrow> service \<Rightarrow> nat option" where
  "LookupService E guid name s = do {
     si \<leftarrow> LookupServiceClass guid s;
     if si = 0 then Some 0
     else do {
       found \<leftarrow> find_service E (mem s) name 0 (Services s);
       Some (case found of None \<Rightarrow> 0 | Some i \<Rightarrow> Services s ! i) } }"

definition DeregisterService :: "nsp_env \<Rightarrow> byte list option \<Rightarrow> wchar list option \<Rightarrow> service \<Rightarrow> (dword, service) outcome" where
  "DeregisterService E guid name s = do {
     si \<leftarrow> LookupServiceClass guid s;
     if si = 0 then Some (MYNSP_ERROR, s)
     else do {
       found \<leftarrow> find_service E (mem s) name 0 (Services s);
       case found of
         None \<Rightarrow> Some (MYNSP_ERROR, s)
       | Some i \<Rightarrow> do {
           s \<leftarrow> GlobalFree (Services s ! i) s;
           Some (MYNSP_SUCCESS, s\<lparr>Services := butlast ((Services s)[i := last (Services s)])\<rparr>) } } }"

section \<open>Queries\<close>

text \<open>\<open>None\<close> for the handle where the table is full and \<open>*handle\<close> is not written.\<close>

definition RegisterQuery :: "nat \<Rightarrow> service \<Rightarrow> dword option \<times> service" where
  "RegisterQuery qs s =
     (if MAX_QUERIES \<le> length (QueryInfo s) then (None, s)
      else (let h = dwHandleValue s + 1 in
        (Some h, s\<lparr>dwHandleValue := h, QueryInfo := QueryInfo s @ [\<lparr>hHandle = h, iIndex = -1, Query = qs\<rparr>]\<rparr>)))"

fun find_query :: "dword \<Rightarrow> nat \<Rightarrow> query_info list \<Rightarrow> nat option" where
  "find_query h i [] = None"
| "find_query h i (q # qs) = (if hHandle q = h then Some i else find_query h (Suc i) qs)"

definition FindQuery :: "dword \<Rightarrow> service \<Rightarrow> int" where
  "FindQuery h s = (case find_query h 0 (QueryInfo s) of None \<Rightarrow> -1 | Some i \<Rightarrow> int i)"

text \<open>Whether the service \<open>sv\<close> is one the query asks for.\<close>

definition query_matches :: "nsp_env \<Rightarrow> memory \<Rightarrow> nat \<Rightarrow> nat \<Rightarrow> bool option" where
  "query_matches E m qs sv = do {
     p \<leftarrow> read_u32 m (qs + qs_lpszServiceInstanceName);
     c \<leftarrow> read_wchar m (unat p);
     if c = 0x2A then Some True
     else do {
       n \<leftarrow> read_wstr m (unat p);
       p' \<leftarrow> read_u32 m (sv + qs_lpszServiceInstanceName);
       n' \<leftarrow> read_wstr m (unat p');
       Some (same_name E n n') } }"

fun scan :: "nsp_env \<Rightarrow> memory \<Rightarrow> nat \<Rightarrow> nat \<Rightarrow> nat list \<Rightarrow> nat option option" where
  "scan E m qs i [] = Some None"
| "scan E m qs i (sv # svs) = do {
     b \<leftarrow> query_matches E m qs sv;
     if b then Some (Some i) else scan E m qs (Suc i) svs }"

text \<open>The index found or -1, with \<open>*iError\<close>; a handle that is not in the table indexes it with -1.\<close>

definition PerformQuery :: "nsp_env \<Rightarrow> dword \<Rightarrow> service \<Rightarrow> (int \<times> dword, service) outcome" where
  "PerformQuery E h s =
     (let index = FindQuery h s in
      if index < 0 then None
      else let q = QueryInfo s ! nat index; start = nat (iIndex q + 1) in do {
        found \<leftarrow> scan E (mem s) (Query q) start (drop start (Services s));
        case found of
          Some i \<Rightarrow> Some ((int i, 0), s\<lparr>QueryInfo := (QueryInfo s)[nat index := q\<lparr>iIndex := int i\<rparr>]\<rparr>)
        | None \<Rightarrow> Some ((-1, if iIndex q = -1 then WSASERVICE_NOT_FOUND else WSA_E_NO_MORE), s) })"

definition DeleteQuery :: "dword \<Rightarrow> service \<Rightarrow> (dword, service) outcome" where
  "DeleteQuery h s =
     (let index = FindQuery h s in
      if index = -1 then Some (MYNSP_ERROR, s)
      else do {
        s \<leftarrow> GlobalFree (Query (QueryInfo s ! nat index)) s;
        Some (MYNSP_SUCCESS, s\<lparr>QueryInfo := butlast ((QueryInfo s)[nat index := last (QueryInfo s)])\<rparr>) })"

section \<open>Requests\<close>

text \<open>\<open>readdata\<close> into a local variable \<open>v\<close> of \<open>n\<close> bytes.\<close>

definition read_local :: "byte list \<Rightarrow> nat \<Rightarrow> link \<Rightarrow> byte list \<times> link" where
  "read_local v n l = (let (got, bytesread, l) = readdata l n (of_nat n) in (fill v got, l))"

definition answer :: "link \<Rightarrow> byte list \<Rightarrow> link" where
  "answer l bs = snd (snd (writedata l bs))"

text \<open>
  The size, then that many bytes into \<open>buf\<close>; \<open>bytes2follow\<close> becomes the number of bytes that came.
  The block of that many bytes is allocated before or after, depending on the request.
\<close>

definition read_structure :: "nsp_env \<Rightarrow> link \<Rightarrow> service \<Rightarrow> (link, service) outcome" where
  "read_structure E l s = do {
     let (got, cnt, l) = readdata l BUFFER_SZ (u32 (bytes2follow s));
     m \<leftarrow> write_bytes (mem s) (buf_at E) got;
     Some (l, s\<lparr>mem := m, bytes2follow := u32_bytes cnt\<rparr>) }"

definition read_size :: "link \<Rightarrow> service \<Rightarrow> link \<times> service" where
  "read_size l s = (let (v, l) = read_local (bytes2follow s) 4 l in (l, s\<lparr>bytes2follow := v\<rparr>))"

definition alloc_structure :: "nsp_env \<Rightarrow> service \<Rightarrow> nat \<times> service" where
  "alloc_structure E s = GlobalAlloc E (unat (u32 (bytes2follow s))) s"

text \<open>What a pointer argument of a lookup refers to: a \<open>GUID\<close>, a string.\<close>

definition guid_arg :: "service \<Rightarrow> nat \<Rightarrow> byte list option option" where
  "guid_arg s at = map_option (\<lambda>p. read_bytes (mem s) (unat p) (unat sizeof_GUID)) (read_u32 (mem s) at)"

definition name_arg :: "service \<Rightarrow> nat \<Rightarrow> wchar list option option" where
  "name_arg s at = map_option (\<lambda>p. read_wstr (mem s) (unat p)) (read_u32 (mem s) at)"

definition on_REGISTER_CLASS :: "nsp_env \<Rightarrow> link \<Rightarrow> service \<Rightarrow> (link, service) outcome" where
  "on_REGISTER_CLASS E l s = do {
     let (l, s) = read_size l s;
     (l, s) \<leftarrow> read_structure E l s;
     let (sc, s) = alloc_structure E s;
     m \<leftarrow> DeMarshallServiceClassInfo (mem s) sc (buf_at E);
     let s = s\<lparr>mem := m\<rparr>;
     guid \<leftarrow> guid_arg s (sc + lpServiceClassId);
     sc2 \<leftarrow> LookupServiceClass guid s;
     (ret, s) \<leftarrow>
       (if sc2 = 0 then
          (if MAX_SERVICES \<le> length (ServiceClasses s) then Some (MYNSP_SUCCESS, s)
           else if MAX_SERVICE_CLASSES \<le> length (ServiceClasses s) then None
           else Some (MYNSP_SUCCESS, s\<lparr>ServiceClasses := ServiceClasses s @ [sc]\<rparr>))
        else Some (MYNSP_ERROR, s));
     Some (close_link (answer l (u32_bytes ret)), s) }"

definition on_DEREGISTER_CLASS :: "nsp_env \<Rightarrow> link \<Rightarrow> service \<Rightarrow> (link, service) outcome" where
  "on_DEREGISTER_CLASS E l s = do {
     let (guid, l) = read_local (local_var E 16) 16 l;
     (ret, s) \<leftarrow> DeregisterServiceClass guid s;
     Some (close_link (answer l (u32_bytes ret)), s) }"

definition on_LOOKUP_CLASS :: "nsp_env \<Rightarrow> link \<Rightarrow> service \<Rightarrow> (link, service) outcome" where
  "on_LOOKUP_CLASS E l s = do {
     let (guid, l) = read_local (local_var E 16) 16 l;
     sc2 \<leftarrow> LookupServiceClass (Some guid) s;
     let ret = (if sc2 = 0 then MYNSP_ERROR else MYNSP_SUCCESS);
     let l = answer l (u32_bytes ret);
     (l, s) \<leftarrow>
       (if sc2 = 0 then do {
          (buflen, m) \<leftarrow> MarshallServiceClassInfo (mem s) sc2 (buf_at E);
          bs \<leftarrow> read_bytes m (buf_at E) (unat buflen);
          Some (answer l bs, s\<lparr>mem := m\<rparr>) }
        else Some (l, s));
     Some (close_link l, s) }"

definition on_REGISTER_SERVICE :: "nsp_env \<Rightarrow> link \<Rightarrow> service \<Rightarrow> (link, service) outcome" where
  "on_REGISTER_SERVICE E l s = do {
     let (l, s) = read_size l s;
     (l, s) \<leftarrow> read_structure E l s;
     let (si, s) = alloc_structure E s;
     m \<leftarrow> DeMarshallServiceInfo (mem s) si (buf_at E);
     let s = s\<lparr>mem := m\<rparr>;
     guid \<leftarrow> guid_arg s (si + qs_lpServiceClassId);
     name \<leftarrow> name_arg s (si + qs_lpszServiceInstanceName);
     si2 \<leftarrow> LookupService E guid name s;
     (ret, s) \<leftarrow>
       (if si2 = 0 then
          (if MAX_SERVICES \<le> length (Services s) then None
           else Some (MYNSP_SUCCESS, s\<lparr>Services := Services s @ [si]\<rparr>))
        else Some (MYNSP_ERROR, s));
     Some (close_link (answer l (u32_bytes ret)), s) }"

definition on_DEREGISTER_SERVICE :: "nsp_env \<Rightarrow> link \<Rightarrow> service \<Rightarrow> (link, service) outcome" where
  "on_DEREGISTER_SERVICE E l s = do {
     let (l, s) = read_size l s;
     (l, s) \<leftarrow> read_structure E l s;
     let (si, s) = alloc_structure E s;
     m \<leftarrow> DeMarshallServiceInfo (mem s) si (buf_at E);
     let s = s\<lparr>mem := m\<rparr>;
     guid \<leftarrow> guid_arg s (si + qs_lpServiceClassId);
     name \<leftarrow> name_arg s (si + qs_lpszServiceInstanceName);
     (ret, s) \<leftarrow> DeregisterService E guid name s;
     Some (close_link (answer l (u32_bytes ret)), s) }"

definition on_LOOKUP_SERVICE_BEGIN :: "nsp_env \<Rightarrow> link \<Rightarrow> service \<Rightarrow> (link, service) outcome" where
  "on_LOOKUP_SERVICE_BEGIN E l s = do {
     let (l, s) = read_size l s;
     let (si, s) = alloc_structure E s;
     (l, s) \<leftarrow> read_structure E l s;
     m \<leftarrow> DeMarshallServiceInfo (mem s) si (buf_at E);
     let (handle, s) = RegisterQuery si (s\<lparr>mem := m\<rparr>);
     let handle = (case handle of None \<Rightarrow> local_var E 4 | Some h \<Rightarrow> u32_bytes h);
     Some (close_link (answer l handle), s) }"

definition on_LOOKUP_SERVICE_NEXT :: "nsp_env \<Rightarrow> link \<Rightarrow> service \<Rightarrow> (link, service) outcome" where
  "on_LOOKUP_SERVICE_NEXT E l s = do {
     let (hQuery, l) = read_local (local_var E 4) 4 l;
     ((ret, iError), s) \<leftarrow> PerformQuery E (u32 hQuery) s;
     (nLeft, s) \<leftarrow>
       (if ret = -1 then Some (if iError = WSA_E_NO_MORE then 0 else -1, s)
        else do {
          (nLeft, m) \<leftarrow> MarshallServiceInfo (mem s) (Services s ! nat ret) (buf_at E);
          Some (nLeft, s\<lparr>mem := m\<rparr>) });
     let l = answer l (u32_bytes nLeft);
     l \<leftarrow> (if 0 <s nLeft then do {
            bs \<leftarrow> read_bytes (mem s) (buf_at E) (unat nLeft);
            Some (answer l bs) } else Some l);
     Some (close_link l, s) }"

definition on_LOOKUP_SERVICE_END :: "nsp_env \<Rightarrow> link \<Rightarrow> service \<Rightarrow> (link, service) outcome" where
  "on_LOOKUP_SERVICE_END E l s = do {
     let (hQuery, l) = read_local (local_var E 4) 4 l;
     (ret, s) \<leftarrow> DeleteQuery (u32 hQuery) s;
     Some (close_link (answer l (u32_bytes ret)), s) }"

section \<open>main\<close>

definition MYNSP_REGISTER_CLASS :: byte where "MYNSP_REGISTER_CLASS = 0"
definition MYNSP_DEREGISTER_CLASS :: byte where "MYNSP_DEREGISTER_CLASS = 1"
definition MYNSP_LOOKUP_CLASS :: byte where "MYNSP_LOOKUP_CLASS = 2"
definition MYNSP_REGISTER_SERVICE :: byte where "MYNSP_REGISTER_SERVICE = 3"
definition MYNSP_DEREGISTER_SERVICE :: byte where "MYNSP_DEREGISTER_SERVICE = 4"
definition MYNSP_LOOKUP_SERVICE_BEGIN :: byte where "MYNSP_LOOKUP_SERVICE_BEGIN = 5"
definition MYNSP_LOOKUP_SERVICE_NEXT :: byte where "MYNSP_LOOKUP_SERVICE_NEXT = 6"
definition MYNSP_LOOKUP_SERVICE_END :: byte where "MYNSP_LOOKUP_SERVICE_END = 7"

lemmas actions =
  MYNSP_REGISTER_CLASS_def MYNSP_DEREGISTER_CLASS_def MYNSP_LOOKUP_CLASS_def MYNSP_REGISTER_SERVICE_def
  MYNSP_DEREGISTER_SERVICE_def MYNSP_LOOKUP_SERVICE_BEGIN_def MYNSP_LOOKUP_SERVICE_NEXT_def MYNSP_LOOKUP_SERVICE_END_def

text \<open>An action the switch does not know is not answered, and its connection is not closed.\<close>

definition dispatch :: "nsp_env \<Rightarrow> byte \<Rightarrow> link \<Rightarrow> service \<Rightarrow> (link, service) outcome" where
  "dispatch E a =
     (if a = MYNSP_REGISTER_CLASS then on_REGISTER_CLASS E
      else if a = MYNSP_DEREGISTER_CLASS then on_DEREGISTER_CLASS E
      else if a = MYNSP_LOOKUP_CLASS then on_LOOKUP_CLASS E
      else if a = MYNSP_REGISTER_SERVICE then on_REGISTER_SERVICE E
      else if a = MYNSP_DEREGISTER_SERVICE then on_DEREGISTER_SERVICE E
      else if a = MYNSP_LOOKUP_SERVICE_BEGIN then on_LOOKUP_SERVICE_BEGIN E
      else if a = MYNSP_LOOKUP_SERVICE_NEXT then on_LOOKUP_SERVICE_NEXT E
      else if a = MYNSP_LOOKUP_SERVICE_END then on_LOOKUP_SERVICE_END E
      else (\<lambda>l s. Some (l, s)))"

definition serve_client :: "nsp_env \<Rightarrow> link \<Rightarrow> service \<Rightarrow> (link, service) outcome" where
  "serve_client E l s = do {
     let (a, l) = read_local (action s) 1 l;
     m \<leftarrow> write_bytes (mem s) (buf_at E) (replicate BUFFER_SZ 0);
     dispatch E (hd a) l (s\<lparr>mem := m, action := a\<rparr>) }"

text \<open>
  The connections in the order in which \<open>accept\<close> returns them; where it fails the service ends.
  The result is what became of the sockets, and whether the service still waits for the next one.
\<close>

fun serve_all :: "nsp_env \<Rightarrow> link option list \<Rightarrow> service \<Rightarrow> (link list \<times> bool, service) outcome" where
  "serve_all E [] s = Some (([], True), s)"
| "serve_all E (None # ls) s = Some (([], False), s)"
| "serve_all E (Some l # ls) s = do {
     (l, s) \<leftarrow> serve_client E l s;
     ((ls, w), s) \<leftarrow> serve_all E ls s;
     Some ((l # ls, w), s) }"

text \<open>\<open>main\<close>: \<open>started\<close> says which of \<open>WSAStartup\<close>, \<open>socket\<close>, \<open>bind\<close> and \<open>listen\<close> succeed; the result is \<open>None\<close> while the service waits.\<close>

definition nsp_main :: "nsp_env \<Rightarrow> bool \<times> bool \<times> bool \<times> bool \<Rightarrow> link option list \<Rightarrow> service \<Rightarrow> (int option \<times> link list, service) outcome" where
  "nsp_main E started ls s =
     (case started of (wsa, sock, bound, listening) \<Rightarrow>
        if \<not> wsa \<or> \<not> sock \<or> \<not> bound \<or> \<not> listening then Some ((Some (-1), []), s)
        else do {
          ((ls, w), s) \<leftarrow> serve_all E ls s;
          Some ((if w then None else Some (-1), ls), s) })"

end
