(* ===== verification/NspClient.thy ===== *)
theory NspClient
  imports NspService
begin

text \<open>
  The name space DLL (\<open>mynsp.cpp\<close>): each entry point connects to the service, writes a request,
  reads the reply and closes the connection.  The service is the model of \<open>NspService\<close>; it runs
  when the whole request has been written, which is when the entry point starts to read.
\<close>

section \<open>The process that calls the DLL\<close>

definition MARSHALL_BUFFER_SZ :: nat where "MARSHALL_BUFFER_SZ = 4096"
definition SOCKET_ERROR :: int where "SOCKET_ERROR = -1"
definition NO_ERROR :: int where "NO_ERROR = 0"
definition WSAEINVAL :: dword where "WSAEINVAL = 10022"
definition WSAEFAULT :: dword where "WSAEFAULT = 10014"
definition WSAEALREADY :: dword where "WSAEALREADY = 10037"
definition WSATYPE_NOT_FOUND :: dword where "WSATYPE_NOT_FOUND = 10109"
definition WSA_INVALID_HANDLE :: dword where "WSA_INVALID_HANDLE = 6"

text \<open>
  Its memory, with the buffer of the entry point at \<open>databuf\<close>, its last error, and how many sockets
  the entry points have left open.
\<close>

record client =
  cmem :: memory
  databuf :: nat
  last_error :: dword
  open_sockets :: nat

text \<open>
  What the network does with a call: whether \<open>socket\<close> and \<open>connect\<close> succeed, how much each
  \<open>send\<close> of either side takes, and how the bytes are cut on their way.
\<close>

record net =
  sock_ok :: bool
  conn_ok :: bool
  client_room :: "acceptance list"
  service_room :: "acceptance list"
  to_service :: "byte list \<Rightarrow> arrival list"
  to_client :: "byte list \<Rightarrow> arrival list"

definition fresh_link :: "acceptance list \<Rightarrow> arrival list \<Rightarrow> link" where
  "fresh_link r as = \<lparr>arrivals = as, room = r, written = [], is_open = True\<rparr>"

definition MyNspConnect :: "net \<Rightarrow> client \<Rightarrow> link option \<times> client" where
  "MyNspConnect N c =
     (if \<not> sock_ok N then (None, c\<lparr>last_error := WSAEINVAL\<rparr>)
      else if \<not> conn_ok N then (None, c\<lparr>last_error := WSAEINVAL, open_sockets := open_sockets c + 1\<rparr>)
      else (Some (fresh_link (client_room N) []), c))"

text \<open>What an entry point leaves behind of its socket.\<close>

definition leave :: "link \<Rightarrow> client \<Rightarrow> client" where
  "leave l c = (if is_open l then c\<lparr>open_sockets := open_sockets c + 1\<rparr> else c)"

text \<open>The service takes the connection and serves it; what it wrote arrives at the client.\<close>

definition run_service :: "nsp_env \<Rightarrow> net \<Rightarrow> link \<Rightarrow> service \<Rightarrow> (link, service) outcome" where
  "run_service E N l s = do {
     (sl, s) \<leftarrow> serve_client E (fresh_link (service_room N) (to_service N (written l))) s;
     Some (l\<lparr>arrivals := to_client N (written sl)\<rparr>, s) }"

text \<open>\<open>writedata(s, databuf, n, &byteswritten)\<close>: \<open>numwrite\<close> is an \<open>int\<close>.\<close>

definition write_buffer :: "link \<Rightarrow> memory \<Rightarrow> nat \<Rightarrow> dword \<Rightarrow> link option" where
  "write_buffer l m p n =
     (if 0 <s n then do { bs \<leftarrow> read_bytes m p (unat n); Some (answer l bs) } else Some l)"

text \<open>\<open>readdata\<close> into the 32-bit local variable that holds the reply.\<close>

definition read_reply :: "nsp_env \<Rightarrow> link \<Rightarrow> dword \<times> link" where
  "read_reply E l = (let (v, l) = read_local (local_var E 4) 4 l in (u32 v, l))"

type_synonym ('a) call = "('a, client \<times> service) outcome"

section \<open>Queries\<close>

text \<open>The result, and the handle where \<open>*lphLookup\<close> is written.\<close>

definition NSPLookupServiceBegin :: "nsp_env \<Rightarrow> net \<Rightarrow> nat \<Rightarrow> client \<Rightarrow> service \<Rightarrow> (int \<times> dword option) call" where
  "NSPLookupServiceBegin E N lpqsRestrictions c s =
     (case MyNspConnect N c of
        (None, c) \<Rightarrow> Some ((SOCKET_ERROR, None), c, s)
      | (Some l, c) \<Rightarrow> do {
          let l = answer l [MYNSP_LOOKUP_SERVICE_BEGIN];
          (nLeft, m) \<leftarrow> MarshallServiceInfo (cmem c) lpqsRestrictions (databuf c);
          let c = c\<lparr>cmem := m\<rparr>;
          let l = answer l (u32_bytes nLeft);
          l \<leftarrow> write_buffer l m (databuf c) nLeft;
          (l, s) \<leftarrow> run_service E N l s;
          let (retcode, l) = read_reply E l;
          if retcode = MYNSP_ERROR then Some ((SOCKET_ERROR, None), leave (close_link l) (c\<lparr>last_error := WSAEINVAL\<rparr>), s)
          else Some ((NO_ERROR, Some retcode), leave (close_link l) c, s) })"

text \<open>The result and what \<open>*lpdwBufferLength\<close> becomes.\<close>

definition NSPLookupServiceNext :: "nsp_env \<Rightarrow> net \<Rightarrow> dword \<Rightarrow> dword \<Rightarrow> nat \<Rightarrow> client \<Rightarrow> service \<Rightarrow> (int \<times> dword) call" where
  "NSPLookupServiceNext E N hLookup bufferLength lpqsResults c s =
     (case MyNspConnect N c of
        (None, c) \<Rightarrow> Some ((SOCKET_ERROR, bufferLength), c, s)
      | (Some l, c) \<Rightarrow> do {
          let l = answer l [MYNSP_LOOKUP_SERVICE_NEXT];
          let l = answer l (u32_bytes hLookup);
          (l, s) \<leftarrow> run_service E N l s;
          let (v, bytesread, l) = readdata l 4 4;
          let bytes2follow = u32 (fill (local_var E 4) v);
          if bytes2follow = -1 then
            Some ((SOCKET_ERROR, bufferLength), leave (close_link l) (c\<lparr>last_error := WSASERVICE_NOT_FOUND\<rparr>), s)
          else if bytes2follow = 0 then
            Some ((SOCKET_ERROR, bufferLength), leave (close_link l) (c\<lparr>last_error := WSA_E_NO_MORE\<rparr>), s)
          else if bufferLength < bytes2follow then
            Some ((SOCKET_ERROR, bytes2follow), leave (close_link l) (c\<lparr>last_error := WSAEFAULT\<rparr>), s)
          else do {
            let (got, cnt, l) = readdata l MARSHALL_BUFFER_SZ bytes2follow;
            m \<leftarrow> write_bytes (cmem c) (databuf c) got;
            m \<leftarrow> DeMarshallServiceInfo m lpqsResults (databuf c);
            Some ((NO_ERROR, bytesread), leave (close_link l) (c\<lparr>cmem := m\<rparr>), s) } })"

text \<open>The action it sends is \<open>MYNSP_LOOKUP_SERVICE_NEXT\<close>.\<close>

definition NSPLookupServiceEnd :: "nsp_env \<Rightarrow> net \<Rightarrow> dword \<Rightarrow> client \<Rightarrow> service \<Rightarrow> int call" where
  "NSPLookupServiceEnd E N hLookup c s =
     (case MyNspConnect N c of
        (None, c) \<Rightarrow> Some (SOCKET_ERROR, c, s)
      | (Some l, c) \<Rightarrow> do {
          let l = answer l [MYNSP_LOOKUP_SERVICE_NEXT];
          let l = answer l (u32_bytes hLookup);
          (l, s) \<leftarrow> run_service E N l s;
          let (retcode, l) = read_reply E l;
          if retcode = MYNSP_ERROR then Some (SOCKET_ERROR, leave (close_link l) (c\<lparr>last_error := WSA_INVALID_HANDLE\<rparr>), s)
          else Some (NO_ERROR, leave (close_link l) c, s) })"

section \<open>Services and classes\<close>

datatype set_service_op = RNRSERVICE_REGISTER | RNRSERVICE_DEREGISTER | RNRSERVICE_DELETE

text \<open>\<open>RNRSERVICE_DEREGISTER\<close> leaves the action unassigned.\<close>

definition NSPSetService :: "nsp_env \<Rightarrow> net \<Rightarrow> nat \<Rightarrow> set_service_op \<Rightarrow> client \<Rightarrow> service \<Rightarrow> int call" where
  "NSPSetService E N lpqsRegInfo essOperation c s =
     (let act = (case essOperation of
          RNRSERVICE_REGISTER \<Rightarrow> [MYNSP_REGISTER_SERVICE]
        | RNRSERVICE_DELETE \<Rightarrow> [MYNSP_DEREGISTER_SERVICE]
        | RNRSERVICE_DEREGISTER \<Rightarrow> local_var E 1) in
      case MyNspConnect N c of
        (None, c) \<Rightarrow> Some (SOCKET_ERROR, c, s)
      | (Some l, c) \<Rightarrow> do {
          let l = answer l act;
          (nLeft, m) \<leftarrow> MarshallServiceInfo (cmem c) lpqsRegInfo (databuf c);
          let c = c\<lparr>cmem := m\<rparr>;
          let l = answer l (u32_bytes nLeft);
          l \<leftarrow> write_buffer l m (databuf c) nLeft;
          (l, s) \<leftarrow> run_service E N l s;
          let (retcode, l) = read_reply E l;
          if retcode = MYNSP_ERROR then Some (SOCKET_ERROR, leave (close_link l) (c\<lparr>last_error := WSAEINVAL\<rparr>), s)
          else Some (NO_ERROR, leave (close_link l) c, s) })"

definition NSPInstallServiceClass :: "nsp_env \<Rightarrow> net \<Rightarrow> nat \<Rightarrow> client \<Rightarrow> service \<Rightarrow> int call" where
  "NSPInstallServiceClass E N lpServiceClassInfo c s =
     (case MyNspConnect N c of
        (None, c) \<Rightarrow> Some (SOCKET_ERROR, c, s)
      | (Some l, c) \<Rightarrow> do {
          let l = answer l [MYNSP_REGISTER_CLASS];
          (nLeft, m) \<leftarrow> MarshallServiceClassInfo (cmem c) lpServiceClassInfo (databuf c);
          let c = c\<lparr>cmem := m\<rparr>;
          let l = answer l (u32_bytes nLeft);
          l \<leftarrow> write_buffer l m (databuf c) nLeft;
          (l, s) \<leftarrow> run_service E N l s;
          let (retcode, l) = read_reply E l;
          if retcode = MYNSP_ERROR then Some (SOCKET_ERROR, leave (close_link l) (c\<lparr>last_error := WSAEALREADY\<rparr>), s)
          else Some (NO_ERROR, leave (close_link l) c, s) })"

definition NSPRemoveServiceClass :: "nsp_env \<Rightarrow> net \<Rightarrow> nat \<Rightarrow> client \<Rightarrow> service \<Rightarrow> int call" where
  "NSPRemoveServiceClass E N classId c s =
     (case MyNspConnect N c of
        (None, c) \<Rightarrow> Some (SOCKET_ERROR, c, s)
      | (Some l, c) \<Rightarrow> do {
          let l = answer l [MYNSP_DEREGISTER_CLASS];
          guid \<leftarrow> read_bytes (cmem c) classId (unat sizeof_GUID);
          let l = answer l guid;
          (l, s) \<leftarrow> run_service E N l s;
          let (retcode, l) = read_reply E l;
          if retcode = MYNSP_ERROR then Some (SOCKET_ERROR, leave (close_link l) (c\<lparr>last_error := WSATYPE_NOT_FOUND\<rparr>), s)
          else Some (NO_ERROR, leave (close_link l) c, s) })"

text \<open>
  The identifier that is sent is that of the provider; the result has \<open>*lpdwBufSize\<close>.  Where the
  reply is refused the socket is not closed.
\<close>

definition NSPGetServiceClassInfo :: "nsp_env \<Rightarrow> net \<Rightarrow> nat \<Rightarrow> dword \<Rightarrow> nat \<Rightarrow> client \<Rightarrow> service \<Rightarrow> (int \<times> dword) call" where
  "NSPGetServiceClassInfo E N providerId bufSize lpServiceClassInfo c s =
     (case MyNspConnect N c of
        (None, c) \<Rightarrow> Some ((SOCKET_ERROR, bufSize), c, s)
      | (Some l, c) \<Rightarrow> do {
          let l = answer l [MYNSP_LOOKUP_CLASS];
          guid \<leftarrow> read_bytes (cmem c) providerId (unat sizeof_GUID);
          let l = answer l guid;
          (l, s) \<leftarrow> run_service E N l s;
          let (bytes2follow, l) = read_reply E l;
          if bytes2follow = -1 then Some ((SOCKET_ERROR, bufSize), leave l (c\<lparr>last_error := WSATYPE_NOT_FOUND\<rparr>), s)
          else if bufSize < bytes2follow then Some ((SOCKET_ERROR, bytes2follow), leave l (c\<lparr>last_error := WSAEFAULT\<rparr>), s)
          else do {
            let (got, cnt, l) = readdata l MARSHALL_BUFFER_SZ bytes2follow;
            m \<leftarrow> write_bytes (cmem c) (databuf c) got;
            m \<leftarrow> DeMarshallServiceClassInfo m lpServiceClassInfo (databuf c);
            Some ((NO_ERROR, bufSize), leave (close_link l) (c\<lparr>cmem := m\<rparr>), s) } })"

section \<open>Start and end\<close>

datatype nsp_routine =
    CleanupRoutine | LookupBeginRoutine | LookupNextRoutine | LookupEndRoutine | SetServiceRoutine
  | InstallClassRoutine | RemoveClassRoutine | GetClassInfoRoutine

record nsp_routines =
  cbSize :: nat
  dwMajorVersion :: nat
  dwMinorVersion :: nat
  entries_of :: "(string \<times> nsp_routine) list"

text \<open>\<open>FIELD_OFFSET(NSP_ROUTINE, NSPIoctl)\<close>: three 32-bit members and eight pointers.\<close>

definition NSPStartup :: "nsp_routines" where
  "NSPStartup = \<lparr>cbSize = 44, dwMajorVersion = 4, dwMinorVersion = 4, entries_of =
     [(''NSPCleanup'', CleanupRoutine), (''NSPLookupServiceBegin'', LookupBeginRoutine),
      (''NSPLookupServiceNext'', LookupNextRoutine), (''NSPLookupServiceEnd'', LookupEndRoutine),
      (''NSPSetService'', SetServiceRoutine), (''NSPInstallServiceClass'', InstallClassRoutine),
      (''NSPRemoveServiceClass'', RemoveClassRoutine), (''NSPGetServiceClassInfo'', GetClassInfoRoutine)]\<rparr>"

definition NSPCleanup :: int where "NSPCleanup = NO_ERROR"

end
