(* ===== verification/NspWrite.thy ===== *)
theory NspWrite
  imports NspMarshal
begin

text \<open>
  Marshalling computes the concatenation of the structure and everything its members refer to.  The
  extents of the members share a contract, \<open>sized\<close>: what they say depends only on the bytes referred
  to and on the lengths stored in the structure.
\<close>

section \<open>Memories that extend one another\<close>

text \<open>
  Addresses of a 32-bit process: its first page is not mapped, and one past the end of an object
  has an address too.
\<close>

definition addr_space :: "memory \<Rightarrow> bool" where
  "addr_space m \<longleftrightarrow> dom m \<subseteq> {0<..<2 ^ 32 - 1}"

lemma read_bytes_le: "m \<subseteq>\<^sub>m m' \<Longrightarrow> read_bytes m p n = Some bs \<Longrightarrow> read_bytes m' p n = Some bs"
  by (auto simp: read_bytes_iff map_le_def dom_def)

lemma read_u32_le: "m \<subseteq>\<^sub>m m' \<Longrightarrow> read_u32 m p = Some w \<Longrightarrow> read_u32 m' p = Some w"
  by (auto simp: read_u32_iff intro: read_bytes_le)

lemma read_wchar_le: "m \<subseteq>\<^sub>m m' \<Longrightarrow> read_wchar m p = Some c \<Longrightarrow> read_wchar m' p = Some c"
  by (auto simp: read_wchar_def split: Option.bind_splits dest: read_bytes_le)

lemma read_wstr_le: "m \<subseteq>\<^sub>m m' \<Longrightarrow> read_wstr m p = Some cs \<Longrightarrow> read_wstr m' p = Some cs"
proof (induction cs arbitrary: p)
  case Nil
  then show ?case by (simp add: read_wstr_Some [of _ _ "[]"] read_wchar_le)
next
  case (Cons c cs)
  then show ?case by (simp add: read_wstr_Some [of _ _ "c # cs"] read_wchar_le)
qed

lemma addr_space_le: "addr_space m' \<Longrightarrow> m \<subseteq>\<^sub>m m' \<Longrightarrow> addr_space m"
  unfolding addr_space_def by (meson map_le_implies_dom_le order_trans)

lemma without_le: "without m p n \<subseteq>\<^sub>m m"
  by (simp add: without_def map_le_def)

section \<open>Extents\<close>

lemma field_value_iff:
  "field_value ext obj off m = Some v \<longleftrightarrow> (\<exists>p. read_u32 m (obj + off) = Some p \<and>
     (if p = 0 then v = None
      else \<exists>sz bs. ext m obj (unat p) = Some sz \<and> read_bytes m (unat p) (unat sz) = Some bs \<and> v = Some bs))"
  by (auto simp: field_value_def bind_eq_Some_conv)

locale sized =
  fixes ext :: extent and cnts :: "nat set"
  assumes mono: "m \<subseteq>\<^sub>m m' \<Longrightarrow> ext m obj p = Some sz \<Longrightarrow> ext m' obj p = Some sz"
    and move: "ext m obj p = Some sz \<Longrightarrow> read_bytes m p (unat sz) = Some bs \<Longrightarrow> read_bytes m' q (unat sz) = Some bs \<Longrightarrow>
      (\<And>k w. k \<in> cnts \<Longrightarrow> read_u32 m (obj + k) = Some w \<Longrightarrow> read_u32 m' (obj' + k) = Some w) \<Longrightarrow>
      addr_space m \<Longrightarrow> p \<noteq> 0 \<Longrightarrow> ext m' obj' q = Some sz"
begin

lemma field_value_le: "m \<subseteq>\<^sub>m m' \<Longrightarrow> field_value ext obj off m = Some v \<Longrightarrow> field_value ext obj off m' = Some v"
  unfolding field_value_iff by (auto split: if_splits dest: read_u32_le mono read_bytes_le)

end

lemma wstr_extent:
  assumes "read_wstr m p = Some cs" and "addr_space m" and "p \<noteq> 0"
  shows "unat ((of_nat (length cs) + 1) * 2 :: dword) = 2 * length cs + 2"
proof -
  have "m (p + (2 * length cs + 1)) \<noteq> None" using read_wstr_allocated [OF assms(1)] by (auto simp: allocated_def)
  then have "p + (2 * length cs + 1) < 2 ^ 32" using assms(2) by (auto simp: addr_space_def dom_def)
  then have lt: "2 * length cs + 2 < 2 ^ 32" using assms(3) by linarith
  have "(of_nat (length cs) + 1) * 2 = (of_nat (2 * length cs + 2) :: dword)" by simp
  moreover have "unat (of_nat (2 * length cs + 2) :: dword) = 2 * length cs + 2"
    using lt by (simp only: unat_of_nat) simp
  ultimately show ?thesis by metis
qed

interpretation wstr: sized of_wstr cnts for cnts
proof
  fix m m' :: memory and obj p sz
  assume "m \<subseteq>\<^sub>m m'" "of_wstr m obj p = Some sz"
  then show "of_wstr m' obj p = Some sz"
    by (auto simp: of_wstr_def lstrlenW_def split: Option.bind_splits dest: read_wstr_le)
next
  fix m m' :: memory and obj obj' p q sz bs
  assume e: "of_wstr m obj p = Some sz" and b: "read_bytes m p (unat sz) = Some bs" "read_bytes m' q (unat sz) = Some bs"
    and a: "addr_space m" "p \<noteq> 0"
  from e obtain cs where cs: "read_wstr m p = Some cs" and sz: "sz = (of_nat (length cs) + 1) * 2"
    by (auto simp: of_wstr_def lstrlenW_def split: Option.bind_splits)
  have n: "unat sz = 2 * length cs + 2" unfolding sz by (rule wstr_extent [OF cs a])
  have "read_wstr m' q = Some cs"
    by (rule read_wstr_move [OF cs]) (use b [unfolded n read_bytes_iff] in simp)
  then show "of_wstr m' obj' q = Some sz" by (simp add: of_wstr_def lstrlenW_def sz)
qed

interpretation fixed: sized "of_size k" cnts for k cnts
  by unfold_locales (simp_all add: of_size_def)

lemma sized_array: "cnt \<in> cnts \<Longrightarrow> sized (of_array k cnt) cnts"
  by unfold_locales (auto simp: of_array_def split: Option.bind_splits dest: read_u32_le)

interpretation array: sized "of_array k cnt" "insert cnt cnts" for k cnt cnts
  by (rule sized_array) simp

section \<open>Writing one member\<close>

definition bytes_of :: "field \<Rightarrow> byte list" where
  "bytes_of v = (case v of None \<Rightarrow> [] | Some bs \<Rightarrow> bs)"

lemma field_bytes_simps [simp]:
  "field_bytes [] = []" "field_bytes (v # vs) = bytes_of v @ field_bytes vs" "bytes_of None = []" "bytes_of (Some bs) = bs"
  by (simp_all add: field_bytes_def bytes_of_def)

text \<open>A buffer of \<open>cap\<close> bytes; \<open>r\<close> is the memory that is read, none of which is in the buffer.\<close>

definition buffer :: "memory \<Rightarrow> memory \<Rightarrow> nat \<Rightarrow> nat \<Rightarrow> bool" where
  "buffer m r buf cap \<longleftrightarrow> r \<subseteq>\<^sub>m m \<and> (\<forall>a. buf \<le> a \<and> a < buf + cap \<longrightarrow> r a = None) \<and> allocated m buf cap \<and> m (buf + cap) = None"

lemma buffer_without: "allocated m buf cap \<Longrightarrow> m (buf + cap) = None \<Longrightarrow> buffer m (without m buf cap) buf cap"
  by (simp add: buffer_def without_le) (simp add: without_def)

lemma buffer_le: "buffer m r buf cap \<Longrightarrow> length bs \<le> cap \<Longrightarrow> r \<subseteq>\<^sub>m stored m buf bs"
  by (fastforce simp: buffer_def map_le_def stored_def dom_def)

lemma ranges_apart:
  fixes r :: memory
  assumes "\<And>i. i < n \<Longrightarrow> r (src + i) \<noteq> None" and "\<And>a. buf \<le> a \<Longrightarrow> a < buf + cap \<Longrightarrow> r a = None"
    and "buf \<le> dst" "dst + n \<le> buf + cap"
  shows "n = 0 \<or> dst + n \<le> src \<or> src + n \<le> dst"
proof (rule ccontr)
  assume "\<not> ?thesis"
  then have "0 < n" "src < dst + n" "dst < src + n" by auto
  then have "r (max src dst) = None" using assms(3,4) by (intro assms(2)) auto
  moreover have "max src dst - src < n" "src + (max src dst - src) = max src dst" using \<open>dst < src + n\<close> \<open>0 < n\<close> by auto
  ultimately show False using assms(1) [of "max src dst - src"] by simp
qed

text \<open>One copy into the buffer behind what is there: it fits, or its effect is not defined.\<close>

lemma memcpy_append:
  assumes b: "buffer m r buf cap" and len: "length bs \<le> cap" and src: "read_bytes r src n = Some e"
  shows "memcpy (stored m buf bs) (buf + length bs) src n =
    (if length bs + length e \<le> cap then Some (stored m buf (bs @ e)) else None)"
proof -
  have n: "length e = n" and some: "\<And>i. i < n \<Longrightarrow> r (src + i) \<noteq> None" using src by (auto simp: read_bytes_iff)
  have rd: "read_bytes (stored m buf bs) src n = Some e" by (rule read_bytes_le [OF buffer_le [OF b len] src])
  show ?thesis
  proof (cases "length bs + length e \<le> cap")
    case True
    have free: "\<And>a. buf \<le> a \<Longrightarrow> a < buf + cap \<Longrightarrow> r a = None" using b by (simp add: buffer_def)
    have ap: "n = 0 \<or> buf + length bs + n \<le> src \<or> src + n \<le> buf + length bs"
      using True n by (intro ranges_apart [where r = r and buf = buf and cap = cap, OF some free]) simp_all
    have "allocated m buf cap" using b by (simp add: buffer_def)
    then have "allocated (stored m buf bs) (buf + length bs) n"
      by (intro allocated_stored, elim allocated_sub) (use True n in simp_all)
    then show ?thesis unfolding memcpy_eq [OF rd ap] stored_append using True by simp
  next
    case False
    have "\<not> allocated (stored m buf bs) (buf + length bs) n"
      unfolding allocated_def
    proof (rule notI)
      assume a: "\<forall>i<n. stored m buf bs (buf + length bs + i) \<noteq> None"
      have "cap - length bs < n" using False n len by simp
      with a have "stored m buf bs (buf + length bs + (cap - length bs)) \<noteq> None" by blast
      moreover have "buf + length bs + (cap - length bs) = buf + cap" using len by simp
      ultimately show False using b len by (simp add: stored_def buffer_def)
    qed
    then have "memcpy (stored m buf bs) (buf + length bs) src n = None"
      using rd n by (simp add: memcpy_def write_bytes_eq)
    then show ?thesis using False by simp
  qed
qed

text \<open>What a writer of the bytes \<open>e\<close> does in a buffer.\<close>

definition appends :: "memory \<Rightarrow> memory \<Rightarrow> nat \<Rightarrow> nat \<Rightarrow> (nat \<times> dword \<times> memory \<Rightarrow> (nat \<times> dword \<times> memory) option) \<Rightarrow> byte list \<Rightarrow> bool" where
  "appends m r buf cap f e \<longleftrightarrow> (\<forall>bs t. length bs \<le> cap \<longrightarrow> f (buf + length bs, t, stored m buf bs) =
     (if length bs + length e \<le> cap then Some (buf + length (bs @ e), t + of_nat (length e), stored m buf (bs @ e)) else None))"

lemma appends_nothing: "(\<And>bs t. length bs \<le> cap \<Longrightarrow> f (buf + length bs, t, stored m buf bs) = Some (buf + length bs, t, stored m buf bs)) \<Longrightarrow>
    appends m r buf cap f []"
  by (simp add: appends_def)

lemma appends_seq:
  assumes "appends m r buf cap f e" and "appends m r buf cap g e'"
  shows "appends m r buf cap (\<lambda>c. do { c \<leftarrow> f c; g c }) (e @ e')"
  unfolding appends_def
proof (intro allI impI)
  fix bs :: "byte list" and t :: dword assume "length bs \<le> cap"
  with assms(1) have f: "f (buf + length bs, t, stored m buf bs) =
      (if length bs + length e \<le> cap then Some (buf + length (bs @ e), t + of_nat (length e), stored m buf (bs @ e)) else None)"
    unfolding appends_def by blast
  show "(do { c \<leftarrow> f (buf + length bs, t, stored m buf bs); g c }) =
      (if length bs + length (e @ e') \<le> cap then Some (buf + length (bs @ e @ e'), t + of_nat (length (e @ e')), stored m buf (bs @ e @ e')) else None)"
  proof (cases "length bs + length e \<le> cap")
    case True
    then have "length (bs @ e) \<le> cap" by simp
    with assms(2) have "g (buf + length (bs @ e), t + of_nat (length e), stored m buf (bs @ e)) =
        (if length (bs @ e) + length e' \<le> cap
         then Some (buf + length ((bs @ e) @ e'), t + of_nat (length e) + of_nat (length e'), stored m buf ((bs @ e) @ e')) else None)"
      unfolding appends_def by blast
    with f True show ?thesis by (simp add: add.assoc)
  next
    case False
    with f show ?thesis by simp
  qed
qed

context sized
begin

lemma put_field_appends:
  assumes b: "buffer m r buf cap" and v: "field_value ext obj off r = Some v"
  shows "appends m r buf cap (put_field ext obj off) (bytes_of v)"
  unfolding appends_def
proof (intro allI impI)
  fix bs :: "byte list" and t :: dword
  assume len: "length bs \<le> cap"
  let ?m = "stored m buf bs"
  have le: "r \<subseteq>\<^sub>m ?m" by (rule buffer_le [OF b len])
  obtain p where p: "read_u32 r (obj + off) = Some p" using v by (auto simp: field_value_iff)
  show "put_field ext obj off (buf + length bs, t, ?m) =
     (if length bs + length (bytes_of v) \<le> cap
      then Some (buf + length (bs @ bytes_of v), t + of_nat (length (bytes_of v)), stored m buf (bs @ bytes_of v)) else None)"
  proof (cases "p = 0")
    case True
    then show ?thesis using v p len read_u32_le [OF le p] by (simp add: field_value_def put_field_def)
  next
    case False
    then obtain sz e where sz: "ext r obj (unat p) = Some sz" and e: "read_bytes r (unat p) (unat sz) = Some e" and ve: "v = Some e"
      using v p by (auto simp: field_value_iff)
    have n: "unat sz = length e" using e by (simp add: read_bytes_iff)
    moreover have "of_nat (unat sz) = sz" by simp
    ultimately have "of_nat (length e) = sz" by metis
    then show ?thesis
      using False read_u32_le [OF le p] mono [OF le sz] memcpy_append [OF b len e] n ve by (simp add: put_field_def)
  qed
qed

end

section \<open>Writing the addresses\<close>

lemma put_addr_appends:
  assumes b: "buffer m r buf cap" and v: "addr_value r w = Some e"
  shows "appends m r buf cap (put_addr w) e"
  unfolding appends_def
proof (intro allI impI)
  fix bs :: "byte list" and t :: dword
  assume len: "length bs \<le> cap"
  let ?m = "stored m buf bs"
  have le: "r \<subseteq>\<^sub>m ?m" by (rule buffer_le [OF b len])
  obtain sz a where sz: "read_u32 r (w + 4) = Some sz" "read_u32 r w = Some a" and e: "read_bytes r (unat a) (unat sz) = Some e"
    using v by (auto simp: addr_value_def split: Option.bind_splits)
  have n: "unat sz = length e" using e by (simp add: read_bytes_iff)
  moreover have "of_nat (unat sz) = sz" by simp
  ultimately have "of_nat (length e) = sz" by metis
  then show "put_addr w (buf + length bs, t, ?m) =
     (if length bs + length e \<le> cap then Some (buf + length (bs @ e), t + of_nat (length e), stored m buf (bs @ e)) else None)"
    using read_u32_le [OF le sz(1)] read_u32_le [OF le sz(2)] memcpy_append [OF b len e] n by (simp add: put_addr_def)
qed

lemma addr_bytes_simps [simp]: "addr_bytes [] = []" "addr_bytes ((l, r, x) # vs) = l @ r @ addr_bytes vs"
  by (simp_all add: addr_bytes_def)

lemma put_addrs_appends:
  assumes b: "buffer m r buf cap" and "addr_values r p is = Some vs"
  shows "appends m r buf cap (put_addrs p is) (addr_bytes vs)"
  using assms(2)
proof (induction "is" arbitrary: vs)
  case Nil
  then show ?case by (auto intro: appends_nothing)
next
  case (Cons i "is")
  then obtain l q x us where v: "addr_value r (p + 24 * i) = Some l" "addr_value r (p + 24 * i + 8) = Some q"
      "addr_values r p is = Some us" and vs: "vs = (l, q, x) # us"
    by (auto split: Option.bind_splits)
  have "appends m r buf cap (\<lambda>c. do { c \<leftarrow> put_addr (p + 24 * i) c; (\<lambda>c. do { c \<leftarrow> put_addr (p + 24 * i + 8) c; put_addrs p is c }) c })
      (l @ q @ addr_bytes us)"
    by (intro appends_seq put_addr_appends [OF b] v Cons.IH)
  moreover have "put_addrs p (i # is) = (\<lambda>c. do { c \<leftarrow> put_addr (p + 24 * i) c; (\<lambda>c. do { c \<leftarrow> put_addr (p + 24 * i + 8) c; put_addrs p is c }) c })"
    by (rule ext) simp
  ultimately show ?case by (simp add: vs)
qed

section \<open>What a buffer holds after marshalling\<close>

fun put_fields :: "(nat \<times> extent) list \<Rightarrow> nat \<Rightarrow> nat \<times> dword \<times> memory \<Rightarrow> (nat \<times> dword \<times> memory) option" where
  "put_fields [] obj c = Some c"
| "put_fields ((off, ext) # fs) obj c = do { c \<leftarrow> put_field ext obj off c; put_fields fs obj c }"

lemma put_fields_appends:
  assumes b: "buffer m r buf cap" and "field_values fs obj r = Some vs" and "\<forall>(off, ext) \<in> set fs. sized ext cnts"
  shows "appends m r buf cap (put_fields fs obj) (field_bytes vs)"
  using assms(2,3)
proof (induction fs arbitrary: vs)
  case Nil
  then show ?case by (auto intro: appends_nothing)
next
  case (Cons f fs)
  obtain off ext where f: "f = (off, ext)" by force
  with Cons.prems obtain v us where v: "field_value ext obj off r = Some v" "field_values fs obj r = Some us" and vs: "vs = v # us"
    by (auto simp: bind_eq_Some_conv)
  have s: "sized ext cnts" using Cons.prems(2) f by simp
  have "appends m r buf cap (\<lambda>c. do { c \<leftarrow> put_field ext obj off c; put_fields fs obj c }) (bytes_of v @ field_bytes us)"
    by (intro appends_seq sized.put_field_appends [OF s b v(1)] Cons.IH v) (use Cons.prems in auto)
  moreover have "put_fields (f # fs) obj = (\<lambda>c. do { c \<leftarrow> put_field ext obj off c; put_fields fs obj c })"
    by (rule ext) (simp add: f)
  ultimately show ?case by (simp add: vs)
qed

lemma class_fields_sized: "\<forall>(off, ext) \<in> set class_fields. sized ext {dwCount}"
  by (simp add: class_fields_def wstr.sized_axioms fixed.sized_axioms sized_array)

lemma query_fields_sized: "\<forall>(off, ext) \<in> set query_fields. sized ext {qs_dwNumberOfProtocols, qs_dwNumberOfCsAddrs}"
  by (simp add: query_fields_def wstr.sized_axioms fixed.sized_axioms sized_array)

text \<open>The whole structure: its own bytes, then what a writer of \<open>e\<close> appends.\<close>

lemma header_then:
  assumes b: "buffer m r buf cap" and h: "read_bytes r obj k = Some hb" and f: "appends m r buf cap f e"
  shows "(do { m \<leftarrow> memcpy m buf obj k; c \<leftarrow> f (buf + k, of_nat k, m); Some (snd c) }) =
    (if k + length e \<le> cap then Some (of_nat (k + length e), stored m buf (hb @ e)) else None)"
proof -
  have k: "k = length hb" using h by (simp add: read_bytes_iff)
  have c: "memcpy m buf obj k = (if k \<le> cap then Some (stored m buf hb) else None)"
    using memcpy_append [OF b, of "[]" obj k hb] h k by simp
  show ?thesis
  proof (cases "k \<le> cap")
    case True
    with f k have "f (buf + length hb, of_nat k, stored m buf hb) = (if length hb + length e \<le> cap
        then Some (buf + length (hb @ e), of_nat k + of_nat (length e), stored m buf (hb @ e)) else None)"
      unfolding appends_def by blast
    with c True k show ?thesis by simp
  qed (use c in simp)
qed

lemma pick_snd: "(\<lambda>(a, c). Some c) = (\<lambda>x. Some (snd x))" "(\<lambda>(ptr, totalsz, m). Some (totalsz, m)) = (\<lambda>x. Some (snd x))"
  by (simp_all add: fun_eq_iff)

lemma Marshall_class_eq:
  assumes b: "buffer m r buf cap" and v: "class_value r sc = Some v"
  shows "\<exists>hb. read_bytes r sc 16 = Some hb \<and> MarshallServiceClassInfo m sc buf =
    (if class_size v \<le> cap then Some (of_nat (class_size v), stored m buf (hb @ field_bytes (snd v))) else None)"
proof -
  obtain hb where hb: "read_bytes r sc 16 = Some hb" and f: "field_values class_fields sc r = Some (snd v)"
    using v by (auto simp: class_value_def bind_eq_Some_conv sizeof_SERVICECLASSINFO_def)
  note a = put_fields_appends [OF b f class_fields_sized]
  have "MarshallServiceClassInfo m sc buf =
      (do { m \<leftarrow> memcpy m buf sc 16; c \<leftarrow> put_fields class_fields sc (buf + 16, of_nat 16, m); Some (snd c) })"
    by (simp add: MarshallServiceClassInfo_def class_fields_def sizeof_SERVICECLASSINFO_def pick_snd)
  with header_then [OF b hb a] hb show ?thesis by (simp add: class_size_def)
qed

text \<open>The array of addresses is copied as it is.\<close>

lemma addr_values_allocated: "addr_values r p is = Some vs \<Longrightarrow> i \<in> set is \<Longrightarrow> allocated r (p + 24 * i) 24"
proof (induction "is" arbitrary: vs)
  case (Cons j "is")
  show ?case
  proof (cases "i = j")
    case True
    with Cons.prems obtain l q where "addr_value r (p + 24 * i) = Some l" "addr_value r (p + 24 * i + 8) = Some q"
        "allocated r (p + 24 * i + 16) 8"
      by (auto simp: bind_eq_Some_conv allocated_def read_bytes_iff)
    then have a: "allocated r (p + 24 * i) 4" "allocated r (p + 24 * i + 4) 4" "allocated r (p + 24 * i + 8) 4"
        "allocated r (p + 24 * i + 12) 4" "allocated r (p + 24 * i + 16) 8"
      by (auto simp: addr_value_def bind_eq_Some_conv read_u32_iff allocated_def read_bytes_iff add.assoc)
    show ?thesis unfolding allocated_def
    proof (intro allI impI)
      fix j :: nat assume j: "j < 24"
      have *: "r (p + 24 * i + (o' + k)) \<noteq> None" if "allocated r (p + 24 * i + o') n" "k < n" for o' k n
        using that by (simp add: allocated_def add.assoc)
      show "r (p + 24 * i + j) \<noteq> None"
      proof -
        consider "j < 4" | "4 \<le> j \<and> j - 4 < 4" | "8 \<le> j \<and> j - 8 < 4" | "12 \<le> j \<and> j - 12 < 4" | "16 \<le> j \<and> j - 16 < 8"
          using j by linarith
        then show ?thesis
        proof cases
          case 1 then show ?thesis using *[of 0 4 j] a(1) by simp
        next
          case 2 then show ?thesis using *[OF a(2), of "j - 4"] by simp
        next
          case 3 then show ?thesis using *[OF a(3), of "j - 8"] by simp
        next
          case 4 then show ?thesis using *[OF a(4), of "j - 12"] by simp
        next
          case 5 then show ?thesis using *[OF a(5), of "j - 16"] by simp
        qed
      qed
    qed
  next
    case False
    with Cons show ?thesis by (auto simp: bind_eq_Some_conv)
  qed
qed simp

lemma addr_array:
  assumes "addr_values r p [0..<n] = Some vs"
  shows "\<exists>ab. read_bytes r p (24 * n) = Some ab"
proof -
  have "allocated r p (24 * n)" unfolding allocated_def
  proof (intro allI impI)
    fix j assume "j < 24 * n"
    then have "j div 24 \<in> set [0..<n]" by (simp add: div_less_iff_less_mult mult.commute)
    from addr_values_allocated [OF assms this] have "\<forall>i<24. r (p + 24 * (j div 24) + i) \<noteq> None"
      unfolding allocated_def .
    moreover have "j mod 24 < 24" by simp
    ultimately have "r (p + 24 * (j div 24) + j mod 24) \<noteq> None" by blast
    moreover have "p + 24 * (j div 24) + j mod 24 = p + j" by simp
    ultimately show "r (p + j) \<noteq> None" by metis
  qed
  then show ?thesis using read_bytes_None [of r p "24 * n"] by auto
qed

lemma length_addr_values: "addr_values r p is = Some vs \<Longrightarrow> length vs = length is"
  by (induction "is" arbitrary: vs) (auto simp: bind_eq_Some_conv)

lemma csaddrs_value_iff:
  "csaddrs_value m qs = Some v \<longleftrightarrow> (\<exists>p. read_u32 m (qs + 48) = Some p \<and>
     (if p = 0 then v = None
      else \<exists>n vs. read_u32 m (qs + 44) = Some n \<and> 24 * unat n < 2 ^ 32 \<and> addr_values m (unat p) [0..<unat n] = Some vs \<and> v = Some vs))"
  unfolding csaddrs_value_def layout by (auto simp: bind_eq_Some_conv split: if_splits)

lemma unat_array: "24 * unat (n :: dword) < 2 ^ 32 \<Longrightarrow> unat (24 * n) = 24 * unat n"
  by (simp add: unat_word_ariths)

text \<open>The bytes the addresses take: the array itself and what its entries refer to.\<close>

definition csaddrs_image :: "memory \<Rightarrow> nat \<Rightarrow> csaddr list option \<Rightarrow> byte list" where
  "csaddrs_image r qs as =
     (case as of
        None \<Rightarrow> []
      | Some vs \<Rightarrow> the (read_bytes r (unat (the (read_u32 r (qs + 48)))) (24 * length vs)) @ addr_bytes vs)"

lemma put_csaddrs_appends:
  assumes b: "buffer m r buf cap" and v: "csaddrs_value r qs = Some as" and n: "read_u32 r (qs + 44) = Some n"
  shows "appends m r buf cap (put_csaddrs qs) (csaddrs_image r qs as)"
proof -
  obtain p where p: "read_u32 r (qs + 48) = Some p" using v by (auto simp: csaddrs_value_iff)
  have le: "length bs \<le> cap \<Longrightarrow> r \<subseteq>\<^sub>m stored m buf bs" for bs by (rule buffer_le [OF b])
  show ?thesis
  proof (cases "p = 0")
    case True
    then have "as = None" using v p by (simp add: csaddrs_value_iff)
    moreover have "put_csaddrs qs (buf + length bs, t, stored m buf bs) = Some (buf + length bs, t, stored m buf bs)"
      if "length bs \<le> cap" for bs t
      using read_u32_le [OF le [OF that] p] read_u32_le [OF le [OF that] n] True
      by (simp add: put_csaddrs_def put_field_def layout)
    ultimately show ?thesis by (simp add: csaddrs_image_def appends_nothing)
  next
    case False
    then obtain vs where vs: "addr_values r (unat p) [0..<unat n] = Some vs" "as = Some vs" "24 * unat n < 2 ^ 32"
      using v p n by (auto simp: csaddrs_value_iff)
    obtain ab where ab: "read_bytes r (unat p) (24 * unat n) = Some ab" using addr_array [OF vs(1)] by blast
    have "field_value (of_array 24 44) qs 48 r = Some (Some ab)"
      using False p n ab unat_array [OF vs(3)] by (simp add: field_value_iff of_array_def)
    from sized.put_field_appends [OF sized_array [of 44 "{44}"] b this]
    have "appends m r buf cap (\<lambda>c. do { c \<leftarrow> put_field (of_array 24 44) qs 48 c; put_addrs (unat p) [0..<unat n] c })
        (bytes_of (Some ab) @ addr_bytes vs)"
      by (intro appends_seq put_addrs_appends [OF b vs(1)]) simp
    moreover have "put_csaddrs qs (buf + length bs, t, stored m buf bs) =
        (do { c \<leftarrow> put_field (of_array 24 44) qs 48 (buf + length bs, t, stored m buf bs); put_addrs (unat p) [0..<unat n] c })"
      if len: "length bs \<le> cap" for bs t
    proof -
      have 1: "read_u32 (stored m buf bs) (qs + 48) = Some p" by (rule read_u32_le [OF le [OF len] p])
      have 2: "read_u32 (snd (snd c)) (qs + 44) = Some n"
        if "put_field (of_array 24 44) qs 48 (buf + length bs, t, stored m buf bs) = Some c" for c
      proof -
        have "appends m r buf cap (put_field (of_array 24 44) qs 48) ab"
          using sized.put_field_appends [OF sized_array [of 44 "{44}"] b
            \<open>field_value (of_array 24 44) qs 48 r = Some (Some ab)\<close>] by simp
        with len that have "length (bs @ ab) \<le> cap" "snd (snd c) = stored m buf (bs @ ab)"
          by (auto simp: appends_def split: if_splits)
        then show ?thesis using read_u32_le [OF le n] by metis
      qed
      show ?thesis
        using 1 2 False by (auto simp: put_csaddrs_def layout split: Option.bind_split)
    qed
    ultimately have "appends m r buf cap (put_csaddrs qs) (ab @ addr_bytes vs)"
      unfolding appends_def by simp
    then show ?thesis using vs ab p length_addr_values [OF vs(1)] by (simp add: csaddrs_image_def)
  qed
qed

lemma Marshall_query_eq:
  assumes b: "buffer m r buf cap" and v: "query_value r qs = Some (ws, fs, as)"
  shows "\<exists>hb. read_bytes r qs 60 = Some hb \<and> MarshallServiceInfo m qs buf =
    (if query_size (ws, fs, as) \<le> cap
     then Some (of_nat (query_size (ws, fs, as)), stored m buf (hb @ field_bytes fs @ csaddrs_image r qs as)) else None)"
proof -
  obtain hb where hb: "read_bytes r qs 60 = Some hb" and f: "field_values query_fields qs r = Some fs"
      and as: "csaddrs_value r qs = Some as" and w: "words_at query_words qs r = Some ws"
    using v by (auto simp: query_value_def bind_eq_Some_conv sizeof_QUERYSET_def)
  obtain n where n: "read_u32 r (qs + 44) = Some n"
    using w by (auto simp: query_words_def bind_eq_Some_conv qs_dwNumberOfCsAddrs_def)
  have a: "appends m r buf cap (\<lambda>c. do { c \<leftarrow> put_fields query_fields qs c; put_csaddrs qs c }) (field_bytes fs @ csaddrs_image r qs as)"
    by (intro appends_seq put_fields_appends [OF b f query_fields_sized] put_csaddrs_appends [OF b as n])
  have len: "query_size (ws, fs, as) = 60 + length (field_bytes fs @ csaddrs_image r qs as)"
  proof (cases as)
    case None
    then show ?thesis by (simp add: query_size_def csaddrs_image_def)
  next
    case (Some vs)
    obtain p where p: "read_u32 r (qs + 48) = Some p" using as by (auto simp: csaddrs_value_iff)
    with as Some have "\<exists>k :: dword. addr_values r (unat p) [0..<unat k] = Some vs"
      by (auto simp: csaddrs_value_iff split: if_splits)
    then obtain k :: dword where vs: "addr_values r (unat p) [0..<unat k] = Some vs" ..
    obtain ab where ab: "read_bytes r (unat p) (24 * unat k) = Some ab" using addr_array [OF vs] by blast
    then have "length ab = 24 * unat k" by (simp add: read_bytes_iff)
    then show ?thesis
      using p ab length_addr_values [OF vs] by (simp add: query_size_def csaddrs_image_def Some)
  qed
  have "MarshallServiceInfo m qs buf = (do { m \<leftarrow> memcpy m buf qs 60;
      c \<leftarrow> (\<lambda>c. do { c \<leftarrow> put_fields query_fields qs c; put_csaddrs qs c }) (buf + 60, of_nat 60, m); Some (snd c) })"
    by (simp add: MarshallServiceInfo_def query_fields_def sizeof_QUERYSET_def pick_snd)
  with header_then [OF b hb a] hb len show ?thesis by simp
qed

end
