(* ===== verification/NspRead.thy ===== *)
theory NspRead
  imports NspWrite
begin

text \<open>
  Demarshalling puts back what marshalling took apart.  At every point the block under construction
  holds a prefix of the buffer in which some pointer words have been overwritten by addresses inside
  the block; a member that has been placed stays placed, whatever pointers are stored after it.
\<close>

section \<open>Words of a list of bytes\<close>

definition word_of :: "byte list \<Rightarrow> nat \<Rightarrow> dword" where
  "word_of B off = u32 (take 4 (drop off B))"

definition patch :: "byte list \<Rightarrow> nat \<Rightarrow> dword \<Rightarrow> byte list" where
  "patch B off w = take off B @ u32_bytes w @ drop (off + 4) B"

lemma length_patch: "off + 4 \<le> length B \<Longrightarrow> length (patch B off w) = length B"
  by (simp add: patch_def)

lemma nth_patch: "off + 4 \<le> length B \<Longrightarrow> i < length B \<Longrightarrow>
    patch B off w ! i = (if off \<le> i \<and> i < off + 4 then u32_bytes w ! (i - off) else B ! i)"
  by (auto simp: patch_def nth_append)

lemma word_of_patch: "off + 4 \<le> length B \<Longrightarrow> word_of (patch B off w) off = w"
  by (simp add: word_of_def patch_def)

lemma read_u32_block: "off + 4 \<le> length B \<Longrightarrow> read_u32 (stored m p B) (p + off) = Some (word_of B off)"
  by (simp add: read_u32_def word_of_def read_stored_within)

text \<open>
  \<open>grown X B B'\<close>: \<open>B'\<close> is \<open>B\<close> with bytes appended and with words at the offsets \<open>X\<close> overwritten.
\<close>

definition grown :: "nat set \<Rightarrow> byte list \<Rightarrow> byte list \<Rightarrow> bool" where
  "grown X B B' \<longleftrightarrow> length B \<le> length B' \<and>
     (\<forall>i<length B. (\<forall>off\<in>X. \<not> (off \<le> i \<and> i < off + 4)) \<longrightarrow> B' ! i = B ! i)"

lemma grown_refl [simp]: "grown X B B"
  by (simp add: grown_def)

lemma grown_trans:
  assumes 1: "grown X B B1" and 2: "grown Y B1 B2" and "X \<union> Y \<subseteq> Z"
  shows "grown Z B B2"
  unfolding grown_def
proof (intro conjI allI impI)
  show "length B \<le> length B2" using 1 2 by (simp add: grown_def)
next
  fix i assume i: "i < length B" and away: "\<forall>off\<in>Z. \<not> (off \<le> i \<and> i < off + 4)"
  have "B1 ! i = B ! i" using 1 i away assms(3) unfolding grown_def by (meson Un_upper1 subset_iff)
  moreover have "i < length B1" using 1 i by (simp add: grown_def)
  then have "B2 ! i = B1 ! i" using 2 away assms(3) unfolding grown_def by (meson Un_upper2 subset_iff)
  ultimately show "B2 ! i = B ! i" by simp
qed

lemma grown_patch: "off + 4 \<le> length B \<Longrightarrow> grown {off} B (patch B off w @ e)"
  by (simp add: grown_def length_patch nth_append nth_patch)

text \<open>What lies apart from the overwritten words is kept.\<close>

definition apart :: "nat set \<Rightarrow> nat \<Rightarrow> nat \<Rightarrow> bool" where
  "apart X pos n \<longleftrightarrow> (\<forall>off\<in>X. off + 4 \<le> pos \<or> pos + n \<le> off)"

lemma apart_Un [simp]: "apart (X \<union> Y) pos n \<longleftrightarrow> apart X pos n \<and> apart Y pos n" "apart {} pos n"
    "apart (insert off X) pos n \<longleftrightarrow> (off + 4 \<le> pos \<or> pos + n \<le> off) \<and> apart X pos n"
  by (auto simp: apart_def)

lemma apart_below: "(\<And>off. off \<in> X \<Longrightarrow> off + 4 \<le> pos) \<Longrightarrow> apart X pos n"
  by (auto simp: apart_def)

lemma slice_grown:
  assumes "grown X B B'" and "pos + n \<le> length B" and "apart X pos n"
  shows "take n (drop pos B') = take n (drop pos B)"
proof (rule nth_equalityI)
  have "length B \<le> length B'" using assms(1) by (simp add: grown_def)
  then show "length (take n (drop pos B')) = length (take n (drop pos B))" using assms(2) by simp
next
  fix i assume "i < length (take n (drop pos B'))"
  then have i: "i < n" "pos + i < length B'" by auto
  have "\<not> (off \<le> pos + i \<and> pos + i < off + 4)" if "off \<in> X" for off
    using bspec [OF assms(3) [unfolded apart_def] that] i(1) by linarith
  moreover have "pos + i < length B" using i(1) assms(2) by simp
  ultimately have "B' ! (pos + i) = B ! (pos + i)" using assms(1) unfolding grown_def by blast
  then show "take n (drop pos B') ! i = take n (drop pos B) ! i" using i assms(2) by simp
qed

lemma word_of_grown: "grown X B B' \<Longrightarrow> off + 4 \<le> length B \<Longrightarrow> apart X off 4 \<Longrightarrow> word_of B' off = word_of B off"
  using slice_grown [of X B B' off 4] by (simp add: word_of_def)

section \<open>A member in its place\<close>

text \<open>The bytes \<open>e\<close> are at \<open>pos\<close>, and the pointer at \<open>off\<close> points there.\<close>

definition placed :: "nat \<Rightarrow> byte list \<Rightarrow> nat \<Rightarrow> nat \<Rightarrow> byte list \<Rightarrow> bool" where
  "placed dst B off pos e \<longleftrightarrow> word_of B off = of_nat (dst + pos) \<and> take (length e) (drop pos B) = e"

definition field_at :: "nat \<Rightarrow> byte list \<Rightarrow> nat \<Rightarrow> nat \<Rightarrow> field \<Rightarrow> bool" where
  "field_at dst B off pos v \<longleftrightarrow> (case v of None \<Rightarrow> word_of B off = 0 | Some e \<Rightarrow> placed dst B off pos e)"

lemma placed_grown:
  assumes "placed dst B off pos e" "grown X B B'" "off + 4 \<le> length B" "apart X off 4"
    and "pos + length e \<le> length B" "apart X pos (length e)"
  shows "placed dst B' off pos e"
  using assms word_of_grown [OF assms(2-4)] slice_grown [OF assms(2,5,6)] by (simp add: placed_def)

lemma field_at_grown:
  assumes "field_at dst B off pos v" "grown X B B'" "off + 4 \<le> length B" "apart X off 4"
    and "pos + length (bytes_of v) \<le> length B" "apart X pos (length (bytes_of v))"
  shows "field_at dst B' off pos v"
  using assms placed_grown word_of_grown [OF assms(2-4)] by (cases v) (auto simp: field_at_def)

text \<open>The fields of a list, one behind the other from \<open>pos\<close>.\<close>

fun fields_at :: "nat \<Rightarrow> byte list \<Rightarrow> nat list \<Rightarrow> nat \<Rightarrow> field list \<Rightarrow> bool" where
  "fields_at dst B [] pos vs = (vs = [])"
| "fields_at dst B (off # offs) pos vs =
     (case vs of [] \<Rightarrow> False | v # vs \<Rightarrow> field_at dst B off pos v \<and> fields_at dst B offs (pos + length (bytes_of v)) vs)"

lemma fields_at_grown:
  assumes "fields_at dst B offs pos vs" "grown X B B'" "\<And>off. off \<in> set offs \<Longrightarrow> off + 4 \<le> length B \<and> apart X off 4"
    and "pos + length (field_bytes vs) \<le> length B" "apart X pos (length (field_bytes vs))"
  shows "fields_at dst B' offs pos vs"
  using assms(1,3-)
proof (induction offs arbitrary: pos vs)
  case (Cons off offs)
  then obtain v us where vs: "vs = v # us" by (cases vs) auto
  have a: "apart X pos (length (bytes_of v))" "apart X (pos + length (bytes_of v)) (length (field_bytes us))"
    using Cons.prems(4) vs by (auto simp: apart_def)
  have "field_at dst B' off pos v"
    using Cons.prems vs a by (intro field_at_grown [OF _ assms(2)]) auto
  moreover have "fields_at dst B' offs (pos + length (bytes_of v)) us"
    using Cons.prems vs a by (intro Cons.IH) auto
  ultimately show ?case using vs by simp
qed simp

section \<open>Reading one member\<close>

text \<open>
  The side that demarshals: \<open>S\<close> is in the buffer, and the block at \<open>dst\<close> has room for it.
\<close>

definition target :: "memory \<Rightarrow> nat \<Rightarrow> nat \<Rightarrow> byte list \<Rightarrow> bool" where
  "target m dst buf S \<longleftrightarrow> read_bytes m buf (length S) = Some S \<and> allocated m dst (length S) \<and>
     (dst + length S \<le> buf \<or> buf + length S \<le> dst) \<and> dst \<noteq> 0 \<and> dst + length S < 2 ^ 32 \<and> buf \<noteq> 0"

definition at :: "memory \<Rightarrow> nat \<Rightarrow> nat \<Rightarrow> byte list \<Rightarrow> nat \<times> nat \<times> memory" where
  "at m dst buf B = (buf + length B, dst + length B, stored m dst B)"

lemma read_source:
  assumes "target m dst buf S" and "length B \<le> length S" and "pos + n \<le> length S"
  shows "read_bytes (stored m dst B) (buf + pos) n = Some (take n (drop pos S))"
proof -
  have "read_bytes m (buf + pos) n = Some (take n (drop pos S))"
    using assms(1,3) by (auto simp: target_def read_bytes_iff add.assoc)
  moreover have "same m (stored m dst B) (buf + pos) n"
    using assms by (intro same_stored) (auto simp: target_def)
  ultimately show ?thesis using read_bytes_cong by metis
qed

lemma patch_stored:
  assumes "off + 4 \<le> length B"
  shows "stored (stored m dst (B @ e)) (dst + off) (u32_bytes w) = stored m dst (patch B off w @ e)"
proof (rule ext)
  fix a
  show "stored (stored m dst (B @ e)) (dst + off) (u32_bytes w) a = stored m dst (patch B off w @ e) a"
    using assms by (auto simp: stored_def length_patch nth_append nth_patch)
qed

text \<open>Copying the next bytes and letting a pointer point to them.\<close>

lemma place_step:
  assumes t: "target m dst buf S" and e: "take (length e) (drop (length B) S) = e" "length B + length e \<le> length S"
    and off: "off + 4 \<le> length B"
  shows "(do { m \<leftarrow> memcpy (stored m dst B) (dst + length B) (buf + length B) (length e);
               m \<leftarrow> write_u32 m (dst + off) (of_nat (dst + length B));
               Some (buf + length B + length e, dst + length B + length e, m) }) =
      Some (at m dst buf (patch B off (of_nat (dst + length B)) @ e))"
proof -
  have r: "read_bytes (stored m dst B) (buf + length B) (length e) = Some e"
    using read_source [OF t, of B "length B" "length e"] e by simp
  have al: "allocated m dst (length S)" using t by (simp add: target_def)
  have "allocated m (dst + length B) (length e)" using al by (elim allocated_sub) (use e in simp_all)
  then have c: "memcpy (stored m dst B) (dst + length B) (buf + length B) (length e) = Some (stored m dst (B @ e))"
    using t e(2) by (subst memcpy_eq [OF r]) (auto simp: target_def stored_append)
  have "allocated m (dst + off) 4" using al by (elim allocated_sub) (use e(2) off in simp_all)
  then have "write_u32 (stored m dst (B @ e)) (dst + off) w = Some (stored m dst (patch B off w @ e))" for w
    using off by (simp add: write_u32_eq patch_stored)
  with c off show ?thesis by (simp add: at_def length_patch)
qed

lemma placed_step:
  assumes off: "off + 4 \<le> length B"
  shows "placed dst (patch B off (of_nat (dst + length B)) @ e) off (length B) e"
proof -
  have "word_of (patch B off w @ e) off = w" for w
    using off word_of_patch [OF off] by (simp add: word_of_def length_patch)
  then show ?thesis using off by (simp add: placed_def length_patch)
qed

context sized
begin

lemma get_field_step:
  assumes t: "target m dst buf S" and v: "field_value ext obj off r = Some v" and r: "addr_space r"
    and e: "take (length (bytes_of v)) (drop (length B) S) = bytes_of v" "length B + length (bytes_of v) \<le> length S"
    and off: "off + 4 \<le> length B" "read_u32 r (obj + off) = Some (word_of B off)"
    and cnts: "\<And>k. k \<in> cnts \<Longrightarrow> k + 4 \<le> length B \<and> (\<forall>w. read_u32 r (obj + k) = Some w \<longrightarrow> word_of B k = w)"
  shows "\<exists>B'. get_field ext dst off (at m dst buf B) = Some (at m dst buf B') \<and> grown {off} B B' \<and>
    length B' = length B + length (bytes_of v) \<and> drop (length B) B' = bytes_of v \<and> field_at dst B' off (length B) v"
proof (cases "word_of B off = 0")
  case True
  then have "v = None" using v off(2) by (auto simp: field_value_iff)
  moreover have "get_field ext dst off (at m dst buf B) = Some (at m dst buf B)"
    using True off(1) by (simp add: get_field_def at_def read_u32_block)
  ultimately show ?thesis using True by (intro exI [of _ B]) (simp add: field_at_def)
next
  case False
  with v off(2) obtain sz e' where sz: "ext r obj (unat (word_of B off)) = Some sz"
      and e': "read_bytes r (unat (word_of B off)) (unat sz) = Some e'" and ve: "v = Some e'"
    by (auto simp: field_value_iff)
  have n: "unat sz = length e'" using e' by (simp add: read_bytes_iff)
  let ?m = "stored m dst B" and ?B = "patch B off (of_nat (dst + length B)) @ e'"
  have src: "read_bytes ?m (buf + length B) (unat sz) = Some e'"
    using read_source [OF t, of B "length B" "length e'"] e ve n by simp
  have "ext ?m dst (buf + length B) = Some sz"
  proof (rule move [OF sz e' src])
    fix k w assume "k \<in> cnts" "read_u32 r (obj + k) = Some w"
    then show "read_u32 ?m (dst + k) = Some w" using cnts read_u32_block [of k B m dst] by auto
  qed (use r False in \<open>simp_all add: unat_eq_0\<close>)
  then have "get_field ext dst off (at m dst buf B) = Some (at m dst buf ?B)"
    using False off(1) place_step [OF t, of e' B off] e ve n
    by (simp add: get_field_def at_def read_u32_block)
  then show ?thesis
    using off(1) ve placed_step [OF off(1)]
    by (intro exI [of _ ?B]) (simp add: grown_patch length_patch field_at_def)
qed

text \<open>What is read back from the block.\<close>

lemma field_read_back:
  assumes v: "field_value ext obj off r = Some v" and r: "addr_space r"
    and f: "field_at dst B off pos v" and len: "pos + length (bytes_of v) \<le> length B" "off + 4 \<le> length B"
    and dst: "dst \<noteq> 0" "dst + length B < 2 ^ 32"
    and cnts: "\<And>k. k \<in> cnts \<Longrightarrow> k + 4 \<le> length B \<and> (\<forall>w. read_u32 r (obj + k) = Some w \<longrightarrow> word_of B k = w)"
  shows "field_value ext dst off (stored m dst B) = Some v"
proof (cases v)
  case None
  then show ?thesis using f len(2) by (simp add: field_value_iff field_at_def read_u32_block)
next
  case (Some e)
  then obtain p sz where p: "read_u32 r (obj + off) = Some p" "p \<noteq> 0" and sz: "ext r obj (unat p) = Some sz"
      and e: "read_bytes r (unat p) (unat sz) = Some e"
    using v by (auto simp: field_value_iff split: if_splits)
  have n: "unat sz = length e" using e by (simp add: read_bytes_iff)
  have w: "word_of B off = of_nat (dst + pos)" and sl: "take (length e) (drop pos B) = e"
    using f Some by (simp_all add: field_at_def placed_def)
  have lt: "dst + pos < 2 ^ 32" using len dst(2) by simp
  then have un: "unat (of_nat (dst + pos) :: dword) = dst + pos" by (simp only: unat_of_nat) simp
  then have nz: "(of_nat (dst + pos) :: dword) \<noteq> 0" using dst(1) by (metis add_is_0 unat_0)
  have src: "read_bytes (stored m dst B) (dst + pos) (unat sz) = Some e"
    using read_stored_within [of pos "length e" B m dst] len(1) Some sl n by simp
  have "ext (stored m dst B) dst (dst + pos) = Some sz"
  proof (rule move [OF sz e src])
    fix k w assume "k \<in> cnts" "read_u32 r (obj + k) = Some w"
    then show "read_u32 (stored m dst B) (dst + k) = Some w" using cnts read_u32_block [of k B m dst] by auto
  qed (use r p in \<open>simp_all add: unat_eq_0\<close>)
  then show ?thesis
    using Some w un nz src len(2) by (simp add: field_value_iff read_u32_block)
qed

end

section \<open>Reading all members\<close>

fun get_fields :: "(nat \<times> extent) list \<Rightarrow> nat \<Rightarrow> nat \<times> nat \<times> memory \<Rightarrow> (nat \<times> nat \<times> memory) option" where
  "get_fields [] obj c = Some c"
| "get_fields ((off, ext) # fs) obj c = do { c \<leftarrow> get_field ext obj off c; get_fields fs obj c }"

text \<open>\<open>header r obj h offs B\<close>: the words at \<open>offs\<close> are still those of the original structure.\<close>

definition header :: "memory \<Rightarrow> nat \<Rightarrow> nat \<Rightarrow> nat set \<Rightarrow> byte list \<Rightarrow> bool" where
  "header r obj h offs B \<longleftrightarrow> h \<le> length B \<and> (\<forall>off\<in>offs. off + 4 \<le> h \<and> read_u32 r (obj + off) = Some (word_of B off))"

lemma header_grown:
  assumes "header r obj h offs B" "grown X B B'" "\<And>off. off \<in> offs \<Longrightarrow> apart X off 4"
  shows "header r obj h offs B'"
  using assms word_of_grown [OF assms(2)] by (fastforce simp: header_def grown_def)

lemma header_mono: "header r obj h X B \<Longrightarrow> Y \<subseteq> X \<Longrightarrow> header r obj h Y B"
  by (auto simp: header_def)

fun spread :: "nat list \<Rightarrow> bool" where
  "spread [] = True"
| "spread (off # offs) = ((\<forall>o'\<in>set offs. o' + 4 \<le> off \<or> off + 4 \<le> o') \<and> spread offs)"

lemma spread_apart: "spread (off # offs) \<Longrightarrow> apart (set offs) off 4"
  by (auto simp: apart_def)

text \<open>\<open>ahead S B e rest\<close>: behind the part of the buffer that has been consumed comes \<open>e\<close>.\<close>

definition ahead :: "byte list \<Rightarrow> byte list \<Rightarrow> byte list \<Rightarrow> byte list \<Rightarrow> bool" where
  "ahead S B e rest \<longleftrightarrow> length B \<le> length S \<and> drop (length B) S = e @ rest"

lemma aheadD:
  assumes "ahead S B e rest"
  shows "take (length e) (drop (length B) S) = e" "length B + length e \<le> length S"
proof -
  have "length (drop (length B) S) = length e + length rest" using assms by (simp add: ahead_def)
  then show "length B + length e \<le> length S" using assms by (auto simp: ahead_def)
qed (use assms in \<open>simp add: ahead_def\<close>)

lemma ahead_step:
  assumes "ahead S B (e @ e') rest" and "length B' = length B + length e"
  shows "ahead S B e (e' @ rest)" "ahead S B' e' rest"
proof -
  have "drop (length B') S = drop (length e) (drop (length B) S)" by (simp add: assms(2) add.commute)
  also have "\<dots> = e' @ rest" using assms(1) by (simp add: ahead_def)
  finally show "ahead S B' e' rest" using aheadD(2) [OF assms(1)] assms(2) by (simp add: ahead_def)
qed (use assms in \<open>simp add: ahead_def\<close>)

lemma grown_drop:
  assumes "grown X B1 B'" "length B \<le> length B1" "\<And>off. off \<in> X \<Longrightarrow> off + 4 \<le> length B"
    and "drop (length B) B1 = e" "drop (length B1) B' = e'"
  shows "drop (length B) B' = e @ e'"
proof -
  have l: "length B1 = length B + length e" using assms(2,4) by auto
  have "take (length e) (drop (length B) B') = take (length e) (drop (length B) B1)"
    using assms(2,3) l by (intro slice_grown [OF assms(1)] apart_below) simp_all
  also have "\<dots> = e" using assms(4) by simp
  finally have "take (length e) (drop (length B) B') = e" .
  moreover have "drop (length e) (drop (length B) B') = e'" using assms(5) l by (simp add: add.commute)
  ultimately show ?thesis by (metis append_take_drop_id)
qed

lemma get_fields_step:
  assumes t: "target m dst buf S" and r: "addr_space r"
    and "field_values fs obj r = Some vs" "ahead S B (field_bytes vs) rest"
    and "header r obj h (fst ` set fs \<union> cnts) B" "spread (map fst fs)" "\<And>k. k \<in> cnts \<Longrightarrow> apart (fst ` set fs) k 4"
    and "\<forall>(off, ext) \<in> set fs. sized ext cnts"
  shows "\<exists>B'. get_fields fs dst (at m dst buf B) = Some (at m dst buf B') \<and> grown (fst ` set fs) B B' \<and>
    length B' = length B + length (field_bytes vs) \<and> drop (length B) B' = field_bytes vs \<and>
    fields_at dst B' (map fst fs) (length B) vs"
  using assms(3-)
proof (induction fs arbitrary: B vs)
  case Nil
  then show ?case by (intro exI [of _ B]) simp
next
  case (Cons fe fs)
  obtain off ext where fe: "fe = (off, ext)" by force
  obtain v us where v: "field_value ext obj off r = Some v" and us: "field_values fs obj r = Some us" and vs: "vs = v # us"
    using Cons.prems(1) by (auto simp: fe bind_eq_Some_conv)
  have sz: "sized ext cnts" using Cons.prems(6) by (simp add: fe)
  have a: "ahead S B (bytes_of v) (field_bytes us @ rest)" using ahead_step(1) [of S B "bytes_of v" "field_bytes us" rest "B @ bytes_of v"] Cons.prems(2) vs by simp
  have h: "h \<le> length B" "\<And>k. k \<in> insert off (fst ` set fs \<union> cnts) \<Longrightarrow> k + 4 \<le> h \<and> read_u32 r (obj + k) = Some (word_of B k)"
    using Cons.prems(3) by (auto simp: header_def fe)
  have ap: "apart {off} k 4" if "k \<in> fst ` set fs \<union> cnts" for k
    using that Cons.prems(4,5) by (force simp: fe apart_def)
  obtain B1 where g1: "get_field ext dst off (at m dst buf B) = Some (at m dst buf B1)" "grown {off} B B1"
      "length B1 = length B + length (bytes_of v)" "drop (length B) B1 = bytes_of v" "field_at dst B1 off (length B) v"
    using sized.get_field_step [OF sz t v r aheadD [OF a]] h by fastforce
  have hd: "header r obj h (fst ` set fs \<union> cnts) B1"
    using Cons.prems(3) by (intro header_grown [OF header_mono g1(2)] ap) (auto simp: fe)
  have "ahead S B1 (field_bytes us) rest"
    using ahead_step(2) [OF _ g1(3)] Cons.prems(2) vs by simp
  from Cons.IH [OF us this hd] Cons.prems(4,5,6) obtain B' where g: "get_fields fs dst (at m dst buf B1) = Some (at m dst buf B')"
      "grown (fst ` set fs) B1 B'" "length B' = length B1 + length (field_bytes us)" "drop (length B1) B' = field_bytes us"
      "fields_at dst B' (map fst fs) (length B1) us"
    by (auto simp: fe)
  have below: "apart (fst ` set fs) p n" if "length B \<le> p" for p n
  proof (rule apart_below)
    fix o' assume "o' \<in> fst ` set fs"
    then have "o' + 4 \<le> h" using h(2) [of o'] by blast
    then show "o' + 4 \<le> p" using h(1) that by linarith
  qed
  have "off + 4 \<le> length B" using h(1) h(2) [of off] by simp
  then have "field_at dst B' off (length B) v"
    using g1(3) below spread_apart [of off "map fst fs"] Cons.prems(4)
    by (intro field_at_grown [OF g1(5) g(2)]) (auto simp: fe)
  moreover have "drop (length B) B' = field_bytes vs"
  proof -
    have "o' + 4 \<le> length B" if "o' \<in> fst ` set fs" for o' using h(1) h(2) [of o'] that by simp
    from grown_drop [OF g(2) _ this g1(4) g(4)] show ?thesis using g1(3) vs by simp
  qed
  moreover have "grown (fst ` set (fe # fs)) B B'"
    by (rule grown_trans [OF g1(2) g(2)]) (simp add: fe)
  ultimately show ?case
    using g1 g by (intro exI [of _ B']) (simp add: fe vs)
qed

section \<open>Reading the addresses\<close>

text \<open>The entries \<open>is\<close> of an array at \<open>a\<close>, but for their pointers: lengths, socket type and protocol.\<close>

fun entries :: "byte list \<Rightarrow> nat \<Rightarrow> nat list \<Rightarrow> csaddr list \<Rightarrow> bool" where
  "entries B a [] vs = (vs = [])"
| "entries B a (i # is) vs =
     (case vs of [] \<Rightarrow> False | (l, r, x) # us \<Rightarrow> a + 24 * i + 24 \<le> length B \<and>
       unat (word_of B (a + 24 * i + 4)) = length l \<and> unat (word_of B (a + 24 * i + 12)) = length r \<and>
       take 8 (drop (a + 24 * i + 16) B) = x \<and> entries B a is us)"

fun addrs_at :: "nat \<Rightarrow> byte list \<Rightarrow> nat \<Rightarrow> nat list \<Rightarrow> nat \<Rightarrow> csaddr list \<Rightarrow> bool" where
  "addrs_at dst B a [] pos vs = (vs = [])"
| "addrs_at dst B a (i # is) pos vs =
     (case vs of [] \<Rightarrow> False | (l, r, x) # us \<Rightarrow>
       placed dst B (a + 24 * i) pos l \<and> placed dst B (a + 24 * i + 8) (pos + length l) r \<and>
       addrs_at dst B a is (pos + length l + length r) us)"

definition slots :: "nat \<Rightarrow> nat list \<Rightarrow> nat set" where
  "slots a is = (\<lambda>i. a + 24 * i) ` set is \<union> (\<lambda>i. a + 24 * i + 8) ` set is"

lemma slots_Cons: "slots a (i # is) = {a + 24 * i} \<union> ({a + 24 * i + 8} \<union> slots a is)"
  by (auto simp: slots_def)

lemma slots_apart:
  "apart (slots a is) (a + 24 * i + 4) 4" "apart (slots a is) (a + 24 * i + 12) 4" "apart (slots a is) (a + 24 * i + 16) 8"
  "i \<notin> set is \<Longrightarrow> apart (slots a is) (a + 24 * i) 4" "i \<notin> set is \<Longrightarrow> apart (slots a is) (a + 24 * i + 8) 4"
proof -
  have 1: "apart (slots a is) (a + 24 * i + k) n" if "\<And>j. j \<in> set is \<Longrightarrow> 24 * j + 4 \<le> 24 * i + k \<or> 24 * i + k + n \<le> 24 * j"
      "\<And>j. j \<in> set is \<Longrightarrow> 24 * j + 12 \<le> 24 * i + k \<or> 24 * i + k + n \<le> 24 * j + 8" for k n
    unfolding apart_def slots_def
  proof
    fix off assume "off \<in> (\<lambda>j. a + 24 * j) ` set is \<union> (\<lambda>j. a + 24 * j + 8) ` set is"
    then obtain j where "j \<in> set is" "off = a + 24 * j \<or> off = a + 24 * j + 8" by blast
    with that [of j] show "off + 4 \<le> a + 24 * i + k \<or> a + 24 * i + k + n \<le> off" by fastforce
  qed
  have 2: "24 * j + 4 \<le> 24 * i + 4 \<or> 24 * i + 4 + 4 \<le> 24 * j" "24 * j + 12 \<le> 24 * i + 4 \<or> 24 * i + 4 + 4 \<le> 24 * j + 8"
      "24 * j + 4 \<le> 24 * i + 12 \<or> 24 * i + 12 + 4 \<le> 24 * j" "24 * j + 12 \<le> 24 * i + 12 \<or> 24 * i + 12 + 4 \<le> 24 * j + 8"
      "24 * j + 4 \<le> 24 * i + 16 \<or> 24 * i + 16 + 8 \<le> 24 * j" "24 * j + 12 \<le> 24 * i + 16 \<or> 24 * i + 16 + 8 \<le> 24 * j + 8" for j
    by presburger+
  have 3: "24 * j + 4 \<le> 24 * i + 0 \<or> 24 * i + 0 + 4 \<le> 24 * j" "24 * j + 12 \<le> 24 * i + 0 \<or> 24 * i + 0 + 4 \<le> 24 * j + 8"
      "24 * j + 4 \<le> 24 * i + 8 \<or> 24 * i + 8 + 4 \<le> 24 * j" "24 * j + 12 \<le> 24 * i + 8 \<or> 24 * i + 8 + 4 \<le> 24 * j + 8"
    if "j \<noteq> i" for j
    using that by presburger+
  show "apart (slots a is) (a + 24 * i + 4) 4" "apart (slots a is) (a + 24 * i + 12) 4" "apart (slots a is) (a + 24 * i + 16) 8"
    by (intro 1 2)+
  assume i: "i \<notin> set is"
  have "apart (slots a is) (a + 24 * i + 0) 4" by (rule 1) (metis 3(1) i, metis 3(2) i)
  then show "apart (slots a is) (a + 24 * i) 4" by simp
  show "apart (slots a is) (a + 24 * i + 8) 4" by (rule 1) (metis 3(3) i, metis 3(4) i)
qed

lemma entries_grown:
  assumes "entries B a is vs" "grown X B B'" "X \<subseteq> slots a js"
  shows "entries B' a is vs"
  using assms(1)
proof (induction "is" arbitrary: vs)
  case (Cons i "is")
  then obtain l r x us where vs: "vs = (l, r, x) # us" by (cases vs) auto
  have len: "a + 24 * i + 24 \<le> length B" "length B \<le> length B'" using Cons.prems vs assms(2) by (auto simp: grown_def)
  have ap: "apart (slots a js) p n \<Longrightarrow> apart X p n" for p n using assms(3) by (auto simp: apart_def)
  have "word_of B' (a + 24 * i + 4) = word_of B (a + 24 * i + 4)" "word_of B' (a + 24 * i + 12) = word_of B (a + 24 * i + 12)"
    using len by (intro word_of_grown [OF assms(2)] ap slots_apart; simp)+
  moreover have "take 8 (drop (a + 24 * i + 16) B') = take 8 (drop (a + 24 * i + 16) B)"
    using len by (intro slice_grown [OF assms(2)] ap slots_apart) simp
  ultimately show ?case using Cons vs len by simp
qed simp

lemma entries_slots: "entries B a is vs \<Longrightarrow> off \<in> slots a is \<Longrightarrow> off + 4 \<le> length B"
  by (induction "is" arbitrary: vs) (auto simp: slots_def split: list.splits)

lemma get_addr_step:
  assumes t: "target m dst buf S" and a: "ahead S B e rest" and w: "w + 8 \<le> length B" "unat (word_of B (w + 4)) = length e"
  shows "\<exists>B'. get_addr (dst + w) (at m dst buf B) = Some (at m dst buf B') \<and> grown {w} B B' \<and>
    length B' = length B + length e \<and> drop (length B) B' = e \<and> placed dst B' w (length B) e"
proof -
  have "read_u32 (stored m dst B) (dst + w + 4) = Some (word_of B (w + 4))"
    using read_u32_block [of "w + 4" B m dst] w(1) by (simp add: add.assoc)
  then have "get_addr (dst + w) (at m dst buf B) = Some (at m dst buf (patch B w (of_nat (dst + length B)) @ e))"
    using place_step [OF t aheadD [OF a], of w] w by (simp add: get_addr_def at_def)
  then show ?thesis
    using w(1) placed_step [of w B dst e]
    by (intro exI [of _ "patch B w (of_nat (dst + length B)) @ e"]) (simp add: grown_patch length_patch)
qed

lemma get_addrs_step:
  assumes t: "target m dst buf S"
    and "ahead S B (addr_bytes vs) rest" "entries B a is vs" "distinct is"
  shows "\<exists>B'. get_addrs (dst + a) is (at m dst buf B) = Some (at m dst buf B') \<and> grown (slots a is) B B' \<and>
    length B' = length B + length (addr_bytes vs) \<and> addrs_at dst B' a is (length B) vs"
  using assms(2-)
proof (induction "is" arbitrary: B vs)
  case Nil
  then show ?case by (intro exI [of _ B]) simp
next
  case (Cons i "is")
  then obtain l r x us where vs: "vs = (l, r, x) # us" by (cases vs) auto
  let ?w = "a + 24 * i"
  have len: "?w + 24 \<le> length B" and ll: "unat (word_of B (?w + 4)) = length l" and lr: "unat (word_of B (?w + 12)) = length r"
    and en: "entries B a is us"
    using Cons.prems(2) vs by auto
  have ah: "ahead S B (l @ (r @ addr_bytes us)) rest" using Cons.prems(1) vs by simp
  have ahl: "ahead S B l ((r @ addr_bytes us) @ rest)" using ahead_step(1) [OF ah, of "B @ l"] by simp
  obtain B1 where B1: "get_addr (dst + ?w) (at m dst buf B) = Some (at m dst buf B1)" "grown {?w} B B1"
      "length B1 = length B + length l" "placed dst B1 ?w (length B) l"
    using get_addr_step [OF t ahl, of ?w] len ll by auto
  note ah1 = ahead_step(2) [OF ah B1(3)]
  have ahr: "ahead S B1 r (addr_bytes us @ rest)" using ahead_step(1) [OF ah1, of "B1 @ r"] by simp
  have "word_of B1 (?w + 8 + 4) = word_of B (?w + 12)"
    using len word_of_grown [OF B1(2), of "?w + 12"] by (simp add: add.assoc)
  then obtain B2 where B2: "get_addr (dst + (?w + 8)) (at m dst buf B1) = Some (at m dst buf B2)" "grown {?w + 8} B1 B2"
      "length B2 = length B1 + length r" "placed dst B2 (?w + 8) (length B1) r"
    using get_addr_step [OF t ahr, of "?w + 8"] len lr B1(3) by auto
  note ah2 = ahead_step(2) [OF ah1 B2(3)]
  have g12: "grown (slots a [i]) B B2" by (rule grown_trans [OF B1(2) B2(2)]) (simp add: slots_def)
  obtain B' where B': "get_addrs (dst + a) is (at m dst buf B2) = Some (at m dst buf B')" "grown (slots a is) B2 B'"
      "length B' = length B2 + length (addr_bytes us)" "addrs_at dst B' a is (length B2) us"
    using Cons.IH [OF ah2 entries_grown [OF en g12 subset_refl]] Cons.prems(3) by auto
  have i: "i \<notin> set is" using Cons.prems(3) by simp
  have below: "apart (slots a is) p n" if "length B \<le> p" for p n
    using entries_slots [OF en] that by (intro apart_below) (meson order_trans)
  have "placed dst B2 ?w (length B) l"
    using len B1(3) by (intro placed_grown [OF B1(4) B2(2)]) auto
  then have "placed dst B' ?w (length B) l"
    using len B1(3) B2(3) below slots_apart(4) [OF i] by (intro placed_grown [OF _ B'(2)]) auto
  moreover have "placed dst B' (?w + 8) (length B1) r"
    using len B1(3) B2(3) below slots_apart(5) [OF i] by (intro placed_grown [OF B2(4) B'(2)]) auto
  moreover have "grown (slots a (i # is)) B B'"
    by (rule grown_trans [OF g12 B'(2)]) (auto simp: slots_def)
  moreover have "dst + a + 24 * i = dst + ?w" "dst + a + 24 * i + 8 = dst + (?w + 8)" by simp_all
  ultimately show ?case
    using B1 B2 B' by (intro exI [of _ B']) (simp add: vs add.assoc)
qed

end
