(* ===== verification/NspRoundtrip.thy ===== *)
theory NspRoundtrip
  imports NspRead
begin

text \<open>
  What one side of the connection marshals, the other side demarshals into a structure of the same
  value, all of which lies in the block it was given.
\<close>

section \<open>The block, read by itself\<close>

lemma stored_alone: "stored m dst B |` {dst..<dst + length B} = stored Map.empty dst B"
  by (rule ext) (auto simp: stored_def restrict_map_def)

lemma fields_read_back:
  assumes r: "addr_space r" and dst: "dst \<noteq> 0" "dst + length B < 2 ^ 32" and h: "header r obj h cnts B"
    and "field_values fs obj r = Some vs" "fields_at dst B (map fst fs) pos vs" "pos + length (field_bytes vs) \<le> length B"
    and "\<forall>(off, ext) \<in> set fs. sized ext cnts \<and> off + 4 \<le> h"
  shows "field_values fs dst (stored m dst B) = Some vs"
  using assms(5-)
proof (induction fs arbitrary: vs pos)
  case (Cons fe fs)
  obtain off ext where fe: "fe = (off, ext)" by force
  obtain v us where v: "field_value ext obj off r = Some v" and us: "field_values fs obj r = Some us" and vs: "vs = v # us"
    using Cons.prems(1) by (auto simp: fe bind_eq_Some_conv)
  have "field_value ext dst off (stored m dst B) = Some v"
    using Cons.prems h dst by (intro sized.field_read_back [OF _ v r, where pos = pos]) (auto simp: fe vs header_def)
  moreover have "field_values fs dst (stored m dst B) = Some us"
    using Cons.prems by (intro Cons.IH [OF us, where pos = "pos + length (bytes_of v)"]) (auto simp: fe vs)
  ultimately show ?case by (simp add: fe vs)
qed simp

lemma words_read_back:
  assumes "header r obj h (set offs) B" and "words_at offs obj r = Some ws"
  shows "words_at offs dst (stored m dst B) = Some ws"
  using assms
  by (induction offs arbitrary: ws) (auto simp: bind_eq_Some_conv header_def read_u32_block)

lemma addr_read_back:
  assumes p: "placed dst B w pos e" and n: "unat (word_of B (w + 4)) = length e"
    and len: "pos + length e \<le> length B" "w + 8 \<le> length B" and dst: "dst + length B < 2 ^ 32"
  shows "addr_value (stored m dst B) (dst + w) = Some e"
proof -
  have "dst + pos < 2 ^ 32" using len dst by simp
  then have un: "unat (of_nat (dst + pos) :: dword) = dst + pos" by (simp only: unat_of_nat) simp
  have "read_u32 (stored m dst B) (dst + w) = Some (of_nat (dst + pos))"
    using p len(2) by (simp add: read_u32_block placed_def)
  moreover have "read_u32 (stored m dst B) (dst + w + 4) = Some (word_of B (w + 4))"
    using read_u32_block [of "w + 4" B m dst] len(2) by (simp add: add.assoc)
  moreover have "read_bytes (stored m dst B) (dst + pos) (length e) = Some e"
    using read_stored_within [of pos "length e" B m dst] len(1) p by (simp add: placed_def)
  ultimately show ?thesis using n un by (simp add: addr_value_def)
qed

lemma addrs_read_back:
  assumes "addrs_at dst B a is pos vs" "entries B a is vs" "pos + length (addr_bytes vs) \<le> length B" "dst + length B < 2 ^ 32"
  shows "addr_values (stored m dst B) (dst + a) is = Some vs"
  using assms
proof (induction "is" arbitrary: vs pos)
  case (Cons i "is")
  then obtain l r x us where vs: "vs = (l, r, x) # us" by (cases vs) auto
  have "addr_value (stored m dst B) (dst + (a + 24 * i)) = Some l"
    using Cons.prems vs by (intro addr_read_back [where pos = pos]) auto
  moreover have "addr_value (stored m dst B) (dst + (a + 24 * i + 8)) = Some r"
    using Cons.prems vs by (intro addr_read_back [where pos = "pos + length l"]) (auto simp: add.assoc)
  moreover have "read_bytes (stored m dst B) (dst + (a + 24 * i + 16)) 8 = Some x"
    using read_stored_within [of "a + 24 * i + 16" 8 B m dst] Cons.prems vs by auto
  moreover have "addr_values (stored m dst B) (dst + a) is = Some us"
    using Cons.prems vs by (intro Cons.IH [where pos = "pos + length l + length r"]) (auto simp: add.assoc)
  ultimately show ?case by (simp add: vs add.assoc)
qed simp

section \<open>Service classes\<close>

lemma demarshal_header:
  assumes t: "target m dst buf (hb @ e)"
  shows "memcpy m dst buf (length hb) = Some (stored m dst hb)" "ahead (hb @ e) hb e []"
    "at m dst buf hb = (buf + length hb, dst + length hb, stored m dst hb)"
proof -
  have "read_bytes m buf (length hb) = Some hb"
    using read_source [OF t, of "[]" 0 "length hb"] by simp
  moreover have "allocated m dst (length hb)" using t unfolding target_def by (auto elim: allocated_sub)
  ultimately show "memcpy m dst buf (length hb) = Some (stored m dst hb)"
    using t by (subst memcpy_eq) (auto simp: target_def)
qed (simp_all add: ahead_def at_def)

lemma header_of:
  assumes "read_bytes r obj h = Some hb" and "\<And>off. off \<in> X \<Longrightarrow> off + 4 \<le> h"
  shows "header r obj h X hb"
proof -
  have l: "length hb = h" using assms(1) by (simp add: read_bytes_iff)
  have "read_u32 r (obj + off) = Some (word_of hb off)" if "off \<in> X" for off
  proof -
    have "read_bytes r (obj + off) 4 = Some (take 4 (drop off hb))"
      using assms(1) assms(2) [OF that] by (auto simp: read_bytes_iff add.assoc)
    then show ?thesis by (simp add: read_u32_def word_of_def)
  qed
  then show ?thesis using assms(2) l by (simp add: header_def)
qed

theorem DeMarshall_class:
  assumes v: "class_value r sc = Some v" and r: "addr_space r" and hb: "read_bytes r sc 16 = Some hb"
    and t: "target m dst buf (hb @ field_bytes (snd v))"
  shows "\<exists>m'. DeMarshallServiceClassInfo m dst buf = Some m' \<and>
    class_value (m' |` {dst..<dst + class_size v}) dst = Some v \<and> (\<forall>a. a \<notin> {dst..<dst + class_size v} \<longrightarrow> m' a = m a) \<and> dom m' = dom m"
proof -
  have l: "length hb = 16" using hb by (simp add: read_bytes_iff)
  have f: "field_values class_fields sc r = Some (snd v)" and w: "words_at [dwCount] sc r = Some (fst v)"
    using v by (auto simp: class_value_def bind_eq_Some_conv)
  have h: "header r sc 16 (fst ` set class_fields \<union> {8}) hb"
    by (rule header_of [OF hb]) (auto simp: class_fields_def layout)
  have sz: "\<forall>(off, ext) \<in> set class_fields. sized ext {8}" using class_fields_sized by (simp add: dwCount_def)
  have sp: "spread (map fst class_fields)" "\<And>k. k \<in> {8} \<Longrightarrow> apart (fst ` set class_fields) k 4"
    by (auto simp: class_fields_def layout)
  obtain B where g: "get_fields class_fields dst (at m dst buf hb) = Some (at m dst buf B)" "grown (fst ` set class_fields) hb B"
      "length B = length hb + length (field_bytes (snd v))" "fields_at dst B (map fst class_fields) (length hb) (snd v)"
    using get_fields_step [OF t r f demarshal_header(2) [OF t] h sp sz] by blast
  have h': "header r sc 16 {8} B"
    by (rule header_grown [OF header_mono [OF h] g(2)]) (use sp(2) in auto)
  have n: "length B = class_size v" using g(3) l by (simp add: class_size_def)
  have dst: "dst \<noteq> 0" "dst + length B < 2 ^ 32" using t g(3) by (simp_all add: target_def)
  have dom: "dom (stored m dst B) = dom m" using t g(3) by (intro dom_stored) (simp add: target_def)
  have "DeMarshallServiceClassInfo m dst buf = (do { m \<leftarrow> memcpy m dst buf 16;
      c \<leftarrow> get_fields class_fields dst (buf + 16, dst + 16, m); Some (snd (snd c)) })"
    by (simp add: DeMarshallServiceClassInfo_def class_fields_def sizeof_SERVICECLASSINFO_def case_prod_beta' split_def)
  then have "DeMarshallServiceClassInfo m dst buf = Some (stored m dst B)"
    using demarshal_header [OF t] g(1) l by (simp add: at_def)
  moreover have "class_value (stored Map.empty dst B) dst = Some v"
  proof -
    have "field_values class_fields dst (stored Map.empty dst B) = Some (snd v)"
      using sz g(3) by (intro fields_read_back [OF r dst h' f g(4)]) (auto simp: class_fields_def layout)
    moreover have "words_at [dwCount] dst (stored Map.empty dst B) = Some (fst v)"
      using h' w by (intro words_read_back) (simp_all add: dwCount_def)
    moreover have "read_bytes (stored Map.empty dst B) dst 16 = Some (take 16 B)"
      using read_stored_within [of 0 16 B Map.empty dst] g(3) l by simp
    ultimately show ?thesis by (simp add: class_value_def sizeof_SERVICECLASSINFO_def)
  qed
  ultimately show ?thesis
    using stored_alone [of m dst B] n dom by (intro exI [of _ "stored m dst B"]) (simp add: stored_def)
qed

section \<open>Services\<close>

lemma array_word:
  assumes "read_bytes r p n = Some ab" "k + 4 \<le> n" "read_u32 r (p + k) = Some w"
  shows "word_of (C @ ab) (length C + k) = w"
proof -
  have "read_bytes r (p + k) 4 = Some (take 4 (drop k ab))"
    using assms(1,2) by (auto simp: read_bytes_iff add.assoc)
  with assms(3) show ?thesis by (simp add: word_of_def read_u32_def)
qed

text \<open>The array in the buffer is the client's, pointers included.\<close>

lemma array_entries:
  assumes ab: "read_bytes r p (24 * n) = Some ab"
    and "addr_values r p is = Some vs" "\<forall>i\<in>set is. i < n"
  shows "entries (C @ ab) (length C) is vs"
  using assms(2,3)
proof (induction "is" arbitrary: vs)
  case (Cons i "is")
  obtain l s x us where l: "addr_value r (p + 24 * i) = Some l" and s: "addr_value r (p + 24 * i + 8) = Some s"
      and x: "read_bytes r (p + 24 * i + 16) 8 = Some x" and us: "addr_values r p is = Some us" and vs: "vs = (l, s, x) # us"
    using Cons.prems(1) by (auto simp: bind_eq_Some_conv)
  have i: "24 * i + 24 \<le> 24 * n" using Cons.prems(2) by simp
  have lab: "length ab = 24 * n" using ab by (simp add: read_bytes_iff)
  obtain wl where wl: "read_u32 r (p + (24 * i + 4)) = Some wl" "unat wl = length l"
    using l by (auto simp: addr_value_def bind_eq_Some_conv read_bytes_iff add.assoc)
  obtain wr where wr: "read_u32 r (p + (24 * i + 12)) = Some wr" "unat wr = length s"
    using s by (auto simp: addr_value_def bind_eq_Some_conv read_bytes_iff add.assoc)
  have "read_bytes r (p + (24 * i + 16)) 8 = Some (take 8 (drop (24 * i + 16) ab))"
    using ab i by (auto simp: read_bytes_iff add.assoc)
  then have "take 8 (drop (24 * i + 16) ab) = x" using x by (simp add: add.assoc)
  then show ?case
    using Cons.IH [OF us] Cons.prems(2) i lab vs array_word [OF ab _ wl(1), of C] wl(2) array_word [OF ab _ wr(1), of C] wr(2)
    by (simp add: add.assoc)
qed simp

lemma length_csaddrs_image:
  assumes "csaddrs_value r qs = Some as"
  shows "length (csaddrs_image r qs as) = (case as of None \<Rightarrow> 0 | Some vs \<Rightarrow> 24 * length vs + length (addr_bytes vs))"
proof (cases as)
  case (Some vs)
  obtain p where p: "read_u32 r (qs + 48) = Some p" using assms by (auto simp: csaddrs_value_iff)
  with assms Some have "\<exists>k :: dword. addr_values r (unat p) [0..<unat k] = Some vs"
    by (auto simp: csaddrs_value_iff split: if_splits)
  then obtain k :: dword where vs: "addr_values r (unat p) [0..<unat k] = Some vs" ..
  obtain ab where ab: "read_bytes r (unat p) (24 * unat k) = Some ab" using addr_array [OF vs] by blast
  then have "length ab = 24 * unat k" by (simp add: read_bytes_iff)
  then show ?thesis using Some p ab length_addr_values [OF vs] by (simp add: csaddrs_image_def)
qed (simp add: csaddrs_image_def)

text \<open>Reading the array of addresses, behind the fields.\<close>

lemma get_csaddrs_step:
  assumes t: "target m dst buf S" and r: "addr_space r" and as: "csaddrs_value r qs = Some as"
    and a: "ahead S B (csaddrs_image r qs as) []" and h: "header r qs 60 {44, 48} B"
  shows "\<exists>B'. get_csaddrs dst (at m dst buf B) = Some (at m dst buf B') \<and> length B' = length S \<and>
    (\<exists>X. grown X B B' \<and> (\<forall>off\<in>X. off = 48 \<or> length B \<le> off)) \<and>
    csaddrs_value (stored Map.empty dst B') dst = Some as"
proof -
  obtain p where p: "read_u32 r (qs + 48) = Some p" "word_of B 48 = p" using h by (auto simp: header_def)
  obtain n where n: "read_u32 r (qs + 44) = Some n" "word_of B 44 = n" using h by (auto simp: header_def)
  have l: "60 \<le> length B" using h by (simp add: header_def)
  have dst: "dst \<noteq> 0" "dst + length S < 2 ^ 32" using t by (simp_all add: target_def)
  have lS: "length S = length B + length (csaddrs_image r qs as)"
    using a unfolding ahead_def by (metis append_Nil2 le_add_diff_inverse length_drop)
  have rd: "read_u32 (snd (snd (at m dst buf B))) (dst + off) = Some (word_of B off)" if "off + 4 \<le> length B" for B off
    using read_u32_block [OF that] by (simp add: at_def)
  show ?thesis
  proof (cases "p = 0")
    case True
    then have "as = None" using as p by (simp add: csaddrs_value_iff)
    then show ?thesis
      using True p n l lS rd read_u32_block [of 48 B Map.empty dst]
      by (intro exI [of _ B]) (auto simp: get_csaddrs_def get_field_def at_def layout csaddrs_value_iff csaddrs_image_def
          intro: exI [of _ "{}"])
  next
    case False
    then obtain vs where vs: "addr_values r (unat p) [0..<unat n] = Some vs" "as = Some vs" and lt: "24 * unat n < 2 ^ 32"
      using as p n by (auto simp: csaddrs_value_iff)
    obtain ab where ab: "read_bytes r (unat p) (24 * unat n) = Some ab" using addr_array [OF vs(1)] by blast
    have lab: "length ab = 24 * unat n" using ab by (simp add: read_bytes_iff)
    have im: "csaddrs_image r qs as = ab @ addr_bytes vs"
      using vs p ab length_addr_values [OF vs(1)] by (simp add: csaddrs_image_def)
    have fv: "field_value (of_array 24 44) qs 48 r = Some (Some ab)"
      using False p n ab unat_array [OF lt] by (simp add: field_value_iff of_array_def)
    have a1: "ahead S B (ab @ addr_bytes vs) []" using a im by simp
    have a2: "ahead S B ab (addr_bytes vs @ [])" using ahead_step(1) [OF a1, of "B @ ab"] by simp
    have "\<exists>B1. get_field (of_array 24 44) dst 48 (at m dst buf B) = Some (at m dst buf B1) \<and> grown {48} B B1 \<and>
        length B1 = length B + length (bytes_of (Some ab)) \<and> drop (length B) B1 = bytes_of (Some ab) \<and>
        field_at dst B1 48 (length B) (Some ab)"
      using p n l aheadD [OF a2] by (intro sized.get_field_step [OF sized_array [of 44 "{44}"] t fv r]) auto
    then obtain B1 where B1: "get_field (of_array 24 44) dst 48 (at m dst buf B) = Some (at m dst buf B1)" "grown {48} B B1"
        "length B1 = length B + length ab" "drop (length B) B1 = ab" "placed dst B1 48 (length B) ab"
      by (auto simp: field_at_def)
    obtain C where C: "B1 = C @ ab" "length C = length B"
      using B1(3,4) by (metis append_take_drop_id le_add1 length_take min.absorb2)
    have en: "entries B1 (length B) [0..<unat n] vs"
      using array_entries [OF ab vs(1), of C] C by simp
    obtain B' where B': "get_addrs (dst + length B) [0..<unat n] (at m dst buf B1) = Some (at m dst buf B')"
        "grown (slots (length B) [0..<unat n]) B1 B'" "length B' = length B1 + length (addr_bytes vs)"
        "addrs_at dst B' (length B) [0..<unat n] (length B1) vs"
      using get_addrs_step [OF t ahead_step(2) [OF a1 B1(3)] en] by auto
    have w1: "word_of B1 44 = n" "word_of B1 48 = of_nat (dst + length B)"
      using word_of_grown [OF B1(2), of 44] l n B1(5) by (simp_all add: placed_def)
    have below: "length B \<le> off" if "off \<in> slots (length B) [0..<unat n]" for off using that by (auto simp: slots_def)
    have ap: "apart (slots (length B) [0..<unat n]) k 4" if "k + 4 \<le> 60" for k
      unfolding apart_def
    proof
      fix off assume "off \<in> slots (length B) [0..<unat n]"
      from below [OF this] show "off + 4 \<le> k \<or> k + 4 \<le> off" using l that by linarith
    qed
    have w2: "word_of B' 44 = n" "word_of B' 48 = of_nat (dst + length B)"
      using w1 l B1(3) word_of_grown [OF B'(2) _ ap, of 44] word_of_grown [OF B'(2) _ ap, of 48] by simp_all
    have un: "unat (of_nat (dst + length B) :: dword) = dst + length B"
      using dst(2) lS by (simp only: unat_of_nat) simp
    then have nz: "(of_nat (dst + length B) :: dword) \<noteq> 0" using dst(1) by (metis add_is_0 unat_0)
    have lB': "length B' = length S" using lS im B'(3) B1(3) by simp
    have "get_csaddrs dst (at m dst buf B) = Some (at m dst buf B')"
      using False p n l B1 B'(1) w1 un rd [of 48 B] rd [of 44 B1] rd [of 48 B1]
      by (simp add: get_csaddrs_def layout)
    moreover have "csaddrs_value (stored Map.empty dst B') dst = Some as"
      using addrs_read_back [OF B'(4) entries_grown [OF en B'(2) subset_refl]] dst(2) lB' B'(3) w2 un nz l lS lt vs(2)
        read_u32_block [of 48 B' Map.empty dst] read_u32_block [of 44 B' Map.empty dst]
      by (simp add: csaddrs_value_iff)
    moreover have "grown ({48} \<union> slots (length B) [0..<unat n]) B B'"
      by (rule grown_trans [OF B1(2) B'(2)]) simp
    ultimately show ?thesis using lB' below by (intro exI [of _ B'] conjI exI [of _ "{48} \<union> slots (length B) [0..<unat n]"]) auto
  qed
qed

theorem DeMarshall_query:
  assumes v: "query_value r qs = Some (ws, fs, as)" and r: "addr_space r" and hb: "read_bytes r qs 60 = Some hb"
    and t: "target m dst buf (hb @ field_bytes fs @ csaddrs_image r qs as)"
  shows "\<exists>m'. DeMarshallServiceInfo m dst buf = Some m' \<and>
    query_value (m' |` {dst..<dst + query_size (ws, fs, as)}) dst = Some (ws, fs, as) \<and>
    (\<forall>a. a \<notin> {dst..<dst + query_size (ws, fs, as)} \<longrightarrow> m' a = m a) \<and> dom m' = dom m"
proof -
  let ?S = "hb @ field_bytes fs @ csaddrs_image r qs as"
  have l: "length hb = 60" using hb by (simp add: read_bytes_iff)
  have f: "field_values query_fields qs r = Some fs" and w: "words_at query_words qs r = Some ws"
      and as: "csaddrs_value r qs = Some as"
    using v by (auto simp: query_value_def bind_eq_Some_conv)
  have n: "length ?S = query_size (ws, fs, as)"
    using l length_csaddrs_image [OF as] by (simp add: query_size_def)
  have h: "header r qs 60 (fst ` set query_fields \<union> {32, 44} \<union> (set query_words \<union> {48})) hb"
    by (rule header_of [OF hb]) (auto simp: query_fields_def query_words_def layout)
  have sz: "\<forall>(off, ext) \<in> set query_fields. sized ext {32, 44}"
    using query_fields_sized by (simp add: qs_dwNumberOfProtocols_def qs_dwNumberOfCsAddrs_def)
  have sp: "spread (map fst query_fields)" "\<And>k. k \<in> {32, 44} \<Longrightarrow> apart (fst ` set query_fields) k 4"
    by (auto simp: query_fields_def layout)
  have ah: "ahead ?S hb (field_bytes fs) (csaddrs_image r qs as)" by (simp add: ahead_def)
  obtain B1 where B1: "get_fields query_fields dst (at m dst buf hb) = Some (at m dst buf B1)" "grown (fst ` set query_fields) hb B1"
      "length B1 = length hb + length (field_bytes fs)" "fields_at dst B1 (map fst query_fields) (length hb) fs"
    using get_fields_step [OF t r f ah header_mono [OF h] sp sz] by blast
  have h1: "header r qs 60 (set query_words \<union> {32, 44} \<union> {48}) B1"
    by (rule header_grown [OF header_mono [OF h] B1(2)]) (auto simp: query_fields_def query_words_def layout)
  have a1: "ahead ?S B1 (csaddrs_image r qs as) []"
    using ahead_step(2) [of ?S hb "field_bytes fs" "csaddrs_image r qs as" "[]" B1] B1(3) by (simp add: ahead_def)
  obtain B X where B: "get_csaddrs dst (at m dst buf B1) = Some (at m dst buf B)" "length B = length ?S"
      "grown X B1 B" "\<forall>off\<in>X. off = 48 \<or> length B1 \<le> off" "csaddrs_value (stored Map.empty dst B) dst = Some as"
    using get_csaddrs_step [OF t r as a1 header_mono [OF h1]] by auto
  have far: "apart X k 4" if "k + 4 \<le> 60" "k \<noteq> 48" "apart {48} k 4" for k
    using that B(4) B1(3) l by (fastforce simp: apart_def)
  have h2: "header r qs 60 (set query_words \<union> {32, 44}) B"
    by (rule header_grown [OF header_mono [OF h1] B(3)]) (auto simp: query_words_def layout intro!: far)
  have dst: "dst \<noteq> 0" "dst + length B < 2 ^ 32" using t B(2) by (simp_all add: target_def)
  have fa: "fields_at dst B (map fst query_fields) (length hb) fs"
  proof (rule fields_at_grown [OF B1(4) B(3)])
    fix off assume "off \<in> set (map fst query_fields)"
    then show "off + 4 \<le> length B1 \<and> apart X off 4"
      using B1(3) l by (auto simp: query_fields_def layout intro!: far)
  next
    show "apart X (length hb) (length (field_bytes fs))" using B(4) B1(3) l by (fastforce simp: apart_def)
  qed (use B1(3) in simp)
  have dom: "dom (stored m dst B) = dom m" using t B(2) by (intro dom_stored) (simp add: target_def)
  have "DeMarshallServiceInfo m dst buf = (do { m \<leftarrow> memcpy m dst buf 60;
      c \<leftarrow> get_fields query_fields dst (buf + 60, dst + 60, m); c \<leftarrow> get_csaddrs dst c; Some (snd (snd c)) })"
    by (simp add: DeMarshallServiceInfo_def query_fields_def sizeof_QUERYSET_def split_def)
  then have "DeMarshallServiceInfo m dst buf = Some (stored m dst B)"
    using demarshal_header [OF t] B1(1) B(1) l by (simp add: at_def)
  moreover have "query_value (stored Map.empty dst B) dst = Some (ws, fs, as)"
  proof -
    have "field_values query_fields dst (stored Map.empty dst B) = Some fs"
      using sz B1(3) B(2) l
      by (intro fields_read_back [OF r dst header_mono [OF h2] f fa]) (auto simp: query_fields_def layout)
    moreover have "words_at query_words dst (stored Map.empty dst B) = Some ws"
      using w by (intro words_read_back [OF header_mono [OF h2]]) auto
    moreover have "read_bytes (stored Map.empty dst B) dst 60 = Some (take 60 B)"
      using read_stored_within [of 0 60 B Map.empty dst] B(2) l by simp
    ultimately show ?thesis using B(5) by (simp add: query_value_def sizeof_QUERYSET_def)
  qed
  ultimately show ?thesis
    using stored_alone [of m dst B] n B(2) dom by (intro exI [of _ "stored m dst B"]) (simp add: stored_def)
qed

end
