(* ===== verification/NspState.thy ===== *)
theory NspState
  imports NspClient NspRoundtrip
begin

text \<open>
  The state of the service as a set of named values: when its tables are well formed, which values
  they hold, and that what the requests do to memory (filling the buffer, allocating a block,
  freeing one, copying out of one) leaves the other values as they are.
\<close>

section \<open>Well-formed tables\<close>

definition block :: "service \<Rightarrow> nat \<Rightarrow> memory" where
  "block s p = (case blocks s p of None \<Rightarrow> Map.empty | Some n \<Rightarrow> mem s |` {p..<p + n})"

definition tables :: "service \<Rightarrow> nat list" where
  "tables s = ServiceClasses s @ Services s @ map Query (QueryInfo s)"

text \<open>The heap: blocks apart from one another and from the buffer on the stack.\<close>

definition wf_heap :: "nsp_env \<Rightarrow> service \<Rightarrow> bool" where
  "wf_heap E s \<longleftrightarrow> addr_space (mem s) \<and> allocated (mem s) (buf_at E) BUFFER_SZ \<and> mem s (buf_at E + BUFFER_SZ) = None \<and>
     (\<forall>p n. blocks s p = Some n \<longrightarrow> p \<noteq> 0 \<and> 0 < n \<and> p + n < 2 ^ 32 \<and> allocated (mem s) p n \<and>
        (p + n \<le> buf_at E \<or> buf_at E + BUFFER_SZ \<le> p)) \<and>
     (\<forall>p n q k. blocks s p = Some n \<longrightarrow> blocks s q = Some k \<longrightarrow> p \<noteq> q \<longrightarrow> p + n \<le> q \<or> q + k \<le> p)"

definition wf_service :: "nsp_env \<Rightarrow> service \<Rightarrow> bool" where
  "wf_service E s \<longleftrightarrow> wf_heap E s \<and> distinct (tables s) \<and> length (action s) = 1 \<and> length (bytes2follow s) = 4 \<and>
     (\<forall>p\<in>set (ServiceClasses s). class_value (block s p) p \<noteq> None) \<and>
     (\<forall>p\<in>set (Services s) \<union> Query ` set (QueryInfo s). query_value (block s p) p \<noteq> None)"

definition class_of :: "service \<Rightarrow> nat \<Rightarrow> dword list \<times> field list" where
  "class_of s p = the (class_value (block s p) p)"

definition query_of :: "service \<Rightarrow> nat \<Rightarrow> query" where
  "query_of s p = the (query_value (block s p) p)"

text \<open>The values the tables hold: classes, services, and queries with their handle and last index.\<close>

definition classes_held :: "service \<Rightarrow> (dword list \<times> field list) list" where
  "classes_held s = map (class_of s) (ServiceClasses s)"

definition services_held :: "service \<Rightarrow> query list" where
  "services_held s = map (query_of s) (Services s)"

definition queries_held :: "service \<Rightarrow> (dword \<times> int \<times> query) list" where
  "queries_held s = map (\<lambda>q. (hHandle q, iIndex q, query_of s (Query q))) (QueryInfo s)"

lemmas held_defs = classes_held_def services_held_def queries_held_def

section \<open>Memory that changes elsewhere\<close>

lemma block_le: "block s p \<subseteq>\<^sub>m mem s"
  by (auto simp: block_def map_le_def dom_def restrict_map_def split: option.splits if_splits)

lemma block_update [simp]:
  "block (s\<lparr>bytes2follow := x\<rparr>) p = block s p" "block (s\<lparr>action := x\<rparr>) p = block s p" "block (s\<lparr>Services := ps\<rparr>) p = block s p"
  "block (s\<lparr>ServiceClasses := ps\<rparr>) p = block s p" "block (s\<lparr>QueryInfo := qs\<rparr>) p = block s p" "block (s\<lparr>dwHandleValue := h\<rparr>) p = block s p"
  by (simp_all add: block_def split: option.split)

lemma read_empty: "0 < n \<Longrightarrow> read_bytes Map.empty p n = None"
  by (cases n) simp_all

lemma block_dom:
  assumes "wf_service E s" and "p \<in> set (tables s)"
  shows "\<exists>n. blocks s p = Some n"
proof (cases "blocks s p")
  case None
  then have "block s p = Map.empty" by (simp add: block_def)
  then have "class_value (block s p) p = None" "query_value (block s p) p = None"
    by (simp_all add: class_value_def query_value_def layout read_empty)
  moreover have "class_value (block s p) p \<noteq> None \<or> query_value (block s p) p \<noteq> None"
    using assms unfolding wf_service_def tables_def by auto
  ultimately show ?thesis by simp
qed simp

text \<open>The same tables over blocks of the same content.\<close>

definition keeps :: "service \<Rightarrow> service \<Rightarrow> bool" where
  "keeps s s' \<longleftrightarrow> ServiceClasses s' = ServiceClasses s \<and> Services s' = Services s \<and> QueryInfo s' = QueryInfo s \<and>
     dwHandleValue s' = dwHandleValue s \<and> (\<forall>p\<in>set (tables s). block s' p = block s p)"

lemma keeps_refl [simp]: "keeps s s"
  by (simp add: keeps_def)

lemma keeps_tables: "keeps s s' \<Longrightarrow> tables s' = tables s"
  by (simp add: keeps_def tables_def)

lemma keeps_trans: "keeps s s' \<Longrightarrow> keeps s' s'' \<Longrightarrow> keeps s s''"
  unfolding keeps_def by (simp add: tables_def)

lemma keeps_held:
  assumes "keeps s s'"
  shows "classes_held s' = classes_held s" "services_held s' = services_held s" "queries_held s' = queries_held s"
  using assms by (auto simp: held_defs keeps_def tables_def class_of_def query_of_def)

lemma keeps_wf:
  assumes k: "keeps s s'" and w: "wf_service E s" and "wf_heap E s'" "length (action s') = 1" "length (bytes2follow s') = 4"
  shows "wf_service E s'"
proof -
  have "\<forall>p\<in>set (ServiceClasses s'). class_value (block s' p) p \<noteq> None"
    "\<forall>p\<in>set (Services s') \<union> Query ` set (QueryInfo s'). query_value (block s' p) p \<noteq> None"
    using k w by (auto simp: wf_service_def keeps_def tables_def)
  then show ?thesis using assms keeps_tables [OF k] by (simp add: wf_service_def)
qed

section \<open>The buffer\<close>

definition with_buffer :: "nsp_env \<Rightarrow> byte list \<Rightarrow> service \<Rightarrow> service" where
  "with_buffer E bs s = s\<lparr>mem := stored (mem s) (buf_at E) bs\<rparr>"

lemma buffer_write: "wf_heap E s \<Longrightarrow> length bs \<le> BUFFER_SZ \<Longrightarrow> write_bytes (mem s) (buf_at E) bs = Some (mem (with_buffer E bs s))"
  unfolding write_bytes_eq with_buffer_def by (auto simp: wf_heap_def elim: allocated_sub)

lemma addr_space_stored: "addr_space m \<Longrightarrow> allocated m p (length bs) \<Longrightarrow> addr_space (stored m p bs)"
  by (simp add: addr_space_def dom_stored)

lemma with_buffer_wf_heap:
  assumes "wf_heap E s" "length bs \<le> BUFFER_SZ"
  shows "wf_heap E (with_buffer E bs s)"
proof -
  have "allocated (mem s) (buf_at E) (length bs)" using assms by (auto simp: wf_heap_def elim: allocated_sub)
  then have "addr_space (stored (mem s) (buf_at E) bs)" using assms by (auto simp: wf_heap_def intro: addr_space_stored)
  moreover have "stored (mem s) (buf_at E) bs (buf_at E + BUFFER_SZ) = None" using assms by (auto simp: wf_heap_def stored_def)
  ultimately show ?thesis using assms unfolding wf_heap_def with_buffer_def by simp
qed

lemma with_buffer_block:
  assumes "wf_heap E s" "length bs \<le> BUFFER_SZ"
  shows "block (with_buffer E bs s) p = block s p"
proof (cases "blocks s p")
  case (Some n)
  then have "p + n \<le> buf_at E \<or> buf_at E + BUFFER_SZ \<le> p" using assms(1) unfolding wf_heap_def by blast
  then show ?thesis using assms(2) Some by (auto simp: block_def with_buffer_def stored_def restrict_map_def fun_eq_iff)
qed (simp add: block_def with_buffer_def)

lemma with_buffer_keeps: "wf_heap E s \<Longrightarrow> length bs \<le> BUFFER_SZ \<Longrightarrow> keeps s (with_buffer E bs s)"
  using with_buffer_block by (simp add: keeps_def) (simp add: with_buffer_def)

lemma with_buffer_wf:
  assumes "wf_service E s" "length bs \<le> BUFFER_SZ"
  shows "wf_service E (with_buffer E bs s)"
proof -
  have w: "wf_heap E s" using assms(1) by (simp add: wf_service_def)
  show ?thesis
    using assms(1) by (intro keeps_wf [OF with_buffer_keeps [OF w assms(2)] assms(1) with_buffer_wf_heap [OF w assms(2)]])
      (auto simp: with_buffer_def wf_service_def)
qed

section \<open>Allocation\<close>

text \<open>What is assumed of the heap: a block lies apart from everything that is in use.\<close>

definition allocator :: "nsp_env \<Rightarrow> bool" where
  "allocator E \<longleftrightarrow> (\<forall>m n. place E m n \<noteq> 0 \<longrightarrow> place E m n + n < 2 ^ 32 \<and>
     (\<forall>a. place E m n \<le> a + 1 \<and> a \<le> place E m n + n \<longrightarrow> m a = None))"

lemma alloc_fresh:
  assumes ws: "wf_service E s" and A: "allocator E" and p: "GlobalAlloc E n s = (p, s')" "p \<noteq> 0" and n: "0 < n"
  shows "wf_service E s'" "keeps s s'" "p \<notin> set (tables s)" "blocks s p = None" "blocks s' p = Some n"
    "p + n \<le> buf_at E \<or> buf_at E + BUFFER_SZ \<le> p" "action s' = action s" "bytes2follow s' = bytes2follow s"
    "\<And>a. buf_at E \<le> a \<Longrightarrow> a < buf_at E + BUFFER_SZ \<Longrightarrow> mem s' a = mem s a"
proof -
  have w: "wf_heap E s" using ws by (simp add: wf_service_def)
  have pl: "p = place E (mem s) n" and s': "s' = s\<lparr>mem := (\<lambda>a. if p \<le> a \<and> a < p + n then Some 0 else mem s a), blocks := (blocks s)(p \<mapsto> n)\<rparr>"
    using p by (auto simp: GlobalAlloc_def Let_def split: if_splits)
  have free: "mem s a = None" if "p \<le> a + 1" "a \<le> p + n" for a
    using A p(2) that unfolding allocator_def pl by blast
  have lt: "p + n < 2 ^ 32" using A p(2) unfolding allocator_def pl by blast
  have apart': "q + k \<le> p \<or> p + n \<le> q" if "allocated (mem s) q k" "0 < k" for q k
  proof (rule ccontr)
    assume "\<not> ?thesis"
    then have "max p q - q < k" "p \<le> max p q" "max p q < p + n" "q + (max p q - q) = max p q" using that(2) n by auto
    then show False using that(1) free [of "max p q"] unfolding allocated_def by (metis le_add1 le_trans less_imp_le)
  qed
  show bn: "blocks s p = None"
  proof (rule ccontr)
    assume "blocks s p \<noteq> None"
    then obtain k where "blocks s p = Some k" by blast
    then have "allocated (mem s) p k" "0 < k" using w unfolding wf_heap_def by blast+
    then show False using free [of p] by (auto simp: allocated_def)
  qed
  have away: "q + k \<le> p \<or> p + n \<le> q" if "blocks s q = Some k" for q k
    using w that unfolding wf_heap_def by (intro apart') blast+
  show nt: "p \<notin> set (tables s)" using block_dom [OF ws, of p] bn by auto
  show keep: "keeps s s'"
    unfolding keeps_def
  proof (intro conjI ballI)
    fix q assume q: "q \<in> set (tables s)"
    then obtain k where b: "blocks s q = Some k" using block_dom [OF ws] by blast
    have "q \<noteq> p" using q nt by blast
    then show "block s' q = block s q" using b away [OF b] by (auto simp: block_def s' restrict_map_def fun_eq_iff)
  qed (simp_all add: s')
  show bufa: "p + n \<le> buf_at E \<or> buf_at E + BUFFER_SZ \<le> p"
    using apart' [of "buf_at E" BUFFER_SZ] w by (auto simp: wf_heap_def BUFFER_SZ_def)
  then show "\<And>a. buf_at E \<le> a \<Longrightarrow> a < buf_at E + BUFFER_SZ \<Longrightarrow> mem s' a = mem s a" by (auto simp: s')
  have "wf_heap E s'"
    unfolding wf_heap_def
  proof (intro conjI allI impI)
    show "addr_space (mem s')"
    proof -
      have "dom (mem s') \<subseteq> dom (mem s) \<union> {p..<p + n}" by (auto simp: s' split: if_splits)
      then show ?thesis using w p(2) lt by (fastforce simp: wf_heap_def addr_space_def)
    qed
    show "allocated (mem s') (buf_at E) BUFFER_SZ" using w by (auto simp: wf_heap_def allocated_def s')
    have "mem s (buf_at E + BUFFER_SZ) = None" using w by (simp add: wf_heap_def)
    moreover have "buf_at E + BUFFER_SZ \<noteq> p + k" if "k < n" for k
    proof
      assume e: "buf_at E + BUFFER_SZ = p + k"
      show False
      proof (cases k)
        case 0
        then have "p \<le> (buf_at E + (BUFFER_SZ - 1)) + 1" "buf_at E + (BUFFER_SZ - 1) \<le> p + n" using e by (auto simp: BUFFER_SZ_def)
        from free [OF this] have "mem s (buf_at E + (BUFFER_SZ - 1)) = None" .
        moreover have "allocated (mem s) (buf_at E) BUFFER_SZ" using w by (simp add: wf_heap_def)
        then have "mem s (buf_at E + (BUFFER_SZ - 1)) \<noteq> None" unfolding allocated_def by (simp add: BUFFER_SZ_def)
        ultimately show False by simp
      qed (use e bufa that in auto)
    qed
    then have "\<not> (p \<le> buf_at E + BUFFER_SZ \<and> buf_at E + BUFFER_SZ < p + n)"
      by (metis le_add_diff_inverse less_diff_conv2 add.commute)
    ultimately show "mem s' (buf_at E + BUFFER_SZ) = None" by (auto simp: s')
  next
    fix q k assume b: "blocks s' q = Some k"
    have old: "blocks s q = Some k" if "q \<noteq> p" using b that by (simp add: s')
    have new: "q = p \<Longrightarrow> k = n" using b by (simp add: s')
    have ok: "q \<noteq> p \<Longrightarrow> q \<noteq> 0 \<and> 0 < k \<and> q + k < 2 ^ 32 \<and> allocated (mem s) q k \<and> (q + k \<le> buf_at E \<or> buf_at E + BUFFER_SZ \<le> q)"
      using old w unfolding wf_heap_def by blast
    show "q \<noteq> 0" "0 < k" "q + k < 2 ^ 32" "q + k \<le> buf_at E \<or> buf_at E + BUFFER_SZ \<le> q"
      using ok new p(2) n lt bufa by (cases "q = p"; auto)+
    show "allocated (mem s') q k"
      using ok new by (cases "q = p") (auto simp: allocated_def s')
    fix q' k' assume b': "blocks s' q' = Some k'" and ne: "q \<noteq> q'"
    consider "q = p" | "q' = p" | "q \<noteq> p" "q' \<noteq> p" by blast
    then show "q + k \<le> q' \<or> q' + k' \<le> q"
    proof cases
      case 1
      then show ?thesis using new ne b' away [of q' k'] by (auto simp: s')
    next
      case 2
      then show ?thesis using b' ne away [of q k] old by (auto simp: s')
    next
      case 3
      then have "blocks s q' = Some k'" using b' by (simp add: s')
      then show ?thesis using 3 old w ne unfolding wf_heap_def by blast
    qed
  qed
  then show "wf_service E s'" using ws by (intro keeps_wf [OF keep ws]) (auto simp: s' wf_service_def)
qed (use p in \<open>auto simp: GlobalAlloc_def Let_def split: if_splits\<close>)

section \<open>Freeing\<close>

lemma free_block:
  assumes w: "wf_heap E s" and p: "blocks s p = Some n"
  shows "GlobalFree p s = Some (s\<lparr>mem := without (mem s) p n, blocks := (blocks s)(p := None)\<rparr>)"
    "wf_heap E (s\<lparr>mem := without (mem s) p n, blocks := (blocks s)(p := None)\<rparr>)"
    "\<And>q. q \<noteq> p \<Longrightarrow> block (s\<lparr>mem := without (mem s) p n, blocks := (blocks s)(p := None)\<rparr>) q = block s q"
proof -
  let ?s = "s\<lparr>mem := without (mem s) p n, blocks := (blocks s)(p := None)\<rparr>"
  show "GlobalFree p s = Some ?s" using p by (simp add: GlobalFree_def)
  have pb: "p + n \<le> buf_at E \<or> buf_at E + BUFFER_SZ \<le> p" using w p unfolding wf_heap_def by blast
  have away: "p + n \<le> q \<or> q + k \<le> p" if "blocks s q = Some k" "q \<noteq> p" for q k
    using w p that unfolding wf_heap_def by blast
  have wo: "without (mem s) p n a = (if p \<le> a \<and> a < p + n then None else mem s a)" for a
    by (auto simp: without_def restrict_map_def)
  show "wf_heap E ?s"
    unfolding wf_heap_def
  proof (intro conjI allI impI)
    show "addr_space (mem ?s)" using w by (auto simp: wf_heap_def addr_space_def wo dom_def subset_iff)
    show "allocated (mem ?s) (buf_at E) BUFFER_SZ" using w pb by (auto simp: wf_heap_def allocated_def wo)
    show "mem ?s (buf_at E + BUFFER_SZ) = None" using w by (auto simp: wf_heap_def wo)
  next
    fix q k assume "blocks ?s q = Some k"
    then have b: "blocks s q = Some k" "q \<noteq> p" by (auto split: if_splits)
    then have ok: "q \<noteq> 0 \<and> 0 < k \<and> q + k < 2 ^ 32 \<and> allocated (mem s) q k \<and> (q + k \<le> buf_at E \<or> buf_at E + BUFFER_SZ \<le> q)"
      using w unfolding wf_heap_def by blast
    then show "q \<noteq> 0" "0 < k" "q + k < 2 ^ 32" "q + k \<le> buf_at E \<or> buf_at E + BUFFER_SZ \<le> q" by auto
    show "allocated (mem ?s) q k" using ok away [OF b] by (auto simp: allocated_def wo)
    fix q' k' assume "blocks ?s q' = Some k'" "q \<noteq> q'"
    then have "blocks s q' = Some k'" "q \<noteq> q'" by (auto split: if_splits)
    then show "q + k \<le> q' \<or> q' + k' \<le> q" using w b unfolding wf_heap_def by blast
  qed
  fix q assume q: "q \<noteq> p"
  show "block ?s q = block s q"
  proof (cases "blocks s q")
    case (Some k)
    then show ?thesis
      using q away [OF Some q] by (auto simp: block_def restrict_map_def wo fun_eq_iff)
  qed (use q in \<open>simp add: block_def\<close>)
qed

end
