(* ===== verification/NspSpec.thy ===== *)
theory NspSpec
  imports NspState
begin

text \<open>
  What the name service promises, over values: a class is known by its identifier, a service by its
  name, and a query goes through the services in the order of the table.  \<open>None\<close> is where the code
  has no defined behaviour: a null identifier or name that is compared, a table that overflows.
\<close>

section \<open>The specification\<close>

definition wstring :: "byte list \<Rightarrow> wchar list option" where
  "wstring bs = read_wstr (stored Map.empty 0 bs) 0"

definition class_id :: "dword list \<times> field list \<Rightarrow> byte list option" where
  "class_id v = snd v ! 0"

definition query_name :: "query \<Rightarrow> wchar list option" where
  "query_name v = do { bs \<leftarrow> fst (snd v) ! 0; wstring bs }"

definition query_class :: "query \<Rightarrow> byte list option" where
  "query_class v = fst (snd v) ! 1"

fun known :: "byte list option \<Rightarrow> (dword list \<times> field list) list \<Rightarrow> bool option" where
  "known guid [] = Some False"
| "known guid (c # cs) = do {
     g \<leftarrow> guid;
     i \<leftarrow> class_id c;
     if g = i then Some True else known guid cs }"

fun named :: "(wchar list \<Rightarrow> wchar list \<Rightarrow> bool) \<Rightarrow> wchar list option \<Rightarrow> nat \<Rightarrow> query list \<Rightarrow> nat option option" where
  "named eq name i [] = Some None"
| "named eq name i (v # vs) = do {
     n \<leftarrow> name;
     n' \<leftarrow> query_name v;
     if eq n n' then Some (Some i) else named eq name (Suc i) vs }"

definition wanted :: "(wchar list \<Rightarrow> wchar list \<Rightarrow> bool) \<Rightarrow> query \<Rightarrow> query \<Rightarrow> bool option" where
  "wanted eq q v = do {
     n \<leftarrow> query_name q;
     if n \<noteq> [] \<and> hd n = 0x2A then Some True
     else do { n' \<leftarrow> query_name v; Some (eq n n') } }"

fun first_wanted :: "(wchar list \<Rightarrow> wchar list \<Rightarrow> bool) \<Rightarrow> query \<Rightarrow> nat \<Rightarrow> query list \<Rightarrow> nat option option" where
  "first_wanted eq q i [] = Some None"
| "first_wanted eq q i (v # vs) = do {
     b \<leftarrow> wanted eq q v;
     if b then Some (Some i) else first_wanted eq q (Suc i) vs }"

text \<open>
  Registering a service: refused where a service of that name is there, but only if its class is
  known; a service of an unknown class is taken in whatever its name.
\<close>

definition register_spec ::
    "(wchar list \<Rightarrow> wchar list \<Rightarrow> bool) \<Rightarrow> (dword list \<times> field list) list \<Rightarrow> query \<Rightarrow> query list \<Rightarrow> (bool \<times> query list) option" where
  "register_spec eq cs v vs = do {
     k \<leftarrow> known (query_class v) cs;
     dup \<leftarrow> (if k then named eq (query_name v) 0 vs else Some None);
     if dup = None then (if 50 \<le> length vs then None else Some (True, vs @ [v])) else Some (False, vs) }"

definition deregister_spec ::
    "(wchar list \<Rightarrow> wchar list \<Rightarrow> bool) \<Rightarrow> (dword list \<times> field list) list \<Rightarrow> query \<Rightarrow> query list \<Rightarrow> (bool \<times> query list) option" where
  "deregister_spec eq cs v vs = do {
     k \<leftarrow> known (query_class v) cs;
     at \<leftarrow> (if k then named eq (query_name v) 0 vs else Some None);
     Some (case at of None \<Rightarrow> (False, vs) | Some i \<Rightarrow> (True, butlast (vs[i := last vs]))) }"

text \<open>One step of a query that stands at \<open>i\<close>: the next service it wants, and where it then stands.\<close>

definition next_spec ::
    "(wchar list \<Rightarrow> wchar list \<Rightarrow> bool) \<Rightarrow> query \<Rightarrow> int \<Rightarrow> query list \<Rightarrow> (query option \<times> int) option" where
  "next_spec eq q i vs = do {
     found \<leftarrow> first_wanted eq q (nat (i + 1)) (drop (nat (i + 1)) vs);
     Some (case found of None \<Rightarrow> (None, i) | Some j \<Rightarrow> (Some (vs ! j), int j)) }"

section \<open>The code's functions compute it\<close>

lemma addr_space_0: "addr_space m \<Longrightarrow> m 0 = None"
  by (auto simp: addr_space_def)

lemma read_null: "addr_space m \<Longrightarrow> 0 < n \<Longrightarrow> read_bytes m 0 n = None" "addr_space m \<Longrightarrow> read_wstr m 0 = None"
    "addr_space m \<Longrightarrow> read_wchar m 0 = None"
proof -
  assume a: "addr_space m"
  show z: "read_wchar m 0 = None" by (simp add: read_wchar_def numeral_2_eq_2 addr_space_0 [OF a])
  then show "read_wstr m 0 = None" by (subst read_wstr.simps) simp
  assume "0 < n"
  then show "read_bytes m 0 n = None" by (cases n) (simp_all add: addr_space_0 [OF a])
qed

lemma guid_field:
  assumes f: "field_value (of_size 16) obj off m' = Some fv" and le: "m' \<subseteq>\<^sub>m m" and a: "addr_space m"
  shows "\<exists>p. read_u32 m (obj + off) = Some p \<and> read_bytes m (unat p) 16 = fv"
proof -
  obtain p where p: "read_u32 m' (obj + off) = Some p" using f by (auto simp: field_value_iff)
  have "read_bytes m (unat p) 16 = fv"
    using f p read_null(1) [OF a, of 16] read_bytes_le [OF le] by (auto simp: field_value_iff of_size_def split: if_splits)
  with read_u32_le [OF le p] show ?thesis by blast
qed

lemma name_field:
  assumes f: "field_value of_wstr obj off m' = Some fv" and le: "m' \<subseteq>\<^sub>m m" and a: "addr_space m"
  shows "\<exists>p. read_u32 m (obj + off) = Some p \<and> read_wstr m (unat p) = do { bs \<leftarrow> fv; wstring bs } \<and>
    (read_wstr m (unat p) = None \<longrightarrow> p = 0)"
proof -
  obtain p where p: "read_u32 m' (obj + off) = Some p" using f by (auto simp: field_value_iff)
  show ?thesis
  proof (cases "p = 0")
    case True
    then show ?thesis using f p read_u32_le [OF le p] read_null(2) [OF a] by (auto simp: field_value_iff)
  next
    case False
    then obtain sz bs where sz: "of_wstr m' obj (unat p) = Some sz" and bs: "read_bytes m' (unat p) (unat sz) = Some bs" and fv: "fv = Some bs"
      using f p by (auto simp: field_value_iff)
    obtain cs where cs: "read_wstr m' (unat p) = Some cs" and s: "sz = (of_nat (length cs) + 1) * 2"
      using sz by (auto simp: of_wstr_def lstrlenW_def bind_eq_Some_conv)
    have n: "unat sz = 2 * length cs + 2"
      unfolding s using False by (intro wstr_extent [OF cs addr_space_le [OF a le]]) (simp add: unat_eq_0)
    have "wstring bs = Some cs"
      unfolding wstring_def by (rule read_wstr_move [OF cs]) (use bs [unfolded n read_bytes_iff] in \<open>simp add: stored_def\<close>)
    then show ?thesis using read_u32_le [OF le p] read_wstr_le [OF le cs] fv False by auto
  qed
qed

lemma class_fields_at: "class_value m p = Some v \<Longrightarrow> field_value (of_size 16) p lpServiceClassId m = Some (class_id v)"
  by (auto simp: class_value_def class_fields_def class_id_def sizeof_GUID_def bind_eq_Some_conv)

lemma query_fields_at:
  assumes "query_value m p = Some v"
  shows "field_value of_wstr p qs_lpszServiceInstanceName m = Some (fst (snd v) ! 0)"
    "field_value (of_size 16) p qs_lpServiceClassId m = Some (query_class v)"
  using assms by (auto simp: query_value_def query_fields_def query_class_def sizeof_GUID_def bind_eq_Some_conv)

text \<open>A state in which the blocks \<open>ps\<close> hold values.\<close>

lemma find_class_known:
  assumes a: "addr_space (mem s)" and "\<forall>p\<in>set ps. p \<noteq> 0 \<and> class_value (block s p) p \<noteq> None"
  shows "map_option (\<lambda>p. p \<noteq> 0) (find_class (mem s) guid ps) = known guid (map (class_of s) ps)"
  using assms(2)
proof (induction ps)
  case (Cons p ps)
  then obtain v where v: "class_value (block s p) p = Some v" "p \<noteq> 0" by auto
  from guid_field [OF class_fields_at [OF v(1)] block_le a] obtain q where
    q: "read_u32 (mem s) (p + lpServiceClassId) = Some q" "read_bytes (mem s) (unat q) 16 = class_id v" by blast
  have "class_of s p = v" using v by (simp add: class_of_def)
  then show ?case
    using Cons q v(2) by (cases guid; cases "class_id v") (auto simp: same_guid_def sizeof_GUID_def cong: if_cong)
qed simp

lemma query_name_read:
  assumes "addr_space (mem s)" and v: "query_value (block s p) p = Some v"
  shows "\<exists>q. read_u32 (mem s) (p + qs_lpszServiceInstanceName) = Some q \<and> read_wstr (mem s) (unat q) = query_name v"
  using name_field [OF query_fields_at(1) [OF v] block_le assms(1)] by (auto simp: query_name_def)

lemma find_service_named:
  assumes a: "addr_space (mem s)" and "\<forall>p\<in>set ps. query_value (block s p) p \<noteq> None"
  shows "find_service E (mem s) name i ps = named (same_name E) name i (map (query_of s) ps)"
  using assms(2)
proof (induction ps arbitrary: i)
  case (Cons p ps)
  then obtain v where v: "query_value (block s p) p = Some v" by auto
  with query_name_read [OF a v] Cons show ?case by (auto simp: query_of_def cong: if_cong)
qed simp

lemma query_matches_wanted:
  assumes a: "addr_space (mem s)" and q: "query_value (block s q) q = Some qv" and p: "query_value (block s p) p = Some pv"
  shows "query_matches E (mem s) q p = wanted (same_name E) qv pv"
proof -
  from name_field [OF query_fields_at(1) [OF q] block_le a, folded query_name_def] obtain pq where
    pq: "read_u32 (mem s) (q + qs_lpszServiceInstanceName) = Some pq" "read_wstr (mem s) (unat pq) = query_name qv"
      "read_wstr (mem s) (unat pq) = None \<longrightarrow> pq = 0" by (elim exE conjE) (rule that; assumption)
  obtain pp where pp: "read_u32 (mem s) (p + qs_lpszServiceInstanceName) = Some pp" "read_wstr (mem s) (unat pp) = query_name pv"
    using query_name_read [OF a p] by blast
  show ?thesis
  proof (cases "query_name qv")
    case None
    then have "read_wchar (mem s) (unat pq) = None" using pq(2,3) read_null(3) [OF a] by simp
    then show ?thesis using pq None by (simp add: query_matches_def wanted_def)
  next
    case (Some n)
    then have "read_wchar (mem s) (unat pq) = Some (if n = [] then 0 else hd n)"
      using pq(2) read_wstr_Some [of "mem s" "unat pq" n] by (cases n) auto
    then show ?thesis using pq pp Some by (auto simp: query_matches_def wanted_def)
  qed
qed

lemma scan_first_wanted:
  assumes a: "addr_space (mem s)" and q: "query_value (block s q) q = Some qv" and "\<forall>p\<in>set ps. query_value (block s p) p \<noteq> None"
  shows "scan E (mem s) q i ps = first_wanted (same_name E) qv i (map (query_of s) ps)"
  using assms(3)
proof (induction ps arbitrary: i)
  case (Cons p ps)
  then obtain v where "query_value (block s p) p = Some v" by auto
  with query_matches_wanted [OF a q this] Cons show ?case by (auto simp: query_of_def cong: if_cong)
qed simp

end
