(* ===== verification/NspRequests.thy ===== *)
theory NspRequests
  imports NspSpec
begin

text \<open>
  The handlers of the service on requests of the form the DLL sends: what they read, and how they
  change the values the tables hold.
\<close>

section \<open>Receiving\<close>

definition good_link :: "link \<Rightarrow> bool" where
  "good_link l \<longleftrightarrow> is_open l \<and> Reset \<notin> set (arrivals l) \<and> (\<forall>a\<in>set (room l). \<exists>k. a = Accept (Suc k))"

text \<open>\<open>l'\<close> is \<open>l\<close> with the first bytes of the stream consumed.\<close>

definition consumed :: "link \<Rightarrow> byte list \<Rightarrow> link \<Rightarrow> bool" where
  "consumed l bs l' \<longleftrightarrow> good_link l' \<and> stream (arrivals l) = bs @ stream (arrivals l') \<and> written l' = written l"

lemma readdata_exact:
  assumes "good_link l" "stream (arrivals l) = bs @ rest" "length bs = unat n" "unat n \<le> k" "unat n = k \<or> rest = []"
  shows "\<exists>l'. readdata l k n = (bs, n, l') \<and> consumed l bs l' \<and> stream (arrivals l') = rest"
proof -
  from readdata_delivers [of l n k] assms obtain as where
    "readdata l k n = (take (unat n) (stream (arrivals l)), n, l\<lparr>arrivals := as\<rparr>)"
    "stream as = drop (unat n) (stream (arrivals l))" "Reset \<notin> set as" by (auto simp: good_link_def)
  then show ?thesis using assms by (intro exI [of _ "l\<lparr>arrivals := as\<rparr>"]) (simp add: consumed_def good_link_def)
qed

lemma read_local_exact:
  assumes "good_link l" "stream (arrivals l) = bs @ rest" "length bs = n" "length v = n" "n < 2 ^ 32"
  shows "\<exists>l'. read_local v n l = (bs, l') \<and> good_link l' \<and> stream (arrivals l') = rest \<and> written l' = written l"
proof -
  have u: "unat (of_nat n :: dword) = n" using assms(5) by (simp only: unat_of_nat) simp
  from readdata_exact [OF assms(1,2), of "of_nat n" n] obtain l' where
    "readdata l n (of_nat n) = (bs, of_nat n, l')" "consumed l bs l'" "stream (arrivals l') = rest"
    using assms(3) u by auto
  then show ?thesis using assms(3,4) by (intro exI [of _ l']) (simp add: read_local_def fill_def consumed_def)
qed

lemma answer_good: "good_link l \<Longrightarrow> \<exists>rs. answer l bs = l\<lparr>room := rs, written := written l @ bs\<rparr> \<and> good_link (answer l bs)"
  using writedata_sends [of l bs] by (fastforce simp: answer_def good_link_def)

lemma answer_props [simp]: "good_link l \<Longrightarrow> written (answer l bs) = written l @ bs" "good_link l \<Longrightarrow> good_link (answer l bs)"
  using answer_good [of l bs] by auto

lemma length_local_var [simp]: "length (local_var E n) = n"
  by (simp add: local_var_def)

text \<open>A structure of \<open>n\<close> bytes arrives in the buffer.\<close>

definition received :: "nsp_env \<Rightarrow> byte list \<Rightarrow> service \<Rightarrow> service" where
  "received E S s = (with_buffer E S s)\<lparr>bytes2follow := u32_bytes (of_nat (length S))\<rparr>"

lemma read_size_exact:
  assumes "good_link l" "stream (arrivals l) = u32_bytes w @ S" "length (bytes2follow s) = 4"
  shows "\<exists>l'. read_size l s = (l', s\<lparr>bytes2follow := u32_bytes w\<rparr>) \<and> good_link l' \<and> stream (arrivals l') = S \<and> written l' = written l"
proof -
  obtain l' where l': "read_local (bytes2follow s) 4 l = (u32_bytes w, l')" "good_link l'" "stream (arrivals l') = S" "written l' = written l"
    using read_local_exact [OF assms(1,2) _ assms(3)] by auto
  then show ?thesis by (intro exI [of _ l']) (simp add: read_size_def)
qed

lemma read_structure_exact:
  assumes "good_link l" "stream (arrivals l) = S" "length S \<le> BUFFER_SZ" "wf_heap E s" "bytes2follow s = u32_bytes (of_nat (length S))"
  shows "\<exists>l'. read_structure E l s = Some (l', received E S s) \<and> good_link l' \<and> written l' = written l"
proof -
  have u: "unat (of_nat (length S) :: dword) = length S" using assms(3) by (simp only: unat_of_nat) (simp add: BUFFER_SZ_def)
  from readdata_exact [OF assms(1), of S "[]" "of_nat (length S)" BUFFER_SZ] obtain l' where
    l': "readdata l BUFFER_SZ (of_nat (length S)) = (S, of_nat (length S), l')" "consumed l S l'"
    using assms(2,3) u by auto
  then show ?thesis
    using buffer_write [OF assms(4,3)] assms(5)
    by (intro exI [of _ l']) (simp add: read_structure_def received_def with_buffer_def consumed_def)
qed

section \<open>Building a structure from the buffer\<close>

text \<open>Whether the heap has a block of \<open>n\<close> bytes, whatever is in the buffer.\<close>

definition has_room :: "nsp_env \<Rightarrow> service \<Rightarrow> nat \<Rightarrow> bool" where
  "has_room E s n \<longleftrightarrow> (\<forall>bs. length bs \<le> BUFFER_SZ \<longrightarrow> place E (mem (with_buffer E bs s)) n \<noteq> 0)"

text \<open>\<open>S\<close> is what a client marshals for the query at \<open>qs\<close>, whose value is \<open>v\<close>; likewise for a class.\<close>

definition query_image :: "memory \<Rightarrow> nat \<Rightarrow> query \<Rightarrow> byte list \<Rightarrow> bool" where
  "query_image r qs v S \<longleftrightarrow> addr_space r \<and> query_value r qs = Some v \<and>
     (\<exists>hb. read_bytes r qs 60 = Some hb \<and> S = hb @ field_bytes (fst (snd v)) @ csaddrs_image r qs (snd (snd v)))"

definition class_image :: "memory \<Rightarrow> nat \<Rightarrow> dword list \<times> field list \<Rightarrow> byte list \<Rightarrow> bool" where
  "class_image r sc v S \<longleftrightarrow> addr_space r \<and> class_value r sc = Some v \<and>
     (\<exists>hb. read_bytes r sc 16 = Some hb \<and> S = hb @ field_bytes (snd v))"

lemma query_image_length: "query_image r qs v S \<Longrightarrow> length S = query_size v"
  using length_csaddrs_image by (cases v) (fastforce simp: query_image_def query_value_def query_size_def bind_eq_Some_conv read_bytes_iff split: option.splits)

lemma class_image_length: "class_image r sc v S \<Longrightarrow> length S = class_size v"
  by (auto simp: class_image_def class_size_def read_bytes_iff)

text \<open>The block for a structure is allocated while the structure is in the buffer.\<close>

lemma alloc_target:
  assumes w: "wf_service E s" and A: "allocator E" and S: "0 < length S" "length S \<le> BUFFER_SZ"
    and b: "read_bytes (mem s) (buf_at E) (length S) = Some S" and a: "GlobalAlloc E (length S) s = (p, s')" "p \<noteq> 0"
  shows "target (mem s') p (buf_at E) S"
proof -
  note f = alloc_fresh [OF w A a S(1)]
  have "p + length S < 2 ^ 32" "allocated (mem s') p (length S)" using f(1,5) by (auto simp: wf_heap_def wf_service_def)
  moreover have "read_bytes (mem s') (buf_at E) (length S) = Some S"
    using b f(9) S(2) by (simp add: read_bytes_iff)
  moreover have "mem s (buf_at E) \<noteq> None" using w by (auto simp: wf_service_def wf_heap_def allocated_def BUFFER_SZ_def dest: spec [of _ 0])
  then have "buf_at E \<noteq> 0" using w by (metis addr_space_0 wf_heap_def wf_service_def)
  ultimately show ?thesis using f(6) S(2) a(2) by (auto simp: target_def)
qed

text \<open>Writing inside a block that no table refers to.\<close>

lemma write_own_block:
  assumes s: "wf_service E s" and p: "blocks s p = Some n" "p \<notin> set (tables s)"
    and m: "\<forall>a. a \<notin> {p..<p + n} \<longrightarrow> m a = mem s a" "dom m = dom (mem s)"
  shows "wf_service E (s\<lparr>mem := m\<rparr>)" "keeps s (s\<lparr>mem := m\<rparr>)" "block (s\<lparr>mem := m\<rparr>) p = m |` {p..<p + n}"
proof -
  have w: "wf_heap E s" using s by (simp add: wf_service_def)
  have al: "allocated m q k = allocated (mem s) q k" for q k
    using m(2) by (auto simp: allocated_def dom_def set_eq_iff)
  have pb: "p + n \<le> buf_at E \<or> buf_at E + BUFFER_SZ \<le> p" using w p(1) unfolding wf_heap_def by blast
  have "m a = None \<longleftrightarrow> mem s a = None" for a using m(2) by (metis domIff)
  then have h: "wf_heap E (s\<lparr>mem := m\<rparr>)"
    using w al m(2) unfolding wf_heap_def addr_space_def by (simp add: dom_def set_eq_iff)
  show k: "keeps s (s\<lparr>mem := m\<rparr>)"
    unfolding keeps_def
  proof (intro conjI ballI)
    fix q assume q: "q \<in> set (tables s)"
    then obtain k where b: "blocks s q = Some k" using block_dom [OF s] by blast
    have "q \<noteq> p" using q p(2) by blast
    then have "p + n \<le> q \<or> q + k \<le> p" using w p(1) b unfolding wf_heap_def by blast
    then show "block (s\<lparr>mem := m\<rparr>) q = block s q" using b m(1) by (auto simp: block_def restrict_map_def fun_eq_iff)
  qed simp_all
  show "wf_service E (s\<lparr>mem := m\<rparr>)" using s by (intro keeps_wf [OF k s h]) (auto simp: wf_service_def)
qed (use p in \<open>simp add: block_def\<close>)

lemma target_of_block:
  assumes s: "wf_service E s" and p: "blocks s p = Some (length S)" and S: "0 < length S" "length S \<le> BUFFER_SZ"
    and b: "read_bytes (mem s) (buf_at E) (length S) = Some S"
  shows "target (mem s) p (buf_at E) S"
proof -
  have w: "wf_heap E s" using s by (simp add: wf_service_def)
  then have "p \<noteq> 0" "p + length S < 2 ^ 32" "allocated (mem s) p (length S)" "p + length S \<le> buf_at E \<or> buf_at E + BUFFER_SZ \<le> p"
    using p unfolding wf_heap_def by blast+
  moreover have "buf_at E \<noteq> 0"
  proof
    assume "buf_at E = 0"
    then have "mem s 0 \<noteq> None" using b S(1) by (auto simp: read_bytes_iff)
    then show False using w by (simp add: wf_heap_def addr_space_0)
  qed
  ultimately show ?thesis using b S by (auto simp: target_def)
qed

lemma build_query:
  assumes s: "wf_service E s" and p: "blocks s p = Some (length S)" "p \<notin> set (tables s)" and len: "length S \<le> BUFFER_SZ"
    and b: "read_bytes (mem s) (buf_at E) (length S) = Some S" and i: "query_image r qs v S"
  shows "\<exists>m. DeMarshallServiceInfo (mem s) p (buf_at E) = Some m \<and> wf_service E (s\<lparr>mem := m\<rparr>) \<and> keeps s (s\<lparr>mem := m\<rparr>) \<and>
    query_value (block (s\<lparr>mem := m\<rparr>) p) p = Some v"
proof -
  obtain ws fs as where v: "v = (ws, fs, as)" by (cases v)
  have n: "length S = query_size v" by (rule query_image_length [OF i])
  obtain hb where hb: "read_bytes r qs 60 = Some hb" "S = hb @ field_bytes fs @ csaddrs_image r qs as"
      and r: "addr_space r" "query_value r qs = Some (ws, fs, as)"
    using i v by (auto simp: query_image_def)
  have "0 < length S" using n by (simp add: v query_size_def)
  from target_of_block [OF s p(1) this len b] have t: "target (mem s) p (buf_at E) (hb @ field_bytes fs @ csaddrs_image r qs as)"
    by (simp add: hb(2))
  from DeMarshall_query [OF r(2,1) hb(1) t] obtain m where m: "DeMarshallServiceInfo (mem s) p (buf_at E) = Some m"
      "query_value (m |` {p..<p + query_size v}) p = Some v" "\<forall>a. a \<notin> {p..<p + query_size v} \<longrightarrow> m a = mem s a" "dom m = dom (mem s)"
    unfolding v by blast
  note o = write_own_block [OF s p m(3,4) [folded n]]
  then show ?thesis using m n by (intro exI [of _ m]) simp
qed

lemma build_class:
  assumes s: "wf_service E s" and p: "blocks s p = Some (length S)" "p \<notin> set (tables s)" and len: "length S \<le> BUFFER_SZ"
    and b: "read_bytes (mem s) (buf_at E) (length S) = Some S" and i: "class_image r sc v S"
  shows "\<exists>m. DeMarshallServiceClassInfo (mem s) p (buf_at E) = Some m \<and> wf_service E (s\<lparr>mem := m\<rparr>) \<and> keeps s (s\<lparr>mem := m\<rparr>) \<and>
    class_value (block (s\<lparr>mem := m\<rparr>) p) p = Some v"
proof -
  have n: "length S = class_size v" by (rule class_image_length [OF i])
  obtain hb where hb: "read_bytes r sc 16 = Some hb" "S = hb @ field_bytes (snd v)"
      and r: "addr_space r" "class_value r sc = Some v"
    using i by (auto simp: class_image_def)
  have "0 < length S" using n by (simp add: class_size_def)
  from target_of_block [OF s p(1) this len b] have t: "target (mem s) p (buf_at E) (hb @ field_bytes (snd v))"
    by (simp add: hb(2))
  from DeMarshall_class [OF r(2,1) hb(1) t] obtain m where m: "DeMarshallServiceClassInfo (mem s) p (buf_at E) = Some m"
      "class_value (m |` {p..<p + class_size v}) p = Some v" "\<forall>a. a \<notin> {p..<p + class_size v} \<longrightarrow> m a = mem s a" "dom m = dom (mem s)"
    by blast
  note o = write_own_block [OF s p m(3,4) [folded n]]
  then show ?thesis using m n by (intro exI [of _ m]) simp
qed

text \<open>What comes first in each request: the buffer is filled and a block is allocated.\<close>

lemma received_props:
  assumes s: "wf_service E s" and len: "length S \<le> BUFFER_SZ"
  shows "wf_service E (received E S s)" "keeps s (received E S s)" "bytes2follow (received E S s) = u32_bytes (of_nat (length S))"
    "read_bytes (mem (received E S s)) (buf_at E) (length S) = Some S" "blocks (received E S s) = blocks s"
    "tables (received E S s) = tables s"
proof -
  have w: "wf_heap E s" using s by (simp add: wf_service_def)
  note k = with_buffer_keeps [OF w len]
  have b: "block (received E S s) p = block (with_buffer E S s) p" for p by (simp add: block_def received_def split: option.split)
  show k': "keeps s (received E S s)" using k b by (simp add: keeps_def) (simp add: received_def)
  have "wf_heap E (received E S s)" using with_buffer_wf_heap [OF w len] by (simp add: wf_heap_def received_def)
  then show "wf_service E (received E S s)"
    using s by (intro keeps_wf [OF k' s]) (auto simp: received_def with_buffer_def wf_service_def)
  show "tables (received E S s) = tables s" by (rule keeps_tables [OF k'])
qed (simp_all add: received_def with_buffer_def read_stored)

lemma alloc_structure_eq:
  "bytes2follow s = u32_bytes (of_nat n) \<Longrightarrow> n \<le> BUFFER_SZ \<Longrightarrow> alloc_structure E s = GlobalAlloc E n s"
  by (simp add: alloc_structure_def unat_of_nat BUFFER_SZ_def)

lemma alloc_room: "place E (mem s) n \<noteq> 0 \<Longrightarrow> \<exists>p s'. GlobalAlloc E n s = (p, s') \<and> p \<noteq> 0"
  by (simp add: GlobalAlloc_def Let_def)

text \<open>Receive, allocate, demarshal: the sequence of the three requests that carry a query.\<close>

lemma receive_and_build_query:
  assumes s: "wf_service E s" and A: "allocator E" and i: "query_image r qs v S" and len: "length S \<le> BUFFER_SZ"
    and room: "place E (mem (received E S s)) (length S) \<noteq> 0"
  shows "\<exists>si s1 m. alloc_structure E (received E S s) = (si, s1) \<and> DeMarshallServiceInfo (mem s1) si (buf_at E) = Some m \<and>
    wf_service E (s1\<lparr>mem := m\<rparr>) \<and> keeps s (s1\<lparr>mem := m\<rparr>) \<and> query_value (block (s1\<lparr>mem := m\<rparr>) si) si = Some v \<and>
    si \<notin> set (tables s) \<and> si \<noteq> 0 \<and> blocks s1 si = Some (length S)"
proof -
  note rp = received_props [OF s len]
  obtain si s1 where a: "GlobalAlloc E (length S) (received E S s) = (si, s1)" "si \<noteq> 0" using alloc_room [OF room] by blast
  have n: "0 < length S" using query_image_length [OF i] by (simp add: query_size_def)
  note f = alloc_fresh [OF rp(1) A a n]
  have ts: "tables s1 = tables s" using keeps_tables [OF f(2)] rp(6) by simp
  have b1: "read_bytes (mem s1) (buf_at E) (length S) = Some S"
    using rp(4) f(9) len by (simp add: read_bytes_iff)
  have nt: "si \<notin> set (tables s1)" using f(3) rp(6) ts by simp
  from build_query [OF f(1,5) nt len b1 i] obtain m where m: "DeMarshallServiceInfo (mem s1) si (buf_at E) = Some m"
      "wf_service E (s1\<lparr>mem := m\<rparr>)" "keeps s1 (s1\<lparr>mem := m\<rparr>)" "query_value (block (s1\<lparr>mem := m\<rparr>) si) si = Some v" by blast
  have "keeps s (s1\<lparr>mem := m\<rparr>)" using keeps_trans [OF keeps_trans [OF rp(2) f(2)] m(3)] .
  then show ?thesis
    using m a nt ts f(5) alloc_structure_eq [OF rp(3) len] by (intro exI [of _ si] exI [of _ s1] exI [of _ m]) simp
qed

end
