(* ===== verification/NspServe.thy ===== *)
theory NspServe
  imports NspRequests
begin

text \<open>
  Every request of the DLL, served: the reply, and the values the tables hold afterwards, are those
  of the specification.
\<close>

section \<open>Arguments\<close>

lemma wf_addr_space: "wf_service E s \<Longrightarrow> addr_space (mem s)"
  by (simp add: wf_service_def wf_heap_def)

lemma table_nonzero: "wf_service E s \<Longrightarrow> p \<in> set (tables s) \<Longrightarrow> p \<noteq> 0"
  using block_dom [of E s p] unfolding wf_service_def wf_heap_def by blast

lemma query_args:
  assumes "wf_service E s" "query_value (block s p) p = Some v"
  shows "guid_arg s (p + qs_lpServiceClassId) = Some (query_class v)"
    "name_arg s (p + qs_lpszServiceInstanceName) = Some (query_name v)"
  using guid_field [OF query_fields_at(2) [OF assms(2)] block_le wf_addr_space [OF assms(1)]]
    query_name_read [OF wf_addr_space [OF assms(1)] assms(2)]
  by (auto simp: guid_arg_def name_arg_def sizeof_GUID_def)

lemma class_arg:
  assumes "wf_service E s" "class_value (block s p) p = Some v"
  shows "guid_arg s (p + lpServiceClassId) = Some (class_id v)"
  using guid_field [OF class_fields_at [OF assms(2)] block_le wf_addr_space [OF assms(1)]]
  by (auto simp: guid_arg_def sizeof_GUID_def)

section \<open>Lookups\<close>

lemma LookupServiceClass_known:
  assumes "wf_service E s"
  shows "map_option (\<lambda>p. p \<noteq> 0) (LookupServiceClass guid s) = known guid (classes_held s)"
  unfolding LookupServiceClass_def classes_held_def
proof (rule find_class_known [OF wf_addr_space [OF assms]])
  show "\<forall>p\<in>set (ServiceClasses s). p \<noteq> 0 \<and> class_value (block s p) p \<noteq> None"
    using assms table_nonzero [OF assms] by (auto simp: wf_service_def tables_def)
qed

lemma find_service_held:
  assumes "wf_service E s"
  shows "find_service E (mem s) name 0 (Services s) = named (same_name E) name 0 (services_held s)"
  unfolding services_held_def
  by (rule find_service_named [OF wf_addr_space [OF assms]]) (use assms in \<open>auto simp: wf_service_def\<close>)

lemma named_bound: "named eq n i vs = Some (Some j) \<Longrightarrow> i \<le> j \<and> j < i + length vs"
  by (induction vs arbitrary: i) (fastforce simp: bind_eq_Some_conv split: if_splits)+

lemma first_wanted_bound: "first_wanted eq q i vs = Some (Some j) \<Longrightarrow> i \<le> j \<and> j < i + length vs"
  by (induction vs arbitrary: i) (fastforce simp: bind_eq_Some_conv split: if_splits)+

lemma LookupService_spec:
  assumes s: "wf_service E s"
    and k: "known guid (classes_held s) = Some k" and d: "(if k then named (same_name E) name 0 (services_held s) else Some None) = Some dup"
  shows "\<exists>p. LookupService E guid name s = Some p \<and> (p = 0 \<longleftrightarrow> dup = None)"
proof -
  obtain c where c: "LookupServiceClass guid s = Some c" "(c \<noteq> 0) = k"
    using LookupServiceClass_known [OF s, of guid] k by (cases "LookupServiceClass guid s") auto
  show ?thesis
  proof (cases dup)
    case None
    then show ?thesis using c d find_service_held [OF s, of name] by (cases k) (auto simp: LookupService_def)
  next
    case (Some j)
    then have "j < length (Services s)" using named_bound [of _ _ 0] d by (cases k) (fastforce simp: services_held_def)+
    then have "Services s ! j \<noteq> 0" using table_nonzero [OF s, of "Services s ! j"] by (auto simp: tables_def)
    then show ?thesis using c d Some find_service_held [OF s, of name] by (cases k) (auto simp: LookupService_def)
  qed
qed

section \<open>Registering a service\<close>

text \<open>A block that holds a value becomes an entry of a table.\<close>

lemma add_service:
  assumes s: "wf_service E s" and p: "p \<notin> set (tables s)" "query_value (block s p) p = Some v"
  shows "wf_service E (s\<lparr>Services := Services s @ [p]\<rparr>)" "services_held (s\<lparr>Services := Services s @ [p]\<rparr>) = services_held s @ [v]"
    "classes_held (s\<lparr>Services := Services s @ [p]\<rparr>) = classes_held s" "queries_held (s\<lparr>Services := Services s @ [p]\<rparr>) = queries_held s"
proof -
  let ?s = "s\<lparr>Services := Services s @ [p]\<rparr>"
  show "wf_service E ?s" using s p by (cases v) (auto simp: wf_service_def wf_heap_def tables_def)
  show "services_held ?s = services_held s @ [v]" "classes_held ?s = classes_held s" "queries_held ?s = queries_held s"
    using p(2) by (simp_all add: held_defs class_of_def query_of_def)
qed

lemma wf_follow: "wf_service E s \<Longrightarrow> length bs = 4 \<Longrightarrow> wf_service E (s\<lparr>bytes2follow := bs\<rparr>)"
  and keeps_follow: "keeps s (s\<lparr>bytes2follow := bs\<rparr>)"
  by (auto simp: wf_service_def wf_heap_def tables_def keeps_def)

lemma received_follow [simp]: "received E S (s\<lparr>bytes2follow := bs\<rparr>) = received E S s"
  by (simp add: received_def with_buffer_def)

text \<open>The link and the state when the structure of a request has been built.\<close>

lemma request_with_query:
  assumes s: "wf_service E s" and A: "allocator E" and i: "query_image r qs v S" and len: "length S \<le> BUFFER_SZ"
    and room: "place E (mem (received E S s)) (length S) \<noteq> 0"
    and l: "good_link l" "stream (arrivals l) = u32_bytes (of_nat (length S)) @ S"
  shows "\<exists>l1 l2 s1 si s2 m. read_size l s = (l1, s1) \<and> read_structure E l1 s1 = Some (l2, received E S s) \<and>
    good_link l2 \<and> written l2 = written l \<and>
    alloc_structure E (received E S s) = (si, s2) \<and> DeMarshallServiceInfo (mem s2) si (buf_at E) = Some m \<and>
    wf_service E (s2\<lparr>mem := m\<rparr>) \<and> keeps s (s2\<lparr>mem := m\<rparr>) \<and> si \<notin> set (tables s) \<and>
    query_value (block (s2\<lparr>mem := m\<rparr>) si) si = Some v"
proof -
  have b4: "length (bytes2follow s) = 4" using s by (simp add: wf_service_def)
  obtain l1 where l1: "read_size l s = (l1, s\<lparr>bytes2follow := u32_bytes (of_nat (length S))\<rparr>)" "good_link l1"
      "stream (arrivals l1) = S" "written l1 = written l"
    using read_size_exact [OF l b4] by blast
  have "wf_heap E (s\<lparr>bytes2follow := u32_bytes (of_nat (length S))\<rparr>)" using s by (simp add: wf_service_def wf_heap_def)
  from read_structure_exact [OF l1(2,3) len this] obtain l2 where l2:
    "read_structure E l1 (s\<lparr>bytes2follow := u32_bytes (of_nat (length S))\<rparr>) = Some (l2, received E S s)" "good_link l2"
    "written l2 = written l1" by auto
  from receive_and_build_query [OF s A i len room] obtain si s2 m where b: "alloc_structure E (received E S s) = (si, s2)"
      "DeMarshallServiceInfo (mem s2) si (buf_at E) = Some m"
      "wf_service E (s2\<lparr>mem := m\<rparr>)" "keeps s (s2\<lparr>mem := m\<rparr>)" "si \<notin> set (tables s)"
      "query_value (block (s2\<lparr>mem := m\<rparr>) si) si = Some v" by blast
  show ?thesis
    using l1 l2 b by (intro exI [of _ l1] exI [of _ l2] exI [of _ "s\<lparr>bytes2follow := u32_bytes (of_nat (length S))\<rparr>"]
        exI [of _ si] exI [of _ s2] exI [of _ m] conjI) simp_all
qed

lemma on_REGISTER_SERVICE_refines:
  assumes s: "wf_service E s" and A: "allocator E" and i: "query_image r qs v S" and len: "length S \<le> BUFFER_SZ"
    and room: "place E (mem (received E S s)) (length S) \<noteq> 0"
    and l: "good_link l" "stream (arrivals l) = u32_bytes (of_nat (length S)) @ S"
    and spec: "register_spec (same_name E) (classes_held s) v (services_held s) = Some (ok, vs)"
  shows "\<exists>l' s'. on_REGISTER_SERVICE E l s = Some (l', s') \<and> wf_service E s' \<and> services_held s' = vs \<and>
    classes_held s' = classes_held s \<and> queries_held s' = queries_held s \<and>
    written l' = written l @ u32_bytes (if ok then MYNSP_SUCCESS else MYNSP_ERROR) \<and> \<not> is_open l'"
proof -
  obtain l1 l2 s1 si s2 m where q: "read_size l s = (l1, s1)" "read_structure E l1 s1 = Some (l2, received E S s)"
      "good_link l2" "written l2 = written l"
      "alloc_structure E (received E S s) = (si, s2)" "DeMarshallServiceInfo (mem s2) si (buf_at E) = Some m"
      and ws: "wf_service E (s2\<lparr>mem := m\<rparr>)" and k: "keeps s (s2\<lparr>mem := m\<rparr>)" and nt: "si \<notin> set (tables s)"
      and v: "query_value (block (s2\<lparr>mem := m\<rparr>) si) si = Some v"
    using request_with_query [OF s A i len room l] by blast
  let ?s = "s2\<lparr>mem := m\<rparr>"
  note h = keeps_held [OF k] and args = query_args [OF ws v]
  obtain kn dup where kn: "known (query_class v) (classes_held s) = Some kn"
      and dup: "(if kn then named (same_name E) (query_name v) 0 (services_held s) else Some None) = Some dup"
      and ok: "if dup = None then length (services_held s) < 50 \<and> ok \<and> vs = services_held s @ [v] else \<not> ok \<and> vs = services_held s"
    using spec by (auto simp: register_spec_def bind_eq_Some_conv split: if_splits)
  obtain p where p: "LookupService E (query_class v) (query_name v) ?s = Some p" "(p = 0) = (dup = None)"
    using LookupService_spec [OF ws kn [folded h(1)] dup [folded h(2)]] by blast
  note add = add_service [OF ws _ v]
  have nt': "si \<notin> set (tables ?s)" using nt keeps_tables [OF k] by simp
  have n: "length (Services ?s) = length (services_held s)" using k by (simp add: services_held_def keeps_def)
  show ?thesis
  proof (cases "p = 0")
    case True
    then have "on_REGISTER_SERVICE E l s = Some (close_link (answer l2 (u32_bytes MYNSP_SUCCESS)), ?s\<lparr>Services := Services ?s @ [si]\<rparr>)"
      using q args p ok n by (simp add: on_REGISTER_SERVICE_def MAX_SERVICES_def Let_def)
    then show ?thesis using add [OF nt'] True p(2) ok h q(3,4) by (simp add: close_link_def)
  next
    case False
    then have "on_REGISTER_SERVICE E l s = Some (close_link (answer l2 (u32_bytes MYNSP_ERROR)), ?s)"
      using q args p(1) by (simp add: on_REGISTER_SERVICE_def Let_def)
    then show ?thesis using ws False p(2) ok h q(3,4) by (simp add: close_link_def)
  qed
qed

section \<open>Continuing a query\<close>

lemma find_query_Some: "find_query h k qs = Some j \<Longrightarrow> k \<le> j \<and> j < k + length qs \<and> hHandle (qs ! (j - k)) = h"
proof (induction qs arbitrary: k)
  case (Cons q qs)
  show ?case
  proof (cases "hHandle q = h")
    case False
    then have "find_query h (Suc k) qs = Some j" using Cons.prems by simp
    from Cons.IH [OF this] show ?thesis by (auto simp: nth_Cons')
  qed (use Cons.prems in auto)
qed simp

text \<open>Marshalling a value out of its block into the buffer.\<close>

lemma marshal_block:
  assumes s: "wf_service E s" and v: "query_value (block s p) p = Some v" and fits: "query_size v \<le> BUFFER_SZ"
  shows "\<exists>S. query_image (block s p) p v S \<and>
    MarshallServiceInfo (mem s) p (buf_at E) = Some (of_nat (query_size v), mem (with_buffer E S s))"
proof -
  have w: "wf_heap E s" using s by (simp add: wf_service_def)
  have out: "block s p a = None" if "buf_at E \<le> a" "a < buf_at E + BUFFER_SZ" for a
  proof (cases "blocks s p")
    case (Some n)
    then have "p + n \<le> buf_at E \<or> buf_at E + BUFFER_SZ \<le> p" using w unfolding wf_heap_def by blast
    then show ?thesis using that Some by (auto simp: block_def restrict_map_def)
  qed (simp add: block_def)
  then have b: "buffer (mem s) (block s p) (buf_at E) BUFFER_SZ" using w block_le by (simp add: buffer_def wf_heap_def)
  obtain ws fs as where v': "v = (ws, fs, as)" by (cases v)
  from Marshall_query_eq [OF b v [unfolded v']] obtain hb where hb: "read_bytes (block s p) p 60 = Some hb"
      "MarshallServiceInfo (mem s) p (buf_at E) = Some (of_nat (query_size v), stored (mem s) (buf_at E) (hb @ field_bytes fs @ csaddrs_image (block s p) p as))"
    using fits v' by auto
  have "addr_space (block s p)" using addr_space_le [OF _ block_le] w by (auto simp: wf_heap_def)
  then have "query_image (block s p) p v (hb @ field_bytes fs @ csaddrs_image (block s p) p as)"
    using hb(1) v v' by (simp add: query_image_def)
  then show ?thesis using hb(2) by (auto simp: with_buffer_def)
qed

lemma marshal_block_overflow:
  assumes s: "wf_service E s" and v: "query_value (block s p) p = Some v" and big: "BUFFER_SZ < query_size v"
  shows "MarshallServiceInfo (mem s) p (buf_at E) = None"
proof -
  have w: "wf_heap E s" using s by (simp add: wf_service_def)
  have "block s p a = None" if "buf_at E \<le> a" "a < buf_at E + BUFFER_SZ" for a
  proof (cases "blocks s p")
    case (Some n)
    then have "p + n \<le> buf_at E \<or> buf_at E + BUFFER_SZ \<le> p" using w unfolding wf_heap_def by blast
    then show ?thesis using that Some by (auto simp: block_def restrict_map_def)
  qed (simp add: block_def)
  then have b: "buffer (mem s) (block s p) (buf_at E) BUFFER_SZ" using w block_le by (simp add: buffer_def wf_heap_def)
  show ?thesis using Marshall_query_eq [OF b, of p "fst v" "fst (snd v)" "snd (snd v)"] v big by simp
qed

lemma set_index:
  assumes s: "wf_service E s" and j: "j < length (QueryInfo s)" and q: "QueryInfo s ! j = q"
  shows "wf_service E (s\<lparr>QueryInfo := (QueryInfo s)[j := q\<lparr>iIndex := k\<rparr>]\<rparr>)"
    "services_held (s\<lparr>QueryInfo := (QueryInfo s)[j := q\<lparr>iIndex := k\<rparr>]\<rparr>) = services_held s"
    "classes_held (s\<lparr>QueryInfo := (QueryInfo s)[j := q\<lparr>iIndex := k\<rparr>]\<rparr>) = classes_held s"
    "queries_held (s\<lparr>QueryInfo := (QueryInfo s)[j := q\<lparr>iIndex := k\<rparr>]\<rparr>) = (queries_held s)[j := (hHandle q, k, query_of s (Query q))]"
proof -
  have "Query (q\<lparr>iIndex := k\<rparr>) = map Query (QueryInfo s) ! j" using j q by simp
  then have m: "map Query ((QueryInfo s)[j := q\<lparr>iIndex := k\<rparr>]) = map Query (QueryInfo s)"
    by (simp only: map_update list_update_id)
  then have "Query ` set ((QueryInfo s)[j := q\<lparr>iIndex := k\<rparr>]) = Query ` set (QueryInfo s)" by (metis set_map)
  then show "wf_service E (s\<lparr>QueryInfo := (QueryInfo s)[j := q\<lparr>iIndex := k\<rparr>]\<rparr>)"
    using s m by (simp add: wf_service_def wf_heap_def tables_def)
qed (simp_all add: held_defs class_of_def query_of_def map_update)

lemma PerformQuery_spec:
  assumes s: "wf_service E s" and j: "find_query h 0 (QueryInfo s) = Some j" and q: "queries_held s ! j = (h, i, qv)"
    and spec: "first_wanted (same_name E) qv (nat (i + 1)) (drop (nat (i + 1)) (services_held s)) = Some found"
  shows "PerformQuery E h s = (case found of
      None \<Rightarrow> Some ((-1, if i = -1 then WSASERVICE_NOT_FOUND else WSA_E_NO_MORE), s)
    | Some k \<Rightarrow> Some ((int k, 0), s\<lparr>QueryInfo := (QueryInfo s)[j := (QueryInfo s ! j)\<lparr>iIndex := int k\<rparr>]\<rparr>))"
proof -
  have jl: "j < length (QueryInfo s)" "hHandle (QueryInfo s ! j) = h" using find_query_Some [OF j] by auto
  let ?q = "QueryInfo s ! j"
  have iq: "iIndex ?q = i" "query_of s (Query ?q) = qv" using q jl by (simp_all add: queries_held_def)
  have "?q \<in> set (QueryInfo s)" using jl by simp
  then have v: "query_value (block s (Query ?q)) (Query ?q) = Some qv"
    using s iq(2) unfolding wf_service_def query_of_def by (metis UnCI image_eqI option.exhaust_sel)
  have "\<forall>p\<in>set (drop (nat (i + 1)) (Services s)). query_value (block s p) p \<noteq> None"
    using s by (auto simp: wf_service_def dest: in_set_dropD)
  from scan_first_wanted [OF wf_addr_space [OF s] v this] have
    "scan E (mem s) (Query ?q) (nat (i + 1)) (drop (nat (i + 1)) (Services s)) = Some found"
    using spec by (simp add: services_held_def drop_map)
  then show ?thesis using j iq by (cases found) (simp_all add: PerformQuery_def FindQuery_def Let_def)
qed

lemma on_LOOKUP_SERVICE_NEXT_refines:
  assumes s: "wf_service E s" and j: "find_query h 0 (QueryInfo s) = Some j" and q: "queries_held s ! j = (h, i, qv)"
    and l: "good_link l" "stream (arrivals l) = u32_bytes h"
    and spec: "next_spec (same_name E) qv i (services_held s) = Some (res, i')"
    and fits: "\<And>v. res = Some v \<Longrightarrow> query_size v \<le> BUFFER_SZ"
  shows "\<exists>l' s' r p S. on_LOOKUP_SERVICE_NEXT E l s = Some (l', s') \<and> wf_service E s' \<and> services_held s' = services_held s \<and>
    classes_held s' = classes_held s \<and> queries_held s' = (queries_held s)[j := (h, i', qv)] \<and> \<not> is_open l' \<and>
    written l' = written l @ (case res of
       None \<Rightarrow> u32_bytes (if i = -1 then -1 else 0)
     | Some v \<Rightarrow> u32_bytes (of_nat (query_size v)) @ S) \<and>
    (\<forall>v. res = Some v \<longrightarrow> query_image r p v S)"
proof -
  obtain l1 where l1: "read_local (local_var E 4) 4 l = (u32_bytes h, l1)" "good_link l1" "written l1 = written l"
    using read_local_exact [OF l(1), of "u32_bytes h" "[]" 4 "local_var E 4"] l(2) by auto
  have jl: "j < length (QueryInfo s)" "hHandle (QueryInfo s ! j) = h" using find_query_Some [OF j] by auto
  have iq: "iIndex (QueryInfo s ! j) = i" "query_of s (Query (QueryInfo s ! j)) = qv" using q jl by (simp_all add: queries_held_def)
  obtain found where fo: "first_wanted (same_name E) qv (nat (i + 1)) (drop (nat (i + 1)) (services_held s)) = Some found"
      and res: "(res, i') = (case found of None \<Rightarrow> (None, i) | Some k \<Rightarrow> (Some (services_held s ! k), int k))"
    using spec by (auto simp: next_spec_def bind_eq_Some_conv)
  note P = PerformQuery_spec [OF s j q fo]
  show ?thesis
  proof (cases found)
    case None
    have "on_LOOKUP_SERVICE_NEXT E l s = Some (close_link (answer l1 (u32_bytes (if i = -1 then -1 else 0))), s)"
      using P None l1(1) by (simp add: on_LOOKUP_SERVICE_NEXT_def Let_def)
    moreover have "(queries_held s)[j := (h, i, qv)] = queries_held s" using q [symmetric] by simp
    ultimately show ?thesis using s l1(2,3) res None by (auto simp: close_link_def)
  next
    case (Some k)
    let ?s = "s\<lparr>QueryInfo := (QueryInfo s)[j := (QueryInfo s ! j)\<lparr>iIndex := int k\<rparr>]\<rparr>"
    let ?p = "Services s ! k" and ?v = "services_held s ! k"
    have kl: "k < length (Services s)" using first_wanted_bound [OF fo [unfolded Some]] by (auto simp: services_held_def)
    have rv: "res = Some ?v" "i' = int k" using res Some by simp_all
    have "?p \<in> set (Services s)" using kl by simp
    then have v: "query_value (block ?s ?p) ?p = Some ?v"
      using s kl unfolding wf_service_def services_held_def query_of_def by (auto simp: query_of_def)
    note ix = set_index [OF s jl(1) refl, of "int k"]
    obtain S where S: "query_image (block ?s ?p) ?p ?v S"
        "MarshallServiceInfo (mem ?s) ?p (buf_at E) = Some (of_nat (query_size ?v), mem (with_buffer E S ?s))"
      using marshal_block [OF ix(1) v fits [OF rv(1)]] by blast
    have len: "length S = query_size ?v" by (rule query_image_length [OF S(1)])
    have n: "0 < query_size ?v" "query_size ?v \<le> BUFFER_SZ" using fits rv by (simp_all add: query_size_def)
    have u: "unat (of_nat (query_size ?v) :: dword) = query_size ?v" "0 <s (of_nat (query_size ?v) :: dword)"
      using n by (simp add: unat_of_nat BUFFER_SZ_def) (rule positive_int; use n in \<open>simp add: BUFFER_SZ_def\<close>)
    have rd: "read_bytes (mem (with_buffer E S ?s)) (buf_at E) (query_size ?v) = Some S"
      using read_stored [of "mem ?s" "buf_at E" S] len by (simp add: with_buffer_def)
    have sz: "length S \<le> BUFFER_SZ" using len n by simp
    have "?s\<lparr>mem := mem (with_buffer E S ?s)\<rparr> = with_buffer E S ?s" by (simp add: with_buffer_def)
    then have "on_LOOKUP_SERVICE_NEXT E l s =
        Some (close_link (answer (answer l1 (u32_bytes (of_nat (query_size ?v)))) S), with_buffer E S ?s)"
      using P Some l1(1) S(2) u rd by (simp add: on_LOOKUP_SERVICE_NEXT_def Let_def)
    moreover have "keeps ?s (with_buffer E S ?s)" using ix(1) sz by (intro with_buffer_keeps) (simp_all add: wf_service_def)
    note keeps_held [OF this]
    ultimately show ?thesis
      using with_buffer_wf [OF ix(1) sz] ix l1(2,3) rv iq jl S(1) by (auto simp: close_link_def)
  qed
qed

section \<open>Starting a query\<close>

lemma add_query:
  assumes s: "wf_service E s" and p: "p \<notin> set (tables s)" "query_value (block s p) p = Some v"
    and room: "length (QueryInfo s) < MAX_QUERIES"
  shows "\<exists>s'. RegisterQuery p s = (Some (dwHandleValue s + 1), s') \<and> wf_service E s' \<and> services_held s' = services_held s \<and>
    classes_held s' = classes_held s \<and> queries_held s' = queries_held s @ [(dwHandleValue s + 1, -1, v)] \<and>
    dwHandleValue s' = dwHandleValue s + 1"
proof -
  let ?s = "s\<lparr>dwHandleValue := dwHandleValue s + 1, QueryInfo := QueryInfo s @ [\<lparr>hHandle = dwHandleValue s + 1, iIndex = -1, Query = p\<rparr>]\<rparr>"
  have "RegisterQuery p s = (Some (dwHandleValue s + 1), ?s)" using room by (simp add: RegisterQuery_def Let_def)
  moreover have "wf_service E ?s" using s p by (cases v) (auto simp: wf_service_def wf_heap_def tables_def)
  moreover have "services_held ?s = services_held s" "classes_held ?s = classes_held s"
      "queries_held ?s = queries_held s @ [(dwHandleValue s + 1, -1, v)]"
    using p(2) by (simp_all add: held_defs class_of_def query_of_def)
  ultimately show ?thesis by (intro exI [of _ ?s]) simp
qed

lemma on_LOOKUP_SERVICE_BEGIN_refines:
  assumes s: "wf_service E s" and A: "allocator E" and i: "query_image r qs v S" and len: "length S \<le> BUFFER_SZ"
    and room: "place E (mem s) (length S) \<noteq> 0"
    and l: "good_link l" "stream (arrivals l) = u32_bytes (of_nat (length S)) @ S"
  shows "\<exists>l' s'. on_LOOKUP_SERVICE_BEGIN E l s = Some (l', s') \<and> wf_service E s' \<and> services_held s' = services_held s \<and>
    classes_held s' = classes_held s \<and> \<not> is_open l' \<and>
    (if length (queries_held s) < 50
     then queries_held s' = queries_held s @ [(dwHandleValue s + 1, -1, v)] \<and> dwHandleValue s' = dwHandleValue s + 1 \<and>
       written l' = written l @ u32_bytes (dwHandleValue s + 1)
     else queries_held s' = queries_held s \<and> dwHandleValue s' = dwHandleValue s \<and> written l' = written l @ local_var E 4)"
proof -
  let ?w = "u32_bytes (of_nat (length S))"
  have b4: "length (bytes2follow s) = 4" using s by (simp add: wf_service_def)
  obtain l1 where l1: "read_size l s = (l1, s\<lparr>bytes2follow := ?w\<rparr>)" "good_link l1" "stream (arrivals l1) = S" "written l1 = written l"
    using read_size_exact [OF l b4] by blast
  have s1: "wf_service E (s\<lparr>bytes2follow := ?w\<rparr>)" by (rule wf_follow [OF s]) simp
  have k1: "keeps s (s\<lparr>bytes2follow := ?w\<rparr>)" by (rule keeps_follow)
  have "place E (mem (s\<lparr>bytes2follow := ?w\<rparr>)) (length S) \<noteq> 0" using room by simp
  then obtain si s2 where a: "GlobalAlloc E (length S) (s\<lparr>bytes2follow := ?w\<rparr>) = (si, s2)" "si \<noteq> 0" using alloc_room by blast
  have n: "0 < length S" using query_image_length [OF i] by (simp add: query_size_def)
  note f = alloc_fresh [OF s1 A a n]
  have al: "alloc_structure E (s\<lparr>bytes2follow := ?w\<rparr>) = (si, s2)" using alloc_structure_eq [of "s\<lparr>bytes2follow := ?w\<rparr>"] len a(1) by simp
  have h2: "wf_heap E s2" using f(1) by (simp add: wf_service_def)
  obtain l2 where l2: "read_structure E l1 s2 = Some (l2, received E S s2)" "good_link l2" "written l2 = written l1"
    using read_structure_exact [OF l1(2,3) len h2] f(8) by auto
  note rp = received_props [OF f(1) len]
  have nt: "si \<notin> set (tables (received E S s2))" using f(3) keeps_tables [OF f(2)] rp(6) by simp
  have bl: "blocks (received E S s2) si = Some (length S)" using f(5) rp(5) by simp
  from build_query [OF rp(1) bl nt len rp(4) i] obtain m where m: "DeMarshallServiceInfo (mem (received E S s2)) si (buf_at E) = Some m"
      "wf_service E ((received E S s2)\<lparr>mem := m\<rparr>)" "keeps (received E S s2) ((received E S s2)\<lparr>mem := m\<rparr>)"
      "query_value (block ((received E S s2)\<lparr>mem := m\<rparr>) si) si = Some v" by blast
  let ?s = "(received E S s2)\<lparr>mem := m\<rparr>"
  have k: "keeps s ?s" using keeps_trans [OF keeps_trans [OF keeps_trans [OF k1 f(2)] rp(2)] m(3)] .
  note h = keeps_held [OF k]
  have hv: "dwHandleValue ?s = dwHandleValue s" "QueryInfo ?s = QueryInfo s" using k by (simp_all add: keeps_def)
  have nt': "si \<notin> set (tables ?s)" using nt keeps_tables [OF m(3)] by simp
  show ?thesis
  proof (cases "length (queries_held s) < 50")
    case True
    then have "length (QueryInfo ?s) < MAX_QUERIES" using hv by (simp add: queries_held_def MAX_QUERIES_def)
    from add_query [OF m(2) nt' m(4) this] obtain s' where s': "RegisterQuery si ?s = (Some (dwHandleValue s + 1), s')"
        "wf_service E s'" "services_held s' = services_held s" "classes_held s' = classes_held s"
        "queries_held s' = queries_held s @ [(dwHandleValue s + 1, -1, v)]" "dwHandleValue s' = dwHandleValue s + 1"
      unfolding hv h by blast
    then have "on_LOOKUP_SERVICE_BEGIN E l s = Some (close_link (answer l2 (u32_bytes (dwHandleValue s + 1))), s')"
      using l1 al l2 m(1) by (simp add: on_LOOKUP_SERVICE_BEGIN_def Let_def)
    then show ?thesis using s' True l1 l2 by (simp add: close_link_def)
  next
    case False
    then have "RegisterQuery si ?s = (None, ?s)" using hv by (simp add: RegisterQuery_def queries_held_def MAX_QUERIES_def)
    then have "on_LOOKUP_SERVICE_BEGIN E l s = Some (close_link (answer l2 (local_var E 4)), ?s)"
      using l1 al l2 m(1) by (simp add: on_LOOKUP_SERVICE_BEGIN_def Let_def)
    then show ?thesis using m(2) h hv False l1 l2 by (simp add: close_link_def)
  qed
qed

section \<open>Registering a class\<close>

lemma add_class:
  assumes s: "wf_service E s" and p: "p \<notin> set (tables s)" "class_value (block s p) p = Some v"
  shows "wf_service E (s\<lparr>ServiceClasses := ServiceClasses s @ [p]\<rparr>)"
    "classes_held (s\<lparr>ServiceClasses := ServiceClasses s @ [p]\<rparr>) = classes_held s @ [v]"
    "services_held (s\<lparr>ServiceClasses := ServiceClasses s @ [p]\<rparr>) = services_held s"
    "queries_held (s\<lparr>ServiceClasses := ServiceClasses s @ [p]\<rparr>) = queries_held s"
  using s p by (cases v; auto simp: wf_service_def wf_heap_def tables_def held_defs class_of_def query_of_def)+

lemma receive_and_build_class:
  assumes s: "wf_service E s" and A: "allocator E" and i: "class_image r sc v S" and len: "length S \<le> BUFFER_SZ"
    and room: "place E (mem (received E S s)) (length S) \<noteq> 0"
  shows "\<exists>si s1 m. alloc_structure E (received E S s) = (si, s1) \<and> DeMarshallServiceClassInfo (mem s1) si (buf_at E) = Some m \<and>
    wf_service E (s1\<lparr>mem := m\<rparr>) \<and> keeps s (s1\<lparr>mem := m\<rparr>) \<and> class_value (block (s1\<lparr>mem := m\<rparr>) si) si = Some v \<and>
    si \<notin> set (tables s)"
proof -
  note rp = received_props [OF s len]
  obtain si s1 where a: "GlobalAlloc E (length S) (received E S s) = (si, s1)" "si \<noteq> 0" using alloc_room [OF room] by blast
  have n: "0 < length S" using class_image_length [OF i] by (simp add: class_size_def)
  note f = alloc_fresh [OF rp(1) A a n]
  have ts: "tables s1 = tables s" using keeps_tables [OF f(2)] rp(6) by simp
  have b1: "read_bytes (mem s1) (buf_at E) (length S) = Some S" using rp(4) f(9) len by (simp add: read_bytes_iff)
  have nt: "si \<notin> set (tables s1)" using f(3) rp(6) ts by simp
  from build_class [OF f(1,5) nt len b1 i] obtain m where m: "DeMarshallServiceClassInfo (mem s1) si (buf_at E) = Some m"
      "wf_service E (s1\<lparr>mem := m\<rparr>)" "keeps s1 (s1\<lparr>mem := m\<rparr>)" "class_value (block (s1\<lparr>mem := m\<rparr>) si) si = Some v" by blast
  have "keeps s (s1\<lparr>mem := m\<rparr>)" using keeps_trans [OF keeps_trans [OF rp(2) f(2)] m(3)] .
  then show ?thesis
    using m a nt ts alloc_structure_eq [OF rp(3) len] by (intro exI [of _ si] exI [of _ s1] exI [of _ m]) simp
qed

text \<open>
  A class is refused if its identifier is known.  The table has 25 entries and is taken to have 50:
  with 25 classes in it the next one is stored behind its end.
\<close>

lemma on_REGISTER_CLASS_refines:
  assumes s: "wf_service E s" and A: "allocator E" and i: "class_image r sc v S" and len: "length S \<le> BUFFER_SZ"
    and room: "place E (mem (received E S s)) (length S) \<noteq> 0"
    and l: "good_link l" "stream (arrivals l) = u32_bytes (of_nat (length S)) @ S"
    and k: "known (class_id v) (classes_held s) = Some k"
  shows "case on_REGISTER_CLASS E l s of
      None \<Rightarrow> \<not> k \<and> 25 \<le> length (classes_held s) \<and> length (classes_held s) < 50
    | Some (l', s') \<Rightarrow> (k \<or> length (classes_held s) < 25 \<or> 50 \<le> length (classes_held s)) \<and> wf_service E s' \<and> \<not> is_open l' \<and>
        classes_held s' = (if \<not> k \<and> length (classes_held s) < 25 then classes_held s @ [v] else classes_held s) \<and>
        services_held s' = services_held s \<and> queries_held s' = queries_held s \<and>
        written l' = written l @ u32_bytes (if k then MYNSP_ERROR else MYNSP_SUCCESS)"
proof -
  have b4: "length (bytes2follow s) = 4" using s by (simp add: wf_service_def)
  obtain l1 where l1: "read_size l s = (l1, s\<lparr>bytes2follow := u32_bytes (of_nat (length S))\<rparr>)" "good_link l1"
      "stream (arrivals l1) = S" "written l1 = written l"
    using read_size_exact [OF l b4] by blast
  have "wf_heap E (s\<lparr>bytes2follow := u32_bytes (of_nat (length S))\<rparr>)" using s by (simp add: wf_service_def wf_heap_def)
  from read_structure_exact [OF l1(2,3) len this] obtain l2 where l2:
    "read_structure E l1 (s\<lparr>bytes2follow := u32_bytes (of_nat (length S))\<rparr>) = Some (l2, received E S s)" "good_link l2"
    "written l2 = written l1" by auto
  obtain si s2 m where b: "alloc_structure E (received E S s) = (si, s2)" "DeMarshallServiceClassInfo (mem s2) si (buf_at E) = Some m"
      and ws: "wf_service E (s2\<lparr>mem := m\<rparr>)" and kp: "keeps s (s2\<lparr>mem := m\<rparr>)" and nt: "si \<notin> set (tables s)"
      and v: "class_value (block (s2\<lparr>mem := m\<rparr>) si) si = Some v"
    using receive_and_build_class [OF s A i len room] by blast
  let ?s = "s2\<lparr>mem := m\<rparr>"
  note h = keeps_held [OF kp]
  have arg: "guid_arg ?s (si + lpServiceClassId) = Some (class_id v)" by (rule class_arg [OF ws v])
  obtain c where c: "LookupServiceClass (class_id v) ?s = Some c" "(c \<noteq> 0) = k"
    using LookupServiceClass_known [OF ws, of "class_id v"] k h(1) by (cases "LookupServiceClass (class_id v) ?s") auto
  have n: "length (ServiceClasses ?s) = length (classes_held s)" using kp by (simp add: classes_held_def keeps_def)
  have nt': "si \<notin> set (tables ?s)" using nt keeps_tables [OF kp] by simp
  note add = add_class [OF ws nt' v]
  have e: "on_REGISTER_CLASS E l s =
      (if c = 0 then
         (if 50 \<le> length (classes_held s) then Some (close_link (answer l2 (u32_bytes MYNSP_SUCCESS)), ?s)
          else if 25 \<le> length (classes_held s) then None
          else Some (close_link (answer l2 (u32_bytes MYNSP_SUCCESS)), ?s\<lparr>ServiceClasses := ServiceClasses ?s @ [si]\<rparr>))
       else Some (close_link (answer l2 (u32_bytes MYNSP_ERROR)), ?s))"
    using l1(1) l2(1) b arg c(1) n by (simp add: on_REGISTER_CLASS_def Let_def MAX_SERVICES_def MAX_SERVICE_CLASSES_def)
  show ?thesis
    unfolding e using c(2) add ws h l1(4) l2(2,3) by (auto simp: close_link_def)
qed

end
