(* ===== verification/NspCalls.thy ===== *)
theory NspCalls
  imports NspServe
begin

text \<open>
  Calls of the DLL from end to end: the request is marshalled, cut by the network, served, and the
  reply is read.
\<close>

section \<open>A network that delivers\<close>

definition delivers :: "acceptance list \<Rightarrow> bool" where
  "delivers r \<longleftrightarrow> (\<forall>a\<in>set r. \<exists>k. a = Accept (Suc k))"

definition net_ok :: "net \<Rightarrow> bool" where
  "net_ok N \<longleftrightarrow> sock_ok N \<and> conn_ok N \<and> delivers (client_room N) \<and> delivers (service_room N) \<and>
     (\<forall>bs. stream (to_service N bs) = bs \<and> Reset \<notin> set (to_service N bs)) \<and>
     (\<forall>bs. stream (to_client N bs) = bs \<and> Reset \<notin> set (to_client N bs))"

text \<open>The memory of the caller, apart from the buffer of the entry point.\<close>

definition own :: "client \<Rightarrow> memory" where
  "own c = without (cmem c) (databuf c) MARSHALL_BUFFER_SZ"

definition wf_client :: "client \<Rightarrow> bool" where
  "wf_client c \<longleftrightarrow> addr_space (cmem c) \<and> allocated (cmem c) (databuf c) MARSHALL_BUFFER_SZ \<and>
     cmem c (databuf c + MARSHALL_BUFFER_SZ) = None"

lemma fresh_good: "delivers r \<Longrightarrow> good_link (fresh_link r [])"
  by (simp add: good_link_def fresh_link_def delivers_def)

lemma fresh_written [simp]: "written (fresh_link r as) = []" "arrivals (fresh_link r as) = as"
  by (simp_all add: fresh_link_def)

section \<open>The service, up to the switch\<close>

definition cleared :: "nsp_env \<Rightarrow> byte \<Rightarrow> service \<Rightarrow> service" where
  "cleared E a s = (with_buffer E (replicate BUFFER_SZ 0) s)\<lparr>action := [a]\<rparr>"

lemma cleared_props:
  assumes s: "wf_service E s"
  shows "wf_service E (cleared E a s)" "keeps s (cleared E a s)" "dwHandleValue (cleared E a s) = dwHandleValue s"
    "QueryInfo (cleared E a s) = QueryInfo s" "ServiceClasses (cleared E a s) = ServiceClasses s"
proof -
  have w: "wf_heap E s" using s by (simp add: wf_service_def)
  have k: "keeps s (with_buffer E (replicate BUFFER_SZ 0) s)" by (rule with_buffer_keeps [OF w]) simp
  have ws: "wf_service E (with_buffer E (replicate BUFFER_SZ 0) s)" by (rule with_buffer_wf [OF s]) simp
  show k': "keeps s (cleared E a s)" using k by (simp add: keeps_def cleared_def)
  show "wf_service E (cleared E a s)"
    using ws by (auto simp: wf_service_def wf_heap_def tables_def cleared_def)
qed (simp_all add: cleared_def with_buffer_def)

lemma serve_dispatch:
  assumes s: "wf_service E s" and l: "good_link l" "stream (arrivals l) = a # req"
  shows "\<exists>l1. serve_client E l s = dispatch E a l1 (cleared E a s) \<and> good_link l1 \<and> stream (arrivals l1) = req \<and> written l1 = written l"
proof -
  have w: "wf_heap E s" "length (action s) = 1" using s by (simp_all add: wf_service_def)
  obtain l1 where l1: "read_local (action s) 1 l = ([a], l1)" "good_link l1" "stream (arrivals l1) = req" "written l1 = written l"
    using read_local_exact [OF l(1), of "[a]" req 1 "action s"] l(2) w(2) by auto
  have "write_bytes (mem s) (buf_at E) (replicate BUFFER_SZ 0) = Some (mem (with_buffer E (replicate BUFFER_SZ 0) s))"
    by (rule buffer_write [OF w(1)]) simp
  then have "serve_client E l s = dispatch E a l1 (cleared E a s)"
    using l1(1) by (simp add: serve_client_def cleared_def with_buffer_def Let_def)
  then show ?thesis using l1 by blast
qed

text \<open>The room for a block does not depend on what the buffer holds.\<close>

lemma with_buffer_twice:
  assumes "length bs \<le> length cs"
  shows "mem (with_buffer E bs (with_buffer E cs s)) = mem (with_buffer E (bs @ drop (length bs) cs) s)"
  using assms by (auto simp: with_buffer_def stored_def fun_eq_iff nth_append)

lemma room_received:
  assumes "has_room E s (length S)" "length S \<le> BUFFER_SZ"
  shows "place E (mem (received E S (cleared E a s))) (length S) \<noteq> 0"
proof -
  have "mem (received E S (cleared E a s)) = mem (with_buffer E S (with_buffer E (replicate BUFFER_SZ 0) s))"
    by (simp add: received_def cleared_def with_buffer_def)
  also have "\<dots> = mem (with_buffer E (S @ drop (length S) (replicate BUFFER_SZ 0)) s)"
    using assms(2) by (intro with_buffer_twice) simp
  finally show ?thesis using assms unfolding has_room_def by simp
qed

lemma room_cleared: "has_room E s n \<Longrightarrow> place E (mem (cleared E a s)) n \<noteq> 0"
  by (simp add: has_room_def cleared_def)

section \<open>The DLL, up to the reply\<close>

text \<open>\<open>served E N req s reply s'\<close>: the service, sent \<open>req\<close>, writes \<open>reply\<close> and goes to \<open>s'\<close>.\<close>

definition served :: "nsp_env \<Rightarrow> net \<Rightarrow> byte list \<Rightarrow> service \<Rightarrow> byte list \<Rightarrow> service \<Rightarrow> bool" where
  "served E N req s reply s' \<longleftrightarrow>
     (\<exists>l'. serve_client E (fresh_link (service_room N) (to_service N req)) s = Some (l', s') \<and> written l' = reply)"

lemma served_by:
  assumes N: "net_ok N" and s: "wf_service E s"
    and d: "\<And>l. good_link l \<Longrightarrow> stream (arrivals l) = req \<Longrightarrow>
      \<exists>l' s' reply. dispatch E a l (cleared E a s) = Some (l', s') \<and> written l' = written l @ reply \<and> P reply s'"
  shows "\<exists>s' reply. served E N (a # req) s reply s' \<and> P reply s'"
proof -
  let ?l = "fresh_link (service_room N) (to_service N (a # req))"
  have "good_link ?l" "stream (arrivals ?l) = a # req"
    using N by (auto simp: net_ok_def good_link_def delivers_def fresh_link_def)
  from serve_dispatch [OF s this] obtain l1 where l1: "serve_client E ?l s = dispatch E a l1 (cleared E a s)" "good_link l1"
      "stream (arrivals l1) = req" "written l1 = []" by auto
  from d [OF l1(2,3)] l1 show ?thesis by (auto simp: served_def)
qed

lemma run_service_served:
  assumes N: "net_ok N" and l: "good_link l" and s: "served E N (written l) s reply s'"
  shows "\<exists>l'. run_service E N l s = Some (l', s') \<and> good_link l' \<and> stream (arrivals l') = reply"
  using assms by (auto simp: run_service_def served_def net_ok_def good_link_def)

lemma MyNspConnect_ok: "net_ok N \<Longrightarrow> MyNspConnect N c = (Some (fresh_link (client_room N) []), c)"
  by (simp add: MyNspConnect_def net_ok_def)

lemma answer_written: "good_link l \<Longrightarrow> written (answer l bs) = written l @ bs \<and> good_link (answer l bs)"
  by simp

lemma client_link: "net_ok N \<Longrightarrow> good_link (fresh_link (client_room N) [])"
  by (simp add: net_ok_def fresh_good)

text \<open>Marshalling an argument into the buffer of the entry point, and writing it out.\<close>

lemma own_le: "own c \<subseteq>\<^sub>m cmem c"
  by (simp add: own_def without_le)

lemma own_buffer: "wf_client c \<Longrightarrow> buffer (cmem c) (own c) (databuf c) MARSHALL_BUFFER_SZ"
  unfolding own_def by (rule buffer_without) (auto simp: wf_client_def)

lemma own_written: "length bs \<le> MARSHALL_BUFFER_SZ \<Longrightarrow> own (c\<lparr>cmem := stored (cmem c) (databuf c) bs\<rparr>) = own c"
  by (auto simp: own_def without_def restrict_map_def stored_def fun_eq_iff)

lemma wf_client_written:
  assumes "wf_client c" "length bs \<le> MARSHALL_BUFFER_SZ"
  shows "wf_client (c\<lparr>cmem := stored (cmem c) (databuf c) bs\<rparr>)"
proof -
  have "allocated (cmem c) (databuf c) (length bs)" using assms by (auto simp: wf_client_def elim: allocated_sub)
  then show ?thesis using assms by (auto simp: wf_client_def addr_space_stored) (simp add: stored_def)
qed

lemma marshal_argument:
  assumes c: "wf_client c" and v: "query_value (own c) qs = Some v" and fits: "query_size v \<le> MARSHALL_BUFFER_SZ" and l: "good_link l"
  shows "\<exists>S. query_image (own c) qs v S \<and>
    MarshallServiceInfo (cmem c) qs (databuf c) = Some (of_nat (length S), stored (cmem c) (databuf c) S) \<and>
    write_buffer l (stored (cmem c) (databuf c) S) (databuf c) (of_nat (length S)) = Some (answer l S) \<and> length S \<le> BUFFER_SZ"
proof -
  obtain ws fs as where v': "v = (ws, fs, as)" by (cases v)
  from Marshall_query_eq [OF own_buffer [OF c] v [unfolded v']] obtain hb where hb: "read_bytes (own c) qs 60 = Some hb"
      "MarshallServiceInfo (cmem c) qs (databuf c) = Some (of_nat (query_size v), stored (cmem c) (databuf c) (hb @ field_bytes fs @ csaddrs_image (own c) qs as))"
    using fits v' by auto
  let ?S = "hb @ field_bytes fs @ csaddrs_image (own c) qs as"
  have "addr_space (own c)" using c addr_space_le [OF _ own_le] by (auto simp: wf_client_def)
  then have i: "query_image (own c) qs v ?S" using hb(1) v v' by (simp add: query_image_def)
  have n: "length ?S = query_size v" by (rule query_image_length [OF i])
  have lt: "query_size v < 2 ^ 31" "0 < query_size v" using fits by (simp_all add: MARSHALL_BUFFER_SZ_def query_size_def)
  have "write_buffer l (stored (cmem c) (databuf c) ?S) (databuf c) (of_nat (query_size v)) = Some (answer l ?S)"
    using positive_int [OF lt(2,1)] lt(1) read_stored [of "cmem c" "databuf c" ?S] n
    by (simp add: write_buffer_def unat_of_nat)
  then show ?thesis using i hb(2) n fits by (intro exI [of _ ?S]) (simp add: BUFFER_SZ_def MARSHALL_BUFFER_SZ_def)
qed

lemma read_reply_exact:
  assumes "good_link l" "stream (arrivals l) = u32_bytes w @ rest"
  shows "\<exists>l'. read_reply E l = (w, l') \<and> good_link l' \<and> stream (arrivals l') = rest"
  using read_local_exact [OF assms, of 4 "local_var E 4"] by (auto simp: read_reply_def)

section \<open>Registering and deregistering a service\<close>

text \<open>\<open>NSPSetService\<close>, whatever the service does with the structure it is sent.\<close>

lemma set_service_call:
  assumes N: "net_ok N" and c: "wf_client c" and s: "wf_service E s"
    and v: "query_value (own c) qs = Some v" "query_size v \<le> MARSHALL_BUFFER_SZ"
    and op: "op = RNRSERVICE_REGISTER \<and> a = MYNSP_REGISTER_SERVICE \<or> op = RNRSERVICE_DELETE \<and> a = MYNSP_DEREGISTER_SERVICE"
    and d: "\<And>S l. query_image (own c) qs v S \<Longrightarrow> length S \<le> BUFFER_SZ \<Longrightarrow> good_link l \<Longrightarrow>
      stream (arrivals l) = u32_bytes (of_nat (length S)) @ S \<Longrightarrow>
      \<exists>l' s'. dispatch E a l (cleared E a s) = Some (l', s') \<and>
        written l' = written l @ u32_bytes (if ok then MYNSP_SUCCESS else MYNSP_ERROR) \<and> P s'"
  shows "\<exists>c' s'. NSPSetService E N qs op c s = Some (if ok then NO_ERROR else SOCKET_ERROR, c', s') \<and> P s' \<and>
    wf_client c' \<and> own c' = own c \<and> open_sockets c' = open_sockets c"
proof -
  let ?l = "fresh_link (client_room N) []"
  have g: "good_link ?l" by (rule client_link [OF N])
  let ?la = "answer ?l [a]"
  obtain S where S: "query_image (own c) qs v S"
      "MarshallServiceInfo (cmem c) qs (databuf c) = Some (of_nat (length S), stored (cmem c) (databuf c) S)"
      "write_buffer (answer ?la (u32_bytes (of_nat (length S)))) (stored (cmem c) (databuf c) S) (databuf c) (of_nat (length S)) =
        Some (answer (answer ?la (u32_bytes (of_nat (length S)))) S)" "length S \<le> BUFFER_SZ"
    using marshal_argument [OF c v, of "answer ?la (u32_bytes (of_nat (query_size v)))"] query_image_length g by fastforce
  let ?lr = "answer (answer ?la (u32_bytes (of_nat (length S)))) S"
  let ?r = "if ok then MYNSP_SUCCESS else MYNSP_ERROR"
  have "\<exists>s' reply. served E N (a # (u32_bytes (of_nat (length S)) @ S)) s reply s' \<and> (reply = u32_bytes ?r \<and> P s')"
    by (rule served_by [OF N s]) (use d [OF S(1,4)] in blast)
  then obtain s' where sv: "served E N (a # u32_bytes (of_nat (length S)) @ S) s (u32_bytes ?r) s'" and s': "P s'" by auto
  have w: "written ?lr = a # u32_bytes (of_nat (length S)) @ S" using g by simp
  obtain l' where l': "run_service E N ?lr s = Some (l', s')" "good_link l'" "stream (arrivals l') = u32_bytes ?r"
    using run_service_served [OF N _ sv [folded w]] g by auto
  obtain l2 where l2: "read_reply E l' = (?r, l2)"
    using read_reply_exact [OF l'(2), of _ "[]"] l'(3) by auto
  let ?c = "c\<lparr>cmem := stored (cmem c) (databuf c) S\<rparr>"
  have act: "(case op of RNRSERVICE_REGISTER \<Rightarrow> [MYNSP_REGISTER_SERVICE] | RNRSERVICE_DELETE \<Rightarrow> [MYNSP_DEREGISTER_SERVICE]
      | RNRSERVICE_DEREGISTER \<Rightarrow> local_var E 1) = [a]" using op by auto
  have "NSPSetService E N qs op c s =
      Some (if ok then NO_ERROR else SOCKET_ERROR, if ok then ?c else ?c\<lparr>last_error := WSAEINVAL\<rparr>, s')"
    unfolding NSPSetService_def Let_def act
    using MyNspConnect_ok [OF N] S(2,3) l'(1) l2 by (cases ok) (simp_all add: Let_def leave_def close_link_def)
  moreover have "wf_client ?c" "own ?c = own c"
    using wf_client_written [OF c] own_written S(4) by (simp_all add: BUFFER_SZ_def MARSHALL_BUFFER_SZ_def)
  ultimately show ?thesis using s' by (cases ok) (auto simp: wf_client_def own_def)
qed

theorem register_service_call:
  assumes N: "net_ok N" and c: "wf_client c" and s: "wf_service E s" and A: "allocator E"
    and v: "query_value (own c) qs = Some v" "query_size v \<le> MARSHALL_BUFFER_SZ" and room: "has_room E s (query_size v)"
    and spec: "register_spec (same_name E) (classes_held s) v (services_held s) = Some (ok, vs)"
  shows "\<exists>c' s'. NSPSetService E N qs RNRSERVICE_REGISTER c s = Some (if ok then NO_ERROR else SOCKET_ERROR, c', s') \<and>
    (wf_service E s' \<and> services_held s' = vs \<and> classes_held s' = classes_held s \<and> queries_held s' = queries_held s) \<and>
    wf_client c' \<and> own c' = own c \<and> open_sockets c' = open_sockets c"
proof (rule set_service_call [OF N c s v])
  let ?a = MYNSP_REGISTER_SERVICE
  show "RNRSERVICE_REGISTER = RNRSERVICE_REGISTER \<and> ?a = MYNSP_REGISTER_SERVICE \<or>
      RNRSERVICE_REGISTER = RNRSERVICE_DELETE \<and> ?a = MYNSP_DEREGISTER_SERVICE" by simp
  note cl = cleared_props [OF s]
  note h = keeps_held [OF cl(2)]
  fix S l assume S: "query_image (own c) qs v S" "length S \<le> BUFFER_SZ" and l: "good_link l"
    "stream (arrivals l) = u32_bytes (of_nat (length S)) @ S"
  have rm: "place E (mem (received E S (cleared E ?a s))) (length S) \<noteq> 0"
    using room query_image_length [OF S(1)] S(2) by (intro room_received) simp_all
  from on_REGISTER_SERVICE_refines [OF cl(1) A S rm l] spec h
  show "\<exists>l' s'. dispatch E ?a l (cleared E ?a s) = Some (l', s') \<and> written l' = written l @ u32_bytes (if ok then MYNSP_SUCCESS else MYNSP_ERROR) \<and>
      (wf_service E s' \<and> services_held s' = vs \<and> classes_held s' = classes_held s \<and> queries_held s' = queries_held s)"
    by (fastforce simp: dispatch_def actions)
qed

section \<open>Looking services up\<close>

theorem lookup_begin_call:
  assumes N: "net_ok N" and c: "wf_client c" and s: "wf_service E s" and A: "allocator E"
    and v: "query_value (own c) qs = Some v" "query_size v \<le> MARSHALL_BUFFER_SZ" and room: "has_room E s (query_size v)"
    and handle: "dwHandleValue s + 1 \<noteq> 0"
  shows "\<exists>r c' s'. NSPLookupServiceBegin E N qs c s = Some (r, c', s') \<and> wf_service E s' \<and>
    services_held s' = services_held s \<and> classes_held s' = classes_held s \<and>
    wf_client c' \<and> own c' = own c \<and> open_sockets c' = open_sockets c \<and>
    (if length (queries_held s) < 50
     then r = (NO_ERROR, Some (dwHandleValue s + 1)) \<and> queries_held s' = queries_held s @ [(dwHandleValue s + 1, -1, v)]
     else queries_held s' = queries_held s \<and>
       r = (if u32 (local_var E 4) = 0 then (SOCKET_ERROR, None) else (NO_ERROR, Some (u32 (local_var E 4)))))"
proof -
  let ?l = "fresh_link (client_room N) []" and ?a = MYNSP_LOOKUP_SERVICE_BEGIN
  have g: "good_link ?l" by (rule client_link [OF N])
  let ?la = "answer ?l [?a]"
  obtain S where S: "query_image (own c) qs v S"
      "MarshallServiceInfo (cmem c) qs (databuf c) = Some (of_nat (length S), stored (cmem c) (databuf c) S)"
      "write_buffer (answer ?la (u32_bytes (of_nat (length S)))) (stored (cmem c) (databuf c) S) (databuf c) (of_nat (length S)) =
        Some (answer (answer ?la (u32_bytes (of_nat (length S)))) S)" "length S \<le> BUFFER_SZ"
    using marshal_argument [OF c v, of "answer ?la (u32_bytes (of_nat (query_size v)))"] query_image_length g by fastforce
  have n: "length S = query_size v" by (rule query_image_length [OF S(1)])
  note cl = cleared_props [OF s]
  note h = keeps_held [OF cl(2)]
  have rm: "place E (mem (cleared E ?a s)) (length S) \<noteq> 0" using room n room_cleared by simp
  let ?lr = "answer (answer ?la (u32_bytes (of_nat (length S)))) S"
  let ?P = "\<lambda>reply s'. wf_service E s' \<and> services_held s' = services_held s \<and> classes_held s' = classes_held s \<and>
    (if length (queries_held s) < 50
     then queries_held s' = queries_held s @ [(dwHandleValue s + 1, -1, v)] \<and> reply = u32_bytes (dwHandleValue s + 1)
     else queries_held s' = queries_held s \<and> reply = local_var E 4)"
  have "\<exists>s' reply. served E N (?a # (u32_bytes (of_nat (length S)) @ S)) s reply s' \<and> ?P reply s'"
  proof (rule served_by [OF N s])
    fix l assume l: "good_link l" "stream (arrivals l) = u32_bytes (of_nat (length S)) @ S"
    from on_LOOKUP_SERVICE_BEGIN_refines [OF cl(1) A S(1) S(4) rm l] h cl(3)
    show "\<exists>l' s' reply. dispatch E ?a l (cleared E ?a s) = Some (l', s') \<and> written l' = written l @ reply \<and> ?P reply s'"
      by (cases "length (queries_held s) < 50") (fastforce simp: dispatch_def actions)+
  qed
  then obtain s' reply where sv: "served E N (?a # (u32_bytes (of_nat (length S)) @ S)) s reply s'" and s': "?P reply s'" by blast
  have w: "written ?lr = ?a # (u32_bytes (of_nat (length S)) @ S)" using g by simp
  obtain l' where l': "run_service E N ?lr s = Some (l', s')" "good_link l'" "stream (arrivals l') = reply"
    using run_service_served [OF N _ sv [folded w]] g by auto
  let ?h = "if length (queries_held s) < 50 then dwHandleValue s + 1 else u32 (local_var E 4)"
  have "\<exists>l2. read_reply E l' = (?h, l2)"
  proof (cases "length (queries_held s) < 50")
    case True
    then show ?thesis using read_reply_exact [OF l'(2), of "dwHandleValue s + 1" "[]"] l'(3) s' by auto
  next
    case False
    then have "stream (arrivals l') = local_var E 4 @ []" using l'(3) s' by simp
    from read_local_exact [OF l'(2) this] show ?thesis using False by (fastforce simp: read_reply_def)
  qed
  then obtain l2 where l2: "read_reply E l' = (?h, l2)" ..
  let ?c = "c\<lparr>cmem := stored (cmem c) (databuf c) S\<rparr>"
  have "NSPLookupServiceBegin E N qs c s =
      Some (if ?h = 0 then (SOCKET_ERROR, None) else (NO_ERROR, Some ?h), if ?h = 0 then ?c\<lparr>last_error := WSAEINVAL\<rparr> else ?c, s')"
    using MyNspConnect_ok [OF N] S(2,3) l'(1) l2 by (simp add: NSPLookupServiceBegin_def Let_def leave_def close_link_def)
  moreover have "wf_client ?c" "own ?c = own c"
    using wf_client_written [OF c] own_written S(4) by (simp_all add: BUFFER_SZ_def MARSHALL_BUFFER_SZ_def)
  then have "wf_client (if ?h = 0 then ?c\<lparr>last_error := WSAEINVAL\<rparr> else ?c)" "own (if ?h = 0 then ?c\<lparr>last_error := WSAEINVAL\<rparr> else ?c) = own c"
    by (auto simp: wf_client_def own_def)
  ultimately show ?thesis
    using s' handle by (intro exI [of _ "if ?h = 0 then (SOCKET_ERROR, None) else (NO_ERROR, Some ?h)"]
        exI [of _ "if ?h = 0 then ?c\<lparr>last_error := WSAEINVAL\<rparr> else ?c"] exI [of _ s']) auto
qed

text \<open>The reply arrives in the buffer of the entry point and is demarshalled into the results.\<close>

lemma unpack_reply:
  assumes c: "wf_client c" and i: "query_image r p v S" and len: "length S \<le> MARSHALL_BUFFER_SZ"
    and lp: "allocated (own c) lp (length S)"
  shows "write_bytes (cmem c) (databuf c) S = Some (stored (cmem c) (databuf c) S)"
    "\<exists>m. DeMarshallServiceInfo (stored (cmem c) (databuf c) S) lp (databuf c) = Some m \<and>
      query_value (m |` {lp..<lp + query_size v}) lp = Some v"
proof -
  have al: "allocated (cmem c) (databuf c) (length S)" using c len by (auto simp: wf_client_def elim: allocated_sub)
  then show "write_bytes (cmem c) (databuf c) S = Some (stored (cmem c) (databuf c) S)" by (simp add: write_bytes_eq)
  have n: "length S = query_size v" "0 < length S" using query_image_length [OF i] by (simp_all add: query_size_def)
  have some: "own c (lp + k) \<noteq> None" if "k < length S" for k using lp that by (simp add: allocated_def)
  have out: "own c a = None" if "databuf c \<le> a" "a < databuf c + MARSHALL_BUFFER_SZ" for a
    using that by (simp add: own_def without_def)
  have le: "own c a = Some b \<Longrightarrow> cmem c a = Some b" for a b using own_le by (auto simp: map_le_def dom_def)
  have sp: "addr_space (cmem c)" using c by (simp add: wf_client_def)
  have "length S = 0 \<or> databuf c + length S \<le> lp \<or> lp + length S \<le> databuf c"
    by (rule ranges_apart [where r = "own c" and buf = "databuf c" and cap = MARSHALL_BUFFER_SZ, OF some out]) (use len in simp_all)
  moreover have "allocated (cmem c) lp (length S)" using some le by (fastforce simp: allocated_def)
  moreover have "lp \<noteq> 0"
  proof
    assume "lp = 0"
    with some [of 0] n le have "cmem c 0 \<noteq> None" by fastforce
    then show False using sp by (simp add: addr_space_0)
  qed
  moreover have "databuf c \<noteq> 0"
  proof
    assume "databuf c = 0"
    then have "cmem c 0 \<noteq> None" using al n by (auto simp: allocated_def)
    then show False using sp by (simp add: addr_space_0)
  qed
  moreover have "lp + length S < 2 ^ 32"
  proof -
    have "length S - 1 < length S" using n by simp
    then have "cmem c (lp + (length S - 1)) \<noteq> None" using some le by (metis option.exhaust option.distinct(1))
    then have "lp + (length S - 1) < 2 ^ 32 - 1" using sp by (auto simp: addr_space_def dom_def)
    then show ?thesis using n by linarith
  qed
  ultimately have t: "target (stored (cmem c) (databuf c) S) lp (databuf c) S"
    by (auto simp: target_def read_stored)
  obtain ws fs as where v: "v = (ws, fs, as)" by (cases v)
  obtain hb where hb: "read_bytes r p 60 = Some hb" "S = hb @ field_bytes fs @ csaddrs_image r p as"
      and r: "addr_space r" "query_value r p = Some (ws, fs, as)"
    using i v by (auto simp: query_image_def)
  from DeMarshall_query [OF r(2,1) hb(1) t [unfolded hb(2)]] show "\<exists>m. DeMarshallServiceInfo (stored (cmem c) (databuf c) S) lp (databuf c) = Some m \<and>
      query_value (m |` {lp..<lp + query_size v}) lp = Some v"
    unfolding v hb(2) by blast
qed

theorem lookup_next_call:
  assumes N: "net_ok N" and c: "wf_client c" and s: "wf_service E s"
    and j: "find_query h 0 (QueryInfo s) = Some j" and q: "queries_held s ! j = (h, i, qv)"
    and spec: "next_spec (same_name E) qv i (services_held s) = Some (res, i')"
    and fits: "\<And>v. res = Some v \<Longrightarrow> query_size v \<le> MARSHALL_BUFFER_SZ"
    and lp: "allocated (own c) lp (unat len)"
  shows "\<exists>r c' s'. NSPLookupServiceNext E N h len lp c s = Some (r, c', s') \<and> wf_service E s' \<and>
    services_held s' = services_held s \<and> queries_held s' = (queries_held s)[j := (h, i', qv)] \<and> open_sockets c' = open_sockets c \<and>
    (case res of
       None \<Rightarrow> r = (SOCKET_ERROR, len) \<and> last_error c' = (if i = -1 then WSASERVICE_NOT_FOUND else WSA_E_NO_MORE)
     | Some v \<Rightarrow>
         if query_size v \<le> unat len
         then r = (NO_ERROR, 4) \<and> query_value (cmem c' |` {lp..<lp + query_size v}) lp = Some v
         else r = (SOCKET_ERROR, of_nat (query_size v)) \<and> last_error c' = WSAEFAULT)"
proof -
  let ?l = "fresh_link (client_room N) []" and ?a = MYNSP_LOOKUP_SERVICE_NEXT
  let ?lr = "answer (answer ?l [?a]) (u32_bytes h)"
  have g: "good_link ?l" by (rule client_link [OF N])
  note cl = cleared_props [OF s]
  note hl = keeps_held [OF cl(2)]
  let ?P = "\<lambda>reply s'. wf_service E s' \<and> services_held s' = services_held s \<and>
    queries_held s' = (queries_held s)[j := (h, i', qv)] \<and>
    (case res of None \<Rightarrow> reply = u32_bytes (if i = -1 then -1 else 0)
     | Some v \<Rightarrow> \<exists>r p S. query_image r p v S \<and> reply = u32_bytes (of_nat (query_size v)) @ S)"
  have "\<exists>s' reply. served E N (?a # u32_bytes h) s reply s' \<and> ?P reply s'"
  proof (rule served_by [OF N s])
    fix l assume l: "good_link l" "stream (arrivals l) = u32_bytes h"
    have fits': "\<And>v. res = Some v \<Longrightarrow> query_size v \<le> BUFFER_SZ" using fits by (simp add: BUFFER_SZ_def MARSHALL_BUFFER_SZ_def)
    from on_LOOKUP_SERVICE_NEXT_refines [where s = "cleared E ?a s" and j = j and i = i and qv = qv and res = res and i' = i',
        OF cl(1) _ _ l] j q spec fits' hl cl(4)
    obtain l' s' r p S where "on_LOOKUP_SERVICE_NEXT E l (cleared E ?a s) = Some (l', s')" "wf_service E s'"
      "services_held s' = services_held s" "queries_held s' = (queries_held s)[j := (h, i', qv)]"
      "written l' = written l @ (case res of None \<Rightarrow> u32_bytes (if i = -1 then -1 else 0)
        | Some v \<Rightarrow> u32_bytes (of_nat (query_size v)) @ S)"
      "\<forall>v. res = Some v \<longrightarrow> query_image r p v S" by auto
    then show "\<exists>l' s' reply. dispatch E ?a l (cleared E ?a s) = Some (l', s') \<and> written l' = written l @ reply \<and> ?P reply s'"
      by (cases res) (auto simp: dispatch_def actions)
  qed
  then obtain s' reply where sv: "served E N (?a # u32_bytes h) s reply s'" and s': "?P reply s'" by blast
  have w: "written ?lr = ?a # u32_bytes h" using g by simp
  obtain l' where l': "run_service E N ?lr s = Some (l', s')" "good_link l'" "stream (arrivals l') = reply"
    using run_service_served [OF N _ sv [folded w]] g by auto
  define w4 :: dword where "w4 = (case res of None \<Rightarrow> if i = -1 then -1 else 0 | Some v \<Rightarrow> of_nat (query_size v))"
  obtain S where S: "reply = u32_bytes w4 @ S" "\<And>v. res = Some v \<Longrightarrow> \<exists>r p. query_image r p v S"
    using s' by (cases res) (auto simp: w4_def)
  obtain l2 where l2: "readdata l' 4 4 = (u32_bytes w4, 4, l2)" "good_link l2" "stream (arrivals l2) = S"
    using readdata_exact [OF l'(2), of "u32_bytes w4" S 4 4] l'(3) S(1) by (auto simp: consumed_def)
  note call = NSPLookupServiceNext_def [of E N h len lp c s] MyNspConnect_ok [OF N]
  show ?thesis
  proof (cases res)
    case None
    have "NSPLookupServiceNext E N h len lp c s =
        Some ((SOCKET_ERROR, len), c\<lparr>last_error := if i = -1 then WSASERVICE_NOT_FOUND else WSA_E_NO_MORE\<rparr>, s')"
      using None l'(1) l2(1) by (simp add: call Let_def leave_def close_link_def fill_def w4_def)
    then show ?thesis using s' None by simp
  next
    case (Some v)
    obtain r p where im: "query_image r p v S" using S(2) [OF Some] by blast
    have n: "length S = query_size v" by (rule query_image_length [OF im])
    have sz: "query_size v \<le> 4096" "60 \<le> query_size v" using fits [OF Some] by (simp_all add: MARSHALL_BUFFER_SZ_def query_size_def)
    have u: "unat w4 = query_size v" using sz by (simp add: w4_def Some unat_of_nat)
    have m1: "unat (-1 :: dword) = 2 ^ 32 - 1" by (simp add: unsigned_minus_1_eq_mask mask_eq_exp_minus_1)
    from u have w4: "w4 \<noteq> -1" "w4 \<noteq> 0" "len < w4 \<longleftrightarrow> unat len < query_size v"
      using sz m1 by (auto simp: word_less_nat_alt)
    show ?thesis
    proof (cases "query_size v \<le> unat len")
      case False
      then have "NSPLookupServiceNext E N h len lp c s = Some ((SOCKET_ERROR, w4), c\<lparr>last_error := WSAEFAULT\<rparr>, s')"
        using l'(1) l2(1) w4 by (simp add: call Let_def leave_def close_link_def fill_def)
      then show ?thesis using s' Some False by (simp add: w4_def)
    next
      case True
      obtain l3 where l3: "readdata l2 MARSHALL_BUFFER_SZ w4 = (S, w4, l3)"
        using readdata_exact [OF l2(2), of S "[]" w4 MARSHALL_BUFFER_SZ] l2(3) n u sz by (auto simp: MARSHALL_BUFFER_SZ_def)
      have "allocated (own c) lp (length S)" using lp True n by (auto elim: allocated_sub)
      note up = unpack_reply [OF c im _ this]
      have "length S \<le> MARSHALL_BUFFER_SZ" using n sz by (simp add: MARSHALL_BUFFER_SZ_def)
      from up [OF this] obtain m where m: "DeMarshallServiceInfo (stored (cmem c) (databuf c) S) lp (databuf c) = Some m"
          "query_value (m |` {lp..<lp + query_size v}) lp = Some v"
          "write_bytes (cmem c) (databuf c) S = Some (stored (cmem c) (databuf c) S)" by blast
      have "NSPLookupServiceNext E N h len lp c s = Some ((NO_ERROR, 4), c\<lparr>cmem := m\<rparr>, s')"
        using l'(1) l2(1) l3 m w4 True by (simp add: call Let_def leave_def close_link_def fill_def)
      then show ?thesis using s' Some True m(2) by simp
    qed
  qed
qed

end
