(* ===== verification/NspLimits.thy ===== *)
theory NspLimits
  imports NspCalls
begin

text \<open>
  What the provider does not achieve: classes are not removed, the information about a class is not
  returned, and queries are never given back.
\<close>

section \<open>Classes\<close>

lemma class_raw_bytes:
  assumes s: "wf_service E s" and p: "p \<in> set (ServiceClasses s)"
  shows "\<exists>bs. read_bytes (mem s) p 16 = Some bs"
proof -
  obtain v where v: "class_value (block s p) p = Some v" using s p by (auto simp: wf_service_def)
  then obtain bs where "read_bytes (block s p) p 16 = Some bs"
    by (auto simp: class_value_def sizeof_SERVICECLASSINFO_def bind_eq_Some_conv)
  then show ?thesis using read_bytes_le [OF block_le] by blast
qed

lemma find_raw_None:
  assumes "\<forall>p\<in>set ps. \<exists>bs. read_bytes m p 16 = Some bs \<and> bs \<noteq> guid"
  shows "find_raw m guid i ps = Some None"
  using assms by (induction ps arbitrary: i) (auto simp: same_guid_def lpServiceClassId_def sizeof_GUID_def)

text \<open>
  \<open>DeregisterServiceClass\<close> finds a class only if the identifier it is given happens to be the bytes
  of the structure that describes the class.
\<close>

lemma DeregisterServiceClass_misses:
  assumes s: "wf_service E s" and g: "\<forall>p\<in>set (ServiceClasses s). read_bytes (mem s) p 16 \<noteq> Some guid"
  shows "DeregisterServiceClass guid s = Some (MYNSP_ERROR, s)"
proof -
  have "\<forall>p\<in>set (ServiceClasses s). \<exists>bs. read_bytes (mem s) p 16 = Some bs \<and> bs \<noteq> guid"
    using class_raw_bytes [OF s] g by blast
  from find_raw_None [OF this, of 0] show ?thesis by (simp add: DeregisterServiceClass_def)
qed

lemma raw_bytes_cleared:
  assumes s: "wf_service E s" and p: "p \<in> set (ServiceClasses s)"
  shows "read_bytes (mem (cleared E a s)) p 16 = read_bytes (mem s) p 16"
proof -
  obtain v where v: "class_value (block s p) p = Some v" using s p by (auto simp: wf_service_def)
  then obtain bs where bs: "read_bytes (block s p) p 16 = Some bs"
    by (auto simp: class_value_def sizeof_SERVICECLASSINFO_def bind_eq_Some_conv)
  have "block (cleared E a s) p = block s p" using cleared_props(2) [OF s, of a] p by (simp add: keeps_def tables_def)
  then show ?thesis using read_bytes_le [OF block_le bs] read_bytes_le [OF block_le, of "cleared E a s"] bs by metis
qed

lemma remove_class_call:
  assumes N: "net_ok N" and s: "wf_service E s" and guid: "read_bytes (cmem c) q 16 = Some guid"
    and g: "\<forall>p\<in>set (ServiceClasses s). read_bytes (mem s) p 16 \<noteq> Some guid"
  shows "\<exists>s'. NSPRemoveServiceClass E N q c s = Some (SOCKET_ERROR, c\<lparr>last_error := WSATYPE_NOT_FOUND\<rparr>, s') \<and>
    wf_service E s' \<and> classes_held s' = classes_held s \<and> services_held s' = services_held s \<and> queries_held s' = queries_held s"
proof -
  let ?l = "fresh_link (client_room N) []" and ?a = MYNSP_DEREGISTER_CLASS
  let ?lr = "answer (answer ?l [?a]) guid"
  have gl: "good_link ?l" by (rule client_link [OF N])
  note cl = cleared_props [OF s]
  have len: "length guid = 16" using guid by (simp add: read_bytes_iff)
  let ?P = "\<lambda>reply s'. reply = u32_bytes MYNSP_ERROR \<and> s' = cleared E ?a s"
  have "\<exists>s' reply. served E N (?a # guid) s reply s' \<and> ?P reply s'"
  proof (rule served_by [OF N s])
    fix l assume l: "good_link l" "stream (arrivals l) = guid"
    obtain l1 where l1: "read_local (local_var E 16) 16 l = (guid, l1)" "good_link l1" "written l1 = written l"
      using read_local_exact [OF l(1), of guid "[]" 16 "local_var E 16"] l(2) len by auto
    have "DeregisterServiceClass guid (cleared E ?a s) = Some (MYNSP_ERROR, cleared E ?a s)"
      using g raw_bytes_cleared [OF s] cl(5) by (intro DeregisterServiceClass_misses [OF cl(1)]) simp
    then have "on_DEREGISTER_CLASS E l (cleared E ?a s) = Some (close_link (answer l1 (u32_bytes MYNSP_ERROR)), cleared E ?a s)"
      using l1(1) by (simp add: on_DEREGISTER_CLASS_def Let_def)
    then show "\<exists>l' s' reply. dispatch E ?a l (cleared E ?a s) = Some (l', s') \<and> written l' = written l @ reply \<and> ?P reply s'"
      using l1 by (auto simp: dispatch_def actions close_link_def)
  qed
  then obtain s' reply where sv: "served E N (?a # guid) s reply s'" and s': "?P reply s'" by blast
  have w: "written ?lr = ?a # guid" using gl by simp
  obtain l' where l': "run_service E N ?lr s = Some (l', s')" "good_link l'" "stream (arrivals l') = reply"
    using run_service_served [OF N _ sv [folded w]] gl by auto
  obtain l2 where l2: "read_reply E l' = (MYNSP_ERROR, l2)"
    using read_reply_exact [OF l'(2), of MYNSP_ERROR "[]"] l'(3) s' by auto
  have "NSPRemoveServiceClass E N q c s = Some (SOCKET_ERROR, c\<lparr>last_error := WSATYPE_NOT_FOUND\<rparr>, s')"
    using MyNspConnect_ok [OF N] guid l'(1) l2 by (simp add: NSPRemoveServiceClass_def Let_def leave_def close_link_def sizeof_GUID_def)
  then show ?thesis using s' cl(1) keeps_held [OF cl(2)] by (intro exI [of _ s']) simp
qed

text \<open>
  A lookup of a class that is known is answered with 1 and nothing else; one of a class that is not
  known makes the service read the structure at a null pointer.
\<close>

lemma class_lookup:
  assumes N: "net_ok N" and s: "wf_service E s" and len: "length guid = 16"
    and k: "known (Some guid) (classes_held s) = Some k"
  shows "case serve_client E (fresh_link (service_room N) (to_service N (MYNSP_LOOKUP_CLASS # guid))) s of
      None \<Rightarrow> \<not> k
    | Some (l', s') \<Rightarrow> k \<and> written l' = u32_bytes MYNSP_SUCCESS \<and> classes_held s' = classes_held s"
proof -
  let ?l = "fresh_link (service_room N) (to_service N (MYNSP_LOOKUP_CLASS # guid))" and ?a = MYNSP_LOOKUP_CLASS
  have "good_link ?l" "stream (arrivals ?l) = ?a # guid"
    using N by (auto simp: net_ok_def good_link_def delivers_def fresh_link_def)
  from serve_dispatch [OF s this] obtain l1 where l1: "serve_client E ?l s = dispatch E ?a l1 (cleared E ?a s)" "good_link l1"
      "stream (arrivals l1) = guid" "written l1 = []" by auto
  note cl = cleared_props [OF s]
  note h = keeps_held [OF cl(2) [of ?a]]
  obtain l2 where l2: "read_local (local_var E 16) 16 l1 = (guid, l2)" "good_link l2" "written l2 = []"
    using read_local_exact [OF l1(2), of guid "[]" 16 "local_var E 16"] l1(3,4) len by auto
  obtain c where c: "LookupServiceClass (Some guid) (cleared E ?a s) = Some c" "(c \<noteq> 0) = k"
    using LookupServiceClass_known [OF cl(1) [of ?a], of "Some guid"] k h(1)
    by (cases "LookupServiceClass (Some guid) (cleared E ?a s)") auto
  have null: "MarshallServiceClassInfo (mem (cleared E ?a s)) 0 (buf_at E) = None"
    using read_null(1) [OF wf_addr_space [OF cl(1)], of 16]
    by (simp add: MarshallServiceClassInfo_def memcpy_def sizeof_SERVICECLASSINFO_def)
  have "serve_client E ?l s = (if c = 0 then None else Some (close_link (answer l2 (u32_bytes MYNSP_SUCCESS)), cleared E ?a s))"
    unfolding l1(1) using l2(1) c(1) null by (simp add: dispatch_def actions on_LOOKUP_CLASS_def Let_def)
  then show ?thesis using c(2) l2(2,3) h(1) by (auto simp: close_link_def)
qed

section \<open>Queries\<close>

text \<open>
  Every request but \<open>MYNSP_LOOKUP_SERVICE_END\<close> leaves at least as many queries.
\<close>

lemma alloc_structure_queries [simp]: "QueryInfo (snd (alloc_structure E s)) = QueryInfo s"
  by (simp add: alloc_structure_def GlobalAlloc_def Let_def)

lemma read_size_queries [simp]: "QueryInfo (snd (read_size l s)) = QueryInfo s"
  by (simp add: read_size_def Let_def split: prod.split)

lemma GlobalFree_queries: "GlobalFree p s = Some s' \<Longrightarrow> QueryInfo s' = QueryInfo s"
  by (auto simp: GlobalFree_def bind_eq_Some_conv)

lemma read_structure_queries: "read_structure E l s = Some (l', s') \<Longrightarrow> QueryInfo s' = QueryInfo s"
  by (auto simp: read_structure_def Let_def bind_eq_Some_conv split: prod.splits)

lemma Deregister_queries:
  "DeregisterServiceClass guid s = Some (r, s') \<Longrightarrow> QueryInfo s' = QueryInfo s"
  "DeregisterService E g n s = Some (r, s') \<Longrightarrow> QueryInfo s' = QueryInfo s"
  by (auto simp: DeregisterServiceClass_def DeregisterService_def bind_eq_Some_conv split: option.splits if_splits)
    (drule GlobalFree_queries; simp)+

lemma PerformQuery_queries:
  assumes "PerformQuery E h s = Some (r, s')"
  shows "map hHandle (QueryInfo s') = map hHandle (QueryInfo s)"
proof -
  have "map hHandle ((QueryInfo s)[j := (QueryInfo s ! j)\<lparr>iIndex := k\<rparr>]) = map hHandle (QueryInfo s)" for j k
    by (cases "j < length (QueryInfo s)") (simp_all add: map_update list_update_beyond, metis list_update_id nth_map)
  then show ?thesis
    using assms by (auto simp: PerformQuery_def Let_def bind_eq_Some_conv split: option.splits if_splits)
qed

lemma dispatch_queries:
  assumes "dispatch E a l s = Some (l', s')" and "a \<noteq> MYNSP_LOOKUP_SERVICE_END" and "a \<noteq> MYNSP_LOOKUP_SERVICE_BEGIN"
  shows "map hHandle (QueryInfo s') = map hHandle (QueryInfo s)"
proof -
  consider "on_REGISTER_CLASS E l s = Some (l', s')" | "on_DEREGISTER_CLASS E l s = Some (l', s')" | "on_LOOKUP_CLASS E l s = Some (l', s')"
    | "on_REGISTER_SERVICE E l s = Some (l', s')" | "on_DEREGISTER_SERVICE E l s = Some (l', s')"
    | "on_LOOKUP_SERVICE_NEXT E l s = Some (l', s')" | "s' = s"
    using assms by (auto simp: dispatch_def split: if_splits)
  then show ?thesis
  proof cases
    case 1
    then have "QueryInfo s' = QueryInfo s"
      by (auto simp: on_REGISTER_CLASS_def Let_def case_prod_unfold bind_eq_Some_conv split: if_splits
          dest!: read_structure_queries Deregister_queries)
    then show ?thesis by simp
  next
    case 2
    then have "QueryInfo s' = QueryInfo s"
      by (auto simp: on_DEREGISTER_CLASS_def Let_def case_prod_unfold bind_eq_Some_conv split: if_splits
          dest!: read_structure_queries Deregister_queries)
    then show ?thesis by simp
  next
    case 3
    then have "QueryInfo s' = QueryInfo s"
      by (auto simp: on_LOOKUP_CLASS_def Let_def case_prod_unfold bind_eq_Some_conv split: if_splits
          dest!: read_structure_queries Deregister_queries)
    then show ?thesis by simp
  next
    case 4
    then have "QueryInfo s' = QueryInfo s"
      by (auto simp: on_REGISTER_SERVICE_def Let_def case_prod_unfold bind_eq_Some_conv split: if_splits
          dest!: read_structure_queries Deregister_queries)
    then show ?thesis by simp
  next
    case 5
    then have "QueryInfo s' = QueryInfo s"
      by (auto simp: on_DEREGISTER_SERVICE_def Let_def case_prod_unfold bind_eq_Some_conv split: if_splits
          dest!: read_structure_queries Deregister_queries)
    then show ?thesis by simp
  next
    case 6
    then show ?thesis
      by (auto simp: on_LOOKUP_SERVICE_NEXT_def Let_def case_prod_unfold bind_eq_Some_conv split: if_splits dest!: PerformQuery_queries)
  qed simp
qed

lemma begin_queries:
  assumes "dispatch E MYNSP_LOOKUP_SERVICE_BEGIN l s = Some (l', s')"
  shows "map hHandle (QueryInfo s') = map hHandle (QueryInfo s) \<or>
    length (QueryInfo s) < 50 \<and> (\<exists>h. map hHandle (QueryInfo s') = map hHandle (QueryInfo s) @ [h])"
  using assms
  by (auto simp: dispatch_def actions on_LOOKUP_SERVICE_BEGIN_def RegisterQuery_def MAX_QUERIES_def Let_def case_prod_unfold
      bind_eq_Some_conv split: if_splits dest!: read_structure_queries)

text \<open>\<open>grew s s'\<close>: the handles in use are those there were, or one more where the table had room.\<close>

definition grew :: "service \<Rightarrow> service \<Rightarrow> bool" where
  "grew s s' \<longleftrightarrow> map hHandle (QueryInfo s') = map hHandle (QueryInfo s) \<or>
     length (QueryInfo s) < 50 \<and> (\<exists>h. map hHandle (QueryInfo s') = map hHandle (QueryInfo s) @ [h])"

lemma serve_grew:
  assumes "serve_client E l s = Some (l', s')" and "good_link l" "stream (arrivals l) = a # req" and "a \<noteq> MYNSP_LOOKUP_SERVICE_END"
  shows "grew s s'"
proof -
  have "unat (1 :: dword) = 1" by simp
  then obtain l1 where l1: "readdata l 1 1 = ([a], 1, l1)"
    using readdata_exact [OF assms(2), of "[a]" req 1 1] assms(3) by auto
  obtain s1 where s1: "dispatch E a l1 s1 = Some (l', s')" "QueryInfo s1 = QueryInfo s"
    using assms(1) l1 by (auto simp: serve_client_def read_local_def fill_def Let_def bind_eq_Some_conv)
  then show ?thesis
    using dispatch_queries [OF s1(1) assms(4)] begin_queries [of E l1 s1 l' s'] by (cases "a = MYNSP_LOOKUP_SERVICE_BEGIN") (auto simp: grew_def)
qed

lemma run_service_grew:
  assumes N: "net_ok N" and r: "run_service E N l s = Some (l', s')" and w: "written l = a # req" and a: "a \<noteq> MYNSP_LOOKUP_SERVICE_END"
  shows "grew s s'"
proof -
  let ?l = "fresh_link (service_room N) (to_service N (written l))"
  have "good_link ?l" "stream (arrivals ?l) = a # req"
    using N w by (auto simp: net_ok_def good_link_def delivers_def fresh_link_def)
  then show ?thesis using r serve_grew [OF _ _ _ a] by (auto simp: run_service_def bind_eq_Some_conv)
qed

text \<open>One call of the DLL, by any process and over any network that delivers.\<close>

inductive dll_call :: "nsp_env \<Rightarrow> service \<Rightarrow> service \<Rightarrow> bool" for E where
  begin_call: "net_ok N \<Longrightarrow> NSPLookupServiceBegin E N qs c s = Some (r, c', s') \<Longrightarrow> dll_call E s s'"
| next_call: "net_ok N \<Longrightarrow> NSPLookupServiceNext E N h len lp c s = Some (r, c', s') \<Longrightarrow> dll_call E s s'"
| end_call: "net_ok N \<Longrightarrow> NSPLookupServiceEnd E N h c s = Some (r', c', s') \<Longrightarrow> dll_call E s s'"
| set_call: "net_ok N \<Longrightarrow> NSPSetService E N qs act c s = Some (r', c', s') \<Longrightarrow> dll_call E s s'"
| install_call: "net_ok N \<Longrightarrow> NSPInstallServiceClass E N sc c s = Some (r', c', s') \<Longrightarrow> dll_call E s s'"
| remove_call: "net_ok N \<Longrightarrow> NSPRemoveServiceClass E N q c s = Some (r', c', s') \<Longrightarrow> dll_call E s s'"
| info_call: "net_ok N \<Longrightarrow> NSPGetServiceClassInfo E N q len lp c s = Some (r, c', s') \<Longrightarrow> dll_call E s s'"

text \<open>What an entry point has written begins with its action.\<close>

definition starts :: "byte \<Rightarrow> link \<Rightarrow> bool" where
  "starts a l \<longleftrightarrow> good_link l \<and> (\<exists>req. written l = a # req)"

lemma starts_answer: "starts a l \<Longrightarrow> starts a (answer l bs)"
  by (auto simp: starts_def)

lemma starts_first: "net_ok N \<Longrightarrow> starts a (answer (fresh_link (client_room N) []) [a])"
  using client_link by (simp add: starts_def)

lemma starts_write: "starts a l \<Longrightarrow> write_buffer l m p n = Some l' \<Longrightarrow> starts a l'"
  by (auto simp: write_buffer_def bind_eq_Some_conv starts_answer split: if_splits)

lemma starts_grew: "starts a l \<Longrightarrow> net_ok N \<Longrightarrow> run_service E N l s = Some (l', s') \<Longrightarrow> a \<noteq> MYNSP_LOOKUP_SERVICE_END \<Longrightarrow> grew s s'"
  using run_service_grew by (auto simp: starts_def)

text \<open>Every call runs the service once, on a request that begins with its action.\<close>

definition ran :: "nsp_env \<Rightarrow> net \<Rightarrow> service \<Rightarrow> service \<Rightarrow> bool" where
  "ran E N s s' \<longleftrightarrow> (\<exists>a l l'. starts a l \<and> a \<noteq> MYNSP_LOOKUP_SERVICE_END \<and> run_service E N l s = Some (l', s'))"

lemma ranI: "run_service E N l s = Some (l', s') \<Longrightarrow> starts a l \<Longrightarrow> a \<noteq> MYNSP_LOOKUP_SERVICE_END \<Longrightarrow> ran E N s s'"
  by (auto simp: ran_def)

lemmas call_simps = Let_def bind_eq_Some_conv case_prod_unfold MyNspConnect_ok

lemma other_actions:
  "MYNSP_REGISTER_CLASS \<noteq> MYNSP_LOOKUP_SERVICE_END" "MYNSP_DEREGISTER_CLASS \<noteq> MYNSP_LOOKUP_SERVICE_END"
  "MYNSP_LOOKUP_CLASS \<noteq> MYNSP_LOOKUP_SERVICE_END" "MYNSP_REGISTER_SERVICE \<noteq> MYNSP_LOOKUP_SERVICE_END"
  "MYNSP_DEREGISTER_SERVICE \<noteq> MYNSP_LOOKUP_SERVICE_END" "MYNSP_LOOKUP_SERVICE_BEGIN \<noteq> MYNSP_LOOKUP_SERVICE_END"
  "MYNSP_LOOKUP_SERVICE_NEXT \<noteq> MYNSP_LOOKUP_SERVICE_END"
  by (simp_all add: actions)

lemmas starts_rules = starts_answer starts_first starts_write [rotated]

lemma NSPLookupServiceBegin_runs: "net_ok N \<Longrightarrow> NSPLookupServiceBegin E N qs c s = Some (r, c', s') \<Longrightarrow> ran E N s s'"
  by (auto simp: NSPLookupServiceBegin_def call_simps split: if_splits
      elim!: ranI [where a = MYNSP_LOOKUP_SERVICE_BEGIN] intro: starts_rules simp: other_actions)

lemma NSPLookupServiceNext_runs: "net_ok N \<Longrightarrow> NSPLookupServiceNext E N h len lp c s = Some (r, c', s') \<Longrightarrow> ran E N s s'"
  by (auto simp: NSPLookupServiceNext_def call_simps split: if_splits
      elim!: ranI [where a = MYNSP_LOOKUP_SERVICE_NEXT] intro: starts_rules simp: other_actions)

lemma NSPLookupServiceEnd_runs: "net_ok N \<Longrightarrow> NSPLookupServiceEnd E N h c s = Some (r, c', s') \<Longrightarrow> ran E N s s'"
  by (auto simp: NSPLookupServiceEnd_def call_simps split: if_splits
      elim!: ranI [where a = MYNSP_LOOKUP_SERVICE_NEXT] intro: starts_rules simp: other_actions)

lemma NSPInstallServiceClass_runs: "net_ok N \<Longrightarrow> NSPInstallServiceClass E N sc c s = Some (r, c', s') \<Longrightarrow> ran E N s s'"
  by (auto simp: NSPInstallServiceClass_def call_simps split: if_splits
      elim!: ranI [where a = MYNSP_REGISTER_CLASS] intro: starts_rules simp: other_actions)

lemma NSPRemoveServiceClass_runs: "net_ok N \<Longrightarrow> NSPRemoveServiceClass E N q c s = Some (r, c', s') \<Longrightarrow> ran E N s s'"
  by (auto simp: NSPRemoveServiceClass_def call_simps split: if_splits
      elim!: ranI [where a = MYNSP_DEREGISTER_CLASS] intro: starts_rules simp: other_actions)

lemma NSPGetServiceClassInfo_runs: "net_ok N \<Longrightarrow> NSPGetServiceClassInfo E N q len lp c s = Some (r, c', s') \<Longrightarrow> ran E N s s'"
  by (auto simp: NSPGetServiceClassInfo_def call_simps split: if_splits
      elim!: ranI [where a = MYNSP_LOOKUP_CLASS] intro: starts_rules simp: other_actions)

lemma NSPSetService_runs:
  assumes N: "net_ok N" and r: "NSPSetService E N qs act c s = Some (r, c', s')" and g: "garbage E 0 \<noteq> MYNSP_LOOKUP_SERVICE_END"
  shows "ran E N s s'"
proof -
  obtain a where a: "(case act of RNRSERVICE_REGISTER \<Rightarrow> [MYNSP_REGISTER_SERVICE] | RNRSERVICE_DELETE \<Rightarrow> [MYNSP_DEREGISTER_SERVICE]
      | RNRSERVICE_DEREGISTER \<Rightarrow> local_var E 1) = [a]" "a \<noteq> MYNSP_LOOKUP_SERVICE_END"
    using g other_actions by (cases act) (auto simp: local_var_def)
  show ?thesis
    using r a N by (auto simp: NSPSetService_def call_simps split: if_splits elim!: ranI [where a = a] intro: starts_rules)
qed

lemma dll_call_grew:
  assumes "dll_call E s s'" and g: "garbage E 0 \<noteq> MYNSP_LOOKUP_SERVICE_END"
  shows "grew s s'"
proof -
  have "\<exists>N. net_ok N \<and> ran E N s s'"
    using assms(1)
    by cases (meson NSPLookupServiceBegin_runs NSPLookupServiceNext_runs NSPLookupServiceEnd_runs
      NSPInstallServiceClass_runs NSPRemoveServiceClass_runs NSPGetServiceClassInfo_runs NSPSetService_runs g)+
  then show ?thesis using starts_grew by (auto simp: ran_def)
qed

lemma dll_calls_grew:
  assumes "(dll_call E)\<^sup>*\<^sup>* s s'" and g: "garbage E 0 \<noteq> MYNSP_LOOKUP_SERVICE_END"
  shows "\<exists>hs. map hHandle (QueryInfo s') = map hHandle (QueryInfo s) @ hs \<and> length hs \<le> 50 - length (QueryInfo s)"
  using assms(1)
proof (induction rule: rtranclp_induct)
  case (step s1 s2)
  then obtain hs where hs: "map hHandle (QueryInfo s1) = map hHandle (QueryInfo s) @ hs" "length hs \<le> 50 - length (QueryInfo s)" by blast
  have "length (QueryInfo s1) = length (QueryInfo s) + length hs" using arg_cong [OF hs(1), of length] by simp
  moreover have "map hHandle (QueryInfo s2) = map hHandle (QueryInfo s1) \<or>
      length (QueryInfo s1) < 50 \<and> (\<exists>h. map hHandle (QueryInfo s2) = map hHandle (QueryInfo s1) @ [h])"
    using dll_call_grew [OF step(2) g] by (simp add: grew_def)
  ultimately show ?case using hs by auto
qed simp

end
