(* ===== verification/NspRemove.thy ===== *)
theory NspRemove
  imports NspCalls "HOL-Library.Multiset"
begin

text \<open>
  Taking a service out of the table, and deregistering a service from end to end.
\<close>

section \<open>The last entry takes the place of the one removed\<close>

definition swap_remove :: "nat \<Rightarrow> 'a list \<Rightarrow> 'a list" where
  "swap_remove i xs = butlast (xs[i := last xs])"

lemma last_of_update: "xs \<noteq> [] \<Longrightarrow> last (xs[i := last xs]) = last xs"
  by (cases "i = length xs - 1") (auto simp: last_conv_nth nth_list_update)

lemma mset_swap_remove:
  assumes "i < length xs"
  shows "mset (swap_remove i xs) = mset xs - {#xs ! i#}"
proof -
  have ne: "xs[i := last xs] \<noteq> []" and xs: "xs \<noteq> []" using assms by auto
  have "mset (xs[i := last xs]) = mset (butlast (xs[i := last xs]) @ [last xs])"
    using append_butlast_last_id [OF ne] last_of_update [OF xs] by simp
  moreover have "mset (xs[i := last xs]) = add_mset (last xs) (mset xs - {#xs ! i#})"
    using assms by (rule mset_update)
  ultimately show ?thesis by (simp add: swap_remove_def)
qed

lemma swap_remove_distinct:
  assumes "distinct xs" "i < length xs"
  shows "distinct (swap_remove i xs)" "set (swap_remove i xs) = set xs - {xs ! i}"
proof -
  have m: "mset xs = mset_set (set xs)" using assms(1) by (simp add: mset_set_set)
  have e: "mset (swap_remove i xs) = mset_set (set xs - {xs ! i})"
    using mset_swap_remove [OF assms(2)] m assms(2) by (simp add: mset_set_Diff)
  have "set_mset (mset (swap_remove i xs)) = set xs - {xs ! i}" unfolding e by simp
  then show st: "set (swap_remove i xs) = set xs - {xs ! i}" by simp
  have "size (mset (swap_remove i xs)) = card (set xs - {xs ! i})" unfolding e by simp
  then show "distinct (swap_remove i xs)" using st by (simp add: distinct_card [symmetric] card_distinct)
qed

lemma map_swap_remove: "i < length xs \<Longrightarrow> map f (swap_remove i xs) = swap_remove i (map f xs)"
  by (cases "xs = []") (simp_all add: swap_remove_def map_butlast map_update last_map)

lemma remove_service:
  assumes s: "wf_service E s" and i: "i < length (Services s)"
  shows "\<exists>s'. GlobalFree (Services s ! i) s = Some s' \<and>
    wf_service E (s'\<lparr>Services := swap_remove i (Services s')\<rparr>) \<and>
    services_held (s'\<lparr>Services := swap_remove i (Services s')\<rparr>) = swap_remove i (services_held s) \<and>
    classes_held (s'\<lparr>Services := swap_remove i (Services s')\<rparr>) = classes_held s \<and>
    queries_held (s'\<lparr>Services := swap_remove i (Services s')\<rparr>) = queries_held s"
proof -
  let ?p = "Services s ! i"
  have w: "wf_heap E s" and d: "distinct (tables s)" using s by (simp_all add: wf_service_def)
  have "?p \<in> set (tables s)" using i by (simp add: tables_def)
  then obtain n where n: "blocks s ?p = Some n" using block_dom [OF s] by blast
  note f = free_block [OF w n]
  let ?s1 = "s\<lparr>mem := without (mem s) ?p n, blocks := (blocks s)(?p := None)\<rparr>"
  let ?s = "?s1\<lparr>Services := swap_remove i (Services s)\<rparr>"
  have ds: "distinct (Services s)" using d by (simp add: tables_def)
  note sr = swap_remove_distinct [OF ds i]
  have pn: "?p \<in> set (Services s)" using i by simp
  have other: "block ?s q = block s q" if "q \<in> set (tables ?s)" for q
  proof -
    have "q \<noteq> ?p" using that sr(2) d pn by (auto simp: tables_def)
    then show ?thesis using f(3) by simp
  qed
  have c: "class_of ?s q = class_of s q" "query_of ?s q = query_of s q" if "q \<in> set (tables ?s)" for q
    using other [OF that] by (simp_all add: class_of_def query_of_def)
  have "wf_service E ?s"
    unfolding wf_service_def
  proof (intro conjI ballI)
    show "wf_heap E ?s" using f(2) by (simp add: wf_heap_def)
    show "distinct (tables ?s)" using d sr by (auto simp: tables_def)
  next
    fix q assume "q \<in> set (ServiceClasses ?s)"
    then show "class_value (block ?s q) q \<noteq> None" using other [of q] s by (simp add: tables_def wf_service_def)
  next
    fix q assume "q \<in> set (Services ?s) \<union> Query ` set (QueryInfo ?s)"
    then show "query_value (block ?s q) q \<noteq> None" using other [of q] s sr(2) by (auto simp: tables_def wf_service_def)
  qed (use s in \<open>auto simp: wf_service_def\<close>)
  moreover have "services_held ?s = swap_remove i (services_held s)"
    using c(2) i by (simp add: services_held_def map_swap_remove [symmetric] tables_def)
  moreover have "classes_held ?s = classes_held s" "queries_held ?s = queries_held s"
    using c by (simp_all add: held_defs tables_def)
  ultimately show ?thesis using f(1) by (intro exI [of _ ?s1]) simp
qed

section \<open>Deregistering a service\<close>

lemma DeregisterService_spec:
  assumes s: "wf_service E s"
    and k: "known guid (classes_held s) = Some k" and fnd: "(if k then named (same_name E) name 0 (services_held s) else Some None) = Some fnd"
  shows "\<exists>s'. DeregisterService E guid name s = Some (if fnd = None then MYNSP_ERROR else MYNSP_SUCCESS, s') \<and> wf_service E s' \<and>
    services_held s' = (case fnd of None \<Rightarrow> services_held s | Some i \<Rightarrow> swap_remove i (services_held s)) \<and>
    classes_held s' = classes_held s \<and> queries_held s' = queries_held s"
proof -
  obtain c where c: "LookupServiceClass guid s = Some c" "(c \<noteq> 0) = k"
    using LookupServiceClass_known [OF s, of guid] k by (cases "LookupServiceClass guid s") auto
  note find = find_service_held [OF s, of name]
  show ?thesis
  proof (cases fnd)
    case None
    then show ?thesis using c fnd find s by (cases k) (auto simp: DeregisterService_def)
  next
    case (Some i)
    then have n: "named (same_name E) name 0 (services_held s) = Some (Some i)" "k" using fnd by (cases k; simp)+
    then have "i < length (Services s)" using named_bound [OF n(1)] by (simp add: services_held_def)
    from remove_service [OF s this] show ?thesis
      using Some n find c by (auto simp: DeregisterService_def swap_remove_def)
  qed
qed

lemma on_DEREGISTER_SERVICE_refines:
  assumes s: "wf_service E s" and A: "allocator E" and i: "query_image r qs v S" and len: "length S \<le> BUFFER_SZ"
    and room: "place E (mem (received E S s)) (length S) \<noteq> 0"
    and l: "good_link l" "stream (arrivals l) = u32_bytes (of_nat (length S)) @ S"
    and spec: "deregister_spec (same_name E) (classes_held s) v (services_held s) = Some (ok, vs)"
  shows "\<exists>l' s'. on_DEREGISTER_SERVICE E l s = Some (l', s') \<and> wf_service E s' \<and> services_held s' = vs \<and>
    classes_held s' = classes_held s \<and> queries_held s' = queries_held s \<and>
    written l' = written l @ u32_bytes (if ok then MYNSP_SUCCESS else MYNSP_ERROR) \<and> \<not> is_open l'"
proof -
  obtain l1 l2 s1 si s2 m where q: "read_size l s = (l1, s1)" "read_structure E l1 s1 = Some (l2, received E S s)"
      "good_link l2" "written l2 = written l"
      "alloc_structure E (received E S s) = (si, s2)" "DeMarshallServiceInfo (mem s2) si (buf_at E) = Some m"
      and ws: "wf_service E (s2\<lparr>mem := m\<rparr>)" and k: "keeps s (s2\<lparr>mem := m\<rparr>)" and nt: "si \<notin> set (tables s)"
      and v: "query_value (block (s2\<lparr>mem := m\<rparr>) si) si = Some v"
    using request_with_query [OF s A i len room l] by blast
  let ?s = "s2\<lparr>mem := m\<rparr>"
  note h = keeps_held [OF k] and args = query_args [OF ws v]
  obtain kn fnd where kn: "known (query_class v) (classes_held s) = Some kn"
      and fnd: "(if kn then named (same_name E) (query_name v) 0 (services_held s) else Some None) = Some fnd"
      and ok: "ok \<longleftrightarrow> fnd \<noteq> None" "vs = (case fnd of None \<Rightarrow> services_held s | Some i \<Rightarrow> swap_remove i (services_held s))"
    using spec by (auto simp: deregister_spec_def bind_eq_Some_conv swap_remove_def split: if_splits option.splits)
  from DeregisterService_spec [OF ws kn [folded h(1)] fnd [folded h(2)]]
  obtain s' where "DeregisterService E (query_class v) (query_name v) ?s = Some (if fnd = None then MYNSP_ERROR else MYNSP_SUCCESS, s')"
      "wf_service E s'" "services_held s' = vs" "classes_held s' = classes_held s" "queries_held s' = queries_held s"
    unfolding h ok(2) by blast
  then show ?thesis using q args ok(1) by (simp add: on_DEREGISTER_SERVICE_def Let_def close_link_def)
qed

theorem deregister_service_call:
  assumes N: "net_ok N" and c: "wf_client c" and s: "wf_service E s" and A: "allocator E"
    and v: "query_value (own c) qs = Some v" "query_size v \<le> MARSHALL_BUFFER_SZ" and room: "has_room E s (query_size v)"
    and spec: "deregister_spec (same_name E) (classes_held s) v (services_held s) = Some (ok, vs)"
  shows "\<exists>c' s'. NSPSetService E N qs RNRSERVICE_DELETE c s = Some (if ok then NO_ERROR else SOCKET_ERROR, c', s') \<and>
    (wf_service E s' \<and> services_held s' = vs \<and> classes_held s' = classes_held s \<and> queries_held s' = queries_held s) \<and>
    wf_client c' \<and> own c' = own c \<and> open_sockets c' = open_sockets c"
proof (rule set_service_call [OF N c s v])
  let ?a = MYNSP_DEREGISTER_SERVICE
  show "RNRSERVICE_DELETE = RNRSERVICE_REGISTER \<and> ?a = MYNSP_REGISTER_SERVICE \<or>
      RNRSERVICE_DELETE = RNRSERVICE_DELETE \<and> ?a = MYNSP_DEREGISTER_SERVICE" by simp
  note cl = cleared_props [OF s]
  note h = keeps_held [OF cl(2)]
  fix S l assume S: "query_image (own c) qs v S" "length S \<le> BUFFER_SZ" and l: "good_link l"
    "stream (arrivals l) = u32_bytes (of_nat (length S)) @ S"
  have rm: "place E (mem (received E S (cleared E ?a s))) (length S) \<noteq> 0"
    using room query_image_length [OF S(1)] S(2) by (intro room_received) simp_all
  from on_DEREGISTER_SERVICE_refines [OF cl(1) A S rm l] spec h
  show "\<exists>l' s'. dispatch E ?a l (cleared E ?a s) = Some (l', s') \<and> written l' = written l @ u32_bytes (if ok then MYNSP_SUCCESS else MYNSP_ERROR) \<and>
      (wf_service E s' \<and> services_held s' = vs \<and> classes_held s' = classes_held s \<and> queries_held s' = queries_held s)"
    by (fastforce simp: dispatch_def actions)
qed

end
