(* ===== verification/NspInstall.thy ===== *)
theory NspInstall
  imports NspRemove
begin

text \<open>
  Installing a class, from end to end.
\<close>

text \<open>The service, run on a request that begins with \<open>a\<close>.\<close>

lemma run_service_dispatch:
  assumes N: "net_ok N" and s: "wf_service E s" and l: "good_link l" "written l = a # req"
  shows "\<exists>l1. good_link l1 \<and> stream (arrivals l1) = req \<and> written l1 = [] \<and>
    (case dispatch E a l1 (cleared E a s) of
       None \<Rightarrow> run_service E N l s = None
     | Some (sl, s') \<Rightarrow> \<exists>l'. run_service E N l s = Some (l', s') \<and> good_link l' \<and> stream (arrivals l') = written sl)"
proof -
  let ?l = "fresh_link (service_room N) (to_service N (a # req))"
  have "good_link ?l" "stream (arrivals ?l) = a # req"
    using N by (auto simp: net_ok_def good_link_def delivers_def fresh_link_def)
  from serve_dispatch [OF s this] obtain l1 where l1: "serve_client E ?l s = dispatch E a l1 (cleared E a s)" "good_link l1"
      "stream (arrivals l1) = req" "written l1 = []" by auto
  have r: "run_service E N l s = (case dispatch E a l1 (cleared E a s) of None \<Rightarrow> None
      | Some (sl, s') \<Rightarrow> Some (l\<lparr>arrivals := to_client N (written sl)\<rparr>, s'))"
    using l1(1) l(2) by (simp add: run_service_def split: option.split)
  show ?thesis
    unfolding r using l1 l N by (intro exI [of _ l1]) (auto simp: net_ok_def good_link_def split: option.split)
qed

lemma marshal_class_argument:
  assumes c: "wf_client c" and v: "class_value (own c) sc = Some v" and fits: "class_size v \<le> MARSHALL_BUFFER_SZ" and l: "good_link l"
  shows "\<exists>S. class_image (own c) sc v S \<and>
    MarshallServiceClassInfo (cmem c) sc (databuf c) = Some (of_nat (length S), stored (cmem c) (databuf c) S) \<and>
    write_buffer l (stored (cmem c) (databuf c) S) (databuf c) (of_nat (length S)) = Some (answer l S) \<and> length S \<le> BUFFER_SZ"
proof -
  from Marshall_class_eq [OF own_buffer [OF c] v] obtain hb where hb: "read_bytes (own c) sc 16 = Some hb"
      "MarshallServiceClassInfo (cmem c) sc (databuf c) = Some (of_nat (class_size v), stored (cmem c) (databuf c) (hb @ field_bytes (snd v)))"
    using fits by auto
  let ?S = "hb @ field_bytes (snd v)"
  have "addr_space (own c)" using c addr_space_le [OF _ own_le] by (auto simp: wf_client_def)
  then have i: "class_image (own c) sc v ?S" using hb(1) v by (simp add: class_image_def)
  have n: "length ?S = class_size v" by (rule class_image_length [OF i])
  have lt: "class_size v < 2 ^ 31" "0 < class_size v" using fits by (simp_all add: MARSHALL_BUFFER_SZ_def class_size_def)
  have "write_buffer l (stored (cmem c) (databuf c) ?S) (databuf c) (of_nat (class_size v)) = Some (answer l ?S)"
    using positive_int [OF lt(2,1)] lt(1) read_stored [of "cmem c" "databuf c" ?S] n
    by (simp add: write_buffer_def unat_of_nat)
  then show ?thesis using i hb(2) n fits by (intro exI [of _ ?S]) (simp add: BUFFER_SZ_def MARSHALL_BUFFER_SZ_def)
qed

theorem install_class_call:
  assumes N: "net_ok N" and c: "wf_client c" and s: "wf_service E s" and A: "allocator E"
    and v: "class_value (own c) sc = Some v" "class_size v \<le> MARSHALL_BUFFER_SZ" and room: "has_room E s (class_size v)"
    and k: "known (class_id v) (classes_held s) = Some k"
  shows "case NSPInstallServiceClass E N sc c s of
      None \<Rightarrow> \<not> k \<and> 25 \<le> length (classes_held s) \<and> length (classes_held s) < 50
    | Some (r, c', s') \<Rightarrow> (k \<or> length (classes_held s) < 25 \<or> 50 \<le> length (classes_held s)) \<and>
        r = (if k then SOCKET_ERROR else NO_ERROR) \<and> wf_service E s' \<and>
        classes_held s' = (if \<not> k \<and> length (classes_held s) < 25 then classes_held s @ [v] else classes_held s) \<and>
        services_held s' = services_held s \<and> queries_held s' = queries_held s"
proof -
  let ?l = "fresh_link (client_room N) []" and ?a = MYNSP_REGISTER_CLASS
  have g: "good_link ?l" by (rule client_link [OF N])
  let ?la = "answer ?l [?a]"
  obtain S where S: "class_image (own c) sc v S"
      "MarshallServiceClassInfo (cmem c) sc (databuf c) = Some (of_nat (length S), stored (cmem c) (databuf c) S)"
      "write_buffer (answer ?la (u32_bytes (of_nat (length S)))) (stored (cmem c) (databuf c) S) (databuf c) (of_nat (length S)) =
        Some (answer (answer ?la (u32_bytes (of_nat (length S)))) S)" "length S \<le> BUFFER_SZ"
    using marshal_class_argument [OF c v, of "answer ?la (u32_bytes (of_nat (class_size v)))"] class_image_length g by fastforce
  let ?lr = "answer (answer ?la (u32_bytes (of_nat (length S)))) S"
  note cl = cleared_props [OF s, of ?a]
  note h = keeps_held [OF cl(2)]
  have rm: "place E (mem (received E S (cleared E ?a s))) (length S) \<noteq> 0"
    using room class_image_length [OF S(1)] S(4) by (intro room_received) simp_all
  have w: "good_link ?lr" "written ?lr = ?a # (u32_bytes (of_nat (length S)) @ S)" using g by simp_all
  obtain l1 where l1: "good_link l1" "stream (arrivals l1) = u32_bytes (of_nat (length S)) @ S" "written l1 = []"
    and r: "case dispatch E ?a l1 (cleared E ?a s) of None \<Rightarrow> run_service E N ?lr s = None
      | Some (sl, s') \<Rightarrow> \<exists>l'. run_service E N ?lr s = Some (l', s') \<and> good_link l' \<and> stream (arrivals l') = written sl"
    using run_service_dispatch [OF N s w] by blast
  have d: "dispatch E ?a l1 (cleared E ?a s) = on_REGISTER_CLASS E l1 (cleared E ?a s)" by (simp add: dispatch_def)
  note call = NSPInstallServiceClass_def [of E N sc c s] MyNspConnect_ok [OF N] Let_def
  note spec = on_REGISTER_CLASS_refines [OF cl(1) A S(1,4) rm l1(1,2), of k, unfolded h, OF k]
  show ?thesis
  proof (cases "on_REGISTER_CLASS E l1 (cleared E ?a s)")
    case None
    then have "NSPInstallServiceClass E N sc c s = None" using r d S(2,3) by (simp add: call)
    then show ?thesis using spec None by simp
  next
    case (Some p)
    obtain sl s' where p: "p = (sl, s')" by (cases p)
    obtain l' where l': "run_service E N ?lr s = Some (l', s')" "good_link l'" "stream (arrivals l') = written sl"
      using r d Some p by auto
    have wr: "written sl = u32_bytes (if k then MYNSP_ERROR else MYNSP_SUCCESS)" using spec Some p l1(3) by simp
    obtain l2 where l2: "read_reply E l' = (if k then MYNSP_ERROR else MYNSP_SUCCESS, l2)"
      using read_reply_exact [OF l'(2), of _ "[]"] l'(3) wr by auto
    have "\<exists>c'. NSPInstallServiceClass E N sc c s = Some (if k then SOCKET_ERROR else NO_ERROR, c', s')"
      using S(2,3) l'(1) l2 by (cases k) (simp_all add: call)
    then show ?thesis using spec Some p by auto
  qed
qed

end
