(* ===== verification/NspExample.thy ===== *)
theory NspExample
  imports NspCalls
begin

text \<open>
  A service, a client and a network in which the calls can be followed: the heap has three places
  for blocks, the network cuts every request after its second byte, and one client has two query
  sets, an empty one and one that asks for every name.
\<close>

section \<open>The pieces\<close>

definition zeros :: "nat \<Rightarrow> nat \<Rightarrow> memory" where
  "zeros p n = (\<lambda>a. if p \<le> a \<and> a < p + n then Some 0 else None)"

definition free_at :: "memory \<Rightarrow> nat \<Rightarrow> nat \<Rightarrow> bool" where
  "free_at m n p \<longleftrightarrow> n < 0x1000 \<and> (\<forall>i\<in>set [0..<n + 2]. m (p - 1 + i) = None)"

definition place_ex :: "memory \<Rightarrow> nat \<Rightarrow> nat" where
  "place_ex m n = (case filter (free_at m n) [0x10000, 0x20000, 0x30000] of [] \<Rightarrow> 0 | p # _ \<Rightarrow> p)"

definition env_ex :: nsp_env where
  "env_ex = \<lparr>place = place_ex, same_name = (=), buf_at = 0x1000, garbage = (\<lambda>_. 0)\<rparr>"

definition service_ex :: service where
  "service_ex = \<lparr>mem = zeros 0x1000 0x1000, blocks = Map.empty, ServiceClasses = [], Services = [], QueryInfo = [],
     dwHandleValue = 0, action = [0], bytes2follow = [0, 0, 0, 0]\<rparr>"

definition net_ex :: net where
  "net_ex = \<lparr>sock_ok = True, conn_ok = True, client_room = [Accept 1], service_room = [],
     to_service = (\<lambda>bs. [Segment (take 2 bs), Segment (drop 2 bs)]), to_client = (\<lambda>bs. [Segment bs])\<rparr>"

text \<open>The buffer at 0x1000, the query sets at 0x3000 and 0x3100, a name at 0x3200, room for results at 0x4000.\<close>

definition memory_ex :: memory where
  "memory_ex = stored (stored (\<lambda>a. if 0x1000 \<le> a \<and> a < 0x2000 \<or> 0x3000 \<le> a \<and> a < 0x3300 \<or> 0x4000 \<le> a \<and> a < 0x4100
     then Some 0 else None) 0x3104 (u32_bytes 0x3200)) 0x3200 [0x2A, 0, 0, 0]"

definition client_ex :: client where
  "client_ex = \<lparr>cmem = memory_ex, databuf = 0x1000, last_error = 0, open_sockets = 0\<rparr>"

definition empty_query :: query where
  "empty_query = ([0, 0, 0, 0, 0], [None, None, None, None, None, None, None, None], None)"

definition star_query :: query where
  "star_query = ([0, 0, 0, 0, 0], [Some [0x2A, 0, 0, 0], None, None, None, None, None, None, None], None)"

section \<open>They are what the theorems ask for\<close>

lemma net_ex_ok: "net_ok net_ex"
  by (simp add: net_ok_def net_ex_def delivers_def)

lemma allocator_ex: "allocator env_ex"
  unfolding allocator_def
proof (intro allI impI conjI)
  fix m n
  assume "place env_ex m n \<noteq> 0"
  then obtain p ps where f: "filter (free_at m n) [0x10000, 0x20000, 0x30000] = p # ps" and pl: "place env_ex m n = p"
    by (auto simp: env_ex_def place_ex_def split: list.splits)
  have "p \<in> set (filter (free_at m n) [0x10000, 0x20000, 0x30000])" unfolding f by simp
  then have "free_at m n p \<and> p \<in> set [0x10000, 0x20000, 0x30000]" by (simp only: set_filter mem_Collect_eq conj_commute)
  then have p: "free_at m n p" "p \<in> {0x10000, 0x20000, 0x30000}" by auto
  then show "place env_ex m n + n < 2 ^ 32" unfolding pl by (auto simp: free_at_def)
  fix a assume "place env_ex m n \<le> a + 1 \<and> a \<le> place env_ex m n + n"
  then have a: "p \<le> a + 1" "a \<le> p + n" unfolding pl by auto
  have "a + 1 - p \<in> set [0..<n + 2]" using a by auto
  then have "m (p - 1 + (a + 1 - p)) = None" using p(1) unfolding free_at_def by blast
  moreover have "p - 1 + (a + 1 - p) = a" using a(1) p(2) by auto
  ultimately show "m a = None" by simp
qed

lemma service_ex_wf: "wf_service env_ex service_ex"
  by (auto simp: wf_service_def wf_heap_def service_ex_def env_ex_def tables_def addr_space_def allocated_def zeros_def BUFFER_SZ_def
      split: if_splits)

lemma service_ex_held: "classes_held service_ex = []" "services_held service_ex = []" "queries_held service_ex = []"
  by (simp_all add: held_defs service_ex_def)

lemma room_ex:
  assumes "mem s = with_blocks" "n < 0x1000"
    and "\<exists>p\<in>{0x10000, 0x20000, 0x30000}. \<forall>a. p - 1 \<le> a \<and> a \<le> p + n \<longrightarrow> mem s a = None"
  shows "has_room env_ex s n"
  unfolding has_room_def
proof (intro allI impI)
  fix bs :: "byte list" assume len: "length bs \<le> BUFFER_SZ"
  obtain p where p: "p \<in> {0x10000, 0x20000, 0x30000}" and fr: "\<forall>a. p - 1 \<le> a \<and> a \<le> p + n \<longrightarrow> mem s a = None"
    using assms(3) by blast
  have "free_at (mem (with_buffer env_ex bs s)) n p"
    using fr len p assms(2) by (auto simp: free_at_def with_buffer_def env_ex_def stored_def BUFFER_SZ_def)
  then show "place env_ex (mem (with_buffer env_ex bs s)) n \<noteq> 0"
    using p by (auto simp: env_ex_def place_ex_def)
qed

lemma client_ex_wf: "wf_client client_ex"
proof -
  have d: "dom memory_ex \<subseteq> {0x1000..<0x4100}"
    by (auto simp: memory_ex_def stored_def split: if_splits)
  have "addr_space memory_ex" unfolding addr_space_def using d by (rule order_trans) auto
  moreover have "allocated memory_ex 0x1000 0x1000" by (auto simp: allocated_def memory_ex_def stored_def)
  moreover have "memory_ex 0x2000 = None" by (simp add: memory_ex_def stored_def)
  ultimately show ?thesis by (simp add: wf_client_def client_ex_def MARSHALL_BUFFER_SZ_def)
qed

section \<open>The values of the query sets\<close>

lemma zero_word:
  assumes "\<forall>i<4. m (p + i) = Some 0"
  shows "read_u32 m p = Some 0"
proof -
  have "read_bytes m p 4 = Some (replicate 4 0)" using assms by (simp add: read_bytes_iff)
  moreover have "replicate 4 (0 :: byte) = [0, 0, 0, 0]" by (simp add: numeral_eq_Suc)
  ultimately show ?thesis by (simp add: read_u32_def u32_def)
qed

lemma zero_member:
  assumes z: "\<forall>i<60. i < 4 \<or> 8 \<le> i \<longrightarrow> m (p + i) = Some 0" and off: "off + 4 \<le> 60" "off = 0 \<or> 8 \<le> off"
  shows "read_u32 m (p + off) = Some 0"
proof (rule zero_word, intro allI impI)
  fix i :: nat assume "i < 4"
  then have "off + i < 60" "off + i < 4 \<or> 8 \<le> off + i" using off by auto
  then have "m (p + (off + i)) = Some 0" using z by blast
  then show "m (p + off + i) = Some 0" by (simp add: add.assoc)
qed

lemma zero_members:
  assumes z: "\<forall>i<60. i < 4 \<or> 8 \<le> i \<longrightarrow> m (p + i) = Some 0"
  shows "read_u32 m p = Some 0" "read_u32 m (p + 8) = Some 0" "read_u32 m (p + 12) = Some 0" "read_u32 m (p + 16) = Some 0"
    "read_u32 m (p + 20) = Some 0" "read_u32 m (p + 24) = Some 0" "read_u32 m (p + 28) = Some 0" "read_u32 m (p + 32) = Some 0"
    "read_u32 m (p + 36) = Some 0" "read_u32 m (p + 40) = Some 0" "read_u32 m (p + 44) = Some 0" "read_u32 m (p + 48) = Some 0"
    "read_u32 m (p + 52) = Some 0"
  using zero_member [OF z, of 0] by (auto intro!: zero_member [OF z])

lemma header_bytes:
  assumes z: "\<forall>i<60. i < 4 \<or> 8 \<le> i \<longrightarrow> m (p + i) = Some 0" and w: "read_u32 m (p + 4) = Some w"
  shows "\<exists>bs. read_bytes m p 60 = Some bs"
proof -
  have "allocated m p 60"
    unfolding allocated_def
  proof (intro allI impI)
    fix i :: nat assume i: "i < 60"
    show "m (p + i) \<noteq> None"
    proof (cases "i < 4 \<or> 8 \<le> i")
      case False
      then have "i - 4 < 4" "p + 4 + (i - 4) = p + i" by auto
      moreover have "\<forall>k<4. m (p + 4 + k) \<noteq> None" using w by (auto simp: read_u32_iff read_bytes_iff)
      ultimately show ?thesis by metis
    qed (use z i in auto)
  qed
  then show ?thesis using read_bytes_None by blast
qed

lemmas query_eval = query_value_def query_words_def query_fields_def layout field_value_def csaddrs_value_def

lemma empty_query_value:
  assumes "\<forall>i<60. m (p + i) = Some 0"
  shows "query_value m p = Some empty_query"
proof -
  have z: "\<forall>i<60. i < 4 \<or> 8 \<le> i \<longrightarrow> m (p + i) = Some 0" using assms by simp
  have w: "read_u32 m (p + 4) = Some 0" by (rule zero_word) (use assms in \<open>simp add: add.assoc\<close>)
  obtain bs where "read_bytes m p 60 = Some bs" using header_bytes [OF z w] by blast
  then show ?thesis using w by (simp add: query_eval zero_members [OF z] empty_query_def)
qed

lemma star_wstr:
  assumes "read_bytes m p 4 = Some [0x2A, 0, 0, 0]"
  shows "read_wstr m p = Some [0x2A]"
proof -
  have "\<forall>i<4. m (p + i) = Some ([0x2A, 0, 0, 0] ! i)" using assms by (simp add: read_bytes_iff)
  then have b: "m p = Some 0x2A" "m (p + 1) = Some 0" "m (p + 2) = Some 0" "m (p + 3) = Some 0"
    by (auto dest: spec [of _ 0] spec [of _ 1] spec [of _ 2] spec [of _ 3])
  have "read_bytes m p 2 = Some [0x2A, 0]" "read_bytes m (p + 2) 2 = Some [0, 0]"
    using b by (simp_all add: numeral_2_eq_2 numeral_3_eq_3 read_bytes_iff All_less_Suc2)
  then show ?thesis by (simp add: read_wstr_Some [of _ _ "[0x2A]"] read_wstr_Some [of _ _ "[]"] read_wchar_def)
qed

lemma star_query_value:
  assumes z: "\<forall>i<60. i < 4 \<or> 8 \<le> i \<longrightarrow> m (p + i) = Some 0" and w: "read_u32 m (p + 4) = Some w" "w \<noteq> 0"
    and n: "read_bytes m (unat w) 4 = Some [0x2A, 0, 0, 0]"
  shows "query_value m p = Some star_query"
proof -
  obtain bs where "read_bytes m p 60 = Some bs" using header_bytes [OF z w(1)] by blast
  then show ?thesis
    using w n star_wstr [OF n] by (simp add: query_eval zero_members [OF z] star_query_def of_wstr_def lstrlenW_def)
qed

lemma star_name: "query_name star_query = Some [0x2A]"
proof -
  have "wstring [0x2A, 0, 0, 0] = Some [0x2A]"
    unfolding wstring_def by (rule star_wstr) (simp add: read_bytes_iff stored_def)
  then show ?thesis by (simp add: query_name_def star_query_def)
qed

text \<open>A word and a name that have been stored.\<close>

lemma stored_word: "(\<And>i. i < 4 \<Longrightarrow> m (p + i) = stored m' p (u32_bytes w) (p + i)) \<Longrightarrow> read_u32 m p = Some w"
proof -
  assume "\<And>i. i < 4 \<Longrightarrow> m (p + i) = stored m' p (u32_bytes w) (p + i)"
  then have "read_bytes m p 4 = Some (u32_bytes w)" by (simp add: read_bytes_iff stored_def)
  then show ?thesis by (simp add: read_u32_def)
qed

lemma own_ex: "own client_ex a = (if 0x1000 \<le> a \<and> a < 0x2000 then None else memory_ex a)"
  by (auto simp: own_def without_def client_ex_def MARSHALL_BUFFER_SZ_def restrict_map_def)

lemma memory_ex_zero: "0x3000 \<le> a \<and> a < 0x3104 \<or> 0x3108 \<le> a \<and> a < 0x3200 \<Longrightarrow> memory_ex a = Some 0"
  by (auto simp: memory_ex_def stored_def)

lemma empty_query_ex: "query_value (own client_ex) 0x3000 = Some empty_query"
  by (rule empty_query_value) (simp add: own_ex memory_ex_zero)

lemma star_query_ex: "query_value (own client_ex) 0x3100 = Some star_query"
proof (rule star_query_value)
  show "\<forall>i<60. i < 4 \<or> 8 \<le> i \<longrightarrow> own client_ex (0x3100 + i) = Some 0"
    by (auto simp: own_ex intro!: memory_ex_zero)
  show "read_u32 (own client_ex) (0x3100 + 4) = Some 0x3200"
    by (rule stored_word [where m' = memory_ex]) (auto simp: own_ex memory_ex_def stored_def)
  show "read_bytes (own client_ex) (unat (0x3200 :: dword)) 4 = Some [0x2A, 0, 0, 0]"
    by (auto simp: read_bytes_iff own_ex) (simp add: memory_ex_def stored_def)
qed simp

section \<open>A service in the middle of a query\<close>

text \<open>One service, without a name, at 0x10000; a query for every name at 0x20000.\<close>

definition query_memory_ex :: memory where
  "query_memory_ex = stored (stored (\<lambda>a. if 0x1000 \<le> a \<and> a < 0x2000 \<or> 0x10000 \<le> a \<and> a < 0x1003C \<or> 0x20000 \<le> a \<and> a < 0x20040
     then Some 0 else None) 0x20004 (u32_bytes 0x2003C)) 0x2003C [0x2A, 0, 0, 0]"

definition query_service_ex :: service where
  "query_service_ex = \<lparr>mem = query_memory_ex, blocks = [0x10000 \<mapsto> 60, 0x20000 \<mapsto> 64], ServiceClasses = [], Services = [0x10000],
     QueryInfo = [\<lparr>hHandle = 1, iIndex = -1, Query = 0x20000\<rparr>], dwHandleValue = 1, action = [0], bytes2follow = [0, 0, 0, 0]\<rparr>"

lemma query_service_ex_fields:
  "ServiceClasses query_service_ex = []" "Services query_service_ex = [0x10000]"
  "QueryInfo query_service_ex = [\<lparr>hHandle = 1, iIndex = -1, Query = 0x20000\<rparr>]" "action query_service_ex = [0]"
  "bytes2follow query_service_ex = [0, 0, 0, 0]"
  by (simp_all add: query_service_ex_def)

lemma service_at_ex: "query_value (block query_service_ex 0x10000) 0x10000 = Some empty_query"
  by (rule empty_query_value) (auto simp: block_def query_service_ex_def query_memory_ex_def stored_def)

lemma query_at_ex: "query_value (block query_service_ex 0x20000) 0x20000 = Some star_query"
proof (rule star_query_value)
  show "\<forall>i<60. i < 4 \<or> 8 \<le> i \<longrightarrow> block query_service_ex 0x20000 (0x20000 + i) = Some 0"
    by (auto simp: block_def query_service_ex_def query_memory_ex_def stored_def)
  show "read_u32 (block query_service_ex 0x20000) (0x20000 + 4) = Some 0x2003C"
    by (rule stored_word [where m' = query_memory_ex]) (auto simp: block_def query_service_ex_def query_memory_ex_def stored_def)
  show "read_bytes (block query_service_ex 0x20000) (unat (0x2003C :: dword)) 4 = Some [0x2A, 0, 0, 0]"
    by (auto simp: read_bytes_iff block_def query_service_ex_def) (simp add: query_memory_ex_def stored_def)
qed simp

lemma query_service_ex_held:
  "classes_held query_service_ex = []" "services_held query_service_ex = [empty_query]"
  "queries_held query_service_ex = [(1, -1, star_query)]"
  using service_at_ex query_at_ex by (simp_all add: held_defs query_of_def query_service_ex_fields)

lemma query_service_ex_wf: "wf_service env_ex query_service_ex"
proof -
  have d: "dom query_memory_ex \<subseteq> {0x1000..<0x20040}" by (auto simp: query_memory_ex_def stored_def split: if_splits)
  have "addr_space query_memory_ex" unfolding addr_space_def using d by (rule order_trans) auto
  moreover have "allocated query_memory_ex 0x1000 0x1000" "query_memory_ex 0x2000 = None"
    by (auto simp: allocated_def query_memory_ex_def stored_def)
  moreover have "allocated query_memory_ex 0x10000 60" "allocated query_memory_ex 0x20000 64"
    by (auto simp: allocated_def query_memory_ex_def stored_def)
  ultimately have "wf_heap env_ex query_service_ex"
    by (auto simp: wf_heap_def query_service_ex_def env_ex_def BUFFER_SZ_def split: if_splits)
  then show ?thesis
    using service_at_ex query_at_ex
    by (simp add: wf_service_def tables_def query_service_ex_fields) (simp add: empty_query_def star_query_def)
qed

section \<open>A service with a class\<close>

text \<open>Its structure at 0x10000, its identifier, 16 bytes of 0, behind it; the client has a structure of zeros.\<close>

definition class_memory_ex :: memory where
  "class_memory_ex = stored (\<lambda>a. if 0x1000 \<le> a \<and> a < 0x2000 \<or> 0x10000 \<le> a \<and> a < 0x10020 then Some 0 else None)
     0x10000 (u32_bytes 0x10010)"

definition class_service_ex :: service where
  "class_service_ex = \<lparr>mem = class_memory_ex, blocks = [0x10000 \<mapsto> 32], ServiceClasses = [0x10000], Services = [],
     QueryInfo = [], dwHandleValue = 0, action = [0], bytes2follow = [0, 0, 0, 0]\<rparr>"

definition class_ex :: "dword list \<times> field list" where
  "class_ex = ([0], [Some (replicate 16 0), None, None])"

definition empty_class :: "dword list \<times> field list" where
  "empty_class = ([0], [None, None, None])"

lemma class_service_ex_fields:
  "ServiceClasses class_service_ex = [0x10000]" "Services class_service_ex = []" "QueryInfo class_service_ex = []"
  "action class_service_ex = [0]" "bytes2follow class_service_ex = [0, 0, 0, 0]" "mem class_service_ex = class_memory_ex"
  by (simp_all add: class_service_ex_def)

lemmas class_eval = class_value_def class_fields_def lpServiceClassId_def lpszServiceClassName_def dwCount_def lpClassInfos_def
  sizeof_GUID_def sizeof_SERVICECLASSINFO_def field_value_def

lemma zeros_read: "\<forall>i<n. m (p + i) = Some 0 \<Longrightarrow> read_bytes m p n = Some (replicate n 0)"
  by (simp add: read_bytes_iff)

lemma empty_class_value:
  assumes "\<forall>i<16. m (p + i) = Some 0"
  shows "class_value m p = Some empty_class"
proof -
  have w: "read_u32 m (p + k) = Some 0" if "k + 4 \<le> 16" for k
    by (rule zero_word) (use assms that in \<open>simp add: add.assoc\<close>)
  from w [of 0] w [of 4] w [of 8] w [of 12] zeros_read [OF assms] show ?thesis
    by (simp add: class_eval empty_class_def)
qed

lemma empty_class_ex: "class_value (own client_ex) 0x3000 = Some empty_class"
  by (rule empty_class_value) (simp add: own_ex memory_ex_zero)

lemma zero_guid_ex: "read_bytes (cmem client_ex) 0x3000 16 = Some (replicate 16 0)"
  by (rule zeros_read) (simp add: client_ex_def memory_ex_zero)

lemma class_at_ex: "class_value (block class_service_ex 0x10000) 0x10000 = Some class_ex"
proof -
  let ?m = "block class_service_ex 0x10000"
  have z: "?m (0x10000 + i) = Some 0" if "4 \<le> i" "i < 32" for i
    using that by (auto simp: block_def class_service_ex_def class_memory_ex_def stored_def)
  have w: "read_u32 ?m (0x10000 + k) = Some 0" if "4 \<le> k" "k + 4 \<le> 16" for k
    by (rule zero_word) (use z that in \<open>simp add: add.assoc\<close>)
  have p: "read_u32 ?m 0x10000 = Some 0x10010"
    by (rule stored_word [where m' = class_memory_ex]) (auto simp: block_def class_service_ex_def class_memory_ex_def stored_def)
  have g: "read_bytes ?m (unat (0x10010 :: dword)) 16 = Some (replicate 16 0)"
    using z [of "16 + i" for i] by (intro zeros_read) (auto simp: add.assoc [symmetric])
  have "allocated ?m 0x10000 16"
    by (auto simp: allocated_def block_def class_service_ex_def class_memory_ex_def stored_def)
  then obtain bs where "read_bytes ?m 0x10000 16 = Some bs" using read_bytes_None by blast
  then show ?thesis using w [of 4] w [of 8] w [of 12] p g by (simp add: class_eval of_size_def class_ex_def)
qed

lemma class_service_ex_held:
  "classes_held class_service_ex = [class_ex]" "services_held class_service_ex = []" "queries_held class_service_ex = []"
  using class_at_ex by (simp_all add: held_defs class_of_def class_service_ex_fields)

lemma class_service_ex_wf: "wf_service env_ex class_service_ex"
proof -
  have d: "dom class_memory_ex \<subseteq> {0x1000..<0x10020}" by (auto simp: class_memory_ex_def stored_def split: if_splits)
  have "addr_space class_memory_ex" unfolding addr_space_def using d by (rule order_trans) auto
  moreover have "allocated class_memory_ex 0x1000 0x1000" "class_memory_ex 0x2000 = None" "allocated class_memory_ex 0x10000 32"
    by (auto simp: allocated_def class_memory_ex_def stored_def)
  ultimately have "wf_heap env_ex class_service_ex"
    by (auto simp: wf_heap_def class_service_ex_def env_ex_def BUFFER_SZ_def split: if_splits)
  then show ?thesis
    using class_at_ex by (simp add: wf_service_def tables_def class_service_ex_fields class_ex_def)
qed

lemma class_raw_ex: "\<forall>p\<in>set (ServiceClasses class_service_ex). read_bytes (mem class_service_ex) p 16 \<noteq> Some (replicate 16 0)"
proof -
  have "class_memory_ex 0x10000 = Some 0x10" by (simp add: class_memory_ex_def stored_def u32_bytes_def)
  then have "class_memory_ex (0x10000 + 0) \<noteq> Some (replicate 16 (0 :: byte) ! 0)" by simp
  then have "read_bytes class_memory_ex 0x10000 16 \<noteq> Some (replicate 16 0)"
    unfolding read_bytes_iff by (metis zero_less_numeral)
  then show ?thesis by (simp add: class_service_ex_fields)
qed

end
