(* ===== verification/NspProperties.thy ===== *)
theory NspProperties
  imports NspLimits NspInstall NspExample
begin

text \<open>
  Properties of the name space provider: what the two sides of a connection agree on, what the DLL
  achieves through the service, and what it does not.
\<close>

section \<open>Enumerating services\<close>

text \<open>\<open>PerformQuery\<close>, called until it finds nothing: the indices it returned and the last error.\<close>

fun lookup_all :: "nsp_env \<Rightarrow> dword \<Rightarrow> nat \<Rightarrow> service \<Rightarrow> (nat list \<times> dword option, service) outcome" where
  "lookup_all E h 0 s = Some (([], None), s)"
| "lookup_all E h (Suc n) s = do {
     ((i, e), s) \<leftarrow> PerformQuery E h s;
     if i = -1 then Some (([], Some e), s)
     else do {
       ((is, e), s) \<leftarrow> lookup_all E h n s;
       Some ((nat i # is, e), s) } }"

text \<open>The services a query wants, by their index from \<open>i\<close> on.\<close>

definition wanted_from :: "(wchar list \<Rightarrow> wchar list \<Rightarrow> bool) \<Rightarrow> query \<Rightarrow> query list \<Rightarrow> nat \<Rightarrow> nat list" where
  "wanted_from eq q vs i = filter (\<lambda>k. wanted eq q (vs ! k) = Some True) [i..<length vs]"

lemma first_wanted_from:
  assumes "\<forall>v\<in>set vs. wanted eq q v \<noteq> None" and "i \<le> length vs"
  shows "case wanted_from eq q vs i of
      [] \<Rightarrow> first_wanted eq q i (drop i vs) = Some None
    | k # ks \<Rightarrow> first_wanted eq q i (drop i vs) = Some (Some k) \<and> ks = wanted_from eq q vs (Suc k) \<and> i \<le> k \<and> k < length vs"
  using assms(2)
proof (induction "length vs - i" arbitrary: i)
  case 0
  then show ?case by (simp add: wanted_from_def)
next
  case (Suc n)
  then have i: "i < length vs" by simp
  obtain b where b: "wanted eq q (vs ! i) = Some b" using assms(1) i by force
  have d: "drop i vs = vs ! i # drop (Suc i) vs" by (rule Cons_nth_drop_Suc [OF i, symmetric])
  have f: "wanted_from eq q vs i = (if b then i # wanted_from eq q vs (Suc i) else wanted_from eq q vs (Suc i))"
    using b i by (simp add: wanted_from_def upt_conv_Cons)
  show ?case
  proof (cases b)
    case False
    have "n = length vs - Suc i" "Suc i \<le> length vs" using Suc.hyps(2) i by auto
    from Suc.hyps(1) [OF this] show ?thesis unfolding f d using False b by (auto split: list.splits)
  qed (use f d b i in simp)
qed

lemma find_query_update: "hHandle q' = hHandle (qs ! j) \<Longrightarrow> find_query h k (qs[j := q']) = find_query h k qs"
  by (induction qs arbitrary: j k) (auto split: nat.splits)

lemma lookup_all_from:
  assumes "wf_service E s" and "find_query h 0 (QueryInfo s) = Some j" and "queries_held s ! j = (h, i, qv)" and "-1 \<le> i"
    and "\<forall>v\<in>set (services_held s). wanted (same_name E) qv v \<noteq> None" and "length (services_held s) < n + nat (i + 1)"
    and "nat (i + 1) \<le> length (services_held s)" and "ks = wanted_from (same_name E) qv (services_held s) (nat (i + 1))"
  shows "\<exists>s'. lookup_all E h n s = Some ((ks, Some (if i = -1 \<and> ks = [] then WSASERVICE_NOT_FOUND else WSA_E_NO_MORE)), s') \<and>
    wf_service E s' \<and> services_held s' = services_held s"
  using assms
proof (induction n arbitrary: s i ks)
  case (Suc n)
  note P = PerformQuery_spec [OF Suc.prems(1-3)]
  have F: "case ks of [] \<Rightarrow> first_wanted (same_name E) qv (nat (i + 1)) (drop (nat (i + 1)) (services_held s)) = Some None
    | k # ks' \<Rightarrow> first_wanted (same_name E) qv (nat (i + 1)) (drop (nat (i + 1)) (services_held s)) = Some (Some k) \<and>
        ks' = wanted_from (same_name E) qv (services_held s) (Suc k) \<and> nat (i + 1) \<le> k \<and> k < length (services_held s)"
    using first_wanted_from [OF Suc.prems(5,7)] unfolding Suc.prems(8) .
  show ?case
  proof (cases ks)
    case Nil
    then have "PerformQuery E h s = Some ((-1, if i = -1 then WSASERVICE_NOT_FOUND else WSA_E_NO_MORE), s)"
      using P [of None] F by simp
    then show ?thesis using Suc.prems(1) Nil by (intro exI [of _ s]) simp
  next
    case (Cons k ks')
    let ?s = "s\<lparr>QueryInfo := (QueryInfo s)[j := (QueryInfo s ! j)\<lparr>iIndex := int k\<rparr>]\<rparr>"
    have k: "ks' = wanted_from (same_name E) qv (services_held s) (Suc k)" "nat (i + 1) \<le> k" "k < length (services_held s)"
      using F Cons by auto
    have p: "PerformQuery E h s = Some ((int k, 0), ?s)" using P [of "Some k"] F Cons by simp
    have jl: "j < length (QueryInfo s)" "hHandle (QueryInfo s ! j) = h" using find_query_Some [OF Suc.prems(2)] by auto
    have iq: "query_of s (Query (QueryInfo s ! j)) = qv" using Suc.prems(3) jl by (simp add: queries_held_def)
    note ix = set_index [OF Suc.prems(1) jl(1) refl, of "int k"]
    have fq: "find_query h 0 (QueryInfo ?s) = Some j"
      using Suc.prems(2) find_query_update [of "(QueryInfo s ! j)\<lparr>iIndex := int k\<rparr>" "QueryInfo s" j h 0] by simp
    have "\<exists>s'. lookup_all E h n ?s = Some ((ks', Some (if int k = -1 \<and> ks' = [] then WSASERVICE_NOT_FOUND else WSA_E_NO_MORE)), s') \<and>
        wf_service E s' \<and> services_held s' = services_held ?s"
      by (rule Suc.IH [OF ix(1) fq, of "int k"]) (use ix jl iq k Suc.prems in \<open>auto simp: queries_held_def nat_add_distrib\<close>)
    then show ?thesis using p ix(2) Cons by auto
  qed
qed simp

section \<open>What the two sides agree on\<close>




text \<open>
  C24. However a connection cuts the bytes, \<open>writedata\<close> sends all of them and \<open>readdata\<close>, asked for
  as many, returns exactly these bytes and leaves nothing, provided that no more arrive than it asks
  for; it asks \<open>recv\<close> for the room of the buffer, not for what is left.
\<close>

theorem transfer_delivers:
  assumes "is_open l" and "\<forall>a\<in>set (room l). \<exists>k. a = Accept (Suc k)"
    and "is_open l'" and "Reset \<notin> set (arrivals l')" and "stream (arrivals l') = bs"
    and "length bs \<le> buffersz" and "length bs < 2 ^ 32"
  shows "\<exists>rs as. writedata l bs = (0, length bs, l\<lparr>room := rs, written := written l @ bs\<rparr>) \<and>
    readdata l' buffersz (of_nat (length bs)) = (bs, of_nat (length bs), l'\<lparr>arrivals := as\<rparr>) \<and> stream as = []"
proof -
  have u: "unat (of_nat (length bs) :: dword) = length bs" using assms(7) by (simp add: unat_of_nat)
  obtain rs where "writedata l bs = (0, length bs, l\<lparr>room := rs, written := written l @ bs\<rparr>)"
    using writedata_sends [OF assms(1,2)] by blast
  moreover obtain as where "readdata l' buffersz (of_nat (length bs)) = (bs, of_nat (length bs), l'\<lparr>arrivals := as\<rparr>)" "stream as = []"
    using readdata_delivers [OF assms(3,4), of "of_nat (length bs)" buffersz] assms(5,6) u by auto
  ultimately show ?thesis by blast
qed

theorem transfer_delivers_witness:
  "\<exists>rs as. writedata (fresh_link [Accept 1] []) [1, 2, 3] = (0, 3, (fresh_link [Accept 1] [])\<lparr>room := rs, written := [1, 2, 3]\<rparr>) \<and>
    readdata (fresh_link [] [Segment [1], Segment [2, 3]]) 4 3 =
      ([1, 2, 3], 3, (fresh_link [] [Segment [1], Segment [2, 3]])\<lparr>arrivals := as\<rparr>) \<and> stream as = []"
  using transfer_delivers [of "fresh_link [Accept 1] []" "fresh_link [] [Segment [1], Segment [2, 3]]" "[1, 2, 3]" 4]
  by (auto simp: fresh_link_def)

section \<open>Calls of the DLL\<close>

text \<open>
  C25. \<open>NSPSetService\<close> with \<open>RNRSERVICE_REGISTER\<close>, from the caller's query set to the table of the
  service: the call succeeds if and only if the specification takes the service in, and the values
  the tables hold afterwards are those of the specification.  Classes, queries and the caller's
  memory are as before, and no socket stays open.
\<close>

theorem register_service_refines:
  assumes "net_ok N" and "wf_client c" and "wf_service E s" and "allocator E"
    and "query_value (own c) qs = Some v" and "query_size v \<le> MARSHALL_BUFFER_SZ" and "has_room E s (query_size v)"
    and "register_spec (same_name E) (classes_held s) v (services_held s) = Some (ok, vs)"
  shows "\<exists>c' s'. NSPSetService E N qs RNRSERVICE_REGISTER c s = Some (if ok then NO_ERROR else SOCKET_ERROR, c', s') \<and>
    (wf_service E s' \<and> services_held s' = vs \<and> classes_held s' = classes_held s \<and> queries_held s' = queries_held s) \<and>
    wf_client c' \<and> own c' = own c \<and> open_sockets c' = open_sockets c"
  by (rule register_service_call [OF assms])

lemma room_service_ex: "has_room env_ex service_ex n" if "n < 0x1000" for n
  by (rule room_ex [OF refl that]) (auto simp: service_ex_def zeros_def intro!: bexI [of _ 0x10000])

theorem register_service_refines_witness:
  "\<exists>c' s'. NSPSetService env_ex net_ex 0x3000 RNRSERVICE_REGISTER client_ex service_ex = Some (NO_ERROR, c', s') \<and>
    services_held s' = [empty_query]"
proof -
  have sz: "query_size empty_query = 60" by (simp add: query_size_def empty_query_def)
  have "register_spec (same_name env_ex) (classes_held service_ex) empty_query (services_held service_ex) = Some (True, [empty_query])"
    by (simp add: register_spec_def service_ex_held)
  from register_service_refines [OF net_ex_ok client_ex_wf service_ex_wf allocator_ex empty_query_ex _ room_service_ex this] sz
  show ?thesis by (auto simp: MARSHALL_BUFFER_SZ_def)
qed

text \<open>
  C26. \<open>NSPSetService\<close> with \<open>RNRSERVICE_DELETE\<close>: the service of that name is taken out of the table
  and the last one takes its place, if the class of the structure is known; otherwise the call fails
  and nothing changes.
\<close>

theorem deregister_service_refines:
  assumes "net_ok N" and "wf_client c" and "wf_service E s" and "allocator E"
    and "query_value (own c) qs = Some v" and "query_size v \<le> MARSHALL_BUFFER_SZ" and "has_room E s (query_size v)"
    and "deregister_spec (same_name E) (classes_held s) v (services_held s) = Some (ok, vs)"
  shows "\<exists>c' s'. NSPSetService E N qs RNRSERVICE_DELETE c s = Some (if ok then NO_ERROR else SOCKET_ERROR, c', s') \<and>
    (wf_service E s' \<and> services_held s' = vs \<and> classes_held s' = classes_held s \<and> queries_held s' = queries_held s) \<and>
    wf_client c' \<and> own c' = own c \<and> open_sockets c' = open_sockets c"
  by (rule deregister_service_call [OF assms])

theorem deregister_service_refines_witness:
  "\<exists>c' s'. NSPSetService env_ex net_ex 0x3000 RNRSERVICE_DELETE client_ex query_service_ex = Some (SOCKET_ERROR, c', s') \<and>
    services_held s' = [empty_query]"
proof -
  have sz: "query_size empty_query = 60" by (simp add: query_size_def empty_query_def)
  have "deregister_spec (same_name env_ex) (classes_held query_service_ex) empty_query (services_held query_service_ex) = Some (False, [empty_query])"
    by (simp add: deregister_spec_def query_service_ex_held)
  moreover have "has_room env_ex query_service_ex 60"
    by (rule room_ex [OF refl]) (auto simp: query_service_ex_def query_memory_ex_def stored_def intro!: bexI [of _ 0x30000])
  ultimately show ?thesis
    using deregister_service_refines [OF net_ex_ok client_ex_wf query_service_ex_wf allocator_ex empty_query_ex] sz
    by (fastforce simp: MARSHALL_BUFFER_SZ_def)
qed



text \<open>
  C28. \<open>NSPLookupServiceNext\<close>: the next service the query wants is demarshalled into the caller's
  results, with the value the service registered.  Where there is none the call fails with
  \<open>WSASERVICE_NOT_FOUND\<close> or \<open>WSA_E_NO_MORE\<close>; where the results are too small it fails with
  \<open>WSAEFAULT\<close> and the size, but the query has gone on, so that service is never returned.
\<close>

theorem lookup_next_refines:
  assumes "net_ok N" and "wf_client c" and "wf_service E s"
    and "find_query h 0 (QueryInfo s) = Some j" and "queries_held s ! j = (h, i, qv)"
    and "next_spec (same_name E) qv i (services_held s) = Some (res, i')"
    and "\<And>v. res = Some v \<Longrightarrow> query_size v \<le> MARSHALL_BUFFER_SZ"
    and "allocated (own c) lp (unat len)"
  shows "\<exists>r c' s'. NSPLookupServiceNext E N h len lp c s = Some (r, c', s') \<and> wf_service E s' \<and>
    services_held s' = services_held s \<and> queries_held s' = (queries_held s)[j := (h, i', qv)] \<and> open_sockets c' = open_sockets c \<and>
    (case res of
       None \<Rightarrow> r = (SOCKET_ERROR, len) \<and> last_error c' = (if i = -1 then WSASERVICE_NOT_FOUND else WSA_E_NO_MORE)
     | Some v \<Rightarrow>
         if query_size v \<le> unat len
         then r = (NO_ERROR, 4) \<and> query_value (cmem c' |` {lp..<lp + query_size v}) lp = Some v
         else r = (SOCKET_ERROR, of_nat (query_size v)) \<and> last_error c' = WSAEFAULT)"
  by (rule lookup_next_call [OF assms])

lemma star_wanted: "wanted (same_name env_ex) star_query v = Some True"
  by (simp add: wanted_def star_name)

theorem lookup_next_refines_witness:
  "\<exists>c' s'. NSPLookupServiceNext env_ex net_ex 1 200 0x4000 client_ex query_service_ex = Some ((NO_ERROR, 4), c', s') \<and>
    query_value (cmem c' |` {0x4000..<0x4000 + 60}) 0x4000 = Some empty_query \<and> queries_held s' = [(1, 0, star_query)]"
proof -
  have sz: "query_size empty_query = 60" by (simp add: query_size_def empty_query_def)
  have f: "find_query 1 0 (QueryInfo query_service_ex) = Some 0" by (simp add: query_service_ex_fields)
  have q: "queries_held query_service_ex ! 0 = (1, -1, star_query)" by (simp add: query_service_ex_held)
  have n: "next_spec (same_name env_ex) star_query (-1) (services_held query_service_ex) = Some (Some empty_query, 0)"
    by (simp add: next_spec_def query_service_ex_held star_wanted)
  have lp: "allocated (own client_ex) 0x4000 (unat (200 :: dword))"
    by (auto simp: allocated_def own_ex memory_ex_def stored_def)
  show ?thesis
    using lookup_next_refines [OF net_ex_ok client_ex_wf query_service_ex_wf f q n _ lp] sz
    by (fastforce simp: MARSHALL_BUFFER_SZ_def query_service_ex_held)
qed

text \<open>
  C29. Calling \<open>PerformQuery\<close> until it finds nothing enumerates a filter: every registered service the
  query wants, once and in the order of the table, and then \<open>WSA_E_NO_MORE\<close>, or
  \<open>WSASERVICE_NOT_FOUND\<close> where there was none at all.
\<close>

theorem lookups_enumerate:
  assumes "wf_service E s" and "find_query h 0 (QueryInfo s) = Some j" and "queries_held s ! j = (h, -1, qv)"
    and "\<forall>v\<in>set (services_held s). wanted (same_name E) qv v \<noteq> None" and "length (services_held s) < n"
  shows "\<exists>s'. lookup_all E h n s =
      Some ((wanted_from (same_name E) qv (services_held s) 0,
        Some (if wanted_from (same_name E) qv (services_held s) 0 = [] then WSASERVICE_NOT_FOUND else WSA_E_NO_MORE)), s') \<and>
    wf_service E s' \<and> services_held s' = services_held s"
  using lookup_all_from [OF assms(1-3) _ assms(4), of n] assms(5) by simp

theorem lookups_enumerate_witness:
  "\<exists>s'. lookup_all env_ex 1 2 query_service_ex = Some (([0], Some WSA_E_NO_MORE), s') \<and> wf_service env_ex s'"
proof -
  have f: "find_query 1 0 (QueryInfo query_service_ex) = Some 0" by (simp add: query_service_ex_fields)
  have q: "queries_held query_service_ex ! 0 = (1, -1, star_query)" by (simp add: query_service_ex_held)
  have w: "wanted_from (same_name env_ex) star_query [empty_query] 0 = [0]"
    by (simp add: wanted_from_def star_wanted)
  show ?thesis
    using lookups_enumerate [OF query_service_ex_wf f q, of 2]
    by (auto simp: query_service_ex_held w star_wanted)
qed

section \<open>What does not work\<close>



text \<open>
  C31. \<open>NSPRemoveServiceClass\<close> fails with \<open>WSATYPE_NOT_FOUND\<close>, and no class is removed, even where the
  class is in the table: the identifier is compared with the first bytes of the structure, which are
  a pointer, and not with the identifier it points to.
\<close>

theorem remove_class_never_matches:
  assumes "net_ok N" and "wf_service E s" and "read_bytes (cmem c) q 16 = Some guid"
    and "\<forall>p\<in>set (ServiceClasses s). read_bytes (mem s) p 16 \<noteq> Some guid"
  shows "\<exists>s'. NSPRemoveServiceClass E N q c s = Some (SOCKET_ERROR, c\<lparr>last_error := WSATYPE_NOT_FOUND\<rparr>, s') \<and>
    wf_service E s' \<and> classes_held s' = classes_held s \<and> services_held s' = services_held s \<and> queries_held s' = queries_held s"
  by (rule remove_class_call [OF assms])

theorem remove_class_never_matches_witness:
  "known (Some (replicate 16 0)) (classes_held class_service_ex) = Some True \<and> read_bytes (cmem client_ex) 0x3000 16 = Some (replicate 16 0) \<and>
    (\<exists>s'. NSPRemoveServiceClass env_ex net_ex 0x3000 client_ex class_service_ex =
        Some (SOCKET_ERROR, client_ex\<lparr>last_error := WSATYPE_NOT_FOUND\<rparr>, s') \<and> classes_held s' = [class_ex])"
  using remove_class_never_matches [OF net_ex_ok class_service_ex_wf zero_guid_ex class_raw_ex] zero_guid_ex
  by (auto simp: class_service_ex_held class_id_def class_ex_def)

text \<open>
  A lookup of a class that is in the table is answered with 1 and no structure; a lookup of one
  that is not makes the service read through a null pointer.
\<close>

theorem class_info_not_returned:
  assumes "net_ok N" and "wf_service E s" and "length guid = 16" and "known (Some guid) (classes_held s) = Some k"
  shows "case serve_client E (fresh_link (service_room N) (to_service N (MYNSP_LOOKUP_CLASS # guid))) s of
      None \<Rightarrow> \<not> k
    | Some (l', s') \<Rightarrow> k \<and> written l' = u32_bytes MYNSP_SUCCESS \<and> classes_held s' = classes_held s"
  by (rule class_lookup [OF assms])

theorem class_info_not_returned_witness:
  "\<exists>l' s'. serve_client env_ex (fresh_link (service_room net_ex) (to_service net_ex (MYNSP_LOOKUP_CLASS # replicate 16 0))) class_service_ex = Some (l', s') \<and>
    written l' = u32_bytes MYNSP_SUCCESS"
proof -
  have "known (Some (replicate 16 0)) (classes_held class_service_ex) = Some True"
    by (simp add: class_service_ex_held class_id_def class_ex_def)
  from class_info_not_returned [OF net_ex_ok class_service_ex_wf _ this] show ?thesis by (auto split: option.splits)
qed

text \<open>
  \<open>NSPInstallServiceClass\<close>: a class whose identifier is known is refused and any other is added,
  up to 25 of them; with 25 to 49 classes the service writes behind its table, because it compares
  with the limit of another one.
\<close>

theorem install_class_bounds:
  assumes "net_ok N" and "wf_client c" and "wf_service E s" and "allocator E"
    and "class_value (own c) sc = Some v" and "class_size v \<le> MARSHALL_BUFFER_SZ" and "has_room E s (class_size v)"
    and "known (class_id v) (classes_held s) = Some k"
  shows "case NSPInstallServiceClass E N sc c s of
      None \<Rightarrow> \<not> k \<and> 25 \<le> length (classes_held s) \<and> length (classes_held s) < 50
    | Some (r, c', s') \<Rightarrow> (k \<or> length (classes_held s) < 25 \<or> 50 \<le> length (classes_held s)) \<and>
        r = (if k then SOCKET_ERROR else NO_ERROR) \<and> wf_service E s' \<and>
        classes_held s' = (if \<not> k \<and> length (classes_held s) < 25 then classes_held s @ [v] else classes_held s) \<and>
        services_held s' = services_held s \<and> queries_held s' = queries_held s"
  by (rule install_class_call [OF assms])

theorem install_class_bounds_witness:
  "case NSPInstallServiceClass env_ex net_ex 0x3000 client_ex service_ex of
     None \<Rightarrow> False
   | Some (r, c', s') \<Rightarrow> r = NO_ERROR \<and> classes_held s' = [empty_class]"
proof -
  have sz: "class_size empty_class = 16" by (simp add: class_size_def empty_class_def)
  have k: "known (class_id empty_class) (classes_held service_ex) = Some False" by (simp add: service_ex_held)
  show ?thesis
    using install_class_bounds [OF net_ex_ok client_ex_wf service_ex_wf allocator_ex empty_class_ex _ room_service_ex k] sz
    by (auto simp: MARSHALL_BUFFER_SZ_def service_ex_held split: option.splits)
qed

end
