(* ===== verification/IocpState.thy ===== *)
theory IocpState
  imports Win32
begin

text \<open>
  The completion port server (\<open>network-programming-for-mswin-cdrom/chapter06/iocpserver.cpp\<close>): its
  objects, its globals and what it asks of Windows.  Objects are never given back to the heap of the
  process, only to the lookaside lists, so an address that has been allocated stays readable.
  \<open>None\<close> is a null pointer that is dereferenced, a write behind an array, a walk that does not end
  or the \<open>DebugBreak\<close> of \<open>PostSend\<close>.

  A completion is handled from beginning to end before the next one is; every critical section is
  left by the function that entered it and none is entered inside another one of the same thread, so
  none is ever waited for and they have no state here.
\<close>

section \<open>Objects\<close>

datatype io_op = OP_ACCEPT | OP_READ | OP_WRITE

record BUFFER_OBJ =
  sclient :: dword
  PostAccept_event :: dword
  buf :: "byte list"
  buflen :: dword
  operation :: io_op
  addrlen :: dword
  sock :: "nat option"
  b_next :: "nat option"

text \<open>The counters of operations stay between 0 and 1 on a connection, so they are integers.\<close>

record SOCKET_OBJ =
  s_handle :: dword
  af :: int
  bClosing :: bool
  OutstandingRecv :: int
  OutstandingSend :: int
  PendingSend :: int
  s_next :: "nat option"

record LISTEN_OBJ =
  l_handle :: dword
  AddressFamily :: int
  PendingAccepts :: "nat option"
  PendingAcceptCount :: int
  HiWaterMark :: int
  LoWaterMark :: int
  AcceptEvent :: dword
  RepostAccept :: dword
  RepostCount :: int
  l_next :: "nat option"

section \<open>Windows\<close>

text \<open>
  A call, with the arguments that matter.  What Windows answers, an error code (0 where the call
  succeeds) and a value, is a function of the calls made before.
\<close>

datatype win_call =
    Call_WSAStartup | Call_CreatePort | Call_HeapAlloc | Call_socket int | Call_closesocket dword | Call_WSARecv dword nat
  | Call_WSASend dword nat "byte list" | Call_AcceptEx dword dword nat
  | Call_CreateIoCompletionPort dword nat | Call_CreateEvent | Call_bind dword
  | Call_WSAIoctl dword bool | Call_listen dword | Call_WSAEventSelect dword dword
  | Call_getsockopt dword | Call_WSAEnumNetworkEvents dword dword | Call_WaitForSingleObject dword
  | Call_CreateThread | Call_GetTickCount

type_synonym world = "win_call list \<Rightarrow> win_call \<Rightarrow> dword \<times> dword"

text \<open>What has happened on connections: a new one with its first bytes, bytes received, bytes sent.\<close>

datatype net_event = Accepted dword "byte list" | Received dword "byte list" | Sent dword "byte list"

record iocp =
  bufs :: "nat \<Rightarrow> BUFFER_OBJ option"
  socks :: "nat \<Rightarrow> SOCKET_OBJ option"
  lstns :: "nat \<Rightarrow> LISTEN_OBJ option"
  heap_top :: nat
  gFreeBufferList :: "nat option"
  gFreeSocketList :: "nat option"
  gPendingSendList :: "nat option"
  gPendingSendListEnd :: "nat option"
  ListenSockets :: "nat option"
  gBufferSize :: dword
  gInitialAccepts :: int
  gMaxAccepts :: int
  gMaxReceives :: int
  gMaxSends :: int
  gOutstandingSends :: int
  gBytesRead :: dword
  gBytesSent :: dword
  gBytesReadLast :: dword
  gBytesSentLast :: dword
  gConnections :: dword
  gConnectionsLast :: dword
  gStartTime :: dword
  gStartTimeLast :: dword
  WaitEvents :: "dword list"
  processors :: nat
  interval :: nat
  opened :: "dword set"
  assoc :: "dword \<Rightarrow> nat option"
  inflight :: "(nat \<times> nat) list"
  signalled :: "dword set"
  net :: "net_event list"
  calls :: "win_call list"

definition INVALID_SOCKET :: dword where "INVALID_SOCKET = -1"
definition WSA_IO_PENDING :: dword where "WSA_IO_PENDING = 997"
definition WSAENOBUFS :: dword where "WSAENOBUFS = 10055"

definition ask :: "world \<Rightarrow> win_call \<Rightarrow> iocp \<Rightarrow> (dword \<times> dword) \<times> iocp" where
  "ask W c s = (W (calls s) c, s\<lparr>calls := c # calls s\<rparr>)"

text \<open>
  \<open>socket\<close>: a handle that is open is not given out again; an answer that says so counts as a failure.
\<close>

definition win_socket :: "world \<Rightarrow> int \<Rightarrow> iocp \<Rightarrow> dword \<times> iocp" where
  "win_socket W family s =
     (let ((err, h), s) = ask W (Call_socket family) s in
      if err \<noteq> 0 \<or> h = INVALID_SOCKET \<or> h \<in> opened s then (INVALID_SOCKET, s)
      else (h, s\<lparr>opened := insert h (opened s)\<rparr>))"

definition win_closesocket :: "world \<Rightarrow> dword \<Rightarrow> iocp \<Rightarrow> iocp" where
  "win_closesocket W h s = (snd (ask W (Call_closesocket h) s))\<lparr>opened := opened s - {h}\<rparr>"

text \<open>
  An overlapped operation that is accepted, at once or as pending, is in flight until its completion
  is delivered, with the key its handle was associated with.
\<close>

definition accepted :: "dword \<Rightarrow> bool" where
  "accepted err \<longleftrightarrow> err = 0 \<or> err = WSA_IO_PENDING"

definition post :: "dword \<Rightarrow> nat \<Rightarrow> iocp \<Rightarrow> iocp" where
  "post h b s = (case assoc s h of None \<Rightarrow> s | Some k \<Rightarrow> s\<lparr>inflight := inflight s @ [(b, k)]\<rparr>)"

definition win_WSARecv :: "world \<Rightarrow> dword \<Rightarrow> nat \<Rightarrow> iocp \<Rightarrow> dword \<times> iocp" where
  "win_WSARecv W h b s =
     (let ((err, _), s) = ask W (Call_WSARecv h b) s in (err, if accepted err then post h b s else s))"

definition win_WSASend :: "world \<Rightarrow> dword \<Rightarrow> nat \<Rightarrow> byte list \<Rightarrow> iocp \<Rightarrow> dword \<times> iocp" where
  "win_WSASend W h b bs s =
     (let ((err, _), s) = ask W (Call_WSASend h b bs) s in
      (err, if accepted err then post h b (s\<lparr>net := net s @ [Sent h bs]\<rparr>) else s))"

definition win_AcceptEx :: "world \<Rightarrow> dword \<Rightarrow> dword \<Rightarrow> nat \<Rightarrow> iocp \<Rightarrow> dword \<times> iocp" where
  "win_AcceptEx W h c b s =
     (let ((err, _), s) = ask W (Call_AcceptEx h c b) s in (err, if accepted err then post h b s else s))"

definition win_CreateIoCompletionPort :: "world \<Rightarrow> dword \<Rightarrow> nat \<Rightarrow> iocp \<Rightarrow> bool \<times> iocp" where
  "win_CreateIoCompletionPort W h k s =
     (let ((err, _), s) = ask W (Call_CreateIoCompletionPort h k) s in
      if err = 0 then (True, s\<lparr>assoc := (assoc s)(h \<mapsto> k)\<rparr>) else (False, s))"

definition SetEvent :: "dword \<Rightarrow> iocp \<Rightarrow> iocp" where
  "SetEvent e s = s\<lparr>signalled := insert e (signalled s)\<rparr>"

definition ResetEvent :: "dword \<Rightarrow> iocp \<Rightarrow> iocp" where
  "ResetEvent e s = s\<lparr>signalled := signalled s - {e}\<rparr>"

section \<open>Access to objects\<close>

definition upd_buf :: "nat \<Rightarrow> (BUFFER_OBJ \<Rightarrow> BUFFER_OBJ) \<Rightarrow> iocp \<Rightarrow> (unit, iocp) outcome" where
  "upd_buf p f s = (case bufs s p of None \<Rightarrow> None | Some b \<Rightarrow> Some ((), s\<lparr>bufs := (bufs s)(p \<mapsto> f b)\<rparr>))"

definition upd_sock :: "nat \<Rightarrow> (SOCKET_OBJ \<Rightarrow> SOCKET_OBJ) \<Rightarrow> iocp \<Rightarrow> (unit, iocp) outcome" where
  "upd_sock p f s = (case socks s p of None \<Rightarrow> None | Some c \<Rightarrow> Some ((), s\<lparr>socks := (socks s)(p \<mapsto> f c)\<rparr>))"

definition upd_lstn :: "nat \<Rightarrow> (LISTEN_OBJ \<Rightarrow> LISTEN_OBJ) \<Rightarrow> iocp \<Rightarrow> (unit, iocp) outcome" where
  "upd_lstn p f s = (case lstns s p of None \<Rightarrow> None | Some c \<Rightarrow> Some ((), s\<lparr>lstns := (lstns s)(p \<mapsto> f c)\<rparr>))"

text \<open>The predicate transformers at these accesses.\<close>

lemmas iocp_reads [simp] =
  wlp_read [where m = "m :: BUFFER_OBJ option" for m] wlp_read [where m = "m :: SOCKET_OBJ option" for m]
  wlp_read [where m = "m :: LISTEN_OBJ option" for m] wlp_read [where m = "m :: nat option option" for m]
  wlp_read [where m = "m :: (32 word) option" for m]
  wp_read [where m = "m :: BUFFER_OBJ option" for m] wp_read [where m = "m :: SOCKET_OBJ option" for m]
  wp_read [where m = "m :: LISTEN_OBJ option" for m] wp_read [where m = "m :: nat option option" for m]
  wp_read [where m = "m :: (32 word) option" for m]

lemma wlp_upd [simp]:
  "wlp (upd_buf p f s) Q \<longleftrightarrow> (\<forall>b. bufs s p = Some b \<longrightarrow> Q () (s\<lparr>bufs := (bufs s)(p \<mapsto> f b)\<rparr>))"
  "wlp (upd_sock k g s) Q \<longleftrightarrow> (\<forall>c. socks s k = Some c \<longrightarrow> Q () (s\<lparr>socks := (socks s)(k \<mapsto> g c)\<rparr>))"
  "wlp (upd_lstn l h s) Q \<longleftrightarrow> (\<forall>c. lstns s l = Some c \<longrightarrow> Q () (s\<lparr>lstns := (lstns s)(l \<mapsto> h c)\<rparr>))"
  by (simp_all add: upd_buf_def upd_sock_def upd_lstn_def split: option.split)

lemma wp_upd [simp]:
  "wp (upd_buf p f s) Q \<longleftrightarrow> (\<exists>b. bufs s p = Some b \<and> Q () (s\<lparr>bufs := (bufs s)(p \<mapsto> f b)\<rparr>))"
  "wp (upd_sock k g s) Q \<longleftrightarrow> (\<exists>c. socks s k = Some c \<and> Q () (s\<lparr>socks := (socks s)(k \<mapsto> g c)\<rparr>))"
  "wp (upd_lstn l h s) Q \<longleftrightarrow> (\<exists>c. lstns s l = Some c \<and> Q () (s\<lparr>lstns := (lstns s)(l \<mapsto> h c)\<rparr>))"
  by (simp_all add: upd_buf_def upd_sock_def upd_lstn_def split: option.split)

end
