(* ===== verification/IocpServer.thy ===== *)
theory IocpServer
  imports IocpState
begin

text \<open>
  The operations of the completion port server, in the order of \<open>iocpserver.cpp\<close>, up to the
  handling of one completion.
\<close>

section \<open>Pending sends\<close>

definition EnqueuePendingOperation :: "nat \<Rightarrow> io_op \<Rightarrow> iocp \<Rightarrow> (unit, iocp) outcome" where
  "EnqueuePendingOperation obj op s = do {
     b \<leftarrow> bufs s obj;
     (_, s) \<leftarrow> (if op = OP_WRITE then do {
                   k \<leftarrow> sock b;
                   upd_sock k (PendingSend_update (\<lambda>n. n + 1)) s }
                 else Some ((), s));
     (_, s) \<leftarrow> upd_buf obj (b_next_update (\<lambda>_. None)) s;
     case gPendingSendListEnd s of
       Some e \<Rightarrow> do {
         (_, s) \<leftarrow> upd_buf e (b_next_update (\<lambda>_. Some obj)) s;
         Some ((), s\<lparr>gPendingSendListEnd := Some obj\<rparr>) }
     | None \<Rightarrow> Some ((), s\<lparr>gPendingSendList := Some obj, gPendingSendListEnd := Some obj\<rparr>) }"

definition DequeuePendingOperation :: "io_op \<Rightarrow> iocp \<Rightarrow> (nat option, iocp) outcome" where
  "DequeuePendingOperation op s =
     (case gPendingSendList s of
        None \<Rightarrow> Some (None, s)
      | Some obj \<Rightarrow> do {
          b \<leftarrow> bufs s obj;
          let s = s\<lparr>gPendingSendList := b_next b\<rparr>;
          let s = (if b_next b = None then s\<lparr>gPendingSendListEnd := None\<rparr> else s);
          (_, s) \<leftarrow> (if op = OP_WRITE then do {
                        k \<leftarrow> sock b;
                        upd_sock k (PendingSend_update (\<lambda>n. n - 1)) s }
                      else Some ((), s));
          Some (Some obj, s) })"

section \<open>Lookaside lists\<close>

text \<open>\<open>memset(obj, 0, sizeof(BUFFER_OBJ) + gBufferSize)\<close> and \<open>memset(obj, 0, sizeof(SOCKET_OBJ))\<close>.\<close>

definition zero_buffer :: "dword \<Rightarrow> BUFFER_OBJ" where
  "zero_buffer n = \<lparr>sclient = 0, PostAccept_event = 0, buf = replicate (unat n) 0, buflen = 0, operation = OP_ACCEPT,
     addrlen = 0, sock = None, b_next = None\<rparr>"

definition zero_socket :: SOCKET_OBJ where
  "zero_socket = \<lparr>s_handle = 0, af = 0, bClosing = False, OutstandingRecv = 0, OutstandingSend = 0, PendingSend = 0, s_next = None\<rparr>"

definition sizeof_SOCKADDR_STORAGE :: dword where "sizeof_SOCKADDR_STORAGE = 128"

text \<open>What \<open>AcceptEx\<close> keeps free for addresses behind the bytes that it receives.\<close>

definition accept_addresses :: dword where "accept_addresses = (sizeof_SOCKADDR_STORAGE + 16) * 2"

lemma accept_addresses_288: "accept_addresses = 288"
  by (simp add: accept_addresses_def sizeof_SOCKADDR_STORAGE_def)

text \<open>A new object is zeroed and follows all others; \<open>HeapAlloc\<close> may fail.\<close>

definition GetBufferObj :: "world \<Rightarrow> dword \<Rightarrow> iocp \<Rightarrow> (nat option, iocp) outcome" where
  "GetBufferObj W len s = do {
     (newobj, s) \<leftarrow>
       (case gFreeBufferList s of
          None \<Rightarrow>
            (let ((err, _), s) = ask W Call_HeapAlloc s in
             if err \<noteq> 0 then Some (None, s)
             else Some (Some (heap_top s), s\<lparr>bufs := (bufs s)(heap_top s \<mapsto> zero_buffer len), heap_top := heap_top s + 1\<rparr>))
        | Some p \<Rightarrow> do {
            b \<leftarrow> bufs s p;
            (_, s) \<leftarrow> upd_buf p (b_next_update (\<lambda>_. None)) (s\<lparr>gFreeBufferList := b_next b\<rparr>);
            Some (Some p, s) });
     case newobj of
       None \<Rightarrow> Some (None, s)
     | Some p \<Rightarrow> do {
         (_, s) \<leftarrow> upd_buf p (\<lambda>b. b\<lparr>buflen := len, addrlen := sizeof_SOCKADDR_STORAGE\<rparr>) s;
         Some (Some p, s) } }"

definition FreeBufferObj :: "nat \<Rightarrow> iocp \<Rightarrow> (unit, iocp) outcome" where
  "FreeBufferObj obj s = do {
     (_, s) \<leftarrow> upd_buf obj (\<lambda>_. (zero_buffer (gBufferSize s))\<lparr>b_next := gFreeBufferList s\<rparr>) s;
     Some ((), s\<lparr>gFreeBufferList := Some obj\<rparr>) }"

definition GetSocketObj :: "world \<Rightarrow> dword \<Rightarrow> int \<Rightarrow> iocp \<Rightarrow> (nat option, iocp) outcome" where
  "GetSocketObj W h family s = do {
     (sockobj, s) \<leftarrow>
       (case gFreeSocketList s of
          None \<Rightarrow>
            (let ((err, _), s) = ask W Call_HeapAlloc s in
             if err \<noteq> 0 then Some (None, s)
             else Some (Some (heap_top s), s\<lparr>socks := (socks s)(heap_top s \<mapsto> zero_socket), heap_top := heap_top s + 1\<rparr>))
        | Some p \<Rightarrow> do {
            c \<leftarrow> socks s p;
            (_, s) \<leftarrow> upd_sock p (s_next_update (\<lambda>_. None)) (s\<lparr>gFreeSocketList := s_next c\<rparr>);
            Some (Some p, s) });
     case sockobj of
       None \<Rightarrow> Some (None, s)
     | Some p \<Rightarrow> do {
         (_, s) \<leftarrow> upd_sock p (\<lambda>c. c\<lparr>s_handle := h, af := family\<rparr>) s;
         Some (Some p, s) } }"

definition FreeSocketObj :: "world \<Rightarrow> nat \<Rightarrow> iocp \<Rightarrow> (unit, iocp) outcome" where
  "FreeSocketObj W obj s = do {
     c \<leftarrow> socks s obj;
     (_, s) \<leftarrow> (if s_handle c \<noteq> INVALID_SOCKET
                 then upd_sock obj (s_handle_update (\<lambda>_. INVALID_SOCKET)) (win_closesocket W (s_handle c) s)
                 else Some ((), s));
     (_, s) \<leftarrow> upd_sock obj (\<lambda>_. zero_socket\<lparr>s_next := gFreeSocketList s\<rparr>) s;
     Some ((), s\<lparr>gFreeSocketList := Some obj\<rparr>) }"

section \<open>Pending accepts\<close>

definition InsertPendingAccept :: "nat \<Rightarrow> nat \<Rightarrow> iocp \<Rightarrow> (unit, iocp) outcome" where
  "InsertPendingAccept listenobj obj s = do {
     (_, s) \<leftarrow> upd_buf obj (b_next_update (\<lambda>_. None)) s;
     l \<leftarrow> lstns s listenobj;
     (_, s) \<leftarrow> (case PendingAccepts l of
          None \<Rightarrow> Some ((), s)
        | Some p \<Rightarrow> upd_buf obj (b_next_update (\<lambda>_. Some p)) s);
     upd_lstn listenobj (PendingAccepts_update (\<lambda>_. Some obj)) s }"

text \<open>The search; it does not end on a list that runs in a circle.\<close>

partial_function (option) search_accept ::
    "(nat \<Rightarrow> BUFFER_OBJ option) \<Rightarrow> nat \<Rightarrow> nat option \<Rightarrow> nat option \<Rightarrow> nat option option" where
  "search_accept bs obj prev ptr =
     (if ptr = None \<or> ptr = Some obj then Some prev
      else do { b \<leftarrow> bs (the ptr); search_accept bs obj ptr (b_next b) })"

definition RemovePendingAccept :: "nat \<Rightarrow> nat \<Rightarrow> iocp \<Rightarrow> (unit, iocp) outcome" where
  "RemovePendingAccept listenobj obj s = do {
     l \<leftarrow> lstns s listenobj;
     prev \<leftarrow> search_accept (bufs s) obj None (PendingAccepts l);
     b \<leftarrow> bufs s obj;
     case prev of
       Some p \<Rightarrow> upd_buf p (b_next_update (\<lambda>_. b_next b)) s
     | None \<Rightarrow> upd_lstn listenobj (PendingAccepts_update (\<lambda>_. b_next b)) s }"

section \<open>Posting operations\<close>

text \<open>The result says whether the operation was accepted (\<open>NO_ERROR\<close>).\<close>

definition PostRecv :: "world \<Rightarrow> nat \<Rightarrow> nat \<Rightarrow> iocp \<Rightarrow> (bool, iocp) outcome" where
  "PostRecv W k recvobj s = do {
     (_, s) \<leftarrow> upd_buf recvobj (operation_update (\<lambda>_. OP_READ)) s;
     c \<leftarrow> socks s k;
     let (err, s) = win_WSARecv W (s_handle c) recvobj s;
     if accepted err then do {
       (_, s) \<leftarrow> upd_sock k (OutstandingRecv_update (\<lambda>n. n + 1)) s;
       Some (True, s) }
     else Some (False, s) }"

definition PostSend :: "world \<Rightarrow> nat \<Rightarrow> nat \<Rightarrow> iocp \<Rightarrow> (bool, iocp) outcome" where
  "PostSend W k sendobj s = do {
     (_, s) \<leftarrow> upd_buf sendobj (operation_update (\<lambda>_. OP_WRITE)) s;
     b \<leftarrow> bufs s sendobj;
     c \<leftarrow> socks s k;
     let (err, s) = win_WSASend W (s_handle c) sendobj (take (unat (buflen b)) (buf b)) s;
     if accepted err then do {
       (_, s) \<leftarrow> upd_sock k (OutstandingSend_update (\<lambda>n. n + 1)) s;
       Some (True, s\<lparr>gOutstandingSends := gOutstandingSends s + 1\<rparr>) }
     else if err = WSAENOBUFS then None
     else Some (False, s) }"

definition PostAccept :: "world \<Rightarrow> nat \<Rightarrow> nat \<Rightarrow> iocp \<Rightarrow> (bool, iocp) outcome" where
  "PostAccept W listenobj acceptobj s = do {
     (_, s) \<leftarrow> upd_buf acceptobj (operation_update (\<lambda>_. OP_ACCEPT)) s;
     l \<leftarrow> lstns s listenobj;
     let (h, s) = win_socket W (AddressFamily l) s;
     (_, s) \<leftarrow> upd_buf acceptobj (sclient_update (\<lambda>_. h)) s;
     if h = INVALID_SOCKET then Some (False, s)
     else do {
       let (err, s) = win_AcceptEx W (l_handle l) h acceptobj s;
       if accepted err then do {
         (_, s) \<leftarrow> upd_lstn listenobj (PendingAcceptCount_update (\<lambda>n. n + 1)) s;
         Some (True, s) }
       else Some (False, s) } }"

section \<open>Sending what is pending\<close>

lemma win_WSASend_limits [simp]:
  "gMaxSends (snd (win_WSASend W h b bs s)) = gMaxSends s"
  "gOutstandingSends (snd (win_WSASend W h b bs s)) = gOutstandingSends s"
  by (auto simp: win_WSASend_def ask_def post_def Let_def split: option.split prod.split)

lemma Dequeue_limits:
  "wlp (DequeuePendingOperation op s) (\<lambda>r t. gMaxSends t = gMaxSends s \<and> gOutstandingSends t = gOutstandingSends s)"
  by (auto simp: DequeuePendingOperation_def Let_def split: option.split)

lemma PostSend_limits:
  "wlp (PostSend W k b s) (\<lambda>r t. gMaxSends t = gMaxSends s \<and>
     gOutstandingSends t = (if r then gOutstandingSends s + 1 else gOutstandingSends s))"
  by (auto simp: PostSend_def Let_def case_prod_unfold)

function ProcessPendingOperations :: "world \<Rightarrow> iocp \<Rightarrow> (unit, iocp) outcome" where
  "ProcessPendingOperations W s =
     (if gOutstandingSends s < gMaxSends s then
        (case DequeuePendingOperation OP_WRITE s of
           None \<Rightarrow> None
         | Some (None, s) \<Rightarrow> Some ((), s)
         | Some (Some sendobj, s) \<Rightarrow>
             (case bufs s sendobj of
                None \<Rightarrow> None
              | Some b \<Rightarrow>
                  (case sock b of
                     None \<Rightarrow> None
                   | Some k \<Rightarrow>
                       (case PostSend W k sendobj s of
                          None \<Rightarrow> None
                        | Some (True, s) \<Rightarrow> ProcessPendingOperations W s
                        | Some (False, s) \<Rightarrow> FreeBufferObj sendobj s))))
      else Some ((), s))"
  by pat_completeness auto

termination
  by (relation "measure (\<lambda>(W, s). nat (gMaxSends s - gOutstandingSends s))")
    (auto dest!: wlpD [OF Dequeue_limits] wlpD [OF PostSend_limits])

declare ProcessPendingOperations.simps [simp del]

section \<open>Handling a completion\<close>

text \<open>What the error branch of \<open>HandleIo\<close> does to a connection whose operation failed.\<close>

definition failed_io :: "world \<Rightarrow> nat \<Rightarrow> io_op \<Rightarrow> iocp \<Rightarrow> (unit, iocp) outcome" where
  "failed_io W k op s =
     (if op = OP_READ then do {
        (_, s) \<leftarrow> upd_sock k (OutstandingRecv_update (\<lambda>n. n - 1)) s;
        c \<leftarrow> socks s k;
        if OutstandingRecv c = 0 \<and> OutstandingSend c = 0 then FreeSocketObj W k s else Some ((), s) }
      else do {
        (_, s) \<leftarrow> upd_sock k (OutstandingSend_update (\<lambda>n. n - 1)) s;
        c \<leftarrow> socks s k;
        if OutstandingSend c = 0 \<and> OutstandingRecv c = 0 then FreeSocketObj W k s else Some ((), s) })"

text \<open>
  What becomes of the socket of a new client, which \<open>b\<close> carries with its first bytes; the result is
  \<open>False\<close> where the handler returns at once.  The test of \<open>error\<close> that follows in the source is never
  true, because an error has been handled before.
\<close>

definition new_client :: "world \<Rightarrow> nat \<Rightarrow> nat \<Rightarrow> dword \<Rightarrow> iocp \<Rightarrow> (bool, iocp) outcome" where
  "new_client W listenobj b BytesTransfered s = do {
     l \<leftarrow> lstns s listenobj;
     ob \<leftarrow> bufs s b;
     (clientobj, s) \<leftarrow> GetSocketObj W (sclient ob) (AddressFamily l) s;
     case clientobj of
       Some k \<Rightarrow> do {
         let (ok, s) = win_CreateIoCompletionPort W (sclient ob) k s;
         if \<not> ok then Some (False, s)
         else do {
           (_, s) \<leftarrow> upd_buf b (\<lambda>ob. ob\<lparr>buflen := BytesTransfered, sock := Some k\<rparr>) s;
           (_, s) \<leftarrow> EnqueuePendingOperation b OP_WRITE s;
           (_, s) \<leftarrow> upd_lstn listenobj (RepostCount_update (\<lambda>n. n + 1)) s;
           Some (True, SetEvent (RepostAccept l) s) } }
     | None \<Rightarrow> do {
         let s = win_closesocket W (sclient ob) s;
         (_, s) \<leftarrow> upd_buf b (sclient_update (\<lambda>_. INVALID_SOCKET)) s;
         (_, s) \<leftarrow> FreeBufferObj b s;
         (_, s) \<leftarrow> upd_lstn listenobj (RepostCount_update (\<lambda>n. n + 1)) s;
         Some (True, SetEvent (RepostAccept l) s) } }"

definition accepted_io :: "world \<Rightarrow> nat \<Rightarrow> nat \<Rightarrow> dword \<Rightarrow> iocp \<Rightarrow> (bool, iocp) outcome" where
  "accepted_io W listenobj b BytesTransfered s = do {
     let s = s\<lparr>gConnections := gConnections s + 1, gConnectionsLast := gConnectionsLast s + 1\<rparr>;
     (_, s) \<leftarrow> upd_lstn listenobj (PendingAcceptCount_update (\<lambda>n. n - 1)) s;
     let s = s\<lparr>gBytesRead := gBytesRead s + BytesTransfered, gBytesReadLast := gBytesReadLast s + BytesTransfered\<rparr>;
     (_, s) \<leftarrow> RemovePendingAccept listenobj b s;
     new_client W listenobj b BytesTransfered s }"

text \<open>A receive; the result says whether the connection is to be cleaned up.\<close>

definition received_io :: "nat \<Rightarrow> nat \<Rightarrow> dword \<Rightarrow> iocp \<Rightarrow> (bool, iocp) outcome" where
  "received_io k b BytesTransfered s = do {
     (_, s) \<leftarrow> upd_sock k (OutstandingRecv_update (\<lambda>n. n - 1)) s;
     if 0 < BytesTransfered then do {
       let s = s\<lparr>gBytesRead := gBytesRead s + BytesTransfered, gBytesReadLast := gBytesReadLast s + BytesTransfered\<rparr>;
       (_, s) \<leftarrow> upd_buf b (\<lambda>ob. ob\<lparr>buflen := BytesTransfered, sock := Some k\<rparr>) s;
       (_, s) \<leftarrow> EnqueuePendingOperation b OP_WRITE s;
       Some (False, s) }
     else do {
       (_, s) \<leftarrow> upd_sock k (bClosing_update (\<lambda>_. True)) s;
       (_, s) \<leftarrow> FreeBufferObj b s;
       c \<leftarrow> socks s k;
       Some (OutstandingSend c = 0 \<and> OutstandingRecv c = 0, s) } }"

definition sent_io :: "world \<Rightarrow> nat \<Rightarrow> nat \<Rightarrow> dword \<Rightarrow> iocp \<Rightarrow> (unit, iocp) outcome" where
  "sent_io W k b BytesTransfered s = do {
     (_, s) \<leftarrow> upd_sock k (OutstandingSend_update (\<lambda>n. n - 1)) s;
     let s = s\<lparr>gOutstandingSends := gOutstandingSends s - 1, gBytesSent := gBytesSent s + BytesTransfered,
               gBytesSentLast := gBytesSentLast s + BytesTransfered\<rparr>;
     (_, s) \<leftarrow> upd_buf b (buflen_update (\<lambda>_. gBufferSize s)) s;
     c \<leftarrow> socks s k;
     if bClosing c then Some ((), s)
     else do {
       (_, s) \<leftarrow> upd_buf b (sock_update (\<lambda>_. Some k)) s;
       (_, s) \<leftarrow> PostRecv W k b s;
       Some ((), s) } }"

text \<open>The end of \<open>HandleIo\<close> for a connection.\<close>

definition cleanup :: "world \<Rightarrow> nat \<Rightarrow> bool \<Rightarrow> iocp \<Rightarrow> (unit, iocp) outcome" where
  "cleanup W k bCleanupSocket s = do {
     c \<leftarrow> socks s k;
     if (OutstandingSend c = 0 \<and> OutstandingRecv c = 0 \<and> bClosing c) \<or> bCleanupSocket then do {
       (_, s) \<leftarrow> upd_sock k (s_handle_update (\<lambda>_. INVALID_SOCKET)) (win_closesocket W (s_handle c) s);
       FreeSocketObj W k s }
     else Some ((), s) }"

definition HandleIo :: "world \<Rightarrow> nat \<Rightarrow> nat \<Rightarrow> dword \<Rightarrow> dword \<Rightarrow> iocp \<Rightarrow> (unit, iocp) outcome" where
  "HandleIo W key b BytesTransfered error s = do {
     ob \<leftarrow> bufs s b;
     if error \<noteq> 0 then do {
       (_, s) \<leftarrow>
         (if operation ob \<noteq> OP_ACCEPT then failed_io W key (operation ob) s
          else upd_buf b (sclient_update (\<lambda>_. INVALID_SOCKET)) (win_closesocket W (sclient ob) s));
       FreeBufferObj b s }
     else
       (case operation ob of
          OP_ACCEPT \<Rightarrow> do {
            (go, s) \<leftarrow> accepted_io W key b BytesTransfered s;
            if go then ProcessPendingOperations W s else Some ((), s) }
        | OP_READ \<Rightarrow> do {
            (bCleanupSocket, s) \<leftarrow> received_io key b BytesTransfered s;
            (_, s) \<leftarrow> ProcessPendingOperations W s;
            cleanup W key bCleanupSocket s }
        | OP_WRITE \<Rightarrow> do {
            (_, s) \<leftarrow> sent_io W key b BytesTransfered s;
            (_, s) \<leftarrow> ProcessPendingOperations W s;
            cleanup W key False s }) }"

text \<open>
  One turn of \<open>CompletionThread\<close>: what \<open>GetQueuedCompletionStatus\<close> returned (success, bytes, key and
  the overlapped structure) and, where it failed, what \<open>WSAGetOverlappedResult\<close> makes of it, an error
  or a number of bytes.
\<close>

definition CompletionThread ::
    "world \<Rightarrow> bool \<times> dword \<times> nat \<times> nat option \<Rightarrow> dword + dword \<Rightarrow> iocp \<Rightarrow> (unit, iocp) outcome" where
  "CompletionThread W packet wsa s =
     (case packet of (rc, BytesTransfered, Key, lpOverlapped) \<Rightarrow> do {
        bufobj \<leftarrow> lpOverlapped;
        ob \<leftarrow> bufs s bufobj;
        if rc then HandleIo W Key bufobj BytesTransfered 0 s
        else do {
          _ \<leftarrow> (if operation ob = OP_ACCEPT then map_option l_handle (lstns s Key) else map_option s_handle (socks s Key));
          case wsa of
            Inl error \<Rightarrow> HandleIo W Key bufobj BytesTransfered error s
          | Inr n \<Rightarrow> HandleIo W Key bufobj n 0 s } })"

end
