(* ===== verification/IocpMain.thy ===== *)
theory IocpMain
  imports IocpServer
begin

text \<open>
  \<open>main\<close> of the completion port server: the command line, the listening sockets with their first
  accepts, and the turns of the loop that posts more of them.
\<close>

section \<open>The command line\<close>

definition AF_UNSPEC :: int where "AF_UNSPEC = 0"
definition AF_INET :: int where "AF_INET = 2"
definition AF_INET6 :: int where "AF_INET6 = 23"

record iocp_options =
  gAddressFamily :: int
  gBindAddr :: "string option"
  gBindPort :: string
  o_BufferSize :: int
  o_InitialAccepts :: int
  o_MaxAccepts :: int
  o_MaxReceives :: int
  o_MaxSends :: int

definition default_options :: iocp_options where
  "default_options = \<lparr>gAddressFamily = AF_UNSPEC, gBindAddr = None, gBindPort = ''5150'', o_BufferSize = 4096,
     o_InitialAccepts = 5, o_MaxAccepts = 500, o_MaxReceives = 200, o_MaxSends = 200\<rparr>"

text \<open>\<open>atol\<close>: \<open>None\<close> where the number is not a \<open>long\<close>.\<close>

definition is_space :: "char \<Rightarrow> bool" where
  "is_space c \<longleftrightarrow> c = CHR '' '' \<or> (9 \<le> (of_char c :: nat) \<and> (of_char c :: nat) \<le> 13)"

definition is_digit :: "char \<Rightarrow> bool" where
  "is_digit c \<longleftrightarrow> 48 \<le> (of_char c :: nat) \<and> (of_char c :: nat) \<le> 57"

definition digits_value :: "string \<Rightarrow> int" where
  "digits_value cs = foldl (\<lambda>n c. 10 * n + (of_char c - 48)) 0 (takeWhile is_digit cs)"

definition atol :: "string \<Rightarrow> int option" where
  "atol cs =
     (let cs = dropWhile is_space cs;
          n = (if cs \<noteq> [] \<and> hd cs = CHR ''-'' then - digits_value (tl cs)
               else if cs \<noteq> [] \<and> hd cs = CHR ''+'' then digits_value (tl cs)
               else digits_value cs)
      in if - (2 ^ 31) \<le> n \<and> n < 2 ^ 31 then Some n else None)"

text \<open>The character at a position of an argument, and \<open>tolower\<close>.\<close>

definition char_at :: "string \<Rightarrow> nat \<Rightarrow> char" where
  "char_at cs i = (if i < length cs then cs ! i else CHR 0x00)"

definition tolower :: "char \<Rightarrow> char" where
  "tolower c = (if 65 \<le> (of_char c :: nat) \<and> (of_char c :: nat) \<le> 90 then char_of ((of_char c :: nat) + 32) else c)"

text \<open>\<open>Inl ()\<close> is \<open>usage\<close>, which ends the process; \<open>None\<close> a number that \<open>atol\<close> does not define.\<close>

type_synonym parsed = "(unit + iocp_options) option"

fun ValidateArgs :: "string list \<Rightarrow> iocp_options \<Rightarrow> parsed" where
  "ValidateArgs [] opts = Some (Inr opts)"
| "ValidateArgs (a # args) opts =
     (if (char_at a 0 \<noteq> CHR ''/'' \<and> char_at a 0 \<noteq> CHR ''-'') \<or> length a < 2 then Some (Inl ())
      else let c = tolower (char_at a 1) in
        if c \<notin> set ''abelo'' then Some (Inl ())
        else case args of
          [] \<Rightarrow> Some (Inl ())
        | v # args \<Rightarrow>
            if c = CHR ''a'' then
              (if char_at v 0 = CHR ''4'' then ValidateArgs args (opts\<lparr>gAddressFamily := AF_INET\<rparr>)
               else if char_at v 0 = CHR ''6'' then ValidateArgs args (opts\<lparr>gAddressFamily := AF_INET6\<rparr>)
               else Some (Inl ()))
            else if c = CHR ''b'' then do { n \<leftarrow> atol v; ValidateArgs args (opts\<lparr>o_BufferSize := n\<rparr>) }
            else if c = CHR ''e'' then ValidateArgs args (opts\<lparr>gBindPort := v\<rparr>)
            else if c = CHR ''l'' then ValidateArgs args (opts\<lparr>gBindAddr := Some v\<rparr>)
            else if length a = 2 then do { n \<leftarrow> atol v; ValidateArgs args (opts\<lparr>o_InitialAccepts := n\<rparr>) }
            else if length a = 3 then
              (if tolower (char_at a 2) = CHR ''a'' then do { n \<leftarrow> atol v; ValidateArgs args (opts\<lparr>o_MaxAccepts := n\<rparr>) }
               else if tolower (char_at a 2) = CHR ''s'' then do { n \<leftarrow> atol v; ValidateArgs args (opts\<lparr>o_MaxSends := n\<rparr>) }
               else if tolower (char_at a 2) = CHR ''r'' then do { n \<leftarrow> atol v; ValidateArgs args (opts\<lparr>o_MaxReceives := n\<rparr>) }
               else Some (Inl ()))
            else Some (Inl ()))"

section \<open>Starting\<close>

definition MAX_COMPLETION_THREAD_COUNT :: nat where "MAX_COMPLETION_THREAD_COUNT = 32"
definition BURST_ACCEPT_COUNT :: nat where "BURST_ACCEPT_COUNT = 100"

text \<open>The buffer size is an \<open>int\<close>, the page size a \<open>DWORD\<close>; the arithmetic is unsigned.\<close>

definition round_buffer :: "dword \<Rightarrow> dword \<Rightarrow> dword" where
  "round_buffer n page = (if n mod page \<noteq> 0 then (n div page + 1) * page else n)"

text \<open>What \<open>main\<close> returns with, or \<open>None\<close> while it goes on.\<close>

type_synonym main_result = "(int option, iocp) outcome"

definition wait_for :: "dword \<Rightarrow> iocp \<Rightarrow> (unit, iocp) outcome" where
  "wait_for h s =
     (if length (WaitEvents s) < MAX_COMPLETION_THREAD_COUNT then Some ((), s\<lparr>WaitEvents := WaitEvents s @ [h]\<rparr>) else None)"

fun create_threads :: "world \<Rightarrow> nat \<Rightarrow> iocp \<Rightarrow> main_result" where
  "create_threads W 0 s = Some (None, s)"
| "create_threads W (Suc n) s = do {
     let ((err, h), s) = ask W Call_CreateThread s;
     (_, s) \<leftarrow> wait_for (if err = 0 then h else 0) s;
     if err \<noteq> 0 then Some (Some (-1), s) else create_threads W n s }"

text \<open>A buffer for one more accept of a listening socket.\<close>

definition add_accept :: "world \<Rightarrow> nat \<Rightarrow> iocp \<Rightarrow> (bool, iocp) outcome" where
  "add_accept W listenobj s = do {
     (acceptobj, s) \<leftarrow> GetBufferObj W (gBufferSize s) s;
     case acceptobj of
       None \<Rightarrow> Some (False, s)
     | Some p \<Rightarrow> do {
         l \<leftarrow> lstns s listenobj;
         (_, s) \<leftarrow> upd_buf p (PostAccept_event_update (\<lambda>_. AcceptEvent l)) s;
         (_, s) \<leftarrow> InsertPendingAccept listenobj p s;
         (_, s) \<leftarrow> PostAccept W listenobj p s;
         Some (True, s) } }"

fun initial_accepts :: "world \<Rightarrow> nat \<Rightarrow> nat \<Rightarrow> iocp \<Rightarrow> main_result" where
  "initial_accepts W l 0 s = Some (None, s)"
| "initial_accepts W l (Suc n) s = do {
     (ok, s) \<leftarrow> add_accept W l s;
     if ok then initial_accepts W l n s else Some (Some (-1), s) }"

text \<open>A call whose failure makes \<open>main\<close> return -1.\<close>

definition must :: "world \<Rightarrow> win_call \<Rightarrow> (dword \<Rightarrow> iocp \<Rightarrow> main_result) \<Rightarrow> iocp \<Rightarrow> main_result" where
  "must W c k s = (let ((err, h), s) = ask W c s in if err \<noteq> 0 then Some (Some (-1), s) else k h s)"

definition new_listener :: "int \<Rightarrow> int \<Rightarrow> LISTEN_OBJ" where
  "new_listener family initial = \<lparr>l_handle = 0, AddressFamily = family, PendingAccepts = None, PendingAcceptCount = 0,
     HiWaterMark = 0, LoWaterMark = initial, AcceptEvent = 0, RepostAccept = 0, RepostCount = 0, l_next = None\<rparr>"

definition open_endpoint :: "world \<Rightarrow> int \<Rightarrow> iocp \<Rightarrow> main_result" where
  "open_endpoint W family s =
     must W Call_HeapAlloc (\<lambda>_ s. do {
       let l = heap_top s;
       let s = s\<lparr>lstns := (lstns s)(l \<mapsto> new_listener family (gInitialAccepts s)), heap_top := l + 1\<rparr>;
       let (h, s) = win_socket W family s;
       (_, s) \<leftarrow> upd_lstn l (l_handle_update (\<lambda>_. h)) s;
       if h = INVALID_SOCKET then Some (Some (-1), s)
       else must W Call_CreateEvent (\<lambda>ae s. do {
         (_, s) \<leftarrow> upd_lstn l (AcceptEvent_update (\<lambda>_. ae)) s;
         must W Call_CreateEvent (\<lambda>re s. do {
           (_, s) \<leftarrow> upd_lstn l (RepostAccept_update (\<lambda>_. re)) s;
           (_, s) \<leftarrow> wait_for ae s;
           (_, s) \<leftarrow> wait_for re s;
           let (ok, s) = win_CreateIoCompletionPort W h l s;
           if \<not> ok then Some (Some (-1), s)
           else must W (Call_bind h) (\<lambda>_.
             must W (Call_WSAIoctl h True) (\<lambda>_.
             must W (Call_WSAIoctl h False) (\<lambda>_.
             must W (Call_listen h) (\<lambda>_.
             must W (Call_WSAEventSelect h ae) (\<lambda>_ s. do {
               (r, s) \<leftarrow> initial_accepts W l (nat (gInitialAccepts s)) s;
               if r \<noteq> None then Some (r, s)
               else do {
                 (_, s) \<leftarrow> upd_lstn l (l_next_update (\<lambda>_. ListenSockets s)) s;
                 Some (None, s\<lparr>ListenSockets := Some l\<rparr>) } }))))) s }) s }) s }) s"

fun open_endpoints :: "world \<Rightarrow> int list \<Rightarrow> iocp \<Rightarrow> main_result" where
  "open_endpoints W [] s = Some (None, s)"
| "open_endpoints W (f # fs) s = do {
     (r, s) \<leftarrow> open_endpoint W f s;
     if r \<noteq> None then Some (r, s) else open_endpoints W fs s }"

definition empty_server :: "iocp_options \<Rightarrow> iocp" where
  "empty_server opts = \<lparr>bufs = Map.empty, socks = Map.empty, lstns = Map.empty, heap_top = 0, gFreeBufferList = None,
     gFreeSocketList = None, gPendingSendList = None, gPendingSendListEnd = None, ListenSockets = None,
     gBufferSize = of_int (o_BufferSize opts), gInitialAccepts = o_InitialAccepts opts, gMaxAccepts = o_MaxAccepts opts,
     gMaxReceives = o_MaxReceives opts, gMaxSends = o_MaxSends opts, gOutstandingSends = 0, gBytesRead = 0, gBytesSent = 0,
     gBytesReadLast = 0, gBytesSentLast = 0, gConnections = 0, gConnectionsLast = 0, gStartTime = 0, gStartTimeLast = 0,
     WaitEvents = [], processors = 0, interval = 0, opened = {}, assoc = Map.empty, inflight = [], signalled = {}, net = [], calls = []\<rparr>"

text \<open>
  \<open>main\<close> up to its loop, on a machine of \<open>procs\<close> processors and pages of \<open>page\<close> bytes; \<open>families\<close> are
  those of the addresses \<open>ResolveAddress\<close> finds.
\<close>

definition iocp_main :: "world \<Rightarrow> string list \<Rightarrow> nat \<Rightarrow> dword \<Rightarrow> int list \<Rightarrow> main_result" where
  "iocp_main W args procs page families = do {
     r \<leftarrow> ValidateArgs args default_options;
     case r of
       Inl _ \<Rightarrow> Some (Some (-1), empty_server default_options)
     | Inr opts \<Rightarrow>
         must W Call_WSAStartup (\<lambda>_. must W Call_CreatePort (\<lambda>_ s. do {
           let n = min procs MAX_COMPLETION_THREAD_COUNT;
           let s = s\<lparr>gBufferSize := round_buffer (gBufferSize s) page, processors := n\<rparr>;
           (r, s) \<leftarrow> create_threads W n s;
           if r \<noteq> None then Some (r, s)
           else if families = [] then Some (Some (-1), s)
           else do {
             (r, s) \<leftarrow> open_endpoints W families s;
             if r \<noteq> None then Some (r, s)
             else (let ((_, tick), s) = ask W Call_GetTickCount s in
               Some (None, s\<lparr>gStartTime := tick, gStartTimeLast := tick\<rparr>)) } })) (empty_server opts) }"

section \<open>Statistics\<close>

text \<open>The numbers that are printed, in their order.\<close>

definition PrintStatistics :: "dword \<Rightarrow> iocp \<Rightarrow> dword list \<times> iocp" where
  "PrintStatistics tick s =
     (let elapsed = (tick - gStartTime s) div 1000 in
      if elapsed = 0 then ([], s)
      else let out = [gBytesSent s div elapsed, gBytesSent s, gBytesRead s div elapsed, gBytesRead s];
               elapsed = (tick - gStartTimeLast s) div 1000 in
        if elapsed = 0 then (out, s)
        else (out @ [gBytesSentLast s div elapsed, gBytesReadLast s div elapsed, gConnectionsLast s div elapsed, gConnections s],
          s\<lparr>gBytesSentLast := 0, gBytesReadLast := 0, gConnectionsLast := 0, gStartTimeLast := tick\<rparr>))"

section \<open>The loop\<close>

text \<open>A client that has been connected for five minutes without sending anything is disconnected.\<close>

definition check_stale :: "world \<Rightarrow> nat \<Rightarrow> iocp \<Rightarrow> (unit, iocp) outcome" where
  "check_stale W p s = do {
     ob \<leftarrow> bufs s p;
     let ((err, optval), s) = ask W (Call_getsockopt (sclient ob)) s;
     if err = 0 \<and> optval \<noteq> 0xFFFFFFFF \<and> 300 <s optval then
       upd_buf p (sclient_update (\<lambda>_. INVALID_SOCKET)) (win_closesocket W (sclient ob) s)
     else Some ((), s) }"

partial_function (option) close_stale :: "world \<Rightarrow> nat option \<Rightarrow> iocp \<Rightarrow> (unit, iocp) outcome" where
  "close_stale W ptr s =
     (if ptr = None then Some ((), s)
      else Option.bind (check_stale W (the ptr) s) (\<lambda>r.
        Option.bind (bufs (snd r) (the ptr)) (\<lambda>ob. close_stale W (b_next ob) (snd r))))"

partial_function (option) close_all_stale :: "world \<Rightarrow> nat option \<Rightarrow> iocp \<Rightarrow> (unit, iocp) outcome" where
  "close_all_stale W ptr s =
     (if ptr = None then Some ((), s)
      else Option.bind (lstns s (the ptr)) (\<lambda>l.
        Option.bind (close_stale W (PendingAccepts l) s) (\<lambda>r. close_all_stale W (l_next l) (snd r))))"

partial_function (option) find_listener :: "(nat \<Rightarrow> LISTEN_OBJ option) \<Rightarrow> dword \<Rightarrow> nat option \<Rightarrow> nat option option" where
  "find_listener ls e ptr =
     (if ptr = None then Some None
      else Option.bind (ls (the ptr)) (\<lambda>l.
        if AcceptEvent l = e \<or> RepostAccept l = e then Some ptr else find_listener ls e (l_next l)))"

text \<open>\<open>while (i++ < limit && listenobj->PendingAcceptCount < gMaxAccepts)\<close>\<close>

fun repost :: "world \<Rightarrow> nat \<Rightarrow> nat \<Rightarrow> iocp \<Rightarrow> (unit, iocp) outcome" where
  "repost W listenobj 0 s = Some ((), s)"
| "repost W listenobj (Suc n) s = do {
     l \<leftarrow> lstns s listenobj;
     if PendingAcceptCount l < gMaxAccepts s then do {
       (_, s) \<leftarrow> add_accept W listenobj s;
       repost W listenobj n s }
     else Some ((), s) }"

text \<open>
  An event that is signalled.  Where \<open>WSAEnumNetworkEvents\<close> fails the events it did not store are
  looked at all the same; their value is part of its answer.
\<close>

definition FD_ACCEPT :: dword where "FD_ACCEPT = 8"

definition handle_event :: "world \<Rightarrow> dword \<Rightarrow> iocp \<Rightarrow> (unit, iocp) outcome" where
  "handle_event W e s = do {
     found \<leftarrow> find_listener (lstns s) e (ListenSockets s);
     case found of
       None \<Rightarrow> Some ((), s)
     | Some listenobj \<Rightarrow> do {
         l \<leftarrow> lstns s listenobj;
         (limit, s) \<leftarrow>
           (if AcceptEvent l = e then
              (let ((err, ne), s) = ask W (Call_WSAEnumNetworkEvents (l_handle l) e) s;
                   s = (if err = 0 then ResetEvent e s else s) in
               Some (if ne AND FD_ACCEPT = FD_ACCEPT then BURST_ACCEPT_COUNT else 0, s))
            else do {
              (_, s) \<leftarrow> upd_lstn listenobj (RepostCount_update (\<lambda>_. 0)) s;
              Some (nat (RepostCount l), ResetEvent (RepostAccept l) s) });
         repost W listenobj limit s } }"

text \<open>The events from \<open>index\<close> on; the result is \<open>False\<close> where a completion thread has ended and the process exits.\<close>

fun check_events :: "world \<Rightarrow> nat list \<Rightarrow> iocp \<Rightarrow> (bool, iocp) outcome" where
  "check_events W [] s = Some (True, s)"
| "check_events W (i # is) s =
     (if WaitEvents s ! i \<notin> signalled s then check_events W is s
      else if i < processors s then Some (False, s)
      else do {
        (_, s) \<leftarrow> handle_event W (WaitEvents s ! i) s;
        check_events W is s })"

datatype wait_result = WAIT_FAILED | WAIT_TIMEOUT dword | WAIT_OBJECT nat

text \<open>One turn; \<open>WAIT_TIMEOUT\<close> comes with the time.  The result says whether the loop goes on.\<close>

definition main_turn :: "world \<Rightarrow> wait_result \<Rightarrow> iocp \<Rightarrow> (bool, iocp) outcome" where
  "main_turn W r s =
     (case r of
        WAIT_FAILED \<Rightarrow> Some (False, s)
      | WAIT_TIMEOUT tick \<Rightarrow>
          (let s = snd (PrintStatistics tick (s\<lparr>interval := interval s + 1\<rparr>)) in
           if interval s = 36 then do {
             (_, s) \<leftarrow> close_all_stale W (ListenSockets s) s;
             Some (True, s\<lparr>interval := 0\<rparr>) }
           else Some (True, s))
      | WAIT_OBJECT index \<Rightarrow> check_events W [index..<length (WaitEvents s)] s)"

end
