(* ===== verification/IocpLists.thy ===== *)
theory IocpLists
  imports IocpMain Containers
begin

text \<open>
  The lists of the completion port server as HOL lists: the pending sends are a queue, the lookaside
  lists are stacks, and \<open>RemovePendingAccept\<close> removes an element, if the list does not run in a circle.
\<close>

definition bnext :: "(nat \<Rightarrow> BUFFER_OBJ option) \<Rightarrow> nat \<Rightarrow> nat option option" where
  "bnext bs p = map_option b_next (bs p)"

definition snext :: "(nat \<Rightarrow> SOCKET_OBJ option) \<Rightarrow> nat \<Rightarrow> nat option option" where
  "snext cs p = map_option s_next (cs p)"

lemma bnext_upd [simp]: "bnext (bs(p \<mapsto> b)) = (bnext bs)(p := Some (b_next b))"
  by (auto simp: bnext_def fun_eq_iff)

lemma snext_upd [simp]: "snext (cs(p \<mapsto> c)) = (snext cs)(p := Some (s_next c))"
  by (auto simp: snext_def fun_eq_iff)

lemma bnext_same [simp]: "bs p = Some b \<Longrightarrow> (bnext bs)(p := Some (b_next b)) = bnext bs"
  by (auto simp: bnext_def fun_eq_iff)

lemma snext_same [simp]: "cs p = Some c \<Longrightarrow> (snext cs)(p := Some (s_next c)) = snext cs"
  by (auto simp: snext_def fun_eq_iff)

lemma bnext_at [simp]: "bs p = Some b \<Longrightarrow> bnext bs p = Some (b_next b)"
  by (simp add: bnext_def)

lemma snext_at [simp]: "cs p = Some c \<Longrightarrow> snext cs p = Some (s_next c)"
  by (simp add: snext_def)

section \<open>Pending sends\<close>

definition of_connection :: "iocp \<Rightarrow> nat \<Rightarrow> bool" where
  "of_connection s b \<longleftrightarrow> (\<exists>ob k. bufs s b = Some ob \<and> sock ob = Some k \<and> k \<in> dom (socks s))"

definition pending_sends :: "iocp \<Rightarrow> nat list \<Rightarrow> bool" where
  "pending_sends s P \<longleftrightarrow> distinct P \<and> linked (bnext (bufs s)) (gPendingSendList s) P \<and> (\<forall>b\<in>set P. of_connection s b) \<and>
     gPendingSendListEnd s = (if P = [] then None else Some (last P))"

lemma EnqueuePendingOperation_eq:
  assumes b: "bufs s e = Some ob" "sock ob = Some k" "socks s k = Some c"
    and l: "gPendingSendListEnd s = Some d" "bufs s d = Some lo" "d \<noteq> e"
  shows "EnqueuePendingOperation e OP_WRITE s = Some ((), s\<lparr>socks := (socks s)(k \<mapsto> PendingSend_update (\<lambda>n. n + 1) c),
    bufs := (bufs s)(e \<mapsto> ob\<lparr>b_next := None\<rparr>, d \<mapsto> lo\<lparr>b_next := Some e\<rparr>), gPendingSendListEnd := Some e\<rparr>)"
  using assms by (simp add: EnqueuePendingOperation_def upd_buf_def upd_sock_def)

lemma EnqueuePendingOperation_first:
  assumes b: "bufs s e = Some ob" "sock ob = Some k" "socks s k = Some c" and l: "gPendingSendListEnd s = None"
  shows "EnqueuePendingOperation e OP_WRITE s = Some ((), s\<lparr>socks := (socks s)(k \<mapsto> PendingSend_update (\<lambda>n. n + 1) c),
    bufs := (bufs s)(e \<mapsto> ob\<lparr>b_next := None\<rparr>), gPendingSendList := Some e, gPendingSendListEnd := Some e\<rparr>)"
  using assms by (simp add: EnqueuePendingOperation_def upd_buf_def upd_sock_def)

lemma Enqueue_sends:
  assumes P: "pending_sends s P" and e: "of_connection s e" "e \<notin> set P"
  shows "wp (EnqueuePendingOperation e OP_WRITE s)
    (\<lambda>_ t. pending_sends t (P @ [e]) \<and> (\<forall>d. of_connection s d \<longrightarrow> of_connection t d))"
proof -
  obtain ob k c where b: "bufs s e = Some ob" "sock ob = Some k" "socks s k = Some c"
    using e(1) by (auto simp: of_connection_def)
  show ?thesis
  proof (cases "P = []")
    case True
    then show ?thesis
      using P b by (auto simp: EnqueuePendingOperation_first pending_sends_def of_connection_def)
  next
    case False
    then have l: "last P \<in> set P" by simp
    then obtain lo k' c' where lo: "bufs s (last P) = Some lo" "sock lo = Some k'" "socks s k' = Some c'"
      using P by (auto simp: pending_sends_def of_connection_def)
    have ne: "last P \<noteq> e" using l e(2) by auto
    let ?t = "s\<lparr>socks := (socks s)(k \<mapsto> PendingSend_update (\<lambda>n. n + 1) c),
      bufs := (bufs s)(e \<mapsto> ob\<lparr>b_next := None\<rparr>, last P \<mapsto> lo\<lparr>b_next := Some e\<rparr>), gPendingSendListEnd := Some e\<rparr>"
    have "linked ((bnext (bufs s))(last P := Some (Some e), e := Some None)) (gPendingSendList s) (P @ [e])"
      using P False e(2) by (intro linked_snoc) (auto simp: pending_sends_def)
    then have "linked (bnext (bufs ?t)) (gPendingSendList ?t) (P @ [e])" using ne by (simp add: fun_upd_twist)
    moreover have of: "of_connection ?t d" if "of_connection s d" for d
      using that b lo ne by (auto simp: of_connection_def)
    moreover have "EnqueuePendingOperation e OP_WRITE s = Some ((), ?t)"
      using P False b lo ne by (intro EnqueuePendingOperation_eq) (auto simp: pending_sends_def)
    ultimately show ?thesis
      using P e False by (auto simp: pending_sends_def)
  qed
qed

lemma Dequeue_sends:
  assumes P: "pending_sends s (x # xs)"
  shows "wp (DequeuePendingOperation OP_WRITE s) (\<lambda>r t. r = Some x \<and> pending_sends t xs)"
proof -
  obtain ob k c where b: "bufs s x = Some ob" "sock ob = Some k" "socks s k = Some c" "gPendingSendList s = Some x"
    using P by (auto simp: pending_sends_def of_connection_def)
  let ?s = "s\<lparr>gPendingSendList := b_next ob, gPendingSendListEnd := (if b_next ob = None then None else gPendingSendListEnd s)\<rparr>"
  have l: "linked (bnext (bufs s)) (b_next ob) xs" using P b by (simp add: pending_sends_def)
  then have n: "b_next ob = None \<longleftrightarrow> xs = []" by (cases xs) auto
  have "DequeuePendingOperation OP_WRITE s = Some (Some x, ?s\<lparr>socks := (socks s)(k \<mapsto> PendingSend_update (\<lambda>n. n - 1) c)\<rparr>)"
    using b by (simp add: DequeuePendingOperation_def Let_def upd_sock_def)
  moreover have "pending_sends (?s\<lparr>socks := (socks s)(k \<mapsto> PendingSend_update (\<lambda>n. n - 1) c)\<rparr>) xs"
    using P l n b by (auto simp: pending_sends_def of_connection_def) blast
  ultimately show ?thesis by simp
qed

lemma Dequeue_no_sends: "pending_sends s [] \<Longrightarrow> wp (DequeuePendingOperation OP_WRITE s) (\<lambda>r t. r = None \<and> pending_sends t [])"
  by (simp add: DequeuePendingOperation_def pending_sends_def)

interpretation send_queue: fifo pending_sends "\<lambda>e s. of_connection s e" "\<lambda>e. EnqueuePendingOperation e OP_WRITE"
    "DequeuePendingOperation OP_WRITE"
  by unfold_locales (fact Dequeue_sends Enqueue_sends Dequeue_no_sends)+

section \<open>Lookaside lists\<close>

definition free_buffers :: "iocp \<Rightarrow> nat list \<Rightarrow> bool" where
  "free_buffers s F \<longleftrightarrow> distinct F \<and> linked (bnext (bufs s)) (gFreeBufferList s) F"

lemma Get_free: "free_buffers s (x # xs) \<Longrightarrow> wp (GetBufferObj W n s) (\<lambda>r t. r = Some x \<and> free_buffers t xs)"
  by (auto simp: GetBufferObj_def free_buffers_def bnext_def split: option.splits)

lemma Put_free: "free_buffers s F \<Longrightarrow> bufs s b \<noteq> None \<Longrightarrow> b \<notin> set F \<Longrightarrow> wp (FreeBufferObj b s) (\<lambda>_ t. free_buffers t (b # F))"
  by (auto simp: FreeBufferObj_def free_buffers_def)

interpretation buffer_stack: stack free_buffers "\<lambda>b s. bufs s b \<noteq> None" FreeBufferObj "GetBufferObj W n" for W n
  by unfold_locales (fact Get_free Put_free)+

definition free_sockets :: "iocp \<Rightarrow> nat list \<Rightarrow> bool" where
  "free_sockets s G \<longleftrightarrow> distinct G \<and> linked (snext (socks s)) (gFreeSocketList s) G"

lemma Get_free_socket: "free_sockets s (x # xs) \<Longrightarrow> wp (GetSocketObj W h f s) (\<lambda>r t. r = Some x \<and> free_sockets t xs)"
  by (auto simp: GetSocketObj_def free_sockets_def snext_def split: option.splits)

lemma Put_free_socket:
  "free_sockets s G \<Longrightarrow> socks s k \<noteq> None \<Longrightarrow> k \<notin> set G \<Longrightarrow> wp (FreeSocketObj W k s) (\<lambda>_ t. free_sockets t (k # G))"
  by (auto simp: FreeSocketObj_def free_sockets_def win_closesocket_def ask_def)

interpretation socket_stack: stack free_sockets "\<lambda>k s. socks s k \<noteq> None" "FreeSocketObj W" "GetSocketObj W h f" for W h f
  by unfold_locales (fact Get_free_socket Put_free_socket)+

section \<open>Pending accepts\<close>

text \<open>The search ends at the object, or at the end of the list, and returns what is before it.\<close>

lemma search_accept_finds:
  assumes "linked (bnext bs) p (xs @ x # ys)" "x \<notin> set xs"
  shows "search_accept bs x prev p = Some (if xs = [] then prev else Some (last xs))"
  using assms
proof (induction xs arbitrary: p prev)
  case Nil
  then show ?case by (subst search_accept.simps) auto
next
  case (Cons y xs)
  then obtain b where b: "bs y = Some b" "p = Some y" by (auto simp: bnext_def split: option.splits)
  then have "search_accept bs x p (b_next b) = Some (if xs = [] then p else Some (last xs))"
    using Cons by (intro Cons.IH) (auto simp: bnext_def)
  then show ?case using Cons.prems b by (subst search_accept.simps) auto
qed

lemma search_accept_misses:
  assumes "linked (bnext bs) p xs" "x \<notin> set xs"
  shows "search_accept bs x prev p = Some (if xs = [] then prev else Some (last xs))"
  using assms
proof (induction xs arbitrary: p prev)
  case Nil
  then show ?case by (subst search_accept.simps) auto
next
  case (Cons y xs)
  then obtain b where b: "bs y = Some b" "p = Some y" by (auto simp: bnext_def split: option.splits)
  then have "search_accept bs x p (b_next b) = Some (if xs = [] then p else Some (last xs))"
    using Cons by (intro Cons.IH) (auto simp: bnext_def)
  then show ?case using Cons.prems b by (subst search_accept.simps) auto
qed

text \<open>What \<open>RemovePendingAccept\<close> leaves: the list without the object, and the other links as they were.\<close>

lemma RemovePendingAccept_removes:
  assumes l: "lstns s lp = Some l" and A: "linked (bnext (bufs s)) (PendingAccepts l) A" "distinct A" and x: "x \<in> set A"
  shows "wp (RemovePendingAccept lp x s) (\<lambda>_ t. \<exists>l' bs. t = s\<lparr>bufs := bs, lstns := (lstns s)(lp \<mapsto> l')\<rparr> \<and>
    l' = l\<lparr>PendingAccepts := PendingAccepts l'\<rparr> \<and> linked (bnext bs) (PendingAccepts l') (remove1 x A) \<and>
    (\<forall>y. y \<notin> set (remove1 x A) \<longrightarrow> bs y = bufs s y) \<and>
    (\<forall>y ob. bufs s y = Some ob \<longrightarrow> (\<exists>ob'. bs y = Some ob' \<and> ob' = ob\<lparr>b_next := b_next ob'\<rparr>)) \<and> dom bs = dom (bufs s))"
proof -
  obtain xs ys where sp: "A = xs @ x # ys" "x \<notin> set xs" using split_list_first [OF x] by blast
  have r: "remove1 x A = xs @ ys" using sp by (simp add: remove1_append)
  have se: "search_accept (bufs s) x None (PendingAccepts l) = Some (if xs = [] then None else Some (last xs))"
    using search_accept_finds [of "bufs s" "PendingAccepts l" xs x ys None] A(1) sp by simp
  have "bnext (bufs s) x \<noteq> None" using A(1) x by (rule linked_present)
  then obtain ob where ob: "bufs s x = Some ob" by (auto simp: bnext_def)
  show ?thesis
  proof (cases xs rule: rev_cases)
    case Nil
    then have "linked (bnext (bufs s)) (b_next ob) ys" using A(1) sp ob by simp
    moreover have "RemovePendingAccept lp x s = Some ((), s\<lparr>lstns := (lstns s)(lp \<mapsto> l\<lparr>PendingAccepts := b_next ob\<rparr>)\<rparr>)"
      using l se ob Nil by (simp add: RemovePendingAccept_def upd_lstn_def)
    ultimately show ?thesis
      using r Nil by (simp, intro exI [of _ "l\<lparr>PendingAccepts := b_next ob\<rparr>"] exI [of _ "bufs s"]) simp
  next
    case (snoc zs z)
    have z: "z \<in> set A" using sp snoc by simp
    then obtain zo where zo: "bufs s z = Some zo" using linked_present [OF A(1) z] by (auto simp: bnext_def)
    let ?bs = "(bufs s)(z \<mapsto> zo\<lparr>b_next := b_next ob\<rparr>)"
    have "linked ((bnext (bufs s))(z := Some (b_next ob))) (PendingAccepts l) (zs @ z # ys)"
      using A sp snoc ob by (intro linked_skip [where y = x]) auto
    moreover have "lstns s = (lstns s)(lp \<mapsto> l)" using l by (simp add: fun_upd_idem)
    then have e: "s\<lparr>bufs := ?bs\<rparr> = s\<lparr>bufs := ?bs, lstns := (lstns s)(lp \<mapsto> l)\<rparr>" by simp
    moreover have "RemovePendingAccept lp x s = Some ((), s\<lparr>bufs := ?bs\<rparr>)"
      using l se ob zo snoc by (simp add: RemovePendingAccept_def upd_buf_def)
    moreover have "\<exists>ob'. ?bs y = Some ob' \<and> ob' = oy\<lparr>b_next := b_next ob'\<rparr>" if "bufs s y = Some oy" for y oy
      using that zo by (cases "y = z") auto
    moreover have "dom ?bs = dom (bufs s)" using zo by auto
    moreover have "\<forall>y. y \<notin> set (zs @ z # ys) \<longrightarrow> ?bs y = bufs s y" by simp
    ultimately show ?thesis
      using r snoc by (simp, intro exI [of _ l] exI [of _ ?bs]) simp
  qed
qed

end
