(* ===== verification/IocpInvariant.thy ===== *)
theory IocpInvariant
  imports IocpLists "HOL-Library.Sublist"
begin

text \<open>
  Who owns what.  A buffer is on the lookaside list, on the queue of pending sends, in flight, on the
  list of accepts of a listening socket, or in nobody's hands; a connection has exactly one buffer,
  which is waiting to be sent, being sent or being filled, and what has been sent on it followed by
  what is waiting is what has been received.
\<close>

section \<open>What has been received and sent on a connection\<close>

fun echo_step :: "dword \<Rightarrow> byte list \<times> byte list \<Rightarrow> net_event \<Rightarrow> byte list \<times> byte list" where
  "echo_step h (r, t) (Accepted h' bs) = (if h' = h then (bs, []) else (r, t))"
| "echo_step h (r, t) (Received h' bs) = (if h' = h then (r @ bs, t) else (r, t))"
| "echo_step h (r, t) (Sent h' bs) = (if h' = h then (r, t @ bs) else (r, t))"

definition echoed :: "net_event list \<Rightarrow> dword \<Rightarrow> byte list \<times> byte list" where
  "echoed es h = foldl (echo_step h) ([], []) es"

fun handle_of :: "net_event \<Rightarrow> dword" where
  "handle_of (Accepted h bs) = h"
| "handle_of (Received h bs) = h"
| "handle_of (Sent h bs) = h"

lemma echoed_snoc: "echoed (es @ [e]) h = echo_step h (echoed es h) e"
  by (simp add: echoed_def)

lemma echoed_other [simp]: "handle_of e \<noteq> h \<Longrightarrow> echoed (es @ [e]) h = echoed es h"
  by (cases "echoed es h"; cases e) (simp_all add: echoed_snoc)

section \<open>Objects apart from their links\<close>

definition core :: "BUFFER_OBJ \<Rightarrow> BUFFER_OBJ" where
  "core ob = ob\<lparr>b_next := None\<rparr>"

definition cores :: "(nat \<Rightarrow> BUFFER_OBJ option) \<Rightarrow> nat \<Rightarrow> BUFFER_OBJ option" where
  "cores bs b = map_option core (bs b)"

lemma core_fields [simp]:
  "sclient (core ob) = sclient ob" "buf (core ob) = buf ob" "buflen (core ob) = buflen ob"
  "operation (core ob) = operation ob" "sock (core ob) = sock ob" "core (b_next_update f ob) = core ob"
  by (simp_all add: core_def)

lemma cores_upd [simp]: "cores (bs(b \<mapsto> ob)) = (cores bs)(b \<mapsto> core ob)"
  by (auto simp: cores_def fun_eq_iff)

lemma cores_same [simp]: "bs b = Some ob \<Longrightarrow> (cores bs)(b \<mapsto> core ob) = cores bs"
  by (auto simp: cores_def fun_eq_iff)

lemma cores_at [simp]: "bs b = Some ob \<Longrightarrow> cores bs b = Some (core ob)"
  by (simp add: cores_def)

lemma cores_Some: "cores bs b = Some x \<longleftrightarrow> (\<exists>ob. bs b = Some ob \<and> x = core ob)"
  by (auto simp: cores_def)

section \<open>Buffers\<close>

definition buffers_inv :: "iocp \<Rightarrow> nat list \<Rightarrow> nat list \<Rightarrow> (nat \<Rightarrow> nat list) \<Rightarrow> nat set \<Rightarrow> bool" where
  "buffers_inv s P F A L \<longleftrightarrow>
     accept_addresses \<le> gBufferSize s \<and> distinct P \<and> distinct F \<and> (\<forall>l. distinct (A l)) \<and> distinct (map fst (inflight s)) \<and>
     set P \<inter> set F = {} \<and> (\<forall>l. set (A l) \<inter> (set P \<union> set F) = {}) \<and> (\<forall>l l'. l \<noteq> l' \<longrightarrow> set (A l) \<inter> set (A l') = {}) \<and>
     fst ` set (inflight s) \<inter> (set P \<union> set F) = {} \<and>
     linked (bnext (bufs s)) (gPendingSendList s) P \<and>
     gPendingSendListEnd s = (if P = [] then None else Some (last P)) \<and>
     linked (bnext (bufs s)) (gFreeBufferList s) F \<and>
     (\<forall>l\<in>L. \<exists>lo. lstns s l = Some lo \<and> linked (bnext (bufs s)) (PendingAccepts lo) (A l)) \<and>
     (\<forall>l. l \<notin> L \<longrightarrow> A l = []) \<and>
     (\<forall>b ob. bufs s b = Some ob \<longrightarrow> length (buf ob) = unat (gBufferSize s) \<and> b < heap_top s) \<and>
     (\<forall>b k. (b, k) \<in> set (inflight s) \<longrightarrow>
        (\<exists>ob. bufs s b = Some ob \<and> (operation ob \<noteq> OP_WRITE \<longrightarrow> buflen ob = gBufferSize s) \<and>
          (if operation ob = OP_ACCEPT then b \<in> set (A k) else \<forall>l. b \<notin> set (A l))))"

definition spare :: "iocp \<Rightarrow> nat list \<Rightarrow> nat list \<Rightarrow> (nat \<Rightarrow> nat list) \<Rightarrow> nat \<Rightarrow> bool" where
  "spare s P F A b \<longleftrightarrow> bufs s b \<noteq> None \<and> b \<notin> set P \<and> b \<notin> set F \<and> (\<forall>l. b \<notin> set (A l)) \<and> b \<notin> fst ` set (inflight s)"

lemma buffers_invD:
  assumes "buffers_inv s P F A L"
  shows "linked (bnext (bufs s)) (gPendingSendList s) P" "linked (bnext (bufs s)) (gFreeBufferList s) F"
    "gPendingSendListEnd s = (if P = [] then None else Some (last P))"
    "\<And>l. l \<in> L \<Longrightarrow> \<exists>lo. lstns s l = Some lo \<and> linked (bnext (bufs s)) (PendingAccepts lo) (A l)"
    "\<And>l. l \<notin> L \<Longrightarrow> A l = []"
    "\<And>b ob. bufs s b = Some ob \<Longrightarrow> length (buf ob) = unat (gBufferSize s)"
    "\<And>b. bufs s b \<noteq> None \<Longrightarrow> b < heap_top s"
    "\<And>b k. (b, k) \<in> set (inflight s) \<Longrightarrow>
       \<exists>ob. bufs s b = Some ob \<and> (operation ob \<noteq> OP_WRITE \<longrightarrow> buflen ob = gBufferSize s) \<and>
         (if operation ob = OP_ACCEPT then b \<in> set (A k) else \<forall>l. b \<notin> set (A l))"
    "distinct P" "distinct F" "\<And>l. distinct (A l)" "distinct (map fst (inflight s))"
    "set P \<inter> set F = {}" "\<And>l. set (A l) \<inter> (set P \<union> set F) = {}" "\<And>l l'. l \<noteq> l' \<Longrightarrow> set (A l) \<inter> set (A l') = {}"
    "fst ` set (inflight s) \<inter> (set P \<union> set F) = {}" "accept_addresses \<le> gBufferSize s"
  using assms unfolding buffers_inv_def by (elim conjE, (assumption | simp; fail | meson option.distinct(1) option.exhaust))+

lemma buffers_invI:
  assumes "linked (bnext (bufs s)) (gPendingSendList s) P" "linked (bnext (bufs s)) (gFreeBufferList s) F"
    "gPendingSendListEnd s = (if P = [] then None else Some (last P))"
    "\<And>l. l \<in> L \<Longrightarrow> \<exists>lo. lstns s l = Some lo \<and> linked (bnext (bufs s)) (PendingAccepts lo) (A l)"
    "\<And>l. l \<notin> L \<Longrightarrow> A l = []"
    "\<And>b ob. bufs s b = Some ob \<Longrightarrow> length (buf ob) = unat (gBufferSize s)"
    "\<And>b. bufs s b \<noteq> None \<Longrightarrow> b < heap_top s"
    "\<And>b k. (b, k) \<in> set (inflight s) \<Longrightarrow>
       \<exists>ob. bufs s b = Some ob \<and> (operation ob \<noteq> OP_WRITE \<longrightarrow> buflen ob = gBufferSize s) \<and>
         (if operation ob = OP_ACCEPT then b \<in> set (A k) else \<forall>l. b \<notin> set (A l))"
    "distinct P" "distinct F" "\<And>l. distinct (A l)" "distinct (map fst (inflight s))"
    "set P \<inter> set F = {}" "\<And>l. set (A l) \<inter> (set P \<union> set F) = {}" "\<And>l l'. l \<noteq> l' \<Longrightarrow> set (A l) \<inter> set (A l') = {}"
    "fst ` set (inflight s) \<inter> (set P \<union> set F) = {}" "accept_addresses \<le> gBufferSize s"
  shows "buffers_inv s P F A L"
  unfolding buffers_inv_def
  by (intro conjI allI ballI impI; ((rule assms; assumption) | (rule assms(7), simp)))

lemma bnext_present: "linked (bnext bs) p xs \<Longrightarrow> b \<in> set xs \<Longrightarrow> bs b \<noteq> None"
  by (drule (1) linked_present) (auto simp: bnext_def)

lemma owned_present:
  assumes I: "buffers_inv s P F A L" and b: "b \<in> set P \<union> set F \<union> (\<Union>l. set (A l)) \<union> fst ` set (inflight s)"
  shows "bufs s b \<noteq> None"
proof -
  note D = buffers_invD [OF I]
  consider "b \<in> set P" | "b \<in> set F" | l where "b \<in> set (A l)" | k where "(b, k) \<in> set (inflight s)" using b by auto
  then show ?thesis
  proof cases
    case 3
    have "l \<in> L" using 3 D(5) [of l] by (cases "l \<in> L") auto
    then obtain lo :: LISTEN_OBJ where "linked (bnext (bufs s)) (PendingAccepts lo) (A l)" using D(4) by blast
    then show ?thesis using bnext_present 3 by simp
  qed (use bnext_present [OF D(1)] bnext_present [OF D(2)] D(8) in blast)+
qed

text \<open>Changing a buffer nobody owns.\<close>

lemma buffers_spare:
  assumes I: "buffers_inv s P F A L" and b: "spare s P F A b" and n: "length (buf ob) = unat (gBufferSize s)"
  shows "buffers_inv (s\<lparr>bufs := (bufs s)(b \<mapsto> ob)\<rparr>) P F A L"
    "spare (s\<lparr>bufs := (bufs s)(b \<mapsto> ob)\<rparr>) P F A b' = spare s P F A b'"
proof -
  have d: "b \<in> dom (bufs s)" using b by (auto simp: spare_def)
  have "b < heap_top s" using I b by (auto simp: buffers_inv_def spare_def)
  then show "buffers_inv (s\<lparr>bufs := (bufs s)(b \<mapsto> ob)\<rparr>) P F A L"
    using I b n unfolding buffers_inv_def spare_def by (auto simp: image_iff)
  show "spare (s\<lparr>bufs := (bufs s)(b \<mapsto> ob)\<rparr>) P F A b' = spare s P F A b'"
    using d by (auto simp: spare_def)
qed

lemma FreeBufferObj_buffers:
  assumes I: "buffers_inv s P F A L" and b: "spare s P F A b"
  shows "\<exists>ob. FreeBufferObj b s = Some ((), s\<lparr>bufs := (bufs s)(b \<mapsto> ob), gFreeBufferList := Some b\<rparr>) \<and>
    buffers_inv (s\<lparr>bufs := (bufs s)(b \<mapsto> ob), gFreeBufferList := Some b\<rparr>) P (b # F) A L"
proof -
  let ?ob = "(zero_buffer (gBufferSize s))\<lparr>b_next := gFreeBufferList s\<rparr>"
  let ?t = "s\<lparr>bufs := (bufs s)(b \<mapsto> ?ob), gFreeBufferList := Some b\<rparr>"
  have n: "length (buf ?ob) = unat (gBufferSize s)" by (simp add: zero_buffer_def)
  have l: "linked (bnext (bufs s)) (gFreeBufferList s) F" using I by (simp add: buffers_inv_def)
  have "buffers_inv ?t P (b # F) A L"
    using buffers_spare(1) [OF I b n] b l unfolding buffers_inv_def spare_def by auto
  moreover have "FreeBufferObj b s = Some ((), ?t)"
    using b by (auto simp: FreeBufferObj_def upd_buf_def spare_def split: option.splits)
  ultimately show ?thesis by blast
qed

lemma GetBufferObj_buffers:
  assumes I: "buffers_inv s P F A L"
  shows "wp (GetBufferObj W (gBufferSize s) s) (\<lambda>r t.
    t = s\<lparr>bufs := bufs t, gFreeBufferList := gFreeBufferList t, heap_top := heap_top t, calls := calls t\<rparr> \<and>
    heap_top s \<le> heap_top t \<and>
    (case r of None \<Rightarrow> buffers_inv t P F A L \<and> cores (bufs t) = cores (bufs s)
     | Some b \<Rightarrow> \<exists>F' ob. buffers_inv t P F' A L \<and> spare t P F' A b \<and> (\<forall>b'. spare s P F A b' \<longrightarrow> b' \<noteq> b) \<and>
         bufs t = (bufs s)(b \<mapsto> ob) \<and> buflen ob = gBufferSize s \<and> b \<notin> set P \<and> b \<notin> fst ` set (inflight s)))"
proof (cases F)
  case Nil
  then have f: "gFreeBufferList s = None" using I by (simp add: buffers_inv_def)
  have new: "b < heap_top s" if "bufs s b \<noteq> None" for b using I that by (auto simp: buffers_inv_def)
  note owned = owned_present [OF I]
  have h: "heap_top s \<notin> set P \<union> set F \<union> (\<Union>l. set (A l)) \<union> fst ` set (inflight s)" using owned new by blast
  obtain err v where w: "W (calls s) Call_HeapAlloc = (err, v)" by fastforce
  show ?thesis
  proof (cases "err = 0")
    case False
    then have "GetBufferObj W (gBufferSize s) s = Some (None, s\<lparr>calls := Call_HeapAlloc # calls s\<rparr>)"
      using f w by (simp add: GetBufferObj_def ask_def)
    then show ?thesis using I by (simp add: buffers_inv_def)
  next
    case True
    let ?ob = "(zero_buffer (gBufferSize s))\<lparr>buflen := gBufferSize s, addrlen := sizeof_SOCKADDR_STORAGE\<rparr>"
    let ?t = "s\<lparr>bufs := (bufs s)(heap_top s \<mapsto> ?ob), heap_top := heap_top s + 1, calls := Call_HeapAlloc # calls s\<rparr>"
    have "GetBufferObj W (gBufferSize s) s = Some (Some (heap_top s), ?t)"
      using f w True by (simp add: GetBufferObj_def ask_def upd_buf_def)
    moreover have "buffers_inv ?t P F A L"
      using I h new unfolding buffers_inv_def
      by (auto simp: zero_buffer_def image_iff less_Suc_eq)
    moreover have "spare ?t P F A (heap_top s)" using h by (auto simp: spare_def)
    moreover have "\<forall>b'. spare s P F A b' \<longrightarrow> b' \<noteq> heap_top s" using new by (auto simp: spare_def)
    ultimately show ?thesis using h by (simp, intro exI [of _ F]) auto
  qed
next
  case (Cons b F')
  then obtain ob where ob: "bufs s b = Some ob" "gFreeBufferList s = Some b" "linked (bnext (bufs s)) (b_next ob) F'"
    using I by (auto simp: buffers_inv_def bnext_def split: option.splits)
  let ?ob = "ob\<lparr>b_next := None, buflen := gBufferSize s, addrlen := sizeof_SOCKADDR_STORAGE\<rparr>"
  let ?t = "s\<lparr>gFreeBufferList := b_next ob, bufs := (bufs s)(b \<mapsto> ?ob)\<rparr>"
  let ?s = "s\<lparr>gFreeBufferList := b_next ob\<rparr>"
  have "GetBufferObj W (gBufferSize s) s = Some (Some b, ?t)"
    using ob by (simp add: GetBufferObj_def upd_buf_def)
  moreover have i: "buffers_inv ?s P F' A L" using I ob unfolding buffers_inv_def Cons by auto
  have sp: "spare ?s P F' A b" using I ob unfolding buffers_inv_def spare_def Cons by auto
  have n: "length (buf ?ob) = unat (gBufferSize ?s)" using I ob by (simp add: buffers_inv_def)
  have "buffers_inv ?t P F' A L" using buffers_spare(1) [OF i sp n] by simp
  moreover have "spare ?t P F' A b" using buffers_spare(2) [OF i sp n] sp by simp
  moreover have "b \<notin> set P" "b \<notin> fst ` set (inflight s)" "\<forall>b'. spare s P F A b' \<longrightarrow> b' \<noteq> b"
    using sp Cons by (auto simp: spare_def)
  ultimately show ?thesis by (simp, intro exI [of _ F']) auto
qed

section \<open>Connections\<close>

text \<open>Connection \<open>k\<close> has the buffer \<open>b\<close>: it waits to be sent, or an operation with it is in flight.\<close>

definition waiting :: "iocp \<Rightarrow> nat list \<Rightarrow> nat \<Rightarrow> nat \<Rightarrow> bool" where
  "waiting s P k b \<longleftrightarrow> b \<in> set P \<and> (\<exists>ob. cores (bufs s) b = Some ob \<and> sock ob = Some k)"

definition flying :: "iocp \<Rightarrow> nat \<Rightarrow> nat \<Rightarrow> bool" where
  "flying s k b \<longleftrightarrow> (b, k) \<in> set (inflight s) \<and> (\<exists>ob. cores (bufs s) b = Some ob \<and> operation ob \<noteq> OP_ACCEPT)"

definition conn :: "iocp \<Rightarrow> nat list \<Rightarrow> nat \<Rightarrow> nat \<Rightarrow> bool" where
  "conn s P k b \<longleftrightarrow> waiting s P k b \<or> flying s k b"

text \<open>The handle of a client that \<open>b\<close> answers for: of its connection, or of the accept in flight.\<close>

definition accepting :: "iocp \<Rightarrow> nat \<Rightarrow> dword \<Rightarrow> bool" where
  "accepting s b h \<longleftrightarrow> (\<exists>l ob. (b, l) \<in> set (inflight s) \<and> cores (bufs s) b = Some ob \<and> operation ob = OP_ACCEPT \<and> sclient ob = h)"

definition answers_for :: "iocp \<Rightarrow> nat list \<Rightarrow> nat \<Rightarrow> dword \<Rightarrow> bool" where
  "answers_for s P b h \<longleftrightarrow> (\<exists>k c. conn s P k b \<and> socks s k = Some c \<and> s_handle c = h) \<or> accepting s b h"

definition listening :: "iocp \<Rightarrow> nat set \<Rightarrow> dword \<Rightarrow> bool" where
  "listening s L h \<longleftrightarrow> (\<exists>l\<in>L. \<exists>lo. lstns s l = Some lo \<and> l_handle lo = h)"

text \<open>What holds of a connection whose buffer waits (\<open>q\<close>), or is in flight.\<close>

definition conn_ok :: "iocp \<Rightarrow> bool \<Rightarrow> nat \<Rightarrow> nat \<Rightarrow> bool" where
  "conn_ok s q k b \<longleftrightarrow> (\<exists>c ob. socks s k = Some c \<and> cores (bufs s) b = Some ob \<and> assoc s (s_handle c) = Some k \<and> \<not> bClosing c \<and>
     (if q then OutstandingRecv c = 0 \<and> OutstandingSend c = 0 \<and> PendingSend c = 1 \<and> unat (buflen ob) \<le> length (buf ob) \<and>
        fst (echoed (net s) (s_handle c)) = snd (echoed (net s) (s_handle c)) @ take (unat (buflen ob)) (buf ob)
      else OutstandingRecv c = (if operation ob = OP_READ then 1 else 0) \<and>
        OutstandingSend c = (if operation ob = OP_WRITE then 1 else 0) \<and> PendingSend c = 0 \<and>
        fst (echoed (net s) (s_handle c)) = snd (echoed (net s) (s_handle c))))"

definition conns_inv :: "iocp \<Rightarrow> nat list \<Rightarrow> nat list \<Rightarrow> nat set \<Rightarrow> bool" where
  "conns_inv s P G L \<longleftrightarrow>
     (\<forall>k b. conn s P k b \<longrightarrow> k \<notin> set G \<and> conn_ok s (b \<in> set P) k b) \<and>
     (\<forall>k b b'. conn s P k b \<longrightarrow> conn s P k b' \<longrightarrow> b = b') \<and>
     (\<forall>b b' h. answers_for s P b h \<longrightarrow> answers_for s P b' h \<longrightarrow> b = b') \<and>
     (\<forall>b h. answers_for s P b h \<longrightarrow> h \<in> opened s \<and> h \<noteq> INVALID_SOCKET \<and> \<not> listening s L h) \<and>
     (\<forall>b\<in>set P. \<exists>k. waiting s P k b) \<and>
     (\<forall>l\<in>L. \<exists>lo. lstns s l = Some lo \<and> l_handle lo \<in> opened s \<and> l_handle lo \<noteq> INVALID_SOCKET \<and>
        assoc s (l_handle lo) = Some l \<and> l < heap_top s) \<and>
     linked (snext (socks s)) (gFreeSocketList s) G \<and> distinct G \<and>
     (\<forall>k\<in>set G. \<exists>c. socks s k = Some c \<and> c = zero_socket\<lparr>s_next := s_next c\<rparr>) \<and>
     (\<forall>k. socks s k \<noteq> None \<longrightarrow> k < heap_top s)"

lemma conns_invD:
  assumes "conns_inv s P G L"
  shows "\<And>k b. conn s P k b \<Longrightarrow> k \<notin> set G" "\<And>k b. conn s P k b \<Longrightarrow> conn_ok s (b \<in> set P) k b"
    "\<And>k b b'. conn s P k b \<Longrightarrow> conn s P k b' \<Longrightarrow> b = b'"
    "\<And>b b' h. answers_for s P b h \<Longrightarrow> answers_for s P b' h \<Longrightarrow> b = b'"
    "\<And>b h. answers_for s P b h \<Longrightarrow> h \<in> opened s" "\<And>b h. answers_for s P b h \<Longrightarrow> h \<noteq> INVALID_SOCKET"
    "\<And>b h. answers_for s P b h \<Longrightarrow> \<not> listening s L h"
    "\<And>b. b \<in> set P \<Longrightarrow> \<exists>k. waiting s P k b"
    "\<And>l. l \<in> L \<Longrightarrow> \<exists>lo. lstns s l = Some lo \<and> l_handle lo \<in> opened s \<and> l_handle lo \<noteq> INVALID_SOCKET \<and>
        assoc s (l_handle lo) = Some l \<and> l < heap_top s"
    "linked (snext (socks s)) (gFreeSocketList s) G" "distinct G"
    "\<And>k. k \<in> set G \<Longrightarrow> \<exists>c. socks s k = Some c \<and> c = zero_socket\<lparr>s_next := s_next c\<rparr>"
    "\<And>k. socks s k \<noteq> None \<Longrightarrow> k < heap_top s"
  using assms unfolding conns_inv_def by (elim conjE, (assumption | simp; fail | meson))+

lemma conns_invI:
  assumes "\<And>k b. conn s P k b \<Longrightarrow> k \<notin> set G" "\<And>k b. conn s P k b \<Longrightarrow> conn_ok s (b \<in> set P) k b"
    "\<And>k b b'. conn s P k b \<Longrightarrow> conn s P k b' \<Longrightarrow> b = b'"
    "\<And>b b' h. answers_for s P b h \<Longrightarrow> answers_for s P b' h \<Longrightarrow> b = b'"
    "\<And>b h. answers_for s P b h \<Longrightarrow> h \<in> opened s" "\<And>b h. answers_for s P b h \<Longrightarrow> h \<noteq> INVALID_SOCKET"
    "\<And>b h. answers_for s P b h \<Longrightarrow> \<not> listening s L h"
    "\<And>b. b \<in> set P \<Longrightarrow> \<exists>k. waiting s P k b"
    "\<And>l. l \<in> L \<Longrightarrow> \<exists>lo. lstns s l = Some lo \<and> l_handle lo \<in> opened s \<and> l_handle lo \<noteq> INVALID_SOCKET \<and>
        assoc s (l_handle lo) = Some l \<and> l < heap_top s"
    "linked (snext (socks s)) (gFreeSocketList s) G" "distinct G"
    "\<And>k. k \<in> set G \<Longrightarrow> \<exists>c. socks s k = Some c \<and> c = zero_socket\<lparr>s_next := s_next c\<rparr>"
    "\<And>k. socks s k \<noteq> None \<Longrightarrow> k < heap_top s"
  shows "conns_inv s P G L"
  unfolding conns_inv_def by (intro conjI allI ballI impI; rule assms; assumption)

text \<open>A connection that has no buffer at the moment, and a handle nobody answers for.\<close>

definition free_handle :: "iocp \<Rightarrow> nat list \<Rightarrow> nat set \<Rightarrow> dword \<Rightarrow> bool" where
  "free_handle s P L h \<longleftrightarrow> h \<in> opened s \<and> h \<noteq> INVALID_SOCKET \<and> \<not> listening s L h \<and> (\<forall>b. \<not> answers_for s P b h)"

definition idle :: "iocp \<Rightarrow> nat list \<Rightarrow> nat list \<Rightarrow> nat set \<Rightarrow> nat \<Rightarrow> SOCKET_OBJ \<Rightarrow> bool" where
  "idle s P G L k c \<longleftrightarrow> socks s k = Some c \<and> k \<notin> set G \<and> (\<forall>b. \<not> conn s P k b) \<and> assoc s (s_handle c) = Some k \<and> free_handle s P L (s_handle c)"

definition at_rest :: "SOCKET_OBJ \<Rightarrow> bool" where
  "at_rest c \<longleftrightarrow> OutstandingRecv c = 0 \<and> OutstandingSend c = 0 \<and> PendingSend c = 0"

section \<open>Sends\<close>

definition writes :: "iocp \<Rightarrow> (nat \<times> nat) list" where
  "writes s = filter (\<lambda>(b, k). case cores (bufs s) b of None \<Rightarrow> False | Some ob \<Rightarrow> operation ob = OP_WRITE) (inflight s)"

definition sends_inv :: "iocp \<Rightarrow> bool" where
  "sends_inv s \<longleftrightarrow> int (length (writes s)) \<le> gOutstandingSends s \<and> gOutstandingSends s \<le> max 0 (gMaxSends s)"

text \<open>What has been sent on a handle is what was received first.\<close>

definition echoing :: "iocp \<Rightarrow> bool" where
  "echoing s \<longleftrightarrow> (\<forall>h. prefix (snd (echoed (net s) h)) (fst (echoed (net s) h)))"

definition iocp_inv :: "iocp \<Rightarrow> nat list \<Rightarrow> nat list \<Rightarrow> nat list \<Rightarrow> (nat \<Rightarrow> nat list) \<Rightarrow> nat set \<Rightarrow> bool" where
  "iocp_inv s P F G A L \<longleftrightarrow> buffers_inv s P F A L \<and> conns_inv s P G L \<and> sends_inv s \<and> echoing s"

lemmas conn_defs = conn_def waiting_def flying_def answers_for_def accepting_def listening_def conn_ok_def free_handle_def idle_def

text \<open>Only the links of buffers have changed.\<close>

lemma relinked:
  assumes "cores bs = cores (bufs s)"
  shows "conns_inv (s\<lparr>bufs := bs\<rparr>) P G L = conns_inv s P G L" "sends_inv (s\<lparr>bufs := bs\<rparr>) = sends_inv s"
    "idle (s\<lparr>bufs := bs\<rparr>) P G L k c = idle s P G L k c" "free_handle (s\<lparr>bufs := bs\<rparr>) P L h = free_handle s P L h"
  using assms by (simp_all add: conns_inv_def conn_defs sends_inv_def writes_def)

text \<open>What does not touch connections.\<close>

definition untouched :: "iocp \<Rightarrow> iocp \<Rightarrow> bool" where
  "untouched s t \<longleftrightarrow> bufs t = bufs s \<and> socks t = socks s \<and> lstns t = lstns s \<and> heap_top s \<le> heap_top t \<and>
     gFreeSocketList t = gFreeSocketList s \<and> opened t = opened s \<and> assoc t = assoc s \<and> inflight t = inflight s \<and>
     net t = net s \<and> gOutstandingSends t = gOutstandingSends s \<and> gMaxSends t = gMaxSends s"

lemma untouched:
  assumes e: "untouched s t"
  shows "conns_inv s P G L \<Longrightarrow> conns_inv t P G L" "sends_inv s \<Longrightarrow> sends_inv t"
    "idle t P G L k c = idle s P G L k c" "free_handle t P L h = free_handle s P L h" "conn t P k b = conn s P k b"
    "answers_for t P b h = answers_for s P b h" "listening t L h = listening s L h"
proof -
  show 1: "idle t P G L k c = idle s P G L k c" "free_handle t P L h = free_handle s P L h" "conn t P k b = conn s P k b" for k b
    using e by (simp_all add: conn_defs untouched_def)
  show 2: "answers_for t P b h = answers_for s P b h" "listening t L h = listening s L h" for b h
    using e by (simp_all add: conn_defs untouched_def)
  have 3: "conn_ok t q k b = conn_ok s q k b" "waiting t P k b = waiting s P k b" for q k b
    using e by (simp_all add: conn_defs untouched_def)
  have "heap_top s \<le> heap_top t" using e by (simp add: untouched_def)
  then have lt: "k < heap_top s \<Longrightarrow> k < heap_top t" for k by simp
  assume "conns_inv s P G L"
  then show "conns_inv t P G L"
    unfolding conns_inv_def 1(3) 2 3 using e lt by (auto simp: untouched_def)
next
  assume "sends_inv s"
  then show "sends_inv t" using e by (simp add: sends_inv_def writes_def untouched_def)
qed

text \<open>Changing a buffer no connection has.\<close>

lemma conns_spare:
  assumes "b \<notin> set P" "b \<notin> fst ` set (inflight s)"
  shows "conns_inv (s\<lparr>bufs := (bufs s)(b \<mapsto> ob)\<rparr>) P G L = conns_inv s P G L"
    "sends_inv (s\<lparr>bufs := (bufs s)(b \<mapsto> ob)\<rparr>) = sends_inv s"
    "idle (s\<lparr>bufs := (bufs s)(b \<mapsto> ob)\<rparr>) P G L k c = idle s P G L k c"
    "free_handle (s\<lparr>bufs := (bufs s)(b \<mapsto> ob)\<rparr>) P L h = free_handle s P L h"
proof -
  let ?t = "s\<lparr>bufs := (bufs s)(b \<mapsto> ob)\<rparr>"
  have nb: "(b, l) \<notin> set (inflight s)" for l using assms(2) by force
  have w: "waiting ?t P k b' = waiting s P k b'" for k b' using assms(1) by (auto simp: waiting_def)
  have f: "flying ?t k b' = flying s k b'" for k b' using nb by (auto simp: flying_def)
  have c: "conn ?t P k b' = conn s P k b'" for k b' by (simp add: conn_def w f)
  have a: "accepting ?t b' h = accepting s b' h" for b' h using nb by (auto simp: accepting_def)
  have cl: "answers_for ?t P b' h = answers_for s P b' h" for b' h by (simp add: answers_for_def c a)
  have li: "listening ?t L h = listening s L h" for h by (simp add: listening_def)
  have k: "conn_ok ?t q k b' = conn_ok s q k b'" if "conn s P k b'" for q k b'
  proof -
    have "b' \<noteq> b" using that assms(1) nb by (auto simp: conn_def waiting_def flying_def)
    then show ?thesis by (simp add: conn_ok_def)
  qed
  show "conns_inv ?t P G L = conns_inv s P G L" unfolding conns_inv_def c cl li w using k by (simp cong: conj_cong imp_cong)
  have wr: "writes ?t = writes s" unfolding writes_def by (rule filter_cong) (use nb in \<open>auto split: if_splits\<close>)
  show "sends_inv ?t = sends_inv s" by (simp add: sends_inv_def wr)
  show fh: "free_handle ?t P L h = free_handle s P L h" for h by (simp add: free_handle_def cl li)
  show "idle ?t P G L k c = idle s P G L k c" for k c unfolding idle_def c fh by simp
qed

end
