(* ===== verification/IocpTokens.thy ===== *)
theory IocpTokens
  imports IocpInvariant
begin

text \<open>
  Giving a connection a buffer and taking it away: the buffer is put on the queue or in flight, or is
  taken from there.
\<close>

section \<open>A connection without a buffer\<close>

lemma idleD:
  assumes "idle s P G L k c"
  shows "socks s k = Some c" "k \<notin> set G" "\<And>b. \<not> conn s P k b" "assoc s (s_handle c) = Some k" "s_handle c \<in> opened s"
    "s_handle c \<noteq> INVALID_SOCKET" "\<not> listening s L (s_handle c)" "\<And>b. \<not> answers_for s P b (s_handle c)"
  using assms by (auto simp: idle_def free_handle_def)

lemma linked_socket_upd:
  "linked (snext cs) p G \<Longrightarrow> k \<notin> set G \<Longrightarrow> linked (snext (cs(k \<mapsto> c))) p G"
  by simp

text \<open>Who answers for a handle, when one connection changes or gets a buffer.\<close>

lemma client_conns:
  assumes c: "\<And>k' b. conn t P' k' b \<longleftrightarrow> conn s P k' b \<or> new \<and> k' = k \<and> b = b0"
    and a: "\<And>b h. accepting t b h = accepting s b h" and n: "\<And>b. \<not> conn s P k b"
    and k: "socks t k = Some c'" and o: "\<And>k'. k' \<noteq> k \<Longrightarrow> socks t k' = socks s k'"
  shows "answers_for t P' b h \<longleftrightarrow> answers_for s P b h \<or> new \<and> b = b0 \<and> h = s_handle c'"
proof
  assume "answers_for t P' b h"
  then consider "accepting s b h" | k' c where "conn t P' k' b" "socks t k' = Some c" "s_handle c = h"
    unfolding answers_for_def a by blast
  then show "answers_for s P b h \<or> new \<and> b = b0 \<and> h = s_handle c'"
  proof cases
    case 2
    then consider "conn s P k' b" | "new" "k' = k" "b = b0" unfolding c by blast
    then show ?thesis
    proof cases
      case 1
      then have "k' \<noteq> k" using n by blast
      then show ?thesis using 1 2 o unfolding answers_for_def by auto
    qed (use 2 k in auto)
  qed (auto simp: answers_for_def)
next
  assume "answers_for s P b h \<or> new \<and> b = b0 \<and> h = s_handle c'"
  then consider "accepting s b h" | k' c where "conn s P k' b" "socks s k' = Some c" "s_handle c = h" | "new \<and> b = b0 \<and> h = s_handle c'"
    unfolding answers_for_def by blast
  then show "answers_for t P' b h"
  proof cases
    case 2
    then have "k' \<noteq> k" using n by blast
    then have "conn t P' k' b" "socks t k' = Some c" using 2 o c by auto
    then show ?thesis using 2(3) unfolding answers_for_def by blast
  next
    case 3
    then have "conn t P' k b" using c by blast
    then show ?thesis using k 3 unfolding answers_for_def by blast
  qed (auto simp: answers_for_def a)
qed

lemma conn_ok_cong:
  assumes "socks t k = socks s k" "cores (bufs t) b = cores (bufs s) b"
    and "\<And>c. socks s k = Some c \<Longrightarrow> assoc t (s_handle c) = assoc s (s_handle c) \<and>
      echoed (net t) (s_handle c) = echoed (net s) (s_handle c)"
  shows "conn_ok t q k b = conn_ok s q k b"
  unfolding conn_ok_def assms(1,2) using assms(3) by (cases "socks s k") auto

lemma same_listening: "lstns t = lstns s \<Longrightarrow> listening t L h = listening s L h"
  by (simp add: listening_def)

text \<open>
  What is to be shown when the connection \<open>k\<close>, which has no buffer, changes, and when it is given the
  buffer \<open>b\<close>, which nobody has.
\<close>

lemma conns_step:
  assumes I: "conns_inv s P G L" and i: "idle s P G L k c"
    and conn: "\<And>k' b'. conn t P' k' b' \<longleftrightarrow> conn s P k' b' \<or> new \<and> k' = k \<and> b' = b"
    and acc: "\<And>b h. accepting t b h = accepting s b h"
    and sk: "socks t = (socks s)(k \<mapsto> c')" "s_handle c' = s_handle c"
    and same: "lstns t = lstns s" "heap_top t = heap_top s" "opened t = opened s" "assoc t = assoc s"
      "gFreeSocketList t = gFreeSocketList s"
    and wait: "\<And>b. b \<in> set P' \<Longrightarrow> \<exists>k. waiting t P' k b"
    and old: "\<And>k' b'. conn s P k' b' \<Longrightarrow> k' \<noteq> k \<Longrightarrow> conn_ok t (b' \<in> set P') k' b'"
    and fresh: "new \<Longrightarrow> conn_ok t (b \<in> set P') k b \<and> (\<forall>h. \<not> answers_for s P b h) \<and> (\<forall>k. \<not> conn s P k b)"
  shows "conns_inv t P' G L" "k' \<noteq> k \<Longrightarrow> idle s P G L k' d \<Longrightarrow> idle t P' G L k' d"
    "\<not> new \<Longrightarrow> idle t P' G L k c'"
proof -
  note D = conns_invD [OF I] and E = idleD [OF i]
  have k': "conn s P k' b' \<Longrightarrow> k' \<noteq> k" for k' b' using E(3) by blast
  have cl: "answers_for t P' b' h \<longleftrightarrow> answers_for s P b' h \<or> new \<and> b' = b \<and> h = s_handle c" for b' h
    using client_conns [of t P' s P new k b c' b' h] conn acc E(3) sk by simp
  have li: "listening t L h = listening s L h" for h by (rule same_listening [OF same(1)])
  have G: "g \<in> set G \<Longrightarrow> g \<noteq> k" for g using E(2) by blast
  show "conns_inv t P' G L"
  proof (rule conns_invI)
    fix k' b' assume "conn t P' k' b'"
    then consider "conn s P k' b'" | "new" "k' = k" "b' = b" using conn by blast
    then show "k' \<notin> set G" using D(1) E(2) by cases auto
  next
    fix k' b' assume "conn t P' k' b'"
    then consider "conn s P k' b'" | "new" "k' = k" "b' = b" using conn by blast
    then show "conn_ok t (b' \<in> set P') k' b'" using old [OF _ k'] fresh by cases auto
  next
    fix k' b1 b2 assume "conn t P' k' b1" "conn t P' k' b2"
    then show "b1 = b2" unfolding conn using D(3) E(3) by blast
  next
    fix b1 b2 h assume "answers_for t P' b1 h" "answers_for t P' b2 h"
    then show "b1 = b2" unfolding cl using D(4) E(8) by blast
  next
    fix b' h assume "answers_for t P' b' h"
    then have b': "answers_for s P b' h \<or> h = s_handle c" unfolding cl by blast
    show "h \<in> opened t" using b' D(5) E(5) unfolding same(3) by blast
    show "h \<noteq> INVALID_SOCKET" using b' D(6) E(6) by auto
    show "\<not> listening t L h" using b' D(7) E(7) unfolding li by auto
  next
    fix g assume "g \<in> set G"
    then show "\<exists>c. socks t g = Some c \<and> c = zero_socket\<lparr>s_next := s_next c\<rparr>" using D(12) G sk(1) by simp
  next
    fix k assume "socks t k \<noteq> None"
    then show "k < heap_top t" using D(13) E(1) sk(1) same(2) by (auto split: if_splits)
  next
    show "linked (snext (socks t)) (gFreeSocketList t) G" using D(10) E(2) sk(1) same(5) by simp
    show "\<And>l. l \<in> L \<Longrightarrow> \<exists>lo. lstns t l = Some lo \<and> l_handle lo \<in> opened t \<and> l_handle lo \<noteq> INVALID_SOCKET \<and>
        assoc t (l_handle lo) = Some l \<and> l < heap_top t" using D(9) by (simp add: same)
  qed (use D(11) wait in blast)+
  have fr: "free_handle s P L h \<Longrightarrow> h \<noteq> s_handle c \<or> \<not> new \<Longrightarrow> free_handle t P' L h" for h
    unfolding free_handle_def cl li same(3) by blast
  show "k' \<noteq> k \<Longrightarrow> idle s P G L k' d \<Longrightarrow> idle t P' G L k' d"
  proof -
    assume n: "k' \<noteq> k" and i': "idle s P G L k' d"
    have "s_handle d \<noteq> s_handle c" using idleD(4) [OF i'] E(4) n by auto
    then show ?thesis using i' n fr [of "s_handle d"] unfolding idle_def conn sk(1) same(4) by simp
  qed
  show "\<not> new \<Longrightarrow> idle t P' G L k c'"
    using i fr [of "s_handle c"] sk unfolding idle_def conn same(4) by simp
qed

text \<open>Its counters may change.\<close>

lemma idle_upd:
  assumes I: "conns_inv s P G L" and i: "idle s P G L k c" and h: "s_handle c' = s_handle c"
  shows "conns_inv (s\<lparr>socks := (socks s)(k \<mapsto> c')\<rparr>) P G L" "idle (s\<lparr>socks := (socks s)(k \<mapsto> c')\<rparr>) P G L k c'"
    "k' \<noteq> k \<Longrightarrow> idle s P G L k' d \<Longrightarrow> idle (s\<lparr>socks := (socks s)(k \<mapsto> c')\<rparr>) P G L k' d"
proof -
  let ?t = "s\<lparr>socks := (socks s)(k \<mapsto> c')\<rparr>"
  note D = conns_invD [OF I]
  have c: "conn ?t P k' b' = conn s P k' b'" "accepting ?t b' h = accepting s b' h" for k' b' h by (simp_all add: conn_defs)
  have ok: "conn_ok ?t (b' \<in> set P) k' b'" if "conn s P k' b'" "k' \<noteq> k" for k' b'
    using D(2) [OF that(1)] conn_ok_cong [of ?t k' s b'] that(2) by simp
  have w: "\<exists>k. waiting ?t P k b'" if "b' \<in> set P" for b' using D(8) [OF that] by (simp add: waiting_def)
  note step = conns_step [OF I i, where t = ?t and P' = P and new = False and b = 0 and c' = c']
  show "conns_inv ?t P G L" by (rule step(1)) (simp_all add: c ok w h)
  show "idle ?t P G L k c'" by (rule step(3)) (simp_all add: c ok w h)
  show "k' \<noteq> k \<Longrightarrow> idle s P G L k' d \<Longrightarrow> idle ?t P G L k' d" by (rule step(2)) (simp_all add: c ok w h)
qed

section \<open>Waiting to be sent\<close>

lemma nobody:
  assumes "b \<notin> set P" "b \<notin> fst ` set (inflight s)"
  shows "\<not> conn s P k b" "\<not> answers_for s P b h"
proof -
  have nb: "(b, l) \<notin> set (inflight s)" for l using assms(2) by force
  show c: "\<not> conn s P k b" for k using assms(1) nb by (auto simp: conn_def waiting_def flying_def)
  show "\<not> answers_for s P b h" using c nb by (auto simp: answers_for_def accepting_def)
qed

lemma add_waiting:
  assumes I: "conns_inv s P G L" and i: "idle s P G L k c" and b: "b \<notin> set P" "b \<notin> fst ` set (inflight s)"
    and ob: "cores (bufs s) b = Some ob" "sock ob = Some k" "unat (buflen ob) \<le> length (buf ob)"
    and c': "s_handle c' = s_handle c" "OutstandingRecv c' = 0" "OutstandingSend c' = 0" "PendingSend c' = 1" "\<not> bClosing c'"
    and e: "fst (echoed (net s) (s_handle c)) = snd (echoed (net s) (s_handle c)) @ take (unat (buflen ob)) (buf ob)"
  shows "conns_inv (s\<lparr>socks := (socks s)(k \<mapsto> c')\<rparr>) (P @ [b]) G L"
    "k' \<noteq> k \<Longrightarrow> idle s P G L k' d \<Longrightarrow> idle (s\<lparr>socks := (socks s)(k \<mapsto> c')\<rparr>) (P @ [b]) G L k' d"
proof -
  let ?t = "s\<lparr>socks := (socks s)(k \<mapsto> c')\<rparr>"
  note D = conns_invD [OF I] and E = idleD [OF i]
  have w: "waiting ?t (P @ [b]) k' b' \<longleftrightarrow> waiting s P k' b' \<or> k' = k \<and> b' = b" for k' b' using ob by (auto simp: waiting_def)
  have f: "flying ?t k' b' = flying s k' b'" for k' b' by (simp add: flying_def)
  have c: "conn ?t (P @ [b]) k' b' \<longleftrightarrow> conn s P k' b' \<or> True \<and> k' = k \<and> b' = b" for k' b'
    unfolding conn_def w f by blast
  have a: "accepting ?t b' h = accepting s b' h" for b' h by (simp add: accepting_def)
  have ok: "conn_ok ?t (b' \<in> set (P @ [b])) k' b'" if "conn s P k' b'" "k' \<noteq> k" for k' b'
  proof -
    have "b' \<noteq> b" using that(1) nobody(1) [OF b] by blast
    then show ?thesis using D(2) [OF that(1)] conn_ok_cong [of ?t k' s b'] that(2) by simp
  qed
  have "conn_ok ?t (b \<in> set (P @ [b])) k b" using ob c' e E(4) by (simp add: conn_ok_def)
  then have new: "conn_ok ?t (b \<in> set (P @ [b])) k b \<and> (\<forall>h. \<not> answers_for s P b h) \<and> (\<forall>k. \<not> conn s P k b)"
    using nobody [OF b] by blast
  have wt: "\<exists>k. waiting ?t (P @ [b]) k b'" if "b' \<in> set (P @ [b])" for b'
  proof (cases "b' = b")
    case False
    then have "b' \<in> set P" using that by simp
    then show ?thesis using D(8) unfolding w by blast
  qed (auto simp: w)
  note step = conns_step [OF I i c a, where c' = c', OF _ c'(1) _ _ _ _ _ wt ok new]
  show "conns_inv ?t (P @ [b]) G L" by (rule step(1)) simp_all
  show "k' \<noteq> k \<Longrightarrow> idle s P G L k' d \<Longrightarrow> idle ?t (P @ [b]) G L k' d" by (rule step(2)) simp_all
qed

section \<open>In flight\<close>

text \<open>A receive or a send that has been posted; a send adds to what was sent on the connection.\<close>

lemma add_flying:
  fixes n g cs
  assumes I: "conns_inv s P G L" and i: "idle s P G L k c" and b: "b \<notin> set P" "b \<notin> fst ` set (inflight s)"
    and ob: "cores (bufs s) b = Some ob" "operation ob \<noteq> OP_ACCEPT"
    and c': "s_handle c' = s_handle c" "OutstandingRecv c' = (if operation ob = OP_READ then 1 else 0)"
      "OutstandingSend c' = (if operation ob = OP_WRITE then 1 else 0)" "PendingSend c' = 0" "\<not> bClosing c'"
    and e: "fst (echoed n (s_handle c)) = snd (echoed n (s_handle c))"
      "\<And>h. s_handle c \<noteq> h \<Longrightarrow> echoed n h = echoed (net s) h"
  defines "t \<equiv> s\<lparr>socks := (socks s)(k \<mapsto> c'), inflight := inflight s @ [(b, k)], net := n, gOutstandingSends := g, calls := cs\<rparr>"
  shows "conns_inv t P G L" "k' \<noteq> k \<Longrightarrow> idle s P G L k' d \<Longrightarrow> idle t P G L k' d"
proof -
  note D = conns_invD [OF I] and E = idleD [OF i]
  have w: "waiting t P k' b' = waiting s P k' b'" for k' b' by (simp add: waiting_def t_def)
  have f: "flying t k' b' \<longleftrightarrow> flying s k' b' \<or> k' = k \<and> b' = b" for k' b' using ob by (auto simp: flying_def t_def)
  have c: "conn t P k' b' \<longleftrightarrow> conn s P k' b' \<or> True \<and> k' = k \<and> b' = b" for k' b' unfolding conn_def w f by blast
  have a: "accepting t b' h = accepting s b' h" for b' h using ob by (auto simp: accepting_def t_def)
  have ok: "conn_ok t (b' \<in> set P) k' b'" if "conn s P k' b'" "k' \<noteq> k" for k' b'
  proof -
    have o: "conn_ok s (b' \<in> set P) k' b'" by (rule D(2) [OF that(1)])
    have "conn_ok t (b' \<in> set P) k' b' = conn_ok s (b' \<in> set P) k' b'"
    proof (rule conn_ok_cong)
      fix d assume "socks s k' = Some d"
      then have "assoc s (s_handle d) = Some k'" using o by (auto simp: conn_ok_def)
      then have "s_handle c \<noteq> s_handle d" using E(4) that(2) by auto
      then show "assoc t (s_handle d) = assoc s (s_handle d) \<and> echoed (net t) (s_handle d) = echoed (net s) (s_handle d)"
        using e(2) by (simp add: t_def)
    qed (use that(2) in \<open>simp_all add: t_def\<close>)
    then show ?thesis using o by simp
  qed
  have "conn_ok t (b \<in> set P) k b" using ob b c' e E(4) by (simp add: conn_ok_def t_def)
  then have new: "conn_ok t (b \<in> set P) k b \<and> (\<forall>h. \<not> answers_for s P b h) \<and> (\<forall>k. \<not> conn s P k b)"
    using nobody [OF b] by blast
  have wt: "\<exists>k. waiting t P k b'" if "b' \<in> set P" for b' using D(8) [OF that] unfolding w .
  note step = conns_step [OF I i c a, where c' = c', OF _ c'(1) _ _ _ _ _ wt ok new]
  show "conns_inv t P G L" by (rule step(1)) (simp_all add: t_def)
  show "k' \<noteq> k \<Longrightarrow> idle s P G L k' d \<Longrightarrow> idle t P G L k' d" by (rule step(2)) (simp_all add: t_def)
qed

section \<open>Taking a buffer away\<close>

text \<open>The buffer \<open>b\<close> leaves the queue, or its operation is no longer in flight.\<close>

lemma conns_drop:
  fixes s :: iocp and fl
  defines "t \<equiv> s\<lparr>inflight := fl\<rparr>"
  assumes I: "conns_inv s P G L" and P': "\<And>b'. b' \<noteq> b \<Longrightarrow> b' \<in> set P' \<longleftrightarrow> b' \<in> set P" "b \<notin> set P'"
    and conn: "\<And>k b'. conn t P' k b' \<longleftrightarrow> conn s P k b' \<and> b' \<noteq> b"
    and acc: "\<And>b' h. accepting t b' h \<longleftrightarrow> accepting s b' h \<and> b' \<noteq> b"
  shows "conns_inv t P' G L" "idle s P G L k d \<Longrightarrow> idle t P' G L k d" "answers_for s P b h \<Longrightarrow> free_handle t P' L h"
    "conn s P k b \<Longrightarrow> socks s k = Some c \<Longrightarrow> idle t P' G L k c"
    "free_handle s P L h \<Longrightarrow> free_handle t P' L h"
proof -
  note D = conns_invD [OF I]
  have cl: "answers_for t P' b' h \<longleftrightarrow> answers_for s P b' h \<and> b' \<noteq> b" for b' h
    unfolding answers_for_def conn acc by (auto simp: t_def)
  have li: "listening t L h = listening s L h" for h by (rule same_listening) (simp add: t_def)
  have w: "waiting t P' k b' = waiting s P k b'" if "b' \<noteq> b" for k b' using P'(1) [OF that] by (simp add: waiting_def t_def)
  have ok: "conn_ok t q k b' = conn_ok s q k b'" for q k b' by (simp add: conn_ok_def t_def)
  show "conns_inv t P' G L"
  proof (rule conns_invI)
    show "\<And>k b'. conn t P' k b' \<Longrightarrow> k \<notin> set G" using D(1) unfolding conn by blast
    show "\<And>k b'. conn t P' k b' \<Longrightarrow> conn_ok t (b' \<in> set P') k b'" 
      unfolding conn ok by (simp add: D(2) P'(1))
    show "\<And>k b' b''. conn t P' k b' \<Longrightarrow> conn t P' k b'' \<Longrightarrow> b' = b''" using D(3) unfolding conn by blast
    show "\<And>b' b'' h. answers_for t P' b' h \<Longrightarrow> answers_for t P' b'' h \<Longrightarrow> b' = b''" using D(4) unfolding cl by blast
    show "\<And>b' h. answers_for t P' b' h \<Longrightarrow> h \<in> opened t" using D(5) unfolding cl by (auto simp: t_def)
    show "\<And>b' h. answers_for t P' b' h \<Longrightarrow> h \<noteq> INVALID_SOCKET" using D(6) unfolding cl by blast
    show "\<And>b' h. answers_for t P' b' h \<Longrightarrow> \<not> listening t L h" using D(7) unfolding cl li by blast
    show "\<exists>k. waiting t P' k b'" if "b' \<in> set P'" for b'
    proof -
      have "b' \<noteq> b" using that P'(2) by auto
      then show ?thesis using D(8) P'(1) w that by simp
    qed
    show "\<And>l. l \<in> L \<Longrightarrow> \<exists>lo. lstns t l = Some lo \<and> l_handle lo \<in> opened t \<and> l_handle lo \<noteq> INVALID_SOCKET \<and>
        assoc t (l_handle lo) = Some l \<and> l < heap_top t" using D(9) by (simp add: t_def)
    show "linked (snext (socks t)) (gFreeSocketList t) G" "distinct G" using D(10,11) by (simp_all add: t_def)
    show "\<And>k. k \<in> set G \<Longrightarrow> \<exists>c. socks t k = Some c \<and> c = zero_socket\<lparr>s_next := s_next c\<rparr>" using D(12) by (simp add: t_def)
    show "\<And>k. socks t k \<noteq> None \<Longrightarrow> k < heap_top t" using D(13) by (simp add: t_def)
  qed
  have fr: "free_handle s P L h \<Longrightarrow> free_handle t P' L h" for h unfolding free_handle_def cl li by (simp add: t_def)
  then show "free_handle s P L h \<Longrightarrow> free_handle t P' L h" .
  have fb: "answers_for s P b h \<Longrightarrow> free_handle t P' L h" for h
    unfolding free_handle_def cl li using D(4,5,6,7) by (auto simp: t_def)
  then show "answers_for s P b h \<Longrightarrow> free_handle t P' L h" .
  show "idle s P G L k d \<Longrightarrow> idle t P' G L k d" using fr unfolding idle_def conn by (simp add: t_def)
  show "idle t P' G L k c" if "conn s P k b" "socks s k = Some c"
  proof -
    have "answers_for s P b (s_handle c)" using that by (auto simp: answers_for_def)
    moreover have "assoc s (s_handle c) = Some k" using D(2) [OF that(1)] that(2) by (auto simp: conn_ok_def)
    ultimately show ?thesis using fb D(1,3) that unfolding idle_def conn by (auto simp: t_def)
  qed
qed

text \<open>The head of the queue, and an operation of a connection whose completion is delivered.\<close>

lemma drop_waiting:
  assumes I: "conns_inv s (b # P) G L" and d: "b \<notin> set P" "b \<notin> fst ` set (inflight s)"
    and b: "cores (bufs s) b = Some ob" "sock ob = Some k" "socks s k = Some c"
  shows "conns_inv s P G L" "idle s (b # P) G L k' d \<Longrightarrow> idle s P G L k' d" "idle s P G L k c" "conn_ok s True k b"
proof -
  have nb: "(b, l) \<notin> set (inflight s)" for l using d(2) by force
  have w: "waiting s (b # P) k b" using b by (simp add: waiting_def)
  then have ck: "conn s (b # P) k b" by (simp add: conn_def)
  have s: "s\<lparr>inflight := inflight s\<rparr> = s" by simp
  have "conn s P k' b' \<longleftrightarrow> conn s (b # P) k' b' \<and> b' \<noteq> b" for k' b'
    using d(1) nb by (auto simp: conn_def waiting_def flying_def)
  then have c: "conn (s\<lparr>inflight := inflight s\<rparr>) P k' b' \<longleftrightarrow> conn s (b # P) k' b' \<and> b' \<noteq> b" for k' b'
    unfolding s .
  have "accepting s b' h \<longleftrightarrow> accepting s b' h \<and> b' \<noteq> b" for b' h using nb by (auto simp: accepting_def)
  then have a: "accepting (s\<lparr>inflight := inflight s\<rparr>) b' h \<longleftrightarrow> accepting s b' h \<and> b' \<noteq> b" for b' h unfolding s .
  note drop = conns_drop [OF I _ d(1) c a, unfolded s]
  show "conns_inv s P G L" by (rule drop(1)) auto
  show "idle s (b # P) G L k' d \<Longrightarrow> idle s P G L k' d" by (rule drop(2)) auto
  show "idle s P G L k c" by (rule drop(4)) (use ck b in auto)
  show "conn_ok s True k b" using conns_invD(2) [OF I ck] by simp
qed

definition landed :: "nat \<Rightarrow> nat \<Rightarrow> iocp \<Rightarrow> iocp" where
  "landed b k s = s\<lparr>inflight := remove1 (b, k) (inflight s)\<rparr>"

lemma distinct_fst: "distinct (map fst xs) \<Longrightarrow> (b, k) \<in> set xs \<Longrightarrow> (b, l) \<in> set xs \<Longrightarrow> k = l"
  by (rule eq_key_imp_eq_value)

lemma set_landed:
  assumes "distinct (map fst (inflight s))" "(b, k) \<in> set (inflight s)"
  shows "(b', l) \<in> set (inflight (landed b k s)) \<longleftrightarrow> (b', l) \<in> set (inflight s) \<and> b' \<noteq> b"
    "b \<notin> fst ` set (inflight (landed b k s))" "distinct (map fst (inflight (landed b k s)))"
proof -
  have d: "distinct (inflight s)" using assms(1) by (rule distinct_map [THEN iffD1, THEN conjunct1])
  show s: "(b', l) \<in> set (inflight (landed b k s)) \<longleftrightarrow> (b', l) \<in> set (inflight s) \<and> b' \<noteq> b" for b' l
    using d distinct_fst [OF assms] by (auto simp: landed_def)
  then show "b \<notin> fst ` set (inflight (landed b k s))" by auto
  have "inj_on fst (set (inflight s))" using assms(1) by (simp add: distinct_map)
  then have "inj_on fst (set (remove1 (b, k) (inflight s)))" by (rule inj_on_subset) (rule set_remove1_subset)
  then show "distinct (map fst (inflight (landed b k s)))"
    using d by (simp add: landed_def distinct_map)
qed

lemma landed_conns:
  assumes I: "conns_inv s P G L" and d: "distinct (map fst (inflight s))" "(b, k) \<in> set (inflight s)" "b \<notin> set P"
  shows "conns_inv (landed b k s) P G L" "idle s P G L k' d' \<Longrightarrow> idle (landed b k s) P G L k' d'"
    "cores (bufs s) b = Some ob \<Longrightarrow> operation ob = OP_ACCEPT \<Longrightarrow> free_handle (landed b k s) P L (sclient ob)"
    "cores (bufs s) b = Some ob \<Longrightarrow> operation ob \<noteq> OP_ACCEPT \<Longrightarrow>
       \<exists>c. socks s k = Some c \<and> idle (landed b k s) P G L k c \<and> conn_ok s False k b"
proof -
  note set = set_landed [OF d(1,2)]
  have c: "conn (landed b k s) P k' b' \<longleftrightarrow> conn s P k' b' \<and> b' \<noteq> b" for k' b'
    using d(3) unfolding conn_def waiting_def flying_def set by (auto simp: landed_def)
  have a: "accepting (landed b k s) b' h \<longleftrightarrow> accepting s b' h \<and> b' \<noteq> b" for b' h
    unfolding accepting_def set by (auto simp: landed_def)
  note drop = conns_drop [OF I _ d(3) c [unfolded landed_def] a [unfolded landed_def], folded landed_def]
  show "conns_inv (landed b k s) P G L" by (rule drop(1)) auto
  show "idle s P G L k' d' \<Longrightarrow> idle (landed b k s) P G L k' d'" by (rule drop(2)) auto
  show "free_handle (landed b k s) P L (sclient ob)" if "cores (bufs s) b = Some ob" "operation ob = OP_ACCEPT"
    by (rule drop(3)) (use d that in \<open>auto simp: answers_for_def accepting_def\<close>)
  assume b: "cores (bufs s) b = Some ob" "operation ob \<noteq> OP_ACCEPT"
  then have ck: "conn s P k b" using d(2) by (simp add: conn_def flying_def)
  then have ok: "conn_ok s False k b" using conns_invD(2) [OF I ck] d(3) by simp
  then obtain c where c: "socks s k = Some c" by (auto simp: conn_ok_def)
  have "idle (landed b k s) P G L k c" by (rule drop(4)) (use ck c in auto)
  then show "\<exists>c. socks s k = Some c \<and> idle (landed b k s) P G L k c \<and> conn_ok s False k b" using c ok by blast
qed

section \<open>Connections come and go\<close>

text \<open>An object that is no connection changes, or a handle that nobody answers for.\<close>

lemma conns_socket:
  fixes s :: iocp and k c g n as op cs
  defines "t \<equiv> s\<lparr>socks := (socks s)(k \<mapsto> c), gFreeSocketList := g, heap_top := n, assoc := as, opened := op, calls := cs\<rparr>"
  assumes I: "conns_inv s P G L" and n: "\<And>b. \<not> conn s P k b" and h: "free_handle s P L h"
    and as: "\<And>h'. h' \<noteq> h \<Longrightarrow> as h' = assoc s h'" "\<And>h'. h' \<noteq> h \<Longrightarrow> h' \<in> opened s \<Longrightarrow> h' \<in> op"
    and G': "linked (snext (socks t)) g G'" "distinct G'" "\<And>k. k \<in> set G' \<Longrightarrow> \<exists>c. socks t k = Some c \<and> c = zero_socket\<lparr>s_next := s_next c\<rparr>"
      "\<And>g. g \<in> set G' \<Longrightarrow> g = k \<or> g \<in> set G"
    and top: "heap_top s \<le> n" "k < n"
  shows "conns_inv t P G' L" "conn t P k' b = conn s P k' b" "answers_for t P b h' = answers_for s P b h'"
    "free_handle s P L h' \<Longrightarrow> h' \<in> op \<Longrightarrow> free_handle t P L h'"
proof -
  note D = conns_invD [OF I]
  have cn: "conn t P k' b = conn s P k' b" for k' b by (simp add: conn_defs t_def)
  have sk: "socks t k' = socks s k'" if "conn s P k' b" for k' b using that n by (auto simp: t_def)
  have cl: "answers_for t P b h' = answers_for s P b h'" for b h'
  proof -
    have "(\<exists>k c. conn s P k b \<and> socks t k = Some c \<and> s_handle c = h') = (\<exists>k c. conn s P k b \<and> socks s k = Some c \<and> s_handle c = h')"
      using sk by metis
    then show ?thesis unfolding answers_for_def cn by (simp add: accepting_def t_def)
  qed
  have li: "listening t L h' = listening s L h'" for h' by (rule same_listening) (simp add: t_def)
  have nh: "answers_for s P b h' \<Longrightarrow> h' \<noteq> h" "listening s L h' \<Longrightarrow> h' \<noteq> h" for b h' using h unfolding free_handle_def by blast+
  have ok: "conn_ok t q k' b" if o: "conn_ok s q k' b" and c: "conn s P k' b" for q k' b
  proof -
    have "conn_ok t q k' b = conn_ok s q k' b"
    proof (rule conn_ok_cong)
      show "socks t k' = socks s k'" using sk c by blast
      fix d assume "socks s k' = Some d"
      then have "answers_for s P b (s_handle d)" using c by (auto simp: answers_for_def)
      then show "assoc t (s_handle d) = assoc s (s_handle d) \<and> echoed (net t) (s_handle d) = echoed (net s) (s_handle d)"
        using nh as(1) by (simp add: t_def)
    qed (simp add: t_def)
    then show ?thesis using o by simp
  qed
  show "conns_inv t P G' L"
  proof (rule conns_invI)
    show "\<And>k b. conn t P k b \<Longrightarrow> k \<notin> set G'" using D(1) G'(4) n unfolding cn by blast
    show "\<And>k b. conn t P k b \<Longrightarrow> conn_ok t (b \<in> set P) k b" using D(2) ok unfolding cn by blast
    show "\<And>k b b'. conn t P k b \<Longrightarrow> conn t P k b' \<Longrightarrow> b = b'" using D(3) unfolding cn by blast
    show "\<And>b b' h. answers_for t P b h \<Longrightarrow> answers_for t P b' h \<Longrightarrow> b = b'" using D(4) unfolding cl by blast
    show "\<And>b h. answers_for t P b h \<Longrightarrow> h \<in> opened t" using D(5) nh as(2) unfolding cl by (simp add: t_def)
    show "\<And>b h. answers_for t P b h \<Longrightarrow> h \<noteq> INVALID_SOCKET" using D(6) unfolding cl by blast
    show "\<And>b h. answers_for t P b h \<Longrightarrow> \<not> listening t L h" using D(7) unfolding cl li by blast
    show "\<And>b. b \<in> set P \<Longrightarrow> \<exists>k. waiting t P k b" using D(8) by (simp add: waiting_def t_def)
    show "linked (snext (socks t)) (gFreeSocketList t) G'" using G'(1) by (simp add: t_def)
    show "distinct G'" "\<And>k. k \<in> set G' \<Longrightarrow> \<exists>c. socks t k = Some c \<and> c = zero_socket\<lparr>s_next := s_next c\<rparr>" by (fact G')+
    fix k' assume "socks t k' \<noteq> None"
    then show "k' < heap_top t" using D(13) [of k'] top by (cases "k' = k") (auto simp: t_def)
  next
    fix l assume l: "l \<in> L"
    then obtain lo :: LISTEN_OBJ where lo: "lstns s l = Some lo" "l_handle lo \<in> opened s" "l_handle lo \<noteq> INVALID_SOCKET"
      "assoc s (l_handle lo) = Some l" "l < heap_top s" using D(9) by blast
    then have "listening s L (l_handle lo)" using l by (auto simp: listening_def)
    then show "\<exists>lo. lstns t l = Some lo \<and> l_handle lo \<in> opened t \<and> l_handle lo \<noteq> INVALID_SOCKET \<and>
        assoc t (l_handle lo) = Some l \<and> l < heap_top t"
      using lo nh(2) as top by (simp add: t_def)
  qed
  show "conn t P k' b = conn s P k' b" "answers_for t P b h' = answers_for s P b h'" by (fact cn cl)+
  show "free_handle s P L h' \<Longrightarrow> h' \<in> op \<Longrightarrow> free_handle t P L h'" unfolding free_handle_def cl li by (simp add: t_def)
qed

section \<open>Listening sockets\<close>

lemma same_handles:
  assumes "\<And>l. map_option l_handle (ls l) = map_option l_handle (lstns s l)"
  shows "(\<exists>lo. ls l = Some lo \<and> Q (l_handle lo)) \<longleftrightarrow> (\<exists>lo. lstns s l = Some lo \<and> Q (l_handle lo))"
  using assms [of l] by (cases "ls l"; cases "lstns s l") auto

lemma conns_lstn:
  assumes e: "\<And>l. map_option l_handle (ls l) = map_option l_handle (lstns s l)"
  shows "conns_inv (s\<lparr>lstns := ls\<rparr>) P G L = conns_inv s P G L" "sends_inv (s\<lparr>lstns := ls\<rparr>) = sends_inv s"
    "idle (s\<lparr>lstns := ls\<rparr>) P G L k c = idle s P G L k c" "free_handle (s\<lparr>lstns := ls\<rparr>) P L h = free_handle s P L h"
proof -
  let ?t = "s\<lparr>lstns := ls\<rparr>"
  have li: "listening ?t L h = listening s L h" for h
    using same_handles [OF e, of _ "\<lambda>h'. h' = h"] by (simp add: listening_def)
  have cn: "conn ?t P k b = conn s P k b" "waiting ?t P k b = waiting s P k b" "accepting ?t b h = accepting s b h"
    "conn_ok ?t q k b = conn_ok s q k b" for q k b h
    by (simp_all add: conn_def waiting_def flying_def accepting_def conn_ok_def)
  then have cl: "answers_for ?t P b h = answers_for s P b h" for b h by (simp add: answers_for_def)
  have l: "(\<exists>lo. ls l = Some lo \<and> l_handle lo \<in> opened s \<and> l_handle lo \<noteq> INVALID_SOCKET \<and> assoc s (l_handle lo) = Some l \<and> l < heap_top s) \<longleftrightarrow>
      (\<exists>lo. lstns s l = Some lo \<and> l_handle lo \<in> opened s \<and> l_handle lo \<noteq> INVALID_SOCKET \<and> assoc s (l_handle lo) = Some l \<and> l < heap_top s)" for l
    by (rule same_handles [OF e])
  show "conns_inv ?t P G L = conns_inv s P G L" unfolding conns_inv_def cn cl li using l by simp
  show "sends_inv ?t = sends_inv s" by (simp add: sends_inv_def writes_def)
  show f: "free_handle ?t P L h = free_handle s P L h" for h unfolding free_handle_def cl li by simp
  show "idle ?t P G L k c = idle s P G L k c" unfolding idle_def f cn by simp
qed

text \<open>A handle that is new.\<close>

lemma new_handle:
  assumes I: "conns_inv s P G L" and h: "h \<notin> opened s"
  shows "\<not> answers_for s P b h" "\<not> listening s L h"
  using conns_invD(5,9) [OF I] h unfolding listening_def by fastforce+

lemma conns_opened:
  assumes I: "conns_inv s P G L" and op: "opened s \<subseteq> op"
  shows "conns_inv (s\<lparr>opened := op, calls := cs\<rparr>) P G L" "sends_inv (s\<lparr>opened := op, calls := cs\<rparr>) = sends_inv s"
    "idle s P G L k c \<Longrightarrow> idle (s\<lparr>opened := op, calls := cs\<rparr>) P G L k c"
    "free_handle s P L h \<Longrightarrow> free_handle (s\<lparr>opened := op, calls := cs\<rparr>) P L h"
proof -
  let ?t = "s\<lparr>opened := op, calls := cs\<rparr>"
  have cn: "conn ?t P k b = conn s P k b" "waiting ?t P k b = waiting s P k b" "accepting ?t b h = accepting s b h"
    "conn_ok ?t q k b = conn_ok s q k b" for q k b h
    by (simp_all add: conn_def waiting_def flying_def accepting_def conn_ok_def)
  then have cl: "answers_for ?t P b h = answers_for s P b h" for b h by (simp add: answers_for_def)
  have li: "listening ?t L h = listening s L h" for h by (rule same_listening) simp
  show "conns_inv ?t P G L"
    using I op unfolding conns_inv_def cn cl li by (elim conjE, intro conjI) (simp | blast)+
  show "sends_inv ?t = sends_inv s" by (simp add: sends_inv_def writes_def)
  show f: "free_handle s P L h \<Longrightarrow> free_handle ?t P L h" for h unfolding free_handle_def cl li using op by auto
  show "idle s P G L k c \<Longrightarrow> idle ?t P G L k c" using f unfolding idle_def cn by simp
qed

lemma add_accepting:
  fixes s :: iocp and b l h cs
  defines "t \<equiv> s\<lparr>inflight := inflight s @ [(b, l)], opened := insert h (opened s), calls := cs\<rparr>"
  assumes I: "conns_inv s P G L" and b: "b \<notin> set P" "b \<notin> fst ` set (inflight s)"
    and ob: "cores (bufs s) b = Some ob" "operation ob = OP_ACCEPT" "sclient ob = h"
    and h: "h \<notin> opened s" "h \<noteq> INVALID_SOCKET"
  shows "conns_inv t P G L" "sends_inv t = sends_inv s" "idle s P G L k c \<Longrightarrow> idle t P G L k c"
proof -
  note D = conns_invD [OF I] and N = new_handle [OF I h(1)]
  have cn: "conn t P k' b' = conn s P k' b'" for k' b' using ob by (auto simp: conn_def waiting_def flying_def t_def)
  have a: "accepting t b' h' \<longleftrightarrow> accepting s b' h' \<or> b' = b \<and> h' = h" for b' h' using ob by (auto simp: accepting_def t_def)
  have cl: "answers_for t P b' h' \<longleftrightarrow> answers_for s P b' h' \<or> b' = b \<and> h' = h" for b' h'
    unfolding answers_for_def cn a by (auto simp: t_def)
  have li: "listening t L h' = listening s L h'" for h' by (rule same_listening) (simp add: t_def)
  have ok: "conn_ok t q k' b' = conn_ok s q k' b'" for q k' b' by (rule conn_ok_cong) (simp_all add: t_def)
  show "conns_inv t P G L"
  proof (rule conns_invI)
    show "\<And>k b. conn t P k b \<Longrightarrow> k \<notin> set G" "\<And>k b. conn t P k b \<Longrightarrow> conn_ok t (b \<in> set P) k b"
      using D(1,2) unfolding cn ok by auto
    show "\<And>k b b'. conn t P k b \<Longrightarrow> conn t P k b' \<Longrightarrow> b = b'" using D(3) unfolding cn by blast
    show "\<And>b' b'' h'. answers_for t P b' h' \<Longrightarrow> answers_for t P b'' h' \<Longrightarrow> b' = b''" using D(4) N(1) unfolding cl by blast
    show "\<And>b' h'. answers_for t P b' h' \<Longrightarrow> h' \<in> opened t" using D(5) unfolding cl by (auto simp: t_def)
    show "\<And>b' h'. answers_for t P b' h' \<Longrightarrow> h' \<noteq> INVALID_SOCKET" using D(6) h(2) unfolding cl by blast
    show "\<And>b' h'. answers_for t P b' h' \<Longrightarrow> \<not> listening t L h'" using D(7) N(2) unfolding cl li by blast
    show "\<And>b. b \<in> set P \<Longrightarrow> \<exists>k. waiting t P k b" using D(8) by (simp add: waiting_def t_def)
    show "\<And>l. l \<in> L \<Longrightarrow> \<exists>lo. lstns t l = Some lo \<and> l_handle lo \<in> opened t \<and> l_handle lo \<noteq> INVALID_SOCKET \<and>
        assoc t (l_handle lo) = Some l \<and> l < heap_top t" using D(9) by (fastforce simp: t_def)
    show "linked (snext (socks t)) (gFreeSocketList t) G" "distinct G" using D(10,11) by (simp_all add: t_def)
    show "\<And>k. k \<in> set G \<Longrightarrow> \<exists>c. socks t k = Some c \<and> c = zero_socket\<lparr>s_next := s_next c\<rparr>" using D(12) by (simp add: t_def)
    show "\<And>k. socks t k \<noteq> None \<Longrightarrow> k < heap_top t" using D(13) by (simp add: t_def)
  qed
  show "sends_inv t = sends_inv s" using ob by (simp add: sends_inv_def writes_def t_def)
  show "idle s P G L k c \<Longrightarrow> idle t P G L k c"
    using h(1) unfolding idle_def free_handle_def cn cl li by (auto simp: t_def)
qed

text \<open>A listening socket that is new.\<close>

lemma add_listening:
  fixes s :: iocp and ls as op n cs
  defines "t \<equiv> s\<lparr>lstns := ls, heap_top := n, assoc := as, opened := op, calls := cs\<rparr>"
  assumes I: "conns_inv s P G L" and l: "l \<notin> L" "l < n" "heap_top s \<le> n" and h: "h \<notin> opened s" "h \<noteq> INVALID_SOCKET" "h \<in> op"
    and ls: "ls l = Some lo" "l_handle lo = h" "\<And>l'. l' \<in> L \<Longrightarrow> ls l' = lstns s l'"
    and as: "as h = Some l" "\<And>h'. h' \<noteq> h \<Longrightarrow> as h' = assoc s h'" and op: "opened s \<subseteq> op"
  shows "conns_inv t P G (insert l L)"
proof -
  note D = conns_invD [OF I] and N = new_handle [OF I h(1)]
  have cn: "conn t P k' b' = conn s P k' b'" for k' b' by (simp add: conn_def waiting_def flying_def t_def)
  have cl: "answers_for t P b' h' = answers_for s P b' h'" for b' h' unfolding answers_for_def cn accepting_def by (simp add: t_def)
  have li: "listening t (insert l L) h' \<longleftrightarrow> listening s L h' \<or> h' = h" for h'
    using ls by (auto simp: listening_def t_def)
  have ok: "conn_ok t (b' \<in> set P) k' b'" if c: "conn s P k' b'" for k' b'
  proof -
    have "conn_ok t (b' \<in> set P) k' b' = conn_ok s (b' \<in> set P) k' b'"
    proof (rule conn_ok_cong)
      fix d assume "socks s k' = Some d"
      then have "answers_for s P b' (s_handle d)" using c by (auto simp: answers_for_def)
      then have "s_handle d \<noteq> h" using N by blast
      then show "assoc t (s_handle d) = assoc s (s_handle d) \<and> echoed (net t) (s_handle d) = echoed (net s) (s_handle d)"
        using as(2) by (simp add: t_def)
    qed (simp_all add: t_def)
    then show ?thesis using D(2) c by blast
  qed
  show ?thesis
  proof (rule conns_invI)
    show "\<And>k b. conn t P k b \<Longrightarrow> k \<notin> set G" "\<And>k b. conn t P k b \<Longrightarrow> conn_ok t (b \<in> set P) k b"
      using D(1) ok unfolding cn by auto
    show "\<And>k b b'. conn t P k b \<Longrightarrow> conn t P k b' \<Longrightarrow> b = b'" using D(3) unfolding cn by blast
    show "\<And>b' b'' h'. answers_for t P b' h' \<Longrightarrow> answers_for t P b'' h' \<Longrightarrow> b' = b''" using D(4) unfolding cl by blast
    show "\<And>b' h'. answers_for t P b' h' \<Longrightarrow> h' \<in> opened t" using D(5) op unfolding cl by (auto simp: t_def)
    show "\<And>b' h'. answers_for t P b' h' \<Longrightarrow> h' \<noteq> INVALID_SOCKET" using D(6) unfolding cl by blast
    show "\<And>b' h'. answers_for t P b' h' \<Longrightarrow> \<not> listening t (insert l L) h'" using D(7) N(1) unfolding cl li by blast
    show "\<And>b. b \<in> set P \<Longrightarrow> \<exists>k. waiting t P k b" using D(8) by (simp add: waiting_def t_def)
    show "linked (snext (socks t)) (gFreeSocketList t) G" "distinct G" using D(10,11) by (simp_all add: t_def)
    show "\<And>k. k \<in> set G \<Longrightarrow> \<exists>c. socks t k = Some c \<and> c = zero_socket\<lparr>s_next := s_next c\<rparr>" using D(12) by (simp add: t_def)
    show "k < heap_top t" if "socks t k \<noteq> None" for k using D(13) [of k] that l by (simp add: t_def)
    fix l' assume l': "l' \<in> insert l L"
    show "\<exists>lo. lstns t l' = Some lo \<and> l_handle lo \<in> opened t \<and> l_handle lo \<noteq> INVALID_SOCKET \<and>
        assoc t (l_handle lo) = Some l' \<and> l' < heap_top t"
    proof (cases "l' = l")
      case True
      then show ?thesis using ls h l as by (simp add: t_def)
    next
      case False
      then have m: "l' \<in> L" using l' by simp
      then obtain lo' :: LISTEN_OBJ where lo': "lstns s l' = Some lo'" "l_handle lo' \<in> opened s" "l_handle lo' \<noteq> INVALID_SOCKET"
        "assoc s (l_handle lo') = Some l'" "l' < heap_top s" using D(9) by blast
      then have "l_handle lo' \<noteq> h" using h by auto
      then show ?thesis using lo' ls(3) [OF m] as(2) op l by (auto simp: t_def)
    qed
  qed
qed

end
