(* ===== verification/IocpOwners.thy ===== *)
theory IocpOwners
  imports IocpTokens
begin

text \<open>
  The operations of the completion port server on the objects: what each does to the owners of
  buffers, connections and handles.
\<close>

section \<open>Members that do not matter\<close>

lemma buffers_frame [simp]:
  "buffers_inv (s\<lparr>socks := x_socks\<rparr>) P F A L = buffers_inv s P F A L"
  "buffers_inv (s\<lparr>opened := x_opened\<rparr>) P F A L = buffers_inv s P F A L"
  "buffers_inv (s\<lparr>assoc := x_assoc\<rparr>) P F A L = buffers_inv s P F A L"
  "buffers_inv (s\<lparr>net := x_net\<rparr>) P F A L = buffers_inv s P F A L"
  "buffers_inv (s\<lparr>gOutstandingSends := x_gOutstandingSends\<rparr>) P F A L = buffers_inv s P F A L"
  "buffers_inv (s\<lparr>gFreeSocketList := x_gFreeSocketList\<rparr>) P F A L = buffers_inv s P F A L"
  "buffers_inv (s\<lparr>gBytesRead := x_gBytesRead\<rparr>) P F A L = buffers_inv s P F A L"
  "buffers_inv (s\<lparr>gBytesReadLast := x_gBytesReadLast\<rparr>) P F A L = buffers_inv s P F A L"
  "buffers_inv (s\<lparr>gBytesSent := x_gBytesSent\<rparr>) P F A L = buffers_inv s P F A L"
  "buffers_inv (s\<lparr>gBytesSentLast := x_gBytesSentLast\<rparr>) P F A L = buffers_inv s P F A L"
  "buffers_inv (s\<lparr>gConnections := x_gConnections\<rparr>) P F A L = buffers_inv s P F A L"
  "buffers_inv (s\<lparr>gConnectionsLast := x_gConnectionsLast\<rparr>) P F A L = buffers_inv s P F A L"
  "buffers_inv (s\<lparr>calls := x_calls\<rparr>) P F A L = buffers_inv s P F A L"
  "buffers_inv (s\<lparr>signalled := x_signalled\<rparr>) P F A L = buffers_inv s P F A L"
  "buffers_inv (s\<lparr>interval := x_interval\<rparr>) P F A L = buffers_inv s P F A L"
  "buffers_inv (s\<lparr>gStartTimeLast := x_gStartTimeLast\<rparr>) P F A L = buffers_inv s P F A L"
  "buffers_inv (s\<lparr>gStartTime := x_gStartTime\<rparr>) P F A L = buffers_inv s P F A L"
  "buffers_inv (s\<lparr>WaitEvents := x_WaitEvents\<rparr>) P F A L = buffers_inv s P F A L"
  "buffers_inv (s\<lparr>ListenSockets := x_ListenSockets\<rparr>) P F A L = buffers_inv s P F A L"
  by (simp_all add: buffers_inv_def)

lemma spare_frame [simp]:
  "spare (s\<lparr>socks := x_socks\<rparr>) P F A b = spare s P F A b"
  "spare (s\<lparr>opened := x_opened\<rparr>) P F A b = spare s P F A b"
  "spare (s\<lparr>assoc := x_assoc\<rparr>) P F A b = spare s P F A b"
  "spare (s\<lparr>net := x_net\<rparr>) P F A b = spare s P F A b"
  "spare (s\<lparr>gOutstandingSends := x_gOutstandingSends\<rparr>) P F A b = spare s P F A b"
  "spare (s\<lparr>gFreeSocketList := x_gFreeSocketList\<rparr>) P F A b = spare s P F A b"
  "spare (s\<lparr>gBytesRead := x_gBytesRead\<rparr>) P F A b = spare s P F A b"
  "spare (s\<lparr>gBytesReadLast := x_gBytesReadLast\<rparr>) P F A b = spare s P F A b"
  "spare (s\<lparr>gBytesSent := x_gBytesSent\<rparr>) P F A b = spare s P F A b"
  "spare (s\<lparr>gBytesSentLast := x_gBytesSentLast\<rparr>) P F A b = spare s P F A b"
  "spare (s\<lparr>gConnections := x_gConnections\<rparr>) P F A b = spare s P F A b"
  "spare (s\<lparr>gConnectionsLast := x_gConnectionsLast\<rparr>) P F A b = spare s P F A b"
  "spare (s\<lparr>calls := x_calls\<rparr>) P F A b = spare s P F A b"
  "spare (s\<lparr>signalled := x_signalled\<rparr>) P F A b = spare s P F A b"
  "spare (s\<lparr>interval := x_interval\<rparr>) P F A b = spare s P F A b"
  "spare (s\<lparr>gStartTimeLast := x_gStartTimeLast\<rparr>) P F A b = spare s P F A b"
  "spare (s\<lparr>gStartTime := x_gStartTime\<rparr>) P F A b = spare s P F A b"
  "spare (s\<lparr>WaitEvents := x_WaitEvents\<rparr>) P F A b = spare s P F A b"
  "spare (s\<lparr>ListenSockets := x_ListenSockets\<rparr>) P F A b = spare s P F A b"
  "spare (s\<lparr>gFreeBufferList := x_gFreeBufferList\<rparr>) P F A b = spare s P F A b"
  "spare (s\<lparr>gPendingSendList := x_gPendingSendList\<rparr>) P F A b = spare s P F A b"
  "spare (s\<lparr>gPendingSendListEnd := x_gPendingSendListEnd\<rparr>) P F A b = spare s P F A b"
  "spare (s\<lparr>lstns := x_lstns\<rparr>) P F A b = spare s P F A b"
  by (simp_all add: spare_def)

lemma conns_frame [simp]:
  "conns_inv (s\<lparr>gFreeBufferList := x_gFreeBufferList\<rparr>) P G L = conns_inv s P G L"
  "conns_inv (s\<lparr>gPendingSendList := x_gPendingSendList\<rparr>) P G L = conns_inv s P G L"
  "conns_inv (s\<lparr>gPendingSendListEnd := x_gPendingSendListEnd\<rparr>) P G L = conns_inv s P G L"
  "conns_inv (s\<lparr>gBytesRead := x_gBytesRead\<rparr>) P G L = conns_inv s P G L"
  "conns_inv (s\<lparr>gBytesReadLast := x_gBytesReadLast\<rparr>) P G L = conns_inv s P G L"
  "conns_inv (s\<lparr>gBytesSent := x_gBytesSent\<rparr>) P G L = conns_inv s P G L"
  "conns_inv (s\<lparr>gBytesSentLast := x_gBytesSentLast\<rparr>) P G L = conns_inv s P G L"
  "conns_inv (s\<lparr>gConnections := x_gConnections\<rparr>) P G L = conns_inv s P G L"
  "conns_inv (s\<lparr>gConnectionsLast := x_gConnectionsLast\<rparr>) P G L = conns_inv s P G L"
  "conns_inv (s\<lparr>calls := x_calls\<rparr>) P G L = conns_inv s P G L"
  "conns_inv (s\<lparr>signalled := x_signalled\<rparr>) P G L = conns_inv s P G L"
  "conns_inv (s\<lparr>interval := x_interval\<rparr>) P G L = conns_inv s P G L"
  "conns_inv (s\<lparr>gStartTimeLast := x_gStartTimeLast\<rparr>) P G L = conns_inv s P G L"
  "conns_inv (s\<lparr>gStartTime := x_gStartTime\<rparr>) P G L = conns_inv s P G L"
  "conns_inv (s\<lparr>WaitEvents := x_WaitEvents\<rparr>) P G L = conns_inv s P G L"
  "conns_inv (s\<lparr>ListenSockets := x_ListenSockets\<rparr>) P G L = conns_inv s P G L"
  "conns_inv (s\<lparr>gOutstandingSends := x_gOutstandingSends\<rparr>) P G L = conns_inv s P G L"
  by (simp_all add: conns_inv_def conn_defs)

lemma idle_frame [simp]:
  "idle (s\<lparr>gFreeBufferList := x_gFreeBufferList\<rparr>) P G L k c = idle s P G L k c"
  "idle (s\<lparr>gPendingSendList := x_gPendingSendList\<rparr>) P G L k c = idle s P G L k c"
  "idle (s\<lparr>gPendingSendListEnd := x_gPendingSendListEnd\<rparr>) P G L k c = idle s P G L k c"
  "idle (s\<lparr>gBytesRead := x_gBytesRead\<rparr>) P G L k c = idle s P G L k c"
  "idle (s\<lparr>gBytesReadLast := x_gBytesReadLast\<rparr>) P G L k c = idle s P G L k c"
  "idle (s\<lparr>gBytesSent := x_gBytesSent\<rparr>) P G L k c = idle s P G L k c"
  "idle (s\<lparr>gBytesSentLast := x_gBytesSentLast\<rparr>) P G L k c = idle s P G L k c"
  "idle (s\<lparr>gConnections := x_gConnections\<rparr>) P G L k c = idle s P G L k c"
  "idle (s\<lparr>gConnectionsLast := x_gConnectionsLast\<rparr>) P G L k c = idle s P G L k c"
  "idle (s\<lparr>calls := x_calls\<rparr>) P G L k c = idle s P G L k c"
  "idle (s\<lparr>signalled := x_signalled\<rparr>) P G L k c = idle s P G L k c"
  "idle (s\<lparr>interval := x_interval\<rparr>) P G L k c = idle s P G L k c"
  "idle (s\<lparr>gStartTimeLast := x_gStartTimeLast\<rparr>) P G L k c = idle s P G L k c"
  "idle (s\<lparr>gStartTime := x_gStartTime\<rparr>) P G L k c = idle s P G L k c"
  "idle (s\<lparr>WaitEvents := x_WaitEvents\<rparr>) P G L k c = idle s P G L k c"
  "idle (s\<lparr>ListenSockets := x_ListenSockets\<rparr>) P G L k c = idle s P G L k c"
  "idle (s\<lparr>gOutstandingSends := x_gOutstandingSends\<rparr>) P G L k c = idle s P G L k c"
  by (simp_all add: conn_defs)

lemma free_handle_frame [simp]:
  "free_handle (s\<lparr>gFreeBufferList := x_gFreeBufferList\<rparr>) P L h = free_handle s P L h"
  "free_handle (s\<lparr>gPendingSendList := x_gPendingSendList\<rparr>) P L h = free_handle s P L h"
  "free_handle (s\<lparr>gPendingSendListEnd := x_gPendingSendListEnd\<rparr>) P L h = free_handle s P L h"
  "free_handle (s\<lparr>gBytesRead := x_gBytesRead\<rparr>) P L h = free_handle s P L h"
  "free_handle (s\<lparr>gBytesReadLast := x_gBytesReadLast\<rparr>) P L h = free_handle s P L h"
  "free_handle (s\<lparr>gBytesSent := x_gBytesSent\<rparr>) P L h = free_handle s P L h"
  "free_handle (s\<lparr>gBytesSentLast := x_gBytesSentLast\<rparr>) P L h = free_handle s P L h"
  "free_handle (s\<lparr>gConnections := x_gConnections\<rparr>) P L h = free_handle s P L h"
  "free_handle (s\<lparr>gConnectionsLast := x_gConnectionsLast\<rparr>) P L h = free_handle s P L h"
  "free_handle (s\<lparr>calls := x_calls\<rparr>) P L h = free_handle s P L h"
  "free_handle (s\<lparr>signalled := x_signalled\<rparr>) P L h = free_handle s P L h"
  "free_handle (s\<lparr>interval := x_interval\<rparr>) P L h = free_handle s P L h"
  "free_handle (s\<lparr>gStartTimeLast := x_gStartTimeLast\<rparr>) P L h = free_handle s P L h"
  "free_handle (s\<lparr>gStartTime := x_gStartTime\<rparr>) P L h = free_handle s P L h"
  "free_handle (s\<lparr>WaitEvents := x_WaitEvents\<rparr>) P L h = free_handle s P L h"
  "free_handle (s\<lparr>ListenSockets := x_ListenSockets\<rparr>) P L h = free_handle s P L h"
  "free_handle (s\<lparr>gOutstandingSends := x_gOutstandingSends\<rparr>) P L h = free_handle s P L h"
  by (simp_all add: conn_defs)

lemma sends_frame [simp]:
  "sends_inv (s\<lparr>gFreeBufferList := x_gFreeBufferList\<rparr>) = sends_inv s"
  "sends_inv (s\<lparr>gPendingSendList := x_gPendingSendList\<rparr>) = sends_inv s"
  "sends_inv (s\<lparr>gPendingSendListEnd := x_gPendingSendListEnd\<rparr>) = sends_inv s"
  "sends_inv (s\<lparr>gBytesRead := x_gBytesRead\<rparr>) = sends_inv s"
  "sends_inv (s\<lparr>gBytesReadLast := x_gBytesReadLast\<rparr>) = sends_inv s"
  "sends_inv (s\<lparr>gBytesSent := x_gBytesSent\<rparr>) = sends_inv s"
  "sends_inv (s\<lparr>gBytesSentLast := x_gBytesSentLast\<rparr>) = sends_inv s"
  "sends_inv (s\<lparr>gConnections := x_gConnections\<rparr>) = sends_inv s"
  "sends_inv (s\<lparr>gConnectionsLast := x_gConnectionsLast\<rparr>) = sends_inv s"
  "sends_inv (s\<lparr>calls := x_calls\<rparr>) = sends_inv s"
  "sends_inv (s\<lparr>signalled := x_signalled\<rparr>) = sends_inv s"
  "sends_inv (s\<lparr>interval := x_interval\<rparr>) = sends_inv s"
  "sends_inv (s\<lparr>gStartTimeLast := x_gStartTimeLast\<rparr>) = sends_inv s"
  "sends_inv (s\<lparr>gStartTime := x_gStartTime\<rparr>) = sends_inv s"
  "sends_inv (s\<lparr>WaitEvents := x_WaitEvents\<rparr>) = sends_inv s"
  "sends_inv (s\<lparr>ListenSockets := x_ListenSockets\<rparr>) = sends_inv s"
  "sends_inv (s\<lparr>socks := x_socks\<rparr>) = sends_inv s"
  "sends_inv (s\<lparr>opened := x_opened\<rparr>) = sends_inv s"
  "sends_inv (s\<lparr>assoc := x_assoc\<rparr>) = sends_inv s"
  "sends_inv (s\<lparr>net := x_net\<rparr>) = sends_inv s"
  "sends_inv (s\<lparr>gFreeSocketList := x_gFreeSocketList\<rparr>) = sends_inv s"
  "sends_inv (s\<lparr>lstns := x_lstns\<rparr>) = sends_inv s"
  "sends_inv (s\<lparr>heap_top := x_heap_top\<rparr>) = sends_inv s"
  by (simp_all add: sends_inv_def writes_def)

lemma echoing_frame [simp]:
  "echoing (s\<lparr>gFreeBufferList := x_gFreeBufferList\<rparr>) = echoing s"
  "echoing (s\<lparr>gPendingSendList := x_gPendingSendList\<rparr>) = echoing s"
  "echoing (s\<lparr>gPendingSendListEnd := x_gPendingSendListEnd\<rparr>) = echoing s"
  "echoing (s\<lparr>gBytesRead := x_gBytesRead\<rparr>) = echoing s"
  "echoing (s\<lparr>gBytesReadLast := x_gBytesReadLast\<rparr>) = echoing s"
  "echoing (s\<lparr>gBytesSent := x_gBytesSent\<rparr>) = echoing s"
  "echoing (s\<lparr>gBytesSentLast := x_gBytesSentLast\<rparr>) = echoing s"
  "echoing (s\<lparr>gConnections := x_gConnections\<rparr>) = echoing s"
  "echoing (s\<lparr>gConnectionsLast := x_gConnectionsLast\<rparr>) = echoing s"
  "echoing (s\<lparr>calls := x_calls\<rparr>) = echoing s"
  "echoing (s\<lparr>signalled := x_signalled\<rparr>) = echoing s"
  "echoing (s\<lparr>interval := x_interval\<rparr>) = echoing s"
  "echoing (s\<lparr>gStartTimeLast := x_gStartTimeLast\<rparr>) = echoing s"
  "echoing (s\<lparr>gStartTime := x_gStartTime\<rparr>) = echoing s"
  "echoing (s\<lparr>WaitEvents := x_WaitEvents\<rparr>) = echoing s"
  "echoing (s\<lparr>ListenSockets := x_ListenSockets\<rparr>) = echoing s"
  "echoing (s\<lparr>bufs := x_bufs\<rparr>) = echoing s"
  "echoing (s\<lparr>socks := x_socks\<rparr>) = echoing s"
  "echoing (s\<lparr>lstns := x_lstns\<rparr>) = echoing s"
  "echoing (s\<lparr>inflight := x_inflight\<rparr>) = echoing s"
  "echoing (s\<lparr>heap_top := x_heap_top\<rparr>) = echoing s"
  "echoing (s\<lparr>opened := x_opened\<rparr>) = echoing s"
  "echoing (s\<lparr>assoc := x_assoc\<rparr>) = echoing s"
  "echoing (s\<lparr>gOutstandingSends := x_gOutstandingSends\<rparr>) = echoing s"
  "echoing (s\<lparr>gFreeSocketList := x_gFreeSocketList\<rparr>) = echoing s"
  by (simp_all add: echoing_def)

lemma conn_ok_frame [simp]:
  "conn_ok (s\<lparr>gFreeBufferList := x_gFreeBufferList\<rparr>) q k b = conn_ok s q k b"
  "conn_ok (s\<lparr>gPendingSendList := x_gPendingSendList\<rparr>) q k b = conn_ok s q k b"
  "conn_ok (s\<lparr>gPendingSendListEnd := x_gPendingSendListEnd\<rparr>) q k b = conn_ok s q k b"
  "conn_ok (s\<lparr>gBytesRead := x_gBytesRead\<rparr>) q k b = conn_ok s q k b"
  "conn_ok (s\<lparr>gBytesReadLast := x_gBytesReadLast\<rparr>) q k b = conn_ok s q k b"
  "conn_ok (s\<lparr>gBytesSent := x_gBytesSent\<rparr>) q k b = conn_ok s q k b"
  "conn_ok (s\<lparr>gBytesSentLast := x_gBytesSentLast\<rparr>) q k b = conn_ok s q k b"
  "conn_ok (s\<lparr>gConnections := x_gConnections\<rparr>) q k b = conn_ok s q k b"
  "conn_ok (s\<lparr>gConnectionsLast := x_gConnectionsLast\<rparr>) q k b = conn_ok s q k b"
  "conn_ok (s\<lparr>calls := x_calls\<rparr>) q k b = conn_ok s q k b"
  "conn_ok (s\<lparr>signalled := x_signalled\<rparr>) q k b = conn_ok s q k b"
  "conn_ok (s\<lparr>interval := x_interval\<rparr>) q k b = conn_ok s q k b"
  "conn_ok (s\<lparr>gStartTimeLast := x_gStartTimeLast\<rparr>) q k b = conn_ok s q k b"
  "conn_ok (s\<lparr>gStartTime := x_gStartTime\<rparr>) q k b = conn_ok s q k b"
  "conn_ok (s\<lparr>WaitEvents := x_WaitEvents\<rparr>) q k b = conn_ok s q k b"
  "conn_ok (s\<lparr>ListenSockets := x_ListenSockets\<rparr>) q k b = conn_ok s q k b"
  "conn_ok (s\<lparr>gOutstandingSends := x_gOutstandingSends\<rparr>) q k b = conn_ok s q k b"
  "conn_ok (s\<lparr>inflight := x_inflight\<rparr>) q k b = conn_ok s q k b"
  "conn_ok (s\<lparr>lstns := x_lstns\<rparr>) q k b = conn_ok s q k b"
  "conn_ok (s\<lparr>opened := x_opened\<rparr>) q k b = conn_ok s q k b"
  "conn_ok (s\<lparr>heap_top := x_heap_top\<rparr>) q k b = conn_ok s q k b"
  "conn_ok (s\<lparr>gFreeSocketList := x_gFreeSocketList\<rparr>) q k b = conn_ok s q k b"
  by (simp_all add: conn_ok_def)

lemma inv_frame [simp]:
  "iocp_inv (s\<lparr>gBytesRead := x_gBytesRead\<rparr>) P F G A L = iocp_inv s P F G A L"
  "iocp_inv (s\<lparr>gBytesReadLast := x_gBytesReadLast\<rparr>) P F G A L = iocp_inv s P F G A L"
  "iocp_inv (s\<lparr>gBytesSent := x_gBytesSent\<rparr>) P F G A L = iocp_inv s P F G A L"
  "iocp_inv (s\<lparr>gBytesSentLast := x_gBytesSentLast\<rparr>) P F G A L = iocp_inv s P F G A L"
  "iocp_inv (s\<lparr>gConnections := x_gConnections\<rparr>) P F G A L = iocp_inv s P F G A L"
  "iocp_inv (s\<lparr>gConnectionsLast := x_gConnectionsLast\<rparr>) P F G A L = iocp_inv s P F G A L"
  "iocp_inv (s\<lparr>calls := x_calls\<rparr>) P F G A L = iocp_inv s P F G A L"
  "iocp_inv (s\<lparr>signalled := x_signalled\<rparr>) P F G A L = iocp_inv s P F G A L"
  "iocp_inv (s\<lparr>interval := x_interval\<rparr>) P F G A L = iocp_inv s P F G A L"
  "iocp_inv (s\<lparr>gStartTimeLast := x_gStartTimeLast\<rparr>) P F G A L = iocp_inv s P F G A L"
  "iocp_inv (s\<lparr>gStartTime := x_gStartTime\<rparr>) P F G A L = iocp_inv s P F G A L"
  "iocp_inv (s\<lparr>WaitEvents := x_WaitEvents\<rparr>) P F G A L = iocp_inv s P F G A L"
  "iocp_inv (s\<lparr>ListenSockets := x_ListenSockets\<rparr>) P F G A L = iocp_inv s P F G A L"
  by (simp_all add: iocp_inv_def)

text \<open>What the parts of the invariant do depend on.\<close>

lemma buffers_cong:
  "buffers_inv s P F A L \<Longrightarrow> bufs t = bufs s \<Longrightarrow> gPendingSendList t = gPendingSendList s \<Longrightarrow>
   gPendingSendListEnd t = gPendingSendListEnd s \<Longrightarrow> gFreeBufferList t = gFreeBufferList s \<Longrightarrow> lstns t = lstns s \<Longrightarrow>
   inflight t = inflight s \<Longrightarrow> gBufferSize t = gBufferSize s \<Longrightarrow> heap_top s \<le> heap_top t \<Longrightarrow> buffers_inv t P F A L"
  by (simp add: buffers_inv_def) (meson less_le_trans)

lemma sends_cong:
  "sends_inv s \<Longrightarrow> bufs t = bufs s \<Longrightarrow> inflight t = inflight s \<Longrightarrow> gOutstandingSends t = gOutstandingSends s \<Longrightarrow>
   gMaxSends t = gMaxSends s \<Longrightarrow> sends_inv t"
  by (simp add: sends_inv_def writes_def)

lemma untouchedI:
  "bufs t = bufs s \<Longrightarrow> socks t = socks s \<Longrightarrow> lstns t = lstns s \<Longrightarrow> heap_top s \<le> heap_top t \<Longrightarrow>
   gFreeSocketList t = gFreeSocketList s \<Longrightarrow> opened t = opened s \<Longrightarrow> assoc t = assoc s \<Longrightarrow> inflight t = inflight s \<Longrightarrow>
   net t = net s \<Longrightarrow> gOutstandingSends t = gOutstandingSends s \<Longrightarrow> gMaxSends t = gMaxSends s \<Longrightarrow> untouched s t"
  by (simp add: untouched_def)

section \<open>The queue of pending sends\<close>

lemma linked_cores: "bnext bs = bnext bs' \<Longrightarrow> linked (bnext bs) p xs = linked (bnext bs') p xs"
  by simp

lemma Enqueue_buffers:
  assumes I: "buffers_inv s P F A L" and b: "spare s P F A b" "bufs s b = Some ob" "sock ob = Some k" "socks s k = Some c"
  shows "\<exists>bs p e. EnqueuePendingOperation b OP_WRITE s = Some ((), s\<lparr>socks := (socks s)(k \<mapsto> PendingSend_update (\<lambda>n. n + 1) c),
      bufs := bs, gPendingSendList := p, gPendingSendListEnd := e\<rparr>) \<and> cores bs = cores (bufs s) \<and>
    buffers_inv (s\<lparr>bufs := bs, gPendingSendList := p, gPendingSendListEnd := e\<rparr>) (P @ [b]) F A L"
proof (cases "P = []")
  case True
  have "gPendingSendListEnd s = None" using buffers_invD(3) [OF I] True by simp
  note e = EnqueuePendingOperation_first [OF b(2-4) this]
  have "buffers_inv (s\<lparr>bufs := (bufs s)(b \<mapsto> ob\<lparr>b_next := None\<rparr>), gPendingSendList := Some b, gPendingSendListEnd := Some b\<rparr>) (P @ [b]) F A L"
    using buffers_spare(1) [OF I b(1), of "ob\<lparr>b_next := None\<rparr>"] buffers_invD(6) [OF I b(2)] b(1) True
    unfolding buffers_inv_def spare_def by auto
  then show ?thesis using e b(2) by (intro exI [of _ "(bufs s)(b \<mapsto> ob\<lparr>b_next := None\<rparr>)"] exI [of _ "Some b"]) simp
next
  case False
  let ?d = "last P"
  note D = buffers_invD [OF I]
  have d: "?d \<in> set P" using False by simp
  then have ne: "?d \<noteq> b" using b(1) by (auto simp: spare_def)
  obtain lo where lo: "bufs s ?d = Some lo" using bnext_present [OF D(1) d] by blast
  have en: "gPendingSendListEnd s = Some ?d" using D(3) False by simp
  let ?bs = "(bufs s)(b \<mapsto> ob\<lparr>b_next := None\<rparr>, ?d \<mapsto> lo\<lparr>b_next := Some b\<rparr>)"
  let ?t = "s\<lparr>bufs := ?bs, gPendingSendListEnd := Some b\<rparr>"
  note e = EnqueuePendingOperation_eq [OF b(2-4) en lo ne]
  have co: "cores ?bs = cores (bufs s)" using b(2) lo ne by (auto simp: cores_def fun_eq_iff)
  have i: "buffers_inv (s\<lparr>bufs := (bufs s)(b \<mapsto> ob\<lparr>b_next := None\<rparr>)\<rparr>) P F A L"
    by (rule buffers_spare(1) [OF I b(1)]) (simp add: D(6) [OF b(2)])
  note E = buffers_invD [OF i]
  have "linked ((bnext (bufs s))(last P := Some (Some b), b := Some None)) (gPendingSendList s) (P @ [b])"
    using False b(1) D(1,9) by (intro linked_snoc) (auto simp: spare_def)
  then have lp: "linked (bnext ?bs) (gPendingSendList s) (P @ [b])" using ne by (simp add: fun_upd_twist)
  have dF: "?d \<notin> set F" "?d \<notin> set (A l)" for l using D(13,14) d by blast+
  have lf: "linked (bnext ?bs) (gFreeBufferList s) F" using E(2) dF by simp
  have la: "\<exists>lo. lstns s l = Some lo \<and> linked (bnext ?bs) (PendingAccepts lo) (A l)" if l: "l \<in> L" for l
  proof -
    obtain lo :: LISTEN_OBJ where "lstns s l = Some lo" "linked (bnext ((bufs s)(b \<mapsto> ob\<lparr>b_next := None\<rparr>))) (PendingAccepts lo) (A l)"
      using E(4) [OF l] by auto
    then show ?thesis using dF(2) [of l] by auto
  qed
  have dt: "?d \<notin> fst ` set (inflight s)" using D(16) d by blast
  have nb: "b \<notin> set P" "b \<notin> set F" "\<And>l. b \<notin> set (A l)" "b \<notin> fst ` set (inflight s)" using b(1) by (auto simp: spare_def)
  have "buffers_inv ?t (P @ [b]) F A L"
  proof (rule buffers_invI)
    show "length (buf x) = unat (gBufferSize ?t)" if "bufs ?t b' = Some x" for b' x
      using that D(6) b(2) lo by (auto split: if_splits)
    show "b' < heap_top ?t" if "bufs ?t b' \<noteq> None" for b' using that D(7) b(2) lo by (auto split: if_splits)
    fix b' l assume l: "(b', l) \<in> set (inflight ?t)"
    then have "b' \<noteq> ?d" "b' \<noteq> b" using dt nb(4) by force+
    then show "\<exists>ob. bufs ?t b' = Some ob \<and> (operation ob \<noteq> OP_WRITE \<longrightarrow> buflen ob = gBufferSize ?t) \<and>
        (if operation ob = OP_ACCEPT then b' \<in> set (A l) else \<forall>l. b' \<notin> set (A l))"
      using D(8) [of b' l] l by simp
  next
    show "fst ` set (inflight ?t) \<inter> (set (P @ [b]) \<union> set F) = {}" using D(16) nb(4) by auto
    show "set (A l) \<inter> (set (P @ [b]) \<union> set F) = {}" for l using D(14) [of l] nb(3) by auto
  qed (use lp lf la D nb in auto)
  then show ?thesis using e co by (intro exI [of _ ?bs] exI [of _ "gPendingSendList s"] exI [of _ "Some b"]) simp
qed

text \<open>Connections stay where they are, and whether they are closing does not change.\<close>

definition kept :: "iocp \<Rightarrow> iocp \<Rightarrow> bool" where
  "kept s t \<longleftrightarrow> (\<forall>k c. socks s k = Some c \<longrightarrow> (\<exists>c'. socks t k = Some c' \<and> bClosing c' = bClosing c)) \<and>
     lstns t = lstns s \<and> ListenSockets t = ListenSockets s \<and> gMaxSends t = gMaxSends s"

lemma kept_refl [simp]: "kept s s"
  by (simp add: kept_def)

lemma kept_trans: "kept s t \<Longrightarrow> kept t u \<Longrightarrow> kept s u"
  unfolding kept_def by metis

lemma keptD: "kept s t \<Longrightarrow> socks s k = Some c \<Longrightarrow> \<exists>c'. socks t k = Some c' \<and> bClosing c' = bClosing c"
  by (simp add: kept_def)

text \<open>The listening sockets are the same.\<close>

definition same_listeners :: "iocp \<Rightarrow> iocp \<Rightarrow> bool" where
  "same_listeners s t \<longleftrightarrow> ListenSockets t = ListenSockets s \<and>
     (\<forall>l. map_option l_next (lstns t l) = map_option l_next (lstns s l))"

lemma same_listeners_refl [simp]: "same_listeners s s"
  by (simp add: same_listeners_def)

lemma kept_listeners: "kept s t \<Longrightarrow> same_listeners s t"
  by (simp add: same_listeners_def kept_def)

lemma same_listeners_trans: "same_listeners s t \<Longrightarrow> same_listeners t u \<Longrightarrow> same_listeners s u"
  by (simp add: same_listeners_def)

text \<open>Connections without a buffer, apart from \<open>k\<close>, stay without one.\<close>

definition idles :: "iocp \<Rightarrow> nat list \<Rightarrow> nat list \<Rightarrow> nat set \<Rightarrow> nat \<Rightarrow> iocp \<Rightarrow> nat list \<Rightarrow> bool" where
  "idles s P G L k t P' \<longleftrightarrow> (\<forall>k' d. k' \<noteq> k \<longrightarrow> idle s P G L k' d \<longrightarrow> idle t P' G L k' d)"

text \<open>A connection \<open>k\<close> with nothing outstanding and the bytes of the buffer \<open>b\<close> still to be sent.\<close>

definition owes :: "iocp \<Rightarrow> nat \<Rightarrow> SOCKET_OBJ \<Rightarrow> nat \<Rightarrow> bool" where
  "owes s k c b \<longleftrightarrow> at_rest c \<and> \<not> bClosing c \<and> (\<exists>ob. bufs s b = Some ob \<and> sock ob = Some k \<and> unat (buflen ob) \<le> length (buf ob) \<and>
     fst (echoed (net s) (s_handle c)) = snd (echoed (net s) (s_handle c)) @ take (unat (buflen ob)) (buf ob))"

lemma Enqueue_inv:
  assumes I: "iocp_inv s P F G A L" and i: "idle s P G L k c" and b: "spare s P F A b" and o: "owes s k c b"
  shows "wp (EnqueuePendingOperation b OP_WRITE s) (\<lambda>_ t. iocp_inv t (P @ [b]) F G A L \<and> kept s t)"
proof -
  obtain ob where ob: "bufs s b = Some ob" "sock ob = Some k" "unat (buflen ob) \<le> length (buf ob)" "at_rest c" "\<not> bClosing c"
    "fst (echoed (net s) (s_handle c)) = snd (echoed (net s) (s_handle c)) @ take (unat (buflen ob)) (buf ob)"
    using o by (auto simp: owes_def)
  have c: "socks s k = Some c" by (rule idleD(1) [OF i])
  have BI: "buffers_inv s P F A L" and CI: "conns_inv s P G L" using I by (simp_all add: iocp_inv_def)
  let ?c = "PendingSend_update (\<lambda>n. n + 1) c"
  obtain bs p e where eq: "EnqueuePendingOperation b OP_WRITE s = Some ((), s\<lparr>socks := (socks s)(k \<mapsto> ?c),
      bufs := bs, gPendingSendList := p, gPendingSendListEnd := e\<rparr>)" and co: "cores bs = cores (bufs s)"
    and bi: "buffers_inv (s\<lparr>bufs := bs, gPendingSendList := p, gPendingSendListEnd := e\<rparr>) (P @ [b]) F A L"
    using Enqueue_buffers [OF BI b ob(1,2) c] by blast
  let ?t = "s\<lparr>socks := (socks s)(k \<mapsto> ?c), bufs := bs, gPendingSendList := p, gPendingSendListEnd := e\<rparr>"
  let ?u = "s\<lparr>socks := (socks s)(k \<mapsto> ?c)\<rparr>"
  have "conns_inv ?u (P @ [b]) G L"
    by (rule add_waiting(1) [OF CI i, where ob = "core ob"]) (use b ob in \<open>auto simp: spare_def at_rest_def\<close>)
  then have ci: "conns_inv ?t (P @ [b]) G L" using relinked(1) [of bs ?u] co by simp
  have "sends_inv ?t" using relinked(2) [of bs ?u] co I by (simp add: iocp_inv_def)
  moreover have "buffers_inv ?t (P @ [b]) F A L" by (rule buffers_cong [OF bi]) simp_all
  ultimately have "iocp_inv ?t (P @ [b]) F G A L" using I ci by (simp add: iocp_inv_def)
  moreover have "kept s ?t" using c by (simp add: kept_def)
  ultimately show ?thesis using eq by simp
qed

lemma Dequeue_nothing: "iocp_inv s [] F G A L \<Longrightarrow> DequeuePendingOperation OP_WRITE s = Some (None, s)"
  by (simp add: DequeuePendingOperation_def iocp_inv_def buffers_inv_def)

lemma Dequeue_inv:
  assumes I: "iocp_inv s (b # P) F G A L"
  shows "wp (DequeuePendingOperation OP_WRITE s) (\<lambda>r t. r = Some b \<and> iocp_inv t P F G A L \<and> spare t P F A b \<and> kept s t \<and>
    gOutstandingSends t = gOutstandingSends s \<and> (\<exists>k c. idle t P G L k c \<and> owes t k c b \<and> idles s (b # P) G L k t P \<and>
      (\<forall>d. \<not> idle s (b # P) G L k d)))"
proof -
  have BI: "buffers_inv s (b # P) F A L" and CI: "conns_inv s (b # P) G L" using I by (simp_all add: iocp_inv_def)
  note D = buffers_invD [OF BI] and E = conns_invD [OF CI]
  obtain k x where w: "cores (bufs s) b = Some x" "sock x = Some k" using E(8) [of b] by (auto simp: waiting_def)
  then obtain ob where ob: "bufs s b = Some ob" "sock ob = Some k" "cores (bufs s) b = Some (core ob)" by (auto simp: cores_Some)
  have nf: "b \<notin> set P" "b \<notin> fst ` set (inflight s)" using D(9,16) by auto
  have "waiting s (b # P) k b" using ob by (simp add: waiting_def)
  then have ck: "conn s (b # P) k b" by (simp add: conn_def)
  then have ni: "\<forall>d. \<not> idle s (b # P) G L k d" using idleD(3) by blast
  from E(2) [OF ck] obtain c where ok: "socks s k = Some c" "\<not> bClosing c" "OutstandingRecv c = 0" "OutstandingSend c = 0"
    "PendingSend c = 1" "unat (buflen ob) \<le> length (buf ob)"
    "fst (echoed (net s) (s_handle c)) = snd (echoed (net s) (s_handle c)) @ take (unat (buflen ob)) (buf ob)"
    using ob by (auto simp: conn_ok_def)
  note drop = drop_waiting [OF CI nf ob(3) _ ok(1)]
  let ?c = "PendingSend_update (\<lambda>n. n - 1) c"
  have lb: "linked (bnext (bufs s)) (b_next ob) P" "gPendingSendList s = Some b" using D(1) ob by auto
  have n: "b_next ob = None \<longleftrightarrow> P = []" using lb by (cases P) auto
  let ?t = "s\<lparr>gPendingSendList := b_next ob, gPendingSendListEnd := (if b_next ob = None then None else gPendingSendListEnd s),
    socks := (socks s)(k \<mapsto> ?c)\<rparr>"
  have eq: "DequeuePendingOperation OP_WRITE s = Some (Some b, ?t)"
    using lb ob ok(1) by (simp add: DequeuePendingOperation_def Let_def upd_sock_def)
  have id: "conns_inv s P G L" "idle s P G L k c" using drop(1,3) ob by simp_all
  have h: "s_handle ?c = s_handle c" by simp
  note upd = idle_upd [OF id h]
  have "buffers_inv ?t P F A L"
  proof (rule buffers_invI)
    show "gPendingSendListEnd ?t = (if P = [] then None else Some (last P))" using D(3) n by auto
    show "\<And>l. l \<in> L \<Longrightarrow> \<exists>lo. lstns ?t l = Some lo \<and> linked (bnext (bufs ?t)) (PendingAccepts lo) (A l)"
      using D(4) by simp
    show "\<exists>ob. bufs ?t b' = Some ob \<and> (operation ob \<noteq> OP_WRITE \<longrightarrow> buflen ob = gBufferSize ?t) \<and>
         (if operation ob = OP_ACCEPT then b' \<in> set (A l) else \<forall>l. b' \<notin> set (A l))" if "(b', l) \<in> set (inflight ?t)" for b' l
      using D(8) [of b' l] that by simp
    show "set (A l) \<inter> (set P \<union> set F) = {}" for l using D(14) [of l] by auto
  qed (use lb D in auto)
  moreover have sc: "untouched (s\<lparr>socks := (socks s)(k \<mapsto> ?c)\<rparr>) ?t" by (rule untouchedI) simp_all
  then have "conns_inv ?t P G L" by (rule untouched(1)) (rule upd(1))
  ultimately have "iocp_inv ?t P F G A L" using I by (simp add: iocp_inv_def)
  moreover have "b \<notin> set F" "\<And>l. b \<notin> set (A l)" using D(13,14) by auto
  then have "spare ?t P F A b" using ob nf by (simp add: spare_def)
  moreover have "kept s ?t" using ok by (simp add: kept_def)
  moreover have "idle ?t P G L k ?c" using upd(2) untouched(3) [OF sc] by simp
  moreover have "owes ?t k ?c b" using ob ok by (simp add: owes_def at_rest_def)
  moreover have "idles s (b # P) G L k ?t P"
    unfolding idles_def using drop(2) ob upd(3) untouched(3) [OF sc] by simp
  moreover have "gOutstandingSends ?t = gOutstandingSends s" by simp
  ultimately show ?thesis using ni unfolding eq wp_Some by blast
qed

end
