(* ===== verification/IocpHandlers.thy ===== *)
theory IocpHandlers
  imports IocpOwners
begin

text \<open>
  Posting, sending what is pending and giving objects back, and with them the handling of a
  completion: every one of them keeps the invariant.
\<close>

section \<open>The debug break\<close>

text \<open>
  \<open>PostSend\<close> stops in the debugger where Windows has no buffers for a send; nothing else stops it.
  \<open>runs\<close> says that the execution is defined, if Windows never answers that, and what its result is.
\<close>

definition calm :: "world \<Rightarrow> bool" where
  "calm W \<longleftrightarrow> (\<forall>cs h b bs. fst (W cs (Call_WSASend h b bs)) \<noteq> WSAENOBUFS)"

definition runs :: "world \<Rightarrow> ('a, iocp) outcome \<Rightarrow> ('a \<Rightarrow> iocp \<Rightarrow> bool) \<Rightarrow> bool" where
  "runs W m Q \<longleftrightarrow> wlp m Q \<and> (calm W \<longrightarrow> m \<noteq> None)"

lemma runs_Some [simp]: "runs W (Some (a, s)) Q = Q a s"
  by (simp add: runs_def)

lemma wp_runs: "wp m Q \<Longrightarrow> runs W m Q"
  by (cases m) (auto simp: runs_def)

lemma runs_mono: "runs W m P \<Longrightarrow> (\<And>a s. P a s \<Longrightarrow> Q a s) \<Longrightarrow> runs W m Q"
  by (cases m) (auto simp: runs_def)

lemma runs_bind: "runs W m (\<lambda>a s. runs W (f (a, s)) Q) \<Longrightarrow> runs W (Option.bind m f) Q"
  by (cases m) (auto simp: runs_def)

lemma runs_bindI:
  "runs W m P \<Longrightarrow> (\<And>a s. P a s \<Longrightarrow> runs W (f (a, s)) Q) \<Longrightarrow> runs W (Option.bind m f) Q"
  by (rule runs_bind) (rule runs_mono)

lemma runs_wp_bindI:
  "wp m P \<Longrightarrow> (\<And>a (s :: iocp). P a s \<Longrightarrow> runs W (f (a, s)) Q) \<Longrightarrow> runs W (Option.bind m f) Q"
  by (rule runs_bindI) (rule wp_runs)

section \<open>Buffers in flight\<close>

lemma buffers_fly:
  assumes I: "buffers_inv s P F A L" and b: "spare s P F A b" "bufs s b = Some ob" "operation ob \<noteq> OP_ACCEPT"
    "operation ob \<noteq> OP_WRITE \<Longrightarrow> buflen ob = gBufferSize s"
  shows "buffers_inv (s\<lparr>inflight := inflight s @ [(b, k)]\<rparr>) P F A L"
  using I b unfolding buffers_inv_def spare_def by auto

lemma buffers_land:
  assumes I: "buffers_inv s P F A L" and b: "(b, k) \<in> set (inflight s)" "bufs s b = Some ob"
  shows "buffers_inv (landed b k s) P F A L" "operation ob \<noteq> OP_ACCEPT \<Longrightarrow> spare (landed b k s) P F A b"
    "operation ob = OP_ACCEPT \<Longrightarrow> b \<in> set (A k)" "operation ob \<noteq> OP_WRITE \<Longrightarrow> buflen ob = gBufferSize s"
    "b \<notin> set P" "b \<notin> set F" "b \<notin> fst ` set (inflight (landed b k s))"
proof -
  note D = buffers_invD [OF I] and set = set_landed [OF buffers_invD(12) [OF I] b(1)]
  show n: "b \<notin> set P" "b \<notin> set F" using D(16) b(1) by force+
  show l: "b \<notin> fst ` set (inflight (landed b k s))" by (rule set(2))
  have "set (inflight (landed b k s)) \<subseteq> set (inflight s)" unfolding landed_def by (simp add: set_remove1_subset)
  then have sub: "x \<in> set (inflight (landed b k s)) \<Longrightarrow> x \<in> set (inflight s)" for x by blast
  show "buffers_inv (landed b k s) P F A L"
  proof (rule buffers_invI)
    show "distinct (map fst (inflight (landed b k s)))" by (rule set(3))
    show "fst ` set (inflight (landed b k s)) \<inter> (set P \<union> set F) = {}" using D(16) sub by blast
    show "\<exists>ob. bufs (landed b k s) b' = Some ob \<and> (operation ob \<noteq> OP_WRITE \<longrightarrow> buflen ob = gBufferSize (landed b k s)) \<and>
         (if operation ob = OP_ACCEPT then b' \<in> set (A l) else \<forall>l. b' \<notin> set (A l))"
      if "(b', l) \<in> set (inflight (landed b k s))" for b' l
      using D(8) [OF sub [OF that]] by (simp add: landed_def)
  qed (use D in \<open>simp_all add: landed_def\<close>)
  show "operation ob \<noteq> OP_ACCEPT \<Longrightarrow> spare (landed b k s) P F A b"
    using D(8) [OF b(1)] b(2) n l by (auto simp: spare_def landed_def)
  show "operation ob = OP_ACCEPT \<Longrightarrow> b \<in> set (A k)" "operation ob \<noteq> OP_WRITE \<Longrightarrow> buflen ob = gBufferSize s"
    using D(8) [OF b(1)] b(2) by auto
qed

section \<open>Giving a buffer back\<close>

lemma FreeBuffer_inv:
  assumes I: "iocp_inv s P F G A L" and b: "spare s P F A b"
  shows "wp (FreeBufferObj b s) (\<lambda>_ t. iocp_inv t P (b # F) G A L \<and> kept s t \<and> (\<forall>k c. idle s P G L k c \<longrightarrow> idle t P G L k c))"
proof -
  have BI: "buffers_inv s P F A L" and CI: "conns_inv s P G L" using I by (simp_all add: iocp_inv_def)
  obtain ob where eq: "FreeBufferObj b s = Some ((), s\<lparr>bufs := (bufs s)(b \<mapsto> ob), gFreeBufferList := Some b\<rparr>)"
    and bi: "buffers_inv (s\<lparr>bufs := (bufs s)(b \<mapsto> ob), gFreeBufferList := Some b\<rparr>) P (b # F) A L"
    using FreeBufferObj_buffers [OF BI b] by blast
  have n: "b \<notin> set P" "b \<notin> fst ` set (inflight s)" using b by (simp_all add: spare_def)
  let ?t = "s\<lparr>bufs := (bufs s)(b \<mapsto> ob), gFreeBufferList := Some b\<rparr>"
  have "iocp_inv ?t P (b # F) G A L" using I bi conns_spare [OF n] by (simp add: iocp_inv_def)
  moreover have "kept s ?t" by (simp add: kept_def)
  moreover have "\<forall>k c. idle s P G L k c \<longrightarrow> idle ?t P G L k c" using conns_spare [OF n] by simp
  ultimately show ?thesis unfolding eq wp_Some by blast
qed

section \<open>Posting\<close>

text \<open>The state in which an operation with the spare buffer \<open>b\<close> is posted on an idle connection.\<close>

lemma set_operation:
  assumes I: "iocp_inv s P F G A L" and b: "spare s P F A b" "bufs s b = Some ob"
  shows "iocp_inv (s\<lparr>bufs := (bufs s)(b \<mapsto> ob\<lparr>operation := op\<rparr>)\<rparr>) P F G A L"
    "spare (s\<lparr>bufs := (bufs s)(b \<mapsto> ob\<lparr>operation := op\<rparr>)\<rparr>) P F A b"
    "idle (s\<lparr>bufs := (bufs s)(b \<mapsto> ob\<lparr>operation := op\<rparr>)\<rparr>) P G L k c = idle s P G L k c"
proof -
  have BI: "buffers_inv s P F A L" using I by (simp add: iocp_inv_def)
  have n: "b \<notin> set P" "b \<notin> fst ` set (inflight s)" using b by (simp_all add: spare_def)
  note sp = buffers_spare [OF BI b(1), of "ob\<lparr>operation := op\<rparr>"]
  have len: "length (buf (ob\<lparr>operation := op\<rparr>)) = unat (gBufferSize s)" using buffers_invD(6) [OF BI b(2)] by simp
  show "iocp_inv (s\<lparr>bufs := (bufs s)(b \<mapsto> ob\<lparr>operation := op\<rparr>)\<rparr>) P F G A L"
    using I sp(1) [OF len] conns_spare [OF n] by (simp add: iocp_inv_def)
  show "spare (s\<lparr>bufs := (bufs s)(b \<mapsto> ob\<lparr>operation := op\<rparr>)\<rparr>) P F A b" using sp(2) [OF len] b by simp
  show "idle (s\<lparr>bufs := (bufs s)(b \<mapsto> ob\<lparr>operation := op\<rparr>)\<rparr>) P G L k c = idle s P G L k c" using conns_spare [OF n] by simp
qed

lemma echoing_add:
  assumes "echoing s" "prefix (snd (echo_step h (echoed (net s) h) e)) (fst (echo_step h (echoed (net s) h) e))" "handle_of e = h"
  shows "echoing (s\<lparr>net := net s @ [e]\<rparr>)"
proof (unfold echoing_def, rule allI)
  fix h' show "prefix (snd (echoed (net (s\<lparr>net := net s @ [e]\<rparr>)) h')) (fst (echoed (net (s\<lparr>net := net s @ [e]\<rparr>)) h'))"
    using assms echoed_other [of e h' "net s"] by (cases "h' = h") (auto simp: echoing_def echoed_snoc [of "net s" e h])
qed

text \<open>An operation has been accepted.\<close>

lemma fly_inv:
  fixes s :: iocp and k c n g cs
  assumes I: "iocp_inv s P F G A L" and i: "idle s P G L k c" and b: "spare s P F A b" "bufs s b = Some ob"
    and op: "operation ob \<noteq> OP_ACCEPT" "operation ob \<noteq> OP_WRITE \<Longrightarrow> buflen ob = gBufferSize s"
    and c': "s_handle c' = s_handle c" "OutstandingRecv c' = (if operation ob = OP_READ then 1 else 0)"
      "OutstandingSend c' = (if operation ob = OP_WRITE then 1 else 0)" "PendingSend c' = 0" "\<not> bClosing c'"
    and e: "fst (echoed n (s_handle c)) = snd (echoed n (s_handle c))"
      "\<And>h. s_handle c \<noteq> h \<Longrightarrow> echoed n h = echoed (net s) h"
    and g: "g = (if operation ob = OP_WRITE then gOutstandingSends s + 1 else gOutstandingSends s)"
      "operation ob = OP_WRITE \<Longrightarrow> gOutstandingSends s < gMaxSends s"
  defines "t \<equiv> s\<lparr>socks := (socks s)(k \<mapsto> c'), inflight := inflight s @ [(b, k)], net := n, gOutstandingSends := g, calls := cs\<rparr>"
  shows "iocp_inv t P F G A L" "idles s P G L k t P"
proof -
  have BI: "buffers_inv s P F A L" and CI: "conns_inv s P G L" and SI: "sends_inv s" "echoing s" using I by (simp_all add: iocp_inv_def)
  have n: "b \<notin> set P" "b \<notin> fst ` set (inflight s)" using b by (simp_all add: spare_def)
  have co: "cores (bufs s) b = Some (core ob)" using b(2) by simp
  note fly = add_flying [OF CI i n co, unfolded core_fields, OF op(1) c' e, where g = g and cs = cs, folded t_def]
  have "buffers_inv t P F A L"
    by (rule buffers_cong [OF buffers_fly [OF BI b op]]) (simp_all add: t_def)
  moreover have "writes t = writes s @ (if operation ob = OP_WRITE then [(b, k)] else [])"
    using b(2) by (simp add: writes_def t_def)
  then have "sends_inv t" using SI(1) g by (auto simp: sends_inv_def t_def)
  moreover have "echoing t" unfolding echoing_def
  proof
    fix h show "prefix (snd (echoed (net t) h)) (fst (echoed (net t) h))"
      using SI(2) e by (cases "h = s_handle c") (simp_all add: echoing_def t_def)
  qed
  ultimately show "iocp_inv t P F G A L" using fly(1) by (simp add: iocp_inv_def)
  show "idles s P G L k t P" using fly(2) by (simp add: idles_def)
qed

lemma PostSend_inv:
  assumes I: "iocp_inv s P F G A L" and i: "idle s P G L k c" and b: "spare s P F A b" and o: "owes s k c b"
    and g: "gOutstandingSends s < gMaxSends s"
  shows "runs W (PostSend W k b s) (\<lambda>r t. iocp_inv t P F G A L \<and> kept s t \<and> idles s P G L k t P \<and> (\<not> r \<longrightarrow> spare t P F A b))"
proof -
  obtain ob where ob: "bufs s b = Some ob" "sock ob = Some k" "unat (buflen ob) \<le> length (buf ob)" "at_rest c" "\<not> bClosing c"
    "fst (echoed (net s) (s_handle c)) = snd (echoed (net s) (s_handle c)) @ take (unat (buflen ob)) (buf ob)"
    using o by (auto simp: owes_def)
  let ?ob = "ob\<lparr>operation := OP_WRITE\<rparr>"
  let ?s = "s\<lparr>bufs := (bufs s)(b \<mapsto> ?ob)\<rparr>"
  let ?h = "s_handle c" and ?bs = "take (unat (buflen ob)) (buf ob)"
  let ?call = "Call_WSASend ?h b ?bs"
  obtain err v where w: "W (calls s) ?call = (err, v)" by fastforce
  note c = idleD(1) [OF i] and a = idleD(4) [OF i]
  have s1: "iocp_inv ?s P F G A L" "spare ?s P F A b" "idle ?s P G L k c"
    "\<And>k d. idle ?s P G L k d = idle s P G L k d"
    using set_operation [OF I b ob(1)] i by simp_all
  show ?thesis
  proof (cases "accepted err")
    case True
    let ?c = "OutstandingSend_update (\<lambda>n. n + 1) c"
    let ?t = "?s\<lparr>socks := (socks ?s)(k \<mapsto> ?c), inflight := inflight ?s @ [(b, k)], net := net s @ [Sent ?h ?bs],
      gOutstandingSends := gOutstandingSends s + 1, calls := ?call # calls s\<rparr>"
    have eq: "PostSend W k b s = Some (True, ?t)"
      using ob c a w True by (simp add: PostSend_def upd_buf_def upd_sock_def win_WSASend_def ask_def post_def)
    have f: "echoed (net s @ [Sent ?h ?bs]) ?h = (fst (echoed (net s) ?h), snd (echoed (net s) ?h) @ ?bs)"
      by (cases "echoed (net s) ?h") (simp add: echoed_snoc)
    note fly = fly_inv [OF s1(1,3,2), where ob = ?ob and c' = ?c and n = "net s @ [Sent ?h ?bs]" and
      g = "gOutstandingSends s + 1" and cs = "?call # calls s"]
    have "iocp_inv ?t P F G A L" "idles ?s P G L k ?t P"
      by (rule fly; use ob f g in \<open>simp add: at_rest_def\<close>)+
    then have "iocp_inv ?t P F G A L" "idles s P G L k ?t P" unfolding idles_def s1(4) by blast+
    moreover have "kept s ?t" using c by (simp add: kept_def)
    ultimately show ?thesis unfolding eq by simp
  next
    case False
    let ?t = "?s\<lparr>calls := ?call # calls s\<rparr>"
    have eq: "PostSend W k b s = (if err = WSAENOBUFS then None else Some (False, ?t))"
      using ob c w False by (simp add: PostSend_def upd_buf_def win_WSASend_def ask_def)
    have "calm W \<Longrightarrow> err \<noteq> WSAENOBUFS" using w unfolding calm_def by (metis fst_conv)
    moreover have "iocp_inv ?t P F G A L" "spare ?t P F A b" "kept s ?t" "idles s P G L k ?t P"
      using s1 by (simp_all add: kept_def idles_def)
    ultimately show ?thesis unfolding eq by (auto simp: runs_def)
  qed
qed

lemma PostRecv_inv:
  assumes I: "iocp_inv s P F G A L" and i: "idle s P G L k c" and c: "at_rest c" "\<not> bClosing c"
    and b: "spare s P F A b" "bufs s b = Some ob" "buflen ob = gBufferSize s"
    and e: "fst (echoed (net s) (s_handle c)) = snd (echoed (net s) (s_handle c))"
  shows "wp (PostRecv W k b s) (\<lambda>_ t. iocp_inv t P F G A L \<and> kept s t)"
proof -
  let ?ob = "ob\<lparr>operation := OP_READ\<rparr>"
  let ?s = "s\<lparr>bufs := (bufs s)(b \<mapsto> ?ob)\<rparr>"
  let ?call = "Call_WSARecv (s_handle c) b"
  obtain err v where w: "W (calls s) ?call = (err, v)" by fastforce
  note k = idleD(1) [OF i] and a = idleD(4) [OF i]
  have s1: "iocp_inv ?s P F G A L" "spare ?s P F A b" "idle ?s P G L k c"
    using set_operation [OF I b(1,2)] i by simp_all
  show ?thesis
  proof (cases "accepted err")
    case True
    let ?c = "OutstandingRecv_update (\<lambda>n. n + 1) c"
    let ?t = "?s\<lparr>socks := (socks ?s)(k \<mapsto> ?c), inflight := inflight ?s @ [(b, k)], net := net s,
      gOutstandingSends := gOutstandingSends s, calls := ?call # calls s\<rparr>"
    have eq: "PostRecv W k b s = Some (True, ?t)"
      using b k a w True by (simp add: PostRecv_def upd_buf_def upd_sock_def win_WSARecv_def ask_def post_def)
    note fly = fly_inv [OF s1(1,3,2), where ob = ?ob and c' = ?c and n = "net s" and
      g = "gOutstandingSends s" and cs = "?call # calls s"]
    have "iocp_inv ?t P F G A L" by (rule fly; use b c e in \<open>simp add: at_rest_def\<close>)
    moreover have "kept s ?t" using k by (simp add: kept_def)
    ultimately show ?thesis unfolding eq by simp
  next
    case False
    then have "PostRecv W k b s = Some (False, ?s\<lparr>calls := ?call # calls s\<rparr>)"
      using b k w by (simp add: PostRecv_def upd_buf_def win_WSARecv_def ask_def)
    moreover have "iocp_inv (?s\<lparr>calls := ?call # calls s\<rparr>) P F G A L" "kept s (?s\<lparr>calls := ?call # calls s\<rparr>)"
      using s1 by (simp_all add: kept_def)
    ultimately show ?thesis by simp
  qed
qed

section \<open>Sending what is pending\<close>

lemma ProcessPendingOperations_inv:
  assumes "iocp_inv s P F G A L"
  shows "runs W (ProcessPendingOperations W s) (\<lambda>_ t. (\<exists>P' F'. iocp_inv t P' F' G A L \<and>
    (\<forall>k c. idle s P G L k c \<longrightarrow> idle t P' G L k c)) \<and> kept s t)"
  using assms
proof (induction "nat (gMaxSends s - gOutstandingSends s)" arbitrary: s P F rule: less_induct)
  case less
  show ?case
  proof (cases "gOutstandingSends s < gMaxSends s")
    case False
    then show ?thesis using less.prems by (subst ProcessPendingOperations.simps) auto
  next
    case lim: True
    show ?thesis
    proof (cases P)
      case Nil
      then show ?thesis using lim less.prems Dequeue_nothing [of s F G A L]
        by (subst ProcessPendingOperations.simps) auto
    next
      case (Cons b Q)
      obtain s1 k c where eq: "DequeuePendingOperation OP_WRITE s = Some (Some b, s1)" and I1: "iocp_inv s1 Q F G A L"
        and sp: "spare s1 Q F A b" and k1: "kept s s1" and g: "gOutstandingSends s1 = gOutstandingSends s"
        and i: "idle s1 Q G L k c" and o: "owes s1 k c b" and ids: "idles s (b # Q) G L k s1 Q" and ni: "\<forall>d. \<not> idle s (b # Q) G L k d"
        using Dequeue_inv [of s b Q F G A L] less.prems unfolding Cons by (auto elim!: wpE)
      have gm: "gMaxSends s1 = gMaxSends s" using k1 by (simp add: kept_def)
      then have lim1: "gOutstandingSends s1 < gMaxSends s1" using lim g by simp
      obtain ob where ob: "bufs s1 b = Some ob" "sock ob = Some k" using o by (auto simp: owes_def)
      have un: "ProcessPendingOperations W s = (case PostSend W k b s1 of None \<Rightarrow> None
        | Some (True, s) \<Rightarrow> ProcessPendingOperations W s | Some (False, s) \<Rightarrow> FreeBufferObj b s)"
        using lim eq ob by (subst ProcessPendingOperations.simps) (simp split: option.splits)
      note ps = PostSend_inv [OF I1 i sp o lim1, of W]
      have keep: "idle s P G L k' d \<Longrightarrow> k' \<noteq> k \<and> idle s1 Q G L k' d" for k' d
        using ids ni unfolding idles_def Cons by (cases "k' = k") auto
      show ?thesis
      proof (cases "PostSend W k b s1")
        case None
        then show ?thesis using ps un by (simp add: runs_def)
      next
        case (Some rt)
        obtain r t where rt: "rt = (r, t)" by fastforce
        have t: "iocp_inv t Q F G A L" "kept s1 t" "idles s1 Q G L k t Q" "\<not> r \<longrightarrow> spare t Q F A b"
          using ps Some rt by simp_all
        have kt: "kept s t" using k1 t(2) by (rule kept_trans)
        have it: "idle s P G L k' d \<Longrightarrow> idle t Q G L k' d" for k' d
          using keep t(3) unfolding idles_def by blast
        show ?thesis
        proof (cases r)
          case True
          have "gMaxSends t = gMaxSends s" "gOutstandingSends t = gOutstandingSends s + 1"
            using wlpD [OF PostSend_limits, of W k b s1 r t] Some rt True g gm by simp_all
          then have m: "nat (gMaxSends t - gOutstandingSends t) < nat (gMaxSends s - gOutstandingSends s)" using lim by simp
          have "ProcessPendingOperations W s = ProcessPendingOperations W t" using un Some rt True by simp
          then show ?thesis
            using less.hyps [OF m t(1)] it by (auto elim!: runs_mono intro: kept_trans [OF kt])
        next
          case False
          then have "ProcessPendingOperations W s = FreeBufferObj b t" using un Some rt by simp
          then show ?thesis
            using wp_runs [OF FreeBuffer_inv [OF t(1)], of b W] t(4) False it kept_trans [OF kt] by (auto elim!: runs_mono)
        qed
      qed
    qed
  qed
qed

end
