(* ===== verification/IocpConnections.thy ===== *)
theory IocpConnections
  imports IocpHandlers
begin

text \<open>Connections that are made and given up, and the lists of pending accepts.\<close>

section \<open>Giving a connection up\<close>

lemma give_back_inv:
  fixes s :: iocp and k cs
  assumes I: "iocp_inv s P F G A L" and i: "idle s P G L k c"
  shows "iocp_inv (s\<lparr>socks := (socks s)(k \<mapsto> zero_socket\<lparr>s_next := gFreeSocketList s\<rparr>), gFreeSocketList := Some k,
    opened := opened s - {s_handle c}, calls := cs\<rparr>) P F (k # G) A L" (is "iocp_inv ?t P F (k # G) A L")
proof -
  have BI: "buffers_inv s P F A L" and CI: "conns_inv s P G L" and SI: "sends_inv s" using I by (simp_all add: iocp_inv_def)
  note D = conns_invD [OF CI] and E = idleD [OF i]
  have fh: "free_handle s P L (s_handle c)" using i by (simp add: idle_def)
  note sock = conns_socket [OF CI E(3) fh, where as = "assoc s" and op = "opened s - {s_handle c}" and n = "heap_top s"
      and g = "Some k" and cs = cs and c = "zero_socket\<lparr>s_next := gFreeSocketList s\<rparr>" and G' = "k # G"]
  have "conns_inv (s\<lparr>socks := (socks s)(k \<mapsto> zero_socket\<lparr>s_next := gFreeSocketList s\<rparr>), gFreeSocketList := Some k,
      heap_top := heap_top s, assoc := assoc s, opened := opened s - {s_handle c}, calls := cs\<rparr>) P (k # G) L"
  proof (rule sock(1))
    show "k < heap_top s" using D(13) E(1) by blast
  qed (use D E in auto)
  then have "conns_inv ?t P (k # G) L" by simp
  moreover have "buffers_inv ?t P F A L" by (rule buffers_cong [OF BI]) simp_all
  moreover have "sends_inv ?t" by (rule sends_cong [OF SI]) simp_all
  moreover have "echoing ?t" using I by (simp add: iocp_inv_def echoing_def)
  ultimately show ?thesis by (simp add: iocp_inv_def)
qed

text \<open>
  Changing the counters of an idle connection, and whether it is closing; the invariant speaks of
  neither.
\<close>

lemma idle_upd_inv:
  assumes I: "iocp_inv s P F G A L" and i: "idle s P G L k c" and h: "s_handle c' = s_handle c"
  shows "iocp_inv (s\<lparr>socks := (socks s)(k \<mapsto> c')\<rparr>) P F G A L" "idle (s\<lparr>socks := (socks s)(k \<mapsto> c')\<rparr>) P G L k c'"
  using I idle_upd(1,2) [OF _ i h] by (simp_all add: iocp_inv_def)

lemma FreeSocketObj_inv:
  assumes I: "iocp_inv s P F G A L" and i: "idle s P G L k c"
  shows "wp (FreeSocketObj W k s) (\<lambda>_ t. iocp_inv t P F (k # G) A L \<and> bufs t = bufs s \<and> inflight t = inflight s \<and>
    lstns t = lstns s \<and> ListenSockets t = ListenSockets s)"
proof -
  note E = idleD [OF i]
  have "FreeSocketObj W k s = Some ((), s\<lparr>socks := (socks s)(k \<mapsto> zero_socket\<lparr>s_next := gFreeSocketList s\<rparr>),
    gFreeSocketList := Some k, opened := opened s - {s_handle c}, calls := Call_closesocket (s_handle c) # calls s\<rparr>)"
    using E(1,6) by (simp add: FreeSocketObj_def upd_sock_def win_closesocket_def ask_def)
  then show ?thesis using give_back_inv [OF I i] by simp
qed

text \<open>The end of \<open>HandleIo\<close> closes the handle first; \<open>FreeSocketObj\<close> does not do it again.\<close>

lemma cleanup_inv:
  assumes I: "iocp_inv s P F G A L" and i: "idle s P G L k c"
  shows "wp (cleanup W k True s) (\<lambda>_ t. iocp_inv t P F (k # G) A L \<and> lstns t = lstns s \<and> ListenSockets t = ListenSockets s)"
proof -
  note E = idleD [OF i]
  have "cleanup W k True s = Some ((), s\<lparr>socks := (socks s)(k \<mapsto> zero_socket\<lparr>s_next := gFreeSocketList s\<rparr>),
    gFreeSocketList := Some k, opened := opened s - {s_handle c}, calls := Call_closesocket (s_handle c) # calls s\<rparr>)"
    using E(1) by (simp add: cleanup_def FreeSocketObj_def upd_sock_def win_closesocket_def ask_def)
  then show ?thesis using give_back_inv [OF I i] by simp
qed

lemma cleanup_nothing:
  "socks s k = Some c \<Longrightarrow> \<not> bClosing c \<Longrightarrow> cleanup W k False s = Some ((), s)"
  by (simp add: cleanup_def)

section \<open>A new connection\<close>

lemma closed_handle_inv:
  fixes s :: iocp and cs
  assumes I: "iocp_inv s P F G A L" and h: "free_handle s P L h"
  shows "iocp_inv (s\<lparr>opened := opened s - {h}, calls := cs\<rparr>) P F G A L"
proof -
  have BI: "buffers_inv s P F A L" and CI: "conns_inv s P G L" and SI: "sends_inv s" using I by (simp_all add: iocp_inv_def)
  let ?t = "s\<lparr>opened := opened s - {h}, calls := cs\<rparr>"
  have cn: "conn ?t P k b = conn s P k b" "waiting ?t P k b = waiting s P k b" "accepting ?t b h = accepting s b h"
    "conn_ok ?t q k b = conn_ok s q k b" for q k b h
    by (simp_all add: conn_def waiting_def flying_def accepting_def conn_ok_def)
  then have cl: "answers_for ?t P b h = answers_for s P b h" for b h by (simp add: answers_for_def)
  have li: "listening ?t L h = listening s L h" for h by (rule same_listening) simp
  note D = conns_invD [OF CI]
  have nl: "l_handle lo \<noteq> h" if "l \<in> L" "lstns s l = Some lo" for l lo
    using h that by (auto simp: free_handle_def listening_def)
  have "conns_inv ?t P G L"
  proof (rule conns_invI)
    show "\<And>b h'. answers_for ?t P b h' \<Longrightarrow> h' \<in> opened ?t" using D(5) h unfolding cl free_handle_def by auto
    fix l assume l: "l \<in> L"
    then show "\<exists>lo. lstns ?t l = Some lo \<and> l_handle lo \<in> opened ?t \<and> l_handle lo \<noteq> INVALID_SOCKET \<and>
        assoc ?t (l_handle lo) = Some l \<and> l < heap_top ?t" using D(9) [OF l] nl [OF l] by auto
  qed (use D in \<open>auto simp: cn cl li\<close>)
  moreover have "buffers_inv ?t P F A L" by (rule buffers_cong [OF BI]) simp_all
  moreover have "sends_inv ?t" by (rule sends_cong [OF SI]) simp_all
  ultimately show ?thesis using I by (simp add: iocp_inv_def echoing_def)
qed

definition newborn :: "iocp \<Rightarrow> nat list \<Rightarrow> nat list \<Rightarrow> dword \<Rightarrow> nat \<Rightarrow> SOCKET_OBJ \<Rightarrow> bool" where
  "newborn s P G h k c \<longleftrightarrow> socks s k = Some c \<and> k \<notin> set G \<and> (\<forall>b. \<not> conn s P k b) \<and> s_handle c = h \<and> at_rest c \<and> \<not> bClosing c"

lemma GetSocketObj_inv:
  assumes I: "iocp_inv s P F G A L" and h: "free_handle s P L h"
  shows "wp (GetSocketObj W h f s) (\<lambda>r t. bufs t = bufs s \<and> inflight t = inflight s \<and> lstns t = lstns s \<and> net t = net s \<and>
    ListenSockets t = ListenSockets s \<and> free_handle t P L h \<and> (case r of None \<Rightarrow> iocp_inv t P F G A L | Some k \<Rightarrow> \<exists>G' c. iocp_inv t P F G' A L \<and> newborn t P G' h k c))"
proof -
  have BI: "buffers_inv s P F A L" and CI: "conns_inv s P G L" and SI: "sends_inv s" using I by (simp_all add: iocp_inv_def)
  note D = conns_invD [OF CI]
  have op: "h \<in> opened s" using h by (simp add: free_handle_def)
  have new: "iocp_inv t P F G' A L \<and> newborn t P G' h k (zero_socket\<lparr>s_handle := h, af := f\<rparr>) \<and> free_handle t P L h"
    if t: "t = s\<lparr>socks := (socks s)(k \<mapsto> zero_socket\<lparr>s_handle := h, af := f\<rparr>), gFreeSocketList := g, heap_top := n,
        assoc := assoc s, opened := opened s, calls := cs\<rparr>"
      and k: "\<And>b. \<not> conn s P k b" "linked (snext (socks s)) g G'" "distinct G'" "set G' \<subseteq> set G" "k \<notin> set G'"
        "heap_top s \<le> n" "k < n" for t k g n cs G'
  proof -
    note sock = conns_socket [OF CI k(1) h, where as = "assoc s" and op = "opened s" and n = n and g = g and cs = cs and
        c = "zero_socket\<lparr>s_handle := h, af := f\<rparr>" and G' = G', folded t]
    have G': "\<exists>c. socks t x = Some c \<and> c = zero_socket\<lparr>s_next := s_next c\<rparr>" if "x \<in> set G'" for x
    proof -
      have "x \<noteq> k" "x \<in> set G" using that k(4,5) by auto
      then show ?thesis using D(12) [of x] t by simp
    qed
    have lk: "linked (snext (socks t)) g G'" using k(2,5) t by simp
    have ci: "conns_inv t P G' L" "\<And>k' b. conn t P k' b = conn s P k' b" "free_handle t P L h"
      using sock lk k(3,4,6,7) G' h op by (auto simp: subset_iff)
    have "buffers_inv t P F A L" by (rule buffers_cong [OF BI]) (simp_all add: t k(6))
    moreover have "sends_inv t" by (rule sends_cong [OF SI]) (simp_all add: t)
    ultimately have "iocp_inv t P F G' A L" using I ci by (simp add: iocp_inv_def t echoing_def)
    then show ?thesis using ci k by (simp add: newborn_def t zero_socket_def at_rest_def)
  qed
  show ?thesis
  proof (cases G)
    case Nil
    then have g: "gFreeSocketList s = None" using D(10) by simp
    obtain err v where w: "W (calls s) Call_HeapAlloc = (err, v)" by fastforce
    show ?thesis
    proof (cases "err = 0")
      case False
      then have "GetSocketObj W h f s = Some (None, s\<lparr>calls := Call_HeapAlloc # calls s\<rparr>)"
        using g w by (simp add: GetSocketObj_def ask_def)
      then show ?thesis using I h by simp
    next
      case True
      let ?t = "s\<lparr>socks := (socks s)(heap_top s \<mapsto> zero_socket\<lparr>s_handle := h, af := f\<rparr>), heap_top := heap_top s + 1,
        calls := Call_HeapAlloc # calls s\<rparr>"
      have eq: "GetSocketObj W h f s = Some (Some (heap_top s), ?t)"
        using g w True by (simp add: GetSocketObj_def ask_def upd_sock_def)
      have "\<not> conn s P (heap_top s) b" for b
        using D(2) [of "heap_top s" b] D(13) [of "heap_top s"] by (auto simp: conn_ok_def)
      then have "iocp_inv ?t P F [] A L \<and> newborn ?t P [] h (heap_top s) (zero_socket\<lparr>s_handle := h, af := f\<rparr>) \<and> free_handle ?t P L h"
        by (intro new [where g = "gFreeSocketList s" and n = "heap_top s + 1" and cs = "Call_HeapAlloc # calls s"])
          (simp_all add: g)
      then show ?thesis unfolding eq by auto
    qed
  next
    case (Cons k G')
    obtain c where c: "socks s k = Some c" "c = zero_socket\<lparr>s_next := s_next c\<rparr>" using D(12) [of k] Cons by auto
    have g: "gFreeSocketList s = Some k" "linked (snext (socks s)) (s_next c) G'" using D(10) c(1) Cons by auto
    let ?t = "s\<lparr>socks := (socks s)(k \<mapsto> zero_socket\<lparr>s_handle := h, af := f\<rparr>), gFreeSocketList := s_next c\<rparr>"
    have "c\<lparr>s_next := None, s_handle := h, af := f\<rparr> = zero_socket\<lparr>s_handle := h, af := f\<rparr>"
      by (subst c(2)) (simp add: zero_socket_def)
    then have eq: "GetSocketObj W h f s = Some (Some k, ?t)"
      using g c(1) by (simp add: GetSocketObj_def upd_sock_def)
    have "iocp_inv ?t P F G' A L \<and> newborn ?t P G' h k (zero_socket\<lparr>s_handle := h, af := f\<rparr>) \<and> free_handle ?t P L h"
    proof (rule new [where g = "s_next c" and n = "heap_top s" and cs = "calls s"])
      show "\<not> conn s P k b" for b using D(1) [of k b] Cons by auto
      show "k < heap_top s" using D(13) c by auto
    qed (use D(11) g Cons in auto)
    then show ?thesis unfolding eq by auto
  qed
qed

lemma associate_inv:
  fixes s :: iocp and cs
  assumes I: "iocp_inv s P F G A L" and h: "free_handle s P L h" and n: "newborn s P G h k c"
  shows "iocp_inv (s\<lparr>assoc := (assoc s)(h \<mapsto> k), calls := cs\<rparr>) P F G A L" "idle (s\<lparr>assoc := (assoc s)(h \<mapsto> k), calls := cs\<rparr>) P G L k c"
proof -
  have BI: "buffers_inv s P F A L" and CI: "conns_inv s P G L" and SI: "sends_inv s" using I by (simp_all add: iocp_inv_def)
  note D = conns_invD [OF CI]
  have k: "socks s k = Some c" "k \<notin> set G" "\<And>b. \<not> conn s P k b" "s_handle c = h" using n by (simp_all add: newborn_def)
  let ?t = "s\<lparr>assoc := (assoc s)(h \<mapsto> k), calls := cs\<rparr>"
  have sk: "(socks s)(k \<mapsto> c) = socks s" using k(1) by (simp add: fun_upd_idem)
  have t: "s\<lparr>socks := (socks s)(k \<mapsto> c), gFreeSocketList := gFreeSocketList s, heap_top := heap_top s, assoc := (assoc s)(h \<mapsto> k),
    opened := opened s, calls := cs\<rparr> = ?t" unfolding sk by simp
  note sock = conns_socket [OF CI k(3) h, where as = "(assoc s)(h \<mapsto> k)" and op = "opened s" and n = "heap_top s" and
      g = "gFreeSocketList s" and cs = cs and c = c and G' = G, unfolded t]
  have ci: "conns_inv ?t P G L" "\<And>k' b. conn ?t P k' b = conn s P k' b" "free_handle ?t P L h"
    using sock D(10-13) k h by (auto simp: free_handle_def)
  have "buffers_inv ?t P F A L" by (rule buffers_cong [OF BI]) simp_all
  moreover have "sends_inv ?t" by (rule sends_cong [OF SI]) simp_all
  ultimately show "iocp_inv ?t P F G A L" using I ci by (simp add: iocp_inv_def echoing_def)
  show "idle ?t P G L k c" using ci k by (simp add: idle_def)
qed

end
