(* ===== verification/IocpAccepts.thy ===== *)
theory IocpAccepts
  imports IocpConnections
begin

text \<open>The lists of pending accepts: an accept completes, and another is posted.\<close>

section \<open>Changing a listening socket\<close>

lemma lstn_inv:
  assumes I: "iocp_inv s P F G A L" and l: "lstns s l = Some lo" and e: "l_handle lo' = l_handle lo" "PendingAccepts lo' = PendingAccepts lo"
  shows "iocp_inv (s\<lparr>lstns := (lstns s)(l \<mapsto> lo')\<rparr>) P F G A L" "idle (s\<lparr>lstns := (lstns s)(l \<mapsto> lo')\<rparr>) P G L k c = idle s P G L k c"
    "free_handle (s\<lparr>lstns := (lstns s)(l \<mapsto> lo')\<rparr>) P L h = free_handle s P L h"
proof -
  have BI: "buffers_inv s P F A L" using I by (simp add: iocp_inv_def)
  have h: "map_option l_handle (((lstns s)(l \<mapsto> lo')) x) = map_option l_handle (lstns s x)" for x using l e by simp
  note same = conns_lstn [of "(lstns s)(l \<mapsto> lo')", OF h]
  have "buffers_inv (s\<lparr>lstns := (lstns s)(l \<mapsto> lo')\<rparr>) P F A L"
  proof (rule buffers_invI)
    show "\<exists>lo. lstns (s\<lparr>lstns := (lstns s)(l \<mapsto> lo')\<rparr>) x = Some lo \<and>
        linked (bnext (bufs (s\<lparr>lstns := (lstns s)(l \<mapsto> lo')\<rparr>))) (PendingAccepts lo) (A x)" if "x \<in> L" for x
      using buffers_invD(4) [OF BI that] l e by auto
  qed (use buffers_invD [OF BI] in simp_all)
  then show "iocp_inv (s\<lparr>lstns := (lstns s)(l \<mapsto> lo')\<rparr>) P F G A L" using I same by (simp add: iocp_inv_def)
  show "idle (s\<lparr>lstns := (lstns s)(l \<mapsto> lo')\<rparr>) P G L k c = idle s P G L k c"
    "free_handle (s\<lparr>lstns := (lstns s)(l \<mapsto> lo')\<rparr>) P L h = free_handle s P L h" using same by simp_all
qed

text \<open>Changing a buffer nobody owns.\<close>

lemma buf_inv:
  assumes I: "iocp_inv s P F G A L" and b: "spare s P F A b" "bufs s b = Some ob" "length (buf ob') = length (buf ob)"
  shows "iocp_inv (s\<lparr>bufs := (bufs s)(b \<mapsto> ob')\<rparr>) P F G A L" "spare (s\<lparr>bufs := (bufs s)(b \<mapsto> ob')\<rparr>) P F A x = spare s P F A x"
    "idle (s\<lparr>bufs := (bufs s)(b \<mapsto> ob')\<rparr>) P G L k c = idle s P G L k c"
    "free_handle (s\<lparr>bufs := (bufs s)(b \<mapsto> ob')\<rparr>) P L h = free_handle s P L h"
proof -
  have BI: "buffers_inv s P F A L" using I by (simp add: iocp_inv_def)
  have n: "b \<notin> set P" "b \<notin> fst ` set (inflight s)" using b by (simp_all add: spare_def)
  have len: "length (buf ob') = unat (gBufferSize s)" using b(3) buffers_invD(6) [OF BI b(2)] by simp
  note sp = buffers_spare [OF BI b(1) len] and c = conns_spare [OF n, of ob']
  show "iocp_inv (s\<lparr>bufs := (bufs s)(b \<mapsto> ob')\<rparr>) P F G A L" using I sp(1) c by (simp add: iocp_inv_def)
  show "spare (s\<lparr>bufs := (bufs s)(b \<mapsto> ob')\<rparr>) P F A x = spare s P F A x" by (rule sp(2))
  show "idle (s\<lparr>bufs := (bufs s)(b \<mapsto> ob')\<rparr>) P G L k c = idle s P G L k c"
    "free_handle (s\<lparr>bufs := (bufs s)(b \<mapsto> ob')\<rparr>) P L h = free_handle s P L h" using c by simp_all
qed

section \<open>An accept is taken off its list\<close>

lemma RemovePendingAccept_inv:
  assumes I: "iocp_inv s P F G A L" and b: "b \<in> set (A l)" "b \<notin> fst ` set (inflight s)"
  shows "wp (RemovePendingAccept l b s) (\<lambda>_ t. iocp_inv t P F G (A(l := remove1 b (A l))) L \<and> spare t P F (A(l := remove1 b (A l))) b \<and>
    cores (bufs t) = cores (bufs s) \<and> net t = net s \<and> (\<forall>h. free_handle s P L h \<longrightarrow> free_handle t P L h) \<and> same_listeners s t)"
proof -
  have BI: "buffers_inv s P F A L" and CI: "conns_inv s P G L" using I by (simp_all add: iocp_inv_def)
  note D = buffers_invD [OF BI]
  have l: "l \<in> L" using D(5) [of l] b(1) by (cases "l \<in> L") auto
  then obtain lo :: LISTEN_OBJ where lo: "lstns s l = Some lo" "linked (bnext (bufs s)) (PendingAccepts lo) (A l)"
    using D(4) by blast
  note rm = RemovePendingAccept_removes [OF lo D(11) b(1)]
  obtain u t where ut: "RemovePendingAccept l b s = Some (u, t)" and "\<exists>l' bs. t = s\<lparr>bufs := bs, lstns := (lstns s)(l \<mapsto> l')\<rparr> \<and>
    l' = lo\<lparr>PendingAccepts := PendingAccepts l'\<rparr> \<and> linked (bnext bs) (PendingAccepts l') (remove1 b (A l)) \<and>
    (\<forall>y. y \<notin> set (remove1 b (A l)) \<longrightarrow> bs y = bufs s y) \<and>
    (\<forall>y ob. bufs s y = Some ob \<longrightarrow> (\<exists>ob'. bs y = Some ob' \<and> ob' = ob\<lparr>b_next := b_next ob'\<rparr>)) \<and> dom bs = dom (bufs s)"
    by (rule wpE [OF rm])
  then obtain lo' bs where t: "t = s\<lparr>bufs := bs, lstns := (lstns s)(l \<mapsto> lo')\<rparr>"
    and lo': "lo' = lo\<lparr>PendingAccepts := PendingAccepts lo'\<rparr>" "linked (bnext bs) (PendingAccepts lo') (remove1 b (A l))"
    and fr: "\<forall>y. y \<notin> set (remove1 b (A l)) \<longrightarrow> bs y = bufs s y"
    and sm: "\<forall>y ob. bufs s y = Some ob \<longrightarrow> (\<exists>ob'. bs y = Some ob' \<and> ob' = ob\<lparr>b_next := b_next ob'\<rparr>)"
    and dm: "dom bs = dom (bufs s)"
    by (elim exE conjE)
  have eq: "RemovePendingAccept l b s = Some ((), s\<lparr>bufs := bs, lstns := (lstns s)(l \<mapsto> lo')\<rparr>)" using ut t by simp
  have sub: "set (remove1 b (A l)) \<subseteq> set (A l)" by (rule set_remove1_subset)
  have co: "cores bs = cores (bufs s)"
  proof
    fix y show "cores bs y = cores (bufs s) y"
    proof (cases "bufs s y")
      case None
      then have "bs y = None" using dm by blast
      then show ?thesis using None by (simp add: cores_def)
    next
      case (Some ob)
      then obtain x where "bs y = Some (ob\<lparr>b_next := x\<rparr>)" using sm by fastforce
      then show ?thesis using Some by (simp add: cores_def)
    qed
  qed
  have other: "linked (bnext bs) p xs = linked (bnext (bufs s)) p xs" if "set xs \<inter> set (A l) = {}" for p xs
  proof (rule linked_frame)
    fix x assume "x \<in> set xs"
    then have "x \<notin> set (remove1 b (A l))" using that sub by blast
    then show "bnext bs x = bnext (bufs s) x" using fr by (simp add: bnext_def)
  qed
  have hd: "map_option l_handle (((lstns s)(l \<mapsto> lo')) x) = map_option l_handle (lstns s x)" for x
    using lo(1) lo'(1) by (cases lo') auto
  let ?A = "A(l := remove1 b (A l))"
  let ?t = "s\<lparr>bufs := bs, lstns := (lstns s)(l \<mapsto> lo')\<rparr>"
  have "buffers_inv ?t P F ?A L"
  proof (rule buffers_invI)
    show "linked (bnext (bufs ?t)) (gPendingSendList ?t) P" "linked (bnext (bufs ?t)) (gFreeBufferList ?t) F"
      using D(1,2) other D(14) [of l] by auto
    show "\<exists>lo. lstns ?t x = Some lo \<and> linked (bnext (bufs ?t)) (PendingAccepts lo) (?A x)" if "x \<in> L" for x
      using D(4) [OF that] lo'(2) D(15) [of x l] other by auto
    fix y ob assume "bufs ?t y = Some ob"
    then have y: "bs y = Some ob" by simp
    then obtain ob0 where ob0: "bufs s y = Some ob0" using dm by blast
    then obtain x where "ob = ob0\<lparr>b_next := x\<rparr>" using sm y by fastforce
    then show "length (buf ob) = unat (gBufferSize ?t)" using D(6) [OF ob0] by simp
  next
    fix y assume "bufs ?t y \<noteq> None"
    then have "y \<in> dom bs" by auto
    then show "y < heap_top ?t" using D(7) [of y] unfolding dm by auto
  next
    fix y k assume y: "(y, k) \<in> set (inflight ?t)"
    then obtain ob where ob: "bufs s y = Some ob" "operation ob \<noteq> OP_WRITE \<longrightarrow> buflen ob = gBufferSize s"
      "if operation ob = OP_ACCEPT then y \<in> set (A k) else \<forall>l. y \<notin> set (A l)" using D(8) [of y k] by auto
    have ne: "y \<noteq> b" using y b(2) by force
    obtain x where x: "bs y = Some (ob\<lparr>b_next := x\<rparr>)" using sm ob(1) by fastforce
    then show "\<exists>ob. bufs ?t y = Some ob \<and> (operation ob \<noteq> OP_WRITE \<longrightarrow> buflen ob = gBufferSize ?t) \<and>
         (if operation ob = OP_ACCEPT then y \<in> set (?A k) else \<forall>l. y \<notin> set (?A l))"
      using ob ne sub by auto
  next
    show "set (?A x) \<inter> (set P \<union> set F) = {}" for x using D(14) [of x] D(14) [of l] sub by auto
    show "x \<noteq> y \<Longrightarrow> set (?A x) \<inter> set (?A y) = {}" for x y using D(15) sub by (auto dest!: set_remove1_subset [THEN subsetD])
  qed (use D l in auto)
  moreover have "conns_inv ?t P G L = conns_inv s P G L" "sends_inv ?t = sends_inv s" "free_handle ?t P L h = free_handle s P L h" for h
    using conns_lstn [of "(lstns s)(l \<mapsto> lo')" "s\<lparr>bufs := bs\<rparr>"] hd relinked [OF co] by simp_all
  moreover have "spare ?t P F ?A b"
    using D(11) [of l] D(14) [of l] D(15) [of _ l] b dm bnext_present [OF lo(2) b(1)] unfolding spare_def by auto
  moreover have "l_next lo' = l_next lo" by (subst lo'(1)) simp
  then have "same_listeners s ?t" using lo(1) by (simp add: same_listeners_def)
  ultimately show ?thesis using I co unfolding eq wp_Some by (simp add: iocp_inv_def)
qed

section \<open>An accept is posted\<close>

text \<open>A buffer that is on a list of accepts, but not in flight.\<close>

lemma listed_inv:
  assumes I: "iocp_inv s P F G A L" and b: "b \<in> set (A l)" "b \<notin> fst ` set (inflight s)" "bufs s b = Some ob"
    "length (buf ob') = length (buf ob)" "b_next ob' = b_next ob"
  shows "iocp_inv (s\<lparr>bufs := (bufs s)(b \<mapsto> ob')\<rparr>) P F G A L"
proof -
  have BI: "buffers_inv s P F A L" using I by (simp add: iocp_inv_def)
  note D = buffers_invD [OF BI]
  have bn: "bnext ((bufs s)(b \<mapsto> ob')) = bnext (bufs s)" using b(3,5) by (auto simp: bnext_def fun_eq_iff)
  have nP: "b \<notin> set P" using D(14) [of l] b(1) by auto
  have nb: "(b, k) \<notin> set (inflight s)" for k using b(2) by force
  have "buffers_inv (s\<lparr>bufs := (bufs s)(b \<mapsto> ob')\<rparr>) P F A L"
  proof (rule buffers_invI)
    show "length (buf x) = unat (gBufferSize (s\<lparr>bufs := (bufs s)(b \<mapsto> ob')\<rparr>))"
      if "bufs (s\<lparr>bufs := (bufs s)(b \<mapsto> ob')\<rparr>) y = Some x" for y x
      using that D(6) b(3,4) by (auto split: if_splits)
    show "y < heap_top (s\<lparr>bufs := (bufs s)(b \<mapsto> ob')\<rparr>)" if "bufs (s\<lparr>bufs := (bufs s)(b \<mapsto> ob')\<rparr>) y \<noteq> None" for y
      using that D(7) [of y] b(3) by (auto split: if_splits)
    show "\<exists>ob. bufs (s\<lparr>bufs := (bufs s)(b \<mapsto> ob')\<rparr>) y = Some ob \<and>
        (operation ob \<noteq> OP_WRITE \<longrightarrow> buflen ob = gBufferSize (s\<lparr>bufs := (bufs s)(b \<mapsto> ob')\<rparr>)) \<and>
        (if operation ob = OP_ACCEPT then y \<in> set (A k) else \<forall>l. y \<notin> set (A l))"
      if "(y, k) \<in> set (inflight (s\<lparr>bufs := (bufs s)(b \<mapsto> ob')\<rparr>))" for y k
      using D(8) [of y k] that nb [of k] by auto
  qed (use D bn in simp_all)
  then show ?thesis using I conns_spare [OF nP b(2), of ob'] by (simp add: iocp_inv_def)
qed

lemma InsertPendingAccept_inv:
  assumes I: "iocp_inv s P F G A L" and l: "l \<in> L" and b: "spare s P F A b" "bufs s b = Some ob"
  shows "wp (InsertPendingAccept l b s) (\<lambda>_ t. iocp_inv t P F G (A(l := b # A l)) L \<and> inflight t = inflight s \<and>
    gBufferSize t = gBufferSize s \<and> (\<exists>ob'. bufs t b = Some ob' \<and> buflen ob' = buflen ob) \<and> same_listeners s t)"
proof -
  have BI: "buffers_inv s P F A L" using I by (simp add: iocp_inv_def)
  note D = buffers_invD [OF BI]
  obtain lo :: LISTEN_OBJ where lo: "lstns s l = Some lo" "linked (bnext (bufs s)) (PendingAccepts lo) (A l)" using D(4) [OF l] by blast
  have nb: "b \<notin> set P" "b \<notin> set F" "\<And>l. b \<notin> set (A l)" "b \<notin> fst ` set (inflight s)" using b(1) by (auto simp: spare_def)
  let ?ob = "ob\<lparr>b_next := PendingAccepts lo\<rparr>"
  let ?lo = "lo\<lparr>PendingAccepts := Some b\<rparr>"
  let ?t = "s\<lparr>bufs := (bufs s)(b \<mapsto> ?ob), lstns := (lstns s)(l \<mapsto> ?lo)\<rparr>"
  have eq: "InsertPendingAccept l b s = Some ((), ?t)"
    using b(2) lo(1) by (cases "PendingAccepts lo") (simp_all add: InsertPendingAccept_def upd_buf_def upd_lstn_def)
  let ?u = "s\<lparr>bufs := (bufs s)(b \<mapsto> ?ob)\<rparr>"
  have iu: "iocp_inv ?u P F G A L" by (rule buf_inv(1) [OF I b]) simp
  then have E: "buffers_inv ?u P F A L" by (simp add: iocp_inv_def)
  have h: "map_option l_handle (((lstns s)(l \<mapsto> ?lo)) x) = map_option l_handle (lstns s x)" for x using lo by simp
  have "buffers_inv ?t P F (A(l := b # A l)) L"
  proof (rule buffers_invI)
    show "\<exists>lo. lstns ?t x = Some lo \<and> linked (bnext (bufs ?t)) (PendingAccepts lo) ((A(l := b # A l)) x)" if "x \<in> L" for x
      using buffers_invD(4) [OF E that] lo nb(3) by auto
    show "\<exists>ob. bufs ?t y = Some ob \<and> (operation ob \<noteq> OP_WRITE \<longrightarrow> buflen ob = gBufferSize ?t) \<and>
        (if operation ob = OP_ACCEPT then y \<in> set ((A(l := b # A l)) k) else \<forall>x. y \<notin> set ((A(l := b # A l)) x))"
      if y: "(y, k) \<in> set (inflight ?t)" for y k
    proof -
      have "y \<noteq> b" using y nb(4) by force
      then show ?thesis using buffers_invD(8) [OF E, of y k] y by auto
    qed
    show "set ((A(l := b # A l)) x) \<inter> (set P \<union> set F) = {}" for x using D(14) [of x] nb by auto
    show "x \<noteq> y \<Longrightarrow> set ((A(l := b # A l)) x) \<inter> set ((A(l := b # A l)) y) = {}" for x y using D(15) [of x y] nb by auto
  qed (use buffers_invD [OF E] D nb l in auto)
  moreover have "conns_inv ?t P G L = conns_inv ?u P G L" "sends_inv ?t = sends_inv ?u"
    using conns_lstn [of "(lstns s)(l \<mapsto> ?lo)" ?u] h by simp_all
  ultimately have "iocp_inv ?t P F G (A(l := b # A l)) L" using iu by (simp add: iocp_inv_def)
  then show ?thesis using lo unfolding eq wp_Some by (simp add: same_listeners_def)
qed

lemma buffers_fly_accept:
  assumes I: "buffers_inv s P F A L" and b: "b \<in> set (A l)" "b \<notin> fst ` set (inflight s)" "bufs s b = Some ob" "operation ob = OP_ACCEPT"
    "buflen ob = gBufferSize s"
  shows "buffers_inv (s\<lparr>inflight := inflight s @ [(b, l)]\<rparr>) P F A L"
proof (rule buffers_invI)
  note D = buffers_invD [OF I]
  show "fst ` set (inflight (s\<lparr>inflight := inflight s @ [(b, l)]\<rparr>)) \<inter> (set P \<union> set F) = {}" using D(14) [of l] D(16) b(1) by auto
  show "\<exists>ob. bufs (s\<lparr>inflight := inflight s @ [(b, l)]\<rparr>) y = Some ob \<and>
      (operation ob \<noteq> OP_WRITE \<longrightarrow> buflen ob = gBufferSize (s\<lparr>inflight := inflight s @ [(b, l)]\<rparr>)) \<and>
      (if operation ob = OP_ACCEPT then y \<in> set (A k) else \<forall>l. y \<notin> set (A l))"
    if "(y, k) \<in> set (inflight (s\<lparr>inflight := inflight s @ [(b, l)]\<rparr>))" for y k
  proof (cases "(y, k) \<in> set (inflight s)")
    case True
    then show ?thesis using D(8) [of y k] by simp
  qed (use that b in auto)
qed (use buffers_invD [OF I] b(2) in auto)

lemma PostAccept_inv:
  assumes I: "iocp_inv s P F G A L" and l: "l \<in> L" and b: "b \<in> set (A l)" "b \<notin> fst ` set (inflight s)" "bufs s b = Some ob"
    "buflen ob = gBufferSize s"
  shows "wp (PostAccept W l b s) (\<lambda>_ t. iocp_inv t P F G A L \<and> same_listeners s t)"
proof -
  have CI: "conns_inv s P G L" using I by (simp add: iocp_inv_def)
  obtain lo :: LISTEN_OBJ where lo: "lstns s l = Some lo" "assoc s (l_handle lo) = Some l" using conns_invD(9) [OF CI l] by blast
  have nP: "b \<notin> set P" using buffers_invD(14) [of s P F A L l] I b(1) by (auto simp: iocp_inv_def)
  let ?sc = "Call_socket (AddressFamily lo)"
  obtain err h where w: "W (calls s) ?sc = (err, h)" by fastforce
  let ?bad = "err \<noteq> 0 \<or> h = INVALID_SOCKET \<or> h \<in> opened s"
  let ?ob = "ob\<lparr>operation := OP_ACCEPT, sclient := (if ?bad then INVALID_SOCKET else h)\<rparr>"
  let ?s = "s\<lparr>bufs := (bufs s)(b \<mapsto> ?ob)\<rparr>"
  have ix: "iocp_inv ?s P F G A L" by (rule listed_inv [where l = l, OF I b(1-3)]) simp_all
  have cs: "conns_inv ?s P G L" "buffers_inv ?s P F A L" "sends_inv ?s" "echoing s" using ix by (simp_all add: iocp_inv_def)
  show ?thesis
  proof (cases ?bad)
    case True
    then have "PostAccept W l b s = Some (False, ?s\<lparr>calls := ?sc # calls s\<rparr>)"
      using b(3) lo(1) w by (auto simp: PostAccept_def upd_buf_def win_socket_def ask_def)
    then show ?thesis using ix by (simp add: same_listeners_def)
  next
    case ok: False
    let ?ac = "Call_AcceptEx (l_handle lo) h b"
    let ?cs = "?ac # ?sc # calls s"
    obtain err' v where w': "W (?sc # calls s) ?ac = (err', v)" by fastforce
    show ?thesis
    proof (cases "accepted err'")
      case False
      have "PostAccept W l b s = Some (False, ?s\<lparr>opened := insert h (opened s), calls := ?cs\<rparr>)"
        using b(3) lo(1) w w' ok False by (simp add: PostAccept_def upd_buf_def win_socket_def win_AcceptEx_def ask_def)
      moreover have "buffers_inv (?s\<lparr>opened := insert h (opened s), calls := ?cs\<rparr>) P F A L"
        by (rule buffers_cong [OF cs(2)]) simp_all
      moreover have sub: "opened ?s \<subseteq> insert h (opened s)" by auto
      moreover have "conns_inv (?s\<lparr>opened := insert h (opened s), calls := ?cs\<rparr>) P G L"
        by (rule conns_opened(1) [OF cs(1) sub])
      moreover have "sends_inv (?s\<lparr>opened := insert h (opened s), calls := ?cs\<rparr>)"
        unfolding conns_opened(2) [OF cs(1) sub] by (rule cs(3))
      ultimately show ?thesis using cs(4) by (simp add: iocp_inv_def same_listeners_def echoing_def)
    next
      case True
      let ?lo = "PendingAcceptCount_update (\<lambda>n. n + 1) lo"
      let ?u = "?s\<lparr>inflight := inflight s @ [(b, l)], opened := insert h (opened s), calls := ?cs\<rparr>"
      let ?t = "?u\<lparr>lstns := (lstns ?u)(l \<mapsto> ?lo)\<rparr>"
      have eq: "PostAccept W l b s = Some (True, ?t)"
        using b(3) lo w w' ok True
        by (simp add: PostAccept_def upd_buf_def upd_lstn_def win_socket_def win_AcceptEx_def ask_def post_def)
      have "buffers_inv (?s\<lparr>inflight := inflight ?s @ [(b, l)]\<rparr>) P F A L"
        by (rule buffers_fly_accept [where ob = ?ob, OF cs(2) b(1)]) (use b in simp_all)
      then have bu: "buffers_inv ?u P F A L" by (rule buffers_cong) simp_all
      have co: "cores (bufs ?s) b = Some (core ?ob)" by simp
      have cu: "conns_inv ?u P G L" "sends_inv ?u"
        using add_accepting [OF cs(1) nP _ co, where h = h and l = l and cs = ?cs] ok b(2) cs(3) by auto
      have iu: "iocp_inv ?u P F G A L" using bu cu cs(4) by (simp add: iocp_inv_def echoing_def)
      have "lstns ?u l = Some lo" using lo by simp
      then have "iocp_inv ?t P F G A L" by (rule lstn_inv(1) [OF iu]) simp_all
      then show ?thesis unfolding eq wp_Some using lo by (simp add: same_listeners_def)
    qed
  qed
qed

end
