(* ===== verification/IocpHandleIo.thy ===== *)
theory IocpHandleIo
  imports IocpAccepts
begin

text \<open>The handling of a completion and the posting of more accepts keep the invariant.\<close>

section \<open>More accepts\<close>

lemma add_accept_inv:
  assumes I: "iocp_inv s P F G A L" and l: "l \<in> L"
  shows "wp (add_accept W l s) (\<lambda>_ t. (\<exists>F' A'. iocp_inv t P F' G A' L) \<and> same_listeners s t)"
proof -
  have BI: "buffers_inv s P F A L" and CI: "conns_inv s P G L" and SI: "sends_inv s" using I by (simp_all add: iocp_inv_def)
  obtain r t where eq: "GetBufferObj W (gBufferSize s) s = Some (r, t)"
    and fr: "t = s\<lparr>bufs := bufs t, gFreeBufferList := gFreeBufferList t, heap_top := heap_top t, calls := calls t\<rparr>"
    and top: "heap_top s \<le> heap_top t"
    and r: "case r of None \<Rightarrow> buffers_inv t P F A L \<and> cores (bufs t) = cores (bufs s)
      | Some b \<Rightarrow> \<exists>F' ob. buffers_inv t P F' A L \<and> spare t P F' A b \<and> (\<forall>b'. spare s P F A b' \<longrightarrow> b' \<noteq> b) \<and>
          bufs t = (bufs s)(b \<mapsto> ob) \<and> buflen ob = gBufferSize s \<and> b \<notin> set P \<and> b \<notin> fst ` set (inflight s)"
    using GetBufferObj_buffers [OF BI, of W] by (elim wpE conjE)
  have f: "socks t = socks s" "lstns t = lstns s" "gFreeSocketList t = gFreeSocketList s" "opened t = opened s" "assoc t = assoc s"
    "inflight t = inflight s" "net t = net s" "gOutstandingSends t = gOutstandingSends s" "gMaxSends t = gMaxSends s"
    "ListenSockets t = ListenSockets s" "gMaxAccepts t = gMaxAccepts s" "gBufferSize t = gBufferSize s"
    by (subst fr; simp)+
  have sl: "same_listeners s t" using f by (simp add: same_listeners_def)
  have iocp_inv: "iocp_inv t P F' G A L" if "buffers_inv t P F' A L" "conns_inv (s\<lparr>bufs := bufs t\<rparr>) P G L" "sends_inv (s\<lparr>bufs := bufs t\<rparr>)" for F'
  proof -
    have "untouched (s\<lparr>bufs := bufs t\<rparr>) t" by (rule untouchedI) (use f top in simp_all)
    then show ?thesis using that untouched(1,2) I f by (simp add: iocp_inv_def echoing_def)
  qed
  show ?thesis
  proof (cases r)
    case None
    then have "iocp_inv t P F G A L" using r iocp_inv relinked CI SI by simp
    then show ?thesis using eq None sl by (auto simp: add_accept_def)
  next
    case (Some b)
    then obtain F' ob where b: "buffers_inv t P F' A L" "spare t P F' A b" "bufs t = (bufs s)(b \<mapsto> ob)"
      "buflen ob = gBufferSize s" "b \<notin> set P" "b \<notin> fst ` set (inflight s)" using r by auto
    have it: "iocp_inv t P F' G A L" using iocp_inv [OF b(1)] conns_spare [OF b(5,6), of ob] b(3) CI SI by simp
    obtain lo where lo: "lstns t l = Some lo" using conns_invD(9) [of t P G L l] it l by (auto simp: iocp_inv_def)
    let ?ob = "ob\<lparr>PostAccept_event := AcceptEvent lo\<rparr>"
    let ?u = "t\<lparr>bufs := (bufs t)(b \<mapsto> ?ob)\<rparr>"
    have bt: "bufs t b = Some ob" using b(3) by simp
    have iu: "iocp_inv ?u P F' G A L" "spare ?u P F' A b" using buf_inv [OF it b(2) bt, of ?ob] b(2) by simp_all
    have su: "same_listeners s ?u" using sl by (simp add: same_listeners_def)
    have bu: "bufs ?u b = Some ?ob" by simp
    have "wp (InsertPendingAccept l b ?u) (\<lambda>_ v. wp (PostAccept W l b v) (\<lambda>_ w. (\<exists>F' A'. iocp_inv w P F' G A' L) \<and> same_listeners s w))"
    proof (rule wp_mono [OF InsertPendingAccept_inv [OF iu(1) l iu(2) bu]])
      fix x v
      assume v: "iocp_inv v P F' G (A(l := b # A l)) L \<and> inflight v = inflight ?u \<and> gBufferSize v = gBufferSize ?u \<and>
        (\<exists>ob'. bufs v b = Some ob' \<and> buflen ob' = buflen ?ob) \<and> same_listeners ?u v"
      then obtain ob' where ob': "bufs v b = Some ob'" "buflen ob' = gBufferSize v" using b(4) f by auto
      show "wp (PostAccept W l b v) (\<lambda>_ w. (\<exists>F' A'. iocp_inv w P F' G A' L) \<and> same_listeners s w)"
        by (rule wp_mono [OF PostAccept_inv [of v P F' G "A(l := b # A l)" L l b ob']])
          (use v ob' l b(6) f same_listeners_trans [OF su] in \<open>auto intro: same_listeners_trans\<close>)
    qed
    then show ?thesis using eq Some lo bt by (simp add: add_accept_def upd_buf_def)
  qed
qed

lemma repost_inv:
  assumes "iocp_inv s P F G A L" "l \<in> L"
  shows "wp (repost W l n s) (\<lambda>_ t. (\<exists>F' A'. iocp_inv t P F' G A' L) \<and> same_listeners s t)"
  using assms
proof (induction n arbitrary: s F A)
  case (Suc n)
  obtain lo where lo: "lstns s l = Some lo" using conns_invD(9) [of s P G L l] Suc.prems by (auto simp: iocp_inv_def)
  show ?case
  proof (cases "PendingAcceptCount lo < gMaxAccepts s")
    case True
    have "wp (add_accept W l s) (\<lambda>_ t. wp (repost W l n t) (\<lambda>_ u. (\<exists>F' A'. iocp_inv u P F' G A' L) \<and> same_listeners s u))"
    proof (rule wp_mono [OF add_accept_inv [OF Suc.prems]], elim conjE exE)
      fix t F' A' assume t: "same_listeners s t" "iocp_inv t P F' G A' L"
      show "wp (repost W l n t) (\<lambda>_ u. (\<exists>F' A'. iocp_inv u P F' G A' L) \<and> same_listeners s u)"
        by (rule wp_mono [OF Suc.IH [OF t(2) Suc.prems(2)]]) (auto intro: same_listeners_trans [OF t(1)])
    qed
    then show ?thesis using lo True by simp
  next
    case False
    then show ?thesis using lo Suc.prems by auto
  qed
qed auto

section \<open>A new client\<close>

lemma free_handle_open: "free_handle s P L h \<Longrightarrow> h \<in> opened s"
  by (simp add: free_handle_def)

lemma upd_lstn_inv:
  assumes I: "iocp_inv s P F G A L" and l: "l \<in> L"
  shows "wp (upd_lstn l (RepostCount_update f) s) (\<lambda>_ t. iocp_inv t P F G A L \<and> same_listeners s t)"
    "wp (upd_lstn l (PendingAcceptCount_update f) s) (\<lambda>_ t. iocp_inv t P F G A L \<and> same_listeners s t \<and> bufs t = bufs s \<and>
       inflight t = inflight s \<and> net t = net s \<and> (\<forall>h. free_handle s P L h \<longrightarrow> free_handle t P L h))"
proof -
  obtain lo where lo: "lstns s l = Some lo" using conns_invD(9) [of s P G L l] I l by (auto simp: iocp_inv_def)
  show "wp (upd_lstn l (RepostCount_update f) s) (\<lambda>_ t. iocp_inv t P F G A L \<and> same_listeners s t)"
    using lo lstn_inv(1) [OF I lo] by (simp add: upd_lstn_def same_listeners_def)
  show "wp (upd_lstn l (PendingAcceptCount_update f) s) (\<lambda>_ t. iocp_inv t P F G A L \<and> same_listeners s t \<and> bufs t = bufs s \<and>
       inflight t = inflight s \<and> net t = net s \<and> (\<forall>h. free_handle s P L h \<longrightarrow> free_handle t P L h))"
    using lo lstn_inv(1,3) [OF I lo] by (simp add: upd_lstn_def same_listeners_def)
qed

lemma new_client_inv:
  assumes I: "iocp_inv s P F G A L" and l: "l \<in> L" and b: "spare s P F A b" "bufs s b = Some ob"
    and h: "free_handle s P L (sclient ob)" and n: "unat n \<le> length (buf ob)"
    and e: "echoed (net s) (sclient ob) = (take (unat n) (buf ob), [])"
  shows "wp (new_client W l b n s) (\<lambda>_ t. (\<exists>P' F' G'. iocp_inv t P' F' G' A L) \<and> same_listeners s t)"
proof -
  obtain lo where lo: "lstns s l = Some lo" using conns_invD(9) [of s P G L l] I l by (auto simp: iocp_inv_def)
  obtain r t where eq: "GetSocketObj W (sclient ob) (AddressFamily lo) s = Some (r, t)"
    and f: "bufs t = bufs s" "inflight t = inflight s" "lstns t = lstns s" "net t = net s" "ListenSockets t = ListenSockets s"
      "free_handle t P L (sclient ob)"
    and r: "case r of None \<Rightarrow> iocp_inv t P F G A L | Some k \<Rightarrow> \<exists>G' c. iocp_inv t P F G' A L \<and> newborn t P G' (sclient ob) k c"
    using GetSocketObj_inv [OF I h, of W "AddressFamily lo"] by (elim wpE conjE)
  show ?thesis
  proof (cases r)
    case None
    let ?cs = "Call_closesocket (sclient ob) # calls t"
    let ?t1 = "t\<lparr>calls := ?cs, opened := opened t - {sclient ob}\<rparr>"
    let ?t2 = "?t1\<lparr>bufs := (bufs t)(b \<mapsto> ob\<lparr>sclient := INVALID_SOCKET\<rparr>)\<rparr>"
    have it: "iocp_inv t P F G A L" using r None by simp
    have e1: "?t1 = t\<lparr>opened := opened t - {sclient ob}, calls := ?cs\<rparr>" by simp
    have i1: "iocp_inv ?t1 P F G A L" unfolding e1 by (rule closed_handle_inv [OF it f(6)])
    have sp: "spare ?t1 P F A b" "bufs ?t1 b = Some ob" using b f by (simp_all add: spare_def)
    have i2: "iocp_inv ?t2 P F G A L" "spare ?t2 P F A b" using buf_inv [OF i1 sp, of "ob\<lparr>sclient := INVALID_SOCKET\<rparr>"] sp by simp_all
    have s2: "same_listeners s ?t2" using f by (simp add: same_listeners_def)
    have "wp (FreeBufferObj b ?t2) (\<lambda>_ u. wp (upd_lstn l (RepostCount_update (\<lambda>n. n + 1)) u)
        (\<lambda>_ v. (\<exists>P' F' G'. iocp_inv v P' F' G' A L) \<and> same_listeners s v))"
    proof (rule wp_mono [OF FreeBuffer_inv [OF i2]], elim conjE)
      fix u assume u: "iocp_inv u P (b # F) G A L" "kept ?t2 u"
      show "wp (upd_lstn l (RepostCount_update (\<lambda>n. n + 1)) u) (\<lambda>_ v. (\<exists>P' F' G'. iocp_inv v P' F' G' A L) \<and> same_listeners s v)"
        by (rule wp_mono [OF upd_lstn_inv(1) [OF u(1) l]])
          (use s2 kept_listeners [OF u(2)] in \<open>auto intro: same_listeners_trans\<close>)
    qed
    then show ?thesis using eq None lo b(2) f(1)
      by (simp add: new_client_def win_closesocket_def ask_def SetEvent_def wp_upd(1) same_listeners_def del: wp_upd(3))
  next
    case (Some k)
    obtain G' c where c: "iocp_inv t P F G' A L" "newborn t P G' (sclient ob) k c" using r Some by auto
    let ?call = "Call_CreateIoCompletionPort (sclient ob) k"
    obtain err v where w: "W (calls t) ?call = (err, v)" by fastforce
    show ?thesis
    proof (cases "err = 0")
      case False
      then have "new_client W l b n s = Some (False, t\<lparr>calls := ?call # calls t\<rparr>)"
        using eq Some lo b(2) w by (simp add: new_client_def win_CreateIoCompletionPort_def ask_def)
      then show ?thesis using c(1) f by (auto simp: same_listeners_def)
    next
      case True
      let ?t1 = "t\<lparr>calls := ?call # calls t, assoc := (assoc t)(sclient ob \<mapsto> k)\<rparr>"
      let ?ob = "ob\<lparr>buflen := n, sock := Some k\<rparr>"
      let ?t2 = "?t1\<lparr>bufs := (bufs t)(b \<mapsto> ?ob)\<rparr>"
      have e1: "?t1 = t\<lparr>assoc := (assoc t)(sclient ob \<mapsto> k), calls := ?call # calls t\<rparr>" by simp
      have i1: "iocp_inv ?t1 P F G' A L" "idle ?t1 P G' L k c" unfolding e1 by (rule associate_inv [OF c(1) f(6) c(2)])+
      have sp: "spare ?t1 P F A b" "bufs ?t1 b = Some ob" using b f by (simp_all add: spare_def)
      have i2: "iocp_inv ?t2 P F G' A L" "spare ?t2 P F A b" "idle ?t2 P G' L k c"
        using buf_inv [OF i1(1) sp, of ?ob] sp i1 by simp_all
      have o: "owes ?t2 k c b" using c(2) n e f by (simp add: owes_def newborn_def)
      have s2: "same_listeners s ?t2" using f by (simp add: same_listeners_def)
      have "wp (EnqueuePendingOperation b OP_WRITE ?t2) (\<lambda>_ u. wp (upd_lstn l (RepostCount_update (\<lambda>n. n + 1)) u)
          (\<lambda>_ v. (\<exists>P' F' G'. iocp_inv v P' F' G' A L) \<and> same_listeners s v))"
      proof (rule wp_mono [OF Enqueue_inv [OF i2(1) i2(3) i2(2) o]], elim conjE)
        fix u assume u: "iocp_inv u (P @ [b]) F G' A L" "kept ?t2 u"
        show "wp (upd_lstn l (RepostCount_update (\<lambda>n. n + 1)) u) (\<lambda>_ v. (\<exists>P' F' G'. iocp_inv v P' F' G' A L) \<and> same_listeners s v)"
          by (rule wp_mono [OF upd_lstn_inv(1) [OF u(1) l]])
            (use s2 kept_listeners [OF u(2)] in \<open>auto intro: same_listeners_trans\<close>)
      qed
      then show ?thesis using eq Some lo b(2) f(1) w True
        by (simp add: new_client_def win_CreateIoCompletionPort_def ask_def SetEvent_def wp_upd(1) same_listeners_def del: wp_upd(3))
    qed
  qed
qed

end
