(* ===== verification/IocpCompletions.thy ===== *)
theory IocpCompletions
  imports IocpHandleIo
begin

text \<open>Every kind of completion is handled within the invariant.\<close>

section \<open>An accept has completed\<close>

abbreviation good :: "iocp \<Rightarrow> nat set \<Rightarrow> iocp \<Rightarrow> bool" where
  "good s L t \<equiv> (\<exists>P F G A. iocp_inv t P F G A L) \<and> same_listeners s t"

lemma accepted_io_inv:
  assumes I: "iocp_inv s P F G A L" and b: "b \<in> set (A l)" "b \<notin> fst ` set (inflight s)" "bufs s b = Some ob"
    and h: "free_handle s P L (sclient ob)" and n: "unat n \<le> length (buf ob)"
    and e: "echoed (net s) (sclient ob) = (take (unat n) (buf ob), [])"
  shows "wp (accepted_io W l b n s) (\<lambda>_ t. good s L t)"
proof -
  have l: "l \<in> L" using buffers_invD(5) [of s P F A L l] I b(1) by (cases "l \<in> L") (auto simp: iocp_inv_def)
  let ?s = "s\<lparr>gConnections := gConnections s + 1, gConnectionsLast := gConnectionsLast s + 1\<rparr>"
  have i1: "iocp_inv ?s P F G A L" using I by simp
  have "wp (upd_lstn l (PendingAcceptCount_update (\<lambda>n. n - 1)) ?s) (\<lambda>_ t.
    wp (RemovePendingAccept l b (t\<lparr>gBytesRead := gBytesRead t + n, gBytesReadLast := gBytesReadLast t + n\<rparr>))
      (\<lambda>_ u. wp (new_client W l b n u) (\<lambda>_ v. good s L v)))"
  proof (rule wp_mono [OF upd_lstn_inv(2) [OF i1 l]], elim conjE)
    fix t
    assume t: "iocp_inv t P F G A L" "same_listeners ?s t" "bufs t = bufs ?s" "inflight t = inflight ?s" "net t = net ?s"
      "\<forall>h. free_handle ?s P L h \<longrightarrow> free_handle t P L h"
    let ?t = "t\<lparr>gBytesRead := gBytesRead t + n, gBytesReadLast := gBytesReadLast t + n\<rparr>"
    have it: "iocp_inv ?t P F G A L" "b \<notin> fst ` set (inflight ?t)" "free_handle ?t P L (sclient ob)" using t b h by simp_all
    have st: "same_listeners s ?t" using t(2) by (simp add: same_listeners_def)
    show "wp (RemovePendingAccept l b ?t) (\<lambda>_ u. wp (new_client W l b n u) (\<lambda>_ v. good s L v))"
    proof (rule wp_mono [OF RemovePendingAccept_inv [OF it(1) b(1) it(2)]], elim conjE)
      fix u
      assume u: "iocp_inv u P F G (A(l := remove1 b (A l))) L" "spare u P F (A(l := remove1 b (A l))) b" "cores (bufs u) = cores (bufs ?t)"
        "net u = net ?t" "\<forall>h. free_handle ?t P L h \<longrightarrow> free_handle u P L h" "same_listeners ?t u"
      have "cores (bufs u) b = Some (core ob)" using u(3) b(3) t(3) by simp
      then obtain ob' where ob': "bufs u b = Some ob'" "core ob' = core ob" by (auto simp: cores_Some)
      then have o: "sclient ob' = sclient ob" "buf ob' = buf ob" by (metis core_fields(1,2))+
      show "wp (new_client W l b n u) (\<lambda>_ v. good s L v)"
        by (rule wp_mono [OF new_client_inv [OF u(1) l u(2) ob'(1)]])
          (use u it t o n e st in \<open>auto intro: same_listeners_trans\<close>)
    qed
  qed
  then show ?thesis by (simp add: accepted_io_def Let_def)
qed

lemma HandleIo_accept:
  assumes I: "iocp_inv s P F G A L" and b: "b \<in> set (A l)" "b \<notin> fst ` set (inflight s)" "bufs s b = Some ob" "operation ob = OP_ACCEPT"
    and h: "free_handle s P L (sclient ob)" and n: "unat n \<le> length (buf ob)"
    and e: "echoed (net s) (sclient ob) = (take (unat n) (buf ob), [])"
  shows "runs W (HandleIo W l b n 0 s) (\<lambda>_ t. good s L t)"
proof -
  have "runs W (do { (go, s) \<leftarrow> accepted_io W l b n s; if go then ProcessPendingOperations W s else Some ((), s) }) (\<lambda>_ t. good s L t)"
  proof (rule runs_wp_bindI [OF accepted_io_inv [OF I b(1-3) h n e]], elim conjE exE)
    fix go t P F G A assume t: "iocp_inv t P F G A L" "same_listeners s t"
    then show "runs W (case (go, t) of (go, s) \<Rightarrow> if go then ProcessPendingOperations W s else Some ((), s)) (\<lambda>_ t. good s L t)"
      using ProcessPendingOperations_inv [OF t(1), of W] same_listeners_trans [OF t(2)]
      by (auto elim!: runs_mono dest!: kept_listeners)
  qed
  then show ?thesis using b by (simp add: HandleIo_def)
qed

section \<open>Bytes have been received\<close>

lemma bind_case_prod: "Option.bind (case y of (a, b) \<Rightarrow> f a b) g = (case y of (a, b) \<Rightarrow> Option.bind (f a b) g)"
  by (cases y) simp

lemma HandleIo_read:
  assumes I: "iocp_inv s P F G A L" and i: "idle s P G L k c" and b: "spare s P F A b" "bufs s b = Some ob" "operation ob = OP_READ"
    and c: "OutstandingRecv c = 1" "OutstandingSend c = 0" "PendingSend c = 0" "\<not> bClosing c" and n: "unat n \<le> length (buf ob)"
    and e: "fst (echoed (net s) (s_handle c)) = snd (echoed (net s) (s_handle c)) @ take (unat n) (buf ob)"
  shows "runs W (HandleIo W k b n 0 s) (\<lambda>_ t. good s L t)"
proof -
  note k = idleD(1) [OF i]
  let ?c = "OutstandingRecv_update (\<lambda>n. n - 1) c"
  let ?s = "s\<lparr>socks := (socks s)(k \<mapsto> ?c)\<rparr>"
  have i1: "iocp_inv ?s P F G A L" "idle ?s P G L k ?c" using idle_upd_inv [OF I i, of ?c] by simp_all
  show ?thesis
  proof (cases "0 < n")
    case True
    let ?t = "?s\<lparr>gBytesRead := gBytesRead s + n, gBytesReadLast := gBytesReadLast s + n\<rparr>"
    let ?ob = "ob\<lparr>buflen := n, sock := Some k\<rparr>"
    let ?u = "?t\<lparr>bufs := (bufs s)(b \<mapsto> ?ob)\<rparr>"
    have it: "iocp_inv ?t P F G A L" "spare ?t P F A b" "bufs ?t b = Some ob" using i1 b by simp_all
    have iu: "iocp_inv ?u P F G A L" "spare ?u P F A b" "idle ?u P G L k ?c"
      using buf_inv [OF it, of ?ob] it i1 by simp_all
    have o: "owes ?u k ?c b" using c n e by (simp add: owes_def at_rest_def)
    have "runs W (do { (_, s) \<leftarrow> EnqueuePendingOperation b OP_WRITE ?u; (_, s) \<leftarrow> ProcessPendingOperations W s; cleanup W k False s })
      (\<lambda>_ t. good s L t)"
    proof (rule runs_wp_bindI [OF Enqueue_inv [OF iu(1) iu(3) iu(2) o]], elim conjE)
      fix x v assume v: "iocp_inv v (P @ [b]) F G A L" "kept ?u v"
      show "runs W (case (x, v) of (_, s) \<Rightarrow> do { (_, s) \<leftarrow> ProcessPendingOperations W s; cleanup W k False s }) (\<lambda>_ t. good s L t)"
        unfolding prod.case
      proof (rule runs_bindI [OF ProcessPendingOperations_inv [OF v(1)]], elim conjE exE)
        fix x w P' F' assume w: "iocp_inv w P' F' G A L" "kept v w"
        have ku: "kept ?u w" using v(2) w(2) by (rule kept_trans)
        then obtain c' where "socks w k = Some c'" "\<not> bClosing c'" using keptD [OF ku, of k ?c] c by auto
        then have "cleanup W k False w = Some ((), w)" by (rule cleanup_nothing)
        moreover have "same_listeners s w" using kept_listeners [OF ku] by (simp add: same_listeners_def)
        ultimately show "runs W (case (x, w) of (_, s) \<Rightarrow> cleanup W k False s) (\<lambda>_ t. good s L t)" using w(1) by auto
      qed
    qed
    then show ?thesis using b k True by (simp add: HandleIo_def received_io_def upd_sock_def upd_buf_def bind_case_prod)
  next
    case False
    then have n0: "n = 0" by (simp add: word_neq_0_conv [symmetric])
    let ?d = "?c\<lparr>bClosing := True\<rparr>"
    let ?t = "?s\<lparr>socks := (socks ?s)(k \<mapsto> ?d)\<rparr>"
    have it: "iocp_inv ?t P F G A L" "idle ?t P G L k ?d" "spare ?t P F A b" using idle_upd_inv [OF i1, of ?d] b by simp_all
    obtain u where u: "FreeBufferObj b ?t = Some ((), u)" "iocp_inv u P (b # F) G A L" "kept ?t u" "\<forall>k c. idle ?t P G L k c \<longrightarrow> idle u P G L k c"
      using FreeBuffer_inv [OF it(1,3)] by (elim wpE) auto
    have iu: "idle u P G L k ?d" using u(4) it(2) by simp
    have rec: "received_io k b n s = Some (True, u)"
      using k n0 u(1) idleD(1) [OF iu] c by (simp add: received_io_def upd_sock_def)
    have "runs W (do { (_, s) \<leftarrow> ProcessPendingOperations W u; cleanup W k True s }) (\<lambda>_ t. good s L t)"
    proof (rule runs_bindI [OF ProcessPendingOperations_inv [OF u(2)]], elim conjE exE)
      fix x w P' F' assume w: "iocp_inv w P' F' G A L" "kept u w" "\<forall>k c. idle u P G L k c \<longrightarrow> idle w P' G L k c"
      have iw: "idle w P' G L k ?d" using w(3) iu by simp
      have sw: "same_listeners s w" using kept_listeners [OF kept_trans [OF u(3) w(2)]] by (simp add: same_listeners_def)
      have "wp (cleanup W k True w) (\<lambda>_ t. good s L t)"
        by (rule wp_mono [OF cleanup_inv [OF w(1) iw]]) (use sw in \<open>auto simp: same_listeners_def\<close>)
      then show "runs W (case (x, w) of (_, s) \<Rightarrow> cleanup W k True s) (\<lambda>_ t. good s L t)" by (simp add: wp_runs)
    qed
    then show ?thesis using b rec by (simp add: HandleIo_def)
  qed
qed

section \<open>A send has completed\<close>

lemma HandleIo_write:
  assumes I: "iocp_inv s P F G A L" and i: "idle s P G L k c" and b: "spare s P F A b" "bufs s b = Some ob" "operation ob = OP_WRITE"
    and c: "OutstandingRecv c = 0" "OutstandingSend c = 1" "PendingSend c = 0" "\<not> bClosing c"
    and w: "int (length (writes s)) < gOutstandingSends s"
    and e: "fst (echoed (net s) (s_handle c)) = snd (echoed (net s) (s_handle c))"
  shows "runs W (HandleIo W k b n 0 s) (\<lambda>_ t. good s L t)"
proof -
  note k = idleD(1) [OF i]
  let ?c = "OutstandingSend_update (\<lambda>n. n - 1) c"
  let ?s = "s\<lparr>socks := (socks s)(k \<mapsto> ?c)\<rparr>"
  have i1: "iocp_inv ?s P F G A L" "idle ?s P G L k ?c" using idle_upd_inv [OF I i, of ?c] by simp_all
  let ?t0 = "?s\<lparr>gOutstandingSends := gOutstandingSends s - 1\<rparr>"
  let ?t = "?t0\<lparr>gBytesSent := gBytesSent s + n, gBytesSentLast := gBytesSentLast s + n\<rparr>"
  have "sends_inv ?t0" using I w by (simp add: iocp_inv_def sends_inv_def writes_def)
  then have it0: "iocp_inv ?t0 P F G A L" using i1(1) by (simp add: iocp_inv_def)
  have it: "iocp_inv ?t P F G A L" "spare ?t P F A b" "bufs ?t b = Some ob" using it0 b by simp_all
  let ?ob = "ob\<lparr>buflen := gBufferSize s\<rparr>" and ?ob' = "ob\<lparr>buflen := gBufferSize s, sock := Some k\<rparr>"
  let ?u = "?t\<lparr>bufs := (bufs s)(b \<mapsto> ?ob')\<rparr>"
  have iu: "iocp_inv ?u P F G A L" "spare ?u P F A b" "idle ?u P G L k ?c" using buf_inv [OF it, of ?ob'] it i1 by simp_all
  have bu: "bufs ?u b = Some ?ob'" "buflen ?ob' = gBufferSize ?u" by simp_all
  have pr: "wp (PostRecv W k b ?u) (\<lambda>_ t. iocp_inv t P F G A L \<and> kept ?u t)"
    by (rule PostRecv_inv [OF iu(1,3) _ _ iu(2) bu]) (use c e in \<open>simp_all add: at_rest_def\<close>)
  have "runs W (do { (_, s) \<leftarrow> PostRecv W k b ?u; (_, s) \<leftarrow> ProcessPendingOperations W s; cleanup W k False s }) (\<lambda>_ t. good s L t)"
  proof (rule runs_wp_bindI [OF pr], elim conjE)
    fix x v assume v: "iocp_inv v P F G A L" "kept ?u v"
    show "runs W (case (x, v) of (_, s) \<Rightarrow> do { (_, s) \<leftarrow> ProcessPendingOperations W s; cleanup W k False s }) (\<lambda>_ t. good s L t)"
      unfolding prod.case
    proof (rule runs_bindI [OF ProcessPendingOperations_inv [OF v(1)]], elim conjE exE)
      fix x w P' F' assume w: "iocp_inv w P' F' G A L" "kept v w"
      have ku: "kept ?u w" using v(2) w(2) by (rule kept_trans)
      then obtain c' where "socks w k = Some c'" "\<not> bClosing c'" using keptD [OF ku, of k ?c] c by auto
      then have "cleanup W k False w = Some ((), w)" by (rule cleanup_nothing)
      moreover have "same_listeners s w" using kept_listeners [OF ku] by (simp add: same_listeners_def)
      ultimately show "runs W (case (x, w) of (_, s) \<Rightarrow> cleanup W k False s) (\<lambda>_ t. good s L t)" using w(1) by auto
    qed
  qed
  then show ?thesis using b k c by (simp add: HandleIo_def sent_io_def upd_sock_def upd_buf_def bind_case_prod)
qed

section \<open>An operation has failed\<close>

lemma HandleIo_failed:
  assumes I: "iocp_inv s P F G A L" and i: "idle s P G L k c" and b: "spare s P F A b" "bufs s b = Some ob" "operation ob \<noteq> OP_ACCEPT"
    and c: "OutstandingRecv c = (if operation ob = OP_READ then 1 else 0)" "OutstandingSend c = (if operation ob = OP_WRITE then 1 else 0)"
    and e: "error \<noteq> 0"
  shows "wp (HandleIo W k b n error s) (\<lambda>_ t. good s L t)"
proof -
  note k = idleD(1) [OF i]
  have "\<exists>c'. s_handle c' = s_handle c \<and> failed_io W k (operation ob) s = FreeSocketObj W k (s\<lparr>socks := (socks s)(k \<mapsto> c')\<rparr>)"
  proof (cases "operation ob")
    case OP_READ
    then show ?thesis using k c by (intro exI [of _ "OutstandingRecv_update (\<lambda>n. n - 1) c"]) (simp add: failed_io_def upd_sock_def)
  next
    case OP_WRITE
    then show ?thesis using k c by (intro exI [of _ "OutstandingSend_update (\<lambda>n. n - 1) c"]) (simp add: failed_io_def upd_sock_def)
  qed (use b in simp)
  then obtain c' where c': "s_handle c' = s_handle c" "failed_io W k (operation ob) s = FreeSocketObj W k (s\<lparr>socks := (socks s)(k \<mapsto> c')\<rparr>)"
    by blast
  have i1: "iocp_inv (s\<lparr>socks := (socks s)(k \<mapsto> c')\<rparr>) P F G A L" "idle (s\<lparr>socks := (socks s)(k \<mapsto> c')\<rparr>) P G L k c'"
    using idle_upd_inv [OF I i c'(1)] by simp_all
  have "wp (FreeSocketObj W k (s\<lparr>socks := (socks s)(k \<mapsto> c')\<rparr>)) (\<lambda>_ t. wp (FreeBufferObj b t) (\<lambda>_ u. good s L u))"
  proof (rule wp_mono [OF FreeSocketObj_inv [OF i1]], elim conjE)
    fix t assume t: "iocp_inv t P F (k # G) A L" "bufs t = bufs (s\<lparr>socks := (socks s)(k \<mapsto> c')\<rparr>)"
      "inflight t = inflight (s\<lparr>socks := (socks s)(k \<mapsto> c')\<rparr>)" "lstns t = lstns (s\<lparr>socks := (socks s)(k \<mapsto> c')\<rparr>)"
      "ListenSockets t = ListenSockets (s\<lparr>socks := (socks s)(k \<mapsto> c')\<rparr>)"
    have "spare t P F A b" using b(1) t by (simp add: spare_def)
    then show "wp (FreeBufferObj b t) (\<lambda>_ u. good s L u)"
      by (rule wp_mono [OF FreeBuffer_inv [OF t(1)]]) (use t in \<open>auto simp: same_listeners_def kept_def\<close>)
  qed
  then show ?thesis using b e c'(2) by (simp add: HandleIo_def)
qed

end
