(* ===== verification/IocpServing.thy ===== *)
theory IocpServing
  imports IocpCompletions
begin

text \<open>The loop of \<open>main\<close>, and the start of the server.\<close>

section \<open>The list of listening sockets\<close>

definition lnext :: "(nat \<Rightarrow> LISTEN_OBJ option) \<Rightarrow> nat \<Rightarrow> nat option option" where
  "lnext ls p = map_option l_next (ls p)"

definition serving :: "iocp \<Rightarrow> nat list \<Rightarrow> bool" where
  "serving s LS \<longleftrightarrow> (\<exists>P F G A. iocp_inv s P F G A (set LS)) \<and> linked (lnext (lstns s)) (ListenSockets s) LS"

lemma same_lnext: "same_listeners s t \<Longrightarrow> lnext (lstns t) = lnext (lstns s)"
  by (simp add: same_listeners_def lnext_def fun_eq_iff)

lemma lnext_linked:
  "linked (lnext ls) p (l # LS) \<Longrightarrow> \<exists>lo. ls l = Some lo \<and> p = Some l \<and> linked (lnext ls) (l_next lo) LS"
  by (auto simp: lnext_def split: option.splits)

lemma bnext_linked:
  "linked (bnext bs) p (x # xs) \<Longrightarrow> \<exists>ob. bs x = Some ob \<and> p = Some x \<and> linked (bnext bs) (b_next ob) xs"
  by (auto simp: bnext_def split: option.splits)

lemma servingI: "(\<exists>P F G A. iocp_inv t P F G A (set LS)) \<and> same_listeners s t \<Longrightarrow> serving s LS \<Longrightarrow> serving t LS"
  using same_lnext [of s t] by (simp add: serving_def same_listeners_def)

lemma serving_frame [simp]:
  "serving (s\<lparr>calls := x\<rparr>) LS = serving s LS" "serving (s\<lparr>signalled := y\<rparr>) LS = serving s LS"
  "serving (s\<lparr>interval := z\<rparr>) LS = serving s LS"
  "serving (s\<lparr>gBytesSentLast := a, gBytesReadLast := b, gConnectionsLast := c, gStartTimeLast := d\<rparr>) LS = serving s LS"
  by (simp_all add: serving_def)

lemma find_listener_finds:
  assumes "linked (lnext ls) p LS"
  shows "\<exists>r. find_listener ls e p = Some r \<and> (case r of None \<Rightarrow> True | Some l \<Rightarrow> l \<in> set LS)"
  using assms
proof (induction LS arbitrary: p)
  case Nil
  then show ?case by (subst find_listener.simps) simp
next
  case (Cons l LS)
  from lnext_linked [OF Cons.prems] obtain lo where lo: "ls l = Some lo" "p = Some l" "linked (lnext ls) (l_next lo) LS"
    by blast
  obtain r where "find_listener ls e (l_next lo) = Some r" "case r of None \<Rightarrow> True | Some l \<Rightarrow> l \<in> set LS"
    using Cons.IH [OF lo(3)] by blast
  then show ?case using lo by (subst find_listener.simps) (auto split: option.splits)
qed

section \<open>A turn of the loop\<close>

lemma handle_event_serving:
  assumes s: "serving s LS"
  shows "wp (handle_event W e s) (\<lambda>_ t. serving t LS)"
proof -
  obtain P F G A where I: "iocp_inv s P F G A (set LS)" and ll: "linked (lnext (lstns s)) (ListenSockets s) LS"
    using s by (auto simp: serving_def)
  obtain r where r: "find_listener (lstns s) e (ListenSockets s) = Some r" "case r of None \<Rightarrow> True | Some l \<Rightarrow> l \<in> set LS"
    using find_listener_finds [OF ll] by blast
  show ?thesis
  proof (cases r)
    case None
    then show ?thesis using r s by (simp add: handle_event_def)
  next
    case (Some l)
    then have l: "l \<in> set LS" using r by simp
    obtain lo where lo: "lstns s l = Some lo" using conns_invD(9) [of s P G "set LS" l] I l by (auto simp: iocp_inv_def)
    have post: "wp (repost W l n t) (\<lambda>_ u. serving u LS)" if "iocp_inv t P F G A (set LS)" "same_listeners s t" for t n
      by (rule wp_mono [OF repost_inv [OF that(1) l]]) (use that(2) s in \<open>auto intro!: servingI [of _ _ s] intro: same_listeners_trans\<close>)
    show ?thesis
    proof (cases "AcceptEvent lo = e")
      case True
      obtain err ne where w: "W (calls s) (Call_WSAEnumNetworkEvents (l_handle lo) e) = (err, ne)" by fastforce
      let ?s = "s\<lparr>calls := Call_WSAEnumNetworkEvents (l_handle lo) e # calls s\<rparr>"
      have "iocp_inv (if err = 0 then ResetEvent e ?s else ?s) P F G A (set LS)" "same_listeners s (if err = 0 then ResetEvent e ?s else ?s)"
        using I by (simp_all add: ResetEvent_def same_listeners_def)
      from post [OF this] show ?thesis
        using r Some lo True w by (simp add: handle_event_def ask_def)
    next
      case False
      have "iocp_inv (s\<lparr>lstns := (lstns s)(l \<mapsto> RepostCount_update (\<lambda>_. 0) lo)\<rparr>) P F G A (set LS)"
        by (rule lstn_inv(1) [OF I lo]) simp_all
      then have "iocp_inv (ResetEvent (RepostAccept lo) (s\<lparr>lstns := (lstns s)(l \<mapsto> RepostCount_update (\<lambda>_. 0) lo)\<rparr>)) P F G A (set LS)"
        "same_listeners s (ResetEvent (RepostAccept lo) (s\<lparr>lstns := (lstns s)(l \<mapsto> RepostCount_update (\<lambda>_. 0) lo)\<rparr>))"
        using lo by (simp_all add: ResetEvent_def same_listeners_def)
      from post [OF this] show ?thesis
        using r Some lo False by (simp add: handle_event_def upd_lstn_def)
    qed
  qed
qed

lemma check_events_serving: "serving s LS \<Longrightarrow> wp (check_events W is s) (\<lambda>_ t. serving t LS)"
proof (induction "is" arbitrary: s)
  case (Cons i "is")
  show ?case
    using Cons.prems Cons.IH by (auto intro: wp_mono [OF handle_event_serving])
qed simp

text \<open>Where no client has been silent for more than five minutes, looking for such clients changes nothing.\<close>

definition patient :: "world \<Rightarrow> bool" where
  "patient W \<longleftrightarrow> (\<forall>cs h. case W cs (Call_getsockopt h) of (err, t) \<Rightarrow> err = 0 \<and> t \<noteq> 0xFFFFFFFF \<longrightarrow> t \<le>s 300)"

lemma check_stale_patient:
  assumes "patient W" "bufs s p \<noteq> None"
  shows "\<exists>cs. check_stale W p s = Some ((), s\<lparr>calls := cs\<rparr>)"
proof -
  obtain ob where ob: "bufs s p = Some ob" using assms(2) by blast
  obtain err t where w: "W (calls s) (Call_getsockopt (sclient ob)) = (err, t)" by fastforce
  have "case W (calls s) (Call_getsockopt (sclient ob)) of (err, t) \<Rightarrow> err = 0 \<and> t \<noteq> 0xFFFFFFFF \<longrightarrow> t \<le>s 300"
    using assms(1) [unfolded patient_def, THEN spec, THEN spec] .
  then have "err = 0 \<and> t \<noteq> 0xFFFFFFFF \<longrightarrow> t \<le>s 300" unfolding w prod.case .
  then have no: "(err = 0 \<and> t \<noteq> 0xFFFFFFFF \<and> 300 <s t) = False" unfolding word_sless_alt word_sle_eq by (meson not_less)
  have "check_stale W p s = Some ((), s\<lparr>calls := Call_getsockopt (sclient ob) # calls s\<rparr>)"
    using ob w unfolding check_stale_def ask_def Let_def by (simp only: bind.simps prod.case no if_False)
  then show ?thesis by blast
qed

lemma close_stale_patient:
  assumes "patient W" "linked (bnext (bufs s)) p xs"
  shows "\<exists>cs. close_stale W p s = Some ((), s\<lparr>calls := cs\<rparr>)"
  using assms(2)
proof (induction xs arbitrary: p s)
  case Nil
  then show ?case by (intro exI [of _ "calls s"], subst close_stale.simps) simp
next
  case (Cons x xs)
  from bnext_linked [OF Cons.prems] obtain ob where ob: "bufs s x = Some ob" "p = Some x" "linked (bnext (bufs s)) (b_next ob) xs"
    by blast
  obtain cs where cs: "check_stale W x s = Some ((), s\<lparr>calls := cs\<rparr>)" using check_stale_patient [OF assms(1)] ob by blast
  obtain cs' where "close_stale W (b_next ob) (s\<lparr>calls := cs\<rparr>) = Some ((), s\<lparr>calls := cs'\<rparr>)"
    using Cons.IH [of "s\<lparr>calls := cs\<rparr>" "b_next ob"] ob by auto
  then show ?case using ob cs by (subst close_stale.simps) auto
qed

lemma close_all_stale_patient:
  assumes "patient W" "linked (lnext (lstns s)) p LS"
    and "\<And>l. l \<in> set LS \<Longrightarrow> \<exists>lo xs. lstns s l = Some lo \<and> linked (bnext (bufs s)) (PendingAccepts lo) xs"
  shows "\<exists>cs. close_all_stale W p s = Some ((), s\<lparr>calls := cs\<rparr>)"
  using assms(2,3)
proof (induction LS arbitrary: p s)
  case Nil
  then show ?case by (intro exI [of _ "calls s"], subst close_all_stale.simps) simp
next
  case (Cons l LS)
  from lnext_linked [OF Cons.prems(1)] Cons.prems(2) [of l]
  obtain lo xs where lo: "lstns s l = Some lo" "p = Some l" "linked (lnext (lstns s)) (l_next lo) LS"
    "linked (bnext (bufs s)) (PendingAccepts lo) xs"
    by auto
  obtain cs where cs: "close_stale W (PendingAccepts lo) s = Some ((), s\<lparr>calls := cs\<rparr>)"
    using close_stale_patient [OF assms(1) lo(4)] by blast
  obtain cs' where "close_all_stale W (l_next lo) (s\<lparr>calls := cs\<rparr>) = Some ((), s\<lparr>calls := cs'\<rparr>)"
    using Cons.IH [of "s\<lparr>calls := cs\<rparr>" "l_next lo"] lo Cons.prems(2) by auto
  then show ?case using lo cs by (subst close_all_stale.simps) auto
qed

lemma main_turn_serving:
  assumes W: "patient W" and s: "serving s LS"
  shows "wp (main_turn W r s) (\<lambda>_ t. serving t LS)"
proof (cases r)
  case (WAIT_TIMEOUT tick)
  let ?s = "snd (PrintStatistics tick (s\<lparr>interval := interval s + 1\<rparr>))"
  have ss: "serving ?s LS" using s by (auto simp: PrintStatistics_def Let_def)
  then obtain P F G A where I: "iocp_inv ?s P F G A (set LS)" and ll: "linked (lnext (lstns ?s)) (ListenSockets ?s) LS"
    by (auto simp: serving_def)
  have "\<exists>lo xs. lstns ?s l = Some lo \<and> linked (bnext (bufs ?s)) (PendingAccepts lo) xs" if "l \<in> set LS" for l
    using buffers_invD(4) [of ?s P F A "set LS" l] I that unfolding iocp_inv_def by blast
  then obtain cs where "close_all_stale W (ListenSockets ?s) ?s = Some ((), ?s\<lparr>calls := cs\<rparr>)"
    using close_all_stale_patient [OF W ll] by blast
  then show ?thesis using ss WAIT_TIMEOUT by (auto simp: main_turn_def Let_def)
next
  case (WAIT_OBJECT i)
  then show ?thesis using check_events_serving [OF s] by (simp add: main_turn_def)
qed (use s in \<open>simp add: main_turn_def\<close>)

end
