(* ===== verification/IocpReach.thy ===== *)
theory IocpReach
  imports IocpServing
begin

text \<open>
  The steps of a running server, the states it reaches, and that they all satisfy the invariant.
\<close>

section \<open>Steps\<close>

text \<open>Bytes arrive in the buffer \<open>b\<close> whose operation was posted on an object with the key \<open>k\<close>.\<close>

definition overwrite :: "byte list \<Rightarrow> byte list \<Rightarrow> byte list" where
  "overwrite bs xs = bs @ drop (length bs) xs"

definition arrive :: "nat \<Rightarrow> nat \<Rightarrow> byte list \<Rightarrow> net_event \<Rightarrow> iocp \<Rightarrow> iocp" where
  "arrive b k bs e s = (landed b k s)\<lparr>bufs := (bufs s)(b := map_option (\<lambda>ob. ob\<lparr>buf := overwrite bs (buf ob)\<rparr>) (bufs s b)), net := net s @ [e]\<rparr>"

text \<open>
  Windows completes an operation that is in flight and a completion thread handles it; it raises an
  event; or the main thread makes a turn of its loop.  An accept that completes succeeds: what the code
  does when it fails is the subject of lemmas of its own.
\<close>

inductive iocp_step :: "world \<Rightarrow> iocp \<Rightarrow> iocp \<Rightarrow> bool" for W where
  Step_accept: "(b, l) \<in> set (inflight s) \<Longrightarrow> bufs s b = Some ob \<Longrightarrow> operation ob = OP_ACCEPT \<Longrightarrow>
    length bs \<le> unat (buflen ob - accept_addresses) \<Longrightarrow>
    CompletionThread W (True, of_nat (length bs), l, Some b) wsa (arrive b l bs (Accepted (sclient ob) bs) s) = Some ((), t) \<Longrightarrow>
    iocp_step W s t"
| Step_receive: "(b, k) \<in> set (inflight s) \<Longrightarrow> bufs s b = Some ob \<Longrightarrow> operation ob = OP_READ \<Longrightarrow> socks s k = Some c \<Longrightarrow>
    length bs \<le> unat (buflen ob) \<Longrightarrow>
    CompletionThread W (True, of_nat (length bs), k, Some b) wsa (arrive b k bs (Received (s_handle c) bs) s) = Some ((), t) \<Longrightarrow>
    iocp_step W s t"
| Step_send: "(b, k) \<in> set (inflight s) \<Longrightarrow> bufs s b = Some ob \<Longrightarrow> operation ob = OP_WRITE \<Longrightarrow>
    CompletionThread W (True, n, k, Some b) wsa (landed b k s) = Some ((), t) \<Longrightarrow> iocp_step W s t"
| Step_fail: "(b, k) \<in> set (inflight s) \<Longrightarrow> bufs s b = Some ob \<Longrightarrow> operation ob \<noteq> OP_ACCEPT \<Longrightarrow> error \<noteq> 0 \<Longrightarrow>
    CompletionThread W (False, n, k, Some b) (Inl error) (landed b k s) = Some ((), t) \<Longrightarrow> iocp_step W s t"
| Step_signal: "iocp_step W s (SetEvent e s)"
| Step_turn: "main_turn W r s = Some (True, t) \<Longrightarrow> iocp_step W s t"

section \<open>Completions\<close>

lemma overwrite_facts:
  assumes "length bs \<le> length xs"
  shows "length (overwrite bs xs) = length xs" "take (length bs) (overwrite bs xs) = bs"
  using assms by (simp_all add: overwrite_def)

lemma arrive_buf: "bufs s b = Some ob \<Longrightarrow> bufs (arrive b k bs e s) = (bufs s)(b \<mapsto> ob\<lparr>buf := overwrite bs (buf ob)\<rparr>)"
  by (simp add: arrive_def)

lemma runs_CompletionThread:
  "bufs s b = Some ob \<Longrightarrow> CompletionThread W (True, n, k, Some b) wsa s = HandleIo W k b n 0 s"
  by (simp add: CompletionThread_def)

lemma landed_fields [simp]:
  "bufs (landed b k s) = bufs s" "socks (landed b k s) = socks s" "lstns (landed b k s) = lstns s" "net (landed b k s) = net s"
  "ListenSockets (landed b k s) = ListenSockets s" "gBufferSize (landed b k s) = gBufferSize s"
  "gOutstandingSends (landed b k s) = gOutstandingSends s" "gMaxSends (landed b k s) = gMaxSends s"
  by (simp_all add: landed_def)

lemma length_filter_remove1:
  "x \<in> set xs \<Longrightarrow> length (filter f xs) = length (filter f (remove1 x xs)) + (if f x then 1 else 0)"
  by (induction xs) auto

lemma writes_landed:
  assumes b: "(b, k) \<in> set (inflight s)" "bufs s b = Some ob"
  shows "length (writes s) = length (writes (landed b k s)) + (if operation ob = OP_WRITE then 1 else 0)"
proof -
  let ?f = "\<lambda>(b, k). case cores (bufs s) b of None \<Rightarrow> False | Some ob \<Rightarrow> operation ob = OP_WRITE"
  have w: "writes (landed b k s) = filter ?f (remove1 (b, k) (inflight s))" by (simp add: writes_def landed_def)
  show ?thesis using length_filter_remove1 [OF b(1), of ?f] w b(2) by (simp add: writes_def)
qed

text \<open>The state when an operation of a connection has landed.\<close>

lemma landed_inv:
  assumes I: "iocp_inv s P F G A L" and b: "(b, k) \<in> set (inflight s)" "bufs s b = Some ob"
  shows "iocp_inv (landed b k s) P F G A L" "b \<notin> fst ` set (inflight (landed b k s))" "length (buf ob) = unat (gBufferSize s)"
    "operation ob \<noteq> OP_WRITE \<Longrightarrow> buflen ob = gBufferSize s"
    "operation ob = OP_ACCEPT \<Longrightarrow> b \<in> set (A k) \<and> free_handle (landed b k s) P L (sclient ob)"
    "operation ob \<noteq> OP_ACCEPT \<Longrightarrow> spare (landed b k s) P F A b \<and> (\<exists>c. idle (landed b k s) P G L k c \<and>
       OutstandingRecv c = (if operation ob = OP_READ then 1 else 0) \<and> OutstandingSend c = (if operation ob = OP_WRITE then 1 else 0) \<and>
       PendingSend c = 0 \<and> \<not> bClosing c \<and> fst (echoed (net s) (s_handle c)) = snd (echoed (net s) (s_handle c)))"
    "operation ob = OP_WRITE \<Longrightarrow> int (length (writes (landed b k s))) < gOutstandingSends (landed b k s)"
proof -
  have BI: "buffers_inv s P F A L" and CI: "conns_inv s P G L" and SI: "sends_inv s" using I by (simp_all add: iocp_inv_def)
  note land = buffers_land [OF BI b] and D = buffers_invD [OF BI]
  note lc = landed_conns [OF CI D(12) b(1) land(5)]
  have co: "cores (bufs s) b = Some (core ob)" using b by simp
  have "sends_inv (landed b k s)" using SI writes_landed [OF b] by (simp add: sends_inv_def)
  then show "iocp_inv (landed b k s) P F G A L" using I land(1) lc(1) by (simp add: iocp_inv_def echoing_def)
  show "b \<notin> fst ` set (inflight (landed b k s))" "length (buf ob) = unat (gBufferSize s)" using land(7) D(6) [OF b(2)] by simp_all
  show "operation ob \<noteq> OP_WRITE \<Longrightarrow> buflen ob = gBufferSize s" by (rule land(4))
  show "operation ob = OP_ACCEPT \<Longrightarrow> b \<in> set (A k) \<and> free_handle (landed b k s) P L (sclient ob)"
    using land(3) lc(3) [OF co] by simp
  show "operation ob = OP_WRITE \<Longrightarrow> int (length (writes (landed b k s))) < gOutstandingSends (landed b k s)"
    using SI writes_landed [OF b] by (simp add: sends_inv_def)
  assume op: "operation ob \<noteq> OP_ACCEPT"
  then obtain c where c: "socks s k = Some c" "idle (landed b k s) P G L k c" "conn_ok s False k b" using lc(4) [OF co] by auto
  then show "spare (landed b k s) P F A b \<and> (\<exists>c. idle (landed b k s) P G L k c \<and>
       OutstandingRecv c = (if operation ob = OP_READ then 1 else 0) \<and> OutstandingSend c = (if operation ob = OP_WRITE then 1 else 0) \<and>
       PendingSend c = 0 \<and> \<not> bClosing c \<and> fst (echoed (net s) (s_handle c)) = snd (echoed (net s) (s_handle c)))"
    using land(2) op co by (auto simp: conn_ok_def)
qed

lemma unat_length: "length bs \<le> unat (n :: dword) \<Longrightarrow> unat (of_nat (length bs) :: dword) = length bs"
  by (metis le_unat_uoi)

text \<open>Something is received on a handle that nobody answers for at the moment.\<close>

lemma net_inv:
  assumes I: "iocp_inv s P F G A L" and h: "free_handle s P L (handle_of e)"
    and pre: "prefix (snd (echo_step (handle_of e) (echoed (net s) (handle_of e)) e)) (fst (echo_step (handle_of e) (echoed (net s) (handle_of e)) e))"
  shows "iocp_inv (s\<lparr>net := net s @ [e]\<rparr>) P F G A L" "idle (s\<lparr>net := net s @ [e]\<rparr>) P G L k c = idle s P G L k c"
    "free_handle (s\<lparr>net := net s @ [e]\<rparr>) P L h' = free_handle s P L h'"
proof -
  let ?t = "s\<lparr>net := net s @ [e]\<rparr>"
  have CI: "conns_inv s P G L" using I by (simp add: iocp_inv_def)
  have cn: "conn ?t P k b = conn s P k b" "waiting ?t P k b = waiting s P k b" "accepting ?t b h = accepting s b h"
    for k b h by (simp_all add: conn_def waiting_def flying_def accepting_def)
  then have cl: "answers_for ?t P b h = answers_for s P b h" for b h by (simp add: answers_for_def)
  have li: "listening ?t L h = listening s L h" for h by (rule same_listening) simp
  have ok: "conn_ok ?t (b \<in> set P) k b" if c: "conn s P k b" for k b
  proof -
    have "conn_ok ?t (b \<in> set P) k b = conn_ok s (b \<in> set P) k b"
    proof (rule conn_ok_cong)
      fix d assume "socks s k = Some d"
      then have "answers_for s P b (s_handle d)" using c by (auto simp: answers_for_def)
      then have "handle_of e \<noteq> s_handle d" using h by (auto simp: free_handle_def)
      then show "assoc ?t (s_handle d) = assoc s (s_handle d) \<and> echoed (net ?t) (s_handle d) = echoed (net s) (s_handle d)" by simp
    qed simp_all
    then show ?thesis using conns_invD(2) [OF CI c] by simp
  qed
  have "conns_inv ?t P G L"
    using CI ok unfolding conns_inv_def cn cl li by simp
  moreover have "echoing ?t" using echoing_add [OF _ pre] I by (simp add: iocp_inv_def)
  ultimately show "iocp_inv ?t P F G A L" using I by (simp add: iocp_inv_def)
  show fh: "free_handle ?t P L h' = free_handle s P L h'" for h' by (simp add: free_handle_def cl li)
  show "idle ?t P G L k c = idle s P G L k c" by (simp add: idle_def fh cn)
qed

lemma good_landed: "good (landed b k s) L t \<Longrightarrow> good s L t"
  by (simp add: same_listeners_def)

lemma accept_completes:
  assumes I: "iocp_inv s P F G A L" and b: "(b, l) \<in> set (inflight s)" "bufs s b = Some ob" and op: "operation ob = OP_ACCEPT"
    and len: "length bs \<le> unat (buflen ob - accept_addresses)"
  shows "runs W (CompletionThread W (True, of_nat (length bs), l, Some b) wsa (arrive b l bs (Accepted (sclient ob) bs) s)) (\<lambda>_ t. good s L t)"
proof -
  let ?s = "landed b l s"
  note land = landed_inv [OF I b]
  have lb: "bufs ?s b = Some ob" using b by simp
  have "accept_addresses \<le> gBufferSize s" using I by (simp add: iocp_inv_def buffers_inv_def)
  then have le: "unat (gBufferSize s - accept_addresses) \<le> unat (gBufferSize s)" by (simp add: unat_sub)
  then have len': "length bs \<le> length (buf ob)" "length bs \<le> unat (gBufferSize s)" using len land(3,4) op by simp_all
  note ow = overwrite_facts [OF len'(1)] and un = unat_length [OF len'(2)]
  let ?ob = "ob\<lparr>buf := overwrite bs (buf ob)\<rparr>" and ?e = "Accepted (sclient ob) bs"
  let ?t = "?s\<lparr>bufs := (bufs ?s)(b \<mapsto> ?ob)\<rparr>"
  let ?u = "?t\<lparr>net := net ?t @ [?e]\<rparr>"
  have ar: "arrive b l bs ?e s = ?u" using b by (simp add: arrive_def)
  have bA: "b \<in> set (A l)" "free_handle ?s P L (sclient ob)" using land(5) op by simp_all
  have it: "iocp_inv ?t P F G A L" by (rule listed_inv [where l = l, OF land(1) bA(1) land(2) lb]) (use ow in simp_all)
  have nP: "b \<notin> set P" using buffers_invD(14) [of ?s P F A L l] land(1) bA(1) by (auto simp: iocp_inv_def)
  have ft: "free_handle ?t P L (handle_of ?e)" using bA(2) conns_spare(4) [OF nP land(2)] by simp
  note ev = net_inv [OF it ft]
  have st: "echo_step h x ?e = (if sclient ob = h then (bs, []) else x)" for h x by (cases x) simp
  have iu: "iocp_inv ?u P F G A L" "free_handle ?u P L (sclient ob)" using ev ft by (simp_all add: st)
  have "echoed (net ?u) (sclient ob) = (bs, [])" by (simp add: echoed_snoc st)
  then have "runs W (HandleIo W l b (of_nat (length bs)) 0 ?u) (\<lambda>_ t. good ?u L t)"
    by (intro HandleIo_accept [OF iu(1) bA(1), where ob = ?ob]) (use iu land(2) op ow un len' in simp_all)
  then show ?thesis unfolding ar using op
    by (simp add: CompletionThread_def same_listeners_def)
qed

lemma receive_completes:
  assumes I: "iocp_inv s P F G A L" and b: "(b, k) \<in> set (inflight s)" "bufs s b = Some ob" and op: "operation ob = OP_READ"
    and c: "socks s k = Some c" and len: "length bs \<le> unat (buflen ob)"
  shows "runs W (CompletionThread W (True, of_nat (length bs), k, Some b) wsa (arrive b k bs (Received (s_handle c) bs) s)) (\<lambda>_ t. good s L t)"
proof -
  let ?s = "landed b k s"
  note land = landed_inv [OF I b]
  have len': "length bs \<le> length (buf ob)" "length bs \<le> unat (gBufferSize s)" using len land(3,4) op by simp_all
  note ow = overwrite_facts [OF len'(1)] and un = unat_length [OF len'(2)]
  obtain d where d: "idle ?s P G L k d" "OutstandingRecv d = 1" "OutstandingSend d = 0" "PendingSend d = 0" "\<not> bClosing d"
    "fst (echoed (net s) (s_handle d)) = snd (echoed (net s) (s_handle d))" and sp: "spare ?s P F A b"
    using land(6) op by auto
  have cd: "d = c" using idleD(1) [OF d(1)] c by simp
  let ?ob = "ob\<lparr>buf := overwrite bs (buf ob)\<rparr>" and ?e = "Received (s_handle c) bs"
  let ?t = "?s\<lparr>bufs := (bufs ?s)(b \<mapsto> ?ob)\<rparr>"
  let ?u = "?t\<lparr>net := net ?t @ [?e]\<rparr>"
  have ar: "arrive b k bs ?e s = ?u" using b by (simp add: arrive_def)
  have lb: "bufs ?s b = Some ob" using b by simp
  have it: "iocp_inv ?t P F G A L" "spare ?t P F A b" "idle ?t P G L k c" using buf_inv [OF land(1) sp lb, of ?ob] sp d(1) ow cd by simp_all
  have ft: "free_handle ?t P L (handle_of ?e)" using it(3) by (simp add: idle_def)
  have st: "echo_step (s_handle c) x ?e = (fst x @ bs, snd x)" for x by (cases x) simp
  have iu: "iocp_inv ?u P F G A L" "idle ?u P G L k c" using net_inv [OF it(1) ft] it(3) d(6) cd by (simp_all add: st)
  have "echoed (net ?u) (s_handle c) = (fst (echoed (net s) (s_handle c)) @ bs, snd (echoed (net s) (s_handle c)))"
    by (simp add: echoed_snoc st)
  then have "runs W (HandleIo W k b (of_nat (length bs)) 0 ?u) (\<lambda>_ t. good ?u L t)"
    by (intro HandleIo_read [where ob = ?ob, OF iu]) (use it d cd op ow un len' in simp_all)
  then show ?thesis unfolding ar using op by (simp add: CompletionThread_def same_listeners_def)
qed

lemma send_completes:
  assumes I: "iocp_inv s P F G A L" and b: "(b, k) \<in> set (inflight s)" "bufs s b = Some ob" and op: "operation ob = OP_WRITE"
  shows "runs W (CompletionThread W (True, n, k, Some b) wsa (landed b k s)) (\<lambda>_ t. good s L t)"
proof -
  note land = landed_inv [OF I b]
  obtain d where d: "idle (landed b k s) P G L k d" "OutstandingRecv d = 0" "OutstandingSend d = 1" "PendingSend d = 0" "\<not> bClosing d"
    "fst (echoed (net s) (s_handle d)) = snd (echoed (net s) (s_handle d))" and sp: "spare (landed b k s) P F A b"
    using land(6) op by auto
  have "runs W (HandleIo W k b n 0 (landed b k s)) (\<lambda>_ t. good (landed b k s) L t)"
    by (rule HandleIo_write [OF land(1) d(1) sp, where ob = ob]) (use d b op land(7) in simp_all)
  then show ?thesis using b op by (simp add: CompletionThread_def same_listeners_def)
qed

lemma failure_completes:
  assumes I: "iocp_inv s P F G A L" and b: "(b, k) \<in> set (inflight s)" "bufs s b = Some ob" and op: "operation ob \<noteq> OP_ACCEPT"
    and e: "error \<noteq> 0"
  shows "runs W (CompletionThread W (False, n, k, Some b) (Inl error) (landed b k s)) (\<lambda>_ t. good s L t)"
proof -
  note land = landed_inv [OF I b]
  obtain d where d: "idle (landed b k s) P G L k d" "OutstandingRecv d = (if operation ob = OP_READ then 1 else 0)"
    "OutstandingSend d = (if operation ob = OP_WRITE then 1 else 0)" and sp: "spare (landed b k s) P F A b"
    using land(6) op by auto
  have "wp (HandleIo W k b n error (landed b k s)) (\<lambda>_ t. good (landed b k s) L t)"
    by (rule HandleIo_failed [OF land(1) d(1) sp, where ob = ob]) (use d b op e in simp_all)
  then show ?thesis using b op idleD(1) [OF d(1)] by (intro wp_runs) (simp add: CompletionThread_def same_listeners_def)
qed

section \<open>Reachable states\<close>

lemma iocp_step_serving:
  assumes "iocp_step W s t" "patient W" "serving s LS"
  shows "serving t LS"
proof -
  obtain P F G A where I: "iocp_inv s P F G A (set LS)" using assms(3) by (auto simp: serving_def)
  have via: "serving t LS" if "runs W m (\<lambda>_ t. good s (set LS) t)" "m = Some ((), t)" for m
    using that by (auto intro!: servingI [OF _ assms(3)])
  show ?thesis using assms(1)
  proof cases
    case Step_accept
    then show ?thesis using via [OF accept_completes [OF I]] by blast
  next
    case Step_receive
    then show ?thesis using via [OF receive_completes [OF I]] by blast
  next
    case Step_send
    then show ?thesis using via [OF send_completes [OF I]] by blast
  next
    case Step_fail
    then show ?thesis using via [OF failure_completes [OF I]] by blast
  next
    case Step_signal
    then show ?thesis using assms(3) by (simp add: SetEvent_def)
  next
    case (Step_turn r)
    then show ?thesis using main_turn_serving [OF assms(2,3), of r] by simp
  qed
qed

lemma iocp_steps_serving: "(iocp_step W)\<^sup>*\<^sup>* s t \<Longrightarrow> patient W \<Longrightarrow> serving s LS \<Longrightarrow> serving t LS"
  by (induction rule: rtranclp_induct) (auto intro: iocp_step_serving)

end
