(* ===== verification/IocpLimits.thy ===== *)
theory IocpLimits
  imports IocpReach
begin

text \<open>
  The limits of the server: on the sends and the accepts that are outstanding, on the events that are
  waited for and on the size of a buffer; and what happens beyond them.
\<close>

section \<open>No more sends\<close>

fun is_sent :: "net_event \<Rightarrow> bool" where
  "is_sent (Sent h bs) = True"
| "is_sent e = False"

text \<open>
  The limit is reached and no send is in flight, as it happens when sends have failed: nothing
  takes them off the count.  \<open>N\<close> are the sends there have been.
\<close>

definition jammed :: "iocp \<Rightarrow> bool" where
  "jammed s \<longleftrightarrow> gMaxSends s \<le> gOutstandingSends s \<and>
     (\<forall>b k ob. (b, k) \<in> set (inflight s) \<longrightarrow> bufs s b = Some ob \<longrightarrow> operation ob \<noteq> OP_WRITE)"

definition jam :: "net_event list \<Rightarrow> iocp \<Rightarrow> bool" where
  "jam N s \<longleftrightarrow> jammed s \<and> filter is_sent (net s) = N"

lemma jam_fields:
  assumes "gMaxSends t = gMaxSends s" "gOutstandingSends t = gOutstandingSends s" "inflight t = inflight s" "bufs t = bufs s" "net t = net s"
  shows "jam N s \<Longrightarrow> jam N t"
  using assms by (simp add: jam_def jammed_def)

lemma jam_upd_buf:
  "jam N s \<Longrightarrow> (\<And>ob. operation (f ob) \<noteq> operation ob \<Longrightarrow> operation (f ob) \<noteq> OP_WRITE) \<Longrightarrow> wlp (upd_buf p f s) (\<lambda>_. jam N)"
  by (auto simp: jam_def jammed_def) metis+

lemma jam_upd:
  "jam N s \<Longrightarrow> wlp (upd_sock k g s) (\<lambda>_. jam N)" "jam N s \<Longrightarrow> wlp (upd_lstn l h s) (\<lambda>_. jam N)"
  by (auto intro: jam_fields)

lemma jam_Process: "jam N s \<Longrightarrow> ProcessPendingOperations W s = Some ((), s)"
  by (subst ProcessPendingOperations.simps) (simp add: jam_def jammed_def)

lemma jam_objects:
  assumes "jam N s"
  shows "wlp (EnqueuePendingOperation b op s) (\<lambda>_. jam N)" "wlp (FreeBufferObj b s) (\<lambda>_. jam N)"
    "wlp (FreeSocketObj W k s) (\<lambda>_. jam N)" "wlp (GetBufferObj W n s) (\<lambda>_. jam N)" "wlp (GetSocketObj W h f s) (\<lambda>_. jam N)"
    "wlp (InsertPendingAccept l b s) (\<lambda>_. jam N)" "wlp (RemovePendingAccept l b s) (\<lambda>_. jam N)"
    "wlp (PostRecv W k b s) (\<lambda>_. jam N)" "wlp (PostAccept W l b s) (\<lambda>_. jam N)"
  unfolding jam_def jammed_def
  apply (insert assms [unfolded jam_def jammed_def])
  subgoal by (auto simp: EnqueuePendingOperation_def split: option.split)
  subgoal by (auto simp: FreeBufferObj_def zero_buffer_def)
  subgoal by (auto simp: FreeSocketObj_def win_closesocket_def ask_def)
  subgoal by (auto simp: GetBufferObj_def ask_def zero_buffer_def Let_def split: option.split prod.split)
  subgoal by (auto simp: GetSocketObj_def ask_def Let_def split: option.split prod.split)
  subgoal by (auto simp: InsertPendingAccept_def split: option.split)
  subgoal by (auto simp: RemovePendingAccept_def split: option.split)
  subgoal by (auto simp: PostRecv_def win_WSARecv_def post_def ask_def Let_def split: option.splits prod.splits if_splits) blast+
  subgoal by (auto simp: PostAccept_def win_socket_def win_AcceptEx_def post_def ask_def Let_def split: option.splits prod.splits if_splits) blast+
  done

text \<open>The two walks of the loop over stale clients, and the walk that finds a listening socket.\<close>

lemma jam_check_stale: "jam N s \<Longrightarrow> wlp (check_stale W p s) (\<lambda>_. jam N)"
  by (auto simp: check_stale_def ask_def win_closesocket_def jam_def jammed_def split: prod.split)

lemma jam_close_stale: "jam N s \<Longrightarrow> wlp (close_stale W p s) (\<lambda>_. jam N)"
proof (rule wlpI)
  fix a t assume c: "close_stale W p s = Some (a, t)" and j: "jam N s"
  have "jam N s \<longrightarrow> jam N (snd (a, t))"
  proof (rule close_stale.raw_induct [OF _ c, where P = "\<lambda>W p s r. jam N s \<longrightarrow> jam N (snd r)"], intro impI)
    fix f W p s r
    assume IH: "\<And>W p s r. f W p s = Some r \<Longrightarrow> jam N s \<longrightarrow> jam N (snd r)" and j: "jam N s"
      and e: "(if p = None then Some ((), s)
        else Option.bind (check_stale W (the p) s) (\<lambda>r. Option.bind (bufs (snd r) (the p)) (\<lambda>ob. f W (b_next ob) (snd r)))) = Some r"
    show "jam N (snd r)"
    proof (cases p)
      case (Some q)
      then obtain u v and ob :: BUFFER_OBJ where u: "check_stale W q s = Some (u, v)" "f W (b_next ob) v = Some r"
        using e by (auto split: Option.bind_splits)
      then show ?thesis using IH [OF u(2)] wlpD [OF jam_check_stale [OF j] u(1)] by simp
    qed (use e j in auto)
  qed
  then show "jam N t" using j by simp
qed

lemma jam_close_all_stale: "jam N s \<Longrightarrow> wlp (close_all_stale W p s) (\<lambda>_. jam N)"
proof (rule wlpI)
  fix a t assume c: "close_all_stale W p s = Some (a, t)" and j: "jam N s"
  have "jam N s \<longrightarrow> jam N (snd (a, t))"
  proof (rule close_all_stale.raw_induct [OF _ c, where P = "\<lambda>W p s r. jam N s \<longrightarrow> jam N (snd r)"], intro impI)
    fix f W p s r
    assume IH: "\<And>W p s r. f W p s = Some r \<Longrightarrow> jam N s \<longrightarrow> jam N (snd r)" and j: "jam N s"
      and e: "(if p = None then Some ((), s)
        else Option.bind (lstns s (the p)) (\<lambda>l. Option.bind (close_stale W (PendingAccepts l) s) (\<lambda>r. f W (l_next l) (snd r)))) = Some r"
    show "jam N (snd r)"
    proof (cases p)
      case (Some q)
      then obtain u v and l :: LISTEN_OBJ where u: "close_stale W (PendingAccepts l) s = Some (u, v)" "f W (l_next l) v = Some r"
        using e by (auto split: Option.bind_splits)
      then show ?thesis using IH [OF u(2)] wlpD [OF jam_close_stale [OF j] u(1)] by simp
    qed (use e j in auto)
  qed
  then show "jam N t" using j by simp
qed

section \<open>Handling completions while jammed\<close>

lemma jam_signal [simp]: "jam N (SetEvent e s) = jam N s" "jam N (ResetEvent e s) = jam N s" "jam N (s\<lparr>calls := x\<rparr>) = jam N s"
  "jam N (s\<lparr>interval := i\<rparr>) = jam N s" "jam N (s\<lparr>opened := y\<rparr>) = jam N s" "jam N (s\<lparr>assoc := z\<rparr>) = jam N s"
  "jam N (s\<lparr>gBytesRead := b, gBytesReadLast := c\<rparr>) = jam N s" "jam N (s\<lparr>gConnections := d, gConnectionsLast := g\<rparr>) = jam N s"
  by (simp_all add: jam_def jammed_def SetEvent_def ResetEvent_def)

lemma jam_new_client: "jam N s \<Longrightarrow> wlp (new_client W l b n s) (\<lambda>_. jam N)"
  unfolding new_client_def
  by (auto simp: win_CreateIoCompletionPort_def win_closesocket_def ask_def Let_def simp del: wlp_upd
      intro!: wlp_mono [OF jam_objects(5)] wlp_mono [OF jam_objects(1)] wlp_mono [OF jam_objects(2)] wlp_mono [OF jam_upd_buf]
        wlp_mono [OF jam_upd(2)] split: option.split prod.split)

lemma jam_accepted_io: "jam N s \<Longrightarrow> wlp (accepted_io W l b n s) (\<lambda>_. jam N)"
  unfolding accepted_io_def
  by (auto simp: Let_def simp del: wlp_upd intro!: wlp_mono [OF jam_upd(2)] wlp_mono [OF jam_objects(7)] jam_new_client)

lemma jam_received_io: "jam N s \<Longrightarrow> wlp (received_io k b n s) (\<lambda>_. jam N)"
  unfolding received_io_def
  by (auto simp: Let_def simp del: wlp_upd intro!: wlp_mono [OF jam_upd(1)] wlp_mono [OF jam_upd_buf] wlp_mono [OF jam_objects(1)]
      wlp_mono [OF jam_objects(2)])

lemma jam_failed_io: "jam N s \<Longrightarrow> wlp (failed_io W k op s) (\<lambda>_. jam N)"
  unfolding failed_io_def
  by (auto simp del: wlp_upd intro!: wlp_mono [OF jam_upd(1)] jam_objects(3))

lemma jam_win_closesocket: "jam N s \<Longrightarrow> jam N (win_closesocket W h s)"
  by (simp add: win_closesocket_def ask_def)

lemma jam_cleanup: "jam N s \<Longrightarrow> wlp (cleanup W k c s) (\<lambda>_. jam N)"
  unfolding cleanup_def
  by (auto simp del: wlp_upd intro!: wlp_mono [OF jam_upd(1)] jam_objects(3) jam_win_closesocket)

text \<open>The handler, unless it is a send that has completed.\<close>

lemma jam_HandleIo:
  assumes "jam N s" "\<And>ob. bufs s b = Some ob \<Longrightarrow> operation ob \<noteq> OP_WRITE \<or> error \<noteq> 0"
  shows "wlp (HandleIo W k b n error s) (\<lambda>_. jam N)"
  unfolding HandleIo_def using assms
  by (auto simp: jam_Process simp del: wlp_upd split: io_op.split
      intro!: wlp_mono [OF jam_accepted_io] wlp_mono [OF jam_received_io] wlp_mono [OF jam_failed_io] jam_cleanup
        jam_objects(2) wlp_mono [OF jam_upd_buf] jam_win_closesocket)

section \<open>The loop while jammed\<close>

lemma jam_add_accept: "jam N s \<Longrightarrow> wlp (add_accept W l s) (\<lambda>_. jam N)"
  unfolding add_accept_def
  by (auto simp del: wlp_upd intro!: wlp_mono [OF jam_objects(4)] wlp_mono [OF jam_upd_buf] wlp_mono [OF jam_objects(6)]
      wlp_mono [OF jam_objects(9)] split: option.split)

lemma jam_repost: "jam N s \<Longrightarrow> wlp (repost W l n s) (\<lambda>_. jam N)"
  by (induction n arbitrary: s) (auto intro!: wlp_mono [OF jam_add_accept])

lemma jam_handle_event: "jam N s \<Longrightarrow> wlp (handle_event W e s) (\<lambda>_. jam N)"
  unfolding handle_event_def
  by (auto simp: ask_def Let_def simp del: wlp_upd intro!: jam_repost wlp_mono [OF jam_upd(2)] split: option.split prod.split)

lemma jam_check_events: "jam N s \<Longrightarrow> wlp (check_events W is s) (\<lambda>_. jam N)"
  by (induction "is" arbitrary: s) (auto intro!: wlp_mono [OF jam_handle_event])

lemma jam_main_turn: "jam N s \<Longrightarrow> wlp (main_turn W r s) (\<lambda>_. jam N)"
proof (cases r)
  case (WAIT_TIMEOUT tick)
  assume j: "jam N s"
  have "jam N (snd (PrintStatistics tick (s\<lparr>interval := interval s + 1\<rparr>)))"
    using j by (auto simp: PrintStatistics_def Let_def jam_def jammed_def)
  then show ?thesis using WAIT_TIMEOUT by (auto simp: main_turn_def Let_def intro!: wlp_mono [OF jam_close_all_stale])
qed (auto simp: main_turn_def intro: jam_check_events)

lemma jam_landed: "jam N s \<Longrightarrow> jam N (landed b k s)"
  unfolding jam_def jammed_def landed_def by (auto dest: set_remove1_subset [THEN subsetD])

lemma jam_arrive: "jam N s \<Longrightarrow> \<not> is_sent e \<Longrightarrow> jam N (arrive b k bs e s)"
  unfolding jam_def jammed_def landed_def arrive_def by (auto dest!: set_remove1_subset [THEN subsetD] split: if_splits)

lemma jam_step: "iocp_step W s t \<Longrightarrow> jam N s \<Longrightarrow> jam N t"
proof (induction rule: iocp_step.induct)
  case (Step_accept b l s ob bs wsa t)
  then have "jam N (arrive b l bs (Accepted (sclient ob) bs) s)" by (simp add: jam_arrive)
  then show ?case using Step_accept jam_HandleIo [of N "arrive b l bs (Accepted (sclient ob) bs) s" b 0 W l "of_nat (length bs)"]
    by (simp add: CompletionThread_def arrive_buf)
next
  case (Step_receive b k s ob c bs wsa t)
  then have "jam N (arrive b k bs (Received (s_handle c) bs) s)" by (simp add: jam_arrive)
  then show ?case using Step_receive jam_HandleIo [of N "arrive b k bs (Received (s_handle c) bs) s" b 0 W k "of_nat (length bs)"]
    by (simp add: CompletionThread_def arrive_buf)
next
  case (Step_send b k s ob n wsa t)
  then show ?case by (auto simp: jam_def jammed_def)
next
  case (Step_fail b k s ob error n t)
  then show ?case using jam_HandleIo [OF jam_landed, of N s b k b error W k n]
    by (auto simp: CompletionThread_def split: Option.bind_splits)
next
  case (Step_turn r s t)
  then show ?case using wlpD [OF jam_main_turn] by blast
qed simp

section \<open>Accepts that are posted\<close>

definition accepts_of :: "iocp \<Rightarrow> nat \<Rightarrow> int" where
  "accepts_of s l = (case lstns s l of None \<Rightarrow> 0 | Some lo \<Rightarrow> PendingAcceptCount lo)"

lemma add_accept_count:
  "wlp (add_accept W l s) (\<lambda>_ t. gMaxAccepts t = gMaxAccepts s \<and> accepts_of s l \<le> accepts_of t l \<and> accepts_of t l \<le> accepts_of s l + 1 \<and>
     (\<forall>l'. l' \<noteq> l \<longrightarrow> accepts_of t l' = accepts_of s l'))"
  unfolding add_accept_def GetBufferObj_def InsertPendingAccept_def PostAccept_def
  by (auto simp: accepts_of_def ask_def Let_def win_socket_def win_AcceptEx_def post_def split: option.splits prod.splits if_splits)

lemma repost_count:
  "wlp (repost W l n s) (\<lambda>_ t. gMaxAccepts t = gMaxAccepts s \<and> accepts_of s l \<le> accepts_of t l \<and> accepts_of t l \<le> accepts_of s l + int n \<and>
     accepts_of t l \<le> max (accepts_of s l) (gMaxAccepts s) \<and> (\<forall>l'. l' \<noteq> l \<longrightarrow> accepts_of t l' = accepts_of s l'))"
proof (induction n arbitrary: s)
  case (Suc n)
  show ?case
  proof (cases "lstns s l")
    case (Some lo)
    show ?thesis
    proof (cases "PendingAcceptCount lo < gMaxAccepts s")
      case True
      then have "wlp (add_accept W l s) (\<lambda>_ t. wlp (repost W l n t) (\<lambda>_ u. gMaxAccepts u = gMaxAccepts s \<and> accepts_of s l \<le> accepts_of u l \<and>
         accepts_of u l \<le> accepts_of s l + int (Suc n) \<and> accepts_of u l \<le> max (accepts_of s l) (gMaxAccepts s) \<and>
         (\<forall>l'. l' \<noteq> l \<longrightarrow> accepts_of u l' = accepts_of s l')))"
        using Some by (intro wlp_mono [OF add_accept_count] wlp_mono [OF Suc.IH]) (auto simp: accepts_of_def)
      then show ?thesis using Some True by simp
    qed (use Some in simp)
  qed simp
qed simp

section \<open>Events that are waited for\<close>

lemma create_threads_events: "wlp (create_threads W n s) (\<lambda>r t. r = None \<longrightarrow> length (WaitEvents t) = length (WaitEvents s) + n)"
proof (induction n arbitrary: s)
  case (Suc n)
  show ?case by (auto simp: ask_def Let_def wait_for_def split: prod.split intro!: wlp_mono [OF Suc.IH])
qed simp

lemma add_accept_events: "wlp (add_accept W l s) (\<lambda>_ t. WaitEvents t = WaitEvents s)"
  unfolding add_accept_def GetBufferObj_def InsertPendingAccept_def PostAccept_def
  by (auto simp: ask_def Let_def win_socket_def win_AcceptEx_def post_def split: option.splits prod.splits if_splits)

lemma initial_accepts_events: "wlp (initial_accepts W l n s) (\<lambda>_ t. WaitEvents t = WaitEvents s)"
proof (induction n arbitrary: s)
  case (Suc n)
  show ?case by (auto intro!: wlp_mono [OF add_accept_events] wlp_mono [OF Suc.IH])
qed simp

lemma must_events:
  "(\<And>h. wlp (k h (s\<lparr>calls := c # calls s\<rparr>)) Q) \<Longrightarrow> (\<And>t. Q (Some (-1)) t) \<Longrightarrow> wlp (must W c k s) Q"
  by (auto simp: must_def ask_def Let_def split: prod.split)

lemma open_endpoint_events:
  "wlp (open_endpoint W family s) (\<lambda>r t. r = None \<longrightarrow> length (WaitEvents t) = length (WaitEvents s) + 2 \<and>
     length (WaitEvents t) \<le> MAX_COMPLETION_THREAD_COUNT)"
proof -
  have rest: "wlp (do {
      (r, s) \<leftarrow> initial_accepts W l n t;
      if r \<noteq> None then Some (r, s)
      else do {
        (_, s) \<leftarrow> upd_lstn l (l_next_update (\<lambda>_. ListenSockets s)) s;
        Some (None, s\<lparr>ListenSockets := Some l\<rparr>) } })
      (\<lambda>r u. r = None \<longrightarrow> WaitEvents u = WaitEvents t)" for t l n
    by (auto intro!: wlp_mono [OF initial_accepts_events])
  show ?thesis
    unfolding open_endpoint_def
    apply (rule must_events)
     apply (simp add: win_socket_def ask_def Let_def split: prod.split)
     apply (intro conjI allI impI)
     apply (rule must_events)
      apply simp
      apply (rule must_events)
       apply (simp add: wait_for_def win_CreateIoCompletionPort_def ask_def Let_def split: prod.split)
       apply (intro conjI allI impI)
       apply (rule must_events)+
           apply (simp, rule wlp_mono [OF rest [simplified]])
           apply simp_all
    apply (auto split: if_splits)
    done
qed

lemma open_endpoints_events:
  "wlp (open_endpoints W fs s) (\<lambda>r t. r = None \<longrightarrow> length (WaitEvents t) = length (WaitEvents s) + 2 * length fs \<and>
     (fs \<noteq> [] \<longrightarrow> length (WaitEvents t) \<le> MAX_COMPLETION_THREAD_COUNT))"
proof (induction fs arbitrary: s)
  case (Cons f fs)
  have "wlp (open_endpoint W f s) (\<lambda>r t. wlp (if r \<noteq> None then Some (r, t) else open_endpoints W fs t)
    (\<lambda>r u. r = None \<longrightarrow> length (WaitEvents u) = length (WaitEvents s) + 2 * length (f # fs) \<and> length (WaitEvents u) \<le> MAX_COMPLETION_THREAD_COUNT))"
  proof (rule wlp_mono [OF open_endpoint_events])
    fix r :: "int option" and t :: iocp assume r: "r = None \<longrightarrow> length (WaitEvents t) = length (WaitEvents s) + 2 \<and> length (WaitEvents t) \<le> MAX_COMPLETION_THREAD_COUNT"
    show "wlp (if r \<noteq> None then Some (r, t) else open_endpoints W fs t)
      (\<lambda>r u. r = None \<longrightarrow> length (WaitEvents u) = length (WaitEvents s) + 2 * length (f # fs) \<and> length (WaitEvents u) \<le> MAX_COMPLETION_THREAD_COUNT)"
    proof (cases r)
      case None
      have "wlp (open_endpoints W fs t) (\<lambda>r u. r = None \<longrightarrow> length (WaitEvents u) = length (WaitEvents s) + 2 * length (f # fs) \<and>
          length (WaitEvents u) \<le> MAX_COMPLETION_THREAD_COUNT)"
        by (cases "fs = []") (use r None wlp_mono [OF Cons.IH [of t]] in auto)
      then show ?thesis using None by simp
    qed simp
  qed
  then show ?case by simp
qed simp

lemma main_events:
  assumes "iocp_main W args procs page families = Some (None, s)"
  shows "length (WaitEvents s) = min procs MAX_COMPLETION_THREAD_COUNT + 2 * length families" "length (WaitEvents s) \<le> MAX_COMPLETION_THREAD_COUNT"
    "families \<noteq> []"
proof -
  let ?n = "min procs MAX_COMPLETION_THREAD_COUNT"
  obtain opts where v: "ValidateArgs args default_options = Some (Inr opts)"
    using assms by (auto simp: iocp_main_def split: Option.bind_splits sum.splits)
  let ?s = "(empty_server opts)\<lparr>calls := [Call_CreatePort, Call_WSAStartup], gBufferSize := round_buffer (gBufferSize (empty_server opts)) page, processors := ?n\<rparr>"
  have "wlp (create_threads W ?n ?s) (\<lambda>r t. wlp (if r \<noteq> None then Some (r, t) else if families = [] then Some (Some (-1), t) else
      open_endpoints W families t) (\<lambda>r u. r = None \<longrightarrow> length (WaitEvents u) = ?n + 2 * length families \<and>
        length (WaitEvents u) \<le> MAX_COMPLETION_THREAD_COUNT \<and> families \<noteq> []))"
    by (rule wlp_mono [OF create_threads_events]) (auto simp: empty_server_def intro!: wlp_mono [OF open_endpoints_events])
  then have "wlp (iocp_main W args procs page families) (\<lambda>r u. r = None \<longrightarrow> length (WaitEvents u) = ?n + 2 * length families \<and>
        length (WaitEvents u) \<le> MAX_COMPLETION_THREAD_COUNT \<and> families \<noteq> [])"
    using v by (auto simp: iocp_main_def Let_def ask_def empty_server_def intro!: must_events elim!: wlp_mono split: prod.split)
  then show "length (WaitEvents s) = min procs MAX_COMPLETION_THREAD_COUNT + 2 * length families" "length (WaitEvents s) \<le> MAX_COMPLETION_THREAD_COUNT"
    "families \<noteq> []" using assms by simp_all
qed

section \<open>An accept that fails\<close>

text \<open>The buffer goes to the lookaside list and stays on the list of accepts; nothing is posted instead.\<close>

lemma failed_accept:
  assumes "bufs s b = Some ob" "operation ob = OP_ACCEPT" "error \<noteq> 0"
  shows "wp (HandleIo W l b n error s) (\<lambda>_ t. lstns t = lstns s \<and> gFreeBufferList t = Some b \<and>
    (\<exists>ob'. bufs t b = Some ob' \<and> b_next ob' = gFreeBufferList s) \<and> signalled t = signalled s)"
  using assms by (simp add: HandleIo_def FreeBufferObj_def upd_buf_def win_closesocket_def ask_def zero_buffer_def)

text \<open>When it is taken from there again for the next accept, the list runs in a circle.\<close>

lemma accepted_again:
  assumes "lstns s l = Some lo" "PendingAccepts lo = Some b" "gFreeBufferList s = Some b" "bufs s b = Some ob"
  shows "wp (add_accept W l s) (\<lambda>_ t. (\<exists>lo'. lstns t l = Some lo' \<and> PendingAccepts lo' = Some b) \<and> (\<exists>ob'. bufs t b = Some ob' \<and> b_next ob' = Some b))"
  using assms unfolding add_accept_def GetBufferObj_def InsertPendingAccept_def PostAccept_def
  by (auto simp: ask_def Let_def win_socket_def win_AcceptEx_def post_def split: option.splits prod.splits if_splits)

text \<open>From then on no other accept that is not found before can be removed: the search does not end.\<close>

lemma search_circle:
  assumes "bs b = Some ob" "b_next ob = Some b" "x \<noteq> b"
  shows "search_accept bs x prev (Some b) = None"
proof (rule ccontr)
  assume "search_accept bs x prev (Some b) \<noteq> None"
  then obtain r where r: "search_accept bs x prev (Some b) = Some r" by blast
  have "\<not> (bs = bs \<and> x = x \<and> Some b = Some b)"
  proof (rule search_accept.raw_induct [OF _ r, where P = "\<lambda>bs' obj prev ptr r. \<not> (bs' = bs \<and> obj = x \<and> ptr = Some b)"])
    fix f bs' obj prev ptr r
    assume IH: "\<And>bs' obj prev ptr r. f bs' obj prev ptr = Some r \<Longrightarrow> \<not> (bs' = bs \<and> obj = x \<and> ptr = Some b)"
      and e: "(if ptr = None \<or> ptr = Some obj then Some prev
        else Option.bind (bs' (the ptr)) (\<lambda>b. f bs' obj ptr (b_next b))) = Some r"
    show "\<not> (bs' = bs \<and> obj = x \<and> ptr = Some b)" using e IH [of bs x "Some b" "Some b" r] assms by (auto split: if_splits)
  qed
  then show False by simp
qed

lemma RemovePendingAccept_circle:
  assumes "lstns s l = Some lo" "PendingAccepts lo = Some b" "bufs s b = Some ob" "b_next ob = Some b" "x \<noteq> b"
  shows "RemovePendingAccept l x s = None"
  using assms search_circle [of "bufs s" b ob x None] by (simp add: RemovePendingAccept_def)

section \<open>Sends that fail\<close>

lemma FreeSocketObj_sends: "wlp (FreeSocketObj W k s) (\<lambda>_ t. gOutstandingSends t = gOutstandingSends s \<and> inflight t = inflight s)"
  by (auto simp: FreeSocketObj_def win_closesocket_def ask_def)

lemma failed_send_counts:
  assumes "bufs s b = Some ob" "operation ob = OP_WRITE" "error \<noteq> 0"
  shows "wlp (HandleIo W k b n error s) (\<lambda>_ t. gOutstandingSends t = gOutstandingSends s \<and> inflight t = inflight s)"
  using assms unfolding HandleIo_def failed_io_def FreeBufferObj_def
  by (auto intro!: wlp_mono [OF FreeSocketObj_sends])

section \<open>The size of a buffer\<close>

lemma round_buffer_least:
  assumes "page \<noteq> 0" "unat n + unat page \<le> 2 ^ 32"
  shows "unat (round_buffer n page) mod unat page = 0" "unat n \<le> unat (round_buffer n page)" "unat (round_buffer n page) < unat n + unat page"
proof -
  have p: "0 < unat page" using assms(1) by (simp add: unat_gt_0)
  have m: "n mod page = 0 \<longleftrightarrow> unat n mod unat page = 0" by (simp add: word_unat_eq_iff unat_mod)
  have e: "unat n = unat n div unat page * unat page + unat n mod unat page" by simp
  have l: "unat n mod unat page < unat page" using p by simp
  have r: "unat (round_buffer n page) = (if unat n mod unat page \<noteq> 0 then (unat n div unat page + 1) * unat page else unat n)"
  proof (cases "unat n mod unat page = 0")
    case False
    then have "0 < unat n mod unat page" by simp
    moreover have "(unat n div unat page + 1) * unat page = unat n div unat page * unat page + unat page" by simp
    ultimately have b: "(unat n div unat page + 1) * unat page < 2 ^ 32" using assms(2) e by linarith
    have "(unat n div unat page + 1) * 1 \<le> (unat n div unat page + 1) * unat page" by (rule mult_le_mono2) (use p in simp)
    then have b1: "unat n div unat page + 1 < 2 ^ 32" using b unfolding mult_1_right by (rule le_less_trans)
    have "unat (n div page + 1) = unat n div unat page + 1" using b1 by (simp add: unat_word_ariths unat_div)
    then have "unat ((n div page + 1) * page) = (unat n div unat page + 1) * unat page" using b by (simp add: unat_word_ariths)
    then show ?thesis using False m by (simp add: round_buffer_def)
  qed (use m in \<open>simp add: round_buffer_def\<close>)
  show "unat (round_buffer n page) mod unat page = 0" unfolding r by simp
  have d: "(unat n div unat page + 1) * unat page = unat n div unat page * unat page + unat page" by simp
  have "N \<le> (if m \<noteq> 0 then D + P else N) \<and> (if m \<noteq> 0 then D + P else N) < N + P" if "N = D + m" "m < P" for N m D P :: nat
    using that by auto
  from this [OF e l] show "unat n \<le> unat (round_buffer n page)" "unat (round_buffer n page) < unat n + unat page"
    unfolding r d by blast+
qed

end
