(* ===== verification/IocpStart.thy ===== *)
theory IocpStart
  imports IocpReach
begin

text \<open>The server that \<open>main\<close> has set up satisfies the invariant.\<close>

section \<open>Setting up\<close>

text \<open>What holds where \<open>main\<close> goes on; nothing is said where it returns.\<close>

abbreviation goes_on :: "(iocp \<Rightarrow> bool) \<Rightarrow> int option \<Rightarrow> iocp \<Rightarrow> bool" where
  "goes_on Q r t \<equiv> r = None \<longrightarrow> Q t"

lemma must_wlp:
  "(\<And>h. wlp (k h (s\<lparr>calls := c # calls s\<rparr>)) (goes_on Q)) \<Longrightarrow> wlp (must W c k s) (goes_on Q)"
  by (auto simp: must_def ask_def Let_def split: prod.split)

lemma wait_for_wlp: "wlp (wait_for h s) Q \<longleftrightarrow> (length (WaitEvents s) < MAX_COMPLETION_THREAD_COUNT \<longrightarrow> Q () (s\<lparr>WaitEvents := WaitEvents s @ [h]\<rparr>))"
  by (simp add: wait_for_def)

lemma create_threads_serving:
  "serving s LS \<Longrightarrow> wlp (create_threads W n s) (goes_on (\<lambda>t. serving t LS))"
proof (induction n arbitrary: s)
  case (Suc n)
  have w: "serving (s\<lparr>WaitEvents := x\<rparr>) LS = serving s LS" for s x by (simp add: serving_def)
  show ?case using Suc by (auto simp: ask_def Let_def wait_for_wlp w split: prod.split)
qed simp

lemma initial_accepts_inv:
  assumes "iocp_inv s P F G A L" "l \<in> L"
  shows "wlp (initial_accepts W l n s) (goes_on (\<lambda>t. good s L t))"
  using assms
proof (induction n arbitrary: s F A)
  case (Suc n)
  have "wlp (add_accept W l s) (\<lambda>ok t. wlp (if ok then initial_accepts W l n t else Some (Some (-1), t)) (goes_on (\<lambda>t. good s L t)))"
  proof (rule wlp_mono [OF wp_imp_wlp [OF add_accept_inv [OF Suc.prems]]], elim conjE exE)
    fix ok t F' A' assume t: "same_listeners s t" "iocp_inv t P F' G A' L"
    have "wlp (initial_accepts W l n t) (goes_on (\<lambda>u. good s L u))"
      by (rule wlp_mono [OF Suc.IH [OF t(2) Suc.prems(2)]]) (auto intro: same_listeners_trans [OF t(1)])
    then show "wlp (if ok then initial_accepts W l n t else Some (Some (-1), t)) (goes_on (\<lambda>t. good s L t))" by simp
  qed
  then show ?case by simp
qed auto

text \<open>A listening socket whose handle is open and associated.\<close>

lemma listening_inv:
  fixes s :: iocp and ls as op n cs ws
  defines "t \<equiv> s\<lparr>lstns := ls, heap_top := n, assoc := as, opened := op, calls := cs, WaitEvents := ws\<rparr>"
  assumes I: "iocp_inv s P F G A L" and l: "l \<notin> L" "l < n" "heap_top s \<le> n" and h: "h \<notin> opened s" "h \<noteq> INVALID_SOCKET"
    and ls: "ls = (lstns s)(l \<mapsto> lo)" "l_handle lo = h" "PendingAccepts lo = None"
    and as: "as = (assoc s)(h \<mapsto> l)" "op = insert h (opened s)"
  shows "iocp_inv t P F G A (insert l L)"
proof -
  have BI: "buffers_inv s P F A L" and CI: "conns_inv s P G L" and SI: "sends_inv s" using I by (simp_all add: iocp_inv_def)
  note D = buffers_invD [OF BI]
  have Al: "A l = []" by (rule D(5) [OF l(1)])
  have "conns_inv (s\<lparr>lstns := ls, heap_top := n, assoc := as, opened := op, calls := cs\<rparr>) P G (insert l L)"
    by (rule add_listening [OF CI l h, where lo = lo]) (use ls as l in auto)
  then have "conns_inv t P G (insert l L)" by (simp add: t_def)
  moreover have "buffers_inv t P F A (insert l L)"
  proof (rule buffers_invI)
    show "\<exists>lo. lstns t x = Some lo \<and> linked (bnext (bufs t)) (PendingAccepts lo) (A x)" if "x \<in> insert l L" for x
      using that D(4) [of x] Al ls by (auto simp: t_def)
    show "x \<notin> insert l L \<Longrightarrow> A x = []" for x using D(5) by simp
    show "bufs t b \<noteq> None \<Longrightarrow> b < heap_top t" for b using D(7) [of b] l(3) by (simp add: t_def)
  qed (use D in \<open>simp_all add: t_def\<close>)
  moreover have "sends_inv t" by (rule sends_cong [OF SI]) (simp_all add: t_def)
  ultimately show ?thesis using I by (simp add: iocp_inv_def echoing_def t_def)
qed

lemma fresh_listener: "iocp_inv s P F G A L \<Longrightarrow> heap_top s \<notin> L"
  using conns_invD(9) [of s P G L "heap_top s"] by (auto simp: iocp_inv_def)

lemma open_endpoint_serving:
  assumes s: "serving s LS"
  shows "wlp (open_endpoint W family s) (goes_on (\<lambda>t. \<exists>l. serving t (l # LS)))"
proof -
  obtain P F G A where I: "iocp_inv s P F G A (set LS)" and ll: "linked (lnext (lstns s)) (ListenSockets s) LS"
    using s by (auto simp: serving_def)
  let ?l = "heap_top s"
  have fl: "?l \<notin> set LS" by (rule fresh_listener [OF I])
  have fin: "wlp (do {
      (r, s) \<leftarrow> initial_accepts W ?l n t;
      if r \<noteq> None then Some (r, s)
      else do {
        (_, s) \<leftarrow> upd_lstn ?l (l_next_update (\<lambda>_. ListenSockets s)) s;
        Some (None, s\<lparr>ListenSockets := Some ?l\<rparr>) } }) (goes_on (\<lambda>t. \<exists>l. serving t (l # LS)))"
    if t: "iocp_inv t P F G A (insert ?l (set LS))" "linked (lnext (lstns t)) (ListenSockets t) LS" for t n
    unfolding wlp_bind
  proof (rule wlp_mono [OF initial_accepts_inv [OF t(1) insertI1]])
    fix r u assume u: "goes_on (\<lambda>u. good t (insert ?l (set LS)) u) r u"
    show "wlp (case (r, u) of (r, s) \<Rightarrow> if r \<noteq> None then Some (r, s)
      else do {
        (_, s) \<leftarrow> upd_lstn ?l (l_next_update (\<lambda>_. ListenSockets s)) s;
        Some (None, s\<lparr>ListenSockets := Some ?l\<rparr>) }) (goes_on (\<lambda>t. \<exists>l. serving t (l # LS)))"
    proof (cases r)
      case None
      then obtain P' F' G' A' where iu: "iocp_inv u P' F' G' A' (insert ?l (set LS))" and su: "same_listeners t u" using u by auto
      obtain lo where lo: "lstns u ?l = Some lo" using conns_invD(9) [of u P' G' "insert ?l (set LS)" ?l] iu by (auto simp: iocp_inv_def)
      let ?lo = "l_next_update (\<lambda>_. ListenSockets u) lo"
      let ?v = "u\<lparr>lstns := (lstns u)(?l \<mapsto> ?lo), ListenSockets := Some ?l\<rparr>"
      have "iocp_inv (u\<lparr>lstns := (lstns u)(?l \<mapsto> ?lo)\<rparr>) P' F' G' A' (insert ?l (set LS))" by (rule lstn_inv(1) [OF iu lo]) simp_all
      then have iv: "iocp_inv ?v P' F' G' A' (set (?l # LS))" by simp
      have lu: "linked (lnext (lstns u)) (ListenSockets u) LS" using t(2) same_lnext [OF su] su by (simp add: same_listeners_def)
      have ln: "lnext ((lstns u)(?l \<mapsto> ?lo)) = (lnext (lstns u))(?l := Some (ListenSockets u))" by (auto simp: lnext_def fun_eq_iff)
      have "linked (lnext (lstns ?v)) (ListenSockets ?v) (?l # LS)" using lu fl by (simp add: ln)
      then have "serving ?v (?l # LS)" using iv unfolding serving_def by blast
      then show ?thesis using None lo by (auto simp: upd_lstn_def)
    qed simp
  qed
  let ?n = "new_listener family (gInitialAccepts s)"
  have prepared: "iocp_inv t P F G A (insert ?l (set LS)) \<and> linked (lnext (lstns t)) (ListenSockets t) LS"
    if t: "t = s\<lparr>lstns := (lstns s)(?l \<mapsto> lo), heap_top := ?l + 1, assoc := (assoc s)(h \<mapsto> ?l), opened := insert h (opened s), calls := cs, WaitEvents := ws\<rparr>"
      and lo: "l_handle lo = h" "PendingAccepts lo = None" and h: "h \<notin> opened s" "h \<noteq> INVALID_SOCKET" for t lo h cs ws
  proof
    show "iocp_inv t P F G A (insert ?l (set LS))" unfolding t
      by (rule listening_inv [OF I fl]) (use lo h in simp_all)
    have "lnext (lstns t) = (lnext (lstns s))(?l := Some (l_next lo))" by (auto simp: t lnext_def fun_eq_iff)
    then show "linked (lnext (lstns t)) (ListenSockets t) LS" using ll fl by (simp add: t)
  qed
  let ?cs = "Call_socket family # Call_HeapAlloc # calls s"
  obtain err h where w: "W (Call_HeapAlloc # calls s) (Call_socket family) = (err, h)" by fastforce
  show ?thesis
  proof (cases "err \<noteq> 0 \<or> h = INVALID_SOCKET \<or> h \<in> opened s")
    case True
    then show ?thesis
      unfolding open_endpoint_def by (intro must_wlp) (auto simp: win_socket_def ask_def w Let_def upd_lstn_def)
  next
    case False
    let ?s = "\<lambda>ae re cs. s\<lparr>heap_top := Suc ?l, opened := insert h (opened s),
      lstns := (lstns s)(?l \<mapsto> ?n\<lparr>l_handle := h, AcceptEvent := ae, RepostAccept := re\<rparr>),
      WaitEvents := WaitEvents s @ [ae, re], assoc := (assoc s)(h \<mapsto> ?l), calls := cs\<rparr>"
    have st: "iocp_inv (?s ae re cs) P F G A (insert ?l (set LS)) \<and> linked (lnext (lstns (?s ae re cs))) (ListenSockets (?s ae re cs)) LS"
      for ae re cs
      by (rule prepared [where lo = "?n\<lparr>l_handle := h, AcceptEvent := ae, RepostAccept := re\<rparr>" and h = h and cs = cs
            and ws = "WaitEvents s @ [ae, re]"]) (use False in \<open>simp_all add: new_listener_def\<close>)
    note last = fin [OF st [THEN conjunct1] st [THEN conjunct2]]
    show ?thesis
      unfolding open_endpoint_def
      apply (rule must_wlp)
      apply (use False in \<open>simp add: win_socket_def ask_def w Let_def upd_lstn_def\<close>)
      apply (rule must_wlp)
      apply (simp add: upd_lstn_def)
      apply (rule must_wlp)
      apply (simp add: upd_lstn_def wait_for_wlp win_CreateIoCompletionPort_def ask_def Let_def split: prod.split)
      apply (intro allI impI)
      apply (rule must_wlp)+
      apply (use last in simp)
      done
  qed
qed

lemma open_endpoints_serving:
  "serving s LS \<Longrightarrow> wlp (open_endpoints W fs s) (goes_on (\<lambda>t. \<exists>LS. serving t LS))"
proof (induction fs arbitrary: s LS)
  case (Cons f fs)
  have "wlp (open_endpoint W f s) (\<lambda>r t. wlp (if r \<noteq> None then Some (r, t) else open_endpoints W fs t) (goes_on (\<lambda>t. \<exists>LS. serving t LS)))"
    by (rule wlp_mono [OF open_endpoint_serving [OF Cons.prems]]) (use Cons.IH in auto)
  then show ?case by simp
qed auto

lemma empty_server_serving:
  assumes "accept_addresses \<le> n"
  shows "serving ((empty_server opts)\<lparr>calls := cs, gBufferSize := n, processors := p\<rparr>) []"
proof -
  let ?s = "(empty_server opts)\<lparr>calls := cs, gBufferSize := n, processors := p\<rparr>"
  have "buffers_inv ?s [] [] (\<lambda>_. []) {}" using assms by (simp add: buffers_inv_def empty_server_def)
  moreover have "conns_inv ?s [] [] {}"
    by (simp add: conns_inv_def conn_def waiting_def flying_def answers_for_def accepting_def empty_server_def)
  moreover have "sends_inv ?s" by (simp add: sends_inv_def writes_def empty_server_def)
  moreover have "echoing ?s" by (simp add: echoing_def echoed_def empty_server_def)
  ultimately have "iocp_inv ?s [] [] [] (\<lambda>_. []) (set [])" by (simp add: iocp_inv_def)
  moreover have "ListenSockets ?s = None" by (simp add: empty_server_def)
  ultimately show ?thesis unfolding serving_def by (metis linked.simps(1))
qed

text \<open>The size of the buffers that the command line asks for, in whole pages.\<close>

definition buffer_size :: "string list \<Rightarrow> dword \<Rightarrow> dword" where
  "buffer_size args page = (case ValidateArgs args default_options of
     Some (Inr opts) \<Rightarrow> round_buffer (of_int (o_BufferSize opts)) page | _ \<Rightarrow> 0)"

lemma iocp_main_serving:
  assumes "iocp_main W args procs page families = Some (None, s)" "accept_addresses \<le> buffer_size args page"
  shows "\<exists>LS. serving s LS"
proof -
  obtain opts where v: "ValidateArgs args default_options = Some (Inr opts)"
    using assms(1) by (auto simp: iocp_main_def split: Option.bind_splits sum.splits)
  let ?n = "min procs MAX_COMPLETION_THREAD_COUNT"
  let ?s = "(empty_server opts)\<lparr>calls := [Call_CreatePort, Call_WSAStartup], gBufferSize := round_buffer (gBufferSize (empty_server opts)) page, processors := ?n\<rparr>"
  have "accept_addresses \<le> round_buffer (gBufferSize (empty_server opts)) page"
    using assms(2) v by (simp add: buffer_size_def empty_server_def)
  then have s0: "serving ?s []" by (rule empty_server_serving)
  have "wlp (create_threads W ?n ?s) (\<lambda>r t. wlp (if r \<noteq> None then Some (r, t) else if families = [] then Some (Some (-1), t) else
      open_endpoints W families t) (goes_on (\<lambda>t. \<exists>LS. serving t LS)))"
    by (rule wlp_mono [OF create_threads_serving [OF s0]]) (auto intro: open_endpoints_serving)
  moreover have fr: "serving (t\<lparr>calls := c, gStartTime := x, gStartTimeLast := y\<rparr>) = serving t" for t c x y
    by (simp add: serving_def fun_eq_iff)
  ultimately have "wlp (iocp_main W args procs page families) (goes_on (\<lambda>t. \<exists>LS. serving t LS))"
    using v fr
    by (auto simp: iocp_main_def Let_def ask_def empty_server_def intro!: must_wlp elim!: wlp_mono split: prod.split) (rule exI)
  then show ?thesis using assms(1) by simp
qed

text \<open>The states a server reaches that was started with a command line.\<close>

definition reachable_server :: "world \<Rightarrow> string list \<Rightarrow> nat \<Rightarrow> dword \<Rightarrow> int list \<Rightarrow> iocp \<Rightarrow> bool" where
  "reachable_server W args procs page families t \<longleftrightarrow>
     (\<exists>s. iocp_main W args procs page families = Some (None, s) \<and> (iocp_step W)\<^sup>*\<^sup>* s t)"

lemma reachable_serving:
  assumes "reachable_server W args procs page families t" "patient W" "accept_addresses \<le> buffer_size args page"
  shows "\<exists>LS. serving t LS"
  using assms iocp_main_serving iocp_steps_serving unfolding reachable_server_def by meson

end
