(* ===== verification/IocpExample.thy ===== *)
theory IocpExample
  imports IocpLimits IocpStart
begin

text \<open>A run of the server, for the concrete instances of its properties.\<close>

text \<open>Everything succeeds; handles are numbered by the calls made before, and no client is silent.\<close>

declare search_accept.simps [code] find_listener.simps [code]

definition willing :: world where
  "willing cs c = (case c of Call_getsockopt h \<Rightarrow> (0, 0xFFFFFFFF) | _ \<Rightarrow> (0, of_nat (length cs)))"

lemma willing_calm: "calm willing"
  by (simp add: calm_def willing_def WSAENOBUFS_def)

lemma willing_patient: "patient willing"
  by (simp add: patient_def willing_def)

definition small_args :: "string list" where
  "small_args = [''-b'', ''292'', ''-o'', ''1'', ''-os'', ''1'']"

definition server0 :: iocp where
  "server0 = (case iocp_main willing small_args 1 1 [AF_INET] of Some (_, s) \<Rightarrow> s | None \<Rightarrow> empty_server default_options)"

definition completion :: "dword \<Rightarrow> nat \<Rightarrow> nat \<Rightarrow> iocp \<Rightarrow> iocp" where
  "completion n k b s = (case CompletionThread willing (True, n, k, Some b) (Inr 0) s of Some (_, t) \<Rightarrow> t | None \<Rightarrow> s)"

text \<open>A client connects and sends two bytes, then two more, which are echoed.\<close>

definition hello :: "byte list" where "hello = [104, 105]"

definition server1 :: iocp where
  "server1 = completion 2 0 1 (arrive 1 0 hello (Accepted (case bufs server0 1 of Some ob \<Rightarrow> sclient ob | None \<Rightarrow> 0) hello) server0)"

definition server2 :: iocp where
  "server2 = completion 2 2 1 (landed 1 2 server1)"

lemma main_runs: "(case iocp_main willing small_args 1 1 [AF_INET] of Some (None, _) \<Rightarrow> True | _ \<Rightarrow> False) \<and>
  inflight server0 = [(1, 0)] \<and> map_option operation (bufs server0 1) = Some OP_ACCEPT \<and> map_option buflen (bufs server0 1) = Some 292"
  by code_simp

lemma accept_runs: "(case CompletionThread willing (True, 2, 0, Some 1) (Inr 0)
    (arrive 1 0 hello (Accepted (case bufs server0 1 of Some ob \<Rightarrow> sclient ob | None \<Rightarrow> 0) hello) server0) of Some _ \<Rightarrow> True | _ \<Rightarrow> False) \<and>
  inflight server1 = [(1, 2)] \<and> map_option operation (bufs server1 1) = Some OP_WRITE"
  by code_simp

lemma server0_reachable: "reachable_server willing small_args 1 1 [AF_INET] server0"
proof -
  have "iocp_main willing small_args 1 1 [AF_INET] = Some (None, server0)"
    using main_runs by (auto simp: server0_def split: option.splits prod.splits)
  then show ?thesis by (auto simp: reachable_server_def)
qed

lemma reachable_step: "reachable_server W args procs page families s \<Longrightarrow> iocp_step W s t \<Longrightarrow> reachable_server W args procs page families t"
  unfolding reachable_server_def by (meson rtranclp.rtrancl_into_rtrancl)

lemma server1_reachable: "reachable_server willing small_args 1 1 [AF_INET] server1"
proof (rule reachable_step [OF server0_reachable])
  obtain ob where ob: "bufs server0 1 = Some ob" "operation ob = OP_ACCEPT" "buflen ob = 292" "inflight server0 = [(1, 0)]"
    using main_runs by auto
  then have "CompletionThread willing (True, of_nat (length hello), 0, Some 1) (Inr 0) (arrive 1 0 hello (Accepted (sclient ob) hello) server0)
      = Some ((), server1)"
    using accept_runs by (auto simp: server1_def completion_def hello_def split: option.splits)
  then show "iocp_step willing server0 server1"
    by (rule Step_accept [rotated -1]) (use ob in \<open>simp_all add: hello_def accept_addresses_288\<close>)
qed

text \<open>The two bytes have been received and sent.\<close>

lemma server1_net: "echoed (net server1) 14 = (hello, hello) \<and> gOutstandingSends server1 = 1 \<and> gMaxSends server1 = 1"
  by code_simp

text \<open>The send fails.\<close>

definition failed1 :: iocp where
  "failed1 = (case CompletionThread willing (False, 0, 2, Some 1) (Inl 64) (landed 1 2 server1) of Some (_, t) \<Rightarrow> t | None \<Rightarrow> server1)"

lemma failure_runs: "(case CompletionThread willing (False, 0, 2, Some 1) (Inl 64) (landed 1 2 server1) of Some _ \<Rightarrow> True | _ \<Rightarrow> False) \<and>
  gMaxSends failed1 \<le> gOutstandingSends failed1 \<and> inflight failed1 = []"
  by code_simp

lemma failed1_reachable: "reachable_server willing small_args 1 1 [AF_INET] failed1"
proof (rule reachable_step [OF server1_reachable])
  obtain ob where ob: "bufs server1 1 = Some ob" "operation ob = OP_WRITE" "inflight server1 = [(1, 2)]" using accept_runs by auto
  have "CompletionThread willing (False, 0, 2, Some 1) (Inl 64) (landed 1 2 server1) = Some ((), failed1)"
    using failure_runs by (auto simp: failed1_def split: option.splits)
  then show "iocp_step willing server1 failed1"
    by (intro Step_fail [where ob = ob and b = 1 and k = 2]) (use ob in simp_all)
qed

lemma small_args_enough: "accept_addresses \<le> buffer_size small_args 1"
  by code_simp

lemma listener_runs: "map_option PendingAccepts (lstns server0 0) = Some (Some 1)"
  by code_simp

lemma repost_runs: "(case repost willing 0 3 server0 of Some _ \<Rightarrow> True | None \<Rightarrow> False)"
  by code_simp

text \<open>Two connections whose buffers are to be sent.\<close>

definition two_clients :: iocp where
  "two_clients = (empty_server default_options)
     \<lparr>bufs := [1 \<mapsto> (zero_buffer 4)\<lparr>sock := Some 3\<rparr>, 2 \<mapsto> (zero_buffer 4)\<lparr>sock := Some 4\<rparr>],
      socks := [3 \<mapsto> zero_socket, 4 \<mapsto> zero_socket]\<rparr>"

lemma two_clients_idle: "pending_sends two_clients []" "of_connection two_clients (Suc 0)" "of_connection two_clients 2"
  by (simp_all add: two_clients_def pending_sends_def of_connection_def empty_server_def zero_buffer_def)

end
