(* ===== verification/IocpProperties.thy ===== *)
theory IocpProperties
  imports IocpExample
begin

text \<open>The properties of the completion port server.\<close>

section \<open>Ownership\<close>



section \<open>The echo\<close>



section \<open>Faults\<close>



section \<open>Sends\<close>



text \<open>
  C36. Sends are dequeued in the order in which they were enqueued, behind those that were pending, and
  then there are none.
\<close>

theorem pending_sends_in_order:
  assumes "pending_sends s P" "distinct (P @ es)" "\<And>e. e \<in> set es \<Longrightarrow> of_connection s e"
  shows "wp (push_all (\<lambda>e. EnqueuePendingOperation e OP_WRITE) es s) (\<lambda>_ t.
    wp (drain (DequeuePendingOperation OP_WRITE) (length (P @ es)) t) (\<lambda>rs u.
      rs = map Some (P @ es) \<and> wp (DequeuePendingOperation OP_WRITE u) (\<lambda>r v. r = None \<and> pending_sends v [])))"
  by (rule send_queue.in_order [OF assms])

lemma pending_example:
  "wp (push_all (\<lambda>e. EnqueuePendingOperation e OP_WRITE) [2, 1] two_clients) (\<lambda>_ t.
    wp (drain (DequeuePendingOperation OP_WRITE) (length ([] @ [2, 1 :: nat])) t) (\<lambda>rs u.
      rs = map Some ([] @ [2, 1]) \<and> wp (DequeuePendingOperation OP_WRITE u) (\<lambda>r v. r = None \<and> pending_sends v [])))"
  by (rule pending_sends_in_order) (auto simp: two_clients_idle)

text \<open>
  C37. A send that fails stays counted.  Once the count has reached the limit without a send in flight,
  no step of the server ever sends anything again, whatever it receives, and the count stays where it is.
\<close>

theorem jammed_server_never_sends:
  assumes "jammed s" "(iocp_step W)\<^sup>*\<^sup>* s t"
  shows "jammed t \<and> filter is_sent (net t) = filter is_sent (net s)"
proof -
  have "jam (filter is_sent (net s)) t"
    using assms(2)
  proof (induction rule: rtranclp_induct)
    case base
    then show ?case using assms(1) by (simp add: jam_def)
  qed (rule jam_step)
  then show ?thesis by (simp add: jam_def)
qed

lemma jammed_example: "reachable_server willing small_args 1 1 [AF_INET] failed1 \<and> jammed failed1 \<and>
  filter is_sent (net (SetEvent 4 failed1)) = filter is_sent (net failed1)"
proof -
  have j: "jammed failed1" using failure_runs by (simp add: jammed_def)
  have "(iocp_step willing)\<^sup>*\<^sup>* failed1 (SetEvent 4 failed1)" by (rule r_into_rtranclp) (rule Step_signal)
  then show ?thesis using jammed_server_never_sends [OF j] failed1_reachable j by blast
qed

section \<open>Accepts\<close>

text \<open>
  C38. When the accept at the head of the list of a listening socket fails, its buffer is freed but
  stays on the list.  The next accept that is posted takes the buffer again, the list runs in a circle,
  and the search for any other accept never returns.
\<close>

theorem failed_accept_stops_search:
  assumes "lstns s l = Some lo" "PendingAccepts lo = Some b" "bufs s b = Some ob" "operation ob = OP_ACCEPT" "error \<noteq> 0"
  shows "wp (HandleIo W l b n error s) (\<lambda>_ t. wp (add_accept W l t) (\<lambda>_ u. \<forall>x. x \<noteq> b \<longrightarrow> RemovePendingAccept l x u = None))"
proof (rule wp_mono [OF failed_accept [OF assms(3-5)]], elim conjE exE)
  fix t :: iocp and ob' assume t: "lstns t = lstns s" "gFreeBufferList t = Some b" "bufs t b = Some ob'"
  show "wp (add_accept W l t) (\<lambda>_ u. \<forall>x. x \<noteq> b \<longrightarrow> RemovePendingAccept l x u = None)"
    by (rule wp_mono [OF accepted_again [of t l lo b ob']]) (use t assms in \<open>auto intro: RemovePendingAccept_circle\<close>)
qed

lemma failed_accept_example:
  "wp (HandleIo willing 0 1 0 64 server0) (\<lambda>_ t. wp (add_accept willing 0 t) (\<lambda>_ u. RemovePendingAccept 0 2 u = None))"
proof -
  obtain lo ob where o: "lstns server0 0 = Some lo" "PendingAccepts lo = Some 1" "bufs server0 1 = Some ob" "operation ob = OP_ACCEPT"
    using main_runs listener_runs by auto
  show ?thesis
    by (rule wp_mono [OF failed_accept_stops_search [OF o, of 64 willing 0]]) (auto elim: wp_mono)
qed



section \<open>The start\<close>



end
