(* ===== verification/Spec2Isabelle.thy ===== *)
theory Spec2Isabelle
  imports NfpDriver LspProperties NspProperties IocpProperties
begin

text \<open>
  A verification library for the network programs of this repository.  Four programs are modelled:

  \<^bold>\<open>The near-field proximity sample driver\<close> (\<open>Near-Field Proximity Sample Driver (UMDF Version
  1)/C++/driver\<close>), a user-mode driver that publishes and subscribes messages between machines over
  TCP.  Clients open handles whose file name says what they publish or subscribe, and talk to them
  with control requests; the driver keeps the handles on lists by role, accepts and opens connections
  to other machines, and hands what it receives to the subscriptions.

  \<^item> \<open>IntrusiveList\<close>: \<open>list.h\<close> over a store of links, with \<open>ring\<close>, which says that a head carries a list.
  \<^item> \<open>Win32\<close>: status codes, byte and character strings, the wide string routines the sources use.
  \<^item> \<open>NfpState\<close>: the state, a heap of \<open>CFileContext\<close> and \<open>CConnection\<close> records, the four lists, locks
    and a trace of the calls to the framework and to Winsock, whose answers are parameters.
  \<^item> \<open>Connection\<close>, \<open>FileContext\<close>, \<open>NfpQueue\<close>, \<open>SocketListener\<close>, \<open>NfpDriver\<close>: the operations of
    \<open>Connection.cpp\<close>, \<open>FileContext.cpp\<close>, \<open>Queue.cpp\<close>, \<open>socketlistener.cpp\<close>, and the whole object.
  \<^item> \<open>NfpInvariants\<close>, \<open>NfpRequests\<close>, \<open>NfpSystem\<close>: locales for invariants that survive the primitive
    changes of an operation, the protocol of requests as an abstract machine, and the step relation
    of the driver with its reachable states.
  \<^item> \<open>NfpSafety\<close>, \<open>NfpDelivery\<close>, \<open>NfpNames\<close>, \<open>NfpLifetime\<close>: total correctness of the receive path,
    refinement of delivery to mailboxes, the meaning of file names, the end of connections.
  \<^item> \<open>NfpProperties\<close>, \<open>ConnectionProperties\<close>: the properties.  \<open>NfpExample\<close> is an instance for witnesses.

  \<^bold>\<open>The layered service provider\<close> (\<open>network-programming-for-mswin-cdrom/chapter12/LSP\<close>), a Winsock
  layer that stands between applications and the provider below, keeps a context per socket and
  replaces overlapped structures by its own.

  \<^item> \<open>LspState\<close>: types of \<open>provider.h\<close> and the globals as one record; \<open>LspSockInfo\<close> (\<open>sockinfo.cpp\<close>),
    \<open>LspOverlap\<close> (\<open>overlap.cpp\<close>), \<open>LspSpi\<close> and \<open>LspStartup\<close> (\<open>spi.cpp\<close>, \<open>asyncselect.cpp\<close>, \<open>provider.cpp\<close>)
    and \<open>LspExt\<close> (\<open>extension.cpp\<close>): every operation.
  \<^item> \<open>LspLists\<close>: the list of contexts as a HOL list; \<open>Containers\<close>: what users of a first-in first-out
    queue and of a pool rely on, as locales; \<open>LspQueues\<close>: the pending operations and the pool of
    overlapped structures as instances of them.
  \<^item> \<open>LspCalls\<close>, \<open>LspCompletion\<close>, \<open>LspSession\<close>, \<open>LspSelect\<close>: calls on a live socket, overlapped operations
    from start to completion, startup and the choice of a provider, \<open>WSPSelect\<close>.
  \<^item> \<open>LspProperties\<close>: the properties, at the instance of \<open>LspExample\<close>.

  \<^bold>\<open>The name space provider\<close> (\<open>network-programming-for-mswin-cdrom/chapter12/NSP\<close>): a DLL through
  which applications register and look up services, and a service that keeps the tables; the two
  exchange structures over a connection per call.

  \<^item> \<open>NspMemory\<close>, \<open>NspMarshal\<close>, \<open>NspNet\<close>: a byte memory with 32-bit pointers, the marshalling and
    transfer of \<open>nspsvc.cpp\<close>; \<open>NspService\<close> (\<open>mynspsvc.cpp\<close>) and \<open>NspClient\<close> (\<open>mynsp.cpp\<close>): the tables,
    the eight requests, the loop of \<open>main\<close>, and the entry points of the DLL.
  \<^item> \<open>NspWrite\<close>, \<open>NspRead\<close>, \<open>NspRoundtrip\<close>: marshalling is a concatenation of images, the contract of
    the members is the locale \<open>sized\<close>, and demarshalling restores the value.
  \<^item> \<open>NspState\<close>, \<open>NspSpec\<close>: the tables as lists of values and what the service promises over them;
    \<open>NspRequests\<close>, \<open>NspServe\<close>, \<open>NspRemove\<close>: each request refines its specification.
  \<^item> \<open>NspCalls\<close>, \<open>NspInstall\<close>, \<open>NspLimits\<close>: calls from end to end, over any network that delivers;
    \<open>NspProperties\<close>: the properties, at the instance of \<open>NspExample\<close>.

  \<^bold>\<open>The completion port server\<close> (\<open>network-programming-for-mswin-cdrom/chapter06/iocpserver.cpp\<close>), an
  echo server: completion threads handle what Windows reports of accepts, receives and sends, a limit
  holds for the sends that are outstanding, and the main thread posts accepts as events ask for them.

  \<^item> \<open>IocpState\<close>: the buffers, connections and listening sockets, the globals as one record, the calls
    to Winsock, and what has come and gone on each handle as a trace; \<open>IocpServer\<close>: the pending sends,
    the lookaside lists, \<open>PostRecv\<close>, \<open>PostSend\<close>, \<open>PostAccept\<close>, \<open>HandleIo\<close> and \<open>CompletionThread\<close>;
    \<open>IocpMain\<close>: the command line, the listening sockets, the statistics, the turns of the loop.
  \<^item> \<open>IocpLists\<close>: the pending sends and both lookaside lists as instances of the locales of \<open>Containers\<close>,
    the pending accepts as a list.
  \<^item> \<open>IocpInvariant\<close>: every buffer has one owner, every connection one buffer, and what is on the way
    says how far the echo has come; \<open>IocpTokens\<close>, \<open>IocpOwners\<close>: what passing a buffer on preserves;
    \<open>IocpHandlers\<close>, \<open>IocpConnections\<close>, \<open>IocpAccepts\<close>, \<open>IocpHandleIo\<close>, \<open>IocpCompletions\<close>, \<open>IocpServing\<close>:
    that every handler and every turn of the loop preserves the invariant, and runs without a fault.
  \<^item> \<open>IocpReach\<close>, \<open>IocpStart\<close>: the step relation, its reachable states and that \<open>main\<close> establishes the
    invariant; \<open>IocpLimits\<close>: the limits on sends, accepts and events, and accepts that fail;
    \<open>IocpProperties\<close>: the properties, at the instance of \<open>IocpExample\<close>.

  In a step an accept that completes has succeeded; what a failed one does is property
  \<open>failed_accept_stops_search\<close>, and the invariant does not survive it.  \<open>patient\<close> says for the same
  reason that no client stays silent for five minutes, \<open>calm\<close> that no send is refused for lack of
  buffers, where the code breaks into the debugger.  A buffer holds the 288 bytes that an accept needs.

  \<^bold>\<open>Conventions.\<close>  Stateful code is a function from the state to \<open>(result, state) outcome\<close>; \<open>None\<close> is
  behaviour C++ leaves undefined (a null or dangling pointer, a read past an array, leaving a lock
  that is not held) or a wait that does not end.  \<open>wp\<close> says that a run is defined and establishes its
  postcondition, \<open>wlp\<close> that it does so if it is defined.  32-bit counters are words and wrap.  Loops
  over linked lists that are not structurally recursive are \<open>partial_function (option)\<close>, and their
  returning is proved.  What Windows, Winsock, the driver framework and the provider below answer is
  a function of the calls made so far, so theorems hold for every behaviour of theirs unless a named
  hypothesis says otherwise.

  \<^bold>\<open>Not modelled.\<close>  Handlers run one after the other: the interleaving of two threads inside one handler
  is modelled only where a lock or a wait between them is the point.  Tracing, printing, registration
  with COM and with the catalog, and the message pump of the hidden window have no model.  The rest
  of the repository is listed component by component in the manifest, with the reason.
\<close>

end
